(* ===== verification/Relay_Prelude.thy ===== *)
theory Relay_Prelude
  imports Main "HOL-Library.Char_ord" "HOL-Library.List_Lexorder" "HOL-Library.Product_Lexorder"
begin

text \<open>
  Shared vocabulary of the development: Go's fixed-width integers, instants and durations,
  the relational operations that the SQL statements of the repository use, and the generic
  lemmas on lists, maps and sums that the component theories rely on.

  Conventions.
  \<^item> A Go \<open>int\<close> or \<open>int64\<close> on which the program computes is an \<open>int\<close>, and every
    arithmetic operation that can leave the range is wrapped by \<open>i64\<close>; a \<open>uint64\<close> is a
    \<open>nat\<close>, wrapped by \<open>u64\<close>.
  \<^item> An instant (\<open>time.Time\<close>) is the number of nanoseconds since the Unix epoch, a
    \<open>time.Duration\<close> a number of nanoseconds. The zero \<open>time.Time\<close> is a fixed instant,
    and \<open>Time.Sub\<close> saturates, as the Go library documents.
  \<^item> A Go map is a partial function; where the code ranges over a map, the order of the
    iteration is an argument of the model, a list of the keys, and the theorems hold for
    every order.
  \<^item> A database table is a list of rows.
\<close>

named_theorems relay_defs \<open>definitions that the component proofs unfold\<close>
named_theorems relay_inv \<open>preservation lemmas of the component invariants\<close>
named_theorems relay_frame \<open>fields that an operation leaves unchanged\<close>

section \<open>Fixed-width integers\<close>

definition i64 :: "int \<Rightarrow> int" where
  "i64 x = (x + 2 ^ 63) mod 2 ^ 64 - 2 ^ 63"

definition u64 :: "nat \<Rightarrow> nat" where
  "u64 n = n mod 2 ^ 64"

definition in_i64 :: "int \<Rightarrow> bool" where
  "in_i64 x \<longleftrightarrow> - (2 ^ 63) \<le> x \<and> x < 2 ^ 63"

lemma i64_id [simp]: "in_i64 x \<Longrightarrow> i64 x = x"
  by (simp add: i64_def in_i64_def)

lemma in_i64_i64 [simp]: "in_i64 (i64 x)"
proof -
  have "0 \<le> (x + 2 ^ 63) mod 2 ^ 64" "(x + 2 ^ 63) mod 2 ^ 64 < (2 ^ 64 :: int)"
    by simp_all
  then show ?thesis by (simp add: in_i64_def i64_def)
qed

lemma i64_eq_iff: "i64 x = i64 y \<longleftrightarrow> x mod 2 ^ 64 = y mod 2 ^ 64"
proof -
  have "i64 x = i64 y \<longleftrightarrow> (x + 2 ^ 63) mod 2 ^ 64 = (y + 2 ^ 63) mod (2 ^ 64 :: int)"
    by (simp add: i64_def)
  also have "\<dots> \<longleftrightarrow> x mod 2 ^ 64 = y mod 2 ^ 64"
    by (simp add: mod_eq_dvd_iff)
  finally show ?thesis .
qed

lemma i64_mod: "i64 x mod 2 ^ 64 = x mod 2 ^ 64"
  using i64_eq_iff [of "i64 x" x] by simp

lemma i64_add_cong: "i64 (i64 x + y) = i64 (x + y)" "i64 (y + i64 x) = i64 (y + x)"
  unfolding i64_eq_iff by (rule mod_add_cong [OF i64_mod refl], rule mod_add_cong [OF refl i64_mod])

lemma i64_diff_cong: "i64 (i64 x - y) = i64 (x - y)" "i64 (y - i64 x) = i64 (y - x)"
  unfolding i64_eq_iff by (rule mod_diff_cong [OF i64_mod refl], rule mod_diff_cong [OF refl i64_mod])

lemma i64_move: "i64 (i64 x - y + z) = i64 (x - y + z)"
  using i64_add_cong(1) [of x "z - y"] by (simp add: algebra_simps)

lemmas i64_ring = i64_add_cong i64_diff_cong i64_move

lemma u64_less [simp]: "u64 n < 2 ^ 64"
  by (simp add: u64_def)

lemma u64_id [simp]: "n < 2 ^ 64 \<Longrightarrow> u64 n = n"
  by (simp add: u64_def)

section \<open>Instants and durations\<close>

type_synonym time = int
type_synonym duration = int

definition second :: duration where
  "second = 1000000000"

definition millisecond :: duration where
  "millisecond = 1000000"

text \<open>The zero \<open>time.Time\<close> is January 1 of year 1, which is 62135596800 seconds before 1970.\<close>

definition zero_time :: time where
  "zero_time = - 62135596800 * 1000000000"

definition time_sub :: "time \<Rightarrow> time \<Rightarrow> duration" where
  "time_sub a b = max (- (2 ^ 63)) (min (2 ^ 63 - 1) (a - b))"

lemma time_sub_gt: "d < 2 ^ 63 - 1 \<Longrightarrow> - (2 ^ 63) \<le> d \<Longrightarrow> d < time_sub a b \<longleftrightarrow> d < a - b"
  by (auto simp: time_sub_def)

lemma time_sub_self [simp]: "time_sub a a = 0"
  by (simp add: time_sub_def)

section \<open>Relational operations\<close>

text \<open>\<open>UPDATE t SET f WHERE P\<close>, and the number of rows a \<open>WHERE\<close> clause selects.\<close>

definition update_where :: "('r \<Rightarrow> bool) \<Rightarrow> ('r \<Rightarrow> 'r) \<Rightarrow> 'r list \<Rightarrow> 'r list" where
  "update_where P f t = map (\<lambda>r. if P r then f r else r) t"

definition count_where :: "('r \<Rightarrow> bool) \<Rightarrow> 'r list \<Rightarrow> nat" where
  "count_where P t = length (filter P t)"

lemma length_update_where [simp]: "length (update_where P f t) = length t"
  by (simp add: update_where_def)

lemma set_update_where: "set (update_where P f t) = (\<lambda>r. if P r then f r else r) ` set t"
  by (simp add: update_where_def)

lemma update_where_Nil [simp]: "update_where P f [] = []"
  and update_where_Cons [simp]:
    "update_where P f (r # t) = (if P r then f r else r) # update_where P f t"
  by (simp_all add: update_where_def)

lemma update_where_append [simp]:
  "update_where P f (t @ u) = update_where P f t @ update_where P f u"
  by (simp add: update_where_def)

lemma update_where_none: "(\<And>r. r \<in> set t \<Longrightarrow> \<not> P r) \<Longrightarrow> update_where P f t = t"
  by (induction t) auto

lemma map_update_where: "(\<And>r. P r \<Longrightarrow> k (f r) = k r) \<Longrightarrow> map k (update_where P f t) = map k t"
  by (induction t) auto

lemma count_where_Nil [simp]: "count_where P [] = 0"
  and count_where_Cons [simp]: "count_where P (r # t) = (if P r then Suc (count_where P t) else count_where P t)"
  and count_where_append [simp]: "count_where P (t @ u) = count_where P t + count_where P u"
  by (simp_all add: count_where_def)

lemma count_where_le_length: "count_where P t \<le> length t"
  by (simp add: count_where_def)

lemma count_where_0_iff: "count_where P t = 0 \<longleftrightarrow> (\<forall>r \<in> set t. \<not> P r)"
  by (induction t) auto

lemma count_where_mono: "(\<And>r. r \<in> set t \<Longrightarrow> P r \<Longrightarrow> Q r) \<Longrightarrow> count_where P t \<le> count_where Q t"
proof (induction t)
  case (Cons r t)
  have "count_where P t \<le> count_where Q t"
    using Cons.prems by (intro Cons.IH) simp
  with Cons.prems [of r] show ?case by auto
qed simp

text \<open>An update that never turns a row from outside \<open>Q\<close> into \<open>Q\<close> cannot raise the count.\<close>

lemma count_update_where_le:
  "(\<And>r. r \<in> set t \<Longrightarrow> P r \<Longrightarrow> Q (f r) \<Longrightarrow> Q r) \<Longrightarrow>
   count_where Q (update_where P f t) \<le> count_where Q t"
proof (induction t)
  case (Cons r t)
  have "count_where Q (update_where P f t) \<le> count_where Q t"
    using Cons.prems by (intro Cons.IH) simp
  with Cons.prems [of r] show ?case by auto
qed simp

lemma count_update_where_eq:
  "(\<And>r. r \<in> set t \<Longrightarrow> P r \<Longrightarrow> Q (f r) = Q r) \<Longrightarrow>
   count_where Q (update_where P f t) = count_where Q t"
proof (induction t)
  case (Cons r t)
  have "count_where Q (update_where P f t) = count_where Q t"
    using Cons.prems by (intro Cons.IH) simp
  with Cons.prems [of r] show ?case by auto
qed simp

section \<open>Finding a row\<close>

lemma find_Some_iff_hd: "find P xs = Some x \<Longrightarrow> x \<in> set xs \<and> P x"
  by (auto simp: find_Some_iff)

lemma find_None_set: "find P xs = None \<longleftrightarrow> (\<forall>x \<in> set xs. \<not> P x)"
  by (auto simp: find_None_iff)

section \<open>Sums over a map that is updated at one key\<close>

lemma sum_fun_upd:
  fixes g :: "'v \<Rightarrow> int"
  assumes "finite (dom m)"
  shows "(\<Sum>k \<in> dom (m(a \<mapsto> v)). g (the ((m(a \<mapsto> v)) k))) =
         (\<Sum>k \<in> dom m. g (the (m k))) - (case m a of None \<Rightarrow> 0 | Some w \<Rightarrow> g w) + g v"
proof -
  let ?S = "dom m - {a}"
  have fin: "finite ?S" using assms by simp
  have "(\<Sum>k \<in> dom (m(a \<mapsto> v)). g (the ((m(a \<mapsto> v)) k))) = g v + (\<Sum>k \<in> ?S. g (the ((m(a \<mapsto> v)) k)))"
    using fin by (simp add: sum.insert_remove [of "dom m"] assms)
  also have "(\<Sum>k \<in> ?S. g (the ((m(a \<mapsto> v)) k))) = (\<Sum>k \<in> ?S. g (the (m k)))"
    by (rule sum.cong) auto
  also have "(\<Sum>k \<in> ?S. g (the (m k))) =
      (\<Sum>k \<in> dom m. g (the (m k))) - (case m a of None \<Rightarrow> 0 | Some w \<Rightarrow> g w)"
  proof (cases "m a")
    case None
    then have "?S = dom m" by auto
    then show ?thesis using None by simp
  next
    case (Some w)
    then have "a \<in> dom m" by auto
    then show ?thesis using assms Some by (simp add: sum_diff1)
  qed
  finally show ?thesis by (simp only: add.commute [of "g v"])
qed

end
