(* ===== verification/Domain_Model.thy ===== *)
theory Domain_Model
  imports Relay_Prelude
begin

text \<open>
  The shared domain types of \<^verbatim>\<open>backend/internal/domain/model.go\<close>: the phases of a stream session
  and their transitions, resource vectors with 64-bit wrap-around, the fenced command
  envelope that the controller sends to a node agent, and the projection of an observed
  status.
\<close>

section \<open>Session phases\<close>

datatype session_phase =
  PendingIngest | Scheduling | Starting | Live | Stopping | Ended | Failed

definition transitions :: "session_phase \<Rightarrow> session_phase list" where
  "transitions p = (case p of
     PendingIngest \<Rightarrow> [Scheduling, Failed]
   | Scheduling \<Rightarrow> [Starting, Failed]
   | Starting \<Rightarrow> [Live, Failed, Stopping]
   | Live \<Rightarrow> [Stopping, Failed]
   | Stopping \<Rightarrow> [Ended, Failed]
   | Ended \<Rightarrow> []
   | Failed \<Rightarrow> [])"

definition CanTransition :: "session_phase \<Rightarrow> session_phase \<Rightarrow> bool" where
  "CanTransition from to \<longleftrightarrow> to \<in> set (transitions from)"

datatype domain_error =
  InvalidTransition | IncompleteCommand | DeadlineExpired

definition Transition :: "session_phase \<Rightarrow> session_phase \<Rightarrow> domain_error + unit" where
  "Transition from to = (if \<not> CanTransition from to then Inl InvalidTransition else Inr ())"

text \<open>\<open>phase NOT IN ('ENDED','FAILED')\<close>, the condition that the SQL of the store uses.\<close>

definition active_phase :: "session_phase \<Rightarrow> bool" where
  "active_phase p \<longleftrightarrow> p \<noteq> Ended \<and> p \<noteq> Failed"

text \<open>A rank that every transition raises: the lifecycle of a session has no cycle.\<close>

fun phase_rank :: "session_phase \<Rightarrow> nat" where
  "phase_rank PendingIngest = 0"
| "phase_rank Scheduling = 1"
| "phase_rank Starting = 2"
| "phase_rank Live = 3"
| "phase_rank Stopping = 4"
| "phase_rank Ended = 5"
| "phase_rank Failed = 5"

lemma CanTransition_rank: "CanTransition p q \<Longrightarrow> phase_rank p < phase_rank q"
  by (cases p) (auto simp: CanTransition_def transitions_def)

lemma CanTransition_active: "CanTransition p q \<Longrightarrow> active_phase p"
  by (cases p) (auto simp: CanTransition_def transitions_def active_phase_def)

inductive lifecycle :: "session_phase list \<Rightarrow> bool" where
  lifecycle_one: "lifecycle [p]"
| lifecycle_step: "lifecycle (q # ps) \<Longrightarrow> Transition p q = Inr () \<Longrightarrow> lifecycle (p # q # ps)"

inductive_cases lifecycle_ConsE: "lifecycle (p # q # ps)"

lemma lifecycle_rank: "lifecycle ps \<Longrightarrow> phase_rank (hd ps) + length ps \<le> Suc (phase_rank (last ps))"
proof (induction rule: lifecycle.induct)
  case (lifecycle_step q ps p)
  then have "phase_rank p < phase_rank q"
    by (auto simp: Transition_def split: if_splits intro: CanTransition_rank)
  with lifecycle_step show ?case by simp
qed simp

section \<open>Resource vectors\<close>

record resource_vector =
  Slots :: int
  CPUMillis :: int
  MemoryBytes :: int
  IngressBPS :: int
  EgressBPS :: int

abbreviation rv_zero :: resource_vector where
  "rv_zero \<equiv> \<lparr>Slots = 0, CPUMillis = 0, MemoryBytes = 0, IngressBPS = 0, EgressBPS = 0\<rparr>"

definition Fits :: "resource_vector \<Rightarrow> resource_vector \<Rightarrow> bool" where
  "Fits a capacity \<longleftrightarrow> Slots a \<le> Slots capacity \<and> CPUMillis a \<le> CPUMillis capacity
     \<and> MemoryBytes a \<le> MemoryBytes capacity \<and> IngressBPS a \<le> IngressBPS capacity
     \<and> EgressBPS a \<le> EgressBPS capacity"

definition Add :: "resource_vector \<Rightarrow> resource_vector \<Rightarrow> resource_vector" where
  "Add a b = \<lparr>Slots = i64 (Slots a + Slots b), CPUMillis = i64 (CPUMillis a + CPUMillis b),
     MemoryBytes = i64 (MemoryBytes a + MemoryBytes b),
     IngressBPS = i64 (IngressBPS a + IngressBPS b), EgressBPS = i64 (EgressBPS a + EgressBPS b)\<rparr>"

definition Sub :: "resource_vector \<Rightarrow> resource_vector \<Rightarrow> resource_vector" where
  "Sub a b = \<lparr>Slots = i64 (Slots a - Slots b), CPUMillis = i64 (CPUMillis a - CPUMillis b),
     MemoryBytes = i64 (MemoryBytes a - MemoryBytes b),
     IngressBPS = i64 (IngressBPS a - IngressBPS b), EgressBPS = i64 (EgressBPS a - EgressBPS b)\<rparr>"

text \<open>The five selectors, so that a law is stated once for every dimension.\<close>

definition dims :: "(resource_vector \<Rightarrow> int) list" where
  "dims = [Slots, CPUMillis, MemoryBytes, IngressBPS, EgressBPS]"

lemma dims_zero [simp]: "f \<in> set dims \<Longrightarrow> f rv_zero = 0"
  and dims_Add: "f \<in> set dims \<Longrightarrow> f (Add a b) = i64 (f a + f b)"
  and dims_Sub: "f \<in> set dims \<Longrightarrow> f (Sub a b) = i64 (f a - f b)"
  by (auto simp: dims_def Add_def Sub_def)

lemma Fits_dims: "Fits a c \<longleftrightarrow> (\<forall>f \<in> set dims. f a \<le> f c)"
  by (auto simp: Fits_def dims_def)

lemma dims_eqI: "(\<And>f. f \<in> set dims \<Longrightarrow> f a = f b) \<Longrightarrow> (a :: resource_vector) = b"
  by (simp add: dims_def)

definition in_range :: "resource_vector \<Rightarrow> bool" where
  "in_range a \<longleftrightarrow> (\<forall>f \<in> set dims. in_i64 (f a))"

definition nonneg :: "resource_vector \<Rightarrow> bool" where
  "nonneg a \<longleftrightarrow> (\<forall>f \<in> set dims. 0 \<le> f a)"

lemma nonnegD: "nonneg a \<Longrightarrow> f \<in> set dims \<Longrightarrow> 0 \<le> f a"
  unfolding nonneg_def by blast

lemma Sub_Add_cancel: "in_range a \<Longrightarrow> Sub (Add a b) b = a"
  by (rule dims_eqI) (simp add: dims_Sub dims_Add i64_ring in_range_def)

lemma Add_Sub_cancel: "in_range a \<Longrightarrow> Add (Sub a b) b = a"
  by (rule dims_eqI) (simp add: dims_Sub dims_Add i64_ring in_range_def)

lemma Fits_refl [simp]: "Fits a a"
  by (simp add: Fits_dims)

lemma Fits_trans [trans]: "Fits a b \<Longrightarrow> Fits b c \<Longrightarrow> Fits a c"
  by (auto simp: Fits_dims intro: order_trans)

text \<open>
  Admission against what is left of a capacity: within the non-negative range no difference
  wraps, so a request that fits what is left keeps the total within the capacity.
\<close>

lemma i64_left_nonneg:
  assumes "in_i64 c" "0 \<le> u" "0 \<le> v" "u + v \<le> c"
  shows "i64 (i64 (c - u) - v) = c - u - v"
  using assms by (intro trans [OF i64_diff_cong(1)]) (simp add: in_i64_def)

lemma Fits_left_total:
  assumes "in_range c" "nonneg u" "nonneg v" "\<And>f. f \<in> set dims \<Longrightarrow> f u + f v \<le> f c"
    and "Fits r (Sub (Sub c u) v)" "f \<in> set dims"
  shows "f u + f v + f r \<le> f c"
proof -
  have "f r \<le> i64 (i64 (f c - f u) - f v)"
    using assms(5,6) by (simp add: Fits_dims dims_Sub)
  also have "\<dots> = f c - f u - f v"
    using assms(1-4,6) by (intro i64_left_nonneg) (auto simp: in_range_def nonneg_def)
  finally show ?thesis by simp
qed

section \<open>Fenced commands\<close>

record command =
  CommandID :: string
  ResourceID :: string
  TraceID :: string
  Generation :: nat
  FencingToken :: nat
  Deadline :: time

definition Command_Validate :: "command \<Rightarrow> time \<Rightarrow> domain_error + unit" where
  "Command_Validate c now =
     (if CommandID c = '''' \<or> ResourceID c = '''' \<or> TraceID c = '''' \<or> Generation c = 0 \<or> FencingToken c = 0
      then Inl IncompleteCommand
      else if \<not> (Deadline c > now) then Inl DeadlineExpired
      else Inr ())"

lemma Command_Validate_Inr:
  "Command_Validate c now = Inr () \<Longrightarrow> 0 < FencingToken c \<and> 0 < Generation c \<and> now < Deadline c"
  by (auto simp: Command_Validate_def split: if_splits)

section \<open>Observed status\<close>

record observed_status =
  Desired :: string
  Observed :: string
  LastSeen :: time
  ErrorCode :: string

definition Project :: "observed_status \<Rightarrow> time \<Rightarrow> duration \<Rightarrow> string" where
  "Project s now staleAfter =
     (if LastSeen s = zero_time \<or> time_sub now (LastSeen s) > staleAfter then ''UNKNOWN''
      else if ErrorCode s \<noteq> '''' then ''DEGRADED''
      else if Desired s = ''STOPPED'' \<and> Observed s = ''STOPPED'' then ''STOPPED''
      else if Desired s = ''RUNNING'' \<and> Observed s = ''RUNNING'' then ''LIVE''
      else ''TRANSITIONING'')"

end
