(* ===== verification/Worker_Status.thy ===== *)
theory Worker_Status
  imports Relay_Prelude
begin

text \<open>
  Lifecycle events of a worker and the status snapshot that is folded from them:
  \<^verbatim>\<open>backend/internal/worker/events.go\<close> and \<^verbatim>\<open>backend/internal/worker/status.go\<close>. The event metrics of
  \<^verbatim>\<open>backend/internal/telemetry/metrics.go\<close> are another fold over the same events.
\<close>

section \<open>Events\<close>

datatype event_type =
    InputConnecting | InputLive | FallbackActive | InputRejected | InputLost | InputUnavailable
  | DestinationConnecting | DestinationStreaming | DestinationReconnecting | DestinationFailed
  | DestinationStopped | WorkerStopping | WorkerStopped

datatype error_code =
    NoCode | ErrInputUnavailable | ErrUnsupportedMedia | ErrDestinationAuth | ErrDestinationNet
  | ErrPipeline | ErrShutdownTimeout

datatype field_value = FBool bool | FString string | FInt int

record event =
  Timestamp :: time
  Type :: event_type
  ev_SessionID :: string
  ev_DestinationID :: string
  ev_Generation :: nat
  Code :: error_code
  ev_Attempt :: int
  Fields :: "string \<rightharpoonup> field_value"

text \<open>\<open>v, _ := e.Fields[k].(bool)\<close>: false where the field is missing or of another type.\<close>

definition bool_field :: "event \<Rightarrow> string \<Rightarrow> bool" where
  "bool_field e k = (case Fields e k of Some (FBool b) \<Rightarrow> b | _ \<Rightarrow> False)"

section \<open>Snapshot\<close>

datatype dest_phase = NoState | CONNECTING | STREAMING | RECONNECTING | FAILED | STOPPED

record destination_status =
  ds_State :: dest_phase
  ds_Generation :: nat
  Reconnects :: int
  ds_ErrorCode :: error_code

definition zero_destination_status :: destination_status where
  "zero_destination_status = \<lparr>ds_State = NoState, ds_Generation = 0, Reconnects = 0, ds_ErrorCode = NoCode\<rparr>"

record snapshot =
  InputError :: error_code
  snap_FallbackActive :: bool
  snap_FallbackForced :: bool
  snap_InputLive :: bool
  snap_InputUnavailable :: bool
  snap_Timestamp :: time
  snap_Destinations :: "string \<rightharpoonup> destination_status"

definition empty_status :: snapshot where
  "empty_status = \<lparr>InputError = NoCode, snap_FallbackActive = False, snap_FallbackForced = False,
     snap_InputLive = False, snap_InputUnavailable = False, snap_Timestamp = zero_time,
     snap_Destinations = Map.empty\<rparr>"

definition observe_input :: "event \<Rightarrow> snapshot \<Rightarrow> snapshot" where
  "observe_input e s = (case Type e of
     InputLive \<Rightarrow> s\<lparr>InputError := NoCode, snap_InputLive := True, snap_FallbackActive := False,
       snap_FallbackForced := False, snap_InputUnavailable := False\<rparr>
   | InputRejected \<Rightarrow> s\<lparr>InputError := ErrUnsupportedMedia, snap_InputLive := False\<rparr>
   | FallbackActive \<Rightarrow>
       (let live = bool_field e ''source_live'';
            s1 = s\<lparr>snap_InputLive := live\<rparr>;
            s2 = (if live then s1\<lparr>InputError := NoCode\<rparr> else s1)
        in s2\<lparr>snap_FallbackActive := True, snap_FallbackForced := bool_field e ''forced'',
             snap_InputUnavailable := False\<rparr>)
   | InputUnavailable \<Rightarrow> s\<lparr>snap_InputLive := False, snap_FallbackActive := False,
       snap_FallbackForced := False, snap_InputUnavailable := True\<rparr>
   | InputLost \<Rightarrow> s\<lparr>InputError := NoCode, snap_InputLive := False, snap_FallbackActive := False,
       snap_FallbackForced := False, snap_InputUnavailable := False\<rparr>
   | WorkerStopped \<Rightarrow> s\<lparr>InputError := NoCode, snap_InputLive := False, snap_FallbackActive := False,
       snap_FallbackForced := False, snap_InputUnavailable := False\<rparr>
   | _ \<Rightarrow> s)"

definition dest_state_of :: "event_type \<Rightarrow> dest_phase option" where
  "dest_state_of t = (case t of
     DestinationConnecting \<Rightarrow> Some CONNECTING
   | DestinationStreaming \<Rightarrow> Some STREAMING
   | DestinationReconnecting \<Rightarrow> Some RECONNECTING
   | DestinationFailed \<Rightarrow> Some FAILED
   | DestinationStopped \<Rightarrow> Some STOPPED
   | _ \<Rightarrow> None)"

definition dest_of :: "snapshot \<Rightarrow> string \<Rightarrow> destination_status" where
  "dest_of s d = (case snap_Destinations s d of Some x \<Rightarrow> x | None \<Rightarrow> zero_destination_status)"

definition Observe :: "event \<Rightarrow> snapshot \<Rightarrow> snapshot" where
  "Observe e s0 =
     (let s = observe_input e s0 in
      case dest_state_of (Type e) of
        None \<Rightarrow> s
      | Some st \<Rightarrow>
          (let old = dest_of s (ev_DestinationID e) in
           if ev_Generation e < ds_Generation old then s
           else let new = old\<lparr>ds_State := st, ds_Generation := ev_Generation e, ds_ErrorCode := Code e,
                      Reconnects := (if Type e = DestinationReconnecting then i64 (Reconnects old + 1) else Reconnects old)\<rparr>
                in s\<lparr>snap_Destinations := (snap_Destinations s)(ev_DestinationID e \<mapsto> new)\<rparr>))"

definition Snapshot :: "time \<Rightarrow> snapshot \<Rightarrow> snapshot" where
  "Snapshot now s = s\<lparr>snap_Timestamp := now\<rparr>"

definition observe_all :: "event list \<Rightarrow> snapshot" where
  "observe_all es = fold Observe es empty_status"

section \<open>Metrics\<close>

record metrics =
  m_state :: "event_type \<Rightarrow> nat"
  m_reconnects :: nat

definition NewMetrics :: metrics where
  "NewMetrics = \<lparr>m_state = (\<lambda>_. 0), m_reconnects = 0\<rparr>"

definition Metrics_Observe :: "event \<Rightarrow> metrics \<Rightarrow> metrics" where
  "Metrics_Observe e m =
     (let m1 = m\<lparr>m_state := (m_state m)(Type e := u64 (m_state m (Type e) + 1))\<rparr>
      in if Type e = DestinationReconnecting then m1\<lparr>m_reconnects := u64 (m_reconnects m1 + 1)\<rparr> else m1)"

section \<open>Invariant of the input flags\<close>

definition coherent :: "snapshot \<Rightarrow> bool" where
  "coherent s \<longleftrightarrow> \<not> (snap_FallbackActive s \<and> snap_InputUnavailable s)
     \<and> (snap_FallbackForced s \<longrightarrow> snap_FallbackActive s)
     \<and> (snap_InputLive s \<longrightarrow> \<not> snap_InputUnavailable s \<and> InputError s = NoCode)"

lemma coherent_empty [relay_inv]: "coherent empty_status"
  by (simp add: coherent_def empty_status_def)

lemma coherent_observe_input [relay_inv]: "coherent s \<Longrightarrow> coherent (observe_input e s)"
  by (cases "Type e") (auto simp: coherent_def observe_input_def Let_def)

lemma coherent_destinations [simp]: "coherent (s\<lparr>snap_Destinations := d\<rparr>) = coherent s"
  by (simp add: coherent_def)

lemma coherent_Observe [relay_inv]: "coherent s \<Longrightarrow> coherent (Observe e s)"
  using coherent_observe_input [of s e]
  by (auto simp: Observe_def Let_def split: option.splits)

lemma fold_Observe_coherent: "coherent s \<Longrightarrow> coherent (fold Observe es s)"
  by (induction es arbitrary: s) (auto intro: coherent_Observe)

section \<open>Per-destination behaviour\<close>

lemma dest_observe_input [simp]: "snap_Destinations (observe_input e s) = snap_Destinations s"
  by (cases "Type e") (auto simp: observe_input_def Let_def)

lemma dest_of_observe_input [simp]: "dest_of (observe_input e s) = dest_of s"
  by (simp add: dest_of_def fun_eq_iff)

text \<open>The events about one destination that are not older than what is known of it.\<close>

definition accepts :: "event \<Rightarrow> string \<Rightarrow> snapshot \<Rightarrow> bool" where
  "accepts e d s \<longleftrightarrow> dest_state_of (Type e) \<noteq> None \<and> ev_DestinationID e = d
     \<and> ds_Generation (dest_of s d) \<le> ev_Generation e"

lemma dest_of_Observe:
  "dest_of (Observe e s) d = (if accepts e d s
     then (dest_of s d)\<lparr>ds_State := the (dest_state_of (Type e)), ds_Generation := ev_Generation e, ds_ErrorCode := Code e,
            Reconnects := (if Type e = DestinationReconnecting then i64 (Reconnects (dest_of s d) + 1) else Reconnects (dest_of s d))\<rparr>
     else dest_of s d)"
proof -
  have "dest_of s = dest_of (observe_input e s)" by simp
  then show ?thesis
    by (auto simp: Observe_def Let_def accepts_def split: option.splits) (auto simp: dest_of_def)
qed

lemma generation_mono: "ds_Generation (dest_of s d) \<le> ds_Generation (dest_of (Observe e s) d)"
  by (auto simp: dest_of_Observe accepts_def)

lemma fold_generation_mono: "ds_Generation (dest_of s d) \<le> ds_Generation (dest_of (fold Observe es s) d)"
  by (induction es arbitrary: s) (auto intro: order_trans generation_mono)

section \<open>Properties\<close>

text \<open>For every sequence of worker events the reported input flags are coherent: fallback and
  "unavailable" are never reported together, a forced fallback is a fallback, and a live input
  is neither unavailable nor in error.\<close>

lemma status_flags_coherent: "coherent (observe_all es)"
  unfolding observe_all_def by (rule fold_Observe_coherent [OF coherent_empty])

text \<open>The generation that the status reports for a destination never goes back, and an event
  of an older generation changes nothing of what is reported for any destination.\<close>

lemma status_generation_monotone:
  assumes "ev_Generation e < ds_Generation (dest_of (observe_all es) (ev_DestinationID e))"
  shows "dest_of (observe_all (es @ [e])) d = dest_of (observe_all es) d
    \<and> ds_Generation (dest_of (observe_all es) d) \<le> ds_Generation (dest_of (observe_all (es @ fs)) d)"
  using assms fold_generation_mono [of "fold Observe es empty_status" d fs]
  by (auto simp: observe_all_def dest_of_Observe accepts_def)

definition demo_event :: "event_type \<Rightarrow> nat \<Rightarrow> event" where
  "demo_event t g = \<lparr>Timestamp = 0, Type = t, ev_SessionID = ''s'', ev_DestinationID = ''d'', ev_Generation = g,
     Code = NoCode, ev_Attempt = 0, Fields = Map.empty\<rparr>"

lemma status_generation_monotone_witness:
  "dest_of (observe_all ([demo_event DestinationStreaming 2] @ [demo_event DestinationFailed 1])) ''d''
     = dest_of (observe_all [demo_event DestinationStreaming 2]) ''d''"
proof -
  have "ev_Generation (demo_event DestinationFailed 1) <
      ds_Generation (dest_of (observe_all [demo_event DestinationStreaming 2]) (ev_DestinationID (demo_event DestinationFailed 1)))"
    by (simp add: observe_all_def Observe_def observe_input_def Let_def demo_event_def dest_state_of_def dest_of_def
        empty_status_def zero_destination_status_def)
  from status_generation_monotone [OF this, of "''d''" "[]"] show ?thesis by simp
qed

end
