(* ===== verification/Worker_Runtime.thy ===== *)
theory Worker_Runtime
  imports Domain_Model Go_Strings Worker_Status "HOL-Library.AList"
begin

text \<open>
  The interface between a node agent and whatever runs its workers,
  \<^verbatim>\<open>backend/internal/runtime/runtime.go\<close>, and the in-memory runtime
  \<^verbatim>\<open>backend/internal/runtime/fake/fake.go\<close> that implements it.

  The Go interface is the record \<open>runtime_ops\<close> of its operations over an arbitrary state. The
  locale \<open>worker_runtime\<close> states what the agent relies on, and the in-memory runtime is an
  interpretation of it. A Go map that the code ranges over is an association list: its order is
  the order of the iteration, and the theorems hold for every order.
\<close>

section \<open>Specifications and workers\<close>

record worker_spec =
  AllocationID :: string
  spec_SessionID :: string
  Image :: string
  spec_NodeID :: string
  spec_Generation :: nat
  spec_FencingToken :: nat
  Environment :: "(string \<times> string) list"
  spec_Resources :: resource_vector
  Files :: "(string \<times> string) list"

datatype worker_phase = RUNNING | WSTOPPED

record worker =
  worker_ID :: string
  Spec :: worker_spec
  State :: worker_phase
  StartedAt :: time
  ExitCode :: int
  Report :: "snapshot option"

datatype runtime_error =
    ErrNotFound | ErrFenced | TooManyFiles | InvalidIdentityOrResources | FilePayloadTooLarge | InvalidSecretFilename
  | InvalidWorkerSpec | PlaintextSecretEnvironment | RuntimeFailure string

section \<open>Validation\<close>

definition is_alnum :: "char \<Rightarrow> bool" where
  "is_alnum c \<longleftrightarrow> (let n = (of_char c :: nat) in (97 \<le> n \<and> n \<le> 122) \<or> (65 \<le> n \<and> n \<le> 90) \<or> (48 \<le> n \<and> n \<le> 57))"

definition ValidID :: "string \<Rightarrow> bool" where
  "ValidID s \<longleftrightarrow> (case s of [] \<Rightarrow> False
     | c # cs \<Rightarrow> is_alnum c \<and> list_all (\<lambda>x. is_alnum x \<or> x = CHR ''_'' \<or> x = CHR ''-'') cs \<and> length cs \<le> 79)"

definition MiB :: nat where
  "MiB = 1048576"

fun validate_files :: "nat \<Rightarrow> (string \<times> string) list \<Rightarrow> runtime_error option" where
  "validate_files tot [] = None"
| "validate_files tot ((name, content) # fs) =
     (let tot' = tot + length content in
      if (name = ''fallback_asset'' \<and> length content > 50 * MiB) \<or> (name \<noteq> ''fallback_asset'' \<and> length content > MiB)
         \<or> tot' > 54 * MiB then Some FilePayloadTooLarge
      else if name = ''ready'' \<or> (\<not> ValidID name \<and> name \<noteq> ''destinations.json'') then Some InvalidSecretFilename
      else validate_files tot' fs)"

definition ValidateStart :: "worker_spec \<Rightarrow> runtime_error option" where
  "ValidateStart s =
     (if length (Files s) > 31 then Some TooManyFiles
      else if \<not> ValidID (AllocationID s) \<or> Slots (spec_Resources s) \<le> 0 \<or> CPUMillis (spec_Resources s) < 0
        \<or> MemoryBytes (spec_Resources s) < 0 \<or> IngressBPS (spec_Resources s) < 0 \<or> EgressBPS (spec_Resources s) < 0
      then Some InvalidIdentityOrResources
      else case validate_files 0 (Files s) of
          Some e \<Rightarrow> Some e
        | None \<Rightarrow>
            if AllocationID s = '''' \<or> spec_SessionID s = '''' \<or> Image s = '''' \<or> spec_Generation s = 0 \<or> spec_FencingToken s = 0
            then Some InvalidWorkerSpec
            else if list_ex (\<lambda>(k, v). k = ''WORKER_SOURCE_TOKEN'' \<or> k = ''WORKER_DESTINATION_SECRET'') (Environment s)
            then Some PlaintextSecretEnvironment
            else None)"

definition file_ok :: "string \<times> string \<Rightarrow> bool" where
  "file_ok f \<longleftrightarrow> length (snd f) \<le> 50 * MiB \<and> fst f \<noteq> ''ready'' \<and> (ValidID (fst f) \<or> fst f = ''destinations.json'')"

lemma validate_files_step:
  "validate_files tot (f # fs) = None \<Longrightarrow>
     file_ok f \<and> tot + length (snd f) \<le> 54 * MiB \<and> validate_files (tot + length (snd f)) fs = None"
  by (cases f) (auto simp: Let_def MiB_def file_ok_def split: if_splits)

lemma validate_files_ok:
  "validate_files tot fs = None \<Longrightarrow>
     list_all file_ok fs \<and> (fs \<noteq> [] \<longrightarrow> tot + (\<Sum>f\<leftarrow>fs. length (snd f)) \<le> 54 * MiB)"
proof (induction fs arbitrary: tot)
  case (Cons f fs)
  note st = validate_files_step [OF Cons.prems]
  from Cons.IH [of "tot + length (snd f)"] st show ?case by (cases fs) (auto simp: algebra_simps)
qed simp

lemma ValidateStart_nonneg: "ValidateStart s = None \<Longrightarrow> nonneg (spec_Resources s) \<and> 0 < Slots (spec_Resources s)"
  by (auto simp: ValidateStart_def nonneg_def dims_def split: if_splits)

lemma ValidID_no_separator: "ValidID s \<Longrightarrow> s \<noteq> [] \<and> length s \<le> 80 \<and> CHR ''/'' \<notin> set s \<and> CHR ''.'' \<notin> set s \<and> CHR 0x00 \<notin> set s"
  by (cases s) (auto simp: ValidID_def is_alnum_def Let_def list_all_iff)

section \<open>The runtime interface\<close>

record 'r runtime_ops =
  op_Start :: "time \<Rightarrow> worker_spec \<Rightarrow> 'r \<Rightarrow> (runtime_error + worker) \<times> 'r"
  op_Stop :: "string \<Rightarrow> 'r \<Rightarrow> runtime_error option \<times> 'r"
  op_Inspect :: "string \<Rightarrow> 'r \<Rightarrow> runtime_error + worker"
  op_List :: "'r \<Rightarrow> runtime_error + worker list"
  op_ApplyDestinations :: "(string \<Rightarrow> (string \<times> string) list \<Rightarrow> resource_vector \<Rightarrow> 'r \<Rightarrow> runtime_error option \<times> 'r) option"
  op_ApplySlatePolicy :: "(string \<Rightarrow> bool \<Rightarrow> bool \<Rightarrow> 'r \<Rightarrow> runtime_error option \<times> 'r) option"

text \<open>
  What a client may rely on, over the workers \<open>view r\<close> that a well-formed runtime state \<open>r\<close>
  holds, by identifier: an error leaves the workers as they are; a successful start leaves a
  running worker of the requested allocation, either with the requested specification or the one
  that was running already; the listing is complete and has no duplicates; the other operations
  touch only the worker they name.
\<close>

definition placement :: "worker \<Rightarrow> worker_phase \<times> resource_vector \<times> string" where
  "placement w = (State w, spec_Resources (Spec w), spec_NodeID (Spec w))"

locale worker_runtime =
  fixes ops :: "'r runtime_ops" and wf :: "'r \<Rightarrow> bool" and view :: "'r \<Rightarrow> string \<rightharpoonup> worker"
  assumes start_wf: "wf r \<Longrightarrow> op_Start ops now s r = (x, r') \<Longrightarrow> wf r'"
    and start_error: "wf r \<Longrightarrow> op_Start ops now s r = (Inl e, r') \<Longrightarrow> view r' = view r"
    and start_ok: "wf r \<Longrightarrow> op_Start ops now s r = (Inr w, r') \<Longrightarrow>
      view r' = (view r)(AllocationID s \<mapsto> w) \<and> State w = RUNNING \<and> (Spec w = s \<or> view r (AllocationID s) = Some w)"
    and stop_wf: "wf r \<Longrightarrow> op_Stop ops i r = (res, r') \<Longrightarrow> wf r'"
    and stop_keeps: "wf r \<Longrightarrow> op_Stop ops i r = (res, r') \<Longrightarrow> j \<noteq> i \<Longrightarrow> view r' j = view r j"
    and stop_ok: "wf r \<Longrightarrow> op_Stop ops i r = (None, r') \<Longrightarrow> view r' i = Some w' \<Longrightarrow>
      State w' \<noteq> RUNNING \<and> (\<exists>w. view r i = Some w \<and> Spec w' = Spec w)"
    and stop_error: "wf r \<Longrightarrow> op_Stop ops i r = (Some e, r') \<Longrightarrow> view r' = view r"
    and list_complete: "wf r \<Longrightarrow> op_List ops r = Inr ws \<Longrightarrow> set ws = ran (view r) \<and> distinct (map worker_ID ws)"
    and view_ids: "wf r \<Longrightarrow> view r i = Some w \<Longrightarrow> worker_ID w = i \<and> AllocationID (Spec w) = i"
    and view_finite: "wf r \<Longrightarrow> finite (dom (view r))"
    and apply_wf: "wf r \<Longrightarrow> op_ApplyDestinations ops = Some f \<Longrightarrow> f i files rv r = (res, r') \<Longrightarrow> wf r'"
    and apply_error: "wf r \<Longrightarrow> op_ApplyDestinations ops = Some f \<Longrightarrow> f i files rv r = (Some e, r') \<Longrightarrow> view r' = view r"
    and apply_ok: "wf r \<Longrightarrow> op_ApplyDestinations ops = Some f \<Longrightarrow> f i files rv r = (None, r') \<Longrightarrow>
      \<exists>w. view r i = Some w \<and> view r' = (view r)(i \<mapsto> w\<lparr>Spec := (Spec w)\<lparr>spec_Resources := rv\<rparr>\<rparr>)"
    and slate_wf: "wf r \<Longrightarrow> op_ApplySlatePolicy ops = Some g \<Longrightarrow> g i a b r = (res, r') \<Longrightarrow> wf r'"
    and slate_keeps: "wf r \<Longrightarrow> op_ApplySlatePolicy ops = Some g \<Longrightarrow> g i a b r = (res, r') \<Longrightarrow>
      map_option placement (view r' j) = map_option placement (view r j)"
begin

lemma start_other: "wf r \<Longrightarrow> op_Start ops now s r = (x, r') \<Longrightarrow> j \<noteq> AllocationID s \<Longrightarrow> view r' j = view r j"
  using start_error start_ok by (cases x) (metis fun_upd_other)+

lemma list_mem: "wf r \<Longrightarrow> op_List ops r = Inr ws \<Longrightarrow> w \<in> set ws \<Longrightarrow> view r (worker_ID w) = Some w"
  using list_complete [of r ws] view_ids [of r] by (auto simp: ran_def)

end

section \<open>The in-memory runtime\<close>

record fake_runtime =
  workers :: "(string \<times> worker) list"
  Starts :: int

definition New_fake :: fake_runtime where
  "New_fake = \<lparr>workers = [], Starts = 0\<rparr>"

definition Start_fake :: "time \<Rightarrow> worker_spec \<Rightarrow> fake_runtime \<Rightarrow> (runtime_error + worker) \<times> fake_runtime" where
  "Start_fake now s r =
     (case ValidateStart s of
        Some e \<Rightarrow> (Inl e, r)
      | None \<Rightarrow>
          (let w = \<lparr>worker_ID = AllocationID s, Spec = s, State = RUNNING, StartedAt = now, ExitCode = 0, Report = None\<rparr>;
               started = (Inr w, r\<lparr>Starts := i64 (Starts r + 1), workers := AList.update (AllocationID s) w (workers r)\<rparr>)
           in case map_of (workers r) (AllocationID s) of
                None \<Rightarrow> started
              | Some current \<Rightarrow>
                  if spec_FencingToken s < spec_FencingToken (Spec current) then (Inl ErrFenced, r)
                  else if spec_Generation s = spec_Generation (Spec current) \<and> spec_FencingToken s = spec_FencingToken (Spec current)
                    \<and> State current = RUNNING then (Inr current, r)
                  else started))"

definition Stop_fake :: "string \<Rightarrow> fake_runtime \<Rightarrow> runtime_error option \<times> fake_runtime" where
  "Stop_fake i r = (case map_of (workers r) i of
     None \<Rightarrow> (Some ErrNotFound, r)
   | Some w \<Rightarrow> (None, r\<lparr>workers := AList.update i (w\<lparr>State := WSTOPPED\<rparr>) (workers r)\<rparr>))"

definition Inspect_fake :: "string \<Rightarrow> fake_runtime \<Rightarrow> runtime_error + worker" where
  "Inspect_fake i r = (case map_of (workers r) i of None \<Rightarrow> Inl ErrNotFound | Some w \<Rightarrow> Inr w)"

definition List_fake :: "fake_runtime \<Rightarrow> runtime_error + worker list" where
  "List_fake r = Inr (map snd (workers r))"

definition ApplyDestinations_fake ::
  "string \<Rightarrow> (string \<times> string) list \<Rightarrow> resource_vector \<Rightarrow> fake_runtime \<Rightarrow> runtime_error option \<times> fake_runtime" where
  "ApplyDestinations_fake i files rv r = (case map_of (workers r) i of
     None \<Rightarrow> (Some ErrNotFound, r)
   | Some w \<Rightarrow> (None, r\<lparr>workers := AList.update i (w\<lparr>Spec := (Spec w)\<lparr>spec_Resources := rv\<rparr>\<rparr>) (workers r)\<rparr>))"

definition FormatBool :: "bool \<Rightarrow> string" where
  "FormatBool b = (if b then ''true'' else ''false'')"

definition ApplySlatePolicy_fake :: "string \<Rightarrow> bool \<Rightarrow> bool \<Rightarrow> fake_runtime \<Rightarrow> runtime_error option \<times> fake_runtime" where
  "ApplySlatePolicy_fake i onSourceLoss forced r = (case map_of (workers r) i of
     None \<Rightarrow> (Some ErrNotFound, r)
   | Some w \<Rightarrow>
       (let env = AList.update ''WORKER_SLATE_FORCED'' (FormatBool forced)
              (AList.update ''WORKER_SLATE_ON_SOURCE_LOSS'' (FormatBool onSourceLoss) (Environment (Spec w)))
        in (None, r\<lparr>workers := AList.update i (w\<lparr>Spec := (Spec w)\<lparr>Environment := env\<rparr>\<rparr>) (workers r)\<rparr>)))"

definition fake_ops :: "fake_runtime runtime_ops" where
  "fake_ops = \<lparr>op_Start = Start_fake, op_Stop = Stop_fake, op_Inspect = Inspect_fake, op_List = List_fake,
     op_ApplyDestinations = Some ApplyDestinations_fake, op_ApplySlatePolicy = Some ApplySlatePolicy_fake\<rparr>"

definition fake_view :: "fake_runtime \<Rightarrow> string \<rightharpoonup> worker" where
  "fake_view r = map_of (workers r)"

definition fake_wf :: "fake_runtime \<Rightarrow> bool" where
  "fake_wf r \<longleftrightarrow> distinct (map fst (workers r)) \<and> list_all (\<lambda>(i, w). worker_ID w = i \<and> AllocationID (Spec w) = i) (workers r)"

lemma fake_wf_New: "fake_wf New_fake"
  by (simp add: fake_wf_def New_fake_def)

lemma fake_wf_view: "fake_wf r \<Longrightarrow> fake_view r i = Some w \<Longrightarrow> worker_ID w = i \<and> AllocationID (Spec w) = i"
  by (auto simp: fake_wf_def fake_view_def list_all_iff dest!: map_of_SomeD)

lemma list_all_update:
  "list_all P xs \<Longrightarrow> P (k, v) \<Longrightarrow> list_all P (AList.update k v xs)"
  by (induction xs) auto

lemma fake_wf_update:
  "fake_wf r \<Longrightarrow> worker_ID w = i \<Longrightarrow> AllocationID (Spec w) = i \<Longrightarrow> fake_wf (r'\<lparr>workers := AList.update i w (workers r)\<rparr>)"
  by (auto simp: fake_wf_def list_all_update distinct_update)

lemma fake_list:
  "fake_wf r \<Longrightarrow> set (map snd (workers r)) = ran (fake_view r) \<and> distinct (map worker_ID (map snd (workers r)))"
proof -
  assume wf: "fake_wf r"
  have "map worker_ID (map snd (workers r)) = map fst (workers r)"
    using wf by (auto simp: fake_wf_def list_all_iff)
  moreover have "set (map snd (workers r)) = ran (fake_view r)"
    using wf by (simp add: fake_view_def fake_wf_def ran_distinct)
  ultimately show ?thesis
    using wf by (simp only: fake_wf_def simp_thms)
qed

lemma fake_placement:
  "fake_wf r \<Longrightarrow> map_of (workers r) i = Some w \<Longrightarrow> worker_ID w = i \<and> AllocationID (Spec w) = i"
  using fake_wf_view by (simp add: fake_view_def)

interpretation fake: worker_runtime fake_ops fake_wf fake_view
proof unfold_locales
  fix r :: fake_runtime and now s x r' i e j a b
  assume wf: "fake_wf r"
  show "fake_wf r'" if "op_Start fake_ops now s r = (x, r')"
    using that wf
    by (auto simp: fake_ops_def Start_fake_def Let_def split: option.splits if_splits intro: fake_wf_update [OF wf])
  show "fake_wf r'" if "op_Stop fake_ops i r = (e, r')"
    using that wf fake_placement [OF wf]
    by (auto simp: fake_ops_def Stop_fake_def split: option.splits intro: fake_wf_update [OF wf])
  show "fake_view r' j = fake_view r j" if "op_Stop fake_ops i r = (e, r')" "j \<noteq> i"
    using that by (auto simp: fake_ops_def Stop_fake_def fake_view_def update_conv' split: option.splits)
  show "State w' \<noteq> RUNNING \<and> (\<exists>w. fake_view r i = Some w \<and> Spec w' = Spec w)"
    if "op_Stop fake_ops i r = (None, r')" "fake_view r' i = Some w'" for w'
    using that by (auto simp: fake_ops_def Stop_fake_def fake_view_def update_conv' split: option.splits)
  show "finite (dom (fake_view r))" by (simp add: fake_view_def finite_dom_map_of)
next
  fix r :: fake_runtime and now s r' e assume "fake_wf r" "op_Start fake_ops now s r = (Inl e, r')"
  then show "fake_view r' = fake_view r"
    by (auto simp: fake_ops_def Start_fake_def Let_def split: option.splits if_splits)
next
  fix r :: fake_runtime and now s r' w assume "fake_wf r" "op_Start fake_ops now s r = (Inr w, r')"
  then show "fake_view r' = (fake_view r)(AllocationID s \<mapsto> w) \<and> State w = RUNNING \<and> (Spec w = s \<or> fake_view r (AllocationID s) = Some w)"
    by (auto simp: fake_ops_def Start_fake_def Let_def fake_view_def update_conv' fun_upd_idem split: option.splits if_splits)
next
  fix r :: fake_runtime and i e r' assume "fake_wf r" "op_Stop fake_ops i r = (Some e, r')"
  then show "fake_view r' = fake_view r"
    by (auto simp: fake_ops_def Stop_fake_def split: option.splits)
next
  fix r :: fake_runtime and ws assume "fake_wf r" "op_List fake_ops r = Inr ws"
  then show "set ws = ran (fake_view r) \<and> distinct (map worker_ID ws)"
    using fake_list by (auto simp: fake_ops_def List_fake_def)
next
  fix r :: fake_runtime and i w assume "fake_wf r" "fake_view r i = Some w"
  then show "worker_ID w = i \<and> AllocationID (Spec w) = i" by (rule fake_wf_view)
next
  fix r :: fake_runtime and f i files rv e r'
  assume wf: "fake_wf r" and f: "op_ApplyDestinations fake_ops = Some f"
  show "fake_wf r'" if "f i files rv r = (e, r')"
    using that f fake_placement [OF wf] wf
    by (auto simp: fake_ops_def ApplyDestinations_fake_def split: option.splits intro: fake_wf_update [OF wf])
next
  fix r :: fake_runtime and f i files rv e r'
  assume "op_ApplyDestinations fake_ops = Some f" "f i files rv r = (Some e, r')"
  then show "fake_view r' = fake_view r"
    by (auto simp: fake_ops_def ApplyDestinations_fake_def split: option.splits)
next
  fix r :: fake_runtime and f i files rv r'
  assume "op_ApplyDestinations fake_ops = Some f" "f i files rv r = (None, r')"
  then show "\<exists>w. fake_view r i = Some w \<and> fake_view r' = (fake_view r)(i \<mapsto> w\<lparr>Spec := (Spec w)\<lparr>spec_Resources := rv\<rparr>\<rparr>)"
    by (auto simp: fake_ops_def ApplyDestinations_fake_def fake_view_def update_conv' split: option.splits)
next
  fix r :: fake_runtime and g i a b e r' j
  assume wf: "fake_wf r" and g: "op_ApplySlatePolicy fake_ops = Some g" and s: "g i a b r = (e, r')"
  show "fake_wf r'"
    using s g fake_placement [OF wf] wf
    by (auto simp: fake_ops_def ApplySlatePolicy_fake_def Let_def split: option.splits intro: fake_wf_update [OF wf])
  show "map_option placement (fake_view r' j) = map_option placement (fake_view r j)"
    using s g by (auto simp: fake_ops_def ApplySlatePolicy_fake_def Let_def fake_view_def update_conv' placement_def split: option.splits)
qed

section \<open>Properties\<close>

text \<open>A specification that passes validation carries at most 31 files of at most 54 MiB in all,
  none of which is named like the readiness marker or has a name with a path separator, a
  leading dot or a NUL, so the files can be written under one directory; it carries no secret
  in its environment, names a positive generation and fencing token, and demands no negative
  resource.\<close>

lemma validated_spec_is_safe:
  assumes "ValidateStart s = None"
  shows "length (Files s) \<le> 31 \<and> (\<Sum>f\<leftarrow>Files s. length (snd f)) \<le> 54 * MiB
    \<and> (\<forall>f \<in> set (Files s). fst f \<noteq> [] \<and> fst f \<noteq> ''ready'' \<and> hd (fst f) \<noteq> CHR ''.'' \<and> CHR ''/'' \<notin> set (fst f) \<and> CHR 0x00 \<notin> set (fst f))
    \<and> ''WORKER_SOURCE_TOKEN'' \<notin> fst ` set (Environment s) \<and> ''WORKER_DESTINATION_SECRET'' \<notin> fst ` set (Environment s)
    \<and> 0 < spec_Generation s \<and> 0 < spec_FencingToken s \<and> nonneg (spec_Resources s)"
proof -
  from assms have v: "validate_files 0 (Files s) = None"
    by (auto simp: ValidateStart_def split: if_splits option.splits)
  have "(\<Sum>f\<leftarrow>Files s. length (snd f)) \<le> 54 * MiB"
    using validate_files_ok [OF v] by (cases "Files s") auto
  moreover have "fst f \<noteq> [] \<and> fst f \<noteq> ''ready'' \<and> hd (fst f) \<noteq> CHR ''.'' \<and> CHR ''/'' \<notin> set (fst f) \<and> CHR 0x00 \<notin> set (fst f)"
    if "f \<in> set (Files s)" for f
  proof -
    from validate_files_ok [OF v] that have "file_ok f" by (auto simp: list_all_iff)
    then show ?thesis
      using ValidID_no_separator [of "fst f"] by (cases "fst f") (auto simp: file_ok_def)
  qed
  moreover have "length (Files s) \<le> 31 \<and> 0 < spec_Generation s \<and> 0 < spec_FencingToken s"
    using assms by (auto simp: ValidateStart_def split: if_splits option.splits)
  moreover have "''WORKER_SOURCE_TOKEN'' \<notin> fst ` set (Environment s) \<and> ''WORKER_DESTINATION_SECRET'' \<notin> fst ` set (Environment s)"
    using assms v by (auto simp: ValidateStart_def list_ex_iff simp del: validate_files.simps split: if_splits)
  moreover note ValidateStart_nonneg [OF assms]
  ultimately show ?thesis by blast
qed

definition demo_spec :: worker_spec where
  "demo_spec = \<lparr>AllocationID = ''a1'', spec_SessionID = ''s1'', Image = ''img'', spec_NodeID = ''n1'', spec_Generation = 1,
     spec_FencingToken = 7, Environment = [(''WORKER_SLATE_FORCED'', ''false'')],
     spec_Resources = \<lparr>Slots = 1, CPUMillis = 500, MemoryBytes = 1000, IngressBPS = 10, EgressBPS = 10\<rparr>,
     Files = [(''destinations.json'', ''[]'')]\<rparr>"

lemma demo_spec_valid: "ValidateStart demo_spec = None"
  by (simp add: ValidateStart_def demo_spec_def ValidID_def is_alnum_def Let_def MiB_def)

lemma validated_spec_is_safe_witness: "nonneg (spec_Resources demo_spec) \<and> length (Files demo_spec) \<le> 31"
  using validated_spec_is_safe [OF demo_spec_valid] by blast

text \<open>The in-memory runtime fences starts: a start with an older fencing token than the current
  worker of the allocation is refused and changes nothing, and a start that repeats the
  generation and token of a running worker returns that worker and starts no second one.\<close>

lemma fake_start_fenced_and_idempotent:
  assumes "fake_wf r" "ValidateStart s = None" "fake_view r (AllocationID s) = Some w"
  shows "(spec_FencingToken s < spec_FencingToken (Spec w) \<longrightarrow> Start_fake now s r = (Inl ErrFenced, r))
    \<and> (Start_fake now s r = (Inr w', r') \<longrightarrow>
        Start_fake now' s r' = (Inr w', r') \<and> fake_wf r' \<and> card (dom (fake_view r')) = card (dom (fake_view r)))"
proof (intro conjI impI)
  show "Start_fake now s r = (Inl ErrFenced, r)" if "spec_FencingToken s < spec_FencingToken (Spec w)"
    using assms that by (simp add: Start_fake_def fake_view_def Let_def)
next
  assume st: "Start_fake now s r = (Inr w', r')"
  then have op: "op_Start fake_ops now s r = (Inr w', r')" by (simp add: fake_ops_def)
  note ok = fake.start_ok [OF assms(1) op]
  show "fake_wf r'" by (rule fake.start_wf [OF assms(1) op])
  have "spec_Generation (Spec w') = spec_Generation s \<and> spec_FencingToken (Spec w') = spec_FencingToken s"
    using st assms by (auto simp: Start_fake_def fake_view_def Let_def split: if_splits)
  moreover have "map_of (workers r') (AllocationID s) = Some w'" using ok by (simp add: fake_view_def fun_eq_iff)
  ultimately show "Start_fake now' s r' = (Inr w', r')"
    using assms(2) ok by (simp add: Start_fake_def)
  show "card (dom (fake_view r')) = card (dom (fake_view r))"
    using ok assms(3) by (simp add: insert_absorb domIff)
qed

definition demo_fake :: fake_runtime where
  "demo_fake = snd (Start_fake 0 demo_spec New_fake)"

lemma demo_fake_eq: "workers demo_fake = [(''a1'', \<lparr>worker_ID = ''a1'', Spec = demo_spec, State = RUNNING, StartedAt = 0, ExitCode = 0, Report = None\<rparr>)]"
  using demo_spec_valid by (simp add: demo_fake_def Start_fake_def New_fake_def Let_def) (simp add: demo_spec_def)

lemma demo_fake_wf: "fake_wf demo_fake"
  by (simp add: fake_wf_def demo_fake_eq) (simp add: demo_spec_def)

lemma fake_start_fenced_and_idempotent_witness:
  "Start_fake 5 (demo_spec\<lparr>spec_FencingToken := 6\<rparr>) demo_fake = (Inl ErrFenced, demo_fake)"
proof -
  have v: "ValidateStart (demo_spec\<lparr>spec_FencingToken := 6\<rparr>) = None"
    by (simp add: ValidateStart_def demo_spec_def ValidID_def is_alnum_def Let_def MiB_def)
  have f: "fake_view demo_fake (AllocationID (demo_spec\<lparr>spec_FencingToken := 6\<rparr>)) =
      Some \<lparr>worker_ID = ''a1'', Spec = demo_spec, State = RUNNING, StartedAt = 0, ExitCode = 0, Report = None\<rparr>"
    by (simp add: fake_view_def demo_fake_eq) (simp add: demo_spec_def)
  from fake_start_fenced_and_idempotent [OF demo_fake_wf v f, of 5] show ?thesis by (simp add: demo_spec_def)
qed

end
