(* ===== verification/Maintenance_Gate.thy ===== *)
theory Maintenance_Gate
  imports Relay_Prelude
begin

text \<open>
  The maintenance fence of \<^verbatim>\<open>backend/internal/maintenance/gate.go\<close>. A mutation of the installation
  holds a shared lock on \<^verbatim>\<open>admission.lock\<close> while it runs, and is refused while \<^verbatim>\<open>active.json\<close>
  exists. The two system calls of \<^verbatim>\<open>Enter\<close> (the lock, then the look at the marker) are separate
  steps, so that the host may act between them. The host is not part of the program: it follows
  the protocol that the comment on \<^verbatim>\<open>Enter\<close> documents, which takes the exclusive lock before it
  writes the marker.
\<close>

datatype lstat_result = LAbsent | LPresent | LError

record gate_dir =
  lock_file :: bool
  exclusive :: bool
  shared :: nat
  marker :: lstat_result

datatype gate_error = ErrActive

text \<open>The outcome of \<open>Enter\<close>: the caller holds a lock to be released, or none (an empty directory).\<close>

datatype leave = NoLock | Release

definition try_shared :: "gate_dir \<Rightarrow> gate_dir option" where
  "try_shared g = (if lock_file g \<and> \<not> exclusive g then Some (g\<lparr>shared := shared g + 1\<rparr>) else None)"

definition release :: "leave \<Rightarrow> gate_dir \<Rightarrow> gate_dir" where
  "release l g = (case l of NoLock \<Rightarrow> g | Release \<Rightarrow> g\<lparr>shared := shared g - 1\<rparr>)"

text \<open>The second half of \<open>Enter\<close>, for a caller that holds its lock: the look at the marker.\<close>

definition enter_look :: "gate_dir \<Rightarrow> (gate_error + leave) \<times> gate_dir" where
  [simp]: "enter_look g = (if marker g \<noteq> LAbsent then (Inl ErrActive, release Release g) else (Inr Release, g))"

text \<open>\<open>Enter\<close> without interference: what one caller sees when nobody acts between its two halves.\<close>

definition Enter :: "string \<Rightarrow> gate_dir \<Rightarrow> (gate_error + leave) \<times> gate_dir" where
  "Enter directory g =
     (if directory = '''' then (Inr NoLock, g)
      else case try_shared g of
          None \<Rightarrow> (Inl ErrActive, g)
        | Some g' \<Rightarrow> enter_look g')"

lemma Enter_release: "Enter d g = (Inr l, g') \<Longrightarrow> release l g' = g"
  by (auto simp: Enter_def release_def try_shared_def split: if_splits option.splits)

lemma Enter_error: "Enter d g = (Inl e, g') \<Longrightarrow> g' = g"
  by (auto simp: Enter_def release_def try_shared_def split: if_splits option.splits)

section \<open>Interleavings with the host\<close>

text \<open>
  The callers that hold the lock and have not looked yet, and those that were admitted. A caller
  takes the two halves of \<open>Enter\<close> as two steps and releases its lock in a third; the host may act
  between any two of them.
\<close>

record gate_system =
  dir :: gate_dir
  looking :: nat
  admitted :: nat

inductive gate_step :: "gate_system \<Rightarrow> gate_system \<Rightarrow> bool" where
  lock_shared: "try_shared (dir s) = Some g \<Longrightarrow> gate_step s (s\<lparr>dir := g, looking := looking s + 1\<rparr>)"
| admit: "looking s > 0 \<Longrightarrow> enter_look (dir s) = (Inr l, g) \<Longrightarrow>
    gate_step s (s\<lparr>dir := g, looking := looking s - 1, admitted := admitted s + 1\<rparr>)"
| refuse: "looking s > 0 \<Longrightarrow> enter_look (dir s) = (Inl e, g) \<Longrightarrow>
    gate_step s (s\<lparr>dir := g, looking := looking s - 1\<rparr>)"
| leaves: "admitted s > 0 \<Longrightarrow> gate_step s (s\<lparr>dir := release Release (dir s), admitted := admitted s - 1\<rparr>)"
| host_lock: "shared (dir s) = 0 \<Longrightarrow> \<not> exclusive (dir s) \<Longrightarrow> gate_step s (s\<lparr>dir := (dir s)\<lparr>exclusive := True\<rparr>\<rparr>)"
| host_mark: "exclusive (dir s) \<Longrightarrow> gate_step s (s\<lparr>dir := (dir s)\<lparr>marker := LPresent\<rparr>\<rparr>)"
| host_unlock: "exclusive (dir s) \<Longrightarrow> gate_step s (s\<lparr>dir := (dir s)\<lparr>exclusive := False\<rparr>\<rparr>)"
| host_clear: "gate_step s (s\<lparr>dir := (dir s)\<lparr>marker := LAbsent\<rparr>\<rparr>)"

definition gate_start :: gate_system where
  "gate_start = \<lparr>dir = \<lparr>lock_file = True, exclusive = False, shared = 0, marker = LAbsent\<rparr>, looking = 0, admitted = 0\<rparr>"

inductive gate_reach :: "gate_system \<Rightarrow> bool" where
  gate_init: "gate_reach gate_start"
| gate_next: "gate_reach s \<Longrightarrow> gate_step s s' \<Longrightarrow> gate_reach s'"

definition gate_inv :: "gate_system \<Rightarrow> bool" where
  "gate_inv s \<longleftrightarrow> shared (dir s) = looking s + admitted s \<and> (exclusive (dir s) \<longrightarrow> shared (dir s) = 0)
     \<and> (marker (dir s) \<noteq> LAbsent \<longrightarrow> admitted s = 0)"

lemma gate_step_inv [relay_inv]: "gate_step s s' \<Longrightarrow> gate_inv s \<Longrightarrow> gate_inv s'"
  by (induction rule: gate_step.induct) (auto simp: gate_inv_def try_shared_def release_def split: if_splits)

lemma gate_start_inv: "gate_inv gate_start"
  by (simp add: gate_start_def gate_inv_def)

lemma gate_reach_inv: "gate_reach s \<Longrightarrow> gate_inv s"
  by (induction rule: gate_reach.induct) (auto intro: gate_start_inv gate_step_inv)

text \<open>Whoever \<open>Enter\<close> admits is one of the callers of the system: its two halves are two steps of it.\<close>

lemma Enter_steps:
  assumes "Enter d (dir s) = (Inr Release, g)"
  shows "\<exists>s1. gate_step s s1 \<and> gate_step s1 (s\<lparr>dir := g, admitted := admitted s + 1\<rparr>)"
proof -
  from assms obtain g1 where t: "try_shared (dir s) = Some g1" and l: "enter_look g1 = (Inr Release, g)"
    by (auto simp del: enter_look_def simp: Enter_def split: if_splits option.splits)
  let ?s = "s\<lparr>dir := g1, looking := looking s + 1\<rparr>"
  have "gate_step ?s (?s\<lparr>dir := g, looking := looking ?s - 1, admitted := admitted ?s + 1\<rparr>)"
    by (rule admit) (use l in \<open>simp_all del: enter_look_def\<close>)
  then show ?thesis using lock_shared [OF t] by auto
qed

lemma Enter_reach:
  assumes "gate_reach s" and "Enter d (dir s) = (Inr Release, g)"
  shows "gate_reach (s\<lparr>dir := g, admitted := admitted s + 1\<rparr>)"
  using Enter_steps [OF assms(2)] assms(1) by (blast intro: gate_next)

lemma Enter_refused:
  assumes "d \<noteq> ''''" and "exclusive g \<or> marker g \<noteq> LAbsent"
  shows "Enter d g = (Inl ErrActive, g)"
  using assms by (auto simp: Enter_def try_shared_def release_def)

text \<open>C36: Under every interleaving of callers, whose \<open>Enter\<close> takes its lock and looks at the marker
  in two separate steps, with a host that marks maintenance only under the exclusive lock: no
  mutation is in progress while the host holds the exclusive lock, and none is in progress while
  the maintenance marker exists; in such a state \<open>Enter\<close> refuses every caller that has a
  maintenance directory and leaves the lock as it was, and a caller that \<open>Enter\<close> admits in any
  state is counted as a mutation in progress from then on.\<close>

theorem maintenance_excludes_mutations:
  assumes "gate_reach s"
  shows "(exclusive (dir s) \<longrightarrow> admitted s = 0 \<and> looking s = 0) \<and> (marker (dir s) \<noteq> LAbsent \<longrightarrow> admitted s = 0)
    \<and> (\<forall>d. d \<noteq> '''' \<longrightarrow> exclusive (dir s) \<or> marker (dir s) \<noteq> LAbsent \<longrightarrow> Enter d (dir s) = (Inl ErrActive, dir s))
    \<and> (\<forall>d g. Enter d (dir s) = (Inr Release, g) \<longrightarrow> gate_reach (s\<lparr>dir := g, admitted := admitted s + 1\<rparr>))"
proof (intro conjI allI impI)
  show "exclusive (dir s) \<Longrightarrow> admitted s = 0" "exclusive (dir s) \<Longrightarrow> looking s = 0" "marker (dir s) \<noteq> LAbsent \<Longrightarrow> admitted s = 0"
    using gate_reach_inv [OF assms] by (auto simp: gate_inv_def)
qed (simp_all add: Enter_refused Enter_reach [OF assms, simplified])

definition demo_marked :: gate_system where
  "demo_marked = gate_start\<lparr>dir := (dir gate_start)\<lparr>exclusive := True, marker := LPresent\<rparr>\<rparr>"

theorem maintenance_excludes_mutations_witness:
  "(marker (dir demo_marked) \<noteq> LAbsent \<and> admitted demo_marked = 0 \<and> Enter ''/run'' (dir demo_marked) = (Inl ErrActive, dir demo_marked))
   \<and> gate_reach (gate_start\<lparr>dir := (dir gate_start)\<lparr>shared := 1\<rparr>, admitted := 1\<rparr>)"
proof -
  have "gate_step gate_start (gate_start\<lparr>dir := (dir gate_start)\<lparr>exclusive := True\<rparr>\<rparr>)"
    by (rule host_lock) (simp_all add: gate_start_def)
  from gate_next [OF gate_init this]
  have "gate_reach (gate_start\<lparr>dir := (dir gate_start)\<lparr>exclusive := True\<rparr>\<rparr>)" .
  from gate_next [OF this host_mark] have m: "gate_reach demo_marked" by (simp add: demo_marked_def)
  have "Enter ''/run'' (dir gate_start) = (Inr Release, (dir gate_start)\<lparr>shared := 1\<rparr>)"
    by (simp add: gate_start_def Enter_def try_shared_def)
  with maintenance_excludes_mutations [OF gate_init]
  have "gate_reach (gate_start\<lparr>dir := (dir gate_start)\<lparr>shared := 1\<rparr>, admitted := 1\<rparr>)"
    by (simp add: gate_start_def)
  with maintenance_excludes_mutations [OF m] show ?thesis by (simp add: demo_marked_def)
qed

end
