(* ===== verification/Node_Agent.thy ===== *)
theory Node_Agent
  imports Worker_Runtime Maintenance_Gate
begin

text \<open>
  The node agent, \<^verbatim>\<open>backend/internal/node/agent.go\<close>: the fencing high watermark and its file, the
  admission of a start against the capacity of the node, and the HTTP handlers.

  A node is the agent, the state file on its disk, the maintenance directory and the state of its
  worker runtime. A handler takes the decoded request (\<open>None\<close> where decoding fails, which includes
  a body over the limit) and what the operating system answers: the reading of the clock, whether
  the state file can be read, and the step of the file replacement that fails, if any. The mutex
  of the agent makes the handlers that change state atomic.
\<close>

section \<open>State\<close>

datatype state_file = Missing | Contents string

datatype io_fault =
  FaultMkdir | FaultOpen | FaultEncode | FaultSync | FaultClose | FaultRename | FaultOpenDir | FaultSyncDir | FaultCloseDir

record io =
  clock :: time
  read_fault :: bool
  write_fault :: "io_fault option"

record agent =
  MaintenanceDirectory :: string
  NodeID :: string
  Capacity :: resource_vector
  StateFile :: string
  AllowedImage :: string
  draining :: bool
  fence :: nat

record 'r agent_node =
  agent :: agent
  disk :: state_file
  gate :: gate_dir
  runtime :: 'r

definition New_agent :: "string \<Rightarrow> resource_vector \<Rightarrow> agent" where
  "New_agent i capacity = \<lparr>MaintenanceDirectory = '''', NodeID = i, Capacity = capacity, StateFile = '''', AllowedImage = '''',
     draining = False, fence = 0\<rparr>"

record start_request =
  sr_Command :: command
  sr_Spec :: worker_spec
  sr_Secrets :: "(string \<times> string) list"

record destinations_request =
  dr_Command :: command
  dr_Secrets :: "(string \<times> string) list"
  dr_Resources :: resource_vector

record slate_request =
  sl_Command :: command
  sl_OnSourceLoss :: bool
  sl_Forced :: bool

datatype agent_error =
    InvalidCommand domain_error | InvalidFencingState | IOError | StaleToken | MaintenanceActive | BadRequest
  | CommandMismatch | WrongNode | ImageNotAllowed | RuntimeError runtime_error | NodeDraining | CapacityExceeded

section \<open>The state file\<close>

text \<open>\<open>json.Encoder\<close> writes a \<open>uint64\<close> in decimal with a newline; \<open>json.Unmarshal\<close> into a zero \<open>uint64\<close> accepts a decimal
  number without sign, fraction, exponent or leading zero that fits, and \<open>null\<close>, which leaves the zero.\<close>

definition json_space :: "char \<Rightarrow> bool" where
  "json_space c \<longleftrightarrow> c = CHR '' '' \<or> c = CHR 0x09 \<or> c = CHR 0x0A \<or> c = CHR 0x0D"

definition json_trim :: "string \<Rightarrow> string" where
  "json_trim s = rev (dropWhile json_space (rev (dropWhile json_space s)))"

definition json_decode_uint64 :: "string \<Rightarrow> nat option" where
  "json_decode_uint64 s =
     (let t = json_trim s in
      if t = ''null'' then Some 0
      else if t \<noteq> [] \<and> list_all is_digit t \<and> (hd t \<noteq> CHR ''0'' \<or> length t = 1) \<and> digits_val t < 2 ^ 64
      then Some (digits_val t) else None)"

definition json_encode_uint64 :: "nat \<Rightarrow> string" where
  "json_encode_uint64 n = decimal n @ [CHR 0x0A]"

definition readFence :: "io \<Rightarrow> state_file \<Rightarrow> agent \<Rightarrow> agent_error + agent" where
  "readFence e d a =
     (if StateFile a = '''' then Inr a
      else case d of
          Missing \<Rightarrow> if read_fault e then Inl IOError else Inr a
        | Contents b \<Rightarrow>
            if read_fault e then Inl IOError
            else case json_decode_uint64 b of
                None \<Rightarrow> Inl InvalidFencingState
              | Some n \<Rightarrow> Inr (if n > fence a then a\<lparr>fence := n\<rparr> else a))"

text \<open>The replacement of the state file: the new contents are in place once the rename is done.\<close>

definition write_fence :: "io \<Rightarrow> nat \<Rightarrow> state_file \<Rightarrow> agent_error option \<times> state_file" where
  "write_fence e n d =
     (case write_fault e of
        None \<Rightarrow> (None, Contents (json_encode_uint64 n))
      | Some FaultMkdir \<Rightarrow> (Some IOError, d)
      | Some FaultOpen \<Rightarrow> (Some IOError, d)
      | Some FaultEncode \<Rightarrow> (Some IOError, d)
      | Some FaultSync \<Rightarrow> (Some IOError, d)
      | Some FaultClose \<Rightarrow> (Some IOError, d)
      | Some FaultRename \<Rightarrow> (Some IOError, d)
      | Some FaultOpenDir \<Rightarrow> (Some IOError, Contents (json_encode_uint64 n))
      | Some FaultSyncDir \<Rightarrow> (Some IOError, Contents (json_encode_uint64 n))
      | Some FaultCloseDir \<Rightarrow> (Some IOError, Contents (json_encode_uint64 n)))"

definition accept :: "io \<Rightarrow> command \<Rightarrow> agent \<Rightarrow> state_file \<Rightarrow> agent_error option \<times> agent \<times> state_file" where
  "accept e c a d =
     (case Command_Validate c (clock e) of
        Inl err \<Rightarrow> (Some (InvalidCommand err), a, d)
      | Inr _ \<Rightarrow>
          (case readFence e d a of
             Inl err \<Rightarrow> (Some err, a, d)
           | Inr a1 \<Rightarrow>
               if FencingToken c < fence a1 then (Some StaleToken, a1, d)
               else if FencingToken c > fence a1 \<and> StateFile a1 \<noteq> '''' then
                 (case write_fence e (FencingToken c) d of
                    (Some err, d') \<Rightarrow> (Some err, a1, d')
                  | (None, d') \<Rightarrow> (None, a1\<lparr>fence := FencingToken c\<rparr>, d'))
               else (None, a1\<lparr>fence := FencingToken c\<rparr>, d)))"

definition accept_node :: "io \<Rightarrow> command \<Rightarrow> 'r agent_node \<Rightarrow> agent_error option \<times> 'r agent_node" where
  "accept_node e c n = (case accept e c (agent n) (disk n) of (r, a, d) \<Rightarrow> (r, n\<lparr>agent := a, disk := d\<rparr>))"

section \<open>Starting a worker\<close>

fun scan_workers :: "agent \<Rightarrow> string \<Rightarrow> worker list \<Rightarrow> resource_vector \<times> bool \<Rightarrow> resource_vector \<times> bool" where
  "scan_workers a alloc [] acc = acc"
| "scan_workers a alloc (w # ws) (available, existing) =
     scan_workers a alloc ws
       (if spec_NodeID (Spec w) \<noteq> '''' \<and> spec_NodeID (Spec w) \<noteq> NodeID a then (available, existing)
        else if AllocationID (Spec w) = alloc then (available, State w = RUNNING)
        else if State w = RUNNING then (Sub available (spec_Resources (Spec w)), existing)
        else (available, existing))"

definition admit_start :: "'r runtime_ops \<Rightarrow> io \<Rightarrow> worker_spec \<Rightarrow> 'r agent_node \<Rightarrow> (agent_error + worker) \<times> 'r agent_node" where
  "admit_start ops e s n =
     (case op_List ops (runtime n) of
        Inl err \<Rightarrow> (Inl (RuntimeError err), n)
      | Inr ws \<Rightarrow>
          (case scan_workers (agent n) (AllocationID s) ws (Capacity (agent n), False) of
             (available, existing) \<Rightarrow>
               if draining (agent n) \<and> \<not> existing then (Inl NodeDraining, n)
               else if \<not> Fits (spec_Resources s) available then (Inl CapacityExceeded, n)
               else case op_Start ops (clock e) s (runtime n) of
                   (Inl err, r) \<Rightarrow> (Inl (RuntimeError err), n\<lparr>runtime := r\<rparr>)
                 | (Inr w, r) \<Rightarrow> (Inr w, n\<lparr>runtime := r\<rparr>)))"

definition start_body :: "'r runtime_ops \<Rightarrow> io \<Rightarrow> start_request option \<Rightarrow> 'r agent_node \<Rightarrow> (agent_error + worker) \<times> 'r agent_node" where
  "start_body ops e req n =
     (case req of
        None \<Rightarrow> (Inl BadRequest, n)
      | Some input \<Rightarrow>
          (let c = sr_Command input; s0 = sr_Spec input in
           if ResourceID c \<noteq> AllocationID s0 \<or> Generation c \<noteq> spec_Generation s0 \<or> FencingToken c \<noteq> spec_FencingToken s0
           then (Inl CommandMismatch, n)
           else if spec_NodeID s0 \<noteq> '''' \<and> spec_NodeID s0 \<noteq> NodeID (agent n) then (Inl WrongNode, n)
           else if AllowedImage (agent n) \<noteq> '''' \<and> Image s0 \<noteq> AllowedImage (agent n) then (Inl ImageNotAllowed, n)
           else let s = s0\<lparr>Files := sr_Secrets input\<rparr> in
             case ValidateStart s of
               Some err \<Rightarrow> (Inl (RuntimeError err), n)
             | None \<Rightarrow>
                 (case accept_node e c n of
                    (Some err, n1) \<Rightarrow> (Inl err, n1)
                  | (None, n1) \<Rightarrow> admit_start ops e s n1)))"

definition Start_agent :: "'r runtime_ops \<Rightarrow> io \<Rightarrow> start_request option \<Rightarrow> 'r agent_node \<Rightarrow> (agent_error + worker) \<times> 'r agent_node" where
  "Start_agent ops e req n =
     (case Enter (MaintenanceDirectory (agent n)) (gate n) of
        (Inl err, g) \<Rightarrow> (Inl MaintenanceActive, n\<lparr>gate := g\<rparr>)
      | (Inr l, g) \<Rightarrow>
          (case start_body ops e req (n\<lparr>gate := g\<rparr>) of
             (r, n') \<Rightarrow> (r, n'\<lparr>gate := release l (gate n')\<rparr>)))"

section \<open>Handlers\<close>

record heartbeat =
  hb_NodeID :: string
  hb_fence :: nat
  hb_draining :: bool
  hb_capacity :: resource_vector
  hb_used :: resource_vector

datatype response = Status nat | ROne nat worker | RMany nat "worker list" | RHeartbeat nat heartbeat

fun status_of :: "response \<Rightarrow> nat" where
  "status_of (Status c) = c"
| "status_of (ROne c _) = c"
| "status_of (RMany c _) = c"
| "status_of (RHeartbeat c _) = c"

definition post_workers :: "'r runtime_ops \<Rightarrow> io \<Rightarrow> start_request option \<Rightarrow> 'r agent_node \<Rightarrow> response \<times> 'r agent_node" where
  "post_workers ops e req n = (case Start_agent ops e req n of
     (Inl err, n') \<Rightarrow> (Status 409, n') | (Inr w, n') \<Rightarrow> (ROne 202 w, n'))"

definition delete_worker :: "'r runtime_ops \<Rightarrow> io \<Rightarrow> string \<Rightarrow> command option \<Rightarrow> 'r agent_node \<Rightarrow> response \<times> 'r agent_node" where
  "delete_worker ops e path req n = (case req of
     None \<Rightarrow> (Status 400, n)
   | Some c \<Rightarrow>
       if ResourceID c \<noteq> path then (Status 400, n)
       else case accept_node e c n of
           (Some err, n1) \<Rightarrow> (Status 409, n1)
         | (None, n1) \<Rightarrow>
             (case op_Stop ops (ResourceID c) (runtime n1) of
                (err, r) \<Rightarrow> if err \<noteq> None \<and> err \<noteq> Some ErrNotFound then (Status 500, n1\<lparr>runtime := r\<rparr>)
                            else (Status 204, n1\<lparr>runtime := r\<rparr>)))"

definition others_left :: "string \<Rightarrow> worker list \<Rightarrow> resource_vector \<Rightarrow> resource_vector" where
  "others_left i ws available = foldl (\<lambda>a w. if worker_ID w \<noteq> i \<and> State w = RUNNING then Sub a (spec_Resources (Spec w)) else a) available ws"

definition put_destinations_admitted :: "'r runtime_ops \<Rightarrow> io \<Rightarrow> destinations_request \<Rightarrow> 'r agent_node \<Rightarrow> response \<times> 'r agent_node" where
  "put_destinations_admitted ops e input n1 =
     (let rv = dr_Resources input; i = ResourceID (dr_Command input) in
      if Slots rv \<noteq> 1 \<or> CPUMillis rv \<le> 0 \<or> MemoryBytes rv \<le> 0 \<or> IngressBPS rv \<le> 0 \<or> EgressBPS rv \<le> 0 then (Status 400, n1)
      else case readFence e (disk n1) (agent n1) of
          Inl err \<Rightarrow> (Status 503, n1)
        | Inr a2 \<Rightarrow>
            (let n2 = n1\<lparr>agent := a2\<rparr> in
             case op_List ops (runtime n2) of
               Inl err \<Rightarrow> (Status 503, n2)
             | Inr ws \<Rightarrow>
                 if \<not> Fits rv (others_left i ws (Capacity (agent n2))) then (Status 409, n2)
                 else case op_ApplyDestinations ops of
                     None \<Rightarrow> (Status 501, n2)
                   | Some f \<Rightarrow>
                       (case f i (dr_Secrets input) rv (runtime n2) of
                          (Some err, r) \<Rightarrow> (Status 503, n2\<lparr>runtime := r\<rparr>)
                        | (None, r) \<Rightarrow> (Status 204, n2\<lparr>runtime := r\<rparr>))))"

definition put_destinations :: "'r runtime_ops \<Rightarrow> io \<Rightarrow> string \<Rightarrow> destinations_request option \<Rightarrow> 'r agent_node \<Rightarrow> response \<times> 'r agent_node" where
  "put_destinations ops e path req n = (case req of
     None \<Rightarrow> (Status 400, n)
   | Some input \<Rightarrow>
       if ResourceID (dr_Command input) \<noteq> path then (Status 400, n)
       else case accept_node e (dr_Command input) n of
           (Some err, n1) \<Rightarrow> (Status 409, n1)
         | (None, n1) \<Rightarrow> put_destinations_admitted ops e input n1)"

definition put_slate :: "'r runtime_ops \<Rightarrow> io \<Rightarrow> string \<Rightarrow> slate_request option \<Rightarrow> 'r agent_node \<Rightarrow> response \<times> 'r agent_node" where
  "put_slate ops e path req n = (case req of
     None \<Rightarrow> (Status 400, n)
   | Some input \<Rightarrow>
       if ResourceID (sl_Command input) \<noteq> path then (Status 400, n)
       else case accept_node e (sl_Command input) n of
           (Some err, n1) \<Rightarrow> (Status 409, n1)
         | (None, n1) \<Rightarrow>
             (case op_ApplySlatePolicy ops of
                None \<Rightarrow> (Status 501, n1)
              | Some g \<Rightarrow>
                  (case g (ResourceID (sl_Command input)) (sl_OnSourceLoss input) (sl_Forced input) (runtime n1) of
                     (Some err, r) \<Rightarrow> (Status 503, n1\<lparr>runtime := r\<rparr>)
                   | (None, r) \<Rightarrow> (Status 204, n1\<lparr>runtime := r\<rparr>))))"

definition get_worker :: "'r runtime_ops \<Rightarrow> string \<Rightarrow> 'r agent_node \<Rightarrow> response \<times> 'r agent_node" where
  "get_worker ops path n = (case op_Inspect ops path (runtime n) of
     Inl err \<Rightarrow> (Status (if err = ErrNotFound then 404 else 503), n)
   | Inr w \<Rightarrow> (ROne 200 w, n))"

definition get_workers :: "'r runtime_ops \<Rightarrow> io \<Rightarrow> 'r agent_node \<Rightarrow> response \<times> 'r agent_node" where
  "get_workers ops e n = (case readFence e (disk n) (agent n) of
     Inl err \<Rightarrow> (Status 503, n)
   | Inr a \<Rightarrow> (case op_List ops (runtime n) of
       Inl err \<Rightarrow> (Status 503, n\<lparr>agent := a\<rparr>)
     | Inr ws \<Rightarrow> (RMany 200 ws, n\<lparr>agent := a\<rparr>)))"

definition put_draining :: "io \<Rightarrow> (command \<times> bool) option \<Rightarrow> 'r agent_node \<Rightarrow> response \<times> 'r agent_node" where
  "put_draining e req n = (case req of
     None \<Rightarrow> (Status 400, n)
   | Some (c, d) \<Rightarrow>
       (case accept_node e c n of
          (Some err, n1) \<Rightarrow> (Status 409, n1)
        | (None, n1) \<Rightarrow> (Status 204, n1\<lparr>agent := (agent n1)\<lparr>draining := d\<rparr>\<rparr>)))"

definition heartbeat_used :: "agent \<Rightarrow> worker list \<Rightarrow> resource_vector" where
  "heartbeat_used a ws = foldl (\<lambda>u v. if State v = RUNNING \<and> (spec_NodeID (Spec v) = '''' \<or> spec_NodeID (Spec v) = NodeID a)
     then Add u (spec_Resources (Spec v)) else u) rv_zero ws"

definition get_heartbeat :: "'r runtime_ops \<Rightarrow> io \<Rightarrow> 'r agent_node \<Rightarrow> response \<times> 'r agent_node" where
  "get_heartbeat ops e n = (case readFence e (disk n) (agent n) of
     Inl err \<Rightarrow> (Status 503, n)
   | Inr a \<Rightarrow> (case op_List ops (runtime n) of
       Inl err \<Rightarrow> (Status 503, n\<lparr>agent := a\<rparr>)
     | Inr ws \<Rightarrow> (RHeartbeat 200 \<lparr>hb_NodeID = NodeID a, hb_fence = fence a, hb_draining = draining a, hb_capacity = Capacity a,
           hb_used = heartbeat_used a ws\<rparr>, n\<lparr>agent := a\<rparr>)))"

datatype request =
    PostWorkers "start_request option"
  | DeleteWorker string "command option"
  | PutDestinations string "destinations_request option"
  | PutSlate string "slate_request option"
  | GetWorker string
  | GetWorkers
  | PutDraining "(command \<times> bool) option"
  | GetHeartbeat

fun Handler :: "'r runtime_ops \<Rightarrow> io \<Rightarrow> request \<Rightarrow> 'r agent_node \<Rightarrow> response \<times> 'r agent_node" where
  "Handler ops e (PostWorkers r) n = post_workers ops e r n"
| "Handler ops e (DeleteWorker i r) n = delete_worker ops e i r n"
| "Handler ops e (PutDestinations i r) n = put_destinations ops e i r n"
| "Handler ops e (PutSlate i r) n = put_slate ops e i r n"
| "Handler ops e (GetWorker i) n = get_worker ops i n"
| "Handler ops e GetWorkers n = get_workers ops e n"
| "Handler ops e (PutDraining r) n = put_draining e r n"
| "Handler ops e GetHeartbeat n = get_heartbeat ops e n"

fun command_of :: "request \<Rightarrow> command option" where
  "command_of (PostWorkers (Some r)) = Some (sr_Command r)"
| "command_of (DeleteWorker i (Some c)) = Some c"
| "command_of (PutDestinations i (Some r)) = Some (dr_Command r)"
| "command_of (PutSlate i (Some r)) = Some (sl_Command r)"
| "command_of (PutDraining (Some (c, d))) = Some c"
| "command_of _ = None"

text \<open>Tokens are 64-bit on the wire: a request outside the range does not decode.\<close>

definition request_ok :: "request \<Rightarrow> bool" where
  "request_ok req \<longleftrightarrow> (case command_of req of None \<Rightarrow> True | Some c \<Rightarrow> FencingToken c < 2 ^ 64)"

text \<open>A restart loses the memory of the agent and keeps the disk and the workers.\<close>

definition restart :: "'r agent_node \<Rightarrow> 'r agent_node" where
  "restart n = n\<lparr>agent := (agent n)\<lparr>fence := 0, draining := False\<rparr>\<rparr>"

inductive node_step :: "'r runtime_ops \<Rightarrow> 'r agent_node \<Rightarrow> 'r agent_node \<Rightarrow> bool" for ops where
  serve: "Handler ops e req n = (resp, n') \<Longrightarrow> request_ok req \<Longrightarrow> node_step ops n n'"
| restarted: "node_step ops n (restart n)"

inductive node_steps :: "'r runtime_ops \<Rightarrow> 'r agent_node \<Rightarrow> 'r agent_node \<Rightarrow> bool" for ops where
  steps_none: "node_steps ops n n"
| steps_more: "node_steps ops n m \<Longrightarrow> node_step ops m k \<Longrightarrow> node_steps ops n k"

section \<open>The fencing watermark\<close>

lemma dropWhile_space_digit: "is_digit c \<Longrightarrow> dropWhile json_space (c # cs) = c # cs"
  by (auto simp: json_space_def is_digit_def)

lemma decimal_nonempty [simp]: "decimal n \<noteq> []"
  by (subst decimal.simps) simp

lemma decimal_hd: "hd (decimal n) = CHR ''0'' \<Longrightarrow> n = 0"
proof (induction n rule: decimal.induct)
  case (1 n)
  show ?case
  proof (cases "n < 10")
    case True
    then have "of_char (digit_char n) = (48 :: nat)" using 1 by (simp add: decimal.simps)
    then show ?thesis using True by (simp add: digit_char_def)
  next
    case False
    then have "hd (decimal (n div 10)) = CHR ''0''" using "1.prems" by (subst (asm) decimal.simps) simp
    with 1 False show ?thesis by simp
  qed
qed

lemma json_trim_decimal: "json_trim (decimal n @ [CHR 0x0A]) = decimal n"
proof -
  obtain c cs where c: "decimal n = c # cs" by (cases "decimal n") auto
  obtain b bs where b: "rev (decimal n) = b # bs" by (cases "rev (decimal n)") auto
  have "b \<in> set (rev (decimal n))" unfolding b by simp
  then have dig: "is_digit c" "is_digit b" using decimal_digits [of n] c by auto
  have "dropWhile json_space (decimal n @ [CHR 0x0A]) = decimal n @ [CHR 0x0A]"
    using dig c dropWhile_space_digit by simp
  moreover have "dropWhile json_space (rev (decimal n @ [CHR 0x0A])) = rev (decimal n)"
    using dig b dropWhile_space_digit by (simp add: json_space_def)
  ultimately show ?thesis by (simp add: json_trim_def)
qed

lemma json_roundtrip: "n < 2 ^ 64 \<Longrightarrow> json_decode_uint64 (json_encode_uint64 n) = Some n"
proof -
  assume n: "n < 2 ^ 64"
  have "decimal n \<noteq> ''null''"
    using decimal_digits [of n] by (auto simp: is_digit_def)
  moreover have "hd (decimal n) \<noteq> CHR ''0'' \<or> length (decimal n) = 1"
  proof (cases "n = 0")
    case True
    then show ?thesis by (simp add: decimal.simps)
  next
    case False
    then show ?thesis using decimal_hd by blast
  qed
  moreover have "list_all is_digit (decimal n)" using decimal_digits by (simp add: list_all_iff)
  ultimately show ?thesis
    using n by (simp add: json_decode_uint64_def json_encode_uint64_def json_trim_decimal Let_def)
qed

definition disk_fence :: "state_file \<Rightarrow> nat" where
  "disk_fence d = (case d of Missing \<Rightarrow> 0 | Contents b \<Rightarrow> (case json_decode_uint64 b of None \<Rightarrow> 0 | Some n \<Rightarrow> n))"

definition watermark :: "'r agent_node \<Rightarrow> nat" where
  "watermark n = max (fence (agent n)) (disk_fence (disk n))"

text \<open>What is known of the watermark is on the disk.\<close>

definition persisted :: "'r agent_node \<Rightarrow> bool" where
  "persisted n \<longleftrightarrow> StateFile (agent n) \<noteq> '''' \<and> fence (agent n) \<le> disk_fence (disk n)"

lemma readFence_Inr:
  "readFence e d a = Inr a' \<Longrightarrow> StateFile a \<noteq> '''' \<Longrightarrow> a' = a\<lparr>fence := max (fence a) (disk_fence d)\<rparr>"
  by (auto simp: readFence_def disk_fence_def max_def split: if_splits option.splits state_file.splits)

lemma readFence_config:
  "readFence e d a = Inr a' \<Longrightarrow> a'\<lparr>fence := x\<rparr> = a\<lparr>fence := x\<rparr>"
  by (auto simp: readFence_def split: if_splits option.splits state_file.splits)

lemma write_fence_disk:
  "write_fence e n d = (r, d') \<Longrightarrow> n < 2 ^ 64 \<Longrightarrow> disk_fence d' = n \<or> (d' = d \<and> r \<noteq> None)"
  by (auto simp: write_fence_def disk_fence_def json_roundtrip split: option.splits io_fault.splits)

text \<open>
  What \<open>accept\<close> does to the watermark. The bound on the token is the width of the Go field.
\<close>

lemma accept_watermark:
  assumes "accept_node e c n = (r, n')" "persisted n" "FencingToken c < 2 ^ 64"
  shows "persisted n' \<and> watermark n \<le> watermark n' \<and> runtime n' = runtime n \<and> gate n' = gate n
    \<and> (r = None \<longrightarrow> watermark n \<le> FencingToken c \<and> watermark n' = FencingToken c)"
proof -
  note a = assms(1) [unfolded accept_node_def accept_def]
  show ?thesis
  proof (cases "readFence e (disk n) (agent n)")
    case (Inl err)
    with a assms(2) show ?thesis by (auto split: sum.splits)
  next
    case (Inr a1)
    then have a1: "a1 = (agent n)\<lparr>fence := disk_fence (disk n)\<rparr>" and sf: "StateFile (agent n) \<noteq> ''''"
      and le: "fence (agent n) \<le> disk_fence (disk n)"
      using readFence_Inr [OF Inr] assms(2) by (auto simp: persisted_def max_def)
    obtain wr wd where w: "write_fence e (FencingToken c) (disk n) = (wr, wd)" by force
    from write_fence_disk [OF w assms(3)] show ?thesis
      using a Inr le sf w unfolding a1
      by (auto simp: persisted_def watermark_def split: sum.splits if_splits option.splits)
  qed
qed

lemma accept_config:
  assumes "accept_node e c n = (r, n')"
  shows "(agent n')\<lparr>fence := x\<rparr> = (agent n)\<lparr>fence := x\<rparr> \<and> runtime n' = runtime n \<and> gate n' = gate n"
  using assms readFence_config [of e "disk n" "agent n"]
  by (auto simp: accept_node_def accept_def split: sum.splits if_splits option.splits prod.splits)

lemma readFence_watermark:
  assumes "readFence e (disk n) (agent n) = Inr a" "persisted n"
  shows "persisted (n\<lparr>agent := a\<rparr>) \<and> watermark (n\<lparr>agent := a\<rparr>) = watermark n"
  using readFence_Inr [OF assms(1)] assms(2) by (auto simp: persisted_def watermark_def max_def)

lemma watermark_frame [simp]:
  "watermark (n\<lparr>runtime := r\<rparr>) = watermark n" "watermark (n\<lparr>gate := g\<rparr>) = watermark n"
  "persisted (n\<lparr>runtime := r\<rparr>) = persisted n" "persisted (n\<lparr>gate := g\<rparr>) = persisted n"
  by (simp_all add: watermark_def persisted_def)

text \<open>
  Every handler either leaves the agent and the disk alone (up to reading the state file) or runs
  \<open>accept\<close> once on the command of the request and then leaves the watermark alone; when \<open>accept\<close> refuses,
  the runtime is not touched and the answer is an error.
\<close>

definition guarded :: "io \<Rightarrow> command \<Rightarrow> 'r agent_node \<Rightarrow> response \<times> 'r agent_node \<Rightarrow> bool" where
  "guarded e c n out \<longleftrightarrow>
     (status_of (fst out) \<ge> 400 \<and> agent (snd out) = agent n \<and> disk (snd out) = disk n \<and> runtime (snd out) = runtime n)
   \<or> (\<exists>err n1. accept_node e c n = (Some err, n1) \<and> status_of (fst out) \<ge> 400 \<and> agent (snd out) = agent n1 \<and> disk (snd out) = disk n1
        \<and> runtime (snd out) = runtime n)
   \<or> (\<exists>n1. accept_node e c n = (None, n1) \<and> disk (snd out) = disk n1 \<and> StateFile (agent (snd out)) = StateFile (agent n1)
        \<and> (fence (agent (snd out)) = fence (agent n1) \<or> fence (agent (snd out)) = max (fence (agent n1)) (disk_fence (disk n1))))"

lemma accept_node_gate: "accept_node e c (n\<lparr>gate := g\<rparr>) = (case accept_node e c n of (r, m) \<Rightarrow> (r, m\<lparr>gate := g\<rparr>))"
  by (auto simp: accept_node_def split: prod.splits)

lemma admit_start_frame:
  "admit_start ops e s n = (r, n') \<Longrightarrow> agent n' = agent n \<and> disk n' = disk n \<and> gate n' = gate n"
  by (auto simp: admit_start_def split: sum.splits prod.splits if_splits)

definition guarded_start :: "io \<Rightarrow> command \<Rightarrow> 'r agent_node \<Rightarrow> (agent_error + worker) \<times> 'r agent_node \<Rightarrow> bool" where
  "guarded_start e c n out \<longleftrightarrow>
     (\<exists>err. fst out = Inl err \<and> snd out = n)
   \<or> (\<exists>err n1. accept_node e c n = (Some err, n1) \<and> out = (Inl err, n1))
   \<or> (\<exists>n1. accept_node e c n = (None, n1) \<and> agent (snd out) = agent n1 \<and> disk (snd out) = disk n1 \<and> gate (snd out) = gate n1)"

lemma start_body_guarded: "guarded_start e (sr_Command input) n (start_body ops e (Some input) n)"
proof -
  obtain r n1 where acc: "accept_node e (sr_Command input) n = (r, n1)" by force
  obtain out n2 where adm: "admit_start ops e ((sr_Spec input)\<lparr>Files := sr_Secrets input\<rparr>) n1 = (out, n2)" by force
  from admit_start_frame [OF adm] acc adm show ?thesis
    by (auto simp: guarded_start_def start_body_def Let_def split: option.splits)
qed

lemma post_workers_guarded: "guarded e (sr_Command input) n (post_workers ops e (Some input) n)"
proof -
  obtain x g where ent: "Enter (MaintenanceDirectory (agent n)) (gate n) = (x, g)" by force
  show ?thesis
  proof (cases x)
    case (Inl err)
    with ent show ?thesis by (simp add: guarded_def post_workers_def Start_agent_def)
  next
    case (Inr l)
    obtain r n1 where acc: "accept_node e (sr_Command input) n = (r, n1)" by force
    obtain out m where body: "start_body ops e (Some input) (n\<lparr>gate := g\<rparr>) = (out, m)" by force
    have post: "post_workers ops e (Some input) n =
        (case out of Inl err \<Rightarrow> (Status 409, m\<lparr>gate := release l (gate m)\<rparr>) | Inr w \<Rightarrow> (ROne 202 w, m\<lparr>gate := release l (gate m)\<rparr>))"
      using ent Inr body by (simp add: post_workers_def Start_agent_def split: sum.splits)
    have acc': "accept_node e (sr_Command input) (n\<lparr>gate := g\<rparr>) = (r, n1\<lparr>gate := g\<rparr>)"
      using acc by (simp add: accept_node_gate)
    have rt: "runtime n1 = runtime n" using accept_config [OF acc] by simp
    from start_body_guarded [of e input "n\<lparr>gate := g\<rparr>" ops]
    show ?thesis
      using acc rt unfolding body acc' guarded_start_def guarded_def post by (cases out) auto
  qed
qed

lemma readFence_fence: "readFence e d a = Inr a' \<Longrightarrow> StateFile a' = StateFile a \<and> (fence a' = fence a \<or> fence a' = max (fence a) (disk_fence d))"
  using readFence_Inr [of e d a a'] by (cases "StateFile a = ''''") (auto simp: readFence_def)

lemma put_destinations_guarded: "guarded e (dr_Command input) n (put_destinations ops e i (Some input) n)"
proof -
  obtain r n1 where acc: "accept_node e (dr_Command input) n = (r, n1)" by force
  have rt: "runtime n1 = runtime n" using accept_config [OF acc] by simp
  have adm: "disk (snd out) = disk n1 \<and> StateFile (agent (snd out)) = StateFile (agent n1)
      \<and> (fence (agent (snd out)) = fence (agent n1) \<or> fence (agent (snd out)) = max (fence (agent n1)) (disk_fence (disk n1)))"
    if "out = put_destinations_admitted ops e input n1" for out
    unfolding that put_destinations_admitted_def
    using readFence_fence [of e "disk n1" "agent n1"]
    by (auto simp: Let_def split: sum.splits option.splits prod.splits)
  show ?thesis
    using acc rt adm [OF refl] by (cases r) (auto simp: guarded_def put_destinations_def)
qed

lemma other_handlers_guarded:
  "guarded e c n (delete_worker ops e i (Some c) n)"
  "guarded e (sl_Command sl) n (put_slate ops e i (Some sl) n)"
  "guarded e c n (put_draining e (Some (c, d)) n)"
proof -
  fix c
  obtain r n1 where acc: "accept_node e c n = (r, n1)" by force
  have rt: "runtime n1 = runtime n" using accept_config [OF acc] by simp
  show "guarded e c n (delete_worker ops e i (Some c) n)"
    using acc rt by (cases r) (auto simp: guarded_def delete_worker_def split: prod.splits)
  show "guarded e c n (put_draining e (Some (c, d)) n)"
    using acc rt by (cases r) (auto simp: guarded_def put_draining_def)
next
  obtain r n1 where acc: "accept_node e (sl_Command sl) n = (r, n1)" by force
  have rt: "runtime n1 = runtime n" using accept_config [OF acc] by simp
  show "guarded e (sl_Command sl) n (put_slate ops e i (Some sl) n)"
    using acc rt by (cases r) (auto simp: guarded_def put_slate_def split: option.splits prod.splits)
qed

lemma Handler_guarded: "command_of req = Some c \<Longrightarrow> guarded e c n (Handler ops e req n)"
  by (induction req rule: command_of.induct)
    (auto simp: post_workers_guarded put_destinations_guarded other_handlers_guarded)

lemma guarded_watermark:
  assumes "guarded e c n (resp, n')" "persisted n" "FencingToken c < 2 ^ 64"
  shows "persisted n' \<and> watermark n \<le> watermark n' \<and> (FencingToken c < watermark n \<longrightarrow> runtime n' = runtime n \<and> 400 \<le> status_of resp)
    \<and> (status_of resp < 400 \<longrightarrow> watermark n' = FencingToken c)"
proof -
  obtain r n1 where acc: "accept_node e c n = (r, n1)" by force
  note w = accept_watermark [OF acc assms(2,3)]
  show ?thesis
    using assms(1) acc w assms(2) by (auto simp: guarded_def persisted_def watermark_def max_def split: if_splits)
qed

lemma Handler_no_command:
  assumes "Handler ops e req n = (resp, n')" "command_of req = None" "persisted n"
  shows "persisted n' \<and> watermark n' = watermark n"
proof (cases req)
  case (PostWorkers r)
  then have "r = None" using assms(2) by (cases r) auto
  then show ?thesis
    using PostWorkers assms by (auto simp: post_workers_def Start_agent_def start_body_def split: prod.splits sum.splits)
next
  case (PutDraining r)
  then have "r = None" using assms(2) by (cases r) auto
  then show ?thesis using PutDraining assms by (auto simp: put_draining_def)
next
  case (DeleteWorker i r)
  then have "r = None" using assms(2) by (cases r) auto
  then show ?thesis using DeleteWorker assms by (auto simp: delete_worker_def)
next
  case (PutDestinations i r)
  then have "r = None" using assms(2) by (cases r) auto
  then show ?thesis using PutDestinations assms by (auto simp: put_destinations_def)
next
  case (PutSlate i r)
  then have "r = None" using assms(2) by (cases r) auto
  then show ?thesis using PutSlate assms by (auto simp: put_slate_def)
next
  case (GetWorker i)
  then show ?thesis using assms by (auto simp: get_worker_def split: sum.splits)
next
  case GetWorkers
  then show ?thesis using assms readFence_watermark [of e n] by (auto simp: get_workers_def split: sum.splits)
next
  case GetHeartbeat
  then show ?thesis using assms readFence_watermark [of e n] by (auto simp: get_heartbeat_def split: sum.splits)
qed

lemma Handler_watermark:
  assumes "Handler ops e req n = (resp, n')" "persisted n" "request_ok req"
  shows "persisted n' \<and> watermark n \<le> watermark n'"
proof (cases "command_of req")
  case None
  with Handler_no_command [OF assms(1) None assms(2)] show ?thesis by simp
next
  case (Some c)
  with Handler_guarded [OF Some, of e n ops] assms guarded_watermark [of e c n resp n'] show ?thesis
    by (simp add: request_ok_def)
qed

lemma restart_watermark: "persisted n \<Longrightarrow> persisted (restart n) \<and> watermark (restart n) = watermark n"
  by (auto simp: restart_def persisted_def watermark_def)

lemma node_steps_watermark:
  "node_steps ops n m \<Longrightarrow> persisted n \<Longrightarrow> persisted m \<and> watermark n \<le> watermark m"
proof (induction rule: node_steps.induct)
  case (steps_more n m k)
  then have ih: "persisted m" "watermark n \<le> watermark m" by auto
  from steps_more.hyps(2) show ?case
  proof cases
    case (serve e req resp)
    with Handler_watermark [OF serve(1) ih(1)] ih(2) show ?thesis by simp
  next
    case restarted
    with restart_watermark [OF ih(1)] ih(2) show ?thesis by simp
  qed
qed simp

section \<open>Capacity\<close>

text \<open>What the running workers of a view demand in one dimension.\<close>

definition demand :: "(resource_vector \<Rightarrow> int) \<Rightarrow> worker \<Rightarrow> int" where
  "demand f w = (if State w = RUNNING then f (spec_Resources (Spec w)) else 0)"

definition used :: "(resource_vector \<Rightarrow> int) \<Rightarrow> (string \<rightharpoonup> worker) \<Rightarrow> int" where
  "used f v = (\<Sum>i \<in> dom v. demand f (the (v i)))"

definition placed :: "agent \<Rightarrow> worker \<Rightarrow> bool" where
  "placed a w \<longleftrightarrow> spec_NodeID (Spec w) \<in> {'''', NodeID a} \<and> (State w = RUNNING \<longrightarrow> nonneg (spec_Resources (Spec w)))"

definition within_capacity :: "('r \<Rightarrow> bool) \<Rightarrow> ('r \<Rightarrow> string \<rightharpoonup> worker) \<Rightarrow> 'r agent_node \<Rightarrow> bool" where
  "within_capacity rok view n \<longleftrightarrow> rok (runtime n) \<and> in_range (Capacity (agent n))
     \<and> (\<forall>w \<in> ran (view (runtime n)). placed (agent n) w)
     \<and> (\<forall>f \<in> set dims. used f (view (runtime n)) \<le> f (Capacity (agent n)))"

lemma within_capacityD:
  assumes "within_capacity rok view n"
  shows "rok (runtime n)" "in_range (Capacity (agent n))"
    and "view (runtime n) i = Some w \<Longrightarrow> placed (agent n) w"
    and "f \<in> set dims \<Longrightarrow> used f (view (runtime n)) \<le> f (Capacity (agent n))"
  using assms by (auto simp: within_capacity_def ran_def)

lemma demand_nonneg: "placed a w \<Longrightarrow> f \<in> set dims \<Longrightarrow> 0 \<le> demand f w"
  by (auto simp: demand_def placed_def intro: nonnegD)

lemma used_nonneg: "(\<And>i w. v i = Some w \<Longrightarrow> placed a w) \<Longrightarrow> f \<in> set dims \<Longrightarrow> 0 \<le> used f v"
  unfolding used_def by (rule sum_nonneg) (auto intro!: demand_nonneg)

lemma used_upd:
  "finite (dom v) \<Longrightarrow> used f (v(i \<mapsto> w)) = used f (v(i := None)) + demand f w"
proof -
  assume fin: "finite (dom v)"
  have "used f (v(i \<mapsto> w)) = used f ((v(i := None))(i \<mapsto> w))" by simp
  also have "\<dots> = used f (v(i := None)) + demand f w"
    unfolding used_def using sum_fun_upd [of "v(i := None)" "demand f" i w] fin by simp
  finally show ?thesis .
qed

lemma used_remove: "finite (dom v) \<Longrightarrow> v i = Some w \<Longrightarrow> used f (v(i := None)) = used f v - demand f w"
  using used_upd [of v f i w] by (simp add: fun_upd_idem)

lemma used_remove_none: "v i = None \<Longrightarrow> used f (v(i := None)) = used f v"
  by (simp add: fun_upd_idem)

lemma foldl_Sub: "f \<in> set dims \<Longrightarrow> in_range c \<Longrightarrow> f (foldl Sub c rs) = i64 (f c - (\<Sum>r\<leftarrow>rs. f r))"
proof (induction rs rule: rev_induct)
  case Nil
  then show ?case by (simp add: in_range_def)
next
  case (snoc r rs)
  then show ?case by (simp add: dims_Sub i64_ring algebra_simps)
qed

lemma foldl_Add: "f \<in> set dims \<Longrightarrow> f (foldl Add rv_zero rs) = i64 (\<Sum>r\<leftarrow>rs. f r)"
proof (induction rs rule: rev_induct)
  case Nil
  then show ?case by (simp add: in_i64_def)
next
  case (snoc r rs)
  then show ?case by (simp add: dims_Add i64_ring algebra_simps)
qed

text \<open>The three scans over the listing are folds over the demands of the workers they count.\<close>

definition counted :: "(worker \<Rightarrow> bool) \<Rightarrow> worker list \<Rightarrow> resource_vector list" where
  "counted P ws = map (spec_Resources \<circ> Spec) (filter (\<lambda>w. P w \<and> State w = RUNNING) ws)"

lemma others_left_counted: "others_left i ws c = foldl Sub c (counted (\<lambda>w. worker_ID w \<noteq> i) ws)"
  by (induction ws rule: rev_induct) (auto simp: others_left_def counted_def)

lemma heartbeat_counted:
  "heartbeat_used a ws = foldl Add rv_zero (counted (\<lambda>w. spec_NodeID (Spec w) \<in> {'''', NodeID a}) ws)"
  by (induction ws rule: rev_induct) (auto simp: heartbeat_used_def counted_def)

lemma scan_counted:
  "fst (scan_workers a alloc ws acc) =
     foldl Sub (fst acc) (counted (\<lambda>w. spec_NodeID (Spec w) \<in> {'''', NodeID a} \<and> AllocationID (Spec w) \<noteq> alloc) ws)"
  by (induction ws arbitrary: acc) (auto simp: counted_def split: prod.splits)

lemma sum_counted: "(\<Sum>r\<leftarrow>counted P ws. f r) = (\<Sum>w\<leftarrow>ws. if P w then demand f w else 0)"
  by (induction ws) (auto simp: counted_def demand_def)

context worker_runtime
begin

lemma sum_listing:
  assumes "wf r" "op_List ops r = Inr ws"
  shows "(\<Sum>w\<leftarrow>ws. if worker_ID w \<noteq> i then demand f w else 0) = used f ((view r)(i := None))"
proof -
  let ?h = "\<lambda>k. if k \<noteq> i then demand f (the (view r k)) else 0"
  have "map (\<lambda>w. if worker_ID w \<noteq> i then demand f w else 0) ws = map ?h (map worker_ID ws)"
    using list_mem [OF assms] by simp
  then have "(\<Sum>w\<leftarrow>ws. if worker_ID w \<noteq> i then demand f w else 0) = (\<Sum>k\<leftarrow>map worker_ID ws. ?h k)"
    by (rule arg_cong)
  also have "\<dots> = (\<Sum>k \<in> set (map worker_ID ws). ?h k)"
    using list_complete [OF assms] by (simp only: sum_list_distinct_conv_sum_set)
  also have "set (map worker_ID ws) = dom (view r)"
    using list_complete [OF assms] view_ids [OF assms(1)] by (force simp: ran_def dom_def)
  also have "(\<Sum>k \<in> dom (view r). ?h k) = (\<Sum>k \<in> dom (view r) - {i}. ?h k)"
    by (rule sum.mono_neutral_right) (auto simp: view_finite [OF assms(1)])
  also have "\<dots> = used f ((view r)(i := None))"
    unfolding used_def by (rule sum.cong) auto
  finally show ?thesis .
qed

lemma left_exact:
  assumes cap: "within_capacity wf view n" and l: "op_List ops (runtime n) = Inr ws" and f: "f \<in> set dims"
    and P: "\<And>w. w \<in> set ws \<Longrightarrow> P w \<longleftrightarrow> worker_ID w \<noteq> i"
  shows "f (foldl Sub (Capacity (agent n)) (counted P ws)) = f (Capacity (agent n)) - used f ((view (runtime n))(i := None))"
proof -
  note c = within_capacityD [OF cap]
  have "(\<Sum>w\<leftarrow>ws. if P w then demand f w else 0) = (\<Sum>w\<leftarrow>ws. if worker_ID w \<noteq> i then demand f w else 0)"
    using P by (intro arg_cong [of _ _ sum_list] map_cong) auto
  then have s: "(\<Sum>r\<leftarrow>counted P ws. f r) = used f ((view (runtime n))(i := None))"
    using sum_listing [OF c(1) l, of i f] by (simp add: sum_counted)
  have lo: "0 \<le> used f ((view (runtime n))(i := None))"
    using c(3) by (intro used_nonneg [OF _ f]) (auto split: if_splits)
  have "used f ((view (runtime n))(i := None)) \<le> used f (view (runtime n))"
  proof (cases "view (runtime n) i")
    case (Some w)
    then show ?thesis
      using used_remove [OF view_finite [OF c(1)] Some, of f] demand_nonneg [OF c(3) [OF Some] f] by simp
  qed (simp add: used_remove_none)
  then have hi: "used f ((view (runtime n))(i := None)) \<le> f (Capacity (agent n))" using c(4) [OF f] by simp
  have "in_i64 (f (Capacity (agent n)))" using c(2) f by (auto simp: in_range_def)
  then have "in_i64 (f (Capacity (agent n)) - used f ((view (runtime n))(i := None)))"
    using lo hi by (auto simp: in_i64_def)
  then show ?thesis using foldl_Sub [OF f c(2)] s by simp
qed

lemma replace_within:
  assumes cap: "within_capacity wf view n" and wf: "wf r'" and v: "view r' = (view (runtime n))(i \<mapsto> w)" and p: "placed (agent n) w"
    and fit: "\<And>f. f \<in> set dims \<Longrightarrow> demand f w \<le> f (Capacity (agent n)) - used f ((view (runtime n))(i := None))"
  shows "within_capacity wf view (n\<lparr>runtime := r'\<rparr>)"
proof -
  note c = within_capacityD [OF cap]
  have "used f (view r') \<le> f (Capacity (agent n))" if "f \<in> set dims" for f
    using used_upd [OF view_finite [OF c(1)], of f i w] fit [OF that] v by simp
  moreover have "placed (agent n) x" if "x \<in> ran (view r')" for x
    using that c(3) p v by (auto simp: ran_def split: if_splits)
  ultimately show ?thesis using wf c(2) by (simp add: within_capacity_def)
qed

text \<open>Nothing runs that did not run before, or with a demand that it did not have.\<close>

lemma shrink_within:
  assumes cap: "within_capacity wf view n" and wf: "wf r'"
    and sub: "\<And>j x. view r' j = Some x \<Longrightarrow> \<exists>y. view (runtime n) j = Some y \<and> spec_NodeID (Spec x) = spec_NodeID (Spec y)
      \<and> (State x = RUNNING \<longrightarrow> State y = RUNNING \<and> spec_Resources (Spec x) = spec_Resources (Spec y))"
  shows "within_capacity wf view (n\<lparr>runtime := r'\<rparr>)"
proof -
  note c = within_capacityD [OF cap]
  have pl: "placed (agent n) x" if "view r' j = Some x" for j x
    using sub [OF that] c(3) [of j] by (auto simp: placed_def)
  have le: "demand f (the (view r' j)) \<le> demand f (the (view (runtime n) j))" if j: "j \<in> dom (view r')" and f: "f \<in> set dims" for f j
  proof -
    from j obtain x where x: "view r' j = Some x" by auto
    from sub [OF x] obtain y where y: "view (runtime n) j = Some y"
      "State x = RUNNING \<longrightarrow> State y = RUNNING \<and> spec_Resources (Spec x) = spec_Resources (Spec y)" by blast
    with x show ?thesis using demand_nonneg [OF c(3) [OF y(1)] f] by (auto simp: demand_def)
  qed
  have dom: "dom (view r') \<subseteq> dom (view (runtime n))" using sub by blast
  have "used f (view r') \<le> f (Capacity (agent n))" if f: "f \<in> set dims" for f
  proof -
    have "used f (view r') \<le> (\<Sum>j \<in> dom (view r'). demand f (the (view (runtime n) j)))"
      unfolding used_def using le f by (intro sum_mono) blast
    also have "\<dots> \<le> used f (view (runtime n))"
      unfolding used_def using dom view_finite [OF c(1)] demand_nonneg [OF c(3) f]
      by (intro sum_mono2) auto
    finally show ?thesis using c(4) [OF f] by simp
  qed
  then show ?thesis using pl wf c(2) by (auto simp: within_capacity_def ran_def)
qed

lemma same_demand_within:
  assumes cap: "within_capacity wf view n" and wf: "wf r'"
    and same: "\<And>j. map_option placement (view r' j) = map_option placement (view (runtime n) j)"
  shows "within_capacity wf view (n\<lparr>runtime := r'\<rparr>)"
proof (rule shrink_within [OF cap wf])
  fix j x assume "view r' j = Some x"
  with same [of j] obtain y where "view (runtime n) j = Some y" "placement x = placement y"
    by (cases "view (runtime n) j") auto
  then show "\<exists>y. view (runtime n) j = Some y \<and> spec_NodeID (Spec x) = spec_NodeID (Spec y)
      \<and> (State x = RUNNING \<longrightarrow> State y = RUNNING \<and> spec_Resources (Spec x) = spec_Resources (Spec y))"
    by (simp add: placement_def)
qed

lemma scan_left:
  assumes cap: "within_capacity wf view n" and l: "op_List ops (runtime n) = Inr ws" and f: "f \<in> set dims"
  shows "f (fst (scan_workers (agent n) i ws (Capacity (agent n), b))) = f (Capacity (agent n)) - used f ((view (runtime n))(i := None))"
proof -
  note c = within_capacityD [OF cap]
  have "(spec_NodeID (Spec w) \<in> {'''', NodeID (agent n)} \<and> AllocationID (Spec w) \<noteq> i) \<longleftrightarrow> worker_ID w \<noteq> i" if "w \<in> set ws" for w
    using view_ids [OF c(1) list_mem [OF c(1) l that]] c(3) [OF list_mem [OF c(1) l that]] by (simp add: placed_def)
  from left_exact [OF cap l f this] show ?thesis by (simp add: scan_counted)
qed

lemma admit_start_within:
  assumes cap: "within_capacity wf view n" and st: "admit_start ops e s n = (res, n')"
    and s: "ValidateStart s = None" "spec_NodeID s \<in> {'''', NodeID (agent n)}"
  shows "within_capacity wf view n'"
proof -
  note c = within_capacityD [OF cap]
  obtain x r' where op: "op_Start ops (clock e) s (runtime n) = (x, r')" by force
  have wf': "wf r'" by (rule start_wf [OF c(1) op])
  have started: "within_capacity wf view (n\<lparr>runtime := r'\<rparr>)"
    if "op_List ops (runtime n) = Inr ws" "scan_workers (agent n) (AllocationID s) ws (Capacity (agent n), False) = (av, ex)"
      "Fits (spec_Resources s) av" for ws av ex
  proof (cases x)
    case (Inl err)
    then show ?thesis
      using same_demand_within [OF cap wf'] start_error [OF c(1)] op by simp
  next
    case (Inr w)
    note ok = start_ok [OF c(1) op [unfolded Inr]]
    show ?thesis
    proof (cases "view (runtime n) (AllocationID s) = Some w")
      case True
      then show ?thesis using same_demand_within [OF cap wf'] ok by (simp add: fun_upd_idem)
    next
      case False
      then have sp: "Spec w = s" "State w = RUNNING" using ok by auto
      show ?thesis
      proof (rule replace_within [OF cap wf' conjunct1 [OF ok]])
        show "placed (agent n) w" using sp s ValidateStart_nonneg by (auto simp: placed_def)
        fix f assume f: "f \<in> set dims"
        have "f (spec_Resources s) \<le> f av" using that(3) f by (auto simp: Fits_dims)
        then show "demand f w \<le> f (Capacity (agent n)) - used f ((view (runtime n))(AllocationID s := None))"
          using scan_left [OF cap that(1) f, of "AllocationID s" False] that(2) sp by (simp add: demand_def)
      qed
    qed
  qed
  show ?thesis
    using st cap started op by (auto simp: admit_start_def split: sum.splits prod.splits if_splits)
qed

lemma within_agent:
  "(agent n')\<lparr>fence := x\<rparr> = (agent n)\<lparr>fence := x\<rparr> \<Longrightarrow> runtime n' = runtime n \<Longrightarrow>
     within_capacity wf view n' = within_capacity wf view n"
  by (cases "agent n'"; cases "agent n") (simp add: within_capacity_def placed_def)

lemma accept_within: "accept_node e c n = (r, n') \<Longrightarrow> within_capacity wf view n' = within_capacity wf view n"
  using accept_config [of e c n r n'] within_agent by blast

lemma within_gate [simp]: "within_capacity wf view (n\<lparr>gate := g\<rparr>) = within_capacity wf view n"
  by (simp add: within_capacity_def)

lemma accept_node_NodeID: "accept_node e c n = (r, n') \<Longrightarrow> NodeID (agent n') = NodeID (agent n)"
  using accept_config [of e c n r n' 0] by (cases "agent n'"; cases "agent n") simp

lemma start_body_within:
  assumes cap: "within_capacity wf view n" and st: "start_body ops e req n = (res, n')"
  shows "within_capacity wf view n'"
proof (cases req)
  case None
  with st cap show ?thesis by (simp add: start_body_def)
next
  case (Some input)
  obtain r n1 where acc: "accept_node e (sr_Command input) n = (r, n1)" by force
  have n1: "within_capacity wf view n1" using accept_within [OF acc] cap by simp
  show ?thesis
    using st cap n1 acc Some admit_start_within [OF n1, of e "(sr_Spec input)\<lparr>Files := sr_Secrets input\<rparr>"] accept_node_NodeID [OF acc]
    by (auto simp: start_body_def Let_def split: if_splits option.splits)
qed

lemma post_workers_within:
  assumes "within_capacity wf view n"
  shows "within_capacity wf view (snd (post_workers ops e req n))"
proof -
  obtain x g where ent: "Enter (MaintenanceDirectory (agent n)) (gate n) = (x, g)" by force
  obtain res m where b: "start_body ops e req (n\<lparr>gate := g\<rparr>) = (res, m)" by force
  have "within_capacity wf view m" using start_body_within [OF _ b] assms by simp
  then show ?thesis
    using ent b assms by (auto simp: post_workers_def Start_agent_def split: prod.splits sum.splits)
qed

lemma delete_within:
  assumes "within_capacity wf view n"
  shows "within_capacity wf view (snd (delete_worker ops e i req n))"
proof (cases req)
  case (Some c)
  obtain r n1 where acc: "accept_node e c n = (r, n1)" by force
  have n1: "within_capacity wf view n1" using accept_within [OF acc] assms by simp
  note d = within_capacityD [OF n1]
  obtain err r' where st: "op_Stop ops (ResourceID c) (runtime n1) = (err, r')" by force
  have "within_capacity wf view (n1\<lparr>runtime := r'\<rparr>)"
  proof (rule shrink_within [OF n1 stop_wf [OF d(1) st]])
    fix j x assume x: "view r' j = Some x"
    show "\<exists>y. view (runtime n1) j = Some y \<and> spec_NodeID (Spec x) = spec_NodeID (Spec y)
      \<and> (State x = RUNNING \<longrightarrow> State y = RUNNING \<and> spec_Resources (Spec x) = spec_Resources (Spec y))"
      using x st stop_keeps [OF d(1) st, of j] stop_error [OF d(1)] stop_ok [OF d(1)]
      by (cases err; cases "j = ResourceID c") force+
  qed
  then show ?thesis using Some acc n1 st assms by (cases r) (auto simp: delete_worker_def)
qed (simp add: delete_worker_def assms)

lemma readFence_within:
  "readFence e d (agent n) = Inr a \<Longrightarrow> within_capacity wf view (n\<lparr>agent := a\<rparr>) = within_capacity wf view n"
  using readFence_config [of e d "agent n" a 0] within_agent [where n = n and n' = "n\<lparr>agent := a\<rparr>" and x = 0] by simp

lemma apply_within:
  assumes cap: "within_capacity wf view n" and l: "op_List ops (runtime n) = Inr ws"
    and fit: "Fits rv (others_left i ws (Capacity (agent n)))" and rv: "nonneg rv"
    and f: "op_ApplyDestinations ops = Some f" and ap: "f i files rv (runtime n) = (err, r')"
  shows "within_capacity wf view (n\<lparr>runtime := r'\<rparr>)"
proof (cases err)
  case (Some x)
  then show ?thesis
    using same_demand_within [OF cap apply_wf [OF within_capacityD(1) [OF cap] f ap]]
      apply_error [OF within_capacityD(1) [OF cap] f] ap by simp
next
  case None
  note c = within_capacityD [OF cap]
  from apply_ok [OF c(1) f ap [unfolded None]] obtain w where w: "view (runtime n) i = Some w"
    "view r' = (view (runtime n))(i \<mapsto> w\<lparr>Spec := (Spec w)\<lparr>spec_Resources := rv\<rparr>\<rparr>)" by blast
  show ?thesis
  proof (rule replace_within [OF cap apply_wf [OF c(1) f ap] w(2)])
    show "placed (agent n) (w\<lparr>Spec := (Spec w)\<lparr>spec_Resources := rv\<rparr>\<rparr>)"
      using c(3) [OF w(1)] rv by (simp add: placed_def)
    fix g assume g: "g \<in> set dims"
    have "g rv \<le> g (others_left i ws (Capacity (agent n)))" using fit g by (auto simp: Fits_dims)
    also have "\<dots> = g (Capacity (agent n)) - used g ((view (runtime n))(i := None))"
      using left_exact [OF cap l g, of "\<lambda>w. worker_ID w \<noteq> i" i] by (simp add: others_left_counted)
    finally have le: "g rv \<le> g (Capacity (agent n)) - used g ((view (runtime n))(i := None))" .
    moreover have "0 \<le> g rv" using rv g by (rule nonnegD)
    ultimately show "demand g (w\<lparr>Spec := (Spec w)\<lparr>spec_Resources := rv\<rparr>\<rparr>) \<le> g (Capacity (agent n)) - used g ((view (runtime n))(i := None))"
      by (simp add: demand_def)
  qed
qed

lemma destinations_admitted_within:
  assumes "within_capacity wf view n"
  shows "within_capacity wf view (snd (put_destinations_admitted ops e input n))"
proof (cases "readFence e (disk n) (agent n)")
  case (Inl err)
  then show ?thesis using assms by (auto simp: put_destinations_admitted_def Let_def)
next
  case (Inr a)
  let ?n = "n\<lparr>agent := a\<rparr>" let ?rv = "dr_Resources input"
  have n2: "within_capacity wf view ?n" using readFence_within [OF Inr] assms by simp
  show ?thesis
  proof (cases "op_List ops (runtime n)")
    case (Inl err)
    then show ?thesis using assms n2 Inr by (auto simp: put_destinations_admitted_def Let_def)
  next
    case (Inr ws)
    have "within_capacity wf view (?n\<lparr>runtime := r'\<rparr>)"
      if "\<not> (Slots ?rv \<noteq> 1 \<or> CPUMillis ?rv \<le> 0 \<or> MemoryBytes ?rv \<le> 0 \<or> IngressBPS ?rv \<le> 0 \<or> EgressBPS ?rv \<le> 0)"
        "Fits ?rv (others_left (ResourceID (dr_Command input)) ws (Capacity a))" "op_ApplyDestinations ops = Some f"
        "f (ResourceID (dr_Command input)) (dr_Secrets input) ?rv (runtime n) = (err, r')" for f err r'
      using apply_within [OF n2, of ws ?rv _ f _ err r'] that Inr by (force simp: nonneg_def dims_def)
    then show ?thesis
      using assms n2 Inr \<open>readFence e (disk n) (agent n) = Inr a\<close>
      by (auto simp: put_destinations_admitted_def Let_def split: option.splits prod.splits)
  qed
qed

lemma put_destinations_within:
  assumes "within_capacity wf view n"
  shows "within_capacity wf view (snd (put_destinations ops e i req n))"
proof (cases req)
  case (Some input)
  obtain r n1 where acc: "accept_node e (dr_Command input) n = (r, n1)" by force
  have n1: "within_capacity wf view n1" using accept_within [OF acc] assms by simp
  from destinations_admitted_within [OF n1] show ?thesis
    using Some acc assms n1 by (cases r) (auto simp: put_destinations_def)
qed (simp add: put_destinations_def assms)

lemma put_slate_within:
  assumes "within_capacity wf view n"
  shows "within_capacity wf view (snd (put_slate ops e i req n))"
proof (cases req)
  case (Some input)
  obtain r n1 where acc: "accept_node e (sl_Command input) n = (r, n1)" by force
  have n1: "within_capacity wf view n1" using accept_within [OF acc] assms by simp
  note d = within_capacityD [OF n1]
  have "within_capacity wf view (n1\<lparr>runtime := r'\<rparr>)"
    if "op_ApplySlatePolicy ops = Some g" "g j a b (runtime n1) = (err, r')" for g j a b err r'
    using same_demand_within [OF n1 slate_wf [OF d(1) that]] slate_keeps [OF d(1) that] by simp
  then show ?thesis
    using Some acc n1 assms by (cases r) (auto simp: put_slate_def split: option.splits prod.splits)
qed (simp add: put_slate_def assms)

lemma put_draining_within:
  assumes "within_capacity wf view n"
  shows "within_capacity wf view (snd (put_draining e req n))"
proof (cases req)
  case (Some p)
  obtain c d where p: "p = (c, d)" by force
  obtain r n1 where acc: "accept_node e c n = (r, n1)" by force
  have n1: "within_capacity wf view n1" using accept_within [OF acc] assms by simp
  have "within_capacity wf view (n1\<lparr>agent := (agent n1)\<lparr>draining := d\<rparr>\<rparr>) = within_capacity wf view n1"
    by (simp add: within_capacity_def placed_def)
  with Some p acc n1 show ?thesis by (cases r) (auto simp: put_draining_def)
qed (simp add: put_draining_def assms)

lemma Handler_within:
  "within_capacity wf view n \<Longrightarrow> within_capacity wf view (snd (Handler ops e req n))"
  using post_workers_within delete_within put_destinations_within put_slate_within put_draining_within
    readFence_within [of e "disk n" n]
  by (cases req) (auto simp: get_worker_def get_workers_def get_heartbeat_def split: sum.splits)

lemma node_step_within: "node_step ops n n' \<Longrightarrow> within_capacity wf view n \<Longrightarrow> within_capacity wf view n'"
proof (induction rule: node_step.induct)
  case (serve e req n resp n')
  with Handler_within [of n e req] show ?case by simp
next
  case (restarted n)
  then show ?case by (simp add: restart_def within_capacity_def placed_def)
qed

lemma node_steps_within: "node_steps ops n n' \<Longrightarrow> within_capacity wf view n \<Longrightarrow> within_capacity wf view n'"
  by (induction rule: node_steps.induct) (auto intro: node_step_within)

lemma heartbeat_exact:
  assumes cap: "within_capacity wf view n" and l: "op_List ops (runtime n) = Inr ws" and f: "f \<in> set dims" and a: "NodeID a = NodeID (agent n)"
  shows "f (heartbeat_used a ws) = used f (view (runtime n))"
proof -
  note c = within_capacityD [OF cap]
  have "spec_NodeID (Spec w) \<in> {'''', NodeID a}" if "w \<in> set ws" for w
    using c(3) [OF list_mem [OF c(1) l that]] a by (simp add: placed_def)
  then have "(\<Sum>w\<leftarrow>ws. if spec_NodeID (Spec w) \<in> {'''', NodeID a} then demand f w else 0) = (\<Sum>w\<leftarrow>ws. demand f w)"
    by (intro arg_cong [of _ _ sum_list] map_cong) auto
  also have "\<dots> = used f (view (runtime n))"
  proof -
    obtain i where "i \<notin> dom (view (runtime n))"
      using view_finite [OF c(1)] ex_new_if_finite [OF infinite_UNIV_listI] by metis
    then have i: "view (runtime n) i = None" by blast
    have "worker_ID w \<noteq> i" if "w \<in> set ws" for w using list_mem [OF c(1) l that] i by auto
    then have "(\<Sum>w\<leftarrow>ws. demand f w) = (\<Sum>w\<leftarrow>ws. if worker_ID w \<noteq> i then demand f w else 0)"
      by (intro arg_cong [of _ _ sum_list] map_cong) auto
    then show ?thesis using sum_listing [OF c(1) l, of i f] used_remove_none [of "view (runtime n)" i f] i by simp
  qed
  finally have s: "(\<Sum>w\<leftarrow>ws. if spec_NodeID (Spec w) \<in> {'''', NodeID a} then demand f w else 0) = used f (view (runtime n))" .
  have "in_i64 (f (Capacity (agent n)))" using c(2) f by (auto simp: in_range_def)
  moreover have "0 \<le> used f (view (runtime n))" using c(3) by (intro used_nonneg [OF _ f]) auto
  ultimately have "in_i64 (used f (view (runtime n)))"
    using c(4) [OF f] by (auto simp: in_i64_def)
  then show ?thesis using foldl_Add [OF f] s by (simp add: heartbeat_counted sum_counted)
qed

end

section \<open>Properties\<close>

text \<open>C1: Fencing survives restarts. Once an agent with a state file has answered a command with
  success, no later command with a smaller token has any effect on the workers, whatever
  happened in between (other requests, faults of the file system, restarts of the agent): it
  is answered with an error and the runtime is left as it was.\<close>

theorem stale_command_has_no_effect:
  assumes "persisted n" "Handler ops e req n = (resp, n1)" "command_of req = Some c" "status_of resp < 400" "FencingToken c < 2 ^ 64"
    and "node_steps ops n1 n2"
    and "Handler ops e' req' n2 = (resp', n3)" "command_of req' = Some c'" "FencingToken c' < FencingToken c"
  shows "runtime n3 = runtime n2 \<and> 400 \<le> status_of resp'"
proof -
  from guarded_watermark [of e c n resp n1] Handler_guarded [OF assms(3), of e n ops] assms(1,2,4,5)
  have "persisted n1" "watermark n1 = FencingToken c" by auto
  with node_steps_watermark [OF assms(6)] have "persisted n2" "FencingToken c' < watermark n2"
    using assms(9) by auto
  with guarded_watermark [of e' c' n2 resp' n3] Handler_guarded [OF assms(8), of e' n2 ops] assms(5,7,9)
  show ?thesis by auto
qed

definition demo_capacity :: resource_vector where
  "demo_capacity = \<lparr>Slots = 4, CPUMillis = 4000, MemoryBytes = 8000, IngressBPS = 100, EgressBPS = 100\<rparr>"

definition demo_node :: "fake_runtime agent_node" where
  "demo_node = \<lparr>agent = (New_agent ''n1'' demo_capacity)\<lparr>StateFile := ''/state/fence''\<rparr>, disk = Missing,
     gate = \<lparr>lock_file = True, exclusive = False, shared = 0, marker = LAbsent\<rparr>, runtime = New_fake\<rparr>"

definition demo_io :: io where
  "demo_io = \<lparr>clock = 0, read_fault = False, write_fault = None\<rparr>"

definition demo_command :: "nat \<Rightarrow> command" where
  "demo_command t = \<lparr>CommandID = ''c'', ResourceID = ''a1'', TraceID = ''t'', Generation = 1, FencingToken = t, Deadline = 10\<rparr>"

definition demo_drain :: "nat \<Rightarrow> request" where
  "demo_drain t = PutDraining (Some (demo_command t, True))"

lemma demo_persisted: "persisted demo_node"
  by (simp add: persisted_def demo_node_def New_agent_def disk_fence_def)

lemma demo_drain_ok: "\<exists>n1. Handler fake_ops demo_io (demo_drain 7) demo_node = (Status 204, n1)"
  by (simp add: demo_drain_def put_draining_def accept_node_def accept_def Command_Validate_def demo_command_def demo_io_def
      readFence_def demo_node_def New_agent_def write_fence_def)

theorem stale_command_has_no_effect_witness:
  "\<exists>n1. Handler fake_ops demo_io (demo_drain 7) demo_node = (Status 204, n1) \<and>
     400 \<le> status_of (fst (Handler fake_ops demo_io (DeleteWorker ''a1'' (Some (demo_command 6))) (restart n1)))"
proof -
  obtain n1 where n1: "Handler fake_ops demo_io (demo_drain 7) demo_node = (Status 204, n1)" using demo_drain_ok by blast
  obtain resp' n3 where d: "Handler fake_ops demo_io (DeleteWorker ''a1'' (Some (demo_command 6))) (restart n1) = (resp', n3)" by force
  have st: "node_steps fake_ops n1 (restart n1)" by (rule steps_more [OF steps_none restarted])
  have "400 \<le> status_of resp'"
    using stale_command_has_no_effect [OF demo_persisted n1 _ _ _ st d, of "demo_command 7" "demo_command 6"]
    by (simp add: demo_drain_def demo_command_def)
  with n1 d show ?thesis by auto
qed



text \<open>The state file round-trips: every 64-bit token that \<open>accept\<close> writes is the token that the
  next agent reads from the file.\<close>

lemma fence_file_roundtrip:
  assumes "t < 2 ^ 64" "write_fence e t d = (None, d')" "StateFile a \<noteq> ''''" "fence a \<le> t" "\<not> read_fault e'"
  shows "readFence e' d' a = Inr (a\<lparr>fence := t\<rparr>)"
proof -
  have "d' = Contents (json_encode_uint64 t)"
    using assms(2) by (auto simp: write_fence_def split: option.splits io_fault.splits)
  then show ?thesis using assms(1,3-5) json_roundtrip [OF assms(1)] by (cases a) (simp add: readFence_def)
qed

end
