(* ===== verification/Scheduler_Store.thy ===== *)
theory Scheduler_Store
  imports Domain_Model
begin

text \<open>
  The placement store of \<^verbatim>\<open>backend/internal/scheduler/scheduler.go\<close>: reservations of node
  resources with an expiry, their commitment, and leases with fencing tokens. Every method
  of the store runs under its mutex, so each is one atomic function on the state.
  \<open>Place\<close> ranges over two Go maps; the two iteration orders are arguments.
\<close>

section \<open>State\<close>

record node =
  node_ID :: string
  Region :: string
  Capacity :: resource_vector
  Committed :: resource_vector
  Reserved :: resource_vector
  Draining :: bool
  node_LastSeen :: time

datatype reservation_state = HELD | COMMITTED | EXPIRED

record reservation =
  res_ID :: string
  AllocationID :: string
  res_NodeID :: string
  Resources :: resource_vector
  res_ExpiresAt :: time
  State :: reservation_state

record lease =
  lease_ResourceID :: string
  Owner :: string
  lease_FencingToken :: nat
  lease_ExpiresAt :: time

record sched_store =
  Nodes :: "string \<rightharpoonup> node"
  Reservations :: "string \<rightharpoonup> reservation"
  Leases :: "string \<rightharpoonup> lease"
  sched_sequence :: nat

datatype sched_error = NoEligibleCapacity | ReservationNotHeld | LeaseHeld

definition NewStore :: sched_store where
  "NewStore = \<lparr>Nodes = Map.empty, Reservations = Map.empty, Leases = Map.empty, sched_sequence = 0\<rparr>"

definition zero_node :: node where
  "zero_node = \<lparr>node_ID = '''', Region = '''', Capacity = rv_zero, Committed = rv_zero,
     Reserved = rv_zero, Draining = False, node_LastSeen = zero_time\<rparr>"

definition zero_lease :: lease where
  "zero_lease = \<lparr>lease_ResourceID = '''', Owner = '''', lease_FencingToken = 0, lease_ExpiresAt = zero_time\<rparr>"

text \<open>\<open>s.Nodes[id]\<close> of a missing key is the zero node.\<close>

definition get_node :: "sched_store \<Rightarrow> string \<Rightarrow> node" where
  "get_node s k = (case Nodes s k of Some n \<Rightarrow> n | None \<Rightarrow> zero_node)"

definition put_node :: "node \<Rightarrow> sched_store \<Rightarrow> sched_store" where
  "put_node n s = s\<lparr>Nodes := (Nodes s)(node_ID n \<mapsto> n)\<rparr>"

definition put_reservation :: "string \<Rightarrow> reservation \<Rightarrow> sched_store \<Rightarrow> sched_store" where
  "put_reservation k r s = s\<lparr>Reservations := (Reservations s)(k \<mapsto> r)\<rparr>"

section \<open>Operations\<close>

text \<open>The body of the first loop of \<open>Place\<close>: an overdue reservation is expired in place.\<close>

definition expire :: "string \<Rightarrow> reservation \<Rightarrow> time \<Rightarrow> sched_store \<Rightarrow> reservation \<times> sched_store" where
  "expire k r now s =
     (if State r = HELD \<and> \<not> res_ExpiresAt r > now
      then let r' = r\<lparr>State := EXPIRED\<rparr>;
               s1 = put_reservation k r' s;
               n = get_node s1 (res_NodeID r');
               n' = n\<lparr>Reserved := Sub (Reserved n) (Resources r')\<rparr>
           in (r', put_node n' s1)
      else (r, s))"

fun scan :: "string list \<Rightarrow> string \<Rightarrow> time \<Rightarrow> sched_store \<Rightarrow> reservation option \<times> sched_store" where
  "scan [] allocationID now s = (None, s)"
| "scan (k # ks) allocationID now s =
     (case Reservations s k of
        None \<Rightarrow> scan ks allocationID now s
      | Some r \<Rightarrow>
          (let (r', s') = expire k r now s
           in if AllocationID r' = allocationID \<and> (State r' = HELD \<or> State r' = COMMITTED)
              then (Some r', s')
              else scan ks allocationID now s'))"

definition eligible :: "string \<Rightarrow> resource_vector \<Rightarrow> time \<Rightarrow> node \<Rightarrow> bool" where
  "eligible region resources now n \<longleftrightarrow>
     \<not> (Region n \<noteq> region \<or> Draining n \<or> time_sub now (node_LastSeen n) > 30 * second)
     \<and> Fits resources (Sub (Sub (Capacity n) (Committed n)) (Reserved n))"

definition used_slots :: "node \<Rightarrow> int" where
  "used_slots n = i64 (Slots (Committed n) + Slots (Reserved n))"

definition candidates :: "string list \<Rightarrow> string \<Rightarrow> resource_vector \<Rightarrow> time \<Rightarrow> sched_store \<Rightarrow> node list" where
  "candidates order region resources now s =
     sort_key (\<lambda>n. (used_slots n, node_ID n))
       (filter (eligible region resources now) (List.map_filter (Nodes s) order))"

definition Place ::
  "string list \<Rightarrow> string list \<Rightarrow> string \<Rightarrow> string \<Rightarrow> resource_vector \<Rightarrow> time \<Rightarrow> duration
    \<Rightarrow> sched_store \<Rightarrow> (sched_error + reservation) \<times> sched_store" where
  "Place res_order node_order allocationID region resources now ttl s =
     (case scan res_order allocationID now s of
        (Some r, s1) \<Rightarrow> (Inr r, s1)
      | (None, s1) \<Rightarrow>
          (case candidates node_order region resources now s1 of
             [] \<Rightarrow> (Inl NoEligibleCapacity, s1)
           | n # _ \<Rightarrow>
               (let s2 = s1\<lparr>sched_sequence := u64 (sched_sequence s1 + 1)\<rparr>;
                    r = \<lparr>res_ID = allocationID @ ''-reservation'', AllocationID = allocationID,
                         res_NodeID = node_ID n, Resources = resources,
                         res_ExpiresAt = now + ttl, State = HELD\<rparr>;
                    n' = n\<lparr>Reserved := Add (Reserved n) resources\<rparr>
                in (Inr r, put_reservation (res_ID r) r (put_node n' s2)))))"

definition Commit :: "string \<Rightarrow> time \<Rightarrow> sched_store \<Rightarrow> (sched_error + unit) \<times> sched_store" where
  "Commit k now s =
     (case Reservations s k of
        None \<Rightarrow> (Inl ReservationNotHeld, s)
      | Some r \<Rightarrow>
          if State r \<noteq> HELD \<or> \<not> res_ExpiresAt r > now then (Inl ReservationNotHeld, s)
          else let r' = r\<lparr>State := COMMITTED\<rparr>;
                   s1 = put_reservation k r' s;
                   n = get_node s1 (res_NodeID r');
                   n' = n\<lparr>Reserved := Sub (Reserved n) (Resources r'),
                          Committed := Add (Committed n) (Resources r')\<rparr>
               in (Inr (), put_node n' s1))"

definition AcquireLease ::
  "string \<Rightarrow> string \<Rightarrow> time \<Rightarrow> duration \<Rightarrow> sched_store \<Rightarrow> (sched_error + lease) \<times> sched_store" where
  "AcquireLease resource owner now ttl s =
     (let l = (case Leases s resource of Some l \<Rightarrow> l | None \<Rightarrow> zero_lease) in
      if Leases s resource \<noteq> None \<and> lease_ExpiresAt l > now \<and> Owner l \<noteq> owner
      then (Inl LeaseHeld, s)
      else let l' = l\<lparr>lease_ResourceID := resource, Owner := owner,
                      lease_FencingToken := u64 (lease_FencingToken l + 1),
                      lease_ExpiresAt := now + ttl\<rparr>
           in (Inr l', s\<lparr>Leases := (Leases s)(resource \<mapsto> l')\<rparr>))"

section \<open>Accounting invariant\<close>

text \<open>
  What the counters of a node mean: \<open>Reserved\<close> is the sum of the resources of the node's
  reservations that are held, \<open>Committed\<close> the sum of those that are committed, in every
  dimension and modulo the width of the counters.
\<close>

definition charge :: "reservation_state \<Rightarrow> string \<Rightarrow> (resource_vector \<Rightarrow> int) \<Rightarrow> reservation \<Rightarrow> int" where
  "charge st k f r = (if State r = st \<and> res_NodeID r = k then f (Resources r) else 0)"

definition charged :: "sched_store \<Rightarrow> reservation_state \<Rightarrow> string \<Rightarrow> (resource_vector \<Rightarrow> int) \<Rightarrow> int" where
  "charged s st k f = (\<Sum>i \<in> dom (Reservations s). charge st k f (the (Reservations s i)))"

definition node_accounted :: "sched_store \<Rightarrow> string \<Rightarrow> node \<Rightarrow> bool" where
  "node_accounted s k n \<longleftrightarrow> node_ID n = k \<and>
     (\<forall>f \<in> set dims. f (Reserved n) = i64 (charged s HELD k f) \<and> f (Committed n) = i64 (charged s COMMITTED k f))"

definition accounted :: "sched_store \<Rightarrow> bool" where
  "accounted s \<longleftrightarrow> finite (dom (Reservations s)) \<and> finite (dom (Nodes s))
     \<and> (\<forall>k r. Reservations s k = Some r \<longrightarrow> k = res_ID r \<and> res_ID r = AllocationID r @ ''-reservation''
            \<and> (State r \<noteq> EXPIRED \<longrightarrow> Nodes s (res_NodeID r) \<noteq> None))
     \<and> (\<forall>k n. Nodes s k = Some n \<longrightarrow> node_accounted s k n)"

lemma accounted_finite: "accounted s \<Longrightarrow> finite (dom (Reservations s))"
  by (simp add: accounted_def)

lemma accounted_node: "accounted s \<Longrightarrow> Nodes s k = Some n \<Longrightarrow> node_accounted s k n"
  by (simp add: accounted_def)

lemma accounted_reservation:
  "accounted s \<Longrightarrow> Reservations s k = Some r \<Longrightarrow>
   k = res_ID r \<and> res_ID r = AllocationID r @ ''-reservation'' \<and> (State r \<noteq> EXPIRED \<longrightarrow> Nodes s (res_NodeID r) \<noteq> None)"
  unfolding accounted_def by blast

lemma accounted_NewStore [relay_inv]: "accounted NewStore"
  by (simp add: accounted_def NewStore_def)

lemma charged_put_reservation:
  assumes "finite (dom (Reservations s))"
  shows "charged (put_reservation k r s) st m f =
    charged s st m f - (case Reservations s k of None \<Rightarrow> 0 | Some r0 \<Rightarrow> charge st m f r0) + charge st m f r"
  unfolding charged_def put_reservation_def using sum_fun_upd [OF assms, of "charge st m f" k r] by simp

lemma charged_put_node [simp]: "charged (put_node n s) st m f = charged s st m f"
  by (simp add: charged_def put_node_def)

text \<open>
  One step of the accounting: a reservation is replaced, and the counters of the node of the
  new reservation move by the same amounts. The three operations below are instances.
\<close>

lemma accounted_move:
  assumes acc: "accounted s"
    and n: "Nodes s (node_ID n') = Some n"
    and r: "k = res_ID r" "res_ID r = AllocationID r @ ''-reservation''" "res_NodeID r = node_ID n'"
    and old: "\<And>r0. Reservations s k = Some r0 \<Longrightarrow> State r0 \<noteq> EXPIRED \<Longrightarrow> res_NodeID r0 = node_ID n'"
    and held: "\<And>f. f \<in> set dims \<Longrightarrow> f (Reserved n') = i64 (f (Reserved n)
        - (case Reservations s k of None \<Rightarrow> 0 | Some r0 \<Rightarrow> charge HELD (node_ID n') f r0) + charge HELD (node_ID n') f r)"
    and comm: "\<And>f. f \<in> set dims \<Longrightarrow> f (Committed n') = i64 (f (Committed n)
        - (case Reservations s k of None \<Rightarrow> 0 | Some r0 \<Rightarrow> charge COMMITTED (node_ID n') f r0) + charge COMMITTED (node_ID n') f r)"
  shows "accounted (put_node n' (put_reservation k r s))"
proof -
  let ?s = "put_node n' (put_reservation k r s)"
  note fin = accounted_finite [OF acc]
  have other: "charged ?s st m f = charged s st m f" if "m \<noteq> node_ID n'" "st \<noteq> EXPIRED" for st m f
  proof -
    have "charge st m f r0 = 0" if "Reservations s k = Some r0" for r0
      using old [OF that] \<open>m \<noteq> _\<close> \<open>st \<noteq> EXPIRED\<close> by (auto simp: charge_def)
    then show ?thesis
      using that r(3) by (auto simp: charged_put_reservation [OF fin] charge_def split: option.splits)
  qed
  have "node_accounted ?s m x" if "Nodes ?s m = Some x" for m x
  proof (cases "m = node_ID n'")
    case True
    with that have "x = n'" by (simp add: put_node_def)
    moreover have "f (Reserved n') = i64 (charged ?s HELD m f) \<and> f (Committed n') = i64 (charged ?s COMMITTED m f)"
      if f: "f \<in> set dims" for f
    proof -
      have "f (Reserved n) = i64 (charged s HELD m f)" "f (Committed n) = i64 (charged s COMMITTED m f)"
        using accounted_node [OF acc n] f True by (auto simp: node_accounted_def)
      then show ?thesis
        using True by (simp add: held [OF f] comm [OF f] charged_put_reservation [OF fin] i64_move)
    qed
    ultimately show ?thesis using True by (simp add: node_accounted_def)
  next
    case False
    with that have "Nodes s m = Some x" by (simp add: put_node_def put_reservation_def)
    from accounted_node [OF acc this] show ?thesis
      using other [OF False] by (simp add: node_accounted_def)
  qed
  moreover have "finite (dom (Reservations ?s))" "finite (dom (Nodes ?s))"
    using acc by (simp_all add: accounted_def put_node_def put_reservation_def)
  ultimately show ?thesis
    using acc n r by (auto simp: accounted_def put_node_def put_reservation_def)
qed

lemma put_node_put_reservation: "put_reservation k r (put_node n s) = put_node n (put_reservation k r s)"
  by (simp add: put_node_def put_reservation_def)

lemma accounted_sequence [simp]: "accounted (s\<lparr>sched_sequence := q\<rparr>) = accounted s"
  and accounted_Leases [simp]: "accounted (s\<lparr>Leases := ls\<rparr>) = accounted s"
  by (simp_all add: accounted_def node_accounted_def charged_def)

lemma get_node_Some [simp]: "Nodes s k = Some n \<Longrightarrow> get_node s k = n"
  by (simp add: get_node_def)

lemma Nodes_put_reservation [simp]: "Nodes (put_reservation k r s) = Nodes s"
  and Reservations_put_node [simp]: "Reservations (put_node n s) = Reservations s"
  and Reservations_put_reservation [simp]: "Reservations (put_reservation k r s) = (Reservations s)(k \<mapsto> r)"
  and Nodes_put_node [simp]: "Nodes (put_node n s) = (Nodes s)(node_ID n \<mapsto> n)"
  by (simp_all add: put_reservation_def put_node_def)

lemma expire_accounted [relay_inv]:
  assumes acc: "accounted s" and r: "Reservations s k = Some r"
  shows "accounted (snd (expire k r now s))"
proof (cases "State r = HELD \<and> \<not> res_ExpiresAt r > now")
  case True
  from accounted_reservation [OF acc r] True obtain n where
    ids: "k = res_ID r" "res_ID r = AllocationID r @ ''-reservation''" and n: "Nodes s (res_NodeID r) = Some n"
    by auto
  have id: "node_ID n = res_NodeID r"
    using accounted_node [OF acc n] by (simp add: node_accounted_def)
  have "accounted (put_node (n\<lparr>Reserved := Sub (Reserved n) (Resources r)\<rparr>) (put_reservation k (r\<lparr>State := EXPIRED\<rparr>) s))"
    using accounted_node [OF acc n] True r ids(2)
    by (intro accounted_move [OF acc])
      (auto simp: id n charge_def dims_Sub node_accounted_def ids(1) [symmetric])
  with True n show ?thesis by (simp add: expire_def Let_def)
next
  case False
  then show ?thesis using acc by (auto simp: expire_def)
qed

lemma scan_accounted [relay_inv]: "accounted s \<Longrightarrow> accounted (snd (scan ks aid now s))"
proof (induction ks aid now s rule: scan.induct)
  case (2 k ks aid now s)
  show ?case
  proof (cases "Reservations s k")
    case (Some r)
    obtain r' s' where e: "expire k r now s = (r', s')" by fastforce
    with expire_accounted [OF "2.prems" Some, of now] have "accounted s'" by simp
    with Some e "2.IH"(2) [OF Some refl] show ?thesis by simp
  qed (use 2 in simp)
qed simp

lemma candidates_set:
  "n \<in> set (candidates order region resources now s) \<longleftrightarrow>
     (\<exists>k \<in> set order. Nodes s k = Some n) \<and> eligible region resources now n"
  by (force simp: candidates_def List.map_filter_def)

text \<open>What a successful placement is made of.\<close>

lemma Place_cases:
  assumes "Place ro no aid region resources now ttl s = (res, s')"
  obtains (found) r where "scan ro aid now s = (Some r, s')" "res = Inr r"
  | (full) "scan ro aid now s = (None, s')" "res = Inl NoEligibleCapacity"
      "candidates no region resources now s' = []"
  | (placed) s1 n rest r where "scan ro aid now s = (None, s1)" "res = Inr r"
      "candidates no region resources now s1 = n # rest"
      "r = \<lparr>res_ID = aid @ ''-reservation'', AllocationID = aid, res_NodeID = node_ID n,
            Resources = resources, res_ExpiresAt = now + ttl, State = HELD\<rparr>"
      "s' = put_node (n\<lparr>Reserved := Add (Reserved n) resources\<rparr>)
              (put_reservation (res_ID r) r (s1\<lparr>sched_sequence := u64 (sched_sequence s1 + 1)\<rparr>))"
  using assms
  by (auto simp: Place_def Let_def put_node_put_reservation split: prod.splits option.splits list.splits)

text \<open>The scan only turns reservations from held to expired, and it visits every key it is given.\<close>

lemma expire_result:
  assumes "expire k r now s = (r', s')"
  shows "Reservations s' = (if State r = HELD \<and> \<not> res_ExpiresAt r > now then (Reservations s)(k \<mapsto> r') else Reservations s)"
    and "r' = r \<and> (State r = HELD \<longrightarrow> res_ExpiresAt r > now) \<or> State r = HELD \<and> r' = r\<lparr>State := EXPIRED\<rparr>"
  using assms by (auto simp: expire_def Let_def split: if_splits)

lemma expire_Reservations:
  "Reservations s k = Some r \<Longrightarrow> expire k r now s = (r', s') \<Longrightarrow> Reservations s' = (Reservations s)(k \<mapsto> r')"
  by (auto simp: expire_def Let_def split: if_splits)

definition only_expires :: "sched_store \<Rightarrow> sched_store \<Rightarrow> bool" where
  "only_expires s s' \<longleftrightarrow> (\<forall>k. (case Reservations s' k of None \<Rightarrow> Reservations s k = None
     | Some r' \<Rightarrow> (\<exists>r. Reservations s k = Some r \<and> (r' = r \<or> State r = HELD \<and> r' = r\<lparr>State := EXPIRED\<rparr>))))"

lemma only_expires_Some:
  assumes "only_expires s s'" "Reservations s k = Some r"
  shows "\<exists>r'. Reservations s' k = Some r' \<and> (r' = r \<or> State r = HELD \<and> r' = r\<lparr>State := EXPIRED\<rparr>)"
  using assms(1) [unfolded only_expires_def, rule_format, of k] assms(2) by (auto split: option.splits)

lemma only_expires_back:
  assumes "only_expires s s'" "Reservations s' k = Some r'"
  shows "\<exists>r. Reservations s k = Some r \<and> (r' = r \<or> State r = HELD \<and> r' = r\<lparr>State := EXPIRED\<rparr>)"
  using assms(1) [unfolded only_expires_def, rule_format, of k] assms(2) by simp

lemma only_expires_refl [simp]: "only_expires s s"
  by (auto simp: only_expires_def split: option.splits)

lemma only_expires_trans:
  assumes "only_expires s t" "only_expires t u"
  shows "only_expires s u"
  unfolding only_expires_def
proof
  fix k
  from assms show "case Reservations u k of None \<Rightarrow> Reservations s k = None
    | Some r' \<Rightarrow> (\<exists>r. Reservations s k = Some r \<and> (r' = r \<or> State r = HELD \<and> r' = r\<lparr>State := EXPIRED\<rparr>))"
    unfolding only_expires_def by (auto 4 3 split: option.splits dest!: spec [of _ k])
qed

lemma expire_only_expires:
  "Reservations s k = Some r \<Longrightarrow> expire k r now s = (r', s') \<Longrightarrow> only_expires s s'"
  using expire_result(2) [of k r now s r' s']
  by (auto simp: only_expires_def expire_Reservations split: option.splits)

lemma scan_only_expires: "scan ks aid now s = (o', s') \<Longrightarrow> only_expires s s'"
proof (induction ks aid now s rule: scan.induct)
  case (2 k ks aid now s)
  show ?case
  proof (cases "Reservations s k")
    case (Some r)
    obtain r1 s1 where e: "expire k r now s = (r1, s1)" by fastforce
    from expire_only_expires [OF Some e] have "only_expires s s1" .
    with Some e "2.prems" "2.IH"(2) [OF Some] show ?thesis
      by (auto split: if_splits intro: only_expires_trans)
  qed (use 2 in simp)
qed simp

lemma scan_None_expired:
  "scan ks aid now s = (None, s') \<Longrightarrow> k \<in> set ks \<Longrightarrow> Reservations s' k = Some r \<Longrightarrow>
   AllocationID r = aid \<Longrightarrow> State r = EXPIRED"
proof (induction ks aid now s rule: scan.induct)
  case (2 j ks aid now s)
  show ?case
  proof (cases "Reservations s j")
    case None
    with 2 show ?thesis by (auto simp: only_expires_def dest!: scan_only_expires spec [of _ j])
  next
    case (Some r0)
    obtain r1 s1 where e: "expire j r0 now s = (r1, s1)" by fastforce
    from "2.prems"(1) Some e have no: "AllocationID r1 \<noteq> aid \<or> State r1 = EXPIRED" and rest: "scan ks aid now s1 = (None, s')"
      by (cases "State r1"; auto split: if_splits)+
    show ?thesis
    proof (cases "k = j")
      case True
      have "Reservations s1 j = Some r1" using expire_Reservations [OF Some e] by simp
      with scan_only_expires [OF rest] True "2.prems"(3) have "r = r1 \<or> r = r1\<lparr>State := EXPIRED\<rparr>"
        by (auto simp: only_expires_def dest!: spec [of _ j])
      with no "2.prems"(4) show ?thesis by auto
    next
      case False
      with "2.prems" Some e rest "2.IH"(2) [OF Some e [symmetric] refl] no show ?thesis by auto
    qed
  qed
qed simp

section \<open>No over-commitment\<close>

text \<open>
  \<open>live s k f\<close> is the true (unbounded) sum of what the held and committed reservations of a
  node ask for. A store is solvent when it is accounted and this sum stays within the
  capacity of every node; the counters then never wrap.
\<close>

definition live :: "sched_store \<Rightarrow> string \<Rightarrow> (resource_vector \<Rightarrow> int) \<Rightarrow> int" where
  "live s k f = charged s HELD k f + charged s COMMITTED k f"

definition solvent :: "sched_store \<Rightarrow> bool" where
  "solvent s \<longleftrightarrow> accounted s \<and> (\<forall>k r. Reservations s k = Some r \<longrightarrow> nonneg (Resources r))
     \<and> (\<forall>k n. Nodes s k = Some n \<longrightarrow> in_range (Capacity n) \<and> (\<forall>f \<in> set dims. live s k f \<le> f (Capacity n)))"

lemma solvent_cap:
  "solvent s \<Longrightarrow> Nodes s k = Some n \<Longrightarrow> in_range (Capacity n)"
  "solvent s \<Longrightarrow> Nodes s k = Some n \<Longrightarrow> f \<in> set dims \<Longrightarrow> live s k f \<le> f (Capacity n)"
  unfolding solvent_def by blast+

lemma charged_nonneg:
  assumes "\<And>k r. Reservations s k = Some r \<Longrightarrow> nonneg (Resources r)" "f \<in> set dims"
  shows "0 \<le> charged s st k f"
  unfolding charged_def using assms by (intro sum_nonneg) (auto simp: charge_def nonneg_def)

lemma solvent_counters:
  assumes "solvent s" "Nodes s k = Some n" "f \<in> set dims"
  shows "f (Reserved n) = charged s HELD k f" "f (Committed n) = charged s COMMITTED k f"
    "0 \<le> charged s HELD k f" "0 \<le> charged s COMMITTED k f"
proof -
  have nn: "0 \<le> charged s st k f" for st
    using assms by (intro charged_nonneg) (auto simp: solvent_def)
  then show "0 \<le> charged s HELD k f" "0 \<le> charged s COMMITTED k f" by simp_all
  have "charged s HELD k f + charged s COMMITTED k f \<le> f (Capacity n)" "in_i64 (f (Capacity n))"
    using assms by (auto simp: solvent_def live_def in_range_def)
  with nn [of HELD] nn [of COMMITTED] have "in_i64 (charged s HELD k f)" "in_i64 (charged s COMMITTED k f)"
    by (auto simp: in_i64_def)
  moreover have "node_accounted s k n" using assms by (auto simp: solvent_def accounted_def)
  ultimately show "f (Reserved n) = charged s HELD k f" "f (Committed n) = charged s COMMITTED k f"
    using assms(3) by (auto simp: node_accounted_def)
qed

lemma only_expires_charged:
  assumes oe: "only_expires s s'" and fin: "finite (dom (Reservations s))"
    and nn: "\<And>k r. Reservations s k = Some r \<Longrightarrow> nonneg (Resources r)"
    and f: "f \<in> set dims" and st: "st \<noteq> EXPIRED"
  shows "charged s' st k f \<le> charged s st k f"
proof -
  have dom: "dom (Reservations s') = dom (Reservations s)"
  proof (rule set_eqI)
    fix i
    show "i \<in> dom (Reservations s') \<longleftrightarrow> i \<in> dom (Reservations s)"
      using only_expires_Some [OF oe, of i] only_expires_back [OF oe, of i] by auto
  qed
  have "charge st k f (the (Reservations s' i)) \<le> charge st k f (the (Reservations s i))"
    if "i \<in> dom (Reservations s)" for i
  proof -
    from that obtain r where r: "Reservations s i = Some r" by auto
    have "0 \<le> f (Resources r)" by (rule nonnegD [OF nn [OF r] f])
    then have "charge st k f (r\<lparr>State := EXPIRED\<rparr>) \<le> charge st k f r"
      using st by (simp add: charge_def)
    with only_expires_Some [OF oe r] r show ?thesis by fastforce
  qed
  then show ?thesis unfolding charged_def dom by (intro sum_mono)
qed

definition same_nodes :: "sched_store \<Rightarrow> sched_store \<Rightarrow> bool" where
  "same_nodes s s' \<longleftrightarrow> (\<forall>k. map_option (\<lambda>n. n\<lparr>Reserved := rv_zero\<rparr>) (Nodes s' k) = map_option (\<lambda>n. n\<lparr>Reserved := rv_zero\<rparr>) (Nodes s k))"

lemma expire_same_nodes:
  assumes "accounted s" "Reservations s k = Some r" "expire k r now s = (r', s')"
  shows "same_nodes s s'"
proof -
  have "\<exists>n. Nodes s (res_NodeID r) = Some n \<and> node_ID n = res_NodeID r" if "State r = HELD"
    using accounted_reservation [OF assms(1,2)] accounted_node [OF assms(1)] that
    by (auto simp: node_accounted_def)
  with assms(3) show ?thesis by (auto simp: expire_def Let_def same_nodes_def split: if_splits)
qed

lemma scan_same_nodes: "accounted s \<Longrightarrow> scan ks aid now s = (o', s') \<Longrightarrow> same_nodes s s'"
proof (induction ks aid now s rule: scan.induct)
  case (2 k ks aid now s)
  show ?case
  proof (cases "Reservations s k")
    case (Some r)
    obtain r1 s1 where e: "expire k r now s = (r1, s1)" by fastforce
    have "same_nodes s s1" by (rule expire_same_nodes [OF "2.prems"(1) Some e])
    moreover have "accounted s1" using expire_accounted [OF "2.prems"(1) Some, of now] e by simp
    ultimately show ?thesis
      using Some e "2.prems"(2) "2.IH"(2) [OF Some] by (auto simp: same_nodes_def split: if_splits)
  qed (use 2 in simp)
qed (simp add: same_nodes_def)

lemma same_nodes_Some:
  "same_nodes s s' \<Longrightarrow> Nodes s' k = Some n' \<Longrightarrow> \<exists>n. Nodes s k = Some n \<and> n'\<lparr>Reserved := rv_zero\<rparr> = n\<lparr>Reserved := rv_zero\<rparr>"
  unfolding same_nodes_def by (drule spec [of _ k]) (auto simp: map_option_case split: option.splits)

lemma Reserved_update_same: "n'\<lparr>Reserved := v\<rparr> = n\<lparr>Reserved := v\<rparr> \<Longrightarrow> Capacity n' = Capacity n"
  by (metis node.select_convs(3) node.surjective node.update_convs(5))

lemma scan_solvent [relay_inv]:
  assumes "solvent s" "scan ks aid now s = (o', s')"
  shows "solvent s'"
proof -
  have acc: "accounted s" and nn: "\<And>k r. Reservations s k = Some r \<Longrightarrow> nonneg (Resources r)"
    using assms(1) by (auto simp: solvent_def)
  note oe = scan_only_expires [OF assms(2)]
  have "nonneg (Resources r)" if "Reservations s' k = Some r" for k r
    using only_expires_back [OF oe that] nn by auto
  moreover have "live s' k f \<le> live s k f" if "f \<in> set dims" for k f
    unfolding live_def
    using that by (intro add_mono only_expires_charged [OF oe accounted_finite [OF acc] nn]) auto
  moreover have "\<exists>n. Nodes s k = Some n \<and> Capacity n' = Capacity n" if "Nodes s' k = Some n'" for k n'
    using same_nodes_Some [OF scan_same_nodes [OF acc assms(2)] that] Reserved_update_same by blast
  moreover have "accounted s'" using scan_accounted [OF acc] assms(2) by (metis snd_conv)
  ultimately show ?thesis
    using assms(1) unfolding solvent_def by (intro conjI allI impI ballI) (blast, blast, metis, metis order_trans)
qed

lemma Place_accounted_step:
  assumes acc: "accounted s1" and c: "n \<in> set (candidates no region resources now s1)"
    and old: "\<And>r. Reservations s1 (aid @ ''-reservation'') = Some r \<Longrightarrow> State r = EXPIRED"
    and r: "r = \<lparr>res_ID = aid @ ''-reservation'', AllocationID = aid, res_NodeID = node_ID n,
            Resources = resources, res_ExpiresAt = now + ttl, State = HELD\<rparr>"
  shows "accounted (put_node (n\<lparr>Reserved := Add (Reserved n) resources\<rparr>) (put_reservation (res_ID r) r s1))"
proof -
  from c obtain k where n: "Nodes s1 k = Some n" by (auto simp: candidates_set)
  have id: "node_ID n = k" "\<And>f. f \<in> set dims \<Longrightarrow> in_i64 (f (Committed n))"
    using accounted_node [OF acc n] by (auto simp: node_accounted_def)
  have "charge st m f r0 = 0" if "Reservations s1 (aid @ ''-reservation'') = Some r0" "st \<noteq> EXPIRED" for st m f r0
    using old [OF that(1)] that(2) by (simp add: charge_def)
  then show ?thesis
    using old by (intro accounted_move [OF acc, of _ n]) (auto simp: r id n charge_def dims_Add split: option.splits)
qed

lemma Place_solvent [relay_inv]:
  assumes s: "solvent s" and cover: "dom (Reservations s) \<subseteq> set ro" and nn: "nonneg resources"
    and P: "Place ro no aid region resources now ttl s = (res, s')"
  shows "solvent s'"
  using P
proof (cases rule: Place_cases)
  case (placed s1 n rest r)
  have s1: "solvent s1" by (rule scan_solvent [OF s placed(1)])
  then have acc1: "accounted s1" by (simp add: solvent_def)
  have old: "State r0 = EXPIRED" if "Reservations s1 (aid @ ''-reservation'') = Some r0" for r0
  proof (rule scan_None_expired [OF placed(1) _ that])
    show "aid @ ''-reservation'' \<in> set ro"
      using only_expires_back [OF scan_only_expires [OF placed(1)] that] cover by blast
    show "AllocationID r0 = aid" using accounted_reservation [OF acc1 that] by auto
  qed
  let ?s1 = "s1\<lparr>sched_sequence := u64 (sched_sequence s1 + 1)\<rparr>"
  have c: "n \<in> set (candidates no region resources now ?s1)"
    using placed(3) by (auto simp: candidates_def)
  have acc: "accounted s'"
    unfolding placed(5) by (rule Place_accounted_step [OF _ c _ placed(4)]) (use acc1 old in simp_all)
  from c obtain k where n: "Nodes s1 k = Some n" and el: "eligible region resources now n"
    by (auto simp: candidates_set)
  have id: "node_ID n = k" using accounted_node [OF acc1 n] by (simp add: node_accounted_def)
  have charged': "charged s' st m f = charged s1 st m f + (if st = HELD \<and> m = k then f resources else 0)"
    if "st \<noteq> EXPIRED" for st m f
    using old that accounted_finite [OF acc1] id
    by (auto simp: placed(4,5) charged_put_reservation charge_def split: option.splits) (auto simp: charged_def)
  have cap: "live s1 k f + f resources \<le> f (Capacity n)" if f: "f \<in> set dims" for f
  proof -
    have "nonneg (Committed n)" "nonneg (Reserved n)"
      unfolding nonneg_def by (intro ballI, metis solvent_counters [OF s1 n])+
    moreover have "g (Committed n) + g (Reserved n) \<le> g (Capacity n)" if "g \<in> set dims" for g
      using solvent_cap(2) [OF s1 n that] solvent_counters [OF s1 n that] by (simp add: live_def)
    ultimately have "f (Committed n) + f (Reserved n) + f resources \<le> f (Capacity n)"
      using el f by (intro Fits_left_total [OF solvent_cap(1) [OF s1 n]]) (auto simp: eligible_def)
    then show ?thesis using solvent_counters [OF s1 n f] by (simp add: live_def)
  qed
  have "in_range (Capacity x) \<and> (\<forall>f \<in> set dims. live s' m f \<le> f (Capacity x))" if x: "Nodes s' m = Some x" for m x
  proof -
    obtain y where y: "Nodes s1 m = Some y" "Capacity x = Capacity y" "m = k \<longrightarrow> y = n"
      using x n id by (auto simp: placed(5) split: if_splits)
    have "live s' m f \<le> f (Capacity y)" if f: "f \<in> set dims" for f
      using solvent_cap(2) [OF s1 y(1) f] cap [OF f] y(3) by (auto simp: live_def charged')
    with y solvent_cap(1) [OF s1 y(1)] show ?thesis by simp
  qed
  moreover have "nonneg (Resources x)" if "Reservations s' m = Some x" for m x
    using that s1 nn by (auto simp: placed(4,5) solvent_def split: if_splits)
  ultimately show ?thesis using acc unfolding solvent_def by blast
qed (use s scan_solvent in auto)

lemma Commit_solvent [relay_inv]:
  assumes s: "solvent s" and C: "Commit k now s = (res, s')"
  shows "solvent s'"
proof (cases "\<exists>r. Reservations s k = Some r \<and> State r = HELD \<and> res_ExpiresAt r > now")
  case True
  then obtain r where r: "Reservations s k = Some r" "State r = HELD" "res_ExpiresAt r > now" by blast
  have acc: "accounted s" using s by (simp add: solvent_def)
  from accounted_reservation [OF acc r(1)] r(2) obtain n where
    ids: "k = res_ID r" "res_ID r = AllocationID r @ ''-reservation''" and n: "Nodes s (res_NodeID r) = Some n"
    by auto
  have id: "node_ID n = res_NodeID r" using accounted_node [OF acc n] by (simp add: node_accounted_def)
  let ?n = "n\<lparr>Reserved := Sub (Reserved n) (Resources r), Committed := Add (Committed n) (Resources r)\<rparr>"
  let ?r = "r\<lparr>State := COMMITTED\<rparr>"
  have s': "s' = put_node ?n (put_reservation k ?r s)"
    using C r n by (simp add: Commit_def Let_def)
  have acc': "accounted s'" unfolding s'
    using r ids(2) by (intro accounted_move [OF acc, of _ n])
      (auto simp: id n charge_def dims_Sub dims_Add ids(1) [symmetric])
  have live': "live s' m f = live s m f" for m f
    using r accounted_finite [OF acc] by (auto simp: s' live_def charged_put_reservation charge_def)
  have "in_range (Capacity x) \<and> (\<forall>f \<in> set dims. live s' m f \<le> f (Capacity x))" if x: "Nodes s' m = Some x" for m x
  proof -
    obtain y where y: "Nodes s m = Some y" "Capacity x = Capacity y"
      using x n id by (auto simp: s' split: if_splits)
    with solvent_cap(1) [OF s y(1)] solvent_cap(2) [OF s y(1)] show ?thesis by (simp add: live')
  qed
  moreover have "nonneg (Resources x)" if "Reservations s' m = Some x" for m x
    using that s r(1) by (auto simp: s' solvent_def split: if_splits)
  ultimately show ?thesis using acc' unfolding solvent_def by blast
next
  case False
  then have "s' = s" using C by (auto simp: Commit_def split: option.splits if_splits)
  then show ?thesis using s by simp
qed

lemma AcquireLease_solvent [relay_inv]:
  assumes "solvent s" "AcquireLease resource owner now ttl s = (res, s')"
  shows "solvent s'"
  using assms by (auto simp: AcquireLease_def Let_def solvent_def live_def charged_def split: if_splits)

text \<open>A node that registers (the caller writes it into the map) brings zero counters and a new name.\<close>

definition register :: "node \<Rightarrow> sched_store \<Rightarrow> sched_store" where
  "register n s = put_node (n\<lparr>Committed := rv_zero, Reserved := rv_zero\<rparr>) s"

lemma register_solvent [relay_inv]:
  assumes s: "solvent s" and new: "Nodes s (node_ID n) = None" and cap: "in_range (Capacity n)" "nonneg (Capacity n)"
  shows "solvent (register n s)"
proof -
  have acc: "accounted s" using s by (simp add: solvent_def)
  have none: "charged s st (node_ID n) f = 0" if "st \<noteq> EXPIRED" for st f
  proof -
    have "\<not> (State r = st \<and> res_NodeID r = node_ID n)" if r: "Reservations s i = Some r" for i r
      using accounted_reservation [OF acc r] new \<open>st \<noteq> EXPIRED\<close> by auto
    then show ?thesis unfolding charged_def by (intro sum.neutral) (auto simp: charge_def)
  qed
  have c: "charged (register n s) st m f = charged s st m f" for st m f by (simp add: register_def)
  have "node_accounted (register n s) m x \<and> in_range (Capacity x) \<and> (\<forall>f \<in> set dims. live (register n s) m f \<le> f (Capacity x))"
    if x: "Nodes (register n s) m = Some x" for m x
  proof (cases "m = node_ID n")
    case True
    with x have "x = n\<lparr>Committed := rv_zero, Reserved := rv_zero\<rparr>" by (simp add: register_def)
    with True cap none show ?thesis by (auto simp: node_accounted_def live_def c nonneg_def in_i64_def)
  next
    case False
    with x have y: "Nodes s m = Some x" by (simp add: register_def)
    with accounted_node [OF acc y] solvent_cap(1) [OF s y] solvent_cap(2) [OF s y] show ?thesis
      by (simp add: node_accounted_def live_def c)
  qed
  then show ?thesis
    using s unfolding solvent_def accounted_def by (auto simp: register_def)
qed

lemma solvent_NewStore [relay_inv]: "solvent NewStore"
  using accounted_NewStore by (simp add: solvent_def NewStore_def)

inductive sched_step :: "sched_store \<Rightarrow> sched_store \<Rightarrow> bool" where
  step_register: "Nodes s (node_ID n) = None \<Longrightarrow> in_range (Capacity n) \<Longrightarrow> nonneg (Capacity n) \<Longrightarrow>
     sched_step s (register n s)"
| step_Place: "set ro = dom (Reservations s) \<Longrightarrow> nonneg resources \<Longrightarrow>
     Place ro no aid region resources now ttl s = (res, s') \<Longrightarrow> sched_step s s'"
| step_Commit: "Commit k now s = (cres, s') \<Longrightarrow> sched_step s s'"
| step_AcquireLease: "AcquireLease resource owner now ttl s = (lres, s') \<Longrightarrow> sched_step s s'"

lemma sched_step_solvent: "sched_step s s' \<Longrightarrow> solvent s \<Longrightarrow> solvent s'"
proof (induction rule: sched_step.induct)
  case (step_register s n)
  then show ?case by (intro register_solvent)
next
  case (step_Place ro s resources no aid region now ttl res s')
  then show ?case by (intro Place_solvent [OF _ _ step_Place(2,3)]) auto
next
  case (step_Commit k now s cres s')
  then show ?case by (intro Commit_solvent [OF _ step_Commit(1)])
next
  case (step_AcquireLease resource owner now ttl s lres s')
  then show ?case by (intro AcquireLease_solvent [OF _ step_AcquireLease(1)])
qed

lemma sched_reach_solvent: "sched_step\<^sup>*\<^sup>* NewStore s \<Longrightarrow> solvent s"
  by (induction rule: rtranclp_induct) (auto intro: solvent_NewStore sched_step_solvent)

section \<open>Choice of a node\<close>

lemma sort_key_hd_eq:
  assumes "set xs = set ys" "inj_on k (set xs)" "xs \<noteq> []"
  shows "hd (sort_key k xs) = hd (sort_key (k :: 'a \<Rightarrow> 'b :: linorder) ys)"
proof -
  have ne: "sort_key k xs \<noteq> []" "sort_key k ys \<noteq> []"
    using assms by (auto simp flip: set_empty)
  then obtain x xt y yt where e: "sort_key k xs = x # xt" "sort_key k ys = y # yt"
    by (meson neq_Nil_conv)
  have least: "k x \<le> k z" "k y \<le> k z" if "z \<in> set xs" for z
  proof -
    have z: "z \<in> set (x # xt)" "z \<in> set (y # yt)"
      using that assms(1) e by (metis set_sort)+
    have "sorted (map k (x # xt))" "sorted (map k (y # yt))"
      using e by (metis sorted_sort_key)+
    with z show "k x \<le> k z" "k y \<le> k z" by auto
  qed
  have "x \<in> set xs" "y \<in> set xs"
    using e assms(1) by (metis list.set_intros(1) set_sort)+
  with least [of x] least [of y] assms(2) have "x = y"
    by (meson antisym inj_onD)
  with e show ?thesis by simp
qed

lemma accounted_node_ID_inj:
  "accounted s \<Longrightarrow> Nodes s j = Some m \<Longrightarrow> Nodes s k = Some n \<Longrightarrow> node_ID m = node_ID n \<Longrightarrow> m = n"
  using accounted_node [of s j m] accounted_node [of s k n] by (auto simp: node_accounted_def)

lemma candidates_order:
  assumes "accounted s" "set no = set no'"
  shows "(candidates no region resources now s = []) = (candidates no' region resources now s = [])"
    and "hd (candidates no region resources now s) = hd (candidates no' region resources now s)"
proof -
  let ?c = "\<lambda>no. filter (eligible region resources now) (List.map_filter (Nodes s) no)"
  have set: "set (?c no) = set (?c no')"
    using assms(2) by (simp add: List.map_filter_def)
  then have nil: "?c no = [] \<longleftrightarrow> ?c no' = []" by (metis set_empty)
  then show "(candidates no region resources now s = []) = (candidates no' region resources now s = [])"
    by (simp add: candidates_def flip: length_0_conv)
  show "hd (candidates no region resources now s) = hd (candidates no' region resources now s)"
  proof (cases "?c no = []")
    case False
    have "inj_on (\<lambda>n. (used_slots n, node_ID n)) (set (?c no))"
      using accounted_node_ID_inj [OF assms(1)] by (auto simp: inj_on_def List.map_filter_def)
    with False set show ?thesis unfolding candidates_def by (intro sort_key_hd_eq)
  qed (use nil in \<open>simp add: candidates_def\<close>)
qed

section \<open>Properties\<close>

text \<open>C34: In every state of the scheduler that is reached by registering nodes, placing,
  committing and leasing, the \<open>Reserved\<close> and \<open>Committed\<close> counters of a node are exactly the
  sums of the resources of its held and committed reservations, in all five dimensions, and
  together they never exceed the capacity of the node: no interleaving over-commits a node.\<close>

theorem scheduler_never_overcommits:
  assumes "sched_step\<^sup>*\<^sup>* NewStore s" "Nodes s k = Some n" "f \<in> set dims"
  shows "f (Reserved n) = charged s HELD k f \<and> f (Committed n) = charged s COMMITTED k f
    \<and> 0 \<le> f (Reserved n) \<and> 0 \<le> f (Committed n) \<and> f (Reserved n) + f (Committed n) \<le> f (Capacity n)"
proof -
  from assms(1) have s: "solvent s" by (rule sched_reach_solvent)
  show ?thesis
    using solvent_counters [OF s assms(2,3)] solvent_cap(2) [OF s assms(2,3)] by (simp add: live_def)
qed

definition demo_sched_node :: node where
  "demo_sched_node = zero_node\<lparr>node_ID := ''n1'', Region := ''local'', Capacity :=
     \<lparr>Slots = 1, CPUMillis = 2000, MemoryBytes = 4096, IngressBPS = 9, EgressBPS = 9\<rparr>, node_LastSeen := 0\<rparr>"

definition demo_sched_request :: resource_vector where
  "demo_sched_request = \<lparr>Slots = 1, CPUMillis = 1500, MemoryBytes = 2048, IngressBPS = 3, EgressBPS = 4\<rparr>"

definition demo_sched_store :: sched_store where
  "demo_sched_store = snd (Place [] [''n1''] ''a'' ''local'' demo_sched_request 0 60 (register demo_sched_node NewStore))"

lemma demo_store_reached: "sched_step\<^sup>*\<^sup>* NewStore demo_sched_store"
proof -
  have "sched_step NewStore (register demo_sched_node NewStore)"
    by (rule step_register) (simp_all add: NewStore_def demo_sched_node_def zero_node_def in_range_def nonneg_def dims_def in_i64_def)
  moreover have "sched_step (register demo_sched_node NewStore) demo_sched_store"
  proof (rule step_Place)
    show "set [] = dom (Reservations (register demo_sched_node NewStore))" by (simp add: register_def NewStore_def)
    show "nonneg demo_sched_request" by (simp add: nonneg_def demo_sched_request_def dims_def)
    show "Place [] [''n1''] ''a'' ''local'' demo_sched_request 0 60 (register demo_sched_node NewStore) =
        (fst (Place [] [''n1''] ''a'' ''local'' demo_sched_request 0 60 (register demo_sched_node NewStore)), demo_sched_store)"
      by (simp add: demo_sched_store_def)
  qed
  ultimately show ?thesis by (rule rtranclp.rtrancl_into_rtrancl [OF r_into_rtranclp])
qed

lemma demo_candidates: "candidates [''n1''] ''local'' demo_sched_request 0 (register demo_sched_node NewStore) = [demo_sched_node]"
  by (simp add: register_def NewStore_def demo_sched_node_def zero_node_def candidates_def List.map_filter_def
      eligible_def time_sub_def second_def demo_sched_request_def Fits_def Sub_def i64_def)

lemma demo_store_node: "Nodes demo_sched_store ''n1'' = Some (demo_sched_node\<lparr>Reserved := demo_sched_request\<rparr>)"
  unfolding demo_sched_store_def Place_def scan.simps prod.case option.case demo_candidates list.case Let_def
  by (simp add: demo_sched_node_def zero_node_def demo_sched_request_def Add_def i64_def)

theorem scheduler_never_overcommits_witness:
  "Slots (Reserved (the (Nodes demo_sched_store ''n1''))) = 1 \<and> Slots demo_sched_request = charged demo_sched_store HELD ''n1'' Slots
   \<and> CPUMillis demo_sched_request \<le> CPUMillis (Capacity demo_sched_node)"
  using scheduler_never_overcommits [OF demo_store_reached demo_store_node, of Slots]
    scheduler_never_overcommits [OF demo_store_reached demo_store_node, of CPUMillis]
  by (simp add: demo_store_node dims_def demo_sched_request_def demo_sched_node_def zero_node_def)

text \<open>The node that \<open>Place\<close> chooses does not depend on the random order in which Go
  ranges over the map of nodes: two iterations over the same keys give the same reservation
  or the same error and the same next state.\<close>

lemma Place_order_independent:
  assumes "accounted s" "set no = set no'"
  shows "Place ro no aid region resources now ttl s = Place ro no' aid region resources now ttl s"
proof -
  obtain o' s1 where sc: "scan ro aid now s = (o', s1)" by fastforce
  with scan_accounted [OF assms(1), of ro aid now] have acc: "accounted s1" by simp
  note c = candidates_order [OF acc assms(2), of region resources now]
  show ?thesis
  proof (cases "candidates no region resources now s1")
    case Nil
    with c(1) sc show ?thesis by (simp add: Place_def split: option.splits)
  next
    case (Cons n rest)
    moreover from Cons c obtain rest' where "candidates no' region resources now s1 = n # rest'"
      by (metis hd_Cons_tl list.distinct(1) list.sel(1))
    ultimately show ?thesis using sc by (simp add: Place_def split: option.splits)
  qed
qed

lemma Place_order_independent_witness:
  "Place [] [''n1'', ''n2''] ''a'' ''local'' demo_sched_request 0 60 NewStore
   = Place [] [''n2'', ''n1''] ''a'' ''local'' demo_sched_request 0 60 NewStore"
  by (rule Place_order_independent [OF accounted_NewStore]) auto

text \<open>A lease is exclusive and fenced: after a grant every request of another owner fails
  until the lease expires and leaves the store unchanged; the first grant after the expiry
  carries the next fencing token, so a holder that was superseded is recognisable by its
  smaller token (as long as the 64-bit counter does not wrap).\<close>

lemma lease_exclusive_and_fenced:
  assumes "AcquireLease res own now ttl s = (Inr l, s1)" "own' \<noteq> own"
  shows "(now' < now + ttl \<longrightarrow> AcquireLease res own' now' ttl' s1 = (Inl LeaseHeld, s1)) \<and>
    (now + ttl \<le> now' \<longrightarrow> lease_FencingToken l < 2 ^ 64 - 1 \<longrightarrow>
      (\<exists>l' s2. AcquireLease res own' now' ttl' s1 = (Inr l', s2) \<and> Owner l' = own'
         \<and> lease_FencingToken l' = lease_FencingToken l + 1))"
  using assms by (auto simp: AcquireLease_def Let_def split: if_splits)

lemma lease_exclusive_and_fenced_witness:
  "AcquireLease ''r'' ''b'' 5 10 (snd (AcquireLease ''r'' ''a'' 0 10 NewStore))
     = (Inl LeaseHeld, snd (AcquireLease ''r'' ''a'' 0 10 NewStore))"
proof -
  have "AcquireLease ''r'' ''a'' 0 10 NewStore =
      (Inr (zero_lease\<lparr>lease_ResourceID := ''r'', Owner := ''a'', lease_FencingToken := 1, lease_ExpiresAt := 10\<rparr>),
       snd (AcquireLease ''r'' ''a'' 0 10 NewStore))"
    by (simp add: AcquireLease_def NewStore_def zero_lease_def Let_def)
  from lease_exclusive_and_fenced [OF this, of "''b''" 5 10] show ?thesis by simp
qed

end
