(* ===== verification/Worker_Retry.thy ===== *)
theory Worker_Retry
  imports Complex_Main Go_Strings
begin

text \<open>
  Retry policy of a destination, \<^verbatim>\<open>backend/internal/worker/retry.go\<close>: classification of an error
  and the delay before an attempt. The delay is computed in \<^verbatim>\<open>float64\<close>; the rounding of a
  floating-point result is the argument \<open>fl\<close>, and the result of converting an out-of-range
  value to \<^verbatim>\<open>int64\<close>, which Go leaves to the machine, is the argument \<open>oob\<close>.
\<close>

section \<open>Classification\<close>

datatype error_class = Retryable | Permanent

definition permanent_markers :: "string list" where
  "permanent_markers = [''auth'', ''unauthorized'', ''forbidden'', ''invalid stream key'',
     ''unsupported protocol'', ''policy denied'']"

text \<open>An error is its message; no error is \<open>None\<close>.\<close>

definition ClassifyDestinationError :: "string option \<Rightarrow> error_class" where
  "ClassifyDestinationError err = (case err of
     None \<Rightarrow> Permanent
   | Some msg \<Rightarrow> (if list_ex (Contains (ToLower msg)) permanent_markers then Permanent else Retryable))"

section \<open>Backoff\<close>

record backoff =
  Min_delay :: duration
  Max_delay :: duration

definition trunc_rat :: "rat \<Rightarrow> int" where
  "trunc_rat x = (if 0 \<le> x then \<lfloor>x\<rfloor> else \<lceil>x\<rceil>)"

definition to_int64 :: "int \<Rightarrow> rat option \<Rightarrow> int" where
  "to_int64 oob x = (case x of
     None \<Rightarrow> oob
   | Some v \<Rightarrow> if - (2 ^ 63) \<le> v \<and> v < 2 ^ 63 then trunc_rat v else oob)"

text \<open>\<open>math.Pow(2, n)\<close> is exact up to exponent 1023 and infinite (\<open>None\<close>) beyond.\<close>

definition scaled :: "(rat \<Rightarrow> rat) \<Rightarrow> duration \<Rightarrow> int \<Rightarrow> rat option" where
  "scaled fl mn attempt = (if attempt > 1023 then None else Some (fl (fl (of_int mn) * 2 ^ nat attempt)))"

definition base_delay :: "(rat \<Rightarrow> rat) \<Rightarrow> int \<Rightarrow> backoff \<Rightarrow> int \<Rightarrow> duration" where
  "base_delay fl oob b attempt0 =
     (let attempt = (if attempt0 < 0 then 0 else attempt0);
          d = to_int64 oob (scaled fl (Min_delay b) attempt)
      in if d > Max_delay b \<or> d < 0 then Max_delay b else d)"

definition apply_jitter :: "(rat \<Rightarrow> rat) \<Rightarrow> int \<Rightarrow> rat \<Rightarrow> duration \<Rightarrow> duration" where
  "apply_jitter fl oob j0 d =
     (let j = (if j0 < -1 then -1 else j0); j' = (if j > 1 then 1 else j)
      in to_int64 oob (Some (fl (fl (of_int d) * fl (1 + fl (fl (1/5) * j'))))))"

text \<open>\<open>Jitter\<close> is \<open>None\<close> for a nil function, otherwise the value that it returns.\<close>

definition Backoff_Duration :: "(rat \<Rightarrow> rat) \<Rightarrow> int \<Rightarrow> backoff \<Rightarrow> rat option \<Rightarrow> int \<Rightarrow> duration" where
  "Backoff_Duration fl oob b jitter attempt =
     (let d = base_delay fl oob b attempt
      in case jitter of None \<Rightarrow> d | Some j \<Rightarrow> apply_jitter fl oob j d)"

section \<open>Lemmas\<close>

lemma trunc_rat_of_int [simp]: "trunc_rat (of_int n) = n"
  by (simp add: trunc_rat_def)

lemma to_int64_of_int: "to_int64 oob (Some (of_int n)) = (if in_i64 n then n else oob)"
proof -
  have "- (2 ^ 63) \<le> (of_int n :: rat) \<longleftrightarrow> - (2 ^ 63) \<le> n"
    using of_int_le_iff [of "- (2 ^ 63)" n, where 'a = rat] by simp
  moreover have "(of_int n :: rat) < 2 ^ 63 \<longleftrightarrow> n < 2 ^ 63"
    using of_int_less_iff [of n "2 ^ 63", where 'a = rat] by simp
  ultimately show ?thesis by (simp add: to_int64_def in_i64_def)
qed

lemma scaled_exact:
  assumes "fl (of_int mn) = of_int mn" "fl (of_int (mn * 2 ^ nat a)) = of_int (mn * 2 ^ nat a)" "a \<le> 1023"
  shows "scaled fl mn a = Some (of_int (mn * 2 ^ nat a))"
  using assms by (simp add: scaled_def)

text \<open>
  Where the two products are exactly representable, the delay is the doubled minimum capped
  by the maximum, whatever an out-of-range conversion gives on the machine, as long as that
  is negative (amd64) or the largest value (arm64).
\<close>

lemma base_delay_exact:
  assumes mn: "0 < Min_delay b" "Min_delay b \<le> Max_delay b" "in_i64 (Max_delay b)"
    and oob: "oob < 0 \<or> oob = 2 ^ 63 - 1" and a: "0 \<le> a"
    and fl: "fl (of_int (Min_delay b)) = of_int (Min_delay b)"
      "fl (of_int (Min_delay b * 2 ^ nat a)) = of_int (Min_delay b * 2 ^ nat a)"
  shows "base_delay fl oob b a = min (Max_delay b) (Min_delay b * 2 ^ nat a)"
proof (cases "a \<le> 1023")
  case True
  define p where "p = Min_delay b * 2 ^ nat a"
  have p: "0 \<le> p" using mn(1) by (simp add: p_def)
  have "base_delay fl oob b a = (let d = (if in_i64 p then p else oob) in if d > Max_delay b \<or> d < 0 then Max_delay b else d)"
    using a scaled_exact [OF fl True] by (simp add: base_delay_def to_int64_of_int p_def del: of_int_mult)
  then show ?thesis
    using p mn oob unfolding p_def [symmetric] by (auto simp: Let_def in_i64_def min_def)
next
  case False
  have "(2::int) ^ 63 \<le> 2 ^ nat a" using False by (intro power_increasing) auto
  moreover have "(2 :: int) ^ nat a \<le> Min_delay b * 2 ^ nat a" using mn(1) by simp
  ultimately have "2 ^ 63 \<le> Min_delay b * 2 ^ nat a" by linarith
  then have "min (Max_delay b) (Min_delay b * 2 ^ nat a) = Max_delay b"
    using mn(3) by (simp add: in_i64_def)
  moreover have "base_delay fl oob b a = Max_delay b"
    using False oob mn by (auto simp: base_delay_def scaled_def to_int64_def in_i64_def)
  ultimately show ?thesis by simp
qed

section \<open>Properties\<close>

text \<open>Without jitter the delay before an attempt is the minimum doubled once per earlier
  attempt and capped by the maximum: it never leaves the configured bounds, for any attempt
  number, including those whose product overflows 64 bits. The hypotheses say that the two
  products are representable in \<^verbatim>\<open>float64\<close> and what the machine returns for an out-of-range
  conversion.\<close>

lemma Backoff_Duration_capped_exponential:
  assumes "0 < Min_delay b" "Min_delay b \<le> Max_delay b" "in_i64 (Max_delay b)"
    and "oob < 0 \<or> oob = 2 ^ 63 - 1" "0 \<le> a"
    and "fl (of_int (Min_delay b)) = of_int (Min_delay b)"
    and "fl (of_int (Min_delay b * 2 ^ nat a)) = of_int (Min_delay b * 2 ^ nat a)"
  shows "Backoff_Duration fl oob b None a = min (Max_delay b) (Min_delay b * 2 ^ nat a)
    \<and> Min_delay b \<le> Backoff_Duration fl oob b None a \<and> Backoff_Duration fl oob b None a \<le> Max_delay b"
proof -
  have "Min_delay b * 1 \<le> Min_delay b * 2 ^ nat a"
    using assms(1) by (intro mult_left_mono) auto
  then show ?thesis
    using base_delay_exact [OF assms(1-5) assms(6,7)] assms(2) by (simp add: Backoff_Duration_def)
qed

lemma Backoff_Duration_capped_exponential_witness:
  "Backoff_Duration id (- (2 ^ 63)) \<lparr>Min_delay = second, Max_delay = 30 * second\<rparr> None 4 = 16 * second
   \<and> Backoff_Duration id (- (2 ^ 63)) \<lparr>Min_delay = second, Max_delay = 30 * second\<rparr> None 5 = 30 * second"
  using Backoff_Duration_capped_exponential [of "\<lparr>Min_delay = second, Max_delay = 30 * second\<rparr>" "- (2 ^ 63)" 4 id]
    Backoff_Duration_capped_exponential [of "\<lparr>Min_delay = second, Max_delay = 30 * second\<rparr>" "- (2 ^ 63)" 5 id]
  by (simp add: second_def in_i64_def)

text \<open>A destination error is final exactly when its message contains one of the six markers
  in any letter case (or when there is no error value at all); every other error is retried.\<close>

lemma ClassifyDestinationError_spec:
  "ClassifyDestinationError (Some msg) = Permanent \<longleftrightarrow>
     (\<exists>m \<in> set permanent_markers. \<exists>a b. ToLower msg = a @ m @ b)"
  by (auto simp: ClassifyDestinationError_def list_ex_iff Contains_iff)

end
