(* ===== verification/Worker_Service.thy ===== *)
theory Worker_Service
  imports Worker_Status Worker_Retry
begin

text \<open>
  The event loop of a worker, \<^verbatim>\<open>backend/internal/worker/service.go\<close>, and the runtime events it
  consumes, \<^verbatim>\<open>backend/internal/pipeline/runtime.go\<close>.

  One iteration of the \<^verbatim>\<open>select\<close> is one step. The retry goroutines that sleep until their
  delay has passed are the list \<open>sleeping\<close> of the state; delivering a request to the retry
  channel takes one of them. What the environment answers (the result of
  \<^verbatim>\<open>ReconnectDestination\<close>, of \<^verbatim>\<open>Runtime.Stop\<close>, the reading of the clock) is part of the input
  of a step; the clock is read once per iteration.
\<close>

section \<open>Runtime events\<close>

datatype runtime_event_type =
    RuntimeInputLive | RuntimeDestinationStreaming | RuntimeDestinationError | RuntimeDestinationStopped
  | RuntimeInputError | RuntimeEOS | RuntimeFallback | RuntimeInputUnavailable | RuntimeInputRejected

record runtime_event =
  rt_Type :: runtime_event_type
  rt_DestinationID :: string
  rt_Generation :: nat
  rt_Forced :: bool
  rt_InputLive :: bool
  rt_Err :: "string option"

section \<open>State\<close>

record service =
  svc_SessionID :: string
  DestinationIDs :: "string list"
  dependencies :: bool
  svc_Min :: duration
  svc_Max :: duration
  StableInterval :: duration
  ShutdownTimeout :: duration
  MaxAttempts :: int

record dest_state =
  attempt :: int
  generation :: nat
  streamingSince :: time
  waiting :: bool
  terminal :: bool

definition zero_dest_state :: dest_state where
  "zero_dest_state = \<lparr>attempt = 0, generation = 0, streamingSince = zero_time, waiting = False, terminal = False\<rparr>"

datatype run_result = Returned "string option"

record loop =
  states :: "string \<rightharpoonup> dest_state"
  emitted :: "event list"
  sleeping :: "(string \<times> nat \<times> duration) list"
  reconnected :: "string list"
  finished :: "run_result option"

datatype service_error = InvalidDependencies | StartPipeline string

section \<open>Operations\<close>

definition emit ::
  "service \<Rightarrow> time \<Rightarrow> event_type \<Rightarrow> string \<Rightarrow> nat \<Rightarrow> error_code \<Rightarrow> int \<Rightarrow> (string \<rightharpoonup> field_value) \<Rightarrow> loop \<Rightarrow> loop" where
  "emit svc now t d g code att fs l =
     l\<lparr>emitted := emitted l @ [\<lparr>Timestamp = now, Type = t, ev_SessionID = svc_SessionID svc, ev_DestinationID = d,
        ev_Generation = g, Code = code, ev_Attempt = att, Fields = fs\<rparr>]\<rparr>"

definition safeError :: "string option \<Rightarrow> string" where
  "safeError err = (case err of None \<Rightarrow> '''' | Some m \<Rightarrow> m)"

definition errorField :: "string option \<Rightarrow> (string \<rightharpoonup> field_value)" where
  "errorField err = (case err of None \<Rightarrow> Map.empty | Some m \<Rightarrow> [''error'' \<mapsto> FString (safeError (Some m))])"

definition ensureState :: "(string \<rightharpoonup> dest_state) \<Rightarrow> string \<Rightarrow> dest_state" where
  "ensureState sts d = (case sts d of Some st \<Rightarrow> st | None \<Rightarrow> zero_dest_state)"

definition put_state :: "string \<Rightarrow> dest_state \<Rightarrow> loop \<Rightarrow> loop" where
  "put_state d st l = l\<lparr>states := (states l)(d \<mapsto> st)\<rparr>"

text \<open>\<open>stop\<close>: the result of \<^verbatim>\<open>Runtime.Stop\<close> and whether its deadline passed come from outside.\<close>

definition stop :: "service \<Rightarrow> time \<Rightarrow> string option \<Rightarrow> bool \<Rightarrow> loop \<Rightarrow> loop" where
  "stop svc now err deadline_exceeded l =
     (let l1 = emit svc now WorkerStopping '''' 0 NoCode 0 Map.empty l;
          code = (if deadline_exceeded then ErrShutdownTimeout else NoCode);
          l2 = emit svc now WorkerStopped '''' 0 code 0 (errorField err) l1
      in l2\<lparr>finished := Some (Returned err)\<rparr>)"

definition stop_timeout :: "service \<Rightarrow> duration" where
  "stop_timeout svc = (if ShutdownTimeout svc \<le> 0 then 10 * second else ShutdownTimeout svc)"

definition handle_retry :: "service \<Rightarrow> time \<Rightarrow> string \<Rightarrow> nat \<Rightarrow> string option \<Rightarrow> loop \<Rightarrow> loop" where
  "handle_retry svc now d g rerr l =
     (case states l d of
        None \<Rightarrow> l
      | Some st \<Rightarrow>
          if generation st \<noteq> g \<or> terminal st then l
          else let st' = st\<lparr>waiting := False\<rparr>;
                   l1 = put_state d st' l;
                   l2 = emit svc now DestinationConnecting d (generation st') NoCode (attempt st') Map.empty l1;
                   l3 = l2\<lparr>reconnected := reconnected l2 @ [d]\<rparr>
               in case rerr of
                    None \<Rightarrow> l3
                  | Some m \<Rightarrow> emit svc now DestinationReconnecting d (generation st') ErrPipeline (attempt st') (errorField (Some m)) l3)"

definition milliseconds :: "duration \<Rightarrow> int" where
  "milliseconds d = sgn d * (\<bar>d\<bar> div millisecond)"

definition handle_dest_error :: "service \<Rightarrow> (int \<Rightarrow> duration) \<Rightarrow> time \<Rightarrow> runtime_event \<Rightarrow> loop \<Rightarrow> loop" where
  "handle_dest_error svc delay now e l =
     (let d = rt_DestinationID e;
          st = ensureState (states l) d;
          l0 = put_state d st l
      in if rt_Generation e < generation st \<or> waiting st \<or> terminal st then l0
      else let st1 = st\<lparr>generation := rt_Generation e\<rparr>;
               st2 = (if streamingSince st1 \<noteq> zero_time \<and> time_sub now (streamingSince st1) \<ge> StableInterval svc
                      then st1\<lparr>attempt := 0\<rparr> else st1)
           in if ClassifyDestinationError (rt_Err e) = Permanent
              then emit svc now DestinationFailed d (rt_Generation e) ErrDestinationAuth (attempt st2) (errorField (rt_Err e))
                     (put_state d (st2\<lparr>terminal := True\<rparr>) l0)
              else if MaxAttempts svc > 0 \<and> attempt st2 \<ge> MaxAttempts svc
              then emit svc now DestinationFailed d (rt_Generation e) ErrDestinationNet (attempt st2)
                     (errorField (Some ''destination retries exhausted'')) (put_state d (st2\<lparr>terminal := True\<rparr>) l0)
              else let dl = delay (attempt st2);
                       st3 = st2\<lparr>attempt := i64 (attempt st2 + 1), waiting := True\<rparr>;
                       l1 = emit svc now DestinationReconnecting d (rt_Generation e) ErrDestinationNet (attempt st3)
                              [''retry_in_ms'' \<mapsto> FInt (milliseconds dl), ''error'' \<mapsto> FString (safeError (rt_Err e))]
                              (put_state d st3 l0)
                   in l1\<lparr>sleeping := sleeping l1 @ [(d, rt_Generation e, dl)]\<rparr>)"

definition handle_event ::
  "service \<Rightarrow> (int \<Rightarrow> duration) \<Rightarrow> time \<Rightarrow> string option \<Rightarrow> bool \<Rightarrow> runtime_event \<Rightarrow> loop \<Rightarrow> loop" where
  "handle_event svc delay now stop_err stop_late e l =
     (case rt_Type e of
        RuntimeInputLive \<Rightarrow> emit svc now InputLive '''' 0 NoCode 0 Map.empty l
      | RuntimeDestinationStreaming \<Rightarrow>
          (let d = rt_DestinationID e;
               st = (ensureState (states l) d)\<lparr>generation := rt_Generation e, streamingSince := now,
                       waiting := False, terminal := False\<rparr>
           in emit svc now DestinationStreaming d (rt_Generation e) NoCode (attempt st) Map.empty (put_state d st l))
      | RuntimeDestinationStopped \<Rightarrow>
          (let l1 = emit svc now DestinationStopped (rt_DestinationID e) (rt_Generation e) NoCode 0 Map.empty l
           in l1\<lparr>states := (states l1)(rt_DestinationID e := None)\<rparr>)
      | RuntimeDestinationError \<Rightarrow> handle_dest_error svc delay now e l
      | RuntimeInputRejected \<Rightarrow> emit svc now InputRejected '''' 0 ErrUnsupportedMedia 0 Map.empty l
      | RuntimeFallback \<Rightarrow> emit svc now FallbackActive '''' 0 ErrInputUnavailable 0
          [''forced'' \<mapsto> FBool (rt_Forced e), ''source_live'' \<mapsto> FBool (rt_InputLive e)] l
      | RuntimeInputUnavailable \<Rightarrow> emit svc now InputUnavailable '''' 0 ErrInputUnavailable 0 Map.empty l
      | RuntimeInputError \<Rightarrow> stop svc now stop_err stop_late (emit svc now InputLost '''' 0 ErrInputUnavailable 0 (errorField (rt_Err e)) l)
      | RuntimeEOS \<Rightarrow> stop svc now stop_err stop_late (emit svc now InputLost '''' 0 ErrInputUnavailable 0 (errorField (rt_Err e)) l))"

text \<open>The prologue of \<open>Run\<close>, up to the loop; \<open>start_err\<close> is the result of \<^verbatim>\<open>Runtime.Start\<close>.\<close>

definition empty_loop :: loop where
  "empty_loop = \<lparr>states = Map.empty, emitted = [], sleeping = [], reconnected = [], finished = None\<rparr>"

definition connect_all :: "service \<Rightarrow> time \<Rightarrow> loop \<Rightarrow> loop" where
  "connect_all svc now l = fold (\<lambda>d l. emit svc now DestinationConnecting d 0 NoCode 0 Map.empty (put_state d zero_dest_state l))
     (DestinationIDs svc) l"

definition Run_prologue :: "service \<Rightarrow> time \<Rightarrow> string option \<Rightarrow> (service_error \<times> loop) + loop" where
  "Run_prologue svc now start_err =
     (if \<not> dependencies svc \<or> svc_Min svc \<le> 0 \<or> svc_Max svc < svc_Min svc then Inl (InvalidDependencies, empty_loop)
      else let l = connect_all svc now (emit svc now InputConnecting '''' 0 NoCode 0 Map.empty empty_loop)
           in case start_err of
                Some m \<Rightarrow> Inl (StartPipeline m, emit svc now InputLost '''' 0 ErrPipeline 0 [''error'' \<mapsto> FString m] l)
              | None \<Rightarrow> Inr l)"

text \<open>
  One iteration of the loop, up to the cancellation of its context (a sleeping retry is only
  given up when the context is cancelled, and the loop then stops). A finished loop takes no
  further step.
\<close>

inductive service_step :: "service \<Rightarrow> (int \<Rightarrow> duration) \<Rightarrow> loop \<Rightarrow> loop \<Rightarrow> bool" for svc delay where
  ctx_done: "finished l = None \<Longrightarrow> service_step svc delay l (stop svc now err late l)"
| events_closed: "finished l = None \<Longrightarrow> service_step svc delay l (stop svc now err late l)"
| retry: "finished l = None \<Longrightarrow> r \<in> set (sleeping l) \<Longrightarrow> r = (d, g, w) \<Longrightarrow>
    service_step svc delay l (handle_retry svc now d g rerr (l\<lparr>sleeping := remove1 r (sleeping l)\<rparr>))"
| runtime: "finished l = None \<Longrightarrow> service_step svc delay l (handle_event svc delay now err late e l)"

inductive service_reach :: "service \<Rightarrow> (int \<Rightarrow> duration) \<Rightarrow> loop \<Rightarrow> bool" for svc delay where
  reach_start: "Run_prologue svc now None = Inr l \<Longrightarrow> service_reach svc delay l"
| reach_step: "service_reach svc delay l \<Longrightarrow> service_step svc delay l l' \<Longrightarrow> service_reach svc delay l'"

section \<open>Invariant\<close>

lemma emit_frame [simp]:
  "states (emit svc now t d g c a fs l) = states l"
  "sleeping (emit svc now t d g c a fs l) = sleeping l"
  "reconnected (emit svc now t d g c a fs l) = reconnected l"
  "finished (emit svc now t d g c a fs l) = finished l"
  by (simp_all add: emit_def)

lemma put_state_frame [simp]:
  "states (put_state d st l) = (states l)(d \<mapsto> st)"
  "emitted (put_state d st l) = emitted l"
  "sleeping (put_state d st l) = sleeping l"
  "reconnected (put_state d st l) = reconnected l"
  "finished (put_state d st l) = finished l"
  by (simp_all add: put_state_def)

text \<open>The state of one destination: its attempts stay within the bound, a terminal destination is
  not waiting, and a waiting one has its retry under way.\<close>

definition dest_ok :: "service \<Rightarrow> (string \<times> nat \<times> duration) list \<Rightarrow> string \<Rightarrow> dest_state \<Rightarrow> bool" where
  "dest_ok svc sl d st \<longleftrightarrow> 0 \<le> attempt st \<and> attempt st \<le> MaxAttempts svc \<and> \<not> (terminal st \<and> waiting st)
     \<and> (waiting st \<longrightarrow> (\<exists>w. (d, generation st, w) \<in> set sl))"

definition event_ok :: "service \<Rightarrow> event \<Rightarrow> bool" where
  "event_ok svc e \<longleftrightarrow> (Type e = DestinationReconnecting \<longrightarrow> 0 \<le> ev_Attempt e \<and> ev_Attempt e \<le> MaxAttempts svc)"

definition is_final :: "event \<Rightarrow> bool" where
  "is_final e \<longleftrightarrow> Type e = WorkerStopping \<or> Type e = WorkerStopped"

definition ends_well :: "loop \<Rightarrow> bool" where
  "ends_well l \<longleftrightarrow> (case finished l of
     None \<Rightarrow> filter is_final (emitted l) = []
   | Some _ \<Rightarrow> \<exists>es e1 e2. emitted l = es @ [e1, e2] \<and> Type e1 = WorkerStopping \<and> Type e2 = WorkerStopped
       \<and> filter is_final es = [])"

definition service_inv :: "service \<Rightarrow> loop \<Rightarrow> bool" where
  "service_inv svc l \<longleftrightarrow> (\<forall>d st. states l d = Some st \<longrightarrow> dest_ok svc (sleeping l) d st)
     \<and> list_all (event_ok svc) (emitted l) \<and> ends_well l"

lemma ends_well_cong: "finished l' = finished l \<Longrightarrow> emitted l' = emitted l \<Longrightarrow> ends_well l' = ends_well l"
  by (cases "finished l") (simp_all add: ends_well_def)

lemma ends_well_frame [simp]:
  "ends_well (put_state d st l) = ends_well l"
  "ends_well (l\<lparr>sleeping := sl\<rparr>) = ends_well l"
  "ends_well (l\<lparr>reconnected := rc\<rparr>) = ends_well l"
  "ends_well (l\<lparr>states := sts\<rparr>) = ends_well l"
  by (rule ends_well_cong; simp)+

lemma dest_ok_zero [simp]: "0 \<le> MaxAttempts svc \<Longrightarrow> dest_ok svc sl d zero_dest_state"
  by (simp add: dest_ok_def zero_dest_state_def)

lemma dest_ok_mono: "dest_ok svc sl d st \<Longrightarrow> set sl \<subseteq> set sl' \<Longrightarrow> dest_ok svc sl' d st"
  by (auto simp: dest_ok_def)

lemma service_inv_emit [relay_inv]:
  assumes "service_inv svc l" "finished l = None" "t \<noteq> WorkerStopping" "t \<noteq> WorkerStopped"
    and "t = DestinationReconnecting \<Longrightarrow> 0 \<le> a \<and> a \<le> MaxAttempts svc"
  shows "service_inv svc (emit svc now t d g c a fs l)"
  using assms by (auto simp: service_inv_def ends_well_def emit_def event_ok_def is_final_def)

lemma service_inv_put_state [relay_inv]:
  "service_inv svc l \<Longrightarrow> dest_ok svc (sleeping l) d st \<Longrightarrow> service_inv svc (put_state d st l)"
  by (auto simp: service_inv_def)

lemma service_inv_stop [relay_inv]:
  "service_inv svc l \<Longrightarrow> finished l = None \<Longrightarrow> service_inv svc (stop svc now err late l)"
  by (auto simp: stop_def Let_def service_inv_def ends_well_def emit_def event_ok_def)

lemma service_inv_ensure:
  "service_inv svc l \<Longrightarrow> 0 \<le> MaxAttempts svc \<Longrightarrow> dest_ok svc (sleeping l) d (ensureState (states l) d)"
  by (auto simp: service_inv_def ensureState_def split: option.splits)

lemma service_inv_sleep:
  "service_inv svc l \<Longrightarrow> set (sleeping l) \<subseteq> set sl \<Longrightarrow> service_inv svc (l\<lparr>sleeping := sl\<rparr>)"
  by (auto simp: service_inv_def intro: dest_ok_mono)

text \<open>
  Taking a request out of the channel may strand only the destination it is for: the other
  destinations wait for other requests.
\<close>

lemma handle_retry_inv:
  assumes inv: "service_inv svc l" and fin: "finished l = None" and r: "(d, g, w) \<in> set (sleeping l)"
  shows "service_inv svc (handle_retry svc now d g rerr (l\<lparr>sleeping := remove1 (d, g, w) (sleeping l)\<rparr>))"
proof -
  let ?l = "l\<lparr>sleeping := remove1 (d, g, w) (sleeping l)\<rparr>"
  have keep: "dest_ok svc (sleeping ?l) d' st" if "states l d' = Some st" "d' = d \<Longrightarrow> generation st \<noteq> g \<or> \<not> waiting st" for d' st
    using inv that by (fastforce simp: service_inv_def dest_ok_def in_set_remove1)
  show ?thesis
  proof (cases "\<exists>st. states l d = Some st \<and> generation st = g \<and> \<not> terminal st")
    case True
    then obtain st where st: "states l d = Some st" "generation st = g" "\<not> terminal st" by blast
    let ?m = "put_state d (st\<lparr>waiting := False\<rparr>) ?l"
    have ok: "0 \<le> attempt st \<and> attempt st \<le> MaxAttempts svc"
      using inv st by (auto simp: service_inv_def dest_ok_def)
    have "service_inv svc ?m"
      using inv keep st ok by (auto simp: service_inv_def dest_ok_def)
    moreover have "finished ?m = None" using fin by simp
    ultimately have "service_inv svc (emit svc now DestinationConnecting d g NoCode (attempt st) Map.empty ?m)"
      by (intro service_inv_emit) auto
    then have c: "service_inv svc ((emit svc now DestinationConnecting d g NoCode (attempt st) Map.empty ?m)\<lparr>reconnected := xs\<rparr>)" for xs
      by (simp add: service_inv_def)
    show ?thesis
    proof (cases rerr)
      case None
      with st c show ?thesis by (simp add: handle_retry_def Let_def)
    next
      case (Some m)
      with st show ?thesis
        using service_inv_emit [OF c, of _ DestinationReconnecting "attempt st"] ok fin
        by (simp add: handle_retry_def Let_def)
    qed
  next
    case False
    then have "handle_retry svc now d g rerr ?l = ?l"
      by (auto simp: handle_retry_def split: option.splits)
    moreover have "service_inv svc ?l"
      using inv keep False by (force simp: service_inv_def dest_ok_def)
    ultimately show ?thesis by simp
  qed
qed

lemma handle_dest_error_inv:
  assumes inv: "service_inv svc l" and fin: "finished l = None"
    and max: "0 < MaxAttempts svc" "in_i64 (MaxAttempts svc)"
  shows "service_inv svc (handle_dest_error svc delay now e l)"
proof -
  let ?d = "rt_DestinationID e"
  let ?st = "ensureState (states l) ?d"
  have ok: "dest_ok svc (sleeping l) ?d ?st" using service_inv_ensure [OF inv] max by simp
  let ?l0 = "put_state ?d ?st l"
  have l0: "service_inv svc ?l0" by (rule service_inv_put_state [OF inv ok])
  show ?thesis
  proof (cases "rt_Generation e < generation ?st \<or> waiting ?st \<or> terminal ?st")
    case True
    with l0 show ?thesis by (simp add: handle_dest_error_def Let_def)
  next
    case False
    define st1 where "st1 = ?st\<lparr>generation := rt_Generation e\<rparr>"
    define st2 where "st2 = (if streamingSince st1 \<noteq> zero_time \<and> time_sub now (streamingSince st1) \<ge> StableInterval svc
                      then st1\<lparr>attempt := 0\<rparr> else st1)"
    have st2: "0 \<le> attempt st2" "attempt st2 \<le> MaxAttempts svc" "\<not> waiting st2" "\<not> terminal st2" "generation st2 = rt_Generation e"
      using ok False max by (auto simp: st2_def st1_def dest_ok_def)
    have eq: "handle_dest_error svc delay now e l =
       (if ClassifyDestinationError (rt_Err e) = Permanent
        then emit svc now DestinationFailed ?d (rt_Generation e) ErrDestinationAuth (attempt st2) (errorField (rt_Err e))
               (put_state ?d (st2\<lparr>terminal := True\<rparr>) ?l0)
        else if attempt st2 \<ge> MaxAttempts svc
        then emit svc now DestinationFailed ?d (rt_Generation e) ErrDestinationNet (attempt st2)
               (errorField (Some ''destination retries exhausted'')) (put_state ?d (st2\<lparr>terminal := True\<rparr>) ?l0)
        else let st3 = st2\<lparr>attempt := i64 (attempt st2 + 1), waiting := True\<rparr>
             in (emit svc now DestinationReconnecting ?d (rt_Generation e) ErrDestinationNet (attempt st3)
                  [''retry_in_ms'' \<mapsto> FInt (milliseconds (delay (attempt st2))), ''error'' \<mapsto> FString (safeError (rt_Err e))]
                  (put_state ?d st3 ?l0))\<lparr>sleeping := sleeping l @ [(?d, rt_Generation e, delay (attempt st2))]\<rparr>)"
      using False max by (simp add: handle_dest_error_def Let_def st2_def st1_def)
    have tm: "service_inv svc (put_state ?d (st2\<lparr>terminal := True\<rparr>) ?l0)"
      using st2 by (intro service_inv_put_state [OF l0]) (simp add: dest_ok_def)
    show ?thesis
    proof (cases "ClassifyDestinationError (rt_Err e) = Permanent \<or> attempt st2 \<ge> MaxAttempts svc")
      case True
      with fin tm show ?thesis unfolding eq by (auto intro: service_inv_emit)
    next
      case False
      then have inc: "i64 (attempt st2 + 1) = attempt st2 + 1"
        using st2 max by (intro i64_id) (auto simp: in_i64_def)
      define st3 where "st3 = st2\<lparr>attempt := i64 (attempt st2 + 1), waiting := True\<rparr>"
      define sl where "sl = sleeping l @ [(?d, rt_Generation e, delay (attempt st2))]"
      have "service_inv svc (?l0\<lparr>sleeping := sl\<rparr>)"
        by (rule service_inv_sleep [OF l0]) (auto simp: sl_def)
      then have "service_inv svc (put_state ?d st3 (?l0\<lparr>sleeping := sl\<rparr>))"
        using st2 False inc by (intro service_inv_put_state) (auto simp: dest_ok_def st3_def sl_def)
      then have "service_inv svc (emit svc now DestinationReconnecting ?d (rt_Generation e) ErrDestinationNet (attempt st3)
                  [''retry_in_ms'' \<mapsto> FInt (milliseconds (delay (attempt st2))), ''error'' \<mapsto> FString (safeError (rt_Err e))]
                  (put_state ?d st3 (?l0\<lparr>sleeping := sl\<rparr>)))"
        using fin st2 False inc by (intro service_inv_emit) (auto simp: st3_def)
      moreover have "(emit svc now t d g c a fs (put_state ?d st3 ?l0))\<lparr>sleeping := sl\<rparr>
          = emit svc now t d g c a fs (put_state ?d st3 (?l0\<lparr>sleeping := sl\<rparr>))" for t d g c a fs
        by (simp add: emit_def put_state_def)
      ultimately show ?thesis
        using False unfolding eq by (simp add: Let_def st3_def [symmetric] sl_def [symmetric])
    qed
  qed
qed

lemma service_inv_forget:
  "service_inv svc l \<Longrightarrow> service_inv svc (l\<lparr>states := (states l)(d := None)\<rparr>)"
  by (auto simp: service_inv_def)

lemma handle_event_inv:
  assumes inv: "service_inv svc l" and fin: "finished l = None"
    and max: "0 < MaxAttempts svc" "in_i64 (MaxAttempts svc)"
  shows "service_inv svc (handle_event svc delay now err late e l)"
proof (cases "rt_Type e")
  case RuntimeDestinationStreaming
  have "dest_ok svc (sleeping l) (rt_DestinationID e) (ensureState (states l) (rt_DestinationID e))"
    using service_inv_ensure [OF inv] max by simp
  then show ?thesis
    using RuntimeDestinationStreaming fin
    by (auto simp: handle_event_def Let_def dest_ok_def intro!: service_inv_emit service_inv_put_state [OF inv])
next
  case RuntimeDestinationStopped
  then show ?thesis
    using service_inv_forget [OF service_inv_emit [OF inv fin, of DestinationStopped]]
    by (simp add: handle_event_def Let_def)
next
  case RuntimeDestinationError
  then show ?thesis
    using handle_dest_error_inv [OF inv fin max] by (simp add: handle_event_def)
qed (use fin in \<open>auto simp: handle_event_def intro!: service_inv_emit [OF inv fin] service_inv_stop\<close>)

lemma connect_fold_inv:
  assumes "0 < MaxAttempts svc"
  shows "service_inv svc l \<Longrightarrow> finished l = None \<Longrightarrow>
    (let l' = fold (\<lambda>d l. emit svc now DestinationConnecting d 0 NoCode 0 Map.empty (put_state d zero_dest_state l)) ds l
     in service_inv svc l' \<and> finished l' = None)"
proof (induction ds arbitrary: l)
  case (Cons d ds)
  have "service_inv svc (emit svc now DestinationConnecting d 0 NoCode 0 Map.empty (put_state d zero_dest_state l))"
    using Cons.prems assms by (intro service_inv_emit service_inv_put_state) auto
  from Cons.IH [OF this] Cons.prems show ?case by (simp add: Let_def)
qed simp

lemma prologue_inv:
  assumes "Run_prologue svc now None = Inr l" "0 < MaxAttempts svc"
  shows "service_inv svc l"
proof -
  have "service_inv svc empty_loop"
    by (simp add: service_inv_def empty_loop_def ends_well_def)
  then have "service_inv svc (emit svc now InputConnecting '''' 0 NoCode 0 Map.empty empty_loop)"
    by (intro service_inv_emit) (auto simp: empty_loop_def)
  from connect_fold_inv [OF assms(2) this, of now "DestinationIDs svc"] assms(1)
  show ?thesis
    by (auto simp: Run_prologue_def connect_all_def Let_def empty_loop_def split: if_splits)
qed

lemma service_step_inv:
  assumes "service_step svc delay l l'" "service_inv svc l" "0 < MaxAttempts svc" "in_i64 (MaxAttempts svc)"
  shows "service_inv svc l'"
  using assms
  by cases (simp_all add: service_inv_stop handle_retry_inv handle_event_inv)

lemma service_reach_inv:
  assumes "service_reach svc delay l" "0 < MaxAttempts svc" "in_i64 (MaxAttempts svc)"
  shows "service_inv svc l"
  using assms by (induction) (blast intro: prologue_inv service_step_inv)+

section \<open>A failed destination stays failed\<close>

lemma handle_retry_terminal:
  assumes "states l d = Some st" "terminal st"
  shows "states (handle_retry svc now d' g rerr l) d = Some st
    \<and> count_list (reconnected (handle_retry svc now d' g rerr l)) d = count_list (reconnected l) d"
  using assms by (auto simp: handle_retry_def Let_def split: option.splits)

lemma handle_dest_error_terminal:
  assumes "states l d = Some st" "terminal st"
  shows "states (handle_dest_error svc delay now e l) d = Some st
    \<and> reconnected (handle_dest_error svc delay now e l) = reconnected l"
  using assms by (auto simp: handle_dest_error_def Let_def ensureState_def)

lemma stop_frame [simp]:
  "states (stop svc now err late l) = states l"
  "reconnected (stop svc now err late l) = reconnected l"
  by (simp_all add: stop_def Let_def)

definition revives :: "string \<Rightarrow> event \<Rightarrow> bool" where
  "revives d e \<longleftrightarrow> Type e \<in> {DestinationStreaming, DestinationStopped} \<and> ev_DestinationID e = d"

lemma emitted_emit: "emitted (emit svc now t d g c a fs l) = emitted l @
    [\<lparr>Timestamp = now, Type = t, ev_SessionID = svc_SessionID svc, ev_DestinationID = d,
        ev_Generation = g, Code = c, ev_Attempt = a, Fields = fs\<rparr>]"
  by (simp add: emit_def)

lemma handle_event_terminal:
  assumes "states l d = Some st" "terminal st"
  shows "(states (handle_event svc delay now err late e l) d = Some st \<or>
      (\<exists>es ev. emitted (handle_event svc delay now err late e l) = es @ [ev] \<and> revives d ev))
    \<and> reconnected (handle_event svc delay now err late e l) = reconnected l"
  using assms handle_dest_error_terminal [OF assms, of svc delay now e]
  by (cases "rt_Type e") (auto simp: handle_event_def Let_def emitted_emit revives_def)

section \<open>Properties\<close>

text \<open>C35: In every reachable state of a worker with a positive bound on attempts, the retry counter
  of each destination and the attempt number of each reported reconnect stay within the bound,
  a destination that failed for good is not waiting for a retry, and a destination that waits
  has a retry of its current generation under way, so no destination waits for ever.\<close>

theorem worker_retries_bounded_and_not_lost:
  assumes "service_reach svc delay l" "0 < MaxAttempts svc" "in_i64 (MaxAttempts svc)"
  shows "(\<forall>d st. states l d = Some st \<longrightarrow> dest_ok svc (sleeping l) d st) \<and> list_all (event_ok svc) (emitted l)"
  using service_reach_inv [OF assms] by (simp add: service_inv_def)

definition demo_service :: service where
  "demo_service = \<lparr>svc_SessionID = ''s'', DestinationIDs = [''d''], dependencies = True, svc_Min = second, svc_Max = 60 * second,
     StableInterval = 60 * second, ShutdownTimeout = 0, MaxAttempts = 3\<rparr>"

definition demo_error :: runtime_event where
  "demo_error = \<lparr>rt_Type = RuntimeDestinationError, rt_DestinationID = ''d'', rt_Generation = 0, rt_Forced = False,
     rt_InputLive = False, rt_Err = Some ''refused''\<rparr>"

definition demo_loop :: loop where
  "demo_loop = connect_all demo_service 0 (emit demo_service 0 InputConnecting '''' 0 NoCode 0 Map.empty empty_loop)"

definition demo_failing :: loop where
  "demo_failing = handle_event demo_service (\<lambda>_. second) 5 None False demo_error demo_loop"

lemma demo_start: "Run_prologue demo_service 0 None = Inr demo_loop"
  by (simp add: Run_prologue_def demo_service_def second_def demo_loop_def Let_def)

lemma demo_reach: "service_reach demo_service (\<lambda>_. second) demo_loop"
  by (rule reach_start [OF demo_start])

lemma demo_not_finished: "finished demo_loop = None"
  by (simp add: demo_loop_def connect_all_def demo_service_def empty_loop_def)

lemma demo_reach_failing: "service_reach demo_service (\<lambda>_. second) demo_failing"
  unfolding demo_failing_def by (rule reach_step [OF demo_reach service_step.runtime [OF demo_not_finished]])

lemma demo_max: "0 < MaxAttempts demo_service" "in_i64 (MaxAttempts demo_service)"
  by (simp_all add: demo_service_def in_i64_def)

lemma demo_transient: "ClassifyDestinationError (Some ''refused'') = Retryable"
  by code_simp

lemma demo_waiting: "states demo_failing ''d'' =
    Some \<lparr>attempt = 1, generation = 0, streamingSince = zero_time, waiting = True, terminal = False\<rparr>"
  using demo_transient
  by (simp add: demo_failing_def handle_event_def demo_error_def handle_dest_error_def Let_def demo_loop_def
      connect_all_def demo_service_def ensureState_def zero_dest_state_def in_i64_def)

theorem worker_retries_bounded_and_not_lost_witness:
  "\<exists>w. (''d'', 0, w) \<in> set (sleeping demo_failing)"
  using worker_retries_bounded_and_not_lost [OF demo_reach_failing demo_max] demo_waiting
  by (fastforce simp: dest_ok_def)

text \<open>A run announces its end exactly once: no stop event is reported while the loop runs, and
  when it has returned the last two events are "stopping" and "stopped", with no such event
  before them. The status folded from the events of a finished run shows no live input, no
  fallback, no unavailable input and no input error.\<close>

lemma worker_stops_once_and_reports_idle:
  assumes "service_reach svc delay l" "0 < MaxAttempts svc" "in_i64 (MaxAttempts svc)"
  shows "(finished l = None \<longrightarrow> filter is_final (emitted l) = []) \<and>
    (finished l \<noteq> None \<longrightarrow> map Type (filter is_final (emitted l)) = [WorkerStopping, WorkerStopped] \<and>
      (let s = observe_all (emitted l) in
       \<not> snap_InputLive s \<and> \<not> snap_FallbackActive s \<and> \<not> snap_InputUnavailable s \<and> InputError s = NoCode))"
proof -
  have "ends_well l" using service_reach_inv [OF assms] by (simp add: service_inv_def)
  then show ?thesis
    by (auto simp: ends_well_def is_final_def observe_all_def Let_def Observe_def observe_input_def dest_state_of_def
        split: option.splits)
qed

lemma demo_stop: "service_reach demo_service (\<lambda>_. second) (stop demo_service 0 None False demo_loop)"
  by (rule reach_step [OF demo_reach service_step.ctx_done [OF demo_not_finished]])

lemma worker_stops_once_and_reports_idle_witness:
  "map Type (filter is_final (emitted (stop demo_service 0 None False demo_loop))) = [WorkerStopping, WorkerStopped]"
  using worker_stops_once_and_reports_idle [OF demo_stop demo_max] by (simp add: stop_def Let_def)

text \<open>A destination that failed for good is never reconnected by the worker, and keeps its
  failed state over every step of the loop unless the step reports that this destination
  streams again or was stopped.\<close>

lemma failed_destination_not_retried:
  assumes "service_step svc delay l l'" "states l d = Some st" "terminal st"
  shows "count_list (reconnected l') d = count_list (reconnected l) d \<and>
    (states l' d = Some st \<or> (\<exists>es ev. emitted l' = es @ [ev] \<and> revives d ev))"
  using assms(1)
proof cases
  case (retry r d' g w now rerr)
  then show ?thesis
    using handle_retry_terminal [of "l\<lparr>sleeping := remove1 r (sleeping l)\<rparr>" d st] assms by simp
next
  case (runtime now err late e)
  then show ?thesis using handle_event_terminal [OF assms(2,3)] by simp
qed (use assms in simp_all)

definition demo_terminal :: loop where
  "demo_terminal = put_state ''d'' (zero_dest_state\<lparr>terminal := True\<rparr>) demo_loop"

lemma failed_destination_not_retried_witness:
  "count_list (reconnected (handle_event demo_service (\<lambda>_. second) 5 None False demo_error demo_terminal)) ''d'' = 0"
proof -
  have "finished demo_terminal = None" by (simp add: demo_terminal_def demo_not_finished)
  note st = service_step.runtime [OF this, of demo_service "\<lambda>_. second" 5 None False demo_error]
  have "states demo_terminal ''d'' = Some (zero_dest_state\<lparr>terminal := True\<rparr>)" by (simp add: demo_terminal_def)
  from failed_destination_not_retried [OF st this] show ?thesis
    by (simp add: demo_terminal_def demo_loop_def connect_all_def demo_service_def empty_loop_def)
qed

text \<open>A "destination stopped" event forgets the retry counter: whatever the number of attempts
  made before, the next transient error of the destination is attempt 1 again, at the delay of
  attempt 0. The pipeline reports such an event whenever it rebuilds a branch, also for a retry.\<close>

lemma stopped_event_forgets_attempts:
  assumes "0 < MaxAttempts svc" "ClassifyDestinationError (rt_Err e) \<noteq> Permanent" "rt_Type e = RuntimeDestinationError"
    and "rt_Type s = RuntimeDestinationStopped" "rt_DestinationID s = rt_DestinationID e"
  shows "states (handle_event svc delay now err late e (handle_event svc delay now' err' late' s l)) (rt_DestinationID e)
    = Some \<lparr>attempt = 1, generation = rt_Generation e, streamingSince = zero_time, waiting = True, terminal = False\<rparr>"
  using assms
  by (simp add: handle_event_def handle_dest_error_def Let_def ensureState_def zero_dest_state_def in_i64_def)

definition demo_stopped_event :: runtime_event where
  "demo_stopped_event = demo_error\<lparr>rt_Type := RuntimeDestinationStopped\<rparr>"

lemma stopped_event_forgets_attempts_witness:
  "\<exists>st. states (handle_event demo_service (\<lambda>_. second) 9 None False demo_error
     (handle_event demo_service (\<lambda>_. second) 8 None False demo_stopped_event demo_failing)) ''d'' = Some st \<and> attempt st = 1"
proof -
  have "ClassifyDestinationError (rt_Err demo_error) \<noteq> Permanent" using demo_transient by (simp add: demo_error_def)
  from stopped_event_forgets_attempts [OF demo_max(1) this, of demo_stopped_event "\<lambda>_. second" 9 None False 8 None False demo_failing]
  show ?thesis by (simp add: demo_error_def demo_stopped_event_def)
qed

end
