(* ===== verification/Relay_Database.thy ===== *)
theory Relay_Database
  imports Domain_Model
begin

text \<open>
  The tables of the SQLite database that the control plane owns, as far as the modelled statements
  of \<^verbatim>\<open>backend/internal/persistence\<close> and \<^verbatim>\<open>backend/internal/control\<close> use them, and the uniqueness
  constraints of the schema under \<^verbatim>\<open>backend/sqlite-migrations\<close>. A table is a list of rows, in the order
  of insertion. One process owns the database and every transaction is serialized, so an operation of the
  store is a function on the database; a failed transaction leaves it as it was.
\<close>

section \<open>Rows\<close>

record stream_row =
  st_id :: string
  st_account :: string
  st_name :: string
  st_region :: string
  st_enabled :: bool
  st_generation :: int
  st_hash :: string
  st_created :: time
  st_updated :: time

datatype conn_status = Connected | Disconnected | Rejected

record connection_row =
  ic_id :: string
  ic_edge :: string
  ic_connection :: string
  ic_stream :: string
  ic_protocol :: string
  ic_status :: conn_status
  ic_connected_at :: time
  ic_last_seen :: time
  ic_disconnected_at :: "time option"

datatype desired_state = DesiredRunning | DesiredStopped

record session_row =
  ss_id :: string
  ss_stream :: string
  ss_connection :: string
  ss_desired :: desired_state
  ss_phase :: session_phase
  ss_generation :: int
  ss_started :: time
  ss_updated :: time
  ss_ended :: "time option"
  ss_end_reason :: "string option"
  ss_stop_after :: "time option"
  ss_operator_stopped :: bool

datatype allocation_state = AllocPending | AllocStarting | AllocRunning | AllocStopping | AllocStopped | AllocFailed

record allocation_row =
  wa_id :: string
  wa_session :: string
  wa_node :: string
  wa_desired :: desired_state
  wa_state :: allocation_state
  wa_desired_generation :: nat
  wa_observed_generation :: nat
  wa_fence :: nat
  wa_worker :: "string option"
  wa_last_error :: "string option"
  wa_hash :: string
  wa_restarts :: int
  wa_retry_after :: time
  wa_last_healthy :: "time option"
  wa_updated :: time
  wa_fallback_active :: bool
  wa_fallback_forced :: bool
  wa_input_live :: bool
  wa_input_unavailable :: bool
  wa_input_error :: string
  wa_resources :: resource_vector

record destination_row =
  de_id :: string
  de_stream :: string
  de_name :: string
  de_endpoint :: string
  de_key :: string
  de_enabled :: bool
  de_archived :: bool
  de_generation :: int
  de_ciphertext :: string
  de_nonce :: string
  de_updated :: time

record runtime_row =
  dr_allocation :: string
  dr_destination :: string
  dr_state :: string
  dr_generation :: nat
  dr_reconnects :: int
  dr_bytes :: int
  dr_error :: string
  dr_last_seen :: time

datatype media_node_state = NodeActive | NodeDraining | NodeOffline

record media_node_row =
  mn_id :: string
  mn_region :: string
  mn_endpoint :: string
  mn_state :: media_node_state
  mn_capacity :: resource_vector
  mn_last_seen :: time
  mn_generation :: int

record db =
  streams :: "stream_row list"
  connections :: "connection_row list"
  sessions :: "session_row list"
  allocations :: "allocation_row list"
  destinations :: "destination_row list"
  runtimes :: "runtime_row list"
  media_nodes :: "media_node_row list"
  node_fences :: "string list"
  edge_health :: "(string \<times> time) list"
  fence_counter :: nat

section \<open>Conditions that the statements share\<close>

definition session_active :: "session_row \<Rightarrow> bool" where
  "session_active s \<longleftrightarrow> active_phase (ss_phase s)"

definition allocation_active :: "allocation_row \<Rightarrow> bool" where
  "allocation_active a \<longleftrightarrow> wa_state a \<noteq> AllocStopped \<and> wa_state a \<noteq> AllocFailed"

text \<open>The partial unique index \<open>one_active_session_per_stream\<close>.\<close>

definition active_sessions :: "string \<Rightarrow> db \<Rightarrow> nat" where
  "active_sessions st d = count_where (\<lambda>s. ss_stream s = st \<and> session_active s) (sessions d)"

definition publishers :: "string \<Rightarrow> db \<Rightarrow> nat" where
  "publishers st d = count_where (\<lambda>c. ic_stream c = st \<and> ic_status c = Connected) (connections d)"

section \<open>Invariant\<close>

definition connection_of :: "db \<Rightarrow> session_row \<Rightarrow> connection_row \<Rightarrow> bool" where
  "connection_of d s c \<longleftrightarrow> c \<in> set (connections d) \<and> ic_id c = ss_connection s \<and> ic_stream c = ss_stream s"

definition db_inv :: "db \<Rightarrow> bool" where
  "db_inv d \<longleftrightarrow> distinct (map st_id (streams d)) \<and> distinct (map ic_id (connections d)) \<and> distinct (map ss_id (sessions d))
     \<and> distinct (map (\<lambda>c. (ic_edge c, ic_connection c)) (connections d))
     \<and> (\<forall>st. active_sessions st d \<le> 1) \<and> (\<forall>st. publishers st d \<le> 1)
     \<and> (\<forall>s \<in> set (sessions d). \<exists>c. connection_of d s c)"

lemma db_invD:
  assumes "db_inv d"
  shows "distinct (map ic_id (connections d))" "distinct (map ss_id (sessions d))" "distinct (map st_id (streams d))"
    "distinct (map (\<lambda>c. (ic_edge c, ic_connection c)) (connections d))"
    "active_sessions st d \<le> 1" "publishers st d \<le> 1" "s \<in> set (sessions d) \<Longrightarrow> \<exists>c. connection_of d s c"
  using assms by (auto simp: db_inv_def)

lemma distinct_map_inj: "distinct (map f xs) \<Longrightarrow> x \<in> set xs \<Longrightarrow> y \<in> set xs \<Longrightarrow> f x = f y \<Longrightarrow> x = y"
  by (auto simp: distinct_map inj_on_def)

text \<open>Counts of at most one, and updates at one key.\<close>

lemma count_where_le1_unique:
  "count_where P xs \<le> 1 \<Longrightarrow> x \<in> set xs \<Longrightarrow> y \<in> set xs \<Longrightarrow> P x \<Longrightarrow> P y \<Longrightarrow> x = y"
proof (induction xs)
  case (Cons a xs)
  have none: "\<And>z. P a \<Longrightarrow> z \<in> set xs \<Longrightarrow> \<not> P z"
    using Cons.prems(1) count_where_0_iff [of P xs] by (auto split: if_splits)
  show ?case
  proof (cases "P a")
    case True
    then show ?thesis using none Cons.prems by auto
  next
    case False
    then show ?thesis using Cons by auto
  qed
qed simp

lemma count_where_snoc_le1: "count_where P xs = 0 \<Longrightarrow> count_where P (xs @ [x]) \<le> 1"
  by simp

text \<open>Turning on rows that are selected by a key that at most one row has, when no other row is on.\<close>

lemma count_turn_on:
  assumes "distinct (map k xs)" "\<And>r. r \<in> set xs \<Longrightarrow> Q r \<Longrightarrow> k r = v"
    and "\<And>r. k (f r) = k r"
  shows "count_where Q (update_where (\<lambda>r. k r = v) f xs) \<le> 1"
  using assms(1,2)
proof (induction xs)
  case (Cons a xs)
  show ?case
  proof (cases "k a = v")
    case True
    then have none: "\<And>r. r \<in> set xs \<Longrightarrow> k r \<noteq> v" using Cons.prems(1) by (auto simp: image_iff)
    then have "update_where (\<lambda>r. k r = v) f xs = xs" by (intro update_where_none) auto
    moreover have "count_where Q xs = 0"
      unfolding count_where_0_iff using Cons.prems(2) none by auto
    ultimately show ?thesis using True by simp
  next
    case False
    have "count_where Q (update_where (\<lambda>r. k r = v) f xs) \<le> 1"
      using Cons.prems by (intro Cons.IH) auto
    moreover have "\<not> Q a" using Cons.prems(2) [of a] False by auto
    ultimately show ?thesis using False by simp
  qed
qed simp

end
