(* ===== verification/Session_Store.thy ===== *)
theory Session_Store
  imports Relay_Database
begin

text \<open>
  The operations of \<^verbatim>\<open>backend/internal/persistence/store.go\<close>, \<^verbatim>\<open>stop.go\<close> and the fencing counter of
  \<^verbatim>\<open>sqlite.go\<close>. The identifiers that the database generates (\<^verbatim>\<open>uuid()\<close>) are arguments; a collision is refused
  by the primary key, as the schema does. The readings of the clock are arguments.
\<close>

datatype store_error =
    InvalidObservation | NoRows | CredentialChanged | OtherStream | ActivePublisher | Constraint | GenerationConflict
  | ErrSourceConnected | ErrSourceStateUnknown

section \<open>Streams and destinations\<close>

definition CreateStream :: "string \<Rightarrow> time \<Rightarrow> string \<Rightarrow> string \<Rightarrow> string \<Rightarrow> string \<Rightarrow> db \<Rightarrow> (store_error + stream_row) \<times> db" where
  "CreateStream uuid now accountID name region hash d =
     (let v = \<lparr>st_id = uuid, st_account = accountID, st_name = name, st_region = region, st_enabled = True, st_generation = 1,
              st_hash = hash, st_created = now, st_updated = now\<rparr>
      in if list_ex (\<lambda>r. st_id r = uuid \<or> (st_account r = accountID \<and> st_name r = name)) (streams d) then (Inl Constraint, d)
         else (Inr v, d\<lparr>streams := streams d @ [v]\<rparr>))"

definition GetStream :: "string \<Rightarrow> db \<Rightarrow> store_error + stream_row \<times> string" where
  "GetStream i d = (case find (\<lambda>r. st_id r = i) (streams d) of None \<Rightarrow> Inl NoRows | Some r \<Rightarrow> Inr (r, st_hash r))"

definition UpdateStream :: "time \<Rightarrow> string \<Rightarrow> int \<Rightarrow> string \<Rightarrow> bool \<Rightarrow> db \<Rightarrow> (store_error + stream_row) \<times> db" where
  "UpdateStream now i generation name enabled d =
     (let P = (\<lambda>r. st_id r = i \<and> st_generation r = generation);
          f = (\<lambda>r. r\<lparr>st_name := name, st_enabled := enabled, st_generation := st_generation r + 1, st_updated := now\<rparr>)
      in case find P (streams d) of
           None \<Rightarrow> (Inl GenerationConflict, d)
         | Some r \<Rightarrow>
             if list_ex (\<lambda>q. st_id q \<noteq> i \<and> st_account q = st_account r \<and> st_name q = name) (streams d) then (Inl Constraint, d)
             else (Inr (f r), d\<lparr>streams := update_where P f (streams d)\<rparr>))"

definition RetryDestination :: "time \<Rightarrow> string \<Rightarrow> db \<Rightarrow> store_error option \<times> db" where
  "RetryDestination now i d =
     (if count_where (\<lambda>r. de_id r = i) (destinations d) = 0 then (Some NoRows, d)
      else (None, d\<lparr>destinations := update_where (\<lambda>r. de_id r = i)
              (\<lambda>r. r\<lparr>de_generation := de_generation r + 1, de_updated := now\<rparr>) (destinations d)\<rparr>))"

definition DrainNode :: "string \<Rightarrow> db \<Rightarrow> store_error option \<times> db" where
  "DrainNode i d =
     (let P = (\<lambda>r. mn_id r = i \<and> mn_state r \<noteq> NodeOffline \<and> i \<notin> set (node_fences d))
      in if count_where P (media_nodes d) = 0 then (Some NoRows, d)
         else (None, d\<lparr>media_nodes := update_where P (\<lambda>r. r\<lparr>mn_state := NodeDraining, mn_generation := mn_generation r + 1\<rparr>) (media_nodes d)\<rparr>))"

section \<open>The fencing counter\<close>

text \<open>The column is a 64-bit signed integer; the model does not wrap it.\<close>

definition NextFence :: "db \<Rightarrow> nat \<times> db" where
  "NextFence d = (fence_counter d + 1, d\<lparr>fence_counter := fence_counter d + 1\<rparr>)"

definition AdvanceFence :: "nat \<Rightarrow> db \<Rightarrow> nat \<times> db" where
  "AdvanceFence minimum d = (let v = max (fence_counter d) minimum + 1 in (v, d\<lparr>fence_counter := v\<rparr>))"

section \<open>Ingest observations\<close>

definition truncate_ms :: "time \<Rightarrow> time" where
  "truncate_ms t = t - t mod millisecond"

definition set_connection :: "string \<Rightarrow> conn_status \<Rightarrow> time \<Rightarrow> connection_row \<Rightarrow> connection_row" where
  "set_connection edge status seen c = c\<lparr>ic_status := status, ic_last_seen := seen,
     ic_disconnected_at := (if status = Disconnected then Some seen else None)\<rparr>"

definition upsert_connection ::
  "string \<Rightarrow> string \<Rightarrow> string \<Rightarrow> string \<Rightarrow> string \<Rightarrow> conn_status \<Rightarrow> time \<Rightarrow> db \<Rightarrow> (store_error + string) \<times> db" where
  "upsert_connection uuid edge conn stream protocol status seen d =
     (let K = (\<lambda>c. (ic_edge c, ic_connection c) = (edge, conn)) in
      case find K (connections d) of
        Some c \<Rightarrow> (Inr (ic_id c), d\<lparr>connections := update_where K (set_connection edge status seen) (connections d)\<rparr>)
      | None \<Rightarrow>
          if list_ex (\<lambda>c. ic_id c = uuid) (connections d) then (Inl Constraint, d)
          else (Inr uuid, d\<lparr>connections := connections d @ [\<lparr>ic_id = uuid, ic_edge = edge, ic_connection = conn, ic_stream = stream,
                  ic_protocol = protocol, ic_status = status, ic_connected_at = seen, ic_last_seen = seen,
                  ic_disconnected_at = (if status = Disconnected then Some seen else None)\<rparr>]\<rparr>))"

text \<open>\<open>ORDER BY started_at DESC LIMIT 1\<close>: a row with the latest start; SQL leaves the choice among equals open, the
  model takes the first.\<close>

fun latest :: "session_row list \<Rightarrow> session_row option" where
  "latest [] = None"
| "latest (r # rs) = (case latest rs of None \<Rightarrow> Some r | Some q \<Rightarrow> if ss_started q > ss_started r then Some q else Some r)"

definition insert_session :: "string \<Rightarrow> time \<Rightarrow> string \<Rightarrow> string \<Rightarrow> db \<Rightarrow> (store_error + string) \<times> db" where
  "insert_session uuid now stream conn d =
     (if list_ex (\<lambda>s. ss_id s = uuid) (sessions d) \<or> active_sessions stream d > 0 then (Inl Constraint, d)
      else (Inr uuid, d\<lparr>sessions := sessions d @ [\<lparr>ss_id = uuid, ss_stream = stream, ss_connection = conn, ss_desired = DesiredRunning,
              ss_phase = Scheduling, ss_generation = 1, ss_started = now, ss_updated = now, ss_ended = None, ss_end_reason = None,
              ss_stop_after = None, ss_operator_stopped = False\<rparr>]\<rparr>))"

definition attach_session :: "string \<Rightarrow> time \<Rightarrow> string \<Rightarrow> string \<Rightarrow> db \<Rightarrow> (store_error + string) \<times> db" where
  "attach_session uuid now stream conn d =
     (case latest (filter (\<lambda>s. ss_connection s = conn \<and> (ss_operator_stopped s \<or> \<not> session_active s)) (sessions d)) of
        Some s \<Rightarrow> (Inr (ss_id s), d)
      | None \<Rightarrow>
          (let P = (\<lambda>s. ss_stream s = stream \<and> session_active s \<and> \<not> ss_operator_stopped s) in
           case find P (sessions d) of
             Some s \<Rightarrow> (Inr (ss_id s), d\<lparr>sessions :=
                 update_where P (\<lambda>s. s\<lparr>ss_stop_after := None, ss_connection := conn, ss_updated := now\<rparr>) (sessions d)\<rparr>)
           | None \<Rightarrow> insert_session uuid now stream conn d))"

definition detach_session :: "time \<Rightarrow> string \<Rightarrow> string \<Rightarrow> time \<Rightarrow> db \<Rightarrow> string \<times> db" where
  "detach_session now stream conn deadline d =
     (let P = (\<lambda>s. ss_stream s = stream \<and> ss_connection s = conn \<and> session_active s) in
      case find P (sessions d) of
        None \<Rightarrow> ('''', d)
      | Some s \<Rightarrow> (ss_id s, d\<lparr>sessions := update_where P
            (\<lambda>s. s\<lparr>ss_stop_after := (case ss_stop_after s of Some t \<Rightarrow> Some t | None \<Rightarrow> Some deadline), ss_updated := now\<rparr>) (sessions d)\<rparr>))"

text \<open>The transaction of \<open>ObserveIngest\<close>, after the validation of its arguments; \<open>Inl\<close> means a rollback.\<close>

definition observe_tx ::
  "string \<times> string \<Rightarrow> time \<Rightarrow> string \<Rightarrow> string \<Rightarrow> string \<Rightarrow> string \<Rightarrow> bool \<Rightarrow> time \<Rightarrow> duration \<Rightarrow> string option \<Rightarrow> db
    \<Rightarrow> store_error + string \<times> db" where
  "observe_tx uuids now edge conn stream protocol connected seen grace expectedHash d =
     (case find (\<lambda>r. st_id r = stream \<and> st_enabled r) (streams d) of
        None \<Rightarrow> Inl NoRows
      | Some str \<Rightarrow>
          if (case expectedHash of None \<Rightarrow> False | Some h \<Rightarrow> st_hash str \<noteq> h) then Inl CredentialChanged
          else let old = find (\<lambda>c. (ic_edge c, ic_connection c) = (edge, conn)) (connections d) in
          if (case old of None \<Rightarrow> False | Some c \<Rightarrow> ic_stream c \<noteq> stream) then Inl OtherStream
          else if (case old of None \<Rightarrow> False
                   | Some c \<Rightarrow> seen < ic_last_seen c \<or> (seen = ic_last_seen c \<and> ic_status c = Disconnected \<and> connected))
          then Inr ('''', d)
          else if connected \<and> list_ex (\<lambda>c. ic_stream c = stream \<and> ic_status c = Connected \<and> (ic_edge c, ic_connection c) \<noteq> (edge, conn)) (connections d)
          then Inl ActivePublisher
          else case upsert_connection (fst uuids) edge conn stream protocol (if connected then Connected else Disconnected) seen d of
              (Inl e, _) \<Rightarrow> Inl e
            | (Inr cid, d1) \<Rightarrow>
                if connected then (case attach_session (snd uuids) now stream cid d1 of
                    (Inl e, _) \<Rightarrow> Inl e | (Inr sid, d2) \<Rightarrow> Inr (sid, d2))
                else Inr (detach_session now stream cid (seen + grace) d1))"

definition ObserveIngest ::
  "string \<times> string \<Rightarrow> time \<Rightarrow> string \<Rightarrow> string \<Rightarrow> string \<Rightarrow> string \<Rightarrow> bool \<Rightarrow> time \<Rightarrow> duration \<Rightarrow> string option \<Rightarrow> db
    \<Rightarrow> (store_error + string) \<times> db" where
  "ObserveIngest uuids now edge conn stream protocol connected seen grace expectedHash d =
     (if edge = '''' \<or> conn = '''' \<or> (protocol \<noteq> ''srt'' \<and> protocol \<noteq> ''rtmp'') \<or> seen = zero_time \<or> seen > now + 5 * second
      then (Inl InvalidObservation, d)
      else case observe_tx uuids now edge conn stream protocol connected (truncate_ms seen) grace expectedHash d of
          Inl e \<Rightarrow> (Inl e, d)
        | Inr (sid, d') \<Rightarrow> (Inr sid, d'))"

section \<open>Stopping a session\<close>

datatype stop_reason = StopAllowed | SESSION_INACTIVE | SOURCE_STATE_UNKNOWN | SOURCE_CONNECTED

definition edge_fresh :: "time \<Rightarrow> string \<Rightarrow> db \<Rightarrow> bool" where
  "edge_fresh now edge d \<longleftrightarrow> list_ex (\<lambda>(e, t). e = edge \<and> t > now - 10 * second) (edge_health d)"

definition stopReason :: "time \<Rightarrow> string \<Rightarrow> db \<Rightarrow> store_error + stop_reason" where
  "stopReason now i d =
     (case find (\<lambda>s. ss_id s = i) (sessions d) of
        None \<Rightarrow> Inl NoRows
      | Some s \<Rightarrow>
          (case find (\<lambda>c. ic_id c = ss_connection s) (connections d) of
             None \<Rightarrow> Inl NoRows
           | Some ic \<Rightarrow>
               if \<not> session_active s \<or> ss_desired s = DesiredStopped then Inr SESSION_INACTIVE
               else if \<not> edge_fresh now (ic_edge ic) d then Inr SOURCE_STATE_UNKNOWN
               else if list_ex (\<lambda>c. ic_stream c = ss_stream s \<and> ic_status c = Connected) (connections d) then Inr SOURCE_CONNECTED
               else Inr StopAllowed))"

definition StopEligibility :: "time \<Rightarrow> string \<Rightarrow> db \<Rightarrow> bool \<times> (store_error + stop_reason)" where
  "StopEligibility now i d = (let r = stopReason now i d in (r = Inr StopAllowed, r))"

definition StopSession :: "time \<Rightarrow> string \<Rightarrow> db \<Rightarrow> store_error option \<times> db" where
  "StopSession now i d =
     (case find (\<lambda>s. ss_id s = i) (sessions d) of
        None \<Rightarrow> (Some NoRows, d)
      | Some s \<Rightarrow>
          if \<not> list_ex (\<lambda>r. st_id r = ss_stream s) (streams d) then (Some NoRows, d)
          else case stopReason now i d of
              Inl e \<Rightarrow> (Some e, d)
            | Inr SOURCE_CONNECTED \<Rightarrow> (Some ErrSourceConnected, d)
            | Inr SOURCE_STATE_UNKNOWN \<Rightarrow> (Some ErrSourceStateUnknown, d)
            | Inr SESSION_INACTIVE \<Rightarrow> (None, d)
            | Inr StopAllowed \<Rightarrow> (None, d\<lparr>sessions := update_where (\<lambda>s. ss_id s = i)
                (\<lambda>s. s\<lparr>ss_operator_stopped := True, ss_desired := DesiredStopped, ss_phase := Stopping,
                      ss_generation := ss_generation s + 1, ss_updated := now\<rparr>) (sessions d)\<rparr>))"

section \<open>Status\<close>

record session_status =
  sst_session :: session_row
  sst_allocation :: "allocation_row option"
  sst_state :: allocation_state
  sst_last_seen :: time
  sst_destinations :: "(destination_row \<times> runtime_row) list"

text \<open>A session has at most one active allocation (unique index), so the join has at most one row per session.\<close>

definition status_destinations :: "string \<Rightarrow> db \<Rightarrow> (destination_row \<times> runtime_row) list" where
  "status_destinations session d =
     sort_key (de_name \<circ> fst)
       (List.map_filter (\<lambda>r.
          case (find (\<lambda>x. de_id x = dr_destination r \<and> de_enabled x \<and> \<not> de_archived x) (destinations d),
                find (\<lambda>a. wa_id a = dr_allocation r \<and> wa_session a = session \<and> allocation_active a) (allocations d)) of
            (Some x, Some a) \<Rightarrow> Some (x, r) | _ \<Rightarrow> None) (runtimes d))"

definition Status :: "string \<Rightarrow> db \<Rightarrow> store_error + session_status" where
  "Status stream d =
     (case latest (filter (\<lambda>s. ss_stream s = stream) (sessions d)) of
        None \<Rightarrow> Inl NoRows
      | Some s \<Rightarrow>
          (let a = find (\<lambda>a. wa_session a = ss_id s \<and> allocation_active a) (allocations d) in
           Inr \<lparr>sst_session = s, sst_allocation = a,
                sst_state = (case a of None \<Rightarrow> AllocPending | Some x \<Rightarrow> wa_state x),
                sst_last_seen = (case Option.bind a wa_last_healthy of None \<Rightarrow> ss_updated s | Some t \<Rightarrow> t),
                sst_destinations = status_destinations (ss_id s) d\<rparr>))"

section \<open>The invariant is kept\<close>

lemma set_connection_simps [simp]:
  "ic_id (set_connection e st t c) = ic_id c" "ic_stream (set_connection e st t c) = ic_stream c"
  "ic_edge (set_connection e st t c) = ic_edge c" "ic_connection (set_connection e st t c) = ic_connection c"
  "ic_status (set_connection e st t c) = st"
  by (simp_all add: set_connection_def)

lemma update_where_image: "x \<in> set t \<Longrightarrow> P x \<Longrightarrow> f x \<in> set (update_where P f t)"
  by (auto simp: set_update_where)

lemma connection_of_upsert:
  assumes "connection_of d s c" "sessions d' = sessions d" "\<And>c. c \<in> set (connections d) \<Longrightarrow> \<exists>c' \<in> set (connections d'). ic_id c' = ic_id c \<and> ic_stream c' = ic_stream c"
  shows "\<exists>c. connection_of d' s c"
  using assms by (fastforce simp: connection_of_def)

lemma publishers_update:
  assumes "db_inv d" "\<And>c. c \<in> set (connections d) \<Longrightarrow> (ic_edge c, ic_connection c) = (e, n) \<Longrightarrow> ic_stream c = stream"
    and "status = Connected \<Longrightarrow> (\<And>c. c \<in> set (connections d) \<Longrightarrow> ic_stream c = stream \<Longrightarrow> ic_status c = Connected \<Longrightarrow>
          (ic_edge c, ic_connection c) = (e, n))"
  shows "count_where (\<lambda>c. ic_stream c = st \<and> ic_status c = Connected)
    (update_where (\<lambda>c. (ic_edge c, ic_connection c) = (e, n)) (set_connection e status t) (connections d)) \<le> 1"
proof (cases "st = stream \<and> status = Connected")
  case True
  then show ?thesis
    using db_invD(4) [OF assms(1)] assms(3)
    by (intro count_turn_on [where k = "\<lambda>c. (ic_edge c, ic_connection c)" and v = "(e, n)"]) auto
next
  case False
  have "count_where (\<lambda>c. ic_stream c = st \<and> ic_status c = Connected)
      (update_where (\<lambda>c. (ic_edge c, ic_connection c) = (e, n)) (set_connection e status t) (connections d))
      \<le> count_where (\<lambda>c. ic_stream c = st \<and> ic_status c = Connected) (connections d)"
    using False assms(2) by (intro count_update_where_le) auto
  also have "\<dots> \<le> 1" using db_invD(6) [OF assms(1), of st] by (simp add: publishers_def)
  finally show ?thesis .
qed

lemma upsert_inv:
  assumes inv: "db_inv d" and up: "upsert_connection uuid e n stream protocol status t d = (Inr cid, d1)"
    and own: "\<And>c. c \<in> set (connections d) \<Longrightarrow> (ic_edge c, ic_connection c) = (e, n) \<Longrightarrow> ic_stream c = stream"
    and only: "status = Connected \<Longrightarrow> (\<And>c. c \<in> set (connections d) \<Longrightarrow> ic_stream c = stream \<Longrightarrow> ic_status c = Connected \<Longrightarrow>
          (ic_edge c, ic_connection c) = (e, n))"
  shows "db_inv d1 \<and> sessions d1 = sessions d \<and> (\<exists>c \<in> set (connections d1). ic_id c = cid \<and> ic_stream c = stream)"
proof (cases "find (\<lambda>c. (ic_edge c, ic_connection c) = (e, n)) (connections d)")
  case (Some c)
  let ?K = "\<lambda>c. (ic_edge c, ic_connection c) = (e, n)"
  let ?cs = "update_where ?K (set_connection e status t) (connections d)"
  have c: "c \<in> set (connections d)" "?K c" using find_Some_iff_hd [OF Some] by auto
  have d1: "d1 = d\<lparr>connections := ?cs\<rparr>" "cid = ic_id c"
    using up Some by (simp_all add: upsert_connection_def Let_def)
  have ids: "map ic_id ?cs = map ic_id (connections d)"
    and keys: "map (\<lambda>c. (ic_edge c, ic_connection c)) ?cs = map (\<lambda>c. (ic_edge c, ic_connection c)) (connections d)"
    by (rule map_update_where, simp)+
  have keep: "\<exists>c' \<in> set ?cs. ic_id c' = ic_id x \<and> ic_stream c' = ic_stream x" if "x \<in> set (connections d)" for x
    using that unfolding set_update_where by (intro bexI [of _ "if ?K x then set_connection e status t x else x"]) auto
  have refs: "\<exists>c. connection_of d1 s c" if "s \<in> set (sessions d)" for s
    using db_invD(7) [OF inv that] connection_of_upsert [of d s _ d1] keep d1 by auto
  have "count_where (\<lambda>c. ic_stream c = st \<and> ic_status c = Connected) ?cs \<le> 1" for st
    by (rule publishers_update [OF inv, where stream = stream]; fact own only)
  then have "publishers st d1 \<le> 1" for st by (simp add: publishers_def d1)
  moreover have "active_sessions st d1 = active_sessions st d" for st by (simp add: active_sessions_def d1)
  ultimately have "db_inv d1"
    using inv ids keys refs by (simp add: db_inv_def d1)
  moreover have "set_connection e status t c \<in> set (connections d1)"
    using update_where_image [of c "connections d" ?K] c d1 by simp
  ultimately show ?thesis using own [OF c] d1 by (metis db.select_convs(3) db.surjective db.update_convs(2) set_connection_simps(1,2))
next
  case None
  then have fresh: "\<And>c. c \<in> set (connections d) \<Longrightarrow> (ic_edge c, ic_connection c) \<noteq> (e, n)"
    by (simp add: find_None_set)
  define new where "new = \<lparr>ic_id = uuid, ic_edge = e, ic_connection = n, ic_stream = stream,
      ic_protocol = protocol, ic_status = status, ic_connected_at = t, ic_last_seen = t,
      ic_disconnected_at = (if status = Disconnected then Some t else None)\<rparr>"
  have new: "d1 = d\<lparr>connections := connections d @ [new]\<rparr>" "cid = uuid" "uuid \<notin> ic_id ` set (connections d)"
    "ic_id new = uuid" "ic_edge new = e" "ic_connection new = n" "ic_stream new = stream" "ic_status new = status"
    using up None by (auto simp: upsert_connection_def Let_def list_ex_iff new_def split: if_splits)
  have "publishers st d1 \<le> 1" for st
  proof (cases "st = stream \<and> status = Connected")
    case True
    then have "publishers st d = 0"
      unfolding publishers_def count_where_0_iff using only fresh by blast
    then show ?thesis using new by (simp add: publishers_def)
  next
    case False
    then have "publishers st d1 = publishers st d" using new by (auto simp: publishers_def)
    then show ?thesis using db_invD(6) [OF inv] by simp
  qed
  moreover have "active_sessions st d1 = active_sessions st d" for st by (simp add: active_sessions_def new)
  moreover have "\<exists>c. connection_of d1 s c" if "s \<in> set (sessions d)" for s
    using db_invD(7) [OF inv that] connection_of_upsert [of d s _ d1] new by auto
  moreover have "(e, n) \<notin> (\<lambda>c. (ic_edge c, ic_connection c)) ` set (connections d)" using fresh by fastforce
  ultimately have "db_inv d1"
    using inv new by (simp add: db_inv_def)
  then show ?thesis using new by simp
qed

lemma latest_None: "latest xs = None \<longleftrightarrow> xs = []"
  by (cases xs) (auto split: option.splits)

lemma latest_mem: "latest xs = Some x \<Longrightarrow> x \<in> set xs"
  by (induction xs arbitrary: x) (auto split: option.splits if_splits)

text \<open>An update of sessions that keeps identity, stream and activity, and leaves or moves them to a
  connection of the same stream.\<close>

lemma update_sessions_inv:
  assumes inv: "db_inv d" and keep: "\<And>s. ss_id (f s) = ss_id s \<and> ss_stream (f s) = ss_stream s"
    and act: "\<And>s. P s \<Longrightarrow> session_active (f s) \<Longrightarrow> session_active s"
    and conn: "\<And>s. s \<in> set (sessions d) \<Longrightarrow> P s \<Longrightarrow>
      ss_connection (f s) = ss_connection s \<or> (\<exists>c \<in> set (connections d). ic_id c = ss_connection (f s) \<and> ic_stream c = ss_stream s)"
  shows "db_inv (d\<lparr>sessions := update_where P f (sessions d)\<rparr>)"
proof -
  let ?d = "d\<lparr>sessions := update_where P f (sessions d)\<rparr>"
  have ids: "map ss_id (update_where P f (sessions d)) = map ss_id (sessions d)"
    using keep by (intro map_update_where) simp
  have "active_sessions st ?d \<le> active_sessions st d" for st
    unfolding active_sessions_def using keep act by (auto intro: count_update_where_le)
  then have "active_sessions st ?d \<le> 1" for st using db_invD(5) [OF inv, of st] by (meson order_trans)
  moreover have "\<exists>c. connection_of ?d s c" if s: "s \<in> set (update_where P f (sessions d))" for s
  proof -
    from s obtain r where r: "r \<in> set (sessions d)" "s = (if P r then f r else r)" by (auto simp: set_update_where)
    from db_invD(7) [OF inv r(1)] obtain c where "connection_of d r c" by blast
    then show ?thesis using r keep [of r] conn [of r] by (cases "P r") (fastforce simp: connection_of_def)+
  qed
  ultimately show ?thesis using inv ids by (auto simp: db_inv_def publishers_def)
qed

lemma insert_session_inv:
  assumes "db_inv d" "insert_session uuid now stream cid d = (res, d')"
    and "\<exists>c \<in> set (connections d). ic_id c = cid \<and> ic_stream c = stream"
  shows "db_inv d'"
proof (cases res)
  case (Inl e)
  then show ?thesis using assms by (auto simp: insert_session_def split: if_splits)
next
  case (Inr sid)
  define new where "new = \<lparr>ss_id = uuid, ss_stream = stream, ss_connection = cid, ss_desired = DesiredRunning,
     ss_phase = Scheduling, ss_generation = 1, ss_started = now, ss_updated = now, ss_ended = None, ss_end_reason = None,
     ss_stop_after = None, ss_operator_stopped = False\<rparr>"
  have d': "d' = d\<lparr>sessions := sessions d @ [new]\<rparr>" "uuid \<notin> ss_id ` set (sessions d)" "active_sessions stream d = 0"
    using assms(2) Inr by (auto simp: insert_session_def list_ex_iff new_def split: if_splits)
  have "active_sessions st d' \<le> 1" for st
    using d' db_invD(5) [OF assms(1), of st] by (auto simp: active_sessions_def new_def)
  moreover have "\<exists>c. connection_of d' s c" if "s \<in> set (sessions d')" for s
    using that db_invD(7) [OF assms(1), of s] assms(3) d' by (auto simp: connection_of_def new_def)
  ultimately show ?thesis
    using assms(1) d' by (auto simp: db_inv_def publishers_def new_def)
qed

lemma attach_session_inv:
  assumes "db_inv d" "attach_session uuid now stream cid d = (res, d')"
    and "\<exists>c \<in> set (connections d). ic_id c = cid \<and> ic_stream c = stream"
  shows "db_inv d'"
proof -
  let ?P = "\<lambda>s. ss_stream s = stream \<and> session_active s \<and> \<not> ss_operator_stopped s"
  let ?f = "\<lambda>s. s\<lparr>ss_stop_after := None, ss_connection := cid, ss_updated := now\<rparr>"
  have "db_inv (d\<lparr>sessions := update_where ?P ?f (sessions d)\<rparr>)"
    using assms(3) by (intro update_sessions_inv [OF assms(1)]) (auto simp: session_active_def)
  then show ?thesis
    using assms insert_session_inv [OF assms(1) _ assms(3)]
    by (auto simp: attach_session_def Let_def split: option.splits)
qed

lemma detach_session_inv: "db_inv d \<Longrightarrow> db_inv (snd (detach_session now stream cid t d))"
  by (auto simp: detach_session_def Let_def session_active_def split: option.splits intro!: update_sessions_inv)

lemma observe_tx_inv:
  assumes inv: "db_inv d" and tx: "observe_tx uuids now e n stream protocol connected seen grace h d = Inr (sid, d')"
  shows "db_inv d'"
proof -
  let ?K = "\<lambda>c. (ic_edge c, ic_connection c) = (e, n)"
  let ?st = "if connected then Connected else Disconnected"
  obtain r d1 where up: "upsert_connection (fst uuids) e n stream protocol ?st seen d = (r, d1)" by force
  note tx' = tx [unfolded observe_tx_def Let_def up]
  have own: "ic_stream c = stream" if "c \<in> set (connections d)" "?K c" "\<not> (case find ?K (connections d) of None \<Rightarrow> False | Some c \<Rightarrow> ic_stream c \<noteq> stream)" for c
  proof -
    from that obtain c' where "find ?K (connections d) = Some c'" by (cases "find ?K (connections d)") (auto simp: find_None_set)
    moreover from find_Some_iff_hd [OF this] have "c' = c"
      using distinct_map_inj [OF db_invD(4) [OF inv]] that by auto
    ultimately show ?thesis using that(3) by simp
  qed
  show ?thesis
  proof (cases r)
    case (Inl err)
    then show ?thesis using tx' inv by (auto split: option.splits if_splits)
  next
    case (Inr cid)
    note up' = up [unfolded Inr]
    have up_inv: "db_inv d1 \<and> sessions d1 = sessions d \<and> (\<exists>c \<in> set (connections d1). ic_id c = cid \<and> ic_stream c = stream)"
      if "\<not> (case find ?K (connections d) of None \<Rightarrow> False | Some c \<Rightarrow> ic_stream c \<noteq> stream)"
        "\<not> (connected \<and> list_ex (\<lambda>c. ic_stream c = stream \<and> ic_status c = Connected \<and> (ic_edge c, ic_connection c) \<noteq> (e, n)) (connections d))"
    proof (rule upsert_inv [OF inv up'])
      fix c assume "c \<in> set (connections d)" "?K c"
      then show "ic_stream c = stream" using own that(1) by blast
    next
      fix c assume "?st = Connected" "c \<in> set (connections d)" "ic_stream c = stream" "ic_status c = Connected"
      then show "?K c" using that(2) by (auto simp: list_ex_iff split: if_splits)
    qed
    show ?thesis
    proof (cases "attach_session (snd uuids) now stream cid d1")
      case (Pair x d2)
      have "db_inv d2 \<and> db_inv (snd (detach_session now stream cid (seen + grace) d1))"
        if "\<not> (case find ?K (connections d) of None \<Rightarrow> False | Some c \<Rightarrow> ic_stream c \<noteq> stream)"
          "\<not> (connected \<and> list_ex (\<lambda>c. ic_stream c = stream \<and> ic_status c = Connected \<and> (ic_edge c, ic_connection c) \<noteq> (e, n)) (connections d))"
        using up_inv [OF that] attach_session_inv [OF _ Pair] detach_session_inv by blast
      then show ?thesis
        using tx' Inr Pair inv by (auto split: option.splits if_splits sum.splits)
    qed
  qed
qed

lemma ObserveIngest_inv: "db_inv d \<Longrightarrow> db_inv (snd (ObserveIngest uuids now e n stream protocol connected seen grace h d))"
  using observe_tx_inv [of d uuids now e n stream protocol connected "truncate_ms seen" grace h]
  by (auto simp: ObserveIngest_def split: sum.splits prod.splits)

lemma StopSession_inv: "db_inv d \<Longrightarrow> db_inv (snd (StopSession now i d))"
proof -
  assume inv: "db_inv d"
  let ?f = "\<lambda>s. s\<lparr>ss_operator_stopped := True, ss_desired := DesiredStopped, ss_phase := Stopping,
                      ss_generation := ss_generation s + 1, ss_updated := now\<rparr>"
  have upd: "db_inv (d\<lparr>sessions := update_where (\<lambda>s. ss_id s = i) ?f (sessions d)\<rparr>)"
    if f: "find (\<lambda>s. ss_id s = i) (sessions d) = Some s" and a: "session_active s" for s
  proof -
    from find_Some_iff_hd [OF f] have s: "s \<in> set (sessions d)" "ss_id s = i" by auto
    then have only: "\<And>r. r \<in> set (sessions d) \<Longrightarrow> ss_id r = i \<Longrightarrow> r = s"
      using distinct_map_inj [OF db_invD(2) [OF inv]] by blast
    have "update_where (\<lambda>s. ss_id s = i) ?f (sessions d) = update_where (\<lambda>s. ss_id s = i \<and> session_active s) ?f (sessions d)"
      unfolding update_where_def using only a by (intro map_cong) auto
    moreover have "db_inv (d\<lparr>sessions := update_where (\<lambda>s. ss_id s = i \<and> session_active s) ?f (sessions d)\<rparr>)"
      by (rule update_sessions_inv [OF inv]) auto
    ultimately show ?thesis by simp
  qed
  show ?thesis
    using inv upd by (auto simp: StopSession_def stopReason_def split: option.splits if_splits)
qed

lemma streams_inv:
  assumes "db_inv d" "distinct (map st_id ss)"
  shows "db_inv (d\<lparr>streams := ss\<rparr>)"
  using assms by (simp add: db_inv_def active_sessions_def publishers_def connection_of_def)

lemma CreateStream_inv: "db_inv d \<Longrightarrow> db_inv (snd (CreateStream u now a name region hash d))"
  by (auto simp: CreateStream_def Let_def list_ex_iff db_invD(3) intro!: streams_inv)

lemma UpdateStream_inv: "db_inv d \<Longrightarrow> db_inv (snd (UpdateStream now i g name enabled d))"
  by (auto simp: UpdateStream_def Let_def map_update_where db_invD(3) split: option.splits intro!: streams_inv)

lemma other_tables_inv [simp]:
  "db_inv (d\<lparr>destinations := x1\<rparr>) = db_inv d" "db_inv (d\<lparr>media_nodes := x2\<rparr>) = db_inv d"
  "db_inv (d\<lparr>fence_counter := x3\<rparr>) = db_inv d" "db_inv (d\<lparr>allocations := x4\<rparr>) = db_inv d"
  "db_inv (d\<lparr>runtimes := x5\<rparr>) = db_inv d" "db_inv (d\<lparr>edge_health := x6\<rparr>) = db_inv d"
  by (simp_all add: db_inv_def active_sessions_def publishers_def connection_of_def)

inductive store_step :: "db \<Rightarrow> db \<Rightarrow> bool" where
  observed: "store_step d (snd (ObserveIngest uuids now e n stream protocol connected seen grace h d))"
| stopped: "store_step d (snd (StopSession now i d))"
| created: "store_step d (snd (CreateStream u now a name region hash d))"
| updated: "store_step d (snd (UpdateStream now i g name enabled d))"
| retried: "store_step d (snd (RetryDestination now i d))"
| drained: "store_step d (snd (DrainNode i d))"
| fenced: "store_step d (snd (NextFence d))"
| advanced: "store_step d (snd (AdvanceFence minimum d))"

definition empty_db :: db where
  "empty_db = \<lparr>streams = [], connections = [], sessions = [], allocations = [], destinations = [], runtimes = [], media_nodes = [],
     node_fences = [], edge_health = [], fence_counter = 0\<rparr>"

inductive store_reach :: "db \<Rightarrow> bool" where
  store_init: "store_reach empty_db"
| store_next: "store_reach d \<Longrightarrow> store_step d d' \<Longrightarrow> store_reach d'"

lemma store_step_inv: "store_step d d' \<Longrightarrow> db_inv d \<Longrightarrow> db_inv d'"
  by (induction rule: store_step.induct)
    (auto simp: RetryDestination_def DrainNode_def NextFence_def AdvanceFence_def Let_def
      intro: ObserveIngest_inv StopSession_inv CreateStream_inv UpdateStream_inv)

lemma empty_db_inv: "db_inv empty_db"
  by (simp add: empty_db_def db_inv_def active_sessions_def publishers_def)

lemma store_reach_inv: "store_reach d \<Longrightarrow> db_inv d"
  by (induction rule: store_reach.induct) (auto intro: empty_db_inv store_step_inv)

lemma upsert_fence: "fence_counter (snd (upsert_connection u e n st p status t d)) = fence_counter d"
  by (auto simp: upsert_connection_def Let_def split: option.splits)

lemma attach_fence: "fence_counter (snd (attach_session u now st cid d)) = fence_counter d"
  by (auto simp: attach_session_def insert_session_def Let_def split: option.splits)

lemma detach_fence: "fence_counter (snd (detach_session now st cid t d)) = fence_counter d"
  by (auto simp: detach_session_def Let_def split: option.splits)

lemma observe_tx_fence:
  assumes "observe_tx uuids now e n stream protocol connected seen grace h d = Inr (sid, d')"
  shows "fence_counter d' = fence_counter d"
proof -
  obtain r d1 where up: "upsert_connection (fst uuids) e n stream protocol (if connected then Connected else Disconnected) seen d = (r, d1)" by force
  have d1: "fence_counter d1 = fence_counter d" using upsert_fence [of "fst uuids" e n stream protocol _ seen d] up by (metis snd_conv)
  show ?thesis
    using assms d1 attach_fence [of "snd uuids" now stream _ d1] detach_fence [of now stream _ "seen + grace" d1]
    unfolding observe_tx_def Let_def up
    by (auto split: option.splits if_splits sum.splits prod.splits) (metis snd_conv)+
qed

lemma store_fence_frame [simp]:
  "fence_counter (snd (ObserveIngest uuids now e n stream protocol connected seen grace h d)) = fence_counter d"
  "fence_counter (snd (StopSession now i d)) = fence_counter d"
  "fence_counter (snd (CreateStream u now a name region hash d)) = fence_counter d"
  "fence_counter (snd (UpdateStream now i g name enabled d)) = fence_counter d"
  "fence_counter (snd (RetryDestination now i d)) = fence_counter d"
  "fence_counter (snd (DrainNode i d)) = fence_counter d"
  using observe_tx_fence
  by (auto simp: ObserveIngest_def StopSession_def CreateStream_def UpdateStream_def RetryDestination_def DrainNode_def Let_def
      split: option.splits sum.splits prod.splits stop_reason.splits)

section \<open>Properties\<close>

text \<open>C37: In every database that the operations of the store produce from the empty one, a stream has at
  most one connected publisher and at most one session that has not ended, and every session
  belongs to a recorded connection of its own stream.\<close>

theorem one_publisher_one_session:
  assumes "store_reach d"
  shows "publishers st d \<le> 1 \<and> active_sessions st d \<le> 1 \<and> (\<forall>s \<in> set (sessions d). \<exists>c. connection_of d s c)"
  using db_invD(5-7) [OF store_reach_inv [OF assms]] by blast

definition demo_db1 :: db where
  "demo_db1 = snd (CreateStream ''st'' 0 ''acc'' ''main'' ''eu'' ''hash'' empty_db)"

definition demo_db2 :: db where
  "demo_db2 = snd (ObserveIngest (''c1'', ''s1'') second ''edge'' ''conn'' ''st'' ''srt'' True second second None demo_db1)"

lemma demo_reach_db2: "store_reach demo_db2"
  unfolding demo_db2_def demo_db1_def by (rule store_next [OF store_next [OF store_init created] observed])

lemma demo_db2_eq:
  "connections demo_db2 = [\<lparr>ic_id = ''c1'', ic_edge = ''edge'', ic_connection = ''conn'', ic_stream = ''st'', ic_protocol = ''srt'',
     ic_status = Connected, ic_connected_at = second, ic_last_seen = second, ic_disconnected_at = None\<rparr>]"
  "sessions demo_db2 = [\<lparr>ss_id = ''s1'', ss_stream = ''st'', ss_connection = ''c1'', ss_desired = DesiredRunning,
     ss_phase = Scheduling, ss_generation = 1, ss_started = second, ss_updated = second, ss_ended = None, ss_end_reason = None,
     ss_stop_after = None, ss_operator_stopped = False\<rparr>]"
  by (simp_all add: demo_db2_def demo_db1_def ObserveIngest_def observe_tx_def CreateStream_def Let_def empty_db_def
      second_def zero_time_def truncate_ms_def millisecond_def upsert_connection_def attach_session_def insert_session_def
      active_sessions_def)

theorem one_publisher_one_session_witness:
  "publishers ''st'' demo_db2 \<le> 1 \<and> length (sessions demo_db2) = 1"
  using one_publisher_one_session [OF demo_reach_db2, of "''st''"] by (simp add: demo_db2_eq)

text \<open>A session is stopped by the operator only when its source is known to be gone: the stop changes the
  database only if the session is active and wanted, the edge of its connection was observed
  within the last ten seconds, and no connection of the stream is admitted. The stopped session
  is then marked stopped, with a new generation.\<close>

lemma StopSession_needs_disconnected_source:
  assumes "db_inv d" "StopSession now i d = (None, d')" "d' \<noteq> d"
  shows "publishers (ss_stream (the (find (\<lambda>s. ss_id s = i) (sessions d)))) d = 0
    \<and> (\<exists>s ic. s \<in> set (sessions d) \<and> ss_id s = i \<and> session_active s \<and> ss_desired s = DesiredRunning
         \<and> connection_of d s ic \<and> edge_fresh now (ic_edge ic) d)
    \<and> (\<exists>s' \<in> set (sessions d'). ss_id s' = i \<and> ss_operator_stopped s' \<and> ss_phase s' = Stopping \<and> ss_desired s' = DesiredStopped)"
proof -
  from assms(2,3) obtain s ic where s: "find (\<lambda>s. ss_id s = i) (sessions d) = Some s"
    and ic: "find (\<lambda>c. ic_id c = ss_connection s) (connections d) = Some ic"
    and g: "session_active s" "ss_desired s \<noteq> DesiredStopped" "edge_fresh now (ic_edge ic) d"
      "\<not> list_ex (\<lambda>c. ic_stream c = ss_stream s \<and> ic_status c = Connected) (connections d)"
    and d': "d' = d\<lparr>sessions := update_where (\<lambda>s. ss_id s = i)
                (\<lambda>s. s\<lparr>ss_operator_stopped := True, ss_desired := DesiredStopped, ss_phase := Stopping,
                      ss_generation := ss_generation s + 1, ss_updated := now\<rparr>) (sessions d)\<rparr>"
    by (auto simp: StopSession_def stopReason_def split: option.splits if_splits)
  have sm: "s \<in> set (sessions d)" "ss_id s = i" using find_Some_iff_hd [OF s] by auto
  have icm: "ic \<in> set (connections d)" "ic_id ic = ss_connection s" using find_Some_iff_hd [OF ic] by auto
  from db_invD(7) [OF assms(1) sm(1)] obtain c where c: "connection_of d s c" by blast
  then have "c = ic" using icm distinct_map_inj [OF db_invD(1) [OF assms(1)]] by (auto simp: connection_of_def)
  with c have conn: "connection_of d s ic" by simp
  have "publishers (ss_stream s) d = 0"
    using g(4) by (auto simp: publishers_def count_where_0_iff list_ex_iff)
  moreover have "ss_desired s = DesiredRunning" using g(2) by (cases "ss_desired s") auto
  moreover have "\<exists>s' \<in> set (sessions d'). ss_id s' = i \<and> ss_operator_stopped s' \<and> ss_phase s' = Stopping \<and> ss_desired s' = DesiredStopped"
    using sm unfolding d' by (auto intro!: bexI [OF _ update_where_image [of s]])
  ultimately show ?thesis using s sm g conn by auto
qed

definition demo_db3 :: db where
  "demo_db3 = (snd (ObserveIngest (''c2'', ''s2'') (2 * second) ''edge'' ''conn'' ''st'' ''srt'' False (2 * second) second None demo_db2))
     \<lparr>edge_health := [(''edge'', 2 * second)]\<rparr>"

lemma demo_db2_streams: "streams demo_db2 = streams demo_db1"
  by (simp add: demo_db2_def demo_db1_def ObserveIngest_def observe_tx_def CreateStream_def Let_def empty_db_def
      second_def zero_time_def truncate_ms_def millisecond_def upsert_connection_def attach_session_def insert_session_def
      active_sessions_def)

lemma demo_db3_eq:
  "connections demo_db3 = [\<lparr>ic_id = ''c1'', ic_edge = ''edge'', ic_connection = ''conn'', ic_stream = ''st'', ic_protocol = ''srt'',
     ic_status = Disconnected, ic_connected_at = second, ic_last_seen = 2 * second, ic_disconnected_at = Some (2 * second)\<rparr>]"
  "sessions demo_db3 = [\<lparr>ss_id = ''s1'', ss_stream = ''st'', ss_connection = ''c1'', ss_desired = DesiredRunning,
     ss_phase = Scheduling, ss_generation = 1, ss_started = second, ss_updated = 2 * second, ss_ended = None, ss_end_reason = None,
     ss_stop_after = Some (3 * second), ss_operator_stopped = False\<rparr>]"
  "streams demo_db3 = streams demo_db1" "edge_health demo_db3 = [(''edge'', 2 * second)]"
  by (simp_all add: demo_db3_def demo_db2_eq demo_db2_streams ObserveIngest_def observe_tx_def Let_def demo_db1_def CreateStream_def empty_db_def
      second_def zero_time_def truncate_ms_def millisecond_def upsert_connection_def detach_session_def set_connection_def
      session_active_def active_phase_def)

lemma demo_db3_inv: "db_inv demo_db3"
  unfolding demo_db3_def by (simp add: ObserveIngest_inv store_reach_inv [OF demo_reach_db2])

lemma StopSession_needs_disconnected_source_witness:
  "\<exists>d'. StopSession (2 * second) ''s1'' demo_db3 = (None, d') \<and> publishers ''st'' demo_db3 = 0"
proof -
  obtain d' where d': "StopSession (2 * second) ''s1'' demo_db3 = (None, d')" and ne: "sessions d' \<noteq> sessions demo_db3"
    by (auto simp: StopSession_def stopReason_def demo_db3_eq demo_db1_def CreateStream_def empty_db_def Let_def session_active_def
        active_phase_def edge_fresh_def second_def)
  from ne have "d' \<noteq> demo_db3" by auto
  from StopSession_needs_disconnected_source [OF demo_db3_inv d' this] d' show ?thesis by (auto simp: demo_db3_eq)
qed

text \<open>A publisher whose session the operator stopped, or whose session ended, cannot start another one on
  the same connection: an observation that it is connected leaves all sessions as they are.\<close>

lemma stopped_publisher_gets_no_session:
  assumes "db_inv d" "c \<in> set (connections d)" "ic_edge c = e" "ic_connection c = n"
    and "s \<in> set (sessions d)" "ss_connection s = ic_id c" "ss_operator_stopped s \<or> \<not> session_active s"
  shows "sessions (snd (ObserveIngest uuids now e n stream protocol True seen grace h d)) = sessions d"
proof -
  let ?K = "\<lambda>c. (ic_edge c, ic_connection c) = (e, n)"
  have f: "find ?K (connections d) = Some c"
  proof -
    obtain c' where c': "find ?K (connections d) = Some c'"
      using assms(2-4) by (cases "find ?K (connections d)") (auto simp: find_None_set)
    from find_Some_iff_hd [OF this] assms(2-4) have "c' = c"
      using distinct_map_inj [OF db_invD(4) [OF assms(1)], of c' c] by auto
    with c' show ?thesis by simp
  qed
  obtain d1 where up: "upsert_connection (fst uuids) e n stream protocol Connected (truncate_ms seen) d = (Inr (ic_id c), d1)"
    and d1: "sessions d1 = sessions d"
    using f by (auto simp: upsert_connection_def Let_def)
  have "latest (filter (\<lambda>s. ss_connection s = ic_id c \<and> (ss_operator_stopped s \<or> \<not> session_active s)) (sessions d)) \<noteq> None"
    unfolding latest_None using assms(5-7) by (auto simp: filter_empty_conv)
  then obtain q where "attach_session (snd uuids) now stream (ic_id c) d1 = (Inr q, d1)"
    using d1 by (auto simp: attach_session_def)
  then show ?thesis
    using up d1 by (auto simp: ObserveIngest_def observe_tx_def Let_def split: option.splits if_splits sum.splits prod.splits)
qed

definition demo_db4 :: db where
  "demo_db4 = demo_db3\<lparr>sessions := update_where (\<lambda>s. ss_id s = ''s1'') (\<lambda>s. s\<lparr>ss_operator_stopped := True, ss_phase := Ended\<rparr>) (sessions demo_db3)\<rparr>"

lemma stopped_publisher_gets_no_session_witness:
  "length (sessions (snd (ObserveIngest (''c9'', ''s9'') (3 * second) ''edge'' ''conn'' ''st'' ''srt'' True (3 * second) second None demo_db4))) = 1"
proof -
  have "db_inv demo_db4"
    unfolding demo_db4_def by (rule update_sessions_inv [OF demo_db3_inv]) (auto simp: session_active_def active_phase_def)
  then show ?thesis
    using stopped_publisher_gets_no_session [of demo_db4 "hd (connections demo_db4)" "''edge''" "''conn''" "hd (sessions demo_db4)"]
    by (simp add: demo_db4_def demo_db3_eq)
qed

text \<open>An observation of a connection that is older than what is recorded of it has no effect, whatever it says.\<close>

lemma stale_observation_ignored:
  assumes "db_inv d" "c \<in> set (connections d)" "ic_edge c = e" "ic_connection c = n" "truncate_ms seen < ic_last_seen c"
  shows "snd (ObserveIngest uuids now e n stream protocol connected seen grace h d) = d"
proof -
  let ?K = "\<lambda>c. (ic_edge c, ic_connection c) = (e, n)"
  obtain c' where c': "find ?K (connections d) = Some c'"
    using assms(2-4) by (cases "find ?K (connections d)") (auto simp: find_None_set)
  from find_Some_iff_hd [OF this] assms(2-4) have "c' = c"
    using distinct_map_inj [OF db_invD(4) [OF assms(1)], of c' c] by auto
  with c' assms(5) show ?thesis
    by (auto simp: ObserveIngest_def observe_tx_def Let_def split: option.splits)
qed

lemma stale_observation_ignored_witness:
  "snd (ObserveIngest (''c9'', ''s9'') (3 * second) ''edge'' ''conn'' ''st'' ''srt'' True second second None demo_db3) = demo_db3"
  using stale_observation_ignored [OF demo_db3_inv, of "hd (connections demo_db3)" "''edge''" "''conn''" second]
  by (simp add: demo_db3_eq truncate_ms_def second_def millisecond_def)

text \<open>Updates of a stream are optimistic: an update succeeds only against the current generation and raises it
  by one, so of two updates made against the same generation the second one fails and changes nothing.\<close>

lemma UpdateStream_detects_conflict:
  assumes "db_inv d" "UpdateStream now i g name enabled d = (Inr r, d')"
  shows "st_generation r = g + 1 \<and> UpdateStream now' i g name' enabled' d' = (Inl GenerationConflict, d')"
proof -
  let ?P = "\<lambda>r. st_id r = i \<and> st_generation r = g"
  let ?f = "\<lambda>r. r\<lparr>st_name := name, st_enabled := enabled, st_generation := st_generation r + 1, st_updated := now\<rparr>"
  from assms(2) obtain q where q: "find ?P (streams d) = Some q" "r = ?f q" "d' = d\<lparr>streams := update_where ?P ?f (streams d)\<rparr>"
    by (auto simp: UpdateStream_def Let_def split: option.splits if_splits)
  from find_Some_iff_hd [OF q(1)] have qm: "q \<in> set (streams d)" "st_id q = i" "st_generation q = g" by auto
  have "\<not> ?P x" if "x \<in> set (streams d')" for x
  proof -
    from that obtain y where y: "y \<in> set (streams d)" "x = (if ?P y then ?f y else y)" by (auto simp: q set_update_where)
    show ?thesis
      using y qm distinct_map_inj [OF db_invD(3) [OF assms(1)], of y q] by auto
  qed
  then have "find ?P (streams d') = None" by (simp add: find_None_set)
  then show ?thesis using q qm by (simp add: UpdateStream_def)
qed

lemma UpdateStream_detects_conflict_witness:
  "\<exists>r d'. UpdateStream 5 ''st'' 1 ''new'' True demo_db2 = (Inr r, d') \<and>
     UpdateStream 6 ''st'' 1 ''other'' False d' = (Inl GenerationConflict, d')"
proof -
  obtain r d' where u: "UpdateStream 5 ''st'' 1 ''new'' True demo_db2 = (Inr r, d')"
    by (auto simp: UpdateStream_def demo_db2_streams demo_db1_def CreateStream_def empty_db_def Let_def)
  from UpdateStream_detects_conflict [OF store_reach_inv [OF demo_reach_db2] u] u show ?thesis by blast
qed

text \<open>The controller's fencing counter only grows, every token it hands out is new, and a token obtained by
  \<open>AdvanceFence\<close> is above both the counter and the watermark that the agent reported.\<close>

lemma fence_tokens_fresh:
  "fst (NextFence d) > fence_counter d \<and> fence_counter (snd (NextFence d)) = fst (NextFence d)
   \<and> fst (AdvanceFence m d) > fence_counter d \<and> fst (AdvanceFence m d) > m \<and> fence_counter (snd (AdvanceFence m d)) = fst (AdvanceFence m d)
   \<and> (store_step d d' \<longrightarrow> fence_counter d \<le> fence_counter d')"
proof -
  have "fence_counter d \<le> fence_counter d'" if "store_step d d'"
    using that by cases (auto simp: NextFence_def AdvanceFence_def Let_def)
  then show ?thesis by (auto simp: NextFence_def AdvanceFence_def Let_def)
qed

lemma fence_tokens_fresh_witness: "fst (AdvanceFence 41 demo_db2) > 41 \<and> fence_counter demo_db2 \<le> fence_counter (snd (NextFence demo_db2))"
  using fence_tokens_fresh [of demo_db2 41 "snd (NextFence demo_db2)"] store_step.fenced [of demo_db2] by blast

end
