(* ===== verification/Ingest_Lifecycle.thy ===== *)
theory Ingest_Lifecycle
  imports Relay_Prelude "HOL-Library.AList"
begin

text \<open>
  The in-memory ingest state of \<^verbatim>\<open>backend/internal/ingest/lifecycle.go\<close> and the reconciler loop of
  \<^verbatim>\<open>backend/internal/sessions/reconciler.go\<close>. The two maps are association lists, whose order is the order in which
  the code iterates; the mutable session objects that the map holds by pointer are updated in place.
\<close>

section \<open>Ingest state\<close>

datatype protocol = SRT | RTMP | OtherProtocol string

record observation =
  ob_EdgeID :: string
  ob_ConnectionID :: string
  ob_StreamID :: string
  ob_Protocol :: protocol
  ob_Connected :: bool
  ob_SeenAt :: time

record ingest_session =
  is_ID :: string
  is_StreamID :: string
  is_ConnectionID :: string
  is_StartedAt :: time
  is_EndAfter :: "time option"
  is_EndedAt :: "time option"

record ingest_state =
  in_connections :: "(string \<times> observation) list"
  in_sessions :: "(string \<times> ingest_session) list"
  in_sequence :: nat
  Grace :: duration

datatype ingest_error = InvalidIngestObservation | ActivePublisherExists

definition NewState :: "duration \<Rightarrow> ingest_state" where
  "NewState grace = \<lparr>in_connections = [], in_sessions = [], in_sequence = 0, Grace = grace\<rparr>"

definition two_digits :: "nat \<Rightarrow> string" where
  "two_digits n = [char_of (48 + n div 10 mod 10), char_of (48 + n mod 10)]"

text \<open>\<open>time.Unix(n, 0).Format("150405")\<close>: the time of day of the n-th second, in the zone at \<open>zone\<close> seconds from UTC.\<close>

definition format_hms :: "int \<Rightarrow> nat \<Rightarrow> string" where
  "format_hms zone n = (let s = nat ((int n + zone) mod 86400)
     in two_digits (s div 3600) @ two_digits (s div 60 mod 60) @ two_digits (s mod 60))"

definition conn_key :: "observation \<Rightarrow> string" where
  "conn_key ob = ob_EdgeID ob @ ''/'' @ ob_ConnectionID ob"

definition other_publisher :: "string \<Rightarrow> string \<Rightarrow> ingest_state \<Rightarrow> bool" where
  "other_publisher key stream s \<longleftrightarrow> list_ex (\<lambda>(k, c). k \<noteq> key \<and> ob_StreamID c = stream \<and> ob_Connected c) (in_connections s)"

definition ingest_Observe ::
  "int \<Rightarrow> observation \<Rightarrow> ingest_state \<Rightarrow> (ingest_session option \<times> ingest_error option) \<times> ingest_state" where
  "ingest_Observe zone ob s =
     (if ob_EdgeID ob = '''' \<or> ob_ConnectionID ob = '''' \<or> ob_StreamID ob = '''' \<or> (ob_Protocol ob \<noteq> SRT \<and> ob_Protocol ob \<noteq> RTMP)
      then ((None, Some InvalidIngestObservation), s)
      else let key = conn_key ob; stream = ob_StreamID ob in
        if (case map_of (in_connections s) key of None \<Rightarrow> False | Some old \<Rightarrow> ob_SeenAt old > ob_SeenAt ob)
        then ((map_of (in_sessions s) stream, None), s)
        else let s1 = s\<lparr>in_connections := AList.update key ob (in_connections s)\<rparr>;
                 session = map_of (in_sessions s1) stream
          in if ob_Connected ob then
               (if other_publisher key stream s1 then ((session, Some ActivePublisherExists), s1)
                else case session of
                    Some x \<Rightarrow>
                      if is_EndedAt x = None
                      then let x' = x\<lparr>is_EndAfter := None\<rparr>
                           in ((Some x', None), s1\<lparr>in_sessions := AList.update stream x' (in_sessions s1)\<rparr>)
                      else let n = u64 (in_sequence s1 + 1);
                               x' = \<lparr>is_ID = stream @ ''-session-'' @ format_hms zone n, is_StreamID = stream,
                                     is_ConnectionID = ob_ConnectionID ob, is_StartedAt = ob_SeenAt ob, is_EndAfter = None, is_EndedAt = None\<rparr>
                           in ((Some x', None), s1\<lparr>in_sequence := n, in_sessions := AList.update stream x' (in_sessions s1)\<rparr>)
                  | None \<Rightarrow>
                      let n = u64 (in_sequence s1 + 1);
                          x' = \<lparr>is_ID = stream @ ''-session-'' @ format_hms zone n, is_StreamID = stream,
                                is_ConnectionID = ob_ConnectionID ob, is_StartedAt = ob_SeenAt ob, is_EndAfter = None, is_EndedAt = None\<rparr>
                      in ((Some x', None), s1\<lparr>in_sequence := n, in_sessions := AList.update stream x' (in_sessions s1)\<rparr>))
             else case session of
                 Some x \<Rightarrow>
                   if is_EndedAt x = None
                   then let x' = x\<lparr>is_EndAfter := Some (ob_SeenAt ob + Grace s1)\<rparr>
                        in ((Some x', None), s1\<lparr>in_sessions := AList.update stream x' (in_sessions s1)\<rparr>)
                   else ((session, None), s1)
               | None \<Rightarrow> ((None, None), s1))"

definition due :: "time \<Rightarrow> ingest_session \<Rightarrow> bool" where
  "due now x \<longleftrightarrow> is_EndedAt x = None \<and> (case is_EndAfter x of None \<Rightarrow> False | Some t \<Rightarrow> \<not> now < t)"

definition finish :: "ingest_session \<Rightarrow> ingest_session" where
  "finish x = x\<lparr>is_EndedAt := is_EndAfter x\<rparr>"

definition ingest_Reconcile :: "time \<Rightarrow> ingest_state \<Rightarrow> ingest_session list \<times> ingest_state" where
  "ingest_Reconcile now s =
     (map finish (filter (due now) (map snd (in_sessions s))),
      s\<lparr>in_sessions := map (\<lambda>(k, x). (k, if due now x then finish x else x)) (in_sessions s)\<rparr>)"

section \<open>The reconciler\<close>

text \<open>
  One pass of \<open>Reconciler.Once\<close> over a repository with state \<open>'s\<close>, whose three operations are arguments: the
  items are ensured in order, the pass stops at the first error, and expired sessions are closed last.
\<close>

fun ensure_all :: "('i \<Rightarrow> 's \<Rightarrow> 'e option \<times> 's) \<Rightarrow> 'i list \<Rightarrow> 's \<Rightarrow> 'e option \<times> 's" where
  "ensure_all ensure [] s = (None, s)"
| "ensure_all ensure (i # is) s = (case ensure i s of
     (Some e, s') \<Rightarrow> (Some e, s')
   | (None, s') \<Rightarrow> ensure_all ensure is s')"

definition Reconciler_Once ::
  "(nat \<Rightarrow> 's \<Rightarrow> 'e + 'i list) \<Rightarrow> ('i \<Rightarrow> 's \<Rightarrow> 'e option \<times> 's) \<Rightarrow> (time \<Rightarrow> 's \<Rightarrow> 'e option \<times> 's) \<Rightarrow> time \<Rightarrow> 's \<Rightarrow> 'e option \<times> 's" where
  "Reconciler_Once pending ensure close now s =
     (case pending 100 s of
        Inl e \<Rightarrow> (Some e, s)
      | Inr items \<Rightarrow>
          (case ensure_all ensure items s of
             (Some e, s') \<Rightarrow> (Some e, s')
           | (None, s') \<Rightarrow> close now s'))"

definition reconciler_interval :: "duration \<Rightarrow> duration" where
  "reconciler_interval i = (if i \<le> 0 then second else i)"

lemma ensure_all_append:
  "ensure_all ensure (xs @ ys) s = (case ensure_all ensure xs s of (Some e, s') \<Rightarrow> (Some e, s') | (None, s') \<Rightarrow> ensure_all ensure ys s')"
  by (induction xs arbitrary: s) (auto split: prod.splits option.splits)

section \<open>Lemmas\<close>

definition valid_observation :: "observation \<Rightarrow> bool" where
  "valid_observation ob \<longleftrightarrow> ob_EdgeID ob \<noteq> '''' \<and> ob_ConnectionID ob \<noteq> '''' \<and> ob_StreamID ob \<noteq> '''' \<and> (ob_Protocol ob = SRT \<or> ob_Protocol ob = RTMP)"

definition newest :: "observation \<Rightarrow> ingest_state \<Rightarrow> bool" where
  "newest ob s \<longleftrightarrow> (case map_of (in_connections s) (conn_key ob) of None \<Rightarrow> True | Some old \<Rightarrow> ob_SeenAt old \<le> ob_SeenAt ob)"

definition session_in :: "ingest_state \<Rightarrow> string \<Rightarrow> ingest_session option" where
  "session_in s stream = map_of (in_sessions s) stream"

lemma update_other_mem: "(k, c) \<in> set (AList.update a b xs) \<Longrightarrow> k \<noteq> a \<Longrightarrow> (k, c) \<in> set xs"
  by (induction xs) (auto split: if_splits)

lemma Observe_connected_live:
  assumes "valid_observation ob" "newest ob s" "ob_Connected ob" "session_in s (ob_StreamID ob) = Some x" "is_EndedAt x = None"
    and "\<not> other_publisher (conn_key ob) (ob_StreamID ob) (s\<lparr>in_connections := AList.update (conn_key ob) ob (in_connections s)\<rparr>)"
  shows "\<exists>s'. ingest_Observe zone ob s = ((Some (x\<lparr>is_EndAfter := None\<rparr>), None), s') \<and> session_in s' (ob_StreamID ob) = Some (x\<lparr>is_EndAfter := None\<rparr>)"
  using assms
  by (auto simp: ingest_Observe_def valid_observation_def newest_def session_in_def Let_def not_less update_conv' split: option.splits)

lemma Observe_disconnected:
  assumes "valid_observation ob" "newest ob s" "\<not> ob_Connected ob" "session_in s (ob_StreamID ob) = Some x" "is_EndedAt x = None"
  shows "\<exists>s'. ingest_Observe zone ob s = ((Some (x\<lparr>is_EndAfter := Some (ob_SeenAt ob + Grace s)\<rparr>), None), s')
    \<and> session_in s' (ob_StreamID ob) = Some (x\<lparr>is_EndAfter := Some (ob_SeenAt ob + Grace s)\<rparr>)
    \<and> in_connections s' = AList.update (conn_key ob) ob (in_connections s)"
  using assms
  by (auto simp: ingest_Observe_def valid_observation_def newest_def session_in_def Let_def not_less update_conv' split: option.splits)

lemma Observe_rejected:
  assumes "ingest_Observe zone ob s = ((r, Some ActivePublisherExists), s')"
  shows "s' = s\<lparr>in_connections := AList.update (conn_key ob) ob (in_connections s)\<rparr> \<and> ob_Connected ob \<and> valid_observation ob"
  using assms
  by (auto simp: ingest_Observe_def valid_observation_def Let_def split: option.splits if_splits)

lemma Reconcile_session:
  "session_in (snd (ingest_Reconcile now s)) st = map_option (\<lambda>x. if due now x then finish x else x) (session_in s st)"
  by (simp add: session_in_def ingest_Reconcile_def map_of_map)

section \<open>Properties\<close>

text \<open>A publisher that disconnects and comes again before the grace period has passed keeps its session:
  no reconciliation before the deadline ends it, and the observation that it is connected again
  returns the same session with no deadline.\<close>

lemma reconnect_within_grace_keeps_session:
  assumes "valid_observation gone" "newest gone s" "\<not> ob_Connected gone" "session_in s (ob_StreamID gone) = Some x" "is_EndedAt x = None"
    and "ingest_Observe zone gone s = (r, s1)" "now < ob_SeenAt gone + Grace s"
    and "again = gone\<lparr>ob_Connected := True, ob_SeenAt := t\<rparr>" "ob_SeenAt gone \<le> t"
    and "\<not> other_publisher (conn_key gone) (ob_StreamID gone) s1"
  shows "\<exists>s2. ingest_Observe zone again (snd (ingest_Reconcile now s1)) = ((Some (x\<lparr>is_EndAfter := None\<rparr>), None), s2)
    \<and> session_in s2 (ob_StreamID gone) = Some (x\<lparr>is_EndAfter := None\<rparr>)"
proof -
  let ?x = "x\<lparr>is_EndAfter := Some (ob_SeenAt gone + Grace s)\<rparr>"
  let ?s = "snd (ingest_Reconcile now s1)"
  from Observe_disconnected [OF assms(1-5), of zone] assms(6)
  have s1: "session_in s1 (ob_StreamID gone) = Some ?x" "in_connections s1 = AList.update (conn_key gone) gone (in_connections s)" by auto
  have sess: "session_in ?s (ob_StreamID again) = Some ?x"
    using s1(1) assms(7,8) by (simp add: Reconcile_session due_def)
  have conns: "in_connections ?s = in_connections s1" by (simp add: ingest_Reconcile_def)
  have key: "conn_key again = conn_key gone" "ob_StreamID again = ob_StreamID gone" by (simp_all add: assms(8) conn_key_def)
  have nw: "newest again ?s" using assms(8,9) key conns s1(2) by (simp add: newest_def update_conv')
  have "\<not> other_publisher (conn_key again) (ob_StreamID again) (?s\<lparr>in_connections := AList.update (conn_key again) again (in_connections ?s)\<rparr>)"
  proof
    assume "other_publisher (conn_key again) (ob_StreamID again) (?s\<lparr>in_connections := AList.update (conn_key again) again (in_connections ?s)\<rparr>)"
    then obtain k c where kc: "(k, c) \<in> set (AList.update (conn_key gone) again (in_connections s1))" "k \<noteq> conn_key gone"
        "ob_StreamID c = ob_StreamID gone" "ob_Connected c"
      by (auto simp: other_publisher_def list_ex_iff key conns)
    have "(k, c) \<in> set (in_connections s1)"
      by (rule update_other_mem [OF kc(1,2)])
    then show False using kc assms(10) by (auto simp: other_publisher_def list_ex_iff)
  qed
  with Observe_connected_live [of again ?s ?x zone] nw sess show ?thesis
    using assms(1,5,8) key by (auto simp: valid_observation_def)
qed

definition demo_obs :: "string \<Rightarrow> bool \<Rightarrow> time \<Rightarrow> observation" where
  "demo_obs c b t = \<lparr>ob_EdgeID = ''e'', ob_ConnectionID = c, ob_StreamID = ''s'', ob_Protocol = SRT, ob_Connected = b, ob_SeenAt = t\<rparr>"

definition demo_ingest :: ingest_state where
  "demo_ingest = snd (ingest_Observe 0 (demo_obs ''a'' True 10) (NewState 5))"

definition demo_ingest_session :: ingest_session where
  "demo_ingest_session = \<lparr>is_ID = ''s-session-'' @ format_hms 0 1, is_StreamID = ''s'', is_ConnectionID = ''a'', is_StartedAt = 10,
     is_EndAfter = None, is_EndedAt = None\<rparr>"

lemma demo_ingest_eq:
  "demo_ingest = \<lparr>in_connections = [(''e/a'', demo_obs ''a'' True 10)], in_sessions = [(''s'', demo_ingest_session)], in_sequence = 1, Grace = 5\<rparr>"
  by (simp add: demo_ingest_def ingest_Observe_def demo_obs_def NewState_def conn_key_def other_publisher_def Let_def u64_def demo_ingest_session_def)

lemma demo_ingest_gone:
  "valid_observation (demo_obs ''a'' False 20)" "newest (demo_obs ''a'' False 20) demo_ingest"
  "session_in demo_ingest (ob_StreamID (demo_obs ''a'' False 20)) = Some demo_ingest_session" "is_EndedAt demo_ingest_session = None"
  by (simp_all add: valid_observation_def newest_def session_in_def demo_ingest_eq demo_obs_def conn_key_def demo_ingest_session_def)

lemma reconnect_within_grace_keeps_session_witness:
  "\<exists>s2. ingest_Observe 0 (demo_obs ''a'' True 22) (snd (ingest_Reconcile 23 (snd (ingest_Observe 0 (demo_obs ''a'' False 20) demo_ingest))))
     = ((Some (demo_ingest_session\<lparr>is_EndAfter := None\<rparr>), None), s2)"
proof -
  obtain r s1 where o1: "ingest_Observe 0 (demo_obs ''a'' False 20) demo_ingest = (r, s1)" by (metis surj_pair)
  have conns: "in_connections s1 = [(''e/a'', demo_obs ''a'' False 20)]"
    using Observe_disconnected [OF demo_ingest_gone(1,2) _ demo_ingest_gone(3,4), of 0] o1
    by (simp add: demo_obs_def demo_ingest_eq conn_key_def)
  from reconnect_within_grace_keeps_session [OF demo_ingest_gone(1,2) _ demo_ingest_gone(3,4) o1, of 23 "demo_obs ''a'' True 22" 22]
  show ?thesis
    using o1 conns by (simp add: demo_obs_def demo_ingest_eq other_publisher_def conn_key_def) blast
qed

text \<open>A refused second publisher is nevertheless recorded as connected, and when it goes away the session of
  the publisher that is still live gets a deadline and is ended once the grace period has passed.\<close>

lemma refused_publisher_ends_live_session:
  assumes "ingest_Observe zone ob s = ((r, Some ActivePublisherExists), s1)" "session_in s (ob_StreamID ob) = Some x" "is_EndedAt x = None"
    and "ob_SeenAt ob \<le> t" "t + Grace s \<le> now"
  shows "map_of (in_connections s1) (conn_key ob) = Some ob
    \<and> session_in (snd (ingest_Reconcile now (snd (ingest_Observe zone (ob\<lparr>ob_Connected := False, ob_SeenAt := t\<rparr>) s1)))) (ob_StreamID ob)
      = Some (x\<lparr>is_EndAfter := Some (t + Grace s), is_EndedAt := Some (t + Grace s)\<rparr>)"
proof -
  let ?gone = "ob\<lparr>ob_Connected := False, ob_SeenAt := t\<rparr>"
  from Observe_rejected [OF assms(1)] have s1: "s1 = s\<lparr>in_connections := AList.update (conn_key ob) ob (in_connections s)\<rparr>"
    and v: "valid_observation ob" by auto
  have nw: "newest ?gone s1" using assms(4) by (simp add: s1 newest_def conn_key_def update_conv')
  have sess: "session_in s1 (ob_StreamID ?gone) = Some x" using assms(2) by (simp add: s1 session_in_def)
  have v': "valid_observation ?gone" using v by (simp add: valid_observation_def)
  from Observe_disconnected [OF v' nw _ sess assms(3), of zone]
  have "session_in (snd (ingest_Observe zone ?gone s1)) (ob_StreamID ob) = Some (x\<lparr>is_EndAfter := Some (t + Grace s)\<rparr>)"
    by (auto simp: s1)
  then show ?thesis
    using assms(3,5) by (simp add: Reconcile_session due_def finish_def s1 update_conv')
qed

lemma refused_publisher_ends_live_session_witness:
  "\<exists>s1. ingest_Observe 0 (demo_obs ''b'' True 11) demo_ingest = ((Some demo_ingest_session, Some ActivePublisherExists), s1) \<and>
     is_EndedAt (the (session_in (snd (ingest_Reconcile 30 (snd (ingest_Observe 0 (demo_obs ''b'' False 12) s1)))) ''s'')) = Some 17"
proof -
  obtain s1 where r: "ingest_Observe 0 (demo_obs ''b'' True 11) demo_ingest = ((Some demo_ingest_session, Some ActivePublisherExists), s1)"
    by (auto simp: demo_ingest_eq ingest_Observe_def demo_obs_def conn_key_def other_publisher_def Let_def)
  have "session_in demo_ingest (ob_StreamID (demo_obs ''b'' True 11)) = Some demo_ingest_session"
    by (simp add: session_in_def demo_ingest_eq demo_obs_def)
  from refused_publisher_ends_live_session [OF r this demo_ingest_gone(4), of 12 30] r show ?thesis
    by (simp add: demo_obs_def demo_ingest_eq)
qed

end
