(* ===== verification/Auth_Primitives.thy ===== *)
theory Auth_Primitives
  imports Go_Strings
begin

text \<open>
  Authentication helpers of \<^verbatim>\<open>backend/internal/auth\<close>: one-time codes (\<^verbatim>\<open>totp.go\<close>), hashed ingest keys
  (\<^verbatim>\<open>ingest.go\<close>), signed edge tokens (\<^verbatim>\<open>token.go\<close>) and bearer tokens (\<^verbatim>\<open>http.go\<close>). A byte string is a list of
  characters. The keyed hashes, the key derivation and the codecs of the Go library are arguments; what is used of
  them is stated as a hypothesis where a theorem needs it. The constant-time comparison is equality.
\<close>

section \<open>Big-endian numbers\<close>

definition be_nat :: "string \<Rightarrow> nat" where
  "be_nat s = foldl (\<lambda>n c. 256 * n + of_char c) 0 s"

fun be_bytes :: "nat \<Rightarrow> nat \<Rightarrow> string" where
  "be_bytes 0 n = []"
| "be_bytes (Suc k) n = be_bytes k (n div 256) @ [char_of (n mod 256)]"

lemma be_nat_snoc [simp]: "be_nat (s @ [c]) = 256 * be_nat s + of_char c"
  by (simp add: be_nat_def)

lemma length_be_bytes [simp]: "length (be_bytes k n) = k"
  by (induction k arbitrary: n) auto

lemma be_nat_be_bytes: "n < 256 ^ k \<Longrightarrow> be_nat (be_bytes k n) = n"
proof (induction k arbitrary: n)
  case 0
  then show ?case by (simp add: be_nat_def)
next
  case (Suc k)
  then have "be_nat (be_bytes k (n div 256)) = n div 256"
    by (intro Suc.IH) (simp add: div_less_iff_less_mult mult.commute)
  then show ?case by simp
qed

section \<open>One-time codes\<close>

definition zero_pad :: "nat \<Rightarrow> string \<Rightarrow> string" where
  "zero_pad k s = replicate (k - length s) (CHR ''0'') @ s"

definition TOTPCode :: "(string \<Rightarrow> string \<Rightarrow> string) \<Rightarrow> string \<Rightarrow> int \<Rightarrow> nat \<Rightarrow> string" where
  "TOTPCode hmac secret step digits =
     (let digest = hmac secret (be_bytes 8 (nat (step mod 2 ^ 64)));
          offset = of_char (last digest) mod 16;
          val = be_nat (take 4 (drop offset digest)) mod 2 ^ 31;
          modulus = (if digits = 8 then 100000000 else 1000000)
      in zero_pad digits (decimal (val mod modulus)))"

text \<open>Go's integer division truncates.\<close>

definition totp_step :: "time \<Rightarrow> int" where
  "totp_step now = (let u = now div second in sgn u * (\<bar>u\<bar> div 30))"

definition totp_window :: "time \<Rightarrow> int list" where
  "totp_window now = (let current = totp_step now in [current, current - 1, current + 1])"

definition VerifyTOTP :: "(string \<Rightarrow> string \<Rightarrow> string) \<Rightarrow> string \<Rightarrow> string \<Rightarrow> time \<Rightarrow> int \<times> bool" where
  "VerifyTOTP hmac secret code now =
     (if length code \<noteq> 6 \<or> length secret \<noteq> 20 then (0, False)
      else if \<not> list_all is_digit code then (0, False)
      else
        case find (\<lambda>step. step \<ge> 0 \<and> TOTPCode hmac secret step 6 = code) (totp_window now) of
          Some step \<Rightarrow> (step, True)
        | None \<Rightarrow> (0, False))"

lemma TOTPCode_shape: "length (TOTPCode hmac secret step 6) = 6 \<and> list_all is_digit (TOTPCode hmac secret step 6)"
proof -
  obtain v where v: "TOTPCode hmac secret step 6 = zero_pad 6 (decimal (v mod 1000000))"
    by (simp add: TOTPCode_def Let_def)
  have "length (decimal (v mod 1000000)) \<le> 6" by (rule decimal_length) simp_all
  moreover have "is_digit (CHR ''0'')" by (simp add: is_digit_def)
  ultimately show ?thesis
    using decimal_digits [of "v mod 1000000"] by (auto simp: v zero_pad_def list_all_iff)
qed

section \<open>Ingest keys\<close>

definition iterations :: nat where
  "iterations = 210000"

definition HashKey :: "(string \<Rightarrow> string \<Rightarrow> nat \<Rightarrow> nat \<Rightarrow> string) \<Rightarrow> string \<Rightarrow> string \<Rightarrow> string option" where
  "HashKey pbkdf2 salt key =
     (if length key < 16 then None
      else Some (be_bytes 4 iterations @ salt @ pbkdf2 key salt iterations 32))"

definition VerifyKey :: "(string \<Rightarrow> string \<Rightarrow> nat \<Rightarrow> nat \<Rightarrow> string) \<Rightarrow> string \<Rightarrow> string \<Rightarrow> bool" where
  "VerifyKey pbkdf2 encoded key \<longleftrightarrow>
     (if length encoded \<noteq> 52 \<or> length key < 16 \<or> length key > 256 then False
      else let n = be_nat (take 4 encoded) in
        if n < 100000 \<or> n > 1000000 then False
        else pbkdf2 key (take 16 (drop 4 encoded)) n (length (drop 20 encoded)) = drop 20 encoded)"

section \<open>Edge tokens\<close>

record edge_claims =
  cl_StreamID :: string
  cl_Action :: string
  cl_ExpiresAt :: int
  cl_AllocationID :: string
  cl_Generation :: nat

record codecs =
  b64_encode :: "string \<Rightarrow> string"
  b64_decode :: "string \<Rightarrow> string option"
  json_encode :: "edge_claims \<Rightarrow> string"
  json_decode :: "string \<Rightarrow> edge_claims option"

definition SignEdgeToken :: "(string \<Rightarrow> string \<Rightarrow> string) \<Rightarrow> codecs \<Rightarrow> edge_claims \<Rightarrow> string \<Rightarrow> string" where
  "SignEdgeToken hmac co claims key =
     (let encoded = b64_encode co (json_encode co claims)
      in encoded @ ''.'' @ b64_encode co (hmac key encoded))"

definition VerifyEdgeToken :: "(string \<Rightarrow> string \<Rightarrow> string) \<Rightarrow> codecs \<Rightarrow> string \<Rightarrow> string \<Rightarrow> time \<Rightarrow> edge_claims option" where
  "VerifyEdgeToken hmac co token key now =
     (case Split (CHR ''.'') token of
        [p0, p1] \<Rightarrow>
          (if b64_decode co p1 \<noteq> Some (hmac key p0) then None
           else case b64_decode co p0 of
               None \<Rightarrow> None
             | Some payload \<Rightarrow>
                 (case json_decode co payload of
                    None \<Rightarrow> None
                  | Some claims \<Rightarrow>
                      if cl_ExpiresAt claims \<le> now div second
                         \<and> \<not> (cl_ExpiresAt claims = 0 \<and> cl_AllocationID claims \<noteq> '''' \<and> cl_Generation claims > 0)
                      then None else Some claims))
      | _ \<Rightarrow> None)"

section \<open>Bearer tokens\<close>

definition ReadToken :: "string option \<Rightarrow> string option" where
  "ReadToken contents = (case contents of None \<Rightarrow> None
     | Some b \<Rightarrow> let token = TrimSpace b in if length token < 24 then None else Some token)"

definition Matches :: "string \<Rightarrow> string \<Rightarrow> bool" where
  "Matches got want \<longleftrightarrow> want \<noteq> '''' \<and> got = want"

definition Bearer :: "string \<Rightarrow> string \<Rightarrow> bool" where
  "Bearer header token \<longleftrightarrow> Matches header (''Bearer '' @ token) \<and> token \<noteq> ''''"

section \<open>Properties\<close>

text \<open>A one-time code is accepted exactly within its window: an accepted code is the code of a
  non-negative step at most one away from the current one, and the code of the current step is
  always accepted, for that step.\<close>

lemma VerifyTOTP_window:
  "(VerifyTOTP hmac secret code now = (step, True) \<longrightarrow>
      0 \<le> step \<and> \<bar>step - totp_step now\<bar> \<le> 1 \<and> code = TOTPCode hmac secret step 6 \<and> length secret = 20)
   \<and> (length secret = 20 \<and> 0 \<le> totp_step now \<longrightarrow>
      VerifyTOTP hmac secret (TOTPCode hmac secret (totp_step now) 6) now = (totp_step now, True))"
proof -
  have "0 \<le> step \<and> \<bar>step - totp_step now\<bar> \<le> 1 \<and> code = TOTPCode hmac secret step 6 \<and> length secret = 20"
    if "VerifyTOTP hmac secret code now = (step, True)"
  proof -
    from that obtain f: "find (\<lambda>step. step \<ge> 0 \<and> TOTPCode hmac secret step 6 = code) (totp_window now) = Some step"
      and l: "length secret = 20"
      unfolding VerifyTOTP_def by (simp split: if_split_asm option.split_asm)
    from find_Some_iff_hd [OF f] l show ?thesis by (auto simp: totp_window_def Let_def)
  qed
  moreover have "VerifyTOTP hmac secret (TOTPCode hmac secret (totp_step now) 6) now = (totp_step now, True)"
    if "length secret = 20" "0 \<le> totp_step now"
    using that TOTPCode_shape [of hmac secret "totp_step now"] by (simp add: VerifyTOTP_def totp_window_def Let_def)
  ultimately show ?thesis by blast
qed

definition demo_hmac :: "string \<Rightarrow> string \<Rightarrow> string" where
  "demo_hmac k m = replicate 20 (last (CHR ''x'' # m))"

lemma VerifyTOTP_window_witness:
  "VerifyTOTP demo_hmac (replicate 20 (CHR ''k'')) (TOTPCode demo_hmac (replicate 20 (CHR ''k'')) (totp_step (61 * second)) 6) (61 * second) = (2, True)"
proof -
  have s: "totp_step (61 * second) = 2" by (simp add: totp_step_def second_def)
  show ?thesis
    using VerifyTOTP_window [of demo_hmac "replicate 20 (CHR ''k'')" "[]" "61 * second" 0] by (simp add: s)
qed

text \<open>A stored ingest key verifies against the key it was made from, and against a key of the accepted
  length only if the derivation agrees; a key longer than 256 bytes can be stored and never
  verifies.\<close>

lemma ingest_key_roundtrip:
  assumes "HashKey pbkdf2 salt key = Some stored" "length salt = 16" "\<And>k s n l. length (pbkdf2 k s n l) = l"
  shows "VerifyKey pbkdf2 stored other \<longleftrightarrow> 16 \<le> length other \<and> length other \<le> 256 \<and> pbkdf2 other salt iterations 32 = pbkdf2 key salt iterations 32"
proof -
  have st: "stored = be_bytes 4 iterations @ salt @ pbkdf2 key salt iterations 32"
    using assms(1) by (auto simp: HashKey_def split: if_splits)
  have n: "be_nat (be_bytes 4 iterations) = iterations" by (rule be_nat_be_bytes) (simp add: iterations_def)
  have len: "length stored = 52" "take 4 stored = be_bytes 4 iterations" "take 16 (drop 4 stored) = salt" "drop 20 stored = pbkdf2 key salt iterations 32"
    using assms(2,3) by (simp_all add: st)
  have b: "\<not> iterations < 100000" "\<not> iterations > 1000000" by (simp_all add: iterations_def)
  show ?thesis
    using assms(3) b by (auto simp: VerifyKey_def Let_def len n)
qed

definition demo_pbkdf2 :: "string \<Rightarrow> string \<Rightarrow> nat \<Rightarrow> nat \<Rightarrow> string" where
  "demo_pbkdf2 k s n l = replicate l (last (CHR ''x'' # k))"

lemma ingest_key_roundtrip_witness:
  "\<exists>stored. HashKey demo_pbkdf2 (replicate 16 (CHR ''s'')) (replicate 16 (CHR ''k'')) = Some stored
     \<and> VerifyKey demo_pbkdf2 stored (replicate 16 (CHR ''k'')) \<and> \<not> VerifyKey demo_pbkdf2 stored (replicate 300 (CHR ''k''))"
proof -
  obtain stored where h: "HashKey demo_pbkdf2 (replicate 16 (CHR ''s'')) (replicate 16 (CHR ''k'')) = Some stored"
    by (simp add: HashKey_def)
  have len: "\<And>k s n l. length (demo_pbkdf2 k s n l) = l" by (simp add: demo_pbkdf2_def)
  show ?thesis using h ingest_key_roundtrip [OF h _ len] by simp
qed

text \<open>An edge token that the controller signs verifies under the same key as long as it has not expired
  (a token bound to an allocation generation does not expire), and returns the signed claims;
  a token whose signature does not decode to the keyed hash of its payload is refused.\<close>

lemma edge_token_roundtrip:
  assumes "\<And>x. b64_decode co (b64_encode co x) = Some x" "\<And>x. CHR ''.'' \<notin> set (b64_encode co x)"
    and "json_decode co (json_encode co claims) = Some claims"
    and "now div second < cl_ExpiresAt claims \<or> (cl_ExpiresAt claims = 0 \<and> cl_AllocationID claims \<noteq> '''' \<and> cl_Generation claims > 0)"
  shows "VerifyEdgeToken hmac co (SignEdgeToken hmac co claims key) key now = Some claims
    \<and> (CHR ''.'' \<notin> set p \<and> CHR ''.'' \<notin> set q \<and> b64_decode co q \<noteq> Some (hmac key p) \<longrightarrow> VerifyEdgeToken hmac co (p @ ''.'' @ q) key now = None)"
proof -
  have sp: "Split (CHR ''.'') (p @ ''.'' @ q) = [p, q]" if "CHR ''.'' \<notin> set p" "CHR ''.'' \<notin> set q" for p q
    using that by (simp add: Split_append Split_single)
  then show ?thesis
    using assms by (auto simp: VerifyEdgeToken_def SignEdgeToken_def Let_def simp del: append_Cons)
qed

definition demo_hex :: "char \<Rightarrow> string" where
  "demo_hex c = [char_of (65 + of_char c div 16 :: nat), char_of (65 + of_char c mod 16 :: nat)]"

fun demo_unhex :: "string \<Rightarrow> string option" where
  "demo_unhex [] = Some []"
| "demo_unhex [c] = None"
| "demo_unhex (a # b # s) = map_option ((#) (char_of (16 * (of_char a - 65) + (of_char b - 65) :: nat))) (demo_unhex s)"

definition demo_claims :: edge_claims where
  "demo_claims = \<lparr>cl_StreamID = ''s'', cl_Action = ''read'', cl_ExpiresAt = 0, cl_AllocationID = ''a'', cl_Generation = 1\<rparr>"

definition demo_codecs :: codecs where
  "demo_codecs = \<lparr>b64_encode = concat \<circ> map demo_hex, b64_decode = demo_unhex, json_encode = (\<lambda>c. ''claims''), json_decode = (\<lambda>s. Some demo_claims)\<rparr>"

lemma demo_unhex_hex: "demo_unhex (concat (map demo_hex s)) = Some s"
proof (induction s)
  case (Cons c s)
  have "(of_char c :: nat) < 256" by simp
  then have "of_char c div 16 < (16 :: nat)" by (simp add: div_less_iff_less_mult)
  with Cons show ?case by (simp add: demo_hex_def)
qed simp

lemma demo_hex_no_dot: "CHR ''.'' \<notin> set (concat (map demo_hex s))"
proof
  assume "CHR ''.'' \<in> set (concat (map demo_hex s))"
  then obtain c where c: "CHR ''.'' \<in> set (demo_hex c)" by auto
  have "(of_char c :: nat) < 256" by simp
  then have q: "of_char c div 16 < (16 :: nat)" by (simp add: div_less_iff_less_mult)
  have "65 \<le> (of_char x :: nat)" if "x \<in> set (demo_hex c)" for x
    using that q by (auto simp: demo_hex_def)
  from this [OF c] show False by simp
qed

lemma edge_token_roundtrip_witness:
  "VerifyEdgeToken demo_hmac demo_codecs (SignEdgeToken demo_hmac demo_codecs demo_claims ''key'') ''key'' (5 * second) = Some demo_claims"
  using edge_token_roundtrip [of demo_codecs demo_claims "5 * second" demo_hmac "''key''" "[]" "[]"] demo_unhex_hex demo_hex_no_dot
  by (simp add: demo_codecs_def demo_claims_def)
end
