(* ===== verification/Owner_Auth.thy ===== *)
theory Owner_Auth
  imports Auth_Primitives Maintenance_Gate
begin

text \<open>
  Sign-in of the owner with password and second factor, enrollment and recovery
  (\<^verbatim>\<open>backend/internal/application/mfa.go\<close>), the lookup of a session (\<^verbatim>\<open>users.go\<close>), the durable authorization of an
  update (\<^verbatim>\<open>update_authorization.go\<close>) and its dispatch to the host (\<^verbatim>\<open>updates.go\<close>).

  The tables are lists of rows. A request reads the credential of the owner first and runs its transaction later, on
  whatever the database then holds: the two states are separate arguments of \<open>signIn\<close>, so that other requests may
  run in between. Random bytes, identifiers and the clock are inputs; hashing and sealing are arguments.
  An error of the database, of the random source or of the QR encoder answers 503 and changes nothing; it is not modelled.
\<close>

section \<open>State\<close>

record crypto =
  hmac_sha1 :: "string \<Rightarrow> string \<Rightarrow> string"
  sha256 :: "string \<Rightarrow> string"
  passwordHash :: "string \<Rightarrow> string \<Rightarrow> string"
  sealTOTP :: "string \<Rightarrow> string \<Rightarrow> string option"
  openTOTP :: "string \<Rightarrow> string \<Rightarrow> string option"
  b64url :: "string \<Rightarrow> string"
  b64url_decode :: "string \<Rightarrow> string option"

record user_row =
  us_id :: string
  us_account :: string
  us_email :: string
  us_hash :: string
  us_salt :: string

record mfa_row =
  mf_user :: string
  mf_secret :: string
  mf_last_step :: int

record session_token =
  se_hash :: string
  se_user :: string
  se_expires :: time

record enrollment =
  en_token :: string
  en_user :: "string option"
  en_hash :: string
  en_salt :: string
  en_secret :: string
  en_recovery :: "string list"
  en_expires :: time

datatype update_state = PENDING | DISPATCHED | CANCELLED

record update_row =
  up_id :: string
  up_digest :: string
  up_user :: string
  up_session :: string
  up_expires :: time
  up_state :: update_state

record auth_db =
  users :: "user_row list"
  installation :: "string option"
  owner_mfa :: "mfa_row list"
  owner_recovery :: "(string \<times> string) list"
  user_sessions :: "session_token list"
  auth_enrollment :: "enrollment option"
  update_authorizations :: "update_row list"

record owner_credentials =
  in_Password :: string
  in_Code :: string
  in_RecoveryCode :: string
  in_EnrollmentToken :: string

record owner_credential =
  oc_id :: string
  oc_hash :: string
  oc_salt :: string
  oc_encrypted :: string
  oc_lastStep :: int

record chance =
  ra_now :: time
  ra_token :: string
  ra_secret :: string
  ra_codes :: "string list"
  ra_salt :: string
  ra_ids :: "string \<times> string"

section \<open>Factors\<close>

definition no_owner :: owner_credential where
  "no_owner = \<lparr>oc_id = '''', oc_hash = '''', oc_salt = '''', oc_encrypted = '''', oc_lastStep = 0\<rparr>"

definition owner :: "auth_db \<Rightarrow> owner_credential option" where
  "owner d = (case installation d of
     None \<Rightarrow> None
   | Some uid \<Rightarrow> (case find (\<lambda>u. us_id u = uid) (users d) of
       None \<Rightarrow> None
     | Some u \<Rightarrow> Some (case find (\<lambda>m. mf_user m = uid) (owner_mfa d) of
           None \<Rightarrow> \<lparr>oc_id = uid, oc_hash = us_hash u, oc_salt = us_salt u, oc_encrypted = '''', oc_lastStep = -1\<rparr>
         | Some m \<Rightarrow> \<lparr>oc_id = uid, oc_hash = us_hash u, oc_salt = us_salt u, oc_encrypted = mf_secret m, oc_lastStep = mf_last_step m\<rparr>)))"

definition sessionHash :: "crypto \<Rightarrow> string \<Rightarrow> string" where
  "sessionHash cr token = sha256 cr token"

definition recoveryHash :: "crypto \<Rightarrow> string \<Rightarrow> string" where
  "recoveryHash cr code = sessionHash cr (''owner-recovery:'' @ ToUpper (remove_char (CHR ''-'') (TrimSpace code)))"

definition format_recovery :: "string \<Rightarrow> string" where
  "format_recovery raw = take 5 raw @ ''-'' @ take 5 (drop 5 raw) @ ''-'' @ take 5 (drop 10 raw) @ ''-'' @ take 5 (drop 15 raw) @ ''-'' @ drop 20 raw"

text \<open>\<open>None\<close> is an error, otherwise the step and whether the factor is good.\<close>

definition secondFactor :: "crypto \<Rightarrow> time \<Rightarrow> owner_credential \<Rightarrow> owner_credentials \<Rightarrow> (int \<times> bool) option" where
  "secondFactor cr now oc input =
     (if (in_Code input = '''') = (in_RecoveryCode input = '''') \<or> oc_encrypted oc = '''' then Some (0, False)
      else if in_RecoveryCode input \<noteq> '''' then
        (if length (in_RecoveryCode input) > 40 then Some (0, False) else Some (-1, True))
      else case openTOTP cr (oc_encrypted oc) (''owner-totp:'' @ oc_id oc) of
          None \<Rightarrow> None
        | Some secret \<Rightarrow>
            (case VerifyTOTP (hmac_sha1 cr) secret (in_Code input) now of (step, good) \<Rightarrow> Some (step, good \<and> step > oc_lastStep oc)))"

definition consumeFactor :: "crypto \<Rightarrow> owner_credential \<Rightarrow> owner_credentials \<Rightarrow> int \<Rightarrow> auth_db \<Rightarrow> bool \<times> auth_db" where
  "consumeFactor cr oc input step d =
     (if in_RecoveryCode input \<noteq> '''' then
        (let P = (\<lambda>r. r = (recoveryHash cr (in_RecoveryCode input), oc_id oc)) in
         (count_where P (owner_recovery d) = 1, d\<lparr>owner_recovery := filter (\<lambda>r. \<not> P r) (owner_recovery d)\<rparr>))
      else
        (let P = (\<lambda>m. mf_user m = oc_id oc \<and> mf_last_step m < step \<and> mf_secret m = oc_encrypted oc) in
         (count_where P (owner_mfa d) = 1, d\<lparr>owner_mfa := update_where P (\<lambda>m. m\<lparr>mf_last_step := step\<rparr>) (owner_mfa d)\<rparr>)))"

text \<open>At most 128 expired sessions are deleted with each insertion; which ones is up to the database, the model takes the
  first. A token hash that exists already violates the primary key.\<close>

fun drop_expired :: "nat \<Rightarrow> time \<Rightarrow> session_token list \<Rightarrow> session_token list" where
  "drop_expired 0 now ss = ss"
| "drop_expired (Suc k) now [] = []"
| "drop_expired (Suc k) now (s # ss) = (if se_expires s \<le> now then drop_expired k now ss else s # drop_expired (Suc k) now ss)"

lemma drop_expired_Nil [simp]: "drop_expired k now [] = []"
  by (cases k) auto

lemma drop_expired_subset: "set (drop_expired k now ss) \<subseteq> set ss"
  by (induction k now ss rule: drop_expired.induct) auto

definition insertSession :: "crypto \<Rightarrow> time \<Rightarrow> string \<Rightarrow> string \<Rightarrow> auth_db \<Rightarrow> auth_db option" where
  "insertSession cr now uid raw d =
     (let ss = drop_expired 128 now (user_sessions d); h = sessionHash cr raw in
      if list_ex (\<lambda>s. se_hash s = h) ss then None
      else Some (d\<lparr>user_sessions := ss @ [\<lparr>se_hash = h, se_user = uid, se_expires = now + 7 * 24 * 3600 * second\<rparr>]\<rparr>))"

section \<open>Enrollment\<close>

text \<open>Responses are HTTP status codes. \<open>beginEnrollment\<close> runs its transaction on \<open>d\<close>; errors roll it back.\<close>

definition beginEnrollment ::
  "crypto \<Rightarrow> chance \<Rightarrow> owner_credential \<Rightarrow> owner_credentials \<Rightarrow> bool \<Rightarrow> int \<Rightarrow> auth_db \<Rightarrow> nat \<times> auth_db" where
  "beginEnrollment cr ra oc input replace step d =
     (case sealTOTP cr (ra_secret ra) (''totp-enrollment:'' @ b64url cr (sessionHash cr (ra_token ra))) of
        None \<Rightarrow> (503, d)
      | Some encrypted \<Rightarrow>
          (let hashes = map (\<lambda>raw. recoveryHash cr (format_recovery raw)) (ra_codes ra);
               salt = (if oc_id oc = '''' then ra_salt ra else oc_salt oc);
               hash = (if oc_id oc = '''' then passwordHash cr (in_Password input) (ra_salt ra) else oc_hash oc);
               en = \<lparr>en_token = sessionHash cr (ra_token ra), en_user = (if oc_id oc = '''' then None else Some (oc_id oc)),
                     en_hash = hash, en_salt = salt, en_secret = encrypted, en_recovery = hashes, en_expires = ra_now ra + 600 * second\<rparr>
           in if replace then
                (case consumeFactor cr oc input step d of
                   (False, _) \<Rightarrow> (401, d)
                 | (True, d1) \<Rightarrow> (200, d1\<lparr>auth_enrollment := Some en\<rparr>))
              else if owner_mfa d \<noteq> [] then (409, d)
              else (200, d\<lparr>auth_enrollment := Some en\<rparr>)))"

text \<open>The owner record of a confirmed enrollment: a new user and installation, or the user it was begun for.\<close>

definition enrolled_user :: "chance \<Rightarrow> enrollment \<Rightarrow> auth_db \<Rightarrow> nat + string \<times> auth_db" where
  "enrolled_user ra en d = (case en_user en of
     None \<Rightarrow>
       if list_ex (\<lambda>u. us_id u = snd (ra_ids ra) \<or> us_email u = '''' \<or> us_account u = fst (ra_ids ra)) (users d) \<or> installation d \<noteq> None then Inl 409
       else Inr (snd (ra_ids ra), d\<lparr>users := users d @ [\<lparr>us_id = snd (ra_ids ra), us_account = fst (ra_ids ra), us_email = '''',
              us_hash = en_hash en, us_salt = en_salt en\<rparr>], installation := Some (snd (ra_ids ra))\<rparr>)
   | Some uid \<Rightarrow>
       if installation d = Some uid \<and> list_ex (\<lambda>u. us_id u = uid \<and> us_hash u = en_hash en \<and> us_salt u = en_salt en) (users d)
       then Inr (uid, d) else Inl 401)"

definition store_mfa :: "string \<Rightarrow> string \<Rightarrow> int \<Rightarrow> auth_db \<Rightarrow> auth_db" where
  "store_mfa uid secret step d =
     (if list_ex (\<lambda>m. mf_user m = uid) (owner_mfa d)
      then d\<lparr>owner_mfa := update_where (\<lambda>m. mf_user m = uid) (\<lambda>m. m\<lparr>mf_secret := secret, mf_last_step := step\<rparr>) (owner_mfa d)\<rparr>
      else d\<lparr>owner_mfa := owner_mfa d @ [\<lparr>mf_user = uid, mf_secret = secret, mf_last_step = step\<rparr>]\<rparr>)"

definition cancel_pending :: "(update_row \<Rightarrow> bool) \<Rightarrow> auth_db \<Rightarrow> auth_db" where
  "cancel_pending P d = d\<lparr>update_authorizations :=
     update_where (\<lambda>u. up_state u = PENDING \<and> P u) (\<lambda>u. u\<lparr>up_state := CANCELLED\<rparr>) (update_authorizations d)\<rparr>"

definition confirmEnrollment :: "crypto \<Rightarrow> chance \<Rightarrow> owner_credentials \<Rightarrow> auth_db \<Rightarrow> nat \<times> auth_db" where
  "confirmEnrollment cr ra input d =
     (if length (in_EnrollmentToken input) \<noteq> 43 \<or> in_RecoveryCode input \<noteq> '''' then (401, d)
      else let h = sessionHash cr (in_EnrollmentToken input) in
      case auth_enrollment d of
        None \<Rightarrow> (401, d)
      | Some en \<Rightarrow>
          if en_token en \<noteq> h \<or> \<not> en_expires en > ra_now ra then (401, d)
          else case openTOTP cr (en_secret en) (''totp-enrollment:'' @ b64url cr h) of
              None \<Rightarrow> (503, d)
            | Some secret \<Rightarrow>
                (case VerifyTOTP (hmac_sha1 cr) secret (in_Code input) (ra_now ra) of
                   (_, False) \<Rightarrow> (401, d)
                 | (step, True) \<Rightarrow>
                     (case enrolled_user ra en d of
                        Inl status \<Rightarrow> (status, d)
                      | Inr (uid, d1) \<Rightarrow>
                          (case sealTOTP cr secret (''owner-totp:'' @ uid) of
                             None \<Rightarrow> (503, d)
                           | Some encrypted \<Rightarrow>
                               let others = filter (\<lambda>r. snd r \<noteq> uid) (owner_recovery d1) in
                               if length (en_recovery en) \<noteq> 10 \<or> \<not> distinct (en_recovery en)
                                  \<or> list_ex (\<lambda>c. c \<in> set (map fst others)) (en_recovery en) then (503, d)
                               else
                               let d2 = store_mfa uid encrypted step d1;
                                   d3 = d2\<lparr>owner_recovery := others @ map (\<lambda>c. (c, uid)) (en_recovery en)\<rparr>;
                                   d4 = d3\<lparr>user_sessions := filter (\<lambda>s. se_user s \<noteq> uid) (user_sessions d3)\<rparr>;
                                   d5 = cancel_pending (\<lambda>u. up_user u = uid) d4;
                                   d6 = d5\<lparr>auth_enrollment := None\<rparr>
                               in case insertSession cr (ra_now ra) uid (ra_token ra) d6 of
                                    None \<Rightarrow> (503, d)
                                  | Some d7 \<Rightarrow> (200, d7)))))"

definition RecoverOwner :: "crypto \<Rightarrow> string \<Rightarrow> string \<Rightarrow> auth_db \<Rightarrow> bool \<times> auth_db" where
  "RecoverOwner cr salt password d =
     (if length password < 12 \<or> length password > 256 then (False, d)
      else case installation d of
          None \<Rightarrow> (False, d)
        | Some uid \<Rightarrow>
            (True, (cancel_pending (\<lambda>_. True) d)\<lparr>
               users := update_where (\<lambda>u. us_id u = uid) (\<lambda>u. u\<lparr>us_hash := passwordHash cr password salt, us_salt := salt\<rparr>) (users d),
               user_sessions := [], auth_enrollment := None, owner_recovery := [], owner_mfa := []\<rparr>))"

section \<open>Sign-in\<close>

datatype auth_path = PathSetup | PathConfirm | PathReplace | PathLogin

definition login_tx :: "crypto \<Rightarrow> chance \<Rightarrow> owner_credential \<Rightarrow> owner_credentials \<Rightarrow> int \<Rightarrow> auth_db \<Rightarrow> nat \<times> auth_db" where
  "login_tx cr ra oc input step d =
     (case consumeFactor cr oc input step d of
        (False, _) \<Rightarrow> (401, d)
      | (True, d1) \<Rightarrow>
          (case insertSession cr (ra_now ra) (oc_id oc) (ra_token ra) d1 of
             None \<Rightarrow> (503, d)
           | Some d2 \<Rightarrow> (200, d2)))"

text \<open>\<open>signIn\<close> after admission and decoding (\<open>None\<close> for a body that does not decode); \<open>d0\<close> is read first.\<close>

definition signIn ::
  "crypto \<Rightarrow> chance \<Rightarrow> string \<Rightarrow> string \<Rightarrow> auth_path \<Rightarrow> owner_credentials option \<Rightarrow> auth_db \<Rightarrow> auth_db \<Rightarrow> nat \<times> auth_db" where
  "signIn cr ra setupToken header path body d0 d =
     (if path = PathSetup \<and> \<not> Matches header setupToken then (403, d)
      else case body of
          None \<Rightarrow> (400, d)
        | Some input \<Rightarrow>
            if path = PathConfirm then confirmEnrollment cr ra input d
            else if length (in_Password input) < 12 \<or> length (in_Password input) > 256 then (400, d)
            else let oc = (case owner d0 of None \<Rightarrow> no_owner | Some x \<Rightarrow> x) in
            if path = PathSetup then
              (if oc_encrypted oc \<noteq> '''' then (409, d)
               else if oc_id oc \<noteq> '''' \<and> passwordHash cr (in_Password input) (oc_salt oc) \<noteq> oc_hash oc then (401, d)
               else beginEnrollment cr ra oc input False 0 d)
            else
              (let passwordOK = (oc_id oc \<noteq> '''' \<and> passwordHash cr (in_Password input) (oc_salt oc) = oc_hash oc) in
               case secondFactor cr (ra_now ra) oc input of
                 None \<Rightarrow> (503, d)
               | Some (step, factorOK) \<Rightarrow>
                   if \<not> passwordOK \<or> \<not> factorOK then (401, d)
                   else if path = PathReplace then beginEnrollment cr ra oc input True step d
                   else login_tx cr ra oc input step d))"

text \<open>The session check of \<open>userRoutes\<close>: the account of an unexpired session of the owner, who must have a second factor.\<close>

definition session_account :: "crypto \<Rightarrow> time \<Rightarrow> string \<Rightarrow> auth_db \<Rightarrow> string option" where
  "session_account cr now token d =
     (case find (\<lambda>s. se_hash s = sessionHash cr token \<and> se_expires s > now) (user_sessions d) of
        None \<Rightarrow> None
      | Some s \<Rightarrow>
          if installation d = Some (se_user s) \<and> list_ex (\<lambda>m. mf_user m = se_user s) (owner_mfa d)
          then map_option us_account (find (\<lambda>u. us_id u = se_user s) (users d)) else None)"

definition logout :: "crypto \<Rightarrow> string \<Rightarrow> auth_db \<Rightarrow> auth_db" where
  "logout cr token d = d\<lparr>user_sessions := filter (\<lambda>s. se_hash s \<noteq> sessionHash cr token) (user_sessions d)\<rparr>"

section \<open>Authorization of updates\<close>

datatype update_result = Authorized bool | UpdateProof | UpdateConflict | UpdateUnavailable

definition is_hex :: "char \<Rightarrow> bool" where
  "is_hex c \<longleftrightarrow> is_digit c \<or> (97 \<le> (of_char c :: nat) \<and> (of_char c :: nat) \<le> 102) \<or> (65 \<le> (of_char c :: nat) \<and> (of_char c :: nat) \<le> 70)"

definition request_id_ok :: "string \<Rightarrow> bool" where
  "request_id_ok s \<longleftrightarrow> length s = 36 \<and> s = ToLower s \<and> s ! 8 = CHR ''-'' \<and> s ! 13 = CHR ''-'' \<and> s ! 18 = CHR ''-'' \<and> s ! 23 = CHR ''-''
     \<and> (let h = remove_char (CHR ''-'') s in list_all is_hex h \<and> length h = 32)"

definition digest_ok :: "string \<Rightarrow> bool" where
  "digest_ok s \<longleftrightarrow> list_all is_hex s \<and> length s = 64 \<and> s = ToLower s"

definition token_ok :: "crypto \<Rightarrow> string \<Rightarrow> bool" where
  "token_ok cr t \<longleftrightarrow> (case b64url_decode cr t of None \<Rightarrow> False | Some b \<Rightarrow> length b = 32 \<and> b64url cr b = t)"

definition live_session :: "time \<Rightarrow> string \<Rightarrow> auth_db \<Rightarrow> session_token option" where
  "live_session now h d = find (\<lambda>s. se_hash s = h \<and> se_expires s > now \<and> installation d = Some (se_user s)
     \<and> list_ex (\<lambda>m. mf_user m = se_user s) (owner_mfa d)) (user_sessions d)"

definition authorize_new :: "crypto \<Rightarrow> time \<Rightarrow> string \<Rightarrow> string \<Rightarrow> string \<Rightarrow> string \<Rightarrow> string \<Rightarrow> auth_db \<Rightarrow> update_result \<times> auth_db" where
  "authorize_new cr now uid h requestID digest code d =
     (let d1 = cancel_pending (\<lambda>u. up_expires u \<le> now) d in
      if count_where (\<lambda>u. up_state u = PENDING) (update_authorizations d1) \<noteq> 0 then (UpdateConflict, d)
      else case find (\<lambda>m. mf_user m = uid) (owner_mfa d1) of
          None \<Rightarrow> (UpdateUnavailable, d)
        | Some m \<Rightarrow>
            (let oc = no_owner\<lparr>oc_id := uid, oc_encrypted := mf_secret m, oc_lastStep := mf_last_step m\<rparr>;
                 input = \<lparr>in_Password = '''', in_Code = code, in_RecoveryCode = '''', in_EnrollmentToken = ''''\<rparr>
             in case secondFactor cr now oc input of
                  None \<Rightarrow> (UpdateUnavailable, d)
                | Some (step, False) \<Rightarrow> (UpdateProof, d)
                | Some (step, True) \<Rightarrow>
                    (case consumeFactor cr oc input step d1 of
                       (False, _) \<Rightarrow> (UpdateProof, d)
                     | (True, d2) \<Rightarrow> (Authorized False, d2\<lparr>update_authorizations := update_authorizations d2 @
                         [\<lparr>up_id = requestID, up_digest = digest, up_user = uid, up_session = h, up_expires = now + 24 * 3600 * second, up_state = PENDING\<rparr>]\<rparr>))))"

definition authorizeUpdate ::
  "crypto \<Rightarrow> time \<Rightarrow> string \<Rightarrow> gate_dir \<Rightarrow> string \<Rightarrow> string \<Rightarrow> string \<Rightarrow> string \<Rightarrow> auth_db \<Rightarrow> update_result \<times> auth_db" where
  "authorizeUpdate cr now directory g token requestID digest code d =
     (if \<not> token_ok cr token \<or> \<not> request_id_ok requestID \<or> \<not> digest_ok digest then (UpdateProof, d)
      else case fst (Enter directory g) of
          Inl e \<Rightarrow> (UpdateUnavailable, d)
        | Inr l \<Rightarrow>
            (let h = sessionHash cr token in
             case live_session now h d of
               None \<Rightarrow> (UpdateProof, d)
             | Some s \<Rightarrow>
                 (case find (\<lambda>u. up_id u = requestID) (update_authorizations d) of
                    Some u \<Rightarrow>
                      if up_digest u \<noteq> digest \<or> up_user u \<noteq> se_user s \<or> up_session u \<noteq> h then (UpdateConflict, d)
                      else if up_state u = CANCELLED \<or> (up_state u = PENDING \<and> up_expires u \<le> now) then (UpdateConflict, d)
                      else (Authorized True, d)
                  | None \<Rightarrow> authorize_new cr now (se_user s) h requestID digest code d)))"

section \<open>Dispatch\<close>

datatype start_reply = Receipt string string string | Remote string | Unreachable

definition set_update :: "string \<Rightarrow> update_state \<Rightarrow> auth_db \<Rightarrow> auth_db" where
  "set_update i st d = d\<lparr>update_authorizations :=
     update_where (\<lambda>u. up_id u = i \<and> up_state u = PENDING) (\<lambda>u. u\<lparr>up_state := st\<rparr>) (update_authorizations d)\<rparr>"

text \<open>\<open>start\<close> is the answer of the host to \<open>Updater.Start\<close>; the second component of the result lists the calls made.\<close>

definition dispatchUpdate ::
  "time \<Rightarrow> string \<Rightarrow> gate_dir \<Rightarrow> (string \<Rightarrow> string \<Rightarrow> start_reply) \<Rightarrow> auth_db \<Rightarrow> bool \<times> (string \<times> string) list \<times> auth_db" where
  "dispatchUpdate now directory g start d =
     (case fst (Enter directory g) of
        Inl e \<Rightarrow> (False, [], d)
      | Inr l \<Rightarrow>
          (case find (\<lambda>u. up_state u = PENDING) (update_authorizations d) of
             None \<Rightarrow> (False, [], d)
           | Some u \<Rightarrow>
               if \<not> (up_expires u > now \<and> (case live_session now (up_session u) d of None \<Rightarrow> False | Some s \<Rightarrow> se_user s = up_user u))
               then (True, [], set_update (up_id u) CANCELLED d)
               else case start (up_id u) (up_digest u) of
                   Unreachable \<Rightarrow> (False, [(up_id u, up_digest u)], d)
                 | Remote code \<Rightarrow>
                     if code = ''target_unavailable'' \<or> code = ''conflict'' then (True, [(up_id u, up_digest u)], set_update (up_id u) CANCELLED d)
                     else (False, [(up_id u, up_digest u)], d)
                 | Receipt i dg phase \<Rightarrow>
                     if i \<noteq> up_id u \<or> dg \<noteq> up_digest u \<or> phase = '''' then (False, [(up_id u, up_digest u)], d)
                     else (True, [(up_id u, up_digest u)], set_update (up_id u) DISPATCHED d)))"

section \<open>Used factors stay used\<close>

text \<open>A one-time step of a sealed secret is spent when every row with that secret is at or past the step.\<close>

definition step_spent :: "string \<Rightarrow> string \<Rightarrow> int \<Rightarrow> auth_db \<Rightarrow> bool" where
  "step_spent uid sec step d \<longleftrightarrow> (\<forall>m \<in> set (owner_mfa d). mf_user m = uid \<and> mf_secret m = sec \<longrightarrow> step \<le> mf_last_step m)"

definition code_spent :: "string \<Rightarrow> string \<Rightarrow> auth_db \<Rightarrow> bool" where
  "code_spent uid h d \<longleftrightarrow> (h, uid) \<notin> set (owner_recovery d)"

text \<open>
  A confirmation seals the new secret under a fresh nonce, so that the ciphertext is not that of an earlier sealing, and
  stores the hashes of the recovery codes that were drawn at random when the enrollment was begun, which are not those of an
  earlier code. \<open>seal\<close> is the sealing of this request.
\<close>

definition fresh_confirm :: "(string \<Rightarrow> string \<Rightarrow> string option) \<Rightarrow> string \<Rightarrow> string \<Rightarrow> auth_db \<Rightarrow> bool" where
  "fresh_confirm seal sec h d \<longleftrightarrow> (\<forall>secret context. seal secret context \<noteq> Some sec) \<and>
     (\<forall>en. auth_enrollment d = Some en \<longrightarrow> h \<notin> set (en_recovery en))"

inductive auth_step :: "crypto \<Rightarrow> string \<Rightarrow> string \<Rightarrow> string \<Rightarrow> auth_db \<Rightarrow> auth_db \<Rightarrow> bool" for cr uid sec h where
  signed_in: "signIn (cr\<lparr>sealTOTP := seal\<rparr>) ra st hdr path body d0 d = (status, d') \<Longrightarrow> (path = PathConfirm \<Longrightarrow> fresh_confirm seal sec h d) \<Longrightarrow>
    auth_step cr uid sec h d d'"
| logged_out: "auth_step cr uid sec h d (logout cr token d)"
| authorized: "auth_step cr uid sec h d (snd (authorizeUpdate cr now dr g token i dg code d))"
| dispatched: "auth_step cr uid sec h d (snd (snd (dispatchUpdate now dr g start d)))"
| recovered: "auth_step cr uid sec h d (snd (RecoverOwner cr salt pw d))"

inductive auth_steps :: "crypto \<Rightarrow> string \<Rightarrow> string \<Rightarrow> string \<Rightarrow> auth_db \<Rightarrow> auth_db \<Rightarrow> bool" for cr uid sec h where
  auth_none: "auth_steps cr uid sec h d d"
| auth_more: "auth_steps cr uid sec h d e \<Longrightarrow> auth_step cr uid sec h e f \<Longrightarrow> auth_steps cr uid sec h d f"

definition spent :: "string \<Rightarrow> string \<Rightarrow> string \<Rightarrow> int option \<Rightarrow> bool \<Rightarrow> auth_db \<Rightarrow> bool" where
  "spent uid sec h step code d \<longleftrightarrow> (case step of None \<Rightarrow> True | Some t \<Rightarrow> step_spent uid sec t d) \<and> (code \<longrightarrow> code_spent uid h d)"

lemma update_where_off:
  assumes "u \<in> set (update_where P f t)" "\<And>r. P r \<Longrightarrow> \<not> Q (f r)" "\<And>r. \<not> P r \<Longrightarrow> \<not> Q r"
  shows "\<not> Q u"
  using assms by (induction t) (auto split: if_splits)

lemma spent_frame:
  "owner_mfa d' = owner_mfa d \<Longrightarrow> owner_recovery d' = owner_recovery d \<Longrightarrow> spent uid sec h step code d' = spent uid sec h step code d"
  by (simp add: spent_def step_spent_def code_spent_def split: option.splits)

lemma spent_upd [simp]:
  "spent uid sec h step code (d\<lparr>update_authorizations := x\<rparr>) = spent uid sec h step code d"
  "spent uid sec h step code (d\<lparr>user_sessions := y\<rparr>) = spent uid sec h step code d"
  "spent uid sec h step code (d\<lparr>auth_enrollment := z\<rparr>) = spent uid sec h step code d"
  by (rule spent_frame; simp)+

lemma spent_consume:
  "spent uid sec h step code d \<Longrightarrow> spent uid sec h step code (snd (consumeFactor cr oc input t d))"
  by (auto simp: spent_def step_spent_def code_spent_def consumeFactor_def Let_def set_update_where split: option.splits)

lemma insertSession_frame:
  "insertSession cr now uid raw d = Some d' \<Longrightarrow> owner_mfa d' = owner_mfa d \<and> owner_recovery d' = owner_recovery d
     \<and> update_authorizations d' = update_authorizations d \<and> installation d' = installation d \<and> users d' = users d \<and> auth_enrollment d' = auth_enrollment d"
  by (auto simp: insertSession_def Let_def split: if_splits)

lemma insertSession_mem:
  "insertSession cr now uid raw d = Some d' \<Longrightarrow> s \<in> set (user_sessions d') \<Longrightarrow> s \<in> set (user_sessions d) \<or> se_hash s = sessionHash cr raw"
  using drop_expired_subset [of 128 now "user_sessions d"] by (auto simp: insertSession_def Let_def split: if_splits)

lemma consume_frame:
  "consumeFactor cr oc input t d = (b, d') \<Longrightarrow> update_authorizations d' = update_authorizations d \<and> installation d' = installation d
     \<and> users d' = users d \<and> user_sessions d' = user_sessions d \<and> auth_enrollment d' = auth_enrollment d \<and> map mf_user (owner_mfa d') = map mf_user (owner_mfa d)"
  by (auto simp: consumeFactor_def Let_def map_update_where split: if_splits)

lemma spent_login: "spent uid sec h step code d \<Longrightarrow> spent uid sec h step code (snd (login_tx cr ra oc input t d))"
  using spent_consume [of uid sec h step code d cr oc input t]
  by (auto simp: login_tx_def split: prod.splits bool.splits option.splits dest!: insertSession_frame intro: spent_frame [THEN iffD1, rotated 2])

lemma spent_begin: "spent uid sec h step code d \<Longrightarrow> spent uid sec h step code (snd (beginEnrollment cr ra oc input r t d))"
  using spent_consume [of uid sec h step code d cr oc input t]
  by (auto simp: beginEnrollment_def Let_def spent_def step_spent_def code_spent_def split: prod.splits bool.splits option.splits)

lemma spent_cancel [simp]: "spent uid sec h step code (cancel_pending P d) = spent uid sec h step code d"
  by (rule spent_frame) (simp_all add: cancel_pending_def)

lemma spent_authorize: "spent uid sec h step code d \<Longrightarrow> spent uid sec h step code (snd (authorizeUpdate cr now dr g token i dg co d))"
proof -
  assume sp: "spent uid sec h step code d"
  have "spent uid sec h step code (snd (authorize_new cr now u hh i dg co d))" for u hh
  proof -
    have c: "spent uid sec h step code d2" if "consumeFactor cr oc input t (cancel_pending P d) = (b, d2)" for oc input t P b d2
      using sp spent_consume [of uid sec h step code "cancel_pending P d" cr oc input t] that by simp
    show ?thesis
      using sp c by (auto simp: authorize_new_def Let_def split: option.splits prod.splits bool.splits)
  qed
  then show ?thesis using sp by (auto simp: authorizeUpdate_def Let_def split: sum.splits option.splits)
qed

lemma enrolled_user_Inl: "enrolled_user ra en d = Inl st \<Longrightarrow> st \<noteq> 200"
  by (auto simp: enrolled_user_def split: option.splits if_splits)

lemma enrolled_user_frame:
  "enrolled_user ra en d = Inr (uid, d1) \<Longrightarrow> owner_mfa d1 = owner_mfa d \<and> owner_recovery d1 = owner_recovery d
     \<and> user_sessions d1 = user_sessions d \<and> auth_enrollment d1 = auth_enrollment d"
  by (auto simp: enrolled_user_def split: option.splits if_splits)

lemma store_mfa_row: "m \<in> set (owner_mfa (store_mfa uid secret step d)) \<Longrightarrow> m \<in> set (owner_mfa d) \<or> mf_secret m = secret"
  by (auto simp: store_mfa_def set_update_where split: if_splits)

text \<open>The shape of a successful confirmation.\<close>

lemma confirmEnrollment_done:
  assumes "confirmEnrollment cr ra input d = (200, d')"
  shows "\<exists>en secret step uid d1 encrypted. auth_enrollment d = Some en \<and> en_token en = sessionHash cr (in_EnrollmentToken input) \<and>
    ra_now ra < en_expires en \<and> openTOTP cr (en_secret en) (''totp-enrollment:'' @ b64url cr (en_token en)) = Some secret \<and>
    VerifyTOTP (hmac_sha1 cr) secret (in_Code input) (ra_now ra) = (step, True) \<and> enrolled_user ra en d = Inr (uid, d1) \<and>
    sealTOTP cr secret (''owner-totp:'' @ uid) = Some encrypted \<and> length (en_recovery en) = 10 \<and> distinct (en_recovery en) \<and>
    insertSession cr (ra_now ra) uid (ra_token ra)
       ((cancel_pending (\<lambda>u. up_user u = uid)
          ((store_mfa uid encrypted step d1)\<lparr>owner_recovery := filter (\<lambda>r. snd r \<noteq> uid) (owner_recovery d1) @ map (\<lambda>c. (c, uid)) (en_recovery en),
             user_sessions := filter (\<lambda>s. se_user s \<noteq> uid) (user_sessions (store_mfa uid encrypted step d1))\<rparr>))\<lparr>auth_enrollment := None\<rparr>) = Some d'"
  using assms unfolding confirmEnrollment_def Let_def
  by (auto split: if_splits option.splits prod.splits bool.splits sum.splits dest: enrolled_user_Inl)

lemma confirmEnrollment_other: "confirmEnrollment cr ra input d = (status, d') \<Longrightarrow> status \<noteq> 200 \<Longrightarrow> d' = d"
  by (auto simp: confirmEnrollment_def Let_def split: if_splits option.splits prod.splits bool.splits sum.splits)

lemma confirmEnrollment_rows:
  assumes "confirmEnrollment cr ra input d = (200, d')"
  shows "(\<forall>m \<in> set (owner_mfa d'). m \<in> set (owner_mfa d) \<or> (\<exists>secret context. sealTOTP cr secret context = Some (mf_secret m))) \<and>
    (\<forall>r \<in> set (owner_recovery d'). r \<in> set (owner_recovery d) \<or> (\<exists>en. auth_enrollment d = Some en \<and> fst r \<in> set (en_recovery en)))"
proof -
  obtain en secret step uid d1 encrypted where c: "auth_enrollment d = Some en" "enrolled_user ra en d = Inr (uid, d1)"
      "sealTOTP cr secret (''owner-totp:'' @ uid) = Some encrypted"
      "insertSession cr (ra_now ra) uid (ra_token ra)
       ((cancel_pending (\<lambda>u. up_user u = uid)
          ((store_mfa uid encrypted step d1)\<lparr>owner_recovery := filter (\<lambda>r. snd r \<noteq> uid) (owner_recovery d1) @ map (\<lambda>c. (c, uid)) (en_recovery en),
             user_sessions := filter (\<lambda>s. se_user s \<noteq> uid) (user_sessions (store_mfa uid encrypted step d1))\<rparr>))\<lparr>auth_enrollment := None\<rparr>) = Some d'"
    using confirmEnrollment_done [OF assms] by blast
  have "owner_mfa d' = owner_mfa (store_mfa uid encrypted step d1)"
    "owner_recovery d' = filter (\<lambda>r. snd r \<noteq> uid) (owner_recovery d1) @ map (\<lambda>c. (c, uid)) (en_recovery en)"
    using insertSession_frame [OF c(4)] by (simp_all add: cancel_pending_def)
  then show ?thesis using enrolled_user_frame [OF c(2)] c(1,3) store_mfa_row [of _ uid encrypted step d1] by fastforce
qed

lemma spent_confirm:
  assumes "confirmEnrollment cr ra input d = (status, d')" "fresh_confirm (sealTOTP cr) sec h d" "spent uid sec h step code d"
  shows "spent uid sec h step code d'"
proof (cases "status = 200")
  case True
  note rows = confirmEnrollment_rows [OF assms(1) [unfolded True]]
  have "m \<in> set (owner_mfa d)" if "m \<in> set (owner_mfa d')" "mf_secret m = sec" for m
    using rows that assms(2) unfolding fresh_confirm_def by metis
  moreover have "(h, uid) \<in> set (owner_recovery d)" if "(h, uid) \<in> set (owner_recovery d')"
    using rows that assms(2) unfolding fresh_confirm_def by force
  ultimately show ?thesis using assms(3) by (auto simp: spent_def step_spent_def code_spent_def split: option.splits)
qed (use confirmEnrollment_other [OF assms(1)] assms(3) in simp)

lemma spent_step:
  assumes "auth_step cr uid sec h d d'" "spent uid sec h step code d"
  shows "spent uid sec h step code d'"
  using assms(1)
proof cases
  case (signed_in seal ra st hdr path body d0 status)
  let ?cr = "cr\<lparr>sealTOTP := seal\<rparr>"
  show ?thesis
  proof (cases "path = PathConfirm")
    case True
    then have f: "fresh_confirm (sealTOTP ?cr) sec h d" using signed_in(2) by simp
    have "d' = d \<or> (\<exists>input. confirmEnrollment ?cr ra input d = (status, d'))"
      using signed_in(1) True by (auto simp: signIn_def split: option.splits)
    then show ?thesis using spent_confirm [OF _ f assms(2)] assms(2) by blast
  next
    case False
    have "spent uid sec h step code (snd (signIn ?cr ra st hdr path body d0 d))"
      using False assms(2) spent_begin [OF assms(2)] spent_login [OF assms(2)]
      by (auto simp: signIn_def Let_def split: option.splits)
    then show ?thesis using signed_in(1) by simp
  qed
next
  case (logged_out token)
  then show ?thesis using assms(2) by (simp add: logout_def)
next
  case (authorized now dr g token i dg code')
  then show ?thesis using spent_authorize [OF assms(2)] by simp
next
  case (dispatched now dr g start)
  have "owner_mfa d' = owner_mfa d \<and> owner_recovery d' = owner_recovery d"
    unfolding dispatched by (auto simp: dispatchUpdate_def set_update_def split: sum.splits option.splits start_reply.splits)
  then show ?thesis using assms(2) spent_frame [of d' d] by simp
next
  case (recovered salt pw)
  then show ?thesis
    using assms(2) by (auto simp: RecoverOwner_def cancel_pending_def spent_def step_spent_def code_spent_def split: option.splits)
qed

lemma spent_steps: "auth_steps cr uid sec h d d' \<Longrightarrow> spent uid sec h step code d \<Longrightarrow> spent uid sec h step code d'"
  by (induction rule: auth_steps.induct) (auto intro: spent_step)

section \<open>Properties\<close>

text \<open>C38: A second factor is good once. After a transaction consumed a one-time code or a recovery code, no later
  transaction, from whatever earlier reading of the credential it started, consumes it again:
  a one-time code of the same or an earlier step of the same authenticator, and the same
  recovery code, are refused, whatever other requests ran in between, as long as an enrollment that is confirmed in between
  seals its secret to another ciphertext and drew other recovery codes.\<close>

theorem second_factor_used_once:
  assumes "consumeFactor cr oc input step d = (True, d1)" "distinct (map mf_user (owner_mfa d))"
    and "auth_steps cr (oc_id oc) (oc_encrypted oc) (recoveryHash cr (in_RecoveryCode input)) d1 d2"
    and "oc_id oc' = oc_id oc" "oc_encrypted oc' = oc_encrypted oc"
  shows "(in_RecoveryCode input = '''' \<and> in_RecoveryCode input' = '''' \<and> step' \<le> step \<longrightarrow> \<not> fst (consumeFactor cr oc' input' step' d2))
    \<and> (in_RecoveryCode input \<noteq> '''' \<and> in_RecoveryCode input' = in_RecoveryCode input \<longrightarrow> \<not> fst (consumeFactor cr oc' input' step' d2))"
proof (intro conjI impI)
  assume a: "in_RecoveryCode input = '''' \<and> in_RecoveryCode input' = '''' \<and> step' \<le> step"
  have "spent (oc_id oc) (oc_encrypted oc) (recoveryHash cr (in_RecoveryCode input)) (Some step) False d1"
  proof -
    let ?P = "\<lambda>m. mf_user m = oc_id oc \<and> mf_last_step m < step \<and> mf_secret m = oc_encrypted oc"
    have c: "count_where ?P (owner_mfa d) = 1" and d1: "owner_mfa d1 = update_where ?P (\<lambda>m. m\<lparr>mf_last_step := step\<rparr>) (owner_mfa d)"
      using assms(1) a by (auto simp: consumeFactor_def Let_def)
    have "step \<le> mf_last_step m" if "m \<in> set (owner_mfa d1)" "mf_user m = oc_id oc" "mf_secret m = oc_encrypted oc" for m
      using that d1 by (auto simp: set_update_where split: if_splits)
    then show ?thesis by (simp add: spent_def step_spent_def)
  qed
  from spent_steps [OF assms(3) this] have "step_spent (oc_id oc) (oc_encrypted oc) step d2" by (simp add: spent_def)
  then have "count_where (\<lambda>m. mf_user m = oc_id oc' \<and> mf_last_step m < step' \<and> mf_secret m = oc_encrypted oc') (owner_mfa d2) = 0"
    using a assms(4,5) by (fastforce simp: count_where_0_iff step_spent_def)
  then show "\<not> fst (consumeFactor cr oc' input' step' d2)" using a by (simp add: consumeFactor_def Let_def)
next
  assume a: "in_RecoveryCode input \<noteq> '''' \<and> in_RecoveryCode input' = in_RecoveryCode input"
  have "spent (oc_id oc) (oc_encrypted oc) (recoveryHash cr (in_RecoveryCode input)) None True d1"
    using assms(1) a by (auto simp: consumeFactor_def Let_def spent_def code_spent_def)
  from spent_steps [OF assms(3) this] have "(recoveryHash cr (in_RecoveryCode input), oc_id oc) \<notin> set (owner_recovery d2)"
    by (simp add: spent_def code_spent_def)
  then have "count_where (\<lambda>r. r = (recoveryHash cr (in_RecoveryCode input'), oc_id oc')) (owner_recovery d2) = 0"
    using a assms(4) by (auto simp: count_where_0_iff)
  then show "\<not> fst (consumeFactor cr oc' input' step' d2)" using a by (simp add: consumeFactor_def Let_def)
qed

definition demo_crypto :: crypto where
  "demo_crypto = \<lparr>hmac_sha1 = demo_hmac, sha256 = (\<lambda>s. s), passwordHash = (\<lambda>p s. p @ s), sealTOTP = (\<lambda>s p. Some s), openTOTP = (\<lambda>s p. Some s),
     b64url = (\<lambda>s. s), b64url_decode = Some\<rparr>"

definition demo_auth :: auth_db where
  "demo_auth = \<lparr>users = [\<lparr>us_id = ''u'', us_account = ''a'', us_email = '''', us_hash = ''correct horse'', us_salt = ''''\<rparr>], installation = Some ''u'',
     owner_mfa = [\<lparr>mf_user = ''u'', mf_secret = replicate 20 (CHR ''k''), mf_last_step = 1\<rparr>], owner_recovery = [], user_sessions = [],
     auth_enrollment = None, update_authorizations = []\<rparr>"

definition demo_owner :: owner_credential where
  "demo_owner = \<lparr>oc_id = ''u'', oc_hash = ''correct horse'', oc_salt = '''', oc_encrypted = replicate 20 (CHR ''k''), oc_lastStep = 1\<rparr>"

definition demo_input :: owner_credentials where
  "demo_input = \<lparr>in_Password = ''correct horse'', in_Code = TOTPCode demo_hmac (replicate 20 (CHR ''k'')) 2 6, in_RecoveryCode = '''', in_EnrollmentToken = ''''\<rparr>"

theorem second_factor_used_once_witness:
  "\<exists>d1. consumeFactor demo_crypto demo_owner demo_input 2 demo_auth = (True, d1) \<and> \<not> fst (consumeFactor demo_crypto demo_owner demo_input 2 (logout demo_crypto ''t'' d1))"
proof -
  obtain d1 where c: "consumeFactor demo_crypto demo_owner demo_input 2 demo_auth = (True, d1)"
    by (simp add: consumeFactor_def demo_input_def demo_owner_def demo_auth_def Let_def)
  have st: "auth_steps demo_crypto (oc_id demo_owner) (oc_encrypted demo_owner) (recoveryHash demo_crypto (in_RecoveryCode demo_input)) d1 (logout demo_crypto ''t'' d1)"
    by (rule auth_more [OF auth_none logged_out])
  have "distinct (map mf_user (owner_mfa demo_auth))" by (simp add: demo_auth_def)
  from second_factor_used_once [OF c this st, of demo_owner demo_input 2] c show ?thesis by (auto simp: demo_input_def)
qed

text \<open>The proof of both factors in a request: the password of the credential that was read, and a one-time code of a step after the last
  one used or an unused recovery code, which is spent in the new database.\<close>

definition both_factors :: "crypto \<Rightarrow> time \<Rightarrow> owner_credentials \<Rightarrow> owner_credential \<Rightarrow> auth_db \<Rightarrow> auth_db \<Rightarrow> bool" where
  "both_factors cr now input oc d d' \<longleftrightarrow>
     passwordHash cr (in_Password input) (oc_salt oc) = oc_hash oc \<and> 12 \<le> length (in_Password input) \<and>
     (if in_RecoveryCode input = ''''
      then \<exists>secret step m. openTOTP cr (oc_encrypted oc) (''owner-totp:'' @ oc_id oc) = Some secret
        \<and> VerifyTOTP (hmac_sha1 cr) secret (in_Code input) now = (step, True) \<and> oc_lastStep oc < step
        \<and> m \<in> set (owner_mfa d) \<and> mf_user m = oc_id oc \<and> mf_secret m = oc_encrypted oc \<and> mf_last_step m < step
        \<and> step_spent (oc_id oc) (oc_encrypted oc) step d'
      else (recoveryHash cr (in_RecoveryCode input), oc_id oc) \<in> set (owner_recovery d)
        \<and> (recoveryHash cr (in_RecoveryCode input), oc_id oc) \<notin> set (owner_recovery d'))"

lemma both_factorsI:
  assumes "passwordHash cr (in_Password input) (oc_salt oc) = oc_hash oc" "12 \<le> length (in_Password input)"
    and sf: "secondFactor cr now oc input = Some (step, True)" and cf: "consumeFactor cr oc input step d = (True, d1)"
    and frame: "owner_mfa d' = owner_mfa d1" "owner_recovery d' = owner_recovery d1"
  shows "both_factors cr now input oc d d'"
proof (cases "in_RecoveryCode input = ''''")
  case True
  let ?P = "\<lambda>m. mf_user m = oc_id oc \<and> mf_last_step m < step \<and> mf_secret m = oc_encrypted oc"
  obtain secret where "openTOTP cr (oc_encrypted oc) (''owner-totp:'' @ oc_id oc) = Some secret"
    "VerifyTOTP (hmac_sha1 cr) secret (in_Code input) now = (step, True)" "oc_lastStep oc < step"
    using sf True by (auto simp: secondFactor_def split: if_splits option.splits prod.splits)
  moreover have c: "count_where ?P (owner_mfa d) = 1" and d1: "owner_mfa d1 = update_where ?P (\<lambda>m. m\<lparr>mf_last_step := step\<rparr>) (owner_mfa d)"
    using cf True by (auto simp: consumeFactor_def Let_def)
  from c have "count_where ?P (owner_mfa d) \<noteq> 0" by simp
  then obtain m where "m \<in> set (owner_mfa d)" "?P m" unfolding count_where_0_iff by blast
  moreover have "step_spent (oc_id oc) (oc_encrypted oc) step d'"
    unfolding step_spent_def frame d1 by (auto simp: set_update_where)
  ultimately show ?thesis using True assms(1,2) unfolding both_factors_def by auto
next
  case False
  have "count_where (\<lambda>r. r = (recoveryHash cr (in_RecoveryCode input), oc_id oc)) (owner_recovery d) \<noteq> 0"
    and "owner_recovery d1 = filter (\<lambda>r. r \<noteq> (recoveryHash cr (in_RecoveryCode input), oc_id oc)) (owner_recovery d)"
    using cf False by (auto simp: consumeFactor_def Let_def)
  then show ?thesis using False assms(1,2) frame by (auto simp: both_factors_def count_where_0_iff)
qed

text \<open>The proof of an enrollment: its token, before it expires, and a valid code of the new authenticator. It is for an installation
  without an owner, or for the owner whose password it was begun with.\<close>

definition enrollment_proved :: "crypto \<Rightarrow> time \<Rightarrow> owner_credentials \<Rightarrow> string \<Rightarrow> auth_db \<Rightarrow> bool" where
  "enrollment_proved cr now input uid d \<longleftrightarrow>
     (\<exists>en secret step. auth_enrollment d = Some en \<and> en_token en = sessionHash cr (in_EnrollmentToken input) \<and> now < en_expires en \<and>
        openTOTP cr (en_secret en) (''totp-enrollment:'' @ b64url cr (en_token en)) = Some secret \<and>
        VerifyTOTP (hmac_sha1 cr) secret (in_Code input) now = (step, True) \<and>
        (case en_user en of
           None \<Rightarrow> installation d = None
         | Some u \<Rightarrow> u = uid \<and> installation d = Some u \<and> (\<exists>r \<in> set (users d). us_id r = u \<and> us_hash r = en_hash en \<and> us_salt r = en_salt en)))"

text \<open>Who may begin an enrollment: whoever has the setup token, as long as there is no second factor, and if there is an owner with its
  password; or the owner with both factors.\<close>

definition enrollment_allowed ::
  "crypto \<Rightarrow> time \<Rightarrow> string \<Rightarrow> string \<Rightarrow> auth_path \<Rightarrow> owner_credentials \<Rightarrow> enrollment \<Rightarrow> auth_db \<Rightarrow> auth_db \<Rightarrow> auth_db \<Rightarrow> bool" where
  "enrollment_allowed cr now setupToken header path input en d0 d d' \<longleftrightarrow>
     path = PathSetup \<and> Matches header setupToken \<and> owner_mfa d = [] \<and>
       (case en_user en of
          None \<Rightarrow> (\<forall>oc. owner d0 = Some oc \<longrightarrow> oc_id oc = '''') \<and> en_hash en = passwordHash cr (in_Password input) (en_salt en)
        | Some u \<Rightarrow> (\<exists>oc. owner d0 = Some oc \<and> oc_id oc = u \<and> oc_encrypted oc = '''' \<and> passwordHash cr (in_Password input) (oc_salt oc) = oc_hash oc
            \<and> en_hash en = oc_hash oc \<and> en_salt en = oc_salt oc))
     \<or> path = PathReplace \<and> (\<exists>oc. owner d0 = Some oc \<and> en_user en = Some (oc_id oc) \<and> en_hash en = oc_hash oc \<and> en_salt en = oc_salt oc
         \<and> both_factors cr now input oc d d')"

lemma insertSession_new:
  assumes "insertSession cr now uid raw d = Some d'" "s \<in> set (user_sessions d')"
  shows "s \<in> set (user_sessions d) \<or> s = \<lparr>se_hash = sessionHash cr raw, se_user = uid, se_expires = now + 7 * 24 * 3600 * second\<rparr>"
  using assms drop_expired_subset [of 128 now "user_sessions d"] by (auto simp: insertSession_def Let_def split: if_splits)

lemma login_session:
  assumes "login_tx cr ra oc input step d = (status, d')" "s \<in> set (user_sessions d')" "s \<notin> set (user_sessions d)"
  shows "status = 200 \<and> s = \<lparr>se_hash = sessionHash cr (ra_token ra), se_user = oc_id oc, se_expires = ra_now ra + 7 * 24 * 3600 * second\<rparr> \<and>
    (\<exists>d1. consumeFactor cr oc input step d = (True, d1) \<and> owner_mfa d' = owner_mfa d1 \<and> owner_recovery d' = owner_recovery d1)"
proof -
  from assms obtain d1 where cf: "consumeFactor cr oc input step d = (True, d1)"
    and ins: "insertSession cr (ra_now ra) (oc_id oc) (ra_token ra) d1 = Some d'" and st: "status = 200"
    by (auto simp: login_tx_def split: prod.splits bool.splits option.splits)
  show ?thesis
    using insertSession_new [OF ins assms(2)] consume_frame [OF cf] insertSession_frame [OF ins] cf assms(3) st by auto
qed

lemma confirm_session:
  assumes "confirmEnrollment cr ra input d = (status, d')" "s \<in> set (user_sessions d')" "s \<notin> set (user_sessions d)"
  shows "status = 200 \<and> s = \<lparr>se_hash = sessionHash cr (ra_token ra), se_user = se_user s, se_expires = ra_now ra + 7 * 24 * 3600 * second\<rparr> \<and>
    enrollment_proved cr (ra_now ra) input (se_user s) d"
proof (cases "status = 200")
  case True
  obtain en secret step uid d1 encrypted where c: "auth_enrollment d = Some en" "en_token en = sessionHash cr (in_EnrollmentToken input)"
      "ra_now ra < en_expires en" "openTOTP cr (en_secret en) (''totp-enrollment:'' @ b64url cr (en_token en)) = Some secret"
      "VerifyTOTP (hmac_sha1 cr) secret (in_Code input) (ra_now ra) = (step, True)" "enrolled_user ra en d = Inr (uid, d1)"
    and ins: "insertSession cr (ra_now ra) uid (ra_token ra)
       ((cancel_pending (\<lambda>u. up_user u = uid)
          ((store_mfa uid encrypted step d1)\<lparr>owner_recovery := filter (\<lambda>r. snd r \<noteq> uid) (owner_recovery d1) @ map (\<lambda>c. (c, uid)) (en_recovery en),
             user_sessions := filter (\<lambda>s. se_user s \<noteq> uid) (user_sessions (store_mfa uid encrypted step d1))\<rparr>))\<lparr>auth_enrollment := None\<rparr>) = Some d'"
    using confirmEnrollment_done [OF assms(1) [unfolded True]] by blast
  have "user_sessions (store_mfa uid encrypted step d1) = user_sessions d"
    using enrolled_user_frame [OF c(6)] by (simp add: store_mfa_def)
  then have s: "s = \<lparr>se_hash = sessionHash cr (ra_token ra), se_user = uid, se_expires = ra_now ra + 7 * 24 * 3600 * second\<rparr>"
    using insertSession_new [OF ins assms(2)] assms(3) by (auto simp: cancel_pending_def)
  moreover have "case en_user en of None \<Rightarrow> installation d = None
      | Some u \<Rightarrow> u = uid \<and> installation d = Some u \<and> (\<exists>r \<in> set (users d). us_id r = u \<and> us_hash r = en_hash en \<and> us_salt r = en_salt en)"
    using c(6) by (auto simp: enrolled_user_def list_ex_iff split: option.splits if_splits)
  ultimately show ?thesis using True c(1-5) by (auto simp: enrollment_proved_def)
qed (use confirmEnrollment_other [OF assms(1)] assms(2,3) in simp)

definition demo_chance :: chance where
  "demo_chance = \<lparr>ra_now = 61 * second, ra_token = ''tok'', ra_secret = '''', ra_codes = [], ra_salt = '''', ra_ids = ('''', '''')\<rparr>"

lemma signIn_opens:
  "signIn cr ra setupToken header path (Some input) d0 d = (200, d') \<Longrightarrow> path = PathLogin \<or> path = PathConfirm \<Longrightarrow> user_sessions d' \<noteq> []"
proof -
  have i: "insertSession cr now uid raw x = Some d' \<Longrightarrow> user_sessions d' \<noteq> []" for now uid raw x
    by (auto simp: insertSession_def Let_def split: if_splits)
  assume a: "signIn cr ra setupToken header path (Some input) d0 d = (200, d')" "path = PathLogin \<or> path = PathConfirm"
  show ?thesis
  proof (cases "path = PathConfirm")
    case True
    then have "confirmEnrollment cr ra input d = (200, d')" using a(1) by (simp add: signIn_def)
    then show ?thesis using confirmEnrollment_done i by blast
  next
    case False
    then obtain oc step where "login_tx cr ra oc input step d = (200, d')"
      using a by (auto simp: signIn_def Let_def split: option.splits if_splits prod.splits)
    then show ?thesis using i by (auto simp: login_tx_def split: prod.splits bool.splits option.splits)
  qed
qed

lemma demo_login: "\<exists>d'. signIn demo_crypto demo_chance '''' '''' PathLogin (Some demo_input) demo_auth demo_auth = (200, d')"
proof -
  have own: "owner demo_auth = Some demo_owner" by (simp add: owner_def demo_auth_def demo_owner_def)
  have s: "totp_step (61 * second) = 2" by (simp add: totp_step_def second_def)
  have shape: "TOTPCode demo_hmac (replicate 20 (CHR ''k'')) 2 6 \<noteq> ''''"
    using TOTPCode_shape [of demo_hmac "replicate 20 (CHR ''k'')" 2] by auto
  have v: "VerifyTOTP demo_hmac (replicate 20 (CHR ''k'')) (TOTPCode demo_hmac (replicate 20 (CHR ''k'')) 2 6) (61 * second) = (2, True)"
    using TOTPCode_shape [of demo_hmac "replicate 20 (CHR ''k'')" 2] by (simp add: VerifyTOTP_def totp_window_def s Let_def)
  have sf: "secondFactor demo_crypto (61 * second) demo_owner demo_input = Some (2, True)"
    using v shape by (simp add: secondFactor_def demo_input_def demo_owner_def demo_crypto_def)
  show ?thesis
    using own sf by (simp add: signIn_def demo_chance_def demo_input_def demo_owner_def demo_crypto_def login_tx_def consumeFactor_def
        demo_auth_def insertSession_def Let_def)
qed

text \<open>Offline recovery revokes everything: afterwards no token is a session, no update is pending, no enrollment
  is open, and no login succeeds, since there is no second factor until a new one is enrolled.\<close>

lemma RecoverOwner_revokes:
  assumes "RecoverOwner cr salt password d = (True, d')"
  shows "session_account cr now token d' = None \<and> (\<forall>u \<in> set (update_authorizations d'). up_state u \<noteq> PENDING) \<and> auth_enrollment d' = None
    \<and> fst (signIn cr ra st hdr PathLogin (Some input) d' e) \<noteq> 200"
proof -
  have d': "user_sessions d' = []" "owner_mfa d' = []" "auth_enrollment d' = None"
    and up: "\<forall>u \<in> set (update_authorizations d'). up_state u \<noteq> PENDING"
    using assms by (auto simp: RecoverOwner_def cancel_pending_def set_update_where split: if_splits option.splits)
  have "(case owner d' of None \<Rightarrow> no_owner | Some x \<Rightarrow> x) = oc \<Longrightarrow> oc_encrypted oc = ''''" for oc
    by (auto simp: owner_def no_owner_def d' split: option.splits)
  then have "secondFactor cr n (case owner d' of None \<Rightarrow> no_owner | Some x \<Rightarrow> x) input = Some (0, False)" for n
    by (simp add: secondFactor_def)
  then have "fst (signIn cr ra st hdr PathLogin (Some input) d' e) \<noteq> 200"
    by (auto simp: signIn_def Let_def)
  with d' up show ?thesis by (simp add: session_account_def)
qed

lemma RecoverOwner_revokes_witness:
  "session_account demo_crypto 0 ''t'' (snd (RecoverOwner demo_crypto ''salt'' ''a new password'' demo_auth)) = None"
proof -
  obtain d' where r: "RecoverOwner demo_crypto ''salt'' ''a new password'' demo_auth = (True, d')" by (simp add: RecoverOwner_def demo_auth_def)
  from RecoverOwner_revokes [OF r, of 0 "''t''" demo_chance "''''" "''''" demo_input demo_auth] r show ?thesis by simp
qed

text \<open>Confirming an enrollment replaces all credentials at once: the only session of the owner is the new one, the
  enrollment is spent, exactly the ten new recovery codes are valid for the owner, and updates
  that were pending for the owner are cancelled; the enrollment must be unexpired and its code
  valid.\<close>

lemma confirmEnrollment_replaces_credentials:
  assumes "confirmEnrollment cr ra input d = (200, d')"
  shows "\<exists>uid en. auth_enrollment d = Some en \<and> ra_now ra < en_expires en \<and> installation d' = Some uid
    \<and> auth_enrollment d' = None
    \<and> (\<forall>s \<in> set (user_sessions d'). se_user s = uid \<longrightarrow> se_hash s = sessionHash cr (ra_token ra))
    \<and> {c. (c, uid) \<in> set (owner_recovery d')} = set (en_recovery en) \<and> card (set (en_recovery en)) = 10
    \<and> (\<forall>u \<in> set (update_authorizations d'). up_user u = uid \<longrightarrow> up_state u \<noteq> PENDING)"
proof -
  let ?h = "sessionHash cr (in_EnrollmentToken input)"
  from confirmEnrollment_done [OF assms] obtain en secret step uid d1 encrypted where
    en: "auth_enrollment d = Some en" "ra_now ra < en_expires en"
    and eu: "enrolled_user ra en d = Inr (uid, d1)"
    and rc: "length (en_recovery en) = 10" "distinct (en_recovery en)"
    and ins: "insertSession cr (ra_now ra) uid (ra_token ra)
       ((cancel_pending (\<lambda>u. up_user u = uid)
          ((store_mfa uid encrypted step d1)\<lparr>owner_recovery := filter (\<lambda>r. snd r \<noteq> uid) (owner_recovery d1) @ map (\<lambda>c. (c, uid)) (en_recovery en),
             user_sessions := filter (\<lambda>s. se_user s \<noteq> uid) (user_sessions (store_mfa uid encrypted step d1))\<rparr>))\<lparr>auth_enrollment := None\<rparr>) = Some d'"
    by blast
  note fr = insertSession_frame [OF ins]
  have inst: "installation d1 = Some uid" using eu by (auto simp: enrolled_user_def split: option.splits if_splits)
  have "installation (store_mfa uid encrypted step d1) = installation d1" by (simp add: store_mfa_def)
  with fr inst have 1: "installation d' = Some uid" by (simp add: cancel_pending_def)
  have 2: "auth_enrollment d' = None" using fr by simp
  have 3: "se_hash s = sessionHash cr (ra_token ra)" if "s \<in> set (user_sessions d')" "se_user s = uid" for s
    using insertSession_mem [OF ins that(1)] that(2) by (auto simp: cancel_pending_def)
  have 4: "{c. (c, uid) \<in> set (owner_recovery d')} = set (en_recovery en)" using fr by (auto simp: cancel_pending_def)
  have 5: "card (set (en_recovery en)) = 10" using rc by (simp add: distinct_card)
  have 6: "\<forall>u \<in> set (update_authorizations d'). up_user u = uid \<longrightarrow> up_state u \<noteq> PENDING"
  proof -
    have "update_authorizations d' = update_where (\<lambda>u. up_state u = PENDING \<and> up_user u = uid) (\<lambda>u. u\<lparr>up_state := CANCELLED\<rparr>)
        (update_authorizations (store_mfa uid encrypted step d1))"
      using fr by (simp add: cancel_pending_def)
    then show ?thesis
      using update_where_off [of _ "\<lambda>u. up_state u = PENDING \<and> up_user u = uid" "\<lambda>u. u\<lparr>up_state := CANCELLED\<rparr>"
          "update_authorizations (store_mfa uid encrypted step d1)" "\<lambda>u. up_user u = uid \<and> up_state u = PENDING"] by simp blast
  qed
  show ?thesis using en 1 2 3 4 5 6 by blast
qed

lemma signIn_session:
  assumes "signIn cr ra setupToken header path body d0 d = (status, d')" "s \<in> set (user_sessions d')" "s \<notin> set (user_sessions d)"
  shows "status = 200 \<and> s = \<lparr>se_hash = sessionHash cr (ra_token ra), se_user = se_user s, se_expires = ra_now ra + 7 * 24 * 3600 * second\<rparr> \<and>
    (\<exists>input. body = Some input \<and>
       (path = PathLogin \<and> (\<exists>oc. owner d0 = Some oc \<and> se_user s = oc_id oc \<and> both_factors cr (ra_now ra) input oc d d') \<or>
        path = PathConfirm \<and> enrollment_proved cr (ra_now ra) input (se_user s) d))"
proof -
  have new: "d' \<noteq> d" using assms(2,3) by auto
  obtain input where b: "body = Some input" using assms(1) new by (cases body) (auto simp: signIn_def split: if_splits)
  let ?oc = "case owner d0 of None \<Rightarrow> no_owner | Some x \<Rightarrow> x"
  have bgn: "user_sessions (snd (beginEnrollment cr ra oc input r t d)) = user_sessions d" for oc r t
    by (cases "consumeFactor cr oc input t d")
       (auto simp: beginEnrollment_def Let_def dest: consume_frame split: option.splits bool.splits)
  consider "path = PathConfirm" | "path = PathLogin" | "path = PathSetup \<or> path = PathReplace" by (cases path) auto
  then show ?thesis
  proof cases
    case 1
    then have "confirmEnrollment cr ra input d = (status, d')" using assms(1) b by (simp add: signIn_def)
    from confirm_session [OF this assms(2,3)] show ?thesis using 1 b by simp
  next
    case 2
    then obtain step where pw: "oc_id ?oc \<noteq> ''''" "passwordHash cr (in_Password input) (oc_salt ?oc) = oc_hash ?oc" "12 \<le> length (in_Password input)"
      and sf: "secondFactor cr (ra_now ra) ?oc input = Some (step, True)" and lt: "login_tx cr ra ?oc input step d = (status, d')"
      using assms(1) b new by (auto simp: signIn_def Let_def split: option.splits if_splits prod.splits)
    have own: "owner d0 = Some ?oc" using pw(1) by (auto simp: no_owner_def split: option.splits)
    note l = login_session [OF lt assms(2,3)]
    then obtain d1 where "consumeFactor cr ?oc input step d = (True, d1)" "owner_mfa d' = owner_mfa d1" "owner_recovery d' = owner_recovery d1" by blast
    then have "both_factors cr (ra_now ra) input ?oc d d'" by (rule both_factorsI [OF pw(2,3) sf])
    moreover have "se_user s = oc_id ?oc" using l by (metis session_token.select_convs(2))
    ultimately show ?thesis using l own b 2 by auto
  next
    case 3
    then have "d' = d \<or> (\<exists>r t. d' = snd (beginEnrollment cr ra ?oc input r t d))"
      using assms(1) b by (auto simp: signIn_def Let_def split: if_splits option.splits prod.splits) (metis snd_conv)+
    then show ?thesis using bgn assms(2,3) by fastforce
  qed
qed

lemma signIn_enrollment:
  assumes "signIn cr ra setupToken header path body d0 d = (status, d')" "auth_enrollment d' = Some en" "auth_enrollment d \<noteq> Some en"
  shows "status = 200 \<and> (\<exists>input. body = Some input \<and> enrollment_allowed cr (ra_now ra) setupToken header path input en d0 d d')"
proof -
  have new: "d' \<noteq> d" using assms(2,3) by auto
  obtain input where b: "body = Some input" using assms(1) new by (cases body) (auto simp: signIn_def split: if_splits)
  let ?oc = "case owner d0 of None \<Rightarrow> no_owner | Some x \<Rightarrow> x"
  consider "path = PathConfirm" | "path = PathLogin" | "path = PathSetup" | "path = PathReplace" by (cases path) auto
  then show ?thesis
  proof cases
    case 1
    then have c: "confirmEnrollment cr ra input d = (status, d')" using assms(1) b by (simp add: signIn_def)
    then have "status = 200" using new confirmEnrollment_other by blast
    with c have "auth_enrollment d' = None" using confirmEnrollment_replaces_credentials by blast
    then show ?thesis using assms(2) by simp
  next
    case 2
    then obtain step where "login_tx cr ra ?oc input step d = (status, d')"
      using assms(1) b new by (auto simp: signIn_def Let_def split: option.splits if_splits prod.splits)
    then have "auth_enrollment d' = auth_enrollment d"
      by (auto simp: login_tx_def dest!: consume_frame insertSession_frame split: prod.splits bool.splits option.splits)
    then show ?thesis using assms(2,3) by simp
  next
    case 3
    then have m: "Matches header setupToken" "oc_encrypted ?oc = ''''" "oc_id ?oc \<noteq> '''' \<Longrightarrow> passwordHash cr (in_Password input) (oc_salt ?oc) = oc_hash ?oc"
      and bg: "beginEnrollment cr ra ?oc input False 0 d = (status, d')"
      using assms(1) b new by (auto simp: signIn_def Let_def split: if_splits)
    have own: "owner d0 = Some ?oc" if "oc_id ?oc \<noteq> ''''" using that by (auto simp: no_owner_def split: option.splits)
    from bg new assms(2) have "status = 200" "owner_mfa d = []" and en: "en_user en = (if oc_id ?oc = '''' then None else Some (oc_id ?oc))"
      "en_hash en = (if oc_id ?oc = '''' then passwordHash cr (in_Password input) (en_salt en) else oc_hash ?oc)"
      "oc_id ?oc \<noteq> '''' \<Longrightarrow> en_salt en = oc_salt ?oc"
      by (auto simp: beginEnrollment_def Let_def split: option.splits if_splits)
    moreover have "\<forall>oc. owner d0 = Some oc \<longrightarrow> oc_id oc = ''''" if "oc_id ?oc = ''''" using that by auto
    ultimately show ?thesis using 3 m own b unfolding enrollment_allowed_def by (cases "oc_id ?oc = ''''") auto
  next
    case 4
    then obtain step where pw: "oc_id ?oc \<noteq> ''''" "passwordHash cr (in_Password input) (oc_salt ?oc) = oc_hash ?oc" "12 \<le> length (in_Password input)"
      and sf: "secondFactor cr (ra_now ra) ?oc input = Some (step, True)" and bg: "beginEnrollment cr ra ?oc input True step d = (status, d')"
      using assms(1) b new by (auto simp: signIn_def Let_def split: option.splits if_splits prod.splits)
    have own: "owner d0 = Some ?oc" using pw(1) by (auto simp: no_owner_def split: option.splits)
    from bg new obtain d1 where cf: "consumeFactor cr ?oc input step d = (True, d1)" "status = 200" "owner_mfa d' = owner_mfa d1" "owner_recovery d' = owner_recovery d1"
      by (auto simp: beginEnrollment_def Let_def split: option.splits prod.splits bool.splits)
    have "en_user en = Some (oc_id ?oc) \<and> en_hash en = oc_hash ?oc \<and> en_salt en = oc_salt ?oc"
      using bg cf(1,2) assms(2) pw(1) by (auto simp: beginEnrollment_def Let_def split: option.splits)
    moreover have "both_factors cr (ra_now ra) input ?oc d d'" by (rule both_factorsI [OF pw(2,3) sf cf(1,3,4)])
    ultimately show ?thesis using 4 own b cf(2) unfolding enrollment_allowed_def by blast
  qed
qed

text \<open>The other requests, the dispatch of an update and the offline recovery.\<close>

definition nothing_opened :: "auth_db \<Rightarrow> auth_db \<Rightarrow> bool" where
  "nothing_opened d d' \<longleftrightarrow> set (user_sessions d') \<subseteq> set (user_sessions d) \<and> (auth_enrollment d' = auth_enrollment d \<or> auth_enrollment d' = None)"

lemma nothing_opened_others:
  "nothing_opened d (logout cr token d)" "nothing_opened d (snd (authorizeUpdate cr now dr g token i dg code d))"
  "nothing_opened d (snd (snd (dispatchUpdate now dr g start d)))" "nothing_opened d (snd (RecoverOwner cr salt pw d))"
proof -
  have n: "nothing_opened d (snd (authorize_new cr now u h i dg code d))" for u h
    by (auto simp: authorize_new_def nothing_opened_def cancel_pending_def Let_def dest!: consume_frame split: option.splits prod.splits bool.splits)
  show "nothing_opened d (snd (authorizeUpdate cr now dr g token i dg code d))"
    using n by (auto simp: authorizeUpdate_def Let_def nothing_opened_def split: sum.splits option.splits)
  show "nothing_opened d (snd (snd (dispatchUpdate now dr g start d)))"
    by (auto simp: dispatchUpdate_def set_update_def nothing_opened_def split: sum.splits option.splits start_reply.splits)
qed (auto simp: nothing_opened_def logout_def RecoverOwner_def split: option.splits)

text \<open>C39: A session of the owner is opened in two ways only. Whatever request arrives on the sign-in routes and whatever it is answered, a
  new session means that it was answered with 200, belongs to its fresh token and is valid for seven days, and either the request is
  a login with both factors, which is then spent, or it confirms an open enrollment with its token and a code of the new
  authenticator, where no password is asked for: the enrollment is the first of an installation without an owner, or of the owner whose
  password is the one it was begun with. An enrollment is only opened by whoever has the setup token, while no second factor is
  enrolled and, if there is an owner, with its password, or by the owner with both factors. Signing out, authorizing and
  dispatching updates and the offline recovery open neither.\<close>

theorem session_needs_credentials:
  assumes "signIn cr ra setupToken header path body d0 d = (status, d')"
  shows "(\<forall>s \<in> set (user_sessions d'). s \<notin> set (user_sessions d) \<longrightarrow>
       status = 200 \<and> se_hash s = sessionHash cr (ra_token ra) \<and> se_expires s = ra_now ra + 7 * 24 * 3600 * second \<and>
       (\<exists>input. body = Some input \<and>
          (path = PathLogin \<and> (\<exists>oc. owner d0 = Some oc \<and> se_user s = oc_id oc \<and> both_factors cr (ra_now ra) input oc d d') \<or>
           path = PathConfirm \<and> enrollment_proved cr (ra_now ra) input (se_user s) d)))
    \<and> (\<forall>en. auth_enrollment d' = Some en \<longrightarrow> auth_enrollment d \<noteq> Some en \<longrightarrow>
       status = 200 \<and> (\<exists>input. body = Some input \<and> enrollment_allowed cr (ra_now ra) setupToken header path input en d0 d d'))
    \<and> nothing_opened d (logout cr token d) \<and> nothing_opened d (snd (authorizeUpdate cr now dr g token i dg code d))
    \<and> nothing_opened d (snd (snd (dispatchUpdate now dr g start d))) \<and> nothing_opened d (snd (RecoverOwner cr salt pw d))"
proof (intro conjI ballI allI impI)
  fix s assume s: "s \<in> set (user_sessions d')" "s \<notin> set (user_sessions d)"
  note n = signIn_session [OF assms s]
  show "status = 200" using n by blast
  show "se_hash s = sessionHash cr (ra_token ra)" "se_expires s = ra_now ra + 7 * 24 * 3600 * second"
    using n by (metis session_token.select_convs(1), metis session_token.select_convs(3))
  show "\<exists>input. body = Some input \<and>
      (path = PathLogin \<and> (\<exists>oc. owner d0 = Some oc \<and> se_user s = oc_id oc \<and> both_factors cr (ra_now ra) input oc d d') \<or>
       path = PathConfirm \<and> enrollment_proved cr (ra_now ra) input (se_user s) d)" using n by blast
next
  fix en assume "auth_enrollment d' = Some en" "auth_enrollment d \<noteq> Some en"
  from signIn_enrollment [OF assms this] show "status = 200"
    "\<exists>input. body = Some input \<and> enrollment_allowed cr (ra_now ra) setupToken header path input en d0 d d'" by blast+
qed (rule nothing_opened_others)+

definition demo_enrolling :: auth_db where
  "demo_enrolling = demo_auth\<lparr>auth_enrollment := Some \<lparr>en_token = replicate 43 (CHR ''e''), en_user = Some ''u'', en_hash = ''correct horse'', en_salt = '''',
     en_secret = replicate 20 (CHR ''k''), en_recovery = map decimal [0..<10], en_expires = 100 * second\<rparr>\<rparr>"

definition demo_confirm :: owner_credentials where
  "demo_confirm = \<lparr>in_Password = '''', in_Code = TOTPCode demo_hmac (replicate 20 (CHR ''k'')) 2 6, in_RecoveryCode = '''', in_EnrollmentToken = replicate 43 (CHR ''e'')\<rparr>"

lemma demo_confirm_ok: "\<exists>d'. confirmEnrollment demo_crypto demo_chance demo_confirm demo_enrolling = (200, d')"
proof -
  have s: "totp_step (61 * second) = 2" by (simp add: totp_step_def second_def)
  have v: "VerifyTOTP demo_hmac (replicate 20 (CHR ''k'')) (TOTPCode demo_hmac (replicate 20 (CHR ''k'')) 2 6) (61 * second) = (2, True)"
    using TOTPCode_shape [of demo_hmac "replicate 20 (CHR ''k'')" 2] by (simp add: VerifyTOTP_def totp_window_def s Let_def)
  have di: "distinct (map decimal [0..<10])" by (auto simp: distinct_map inj_on_def dest: decimal_inj)
  have now: "61 * second < 100 * second" by (simp add: second_def)
  show ?thesis
    unfolding confirmEnrollment_def
    using v di now by (simp add: demo_confirm_def demo_crypto_def demo_chance_def demo_enrolling_def demo_auth_def sessionHash_def
        enrolled_user_def Let_def insertSession_def cancel_pending_def store_mfa_def list_ex_iff del: upt_Suc upt.simps)
qed

lemma confirmEnrollment_replaces_credentials_witness:
  "\<exists>d'. confirmEnrollment demo_crypto demo_chance demo_confirm demo_enrolling = (200, d') \<and> auth_enrollment d' = None"
  using confirmEnrollment_replaces_credentials demo_confirm_ok by blast

theorem session_needs_credentials_witness:
  "\<exists>d' s. signIn demo_crypto demo_chance '''' '''' PathLogin (Some demo_input) demo_auth demo_auth = (200, d') \<and> s \<in> set (user_sessions d') \<and>
     (\<exists>oc. owner demo_auth = Some oc \<and> both_factors demo_crypto (61 * second) demo_input oc demo_auth d') \<and>
     (\<exists>e' s. signIn demo_crypto demo_chance '''' '''' PathConfirm (Some demo_confirm) demo_auth demo_enrolling = (200, e') \<and> s \<in> set (user_sessions e') \<and>
        enrollment_proved demo_crypto (61 * second) demo_confirm (se_user s) demo_enrolling)"
proof -
  obtain d' where l: "signIn demo_crypto demo_chance '''' '''' PathLogin (Some demo_input) demo_auth demo_auth = (200, d')" using demo_login by blast
  obtain e' where c: "signIn demo_crypto demo_chance '''' '''' PathConfirm (Some demo_confirm) demo_auth demo_enrolling = (200, e')"
    using demo_confirm_ok by (auto simp: signIn_def)
  have none: "user_sessions demo_auth = []" "user_sessions demo_enrolling = []" "ra_now demo_chance = 61 * second"
    by (simp_all add: demo_auth_def demo_enrolling_def demo_chance_def)
  have "user_sessions d' \<noteq> []" using signIn_opens [OF l] by simp
  then obtain s where s: "s \<in> set (user_sessions d')" using hd_in_set by blast
  have "user_sessions e' \<noteq> []" using signIn_opens [OF c] by simp
  then obtain t where t: "t \<in> set (user_sessions e')" using hd_in_set by blast
  from conjunct1 [OF session_needs_credentials [OF l]] s none
  have "\<exists>oc. owner demo_auth = Some oc \<and> both_factors demo_crypto (61 * second) demo_input oc demo_auth d'" by auto
  moreover from conjunct1 [OF session_needs_credentials [OF c]] t none
  have "enrollment_proved demo_crypto (61 * second) demo_confirm (se_user t) demo_enrolling" by auto
  ultimately show ?thesis using l c s t by blast
qed

definition one_pending :: "auth_db \<Rightarrow> bool" where
  "one_pending d \<longleftrightarrow> count_where (\<lambda>u. up_state u = PENDING) (update_authorizations d) \<le> 1"

lemma one_pending_cancel: "one_pending d \<Longrightarrow> one_pending (cancel_pending P d)"
  unfolding one_pending_def cancel_pending_def by (auto intro: order_trans [OF count_update_where_le])

lemma one_pending_set: "one_pending d \<Longrightarrow> st \<noteq> PENDING \<Longrightarrow> one_pending (set_update i st d)"
  unfolding one_pending_def set_update_def by (auto intro: order_trans [OF count_update_where_le])

lemma one_pending_authorize_new: "one_pending d \<Longrightarrow> one_pending (snd (authorize_new cr now u h i dg co d))"
  using consume_frame
  by (fastforce simp: authorize_new_def Let_def one_pending_def split: option.splits prod.splits bool.splits)

text \<open>At most one update is pending. Every request, dispatch and recovery keeps this, and an update is sent to
  the host only while the session that authorized it is alive and unexpired.\<close>

lemma one_pending_update:
  assumes "one_pending d"
  shows "one_pending (snd (authorizeUpdate cr now dr g token i dg code d)) \<and> one_pending (snd (snd (dispatchUpdate now dr g start d)))
    \<and> one_pending (snd (RecoverOwner cr salt pw d))
    \<and> (fst (snd (dispatchUpdate now dr g start d)) \<noteq> [] \<longrightarrow>
        (\<exists>u s. u \<in> set (update_authorizations d) \<and> up_state u = PENDING \<and> now < up_expires u \<and> fst (snd (dispatchUpdate now dr g start d)) = [(up_id u, up_digest u)]
           \<and> live_session now (up_session u) d = Some s \<and> se_user s = up_user u))"
proof -
  have 1: "one_pending (snd (authorizeUpdate cr now dr g token i dg code d))"
    using assms one_pending_authorize_new [OF assms] by (auto simp: authorizeUpdate_def Let_def split: sum.splits option.splits)
  have 2: "one_pending (snd (snd (dispatchUpdate now dr g start d)))"
    using assms one_pending_set [OF assms] by (auto simp: dispatchUpdate_def split: sum.splits option.splits start_reply.splits)
  have 3: "one_pending (snd (RecoverOwner cr salt pw d))"
    using assms one_pending_cancel [OF assms, of "\<lambda>_. True"] by (auto simp: RecoverOwner_def one_pending_def split: option.splits)
  have 4: "\<exists>u s. u \<in> set (update_authorizations d) \<and> up_state u = PENDING \<and> now < up_expires u \<and> fst (snd (dispatchUpdate now dr g start d)) = [(up_id u, up_digest u)]
           \<and> live_session now (up_session u) d = Some s \<and> se_user s = up_user u" if "fst (snd (dispatchUpdate now dr g start d)) \<noteq> []"
    using that find_Some_iff_hd [of "\<lambda>u. up_state u = PENDING" "update_authorizations d"]
    by (auto simp: dispatchUpdate_def split: sum.splits option.splits start_reply.splits if_splits)
  show ?thesis using 1 2 3 4 by blast
qed

lemma one_pending_update_witness:
  "one_pending (snd (authorizeUpdate demo_crypto 0 '''' (dir gate_start) ''t'' ''i'' ''d'' ''c'' demo_auth))"
  using one_pending_update [of demo_auth demo_crypto 0 "''''" "dir gate_start"] by (simp add: one_pending_def demo_auth_def)

end
