(* ===== verification/Mp4_Fallback.thy ===== *)
theory Mp4_Fallback
  imports Auth_Primitives "HOL-Library.Monad_Syntax"
begin

text \<open>
  Validation of an uploaded fallback clip, \<^verbatim>\<open>validateFallbackMP4\<close> and \<^verbatim>\<open>supportedAVCConfiguration\<close> of
  \<^verbatim>\<open>backend/internal/application/fallback.go\<close>. The input is untrusted, so every access to a slice is
  checked: a read outside a slice, which would panic, is the outcome \<open>Panic\<close>, and the theorems show that no input
  produces it. A slice is a list of bytes; \<open>d[i:j]\<close> is \<open>slice d i j\<close>.
\<close>

section \<open>Checked accesses\<close>

definition slice :: "string \<Rightarrow> nat \<Rightarrow> nat \<Rightarrow> string option" where
  "slice d i j = (if i \<le> j \<and> j \<le> length d then Some (take (j - i) (drop i d)) else None)"

definition slice_from :: "string \<Rightarrow> nat \<Rightarrow> string option" where
  "slice_from d i = slice d i (length d)"

definition byte_at :: "string \<Rightarrow> nat \<Rightarrow> nat option" where
  "byte_at d i = (if i < length d then Some (of_char (d ! i)) else None)"

text \<open>\<open>binary.BigEndian.UintN(d[i:])\<close> for n bytes.\<close>

definition uint_at :: "nat \<Rightarrow> string \<Rightarrow> nat \<Rightarrow> nat option" where
  "uint_at n d i = (if i + n \<le> length d then Some (be_nat (take n (drop i d))) else None)"

lemma slice_ok [simp]: "i \<le> j \<Longrightarrow> j \<le> length d \<Longrightarrow> slice d i j = Some (take (j - i) (drop i d))"
  by (simp add: slice_def)

lemma slice_from_ok [simp]: "i \<le> length d \<Longrightarrow> slice_from d i = Some (drop i d)"
  by (simp add: slice_from_def)

lemma byte_at_ok [simp]: "i < length d \<Longrightarrow> byte_at d i = Some (of_char (d ! i))"
  by (simp add: byte_at_def)

lemma uint_at_ok [simp]: "i + n \<le> length d \<Longrightarrow> uint_at n d i = Some (be_nat (take n (drop i d)))"
  by (simp add: uint_at_def)

section \<open>AVC configuration\<close>

text \<open>The results are \<open>None\<close> for a panic, otherwise what the Go code returns.\<close>

fun sps_loop :: "nat \<Rightarrow> nat \<Rightarrow> string \<Rightarrow> (string option) option" where
  "sps_loop 0 profile config = Some (Some config)"
| "sps_loop (Suc i) profile config =
     (if length config < 2 then Some None
      else do {
        n \<leftarrow> uint_at 2 config 0;
        config1 \<leftarrow> slice_from config 2;
        if n < 4 \<or> n > length config1 then Some None
        else do {
          b0 \<leftarrow> byte_at config1 0;
          b1 \<leftarrow> byte_at config1 1;
          if b0 mod 32 \<noteq> 7 \<or> b1 \<noteq> profile then Some None
          else do { config2 \<leftarrow> slice_from config1 n; sps_loop i profile config2 } } })"

fun pps_loop :: "nat \<Rightarrow> string \<Rightarrow> (string option) option" where
  "pps_loop 0 config = Some (Some config)"
| "pps_loop (Suc i) config =
     (if length config < 2 then Some None
      else do {
        n \<leftarrow> uint_at 2 config 0;
        config1 \<leftarrow> slice_from config 2;
        if n < 1 \<or> n > length config1 then Some None
        else do {
          b0 \<leftarrow> byte_at config1 0;
          if b0 mod 32 \<noteq> 8 then Some None
          else do { config2 \<leftarrow> slice_from config1 n; pps_loop i config2 } } })"

definition avcC_ok :: "string \<Rightarrow> bool option" where
  "avcC_ok config =
     (if length config < 7 then Some False
      else do {
        b0 \<leftarrow> byte_at config 0;
        profile \<leftarrow> byte_at config 1;
        if b0 \<noteq> 1 \<or> (profile \<noteq> 66 \<and> profile \<noteq> 77 \<and> profile \<noteq> 100) then Some False
        else do {
          b5 \<leftarrow> byte_at config 5;
          if b5 mod 32 = 0 then Some False
          else do {
            config1 \<leftarrow> slice_from config 6;
            r \<leftarrow> sps_loop (b5 mod 32) profile config1;
            case r of
              None \<Rightarrow> Some False
            | Some config2 \<Rightarrow>
                if length config2 < 1 then Some False
                else do {
                  n \<leftarrow> byte_at config2 0;
                  if n = 0 then Some False
                  else do {
                    config3 \<leftarrow> slice_from config2 1;
                    q \<leftarrow> pps_loop n config3;
                    Some (q \<noteq> None) } } } } })"

function supportedAVC :: "bool \<Rightarrow> string \<Rightarrow> bool option" where
  "supportedAVC found children =
     (if children = [] then Some found
      else if length children < 8 then Some False
      else case uint_at 4 children 0 of
          None \<Rightarrow> None
        | Some sz \<Rightarrow>
            if sz < 8 \<or> sz > length children then Some False
            else (case (slice children 4 8, slice children 8 sz, slice_from children sz) of
                (Some tag, Some config, Some rest) \<Rightarrow>
                  if tag = ''avcC'' then
                    (if found then Some False
                     else case avcC_ok config of
                         None \<Rightarrow> None
                       | Some False \<Rightarrow> Some False
                       | Some True \<Rightarrow> if length rest < length children then supportedAVC True rest else None)
                  else if length rest < length children then supportedAVC found rest else None
              | _ \<Rightarrow> None))"
  by pat_completeness auto
termination
  by (relation "measure (\<lambda>(found, children). length children)") auto

declare supportedAVC.simps [simp del]

definition supportedAVCConfiguration :: "string \<Rightarrow> bool option" where
  "supportedAVCConfiguration children = supportedAVC False children"

section \<open>Boxes\<close>

record mp4_state =
  duration :: bool
  videos :: nat
  boxes :: nat

datatype mp4_error = Bad | Panic

definition panic_opt :: "'a option \<Rightarrow> mp4_error + 'a" where
  "panic_opt x = (case x of None \<Rightarrow> Inl Panic | Some v \<Rightarrow> Inr v)"

definition and_then :: "mp4_error + 'a \<Rightarrow> ('a \<Rightarrow> mp4_error + 'b) \<Rightarrow> mp4_error + 'b" where
  "and_then x f = (case x of Inl e \<Rightarrow> Inl e | Inr v \<Rightarrow> f v)"

text \<open>The header of a box: its size and the length of the header.\<close>

definition box_header :: "string \<Rightarrow> mp4_error + nat \<times> nat" where
  "box_header d =
     (if length d < 8 then Inl Bad
      else and_then (panic_opt (uint_at 4 d 0)) (\<lambda>size0.
        and_then (if size0 = 1 then (if length d < 16 then Inl Bad else and_then (panic_opt (uint_at 8 d 8)) (\<lambda>s. Inr (s, 16)))
                  else Inr (size0, 8)) (\<lambda>(size1, header).
          let sz = (if size1 = 0 then length d else size1) in
          if sz < header \<or> sz > length d then Inl Bad else Inr (sz, header))))"

definition hdlr_box :: "string \<Rightarrow> mp4_error + unit" where
  "hdlr_box body =
     (if length body < 24 then Inl Bad
      else and_then (panic_opt (byte_at body 0)) (\<lambda>v.
        if v \<noteq> 0 then Inl Bad
        else and_then (panic_opt (slice body 8 12)) (\<lambda>handler.
          if handler \<noteq> ''vide'' \<and> handler \<noteq> ''soun'' then Inl Bad else Inr ())))"

definition mvhd_box :: "string \<Rightarrow> mp4_error + unit" where
  "mvhd_box body =
     (if length body < 20 then Inl Bad
      else and_then (panic_opt (byte_at body 0)) (\<lambda>v.
        and_then
          (if v = 0 then and_then (panic_opt (uint_at 4 body 12)) (\<lambda>s. and_then (panic_opt (uint_at 4 body 16)) (\<lambda>l. Inr (s, l)))
           else if v = 1 \<and> length body \<ge> 32 then and_then (panic_opt (uint_at 4 body 20)) (\<lambda>s. and_then (panic_opt (uint_at 8 body 24)) (\<lambda>l. Inr (s, l)))
           else Inl Bad)
          (\<lambda>(scale, len). if scale = 0 \<or> len = 0 \<or> len > scale * 30 then Inl Bad else Inr ())))"

text \<open>The sample description: whether it is a video.\<close>

definition stsd_box :: "string \<Rightarrow> mp4_error + bool" where
  "stsd_box body =
     (if length body < 8 then Inl Bad
      else and_then (panic_opt (uint_at 4 body 4)) (\<lambda>count.
        if count \<noteq> 1 then Inl Bad
        else and_then (panic_opt (slice_from body 8)) (\<lambda>entry.
          if length entry < 8 then Inl Bad
          else and_then (panic_opt (slice entry 4 8)) (\<lambda>codec.
            if codec = ''avc1'' \<or> codec = ''avc3'' then
              (if length entry < 86 then Inl Bad
               else and_then (panic_opt (uint_at 4 entry 0)) (\<lambda>n.
                 if n \<noteq> length entry then Inl Bad
                 else and_then (panic_opt (uint_at 2 entry 32)) (\<lambda>w.
                   and_then (panic_opt (uint_at 2 entry 34)) (\<lambda>h.
                     if w \<le> 0 \<or> h \<le> 0 \<or> w > 1920 \<or> h > 1920 \<or> w * h > 2073600 then Inl Bad
                     else and_then (panic_opt (slice_from entry 86)) (\<lambda>rest.
                       and_then (panic_opt (supportedAVCConfiguration rest)) (\<lambda>good.
                         if good then Inr True else Inl Bad))))))
            else if codec \<noteq> ''mp4a'' then Inl Bad else Inr False))))"

definition is_container :: "string \<Rightarrow> bool" where
  "is_container tag \<longleftrightarrow> tag \<in> {''moov'', ''trak'', ''mdia'', ''minf'', ''stbl''}"

definition leaf_box :: "string \<Rightarrow> string \<Rightarrow> mp4_state \<Rightarrow> mp4_error + mp4_state" where
  "leaf_box tag body s =
     (if tag = ''hdlr'' then and_then (hdlr_box body) (\<lambda>_. Inr s)
      else if tag = ''mvhd'' then and_then (mvhd_box body) (\<lambda>_. Inr (s\<lparr>duration := True\<rparr>))
      else if tag = ''stsd'' then and_then (stsd_box body) (\<lambda>v. Inr (if v then s\<lparr>videos := videos s + 1\<rparr> else s))
      else Inr s)"

function walk :: "string \<Rightarrow> nat \<Rightarrow> mp4_state \<Rightarrow> mp4_error + mp4_state" where
  "walk d depth s =
     (if depth > 6 then Inl Bad
      else if d = [] then Inr s
      else if boxes s + 1 > 10000 then Inl Bad
      else case box_header d of
          Inl e \<Rightarrow> Inl e
        | Inr (sz, header) \<Rightarrow>
            (let s1 = s\<lparr>boxes := boxes s + 1\<rparr> in
             case (slice d 4 8, slice d header sz, slice_from d sz) of
               (Some tag, Some body, Some rest) \<Rightarrow>
                 if \<not> (length body < length d \<and> length rest < length d) then Inl Panic
                 else case
                   (if is_container tag then walk body (depth + 1) s1 else leaf_box tag body s1) of
                     Inl e \<Rightarrow> Inl e
                   | Inr s2 \<Rightarrow> walk rest depth s2
             | _ \<Rightarrow> Inl Panic))"
  by pat_completeness auto
termination
  by (relation "measure (\<lambda>(d, depth, s). length d)") auto

declare walk.simps [simp del]

definition validateFallbackMP4 :: "string \<Rightarrow> mp4_error + unit" where
  "validateFallbackMP4 data =
     (case walk data 0 \<lparr>duration = False, videos = 0, boxes = 0\<rparr> of
        Inl e \<Rightarrow> Inl e
      | Inr s \<Rightarrow> if \<not> duration s \<or> videos s \<noteq> 1 then Inl Bad else Inr ())"

section \<open>No access is out of range\<close>

lemma sps_loop_safe: "sps_loop i profile config \<noteq> None"
  by (induction i profile config rule: sps_loop.induct) auto

lemma pps_loop_safe: "pps_loop i config \<noteq> None"
  by (induction i config rule: pps_loop.induct) auto

lemma sps_loop_Some: obtains r where "sps_loop i p c = Some r"
  using sps_loop_safe by blast

lemma pps_loop_Some: obtains r where "pps_loop i c = Some r"
  using pps_loop_safe by blast

lemma avcC_safe: "avcC_ok config \<noteq> None"
proof (cases "length config < 7")
  case False
  let ?p = "of_char (config ! 1) :: nat" and ?n = "of_char (config ! 5) mod 32 :: nat"
  obtain r where r: "sps_loop ?n ?p (drop 6 config) = Some r" by (rule sps_loop_Some)
  show ?thesis
  proof (cases r)
    case None
    with r False show ?thesis by (auto simp add: avcC_ok_def simp del: length_greater_0_conv)
  next
    case (Some c)
    obtain q where q: "pps_loop (of_char (c ! 0)) (drop 1 c) = Some q" by (rule pps_loop_Some)
    have "c \<noteq> [] \<Longrightarrow> slice_from c 1 = Some (drop 1 c) \<and> byte_at c 0 = Some (of_char (c ! 0))" by (cases c) auto
    then show ?thesis using False r q Some by (auto simp add: avcC_ok_def simp del: length_greater_0_conv)
  qed
qed (simp add: avcC_ok_def)

lemma supportedAVC_safe: "supportedAVC found children \<noteq> None"
proof (induction found children rule: supportedAVC.induct)
  case (1 found children)
  obtain ok where ok: "avcC_ok (take (be_nat (take 4 children) - 8) (drop 8 children)) = Some ok"
    using avcC_safe by blast
  show ?case
  proof (cases "length children < 8 \<or> be_nat (take 4 children) < 8 \<or> be_nat (take 4 children) > length children")
    case True
    then show ?thesis by (subst supportedAVC.simps) auto
  next
    case False
    then show ?thesis
      using 1 ok by (subst supportedAVC.simps) (auto split: bool.split)
  qed
qed

section \<open>The walk\<close>

lemma panic_opt_simps [simp]: "panic_opt (Some v) = Inr v" "panic_opt None = Inl Panic"
  by (simp_all add: panic_opt_def)

lemma and_then_simps [simp]: "and_then (Inl e) f = Inl e" "and_then (Inr v) f = f v"
  by (simp_all add: and_then_def)

lemma box_header_cases:
  "box_header d = Inl Bad \<or>
   (\<exists>sz header. box_header d = Inr (sz, header) \<and> 8 \<le> header \<and> header \<le> sz \<and> sz \<le> length d \<and> 8 \<le> length d)"
proof (cases "length d < 8")
  case False
  then have u: "uint_at 4 d 0 = Some (be_nat (take 4 d))" by simp
  show ?thesis
  proof (cases "be_nat (take 4 d) = 1")
    case True
    then show ?thesis using False u
      by (cases "length d < 16") (simp_all add: box_header_def Let_def)
  next
    case n1: False
    then show ?thesis using False u
      by (simp add: box_header_def Let_def)
  qed
qed (simp add: box_header_def)

lemma hdlr_box_safe: "hdlr_box body \<noteq> Inl Panic"
  by (simp add: hdlr_box_def del: length_greater_0_conv)

lemma mvhd_box_safe: "mvhd_box body \<noteq> Inl Panic"
  by (simp add: mvhd_box_def del: length_greater_0_conv)

lemma stsd_box_safe: "stsd_box body \<noteq> Inl Panic"
proof -
  obtain ok where "supportedAVC False (drop 86 (drop 8 body)) = Some ok"
    using supportedAVC_safe by blast
  then show ?thesis by (simp add: stsd_box_def supportedAVCConfiguration_def)
qed

lemma walk_unfold:
  "walk d depth s =
     (if depth > 6 then Inl Bad
      else if d = [] then Inr s
      else if boxes s + 1 > 10000 then Inl Bad
      else case box_header d of
          Inl e \<Rightarrow> Inl e
        | Inr (sz, header) \<Rightarrow>
            (let s1 = s\<lparr>boxes := boxes s + 1\<rparr>; tag = take 4 (drop 4 d); body = take (sz - header) (drop header d) in
             and_then (if is_container tag then walk body (depth + 1) s1 else leaf_box tag body s1)
               (\<lambda>s2. walk (drop sz d) depth s2)))"
proof -
  consider "d = []" | "d \<noteq> []" "box_header d = Inl Bad"
    | sz header where "d \<noteq> []" "box_header d = Inr (sz, header)" "8 \<le> header" "header \<le> sz" "sz \<le> length d" "8 \<le> length d"
    using box_header_cases [of d] by auto
  then show ?thesis
  proof cases
    case 3
    then have "slice d 4 8 = Some (take 4 (drop 4 d))" "slice d header sz = Some (take (sz - header) (drop header d))"
        "slice_from d sz = Some (drop sz d)"
        "length (take (sz - header) (drop header d)) < length d" "length (drop sz d) < length d"
      by auto
    with 3 show ?thesis
      by (subst walk.simps) (simp only: Let_def and_then_def option.case prod.case sum.case simp_thms if_True if_False)
  qed (subst walk.simps, simp)+
qed

lemma and_then_safe:
  "x \<noteq> Inl Panic \<Longrightarrow> (\<And>v. x = Inr v \<Longrightarrow> f v \<noteq> Inl Panic) \<Longrightarrow> and_then x f \<noteq> Inl Panic"
  by (cases x) auto

lemma leaf_box_safe: "leaf_box tag body s \<noteq> Inl Panic"
proof -
  have "and_then (hdlr_box body) (\<lambda>_. Inr s) \<noteq> Inl Panic"
      "and_then (mvhd_box body) (\<lambda>_. Inr t) \<noteq> Inl Panic" for t :: mp4_state
    by (rule and_then_safe; simp add: hdlr_box_safe mvhd_box_safe)+
  moreover have "and_then (stsd_box body) (\<lambda>v. Inr (g v)) \<noteq> Inl Panic" for g :: "bool \<Rightarrow> mp4_state"
    by (rule and_then_safe; simp add: stsd_box_safe)
  ultimately show ?thesis by (simp only: leaf_box_def split: if_split) simp
qed

lemma walk_safe: "walk d depth s \<noteq> Inl Panic"
proof (induction "length d" arbitrary: d depth s rule: less_induct)
  case less
  consider "d = []" | "d \<noteq> []" "box_header d = Inl Bad"
    | sz header where "d \<noteq> []" "box_header d = Inr (sz, header)" "8 \<le> header" "header \<le> sz" "sz \<le> length d"
    using box_header_cases [of d] by auto
  then show ?case
  proof cases
    case 3
    let ?body = "take (sz - header) (drop header d)"
    have l: "length ?body < length d" "length (drop sz d) < length d" using 3 by auto
    show ?thesis using 3 less [OF l(1)] less [OF l(2)]
      by (subst walk_unfold) (simp add: Let_def and_then_safe leaf_box_safe)
  qed (subst walk_unfold, simp)+
qed

text \<open>A clip within the admitted parameters: the sample description names one entry of at most 1080p whose
  only \<open>avcC\<close> box has one of the three profiles.\<close>

lemma stsd_box_video:
  assumes "stsd_box body = Inr True"
  shows "\<exists>w h. uint_at 2 body 40 = Some w \<and> uint_at 2 body 42 = Some h \<and>
           0 < w \<and> w \<le> 1920 \<and> 0 < h \<and> h \<le> 1920 \<and> w * h \<le> 2073600 \<and>
           supportedAVCConfiguration (drop 94 body) = Some True"
proof -
  obtain ok where ok: "supportedAVC False (drop 94 body) = Some ok"
    using supportedAVC_safe by blast
  show ?thesis using assms ok
    by (auto simp add: stsd_box_def supportedAVCConfiguration_def add.commute split: if_splits)
qed

lemma supportedAVC_profile:
  "avcC_ok config = Some True \<Longrightarrow> 7 \<le> length config \<and> of_char (config ! 1) \<in> {66, 77, 100 :: nat}"
  by (auto simp: avcC_ok_def simp del: length_greater_0_conv split: if_splits)

section \<open>What an accepted clip contains\<close>

text \<open>The boxes of a file that are not containers, in the order of the file, whatever they contain.\<close>

function leaves :: "string \<Rightarrow> (string \<times> string) list" where
  "leaves d =
     (if d = [] then []
      else case box_header d of
          Inl _ \<Rightarrow> []
        | Inr (sz, header) \<Rightarrow>
            (let tag = take 4 (drop 4 d); body = take (sz - header) (drop header d) in
             (if is_container tag then leaves body else [(tag, body)]) @ leaves (drop sz d)))"
  by pat_completeness auto
termination
proof (relation "measure length", goal_cases)
  case (2 d p sz header tag body)
  then show ?case using box_header_cases [of d] by auto
next
  case (3 d p sz header tag body)
  then show ?case using box_header_cases [of d] by auto
qed simp

declare leaves.simps [simp del]

definition is_video :: "string \<times> string \<Rightarrow> bool" where
  "is_video b \<longleftrightarrow> fst b = ''stsd'' \<and> stsd_box (snd b) = Inr True"

definition leaf_ok :: "string \<times> string \<Rightarrow> bool" where
  "leaf_ok b \<longleftrightarrow> (fst b = ''hdlr'' \<longrightarrow> hdlr_box (snd b) = Inr ()) \<and> (fst b = ''mvhd'' \<longrightarrow> mvhd_box (snd b) = Inr ()) \<and>
     (fst b = ''stsd'' \<longrightarrow> (\<exists>v. stsd_box (snd b) = Inr v))"

definition accounts :: "mp4_state \<Rightarrow> (string \<times> string) list \<Rightarrow> mp4_state \<Rightarrow> bool" where
  "accounts s bs s' \<longleftrightarrow>
     (\<forall>b \<in> set bs. leaf_ok b) \<and> videos s' = videos s + count_where is_video bs \<and>
     (duration s' \<longleftrightarrow> duration s \<or> (\<exists>b \<in> set bs. fst b = ''mvhd''))"

lemma accounts_append: "accounts s bs s1 \<Longrightarrow> accounts s1 cs s2 \<Longrightarrow> accounts s (bs @ cs) s2"
  by (auto simp: accounts_def)

lemma accounts_boxes [simp]: "accounts (s\<lparr>boxes := n\<rparr>) bs s' = accounts s bs s'"
  by (simp add: accounts_def)

lemma leaf_box_accounts:
  assumes "leaf_box tag body s = Inr s'"
  shows "accounts s [(tag, body)] s'"
proof -
  consider "tag = ''hdlr''" | "tag = ''mvhd''" | "tag = ''stsd''"
    | "tag \<noteq> ''hdlr''" "tag \<noteq> ''mvhd''" "tag \<noteq> ''stsd''" by blast
  then show ?thesis
    by cases (use assms in \<open>auto simp: leaf_box_def and_then_def accounts_def leaf_ok_def is_video_def split: sum.splits if_splits\<close>)
qed

lemma walk_accounts: "walk d depth s = Inr s' \<Longrightarrow> accounts s (leaves d) s'"
proof (induction "length d" arbitrary: d depth s s' rule: less_induct)
  case less
  show ?case
  proof (cases "d = []")
    case True
    then show ?thesis using less.prems by (simp add: walk.simps leaves.simps accounts_def split: if_splits)
  next
    case False
    then obtain sz header where h: "box_header d = Inr (sz, header)" "8 \<le> header" "header \<le> sz" "sz \<le> length d"
      using less.prems box_header_cases [of d] by (auto simp: walk_unfold [of d] split: if_splits)
    define tag where "tag = take 4 (drop 4 d)"
    define body where "body = take (sz - header) (drop header d)"
    define s1 where "s1 = s\<lparr>boxes := boxes s + 1\<rparr>"
    have l: "length body < length d" "length (drop sz d) < length d" using h False by (auto simp: body_def)
    obtain s2 where s2: "(if is_container tag then walk body (depth + 1) s1 else leaf_box tag body s1) = Inr s2"
        "walk (drop sz d) depth s2 = Inr s'"
      using less.prems False h(1)
      by (auto simp: walk_unfold [of d] Let_def and_then_def tag_def body_def s1_def split: if_splits sum.splits)
    have "accounts s1 (if is_container tag then leaves body else [(tag, body)]) s2"
      using s2(1) less.hyps [OF l(1)] leaf_box_accounts by (auto split: if_splits)
    moreover have "accounts s2 (leaves (drop sz d)) s'" by (rule less.hyps [OF l(2) s2(2)])
    ultimately have "accounts s1 ((if is_container tag then leaves body else [(tag, body)]) @ leaves (drop sz d)) s'"
      by (rule accounts_append)
    then show ?thesis
      using False h(1) by (simp add: leaves.simps [of d] Let_def s1_def flip: tag_def body_def split: if_splits)
  qed
qed

lemma mvhd_box_duration:
  assumes "mvhd_box body = Inr ()"
  shows "\<exists>scale len. 0 < scale \<and> 0 < len \<and> len \<le> scale * 30 \<and>
           (byte_at body 0 = Some 0 \<and> uint_at 4 body 12 = Some scale \<and> uint_at 4 body 16 = Some len \<or>
            byte_at body 0 = Some 1 \<and> uint_at 4 body 20 = Some scale \<and> uint_at 8 body 24 = Some len)"
  using assms by (auto simp: mvhd_box_def simp del: length_greater_0_conv split: if_splits)

lemma validateFallbackMP4_safe: "validateFallbackMP4 data \<noteq> Inl Panic"
  using walk_safe by (auto simp: validateFallbackMP4_def split: sum.split)

lemma validateFallbackMP4_accepts:
  assumes "validateFallbackMP4 data = Inr ()"
  shows "(\<forall>b \<in> set (leaves data). leaf_ok b) \<and> count_where is_video (leaves data) = 1 \<and>
         (\<exists>b \<in> set (leaves data). fst b = ''mvhd'')"
proof -
  obtain s where s: "walk data 0 \<lparr>duration = False, videos = 0, boxes = 0\<rparr> = Inr s" "duration s" "videos s = 1"
    using assms by (auto simp: validateFallbackMP4_def split: sum.splits if_splits)
  show ?thesis using walk_accounts [OF s(1)] s(2,3) by (simp add: accounts_def)
qed

text \<open>C40: Whatever bytes are uploaded, the validation of a fallback clip reads no byte outside its slices, so it
  always returns an error or accepts; and an accepted file has exactly one sample description of a video, of at most
  1920 by 1920 and 2073600 pixels with a supported AVC configuration, a movie header, no movie header that claims
  more than 30 seconds, and no track handler other than video and sound.\<close>

theorem validateFallbackMP4_sound:
  "validateFallbackMP4 data \<noteq> Inl Panic \<and>
   (validateFallbackMP4 data = Inr () \<longrightarrow>
      count_where is_video (leaves data) = 1 \<and>
      (\<exists>body. (''mvhd'', body) \<in> set (leaves data)) \<and>
      (\<forall>body. (''stsd'', body) \<in> set (leaves data) \<longrightarrow>
         stsd_box body = Inr False \<or>
         (\<exists>w h. uint_at 2 body 40 = Some w \<and> uint_at 2 body 42 = Some h \<and>
            0 < w \<and> w \<le> 1920 \<and> 0 < h \<and> h \<le> 1920 \<and> w * h \<le> 2073600 \<and>
            supportedAVCConfiguration (drop 94 body) = Some True)) \<and>
      (\<forall>body. (''mvhd'', body) \<in> set (leaves data) \<longrightarrow>
         (\<exists>scale len. 0 < scale \<and> 0 < len \<and> len \<le> scale * 30 \<and>
            (byte_at body 0 = Some 0 \<and> uint_at 4 body 12 = Some scale \<and> uint_at 4 body 16 = Some len \<or>
             byte_at body 0 = Some 1 \<and> uint_at 4 body 20 = Some scale \<and> uint_at 8 body 24 = Some len))) \<and>
      (\<forall>body. (''hdlr'', body) \<in> set (leaves data) \<longrightarrow> slice body 8 12 \<in> {Some ''vide'', Some ''soun''}))"
proof (intro conjI impI)
  show "validateFallbackMP4 data \<noteq> Inl Panic" by (rule validateFallbackMP4_safe)
next
  assume a: "validateFallbackMP4 data = Inr ()"
  note acc = validateFallbackMP4_accepts [OF a]
  then show "count_where is_video (leaves data) = 1" by simp
  from acc show "\<exists>body. (''mvhd'', body) \<in> set (leaves data)" by fastforce
  have ok: "leaf_ok (tag, body)" if "(tag, body) \<in> set (leaves data)" for tag body
    using acc that by blast
  show "\<forall>body. (''stsd'', body) \<in> set (leaves data) \<longrightarrow>
         stsd_box body = Inr False \<or>
         (\<exists>w h. uint_at 2 body 40 = Some w \<and> uint_at 2 body 42 = Some h \<and>
            0 < w \<and> w \<le> 1920 \<and> 0 < h \<and> h \<le> 1920 \<and> w * h \<le> 2073600 \<and>
            supportedAVCConfiguration (drop 94 body) = Some True)"
  proof (intro allI impI)
    fix body assume "(''stsd'', body) \<in> set (leaves data)"
    then obtain v where "stsd_box body = Inr v" using ok by (auto simp: leaf_ok_def)
    then show "stsd_box body = Inr False \<or>
         (\<exists>w h. uint_at 2 body 40 = Some w \<and> uint_at 2 body 42 = Some h \<and>
            0 < w \<and> w \<le> 1920 \<and> 0 < h \<and> h \<le> 1920 \<and> w * h \<le> 2073600 \<and>
            supportedAVCConfiguration (drop 94 body) = Some True)"
      using stsd_box_video [of body] by (cases v) auto
  qed
  show "\<forall>body. (''mvhd'', body) \<in> set (leaves data) \<longrightarrow>
         (\<exists>scale len. 0 < scale \<and> 0 < len \<and> len \<le> scale * 30 \<and>
            (byte_at body 0 = Some 0 \<and> uint_at 4 body 12 = Some scale \<and> uint_at 4 body 16 = Some len \<or>
             byte_at body 0 = Some 1 \<and> uint_at 4 body 20 = Some scale \<and> uint_at 8 body 24 = Some len))"
    using ok mvhd_box_duration by (auto simp: leaf_ok_def)
  show "\<forall>body. (''hdlr'', body) \<in> set (leaves data) \<longrightarrow> slice body 8 12 \<in> {Some ''vide'', Some ''soun''}"
  proof (intro allI impI)
    fix body assume "(''hdlr'', body) \<in> set (leaves data)"
    then have "hdlr_box body = Inr ()" using ok by (auto simp: leaf_ok_def)
    then show "slice body 8 12 \<in> {Some ''vide'', Some ''soun''}"
      by (auto simp: hdlr_box_def simp del: length_greater_0_conv split: if_splits)
  qed
qed

text \<open>A smallest clip: a movie header of one second and one Baseline sample description of 16 by 16.\<close>

definition zeros :: "nat \<Rightarrow> string" where
  "zeros n = replicate n (CHR 0x00)"

definition clip_mvhd :: string where
  "clip_mvhd = zeros 15 @ [CHR 0x01] @ zeros 3 @ [CHR 0x01]"

definition clip_avcC :: string where
  "clip_avcC = [CHR 0x01, CHR 0x42, CHR 0x00, CHR 0x00, CHR 0x00, CHR 0x01, CHR 0x00, CHR 0x04, CHR 0x07, CHR 0x42,
     CHR 0x00, CHR 0x00, CHR 0x01, CHR 0x00, CHR 0x01, CHR 0x08]"

definition clip_stsd :: string where
  "clip_stsd = zeros 7 @ [CHR 0x01] @ zeros 3 @ [CHR 0x6E] @ ''avc1'' @ zeros 25 @ [CHR 0x10, CHR 0x00, CHR 0x10] @ zeros 50 @
     (zeros 3 @ [CHR 0x18] @ ''avcC'' @ clip_avcC)"

definition clip :: string where
  "clip = zeros 3 @ [CHR 0xA2] @ ''moov'' @ (zeros 3 @ [CHR 0x1C] @ ''mvhd'' @ clip_mvhd) @
     (zeros 3 @ [CHR 0x7E] @ ''stsd'' @ clip_stsd)"

lemma clip_avcC_ok: "avcC_ok clip_avcC = Some True"
  by (simp add: avcC_ok_def clip_avcC_def slice_from_def slice_def byte_at_def uint_at_def be_nat_def)

lemma zeros_append:
  "zeros (numeral k) @ xs = CHR 0x00 # zeros (pred_numeral k) @ xs" "zeros 0 @ xs = xs"
  "zeros (Suc n) @ xs = CHR 0x00 # zeros n @ xs" "length (zeros n) = n"
  by (simp_all add: zeros_def numeral_eq_Suc)

lemma clip_mvhd_ok: "mvhd_box clip_mvhd = Inr ()"
  by (simp add: mvhd_box_def clip_mvhd_def zeros_append byte_at_def uint_at_def be_nat_def)

lemma clip_stsd_ok: "stsd_box clip_stsd = Inr True"
proof -
  have "supportedAVC True [] = Some True" by (simp add: supportedAVC.simps)
  then have "supportedAVC False (zeros 3 @ [CHR 0x18] @ ''avcC'' @ clip_avcC) = Some True"
    using clip_avcC_ok
    by (subst supportedAVC.simps) (simp add: clip_avcC_def slice_from_def slice_def uint_at_def be_nat_def zeros_append)
  then show ?thesis
    by (simp add: stsd_box_def clip_stsd_def supportedAVCConfiguration_def zeros_append byte_at_def uint_at_def slice_def
        slice_from_def be_nat_def clip_avcC_def)
qed

lemma walk_box:
  assumes "length sz = 4" "length tag = 4" "be_nat sz = 8 + length body" "depth \<le> 6" "boxes s < 10000"
  shows "walk (sz @ tag @ body @ rest) depth s =
    (let s1 = s\<lparr>boxes := boxes s + 1\<rparr> in
     and_then (if is_container tag then walk body (depth + 1) s1 else leaf_box tag body s1) (walk rest depth))"
proof -
  have "box_header (sz @ tag @ body @ rest) = Inr (8 + length body, 8)"
    using assms by (simp add: box_header_def uint_at_def)
  then show ?thesis using assms
    by (subst walk_unfold) (auto simp: Let_def)
qed

lemma clip_lengths: "length clip_stsd = 118" "length clip_mvhd = 20"
  by (simp_all add: clip_stsd_def clip_avcC_def clip_mvhd_def zeros_append)

lemma clip_accepted: "validateFallbackMP4 clip = Inr ()"
proof -
  have e: "walk [] depth s = Inr s" if "depth \<le> 6" for depth s using that by (simp add: walk_unfold)
  let ?stsd = "zeros 3 @ [CHR 0x7E] @ ''stsd'' @ clip_stsd"
  let ?mvhd = "zeros 3 @ [CHR 0x1C] @ ''mvhd'' @ clip_mvhd"
  have stsd: "walk ?stsd 1 \<lparr>duration = True, videos = 0, boxes = 2\<rparr> = Inr \<lparr>duration = True, videos = 1, boxes = 3\<rparr>"
    using walk_box [of "zeros 3 @ [CHR 0x7E]" "''stsd''" clip_stsd 1 "\<lparr>duration = True, videos = 0, boxes = 2\<rparr>" "[]"]
    by (simp add: zeros_append be_nat_def e leaf_box_def is_container_def clip_stsd_ok Let_def clip_lengths)
  have mvhd: "walk (?mvhd @ ?stsd) 1 \<lparr>duration = False, videos = 0, boxes = 1\<rparr> = Inr \<lparr>duration = True, videos = 1, boxes = 3\<rparr>"
    using stsd walk_box [of "zeros 3 @ [CHR 0x1C]" "''mvhd''" clip_mvhd 1 "\<lparr>duration = False, videos = 0, boxes = 1\<rparr>" ?stsd]
    by (simp add: zeros_append be_nat_def leaf_box_def is_container_def clip_mvhd_ok Let_def clip_lengths numeral_2_eq_2)
  then have "walk clip 0 \<lparr>duration = False, videos = 0, boxes = 0\<rparr> = Inr \<lparr>duration = True, videos = 1, boxes = 3\<rparr>"
    using walk_box [of "zeros 3 @ [CHR 0xA2]" "''moov''" "?mvhd @ ?stsd" 0 "\<lparr>duration = False, videos = 0, boxes = 0\<rparr>" "[]"]
    by (simp add: clip_def zeros_append be_nat_def e is_container_def Let_def clip_lengths)
  then show ?thesis by (simp add: validateFallbackMP4_def)
qed

theorem validateFallbackMP4_sound_witness:
  "validateFallbackMP4 clip = Inr () \<and> count_where is_video (leaves clip) = 1"
  using validateFallbackMP4_sound [of clip] clip_accepted by simp

end
