(* ===== verification/Go_Url.thy ===== *)
theory Go_Url
  imports Go_Strings
begin

text \<open>
  The parts of \<^verbatim>\<open>net/url\<close> that the repository uses: a parsed URL with the fields that the code reads, and
  \<^verbatim>\<open>Hostname\<close> and \<^verbatim>\<open>Port\<close>, which the library computes from the host. Parsing a text into a URL and
  printing it are arguments of the definitions that use them.
\<close>

record url =
  url_scheme :: string
  url_host :: string
  url_user :: bool
  url_query :: string
  url_fragment :: string
  url_path :: string
  url_opaque :: string

text \<open>The text after the last colon, when there is one.\<close>

definition split_last_colon :: "string \<Rightarrow> (string \<times> string) option" where
  "split_last_colon s =
     (if CHR '':'' \<in> set s
      then Some (rev (tl (dropWhile (\<lambda>c. c \<noteq> CHR '':'') (rev s))), rev (takeWhile (\<lambda>c. c \<noteq> CHR '':'') (rev s)))
      else None)"

definition strip_brackets :: "string \<Rightarrow> string" where
  "strip_brackets h = (if h \<noteq> [] \<and> hd h = CHR ''['' \<and> last h = CHR '']'' then butlast (tl h) else h)"

definition splitHostPort :: "string \<Rightarrow> string \<times> string" where
  "splitHostPort hp =
     (case split_last_colon hp of
        None \<Rightarrow> (strip_brackets hp, [])
      | Some (h, p) \<Rightarrow> if list_all is_digit p then (strip_brackets h, p) else (strip_brackets hp, []))"

definition Hostname :: "url \<Rightarrow> string" where
  "Hostname u = fst (splitHostPort (url_host u))"

definition Port :: "url \<Rightarrow> string" where
  "Port u = snd (splitHostPort (url_host u))"

text \<open>A port number as \<^verbatim>\<open>strconv.Atoi\<close> reads it from digits, within the range of ports.\<close>

definition port_number :: "string \<Rightarrow> nat option" where
  "port_number p =
     (if p \<noteq> [] \<and> list_all is_digit p \<and> 1 \<le> digits_val p \<and> digits_val p \<le> 65535 then Some (digits_val p) else None)"

lemma Port_digits: "list_all is_digit (Port u)"
  by (auto simp: Port_def splitHostPort_def split: option.split)

lemma split_last_colon_join: "CHR '':'' \<notin> set p \<Longrightarrow> split_last_colon (h @ CHR '':'' # p) = Some (h, p)"
  by (auto simp: split_last_colon_def dropWhile_append takeWhile_append)

lemma splitHostPort_join:
  "list_all is_digit p \<Longrightarrow> splitHostPort (h @ CHR '':'' # p) = (strip_brackets h, p)"
proof -
  assume a: "list_all is_digit p"
  then have "CHR '':'' \<notin> set p" by (auto simp: list_all_iff is_digit_def)
  with a show ?thesis by (simp add: splitHostPort_def split_last_colon_join)
qed

end
