(* ===== verification/Release_Manifest.thy ===== *)
theory Release_Manifest
  imports Go_Url
begin

text \<open>
  The verification of a signed release manifest, \<^verbatim>\<open>Decode\<close> and \<^verbatim>\<open>Verify\<close> of
  \<^verbatim>\<open>backend/internal/release/manifest.go\<close>, and the part of \<^verbatim>\<open>backend/cmd/release-tool/main.go\<close> that
  remembers the newest accepted release. Signature check, hash, URL parser and JSON reader are arguments
  (\<open>release_env\<close>): the decoder of \<^verbatim>\<open>encoding/json\<close> gives the decoded manifest and the stream of tokens of
  the same text.
\<close>

section \<open>Duplicate keys\<close>

text \<open>The tokens that \<^verbatim>\<open>Decoder.Token\<close> returns: the four delimiters, strings, and the other scalars.\<close>

datatype token = TDelim char | TStr string | TScalar

datatype json_error = DuplicateKey | InvalidDelimiter | UnexpectedEnd | InvalidKey | OutOfFuel

definition is_close :: "token \<Rightarrow> bool" where
  "is_close t \<longleftrightarrow> t = TDelim (CHR ''}'') \<or> t = TDelim (CHR '']'')"

text \<open>The recursive closure \<open>walk\<close> and its two loops, \<open>More\<close> being that the next token is not a closing one.\<close>

fun json_walk :: "nat \<Rightarrow> token list \<Rightarrow> json_error + token list"
  and obj_loop :: "nat \<Rightarrow> string list \<Rightarrow> token list \<Rightarrow> json_error + token list"
  and arr_loop :: "nat \<Rightarrow> token list \<Rightarrow> json_error + token list" where
  "json_walk 0 ts = Inl OutOfFuel"
| "json_walk (Suc n) ts =
     (case ts of
        [] \<Rightarrow> Inl UnexpectedEnd
      | TDelim c # rest \<Rightarrow>
          if c = CHR ''{'' then obj_loop n [] rest
          else if c = CHR ''['' then arr_loop n rest
          else Inl InvalidDelimiter
      | _ # rest \<Rightarrow> Inr rest)"
| "obj_loop 0 keys ts = Inl OutOfFuel"
| "obj_loop (Suc n) keys ts =
     (case ts of
        [] \<Rightarrow> Inl UnexpectedEnd
      | t # rest \<Rightarrow>
          if is_close t then (if t = TDelim (CHR ''}'') then Inr rest else Inl InvalidDelimiter)
          else (case t of
              TStr name \<Rightarrow>
                if name \<in> set keys then Inl DuplicateKey
                else (case json_walk n rest of Inl e \<Rightarrow> Inl e | Inr ts' \<Rightarrow> obj_loop n (name # keys) ts')
            | _ \<Rightarrow> Inl InvalidKey))"
| "arr_loop 0 ts = Inl OutOfFuel"
| "arr_loop (Suc n) ts =
     (case ts of
        [] \<Rightarrow> Inl UnexpectedEnd
      | t # rest \<Rightarrow>
          if is_close t then (if t = TDelim (CHR '']'') then Inr rest else Inl InvalidDelimiter)
          else (case json_walk n ts of Inl e \<Rightarrow> Inl e | Inr ts' \<Rightarrow> arr_loop n ts'))"

text \<open>A recursion depth that no token stream exceeds.\<close>

definition walk_tokens :: "token list \<Rightarrow> json_error + token list" where
  "walk_tokens ts = json_walk (Suc (length ts)) ts"

section \<open>Data\<close>

record artifact =
  ar_architecture :: string
  ar_url :: string
  ar_size :: int
  ar_sha256 :: string

record manifest =
  target_schema :: int
  sequence :: nat
  version :: string
  channel :: string
  created :: time
  expires :: time
  protocol_version :: int
  minimum_sequence :: nat
  minimum_schema :: int
  maximum_schema :: int
  release_notes :: string
  artifacts :: "artifact list"

record policy =
  public_key :: string
  po_channel :: string
  artifact_origin :: string
  po_architecture :: string
  installed_sequence :: nat
  installed_schema :: int
  initial :: bool

record watermark =
  wm_sequence :: nat
  wm_digest :: string

record release_env =
  ed25519_verify :: "string \<Rightarrow> string \<Rightarrow> string \<Rightarrow> bool"
  sha256_hex :: "string \<Rightarrow> string"
  url_parse :: "string \<Rightarrow> url option"
  json_manifest :: "string \<Rightarrow> manifest option"
  json_tokens :: "string \<Rightarrow> token list"

datatype release_error =
    InvalidSignature | InvalidManifest | IncompatibleMetadata | InvalidTime | InvalidRange | UnsupportedInstalled
  | RollbackOrEquivocation | InvalidOrigin | InvalidCount | InvalidDescriptor | UntrustedAddress | NoArtifact string
  | CorruptWatermark | StateNotWritten

definition max_manifest :: nat where
  "max_manifest = 64 * 1024"

definition max_archive :: int where
  "max_archive = 8 * 2 ^ 30"

definition alnum :: "char \<Rightarrow> bool" where
  "alnum c \<longleftrightarrow> (let n = of_char c :: nat in 48 \<le> n \<and> n \<le> 57 \<or> 65 \<le> n \<and> n \<le> 90 \<or> 97 \<le> n \<and> n \<le> 122)"

definition versionPattern :: "string \<Rightarrow> bool" where
  "versionPattern s \<longleftrightarrow>
     (case s of [] \<Rightarrow> False
      | c # cs \<Rightarrow> alnum c \<and> length cs \<le> 63 \<and> list_all (\<lambda>x. alnum x \<or> x \<in> {CHR ''.'', CHR ''_'', CHR ''-''}) cs)"

definition digestPattern :: "string \<Rightarrow> bool" where
  "digestPattern s \<longleftrightarrow>
     length s = 64 \<and> list_all (\<lambda>c. let n = of_char c :: nat in 97 \<le> n \<and> n \<le> 102 \<or> 48 \<le> n \<and> n \<le> 57) s"

section \<open>Operations\<close>

definition Decode :: "release_env \<Rightarrow> string \<Rightarrow> manifest option" where
  "Decode env data =
     (case json_manifest env data of
        None \<Rightarrow> None
      | Some m \<Rightarrow> (case walk_tokens (json_tokens env data) of Inl _ \<Rightarrow> None | Inr _ \<Rightarrow> Some m))"

definition descriptor_ok :: "string list \<Rightarrow> artifact \<Rightarrow> bool" where
  "descriptor_ok seen a \<longleftrightarrow>
     (ar_architecture a = ''amd64'' \<or> ar_architecture a = ''arm64'') \<and> ar_architecture a \<notin> set seen \<and>
     0 < ar_size a \<and> ar_size a \<le> max_archive \<and> digestPattern (ar_sha256 a)"

definition address_ok :: "release_env \<Rightarrow> string \<Rightarrow> artifact \<Rightarrow> bool" where
  "address_ok env origin_host a \<longleftrightarrow>
     (case url_parse env (ar_url a) of
        None \<Rightarrow> False
      | Some u \<Rightarrow> url_scheme u = ''https'' \<and> url_host u = origin_host \<and> \<not> url_user u \<and> url_fragment u = [] \<and>
          url_query u = [] \<and> url_path u \<noteq> [] \<and> url_opaque u = [])"

fun select_artifact ::
  "release_env \<Rightarrow> string \<Rightarrow> string \<Rightarrow> string list \<Rightarrow> artifact option \<Rightarrow> artifact list \<Rightarrow> release_error + artifact option" where
  "select_artifact env host arch seen selected [] = Inr selected"
| "select_artifact env host arch seen selected (a # rest) =
     (if \<not> descriptor_ok seen a then Inl InvalidDescriptor
      else if \<not> address_ok env host a then Inl UntrustedAddress
      else select_artifact env host arch (ar_architecture a # seen)
             (if ar_architecture a = arch then Some a else selected) rest)"

definition origin_of :: "release_env \<Rightarrow> policy \<Rightarrow> url option" where
  "origin_of env p =
     (case url_parse env (artifact_origin p) of
        None \<Rightarrow> None
      | Some u \<Rightarrow> if url_scheme u \<noteq> ''https'' \<or> url_host u = [] \<or> url_user u \<or> url_query u \<noteq> [] \<or> url_fragment u \<noteq> [] \<or>
                    (url_path u \<noteq> [] \<and> url_path u \<noteq> ''/'') then None else Some u)"

definition metadata_ok :: "policy \<Rightarrow> manifest \<Rightarrow> bool" where
  "metadata_ok p m \<longleftrightarrow>
     1 \<le> target_schema m \<and> sequence m \<noteq> 0 \<and> versionPattern (version m) \<and> channel m = po_channel p \<and> channel m \<noteq> [] \<and>
     protocol_version m = 1 \<and> length (release_notes m) \<le> 8192"

definition time_ok :: "time \<Rightarrow> manifest \<Rightarrow> bool" where
  "time_ok now m \<longleftrightarrow>
     created m \<noteq> zero_time \<and> created m \<le> now + 300 * second \<and> now < expires m \<and> created m < expires m \<and>
     time_sub (expires m) (created m) \<le> 31 * 86400 * second"

definition range_ok :: "manifest \<Rightarrow> bool" where
  "range_ok m \<longleftrightarrow> 0 \<le> minimum_schema m \<and> minimum_schema m \<le> maximum_schema m \<and> minimum_sequence m < sequence m"

definition installed_ok :: "policy \<Rightarrow> manifest \<Rightarrow> bool" where
  "installed_ok p m \<longleftrightarrow>
     initial p \<or> (installed_schema p \<le> target_schema m \<and> minimum_sequence m \<le> installed_sequence p \<and>
       minimum_schema m \<le> installed_schema p \<and> installed_schema p \<le> maximum_schema m)"

definition rollback :: "policy \<Rightarrow> watermark \<Rightarrow> watermark \<Rightarrow> bool" where
  "rollback p previous stamp \<longleftrightarrow>
     wm_sequence stamp < wm_sequence previous \<or>
     (wm_sequence previous = wm_sequence stamp \<and> wm_digest previous \<noteq> wm_digest stamp) \<or>
     (\<not> initial p \<and> wm_sequence stamp \<le> installed_sequence p)"

definition Verify ::
  "release_env \<Rightarrow> string \<Rightarrow> string \<Rightarrow> policy \<Rightarrow> watermark \<Rightarrow> time \<Rightarrow> release_error + manifest \<times> artifact \<times> watermark" where
  "Verify env data signature p previous now =
     (if data = [] \<or> length data > max_manifest \<or> length (public_key p) \<noteq> 32 \<or>
         \<not> ed25519_verify env (public_key p) data signature then Inl InvalidSignature
      else case Decode env data of
          None \<Rightarrow> Inl InvalidManifest
        | Some m \<Rightarrow>
            if \<not> metadata_ok p m then Inl IncompatibleMetadata
            else if \<not> time_ok now m then Inl InvalidTime
            else if \<not> range_ok m then Inl InvalidRange
            else if \<not> installed_ok p m then Inl UnsupportedInstalled
            else let stamp = \<lparr>wm_sequence = sequence m, wm_digest = sha256_hex env data\<rparr> in
              if rollback p previous stamp then Inl RollbackOrEquivocation
              else (case origin_of env p of
                  None \<Rightarrow> Inl InvalidOrigin
                | Some u \<Rightarrow>
                    if length (artifacts m) < 1 \<or> length (artifacts m) > 2 then Inl InvalidCount
                    else (case select_artifact env (url_host u) (po_architecture p) [] None (artifacts m) of
                        Inl e \<Rightarrow> Inl e
                      | Inr None \<Rightarrow> Inl (NoArtifact (po_architecture p))
                      | Inr (Some a) \<Rightarrow> Inr (m, a, stamp))))"

text \<open>
  One run of the tool: the remembered watermark is read, the manifest verified against it, and on success the new
  watermark replaces it atomically. The write can fail before the file is renamed, which leaves the old watermark, or after
  it, while the directory is opened and synchronized, which leaves the new one; in both cases nothing is accepted. The
  result is what the run accepted and the state file it leaves.
\<close>

datatype state_write = NotReplaced | Unsynced | Written

definition store_watermark :: "state_write \<Rightarrow> manifest \<times> artifact \<times> watermark \<Rightarrow> watermark option \<Rightarrow>
    (release_error + manifest \<times> artifact \<times> watermark) \<times> watermark option" where
  "store_watermark written x stored =
     (case written of
        NotReplaced \<Rightarrow> (Inl StateNotWritten, stored)
      | Unsynced \<Rightarrow> (Inl StateNotWritten, Some (snd (snd x)))
      | Written \<Rightarrow> (Inr x, Some (snd (snd x))))"

definition tool_run ::
  "release_env \<Rightarrow> state_write \<Rightarrow> string \<Rightarrow> string \<Rightarrow> policy \<Rightarrow> time \<Rightarrow> watermark option \<Rightarrow>
   (release_error + manifest \<times> artifact \<times> watermark) \<times> watermark option" where
  "tool_run env written data signature p now stored =
     (case stored of
        Some w \<Rightarrow>
          if wm_sequence w = 0 \<or> length (wm_digest w) \<noteq> 64 then (Inl CorruptWatermark, stored)
          else (case Verify env data signature p w now of
              Inl e \<Rightarrow> (Inl e, stored)
            | Inr x \<Rightarrow> store_watermark written x stored)
      | None \<Rightarrow>
          (case Verify env data signature p \<lparr>wm_sequence = 0, wm_digest = []\<rparr> now of
              Inl e \<Rightarrow> (Inl e, stored)
            | Inr x \<Rightarrow> store_watermark written x stored))"

section \<open>The walk finds exactly the duplicate keys\<close>

text \<open>A JSON value, the tokens of its text, and whether no object in it repeats a key.\<close>

datatype json = JStr string | JScalar | JArr "json list" | JObj "(string \<times> json) list"

fun tokens :: "json \<Rightarrow> token list" where
  "tokens (JStr s) = [TStr s]"
| "tokens JScalar = [TScalar]"
| "tokens (JArr vs) = TDelim (CHR ''['') # concat (map tokens vs) @ [TDelim (CHR '']'')]"
| "tokens (JObj kvs) = TDelim (CHR ''{'') # concat (map (\<lambda>(k, v). TStr k # tokens v) kvs) @ [TDelim (CHR ''}'')]"

fun unique_keys :: "json \<Rightarrow> bool" where
  "unique_keys (JStr s) \<longleftrightarrow> True"
| "unique_keys JScalar \<longleftrightarrow> True"
| "unique_keys (JArr vs) \<longleftrightarrow> (\<forall>v \<in> set vs. unique_keys v)"
| "unique_keys (JObj kvs) \<longleftrightarrow> distinct (map fst kvs) \<and> (\<forall>(k, v) \<in> set kvs. unique_keys v)"

lemma tokens_head: "tokens v = t # ts \<Longrightarrow> \<not> is_close t"
  by (cases v) (auto simp: is_close_def)

lemma tokens_nonempty [simp]: "tokens v \<noteq> []"
  by (cases v) auto

lemma obj_loop_spec:
  assumes IH: "\<And>k v n rest. (k, v) \<in> set kvs \<Longrightarrow> length (tokens v) \<le> n \<Longrightarrow>
      json_walk n (tokens v @ rest) = (if unique_keys v then Inr rest else Inl DuplicateKey)"
    and "length (concat (map (\<lambda>(k, v). TStr k # tokens v) kvs)) < n"
  shows "obj_loop n keys (concat (map (\<lambda>(k, v). TStr k # tokens v) kvs) @ TDelim (CHR ''}'') # rest) =
    (if distinct (map fst kvs) \<and> set (map fst kvs) \<inter> set keys = {} \<and> (\<forall>(k, v) \<in> set kvs. unique_keys v)
     then Inr rest else Inl DuplicateKey)"
  using assms
proof (induction kvs arbitrary: n keys)
  case Nil
  then obtain n' where "n = Suc n'" by (cases n) auto
  then show ?case by (simp add: is_close_def)
next
  case (Cons kv kvs)
  obtain k v where kv: "kv = (k, v)" by (cases kv)
  obtain n' where n: "n = Suc n'" using Cons.prems(2) by (cases n) auto
  let ?rest = "concat (map (\<lambda>(k, v). TStr k # tokens v) kvs) @ TDelim (CHR ''}'') # rest"
  have w: "json_walk n' (tokens v @ ?rest) = (if unique_keys v then Inr ?rest else Inl DuplicateKey)"
    using Cons.prems by (intro Cons.prems(1)) (auto simp: kv n)
  have l: "obj_loop n' (k # keys) ?rest =
    (if distinct (map fst kvs) \<and> set (map fst kvs) \<inter> set (k # keys) = {} \<and> (\<forall>(k, v) \<in> set kvs. unique_keys v)
     then Inr rest else Inl DuplicateKey)"
  proof (rule Cons.IH)
    show "json_walk i (tokens y @ r) = (if unique_keys y then Inr r else Inl DuplicateKey)"
      if "(x, y) \<in> set kvs" "length (tokens y) \<le> i" for x y i r
      using that by (intro Cons.prems(1)) auto
  qed (use Cons.prems(2) in \<open>auto simp: kv n\<close>)
  have "obj_loop n keys (concat (map (\<lambda>(k, v). TStr k # tokens v) (kv # kvs)) @ TDelim (CHR ''}'') # rest) =
    (if k \<in> set keys then Inl DuplicateKey
     else if unique_keys v then obj_loop n' (k # keys) ?rest else Inl DuplicateKey)"
    using w by (simp add: n kv is_close_def)
  then show ?case unfolding l by (auto simp: kv)
qed

lemma arr_loop_spec:
  assumes IH: "\<And>v n rest. v \<in> set vs \<Longrightarrow> length (tokens v) \<le> n \<Longrightarrow>
      json_walk n (tokens v @ rest) = (if unique_keys v then Inr rest else Inl DuplicateKey)"
    and "length (concat (map tokens vs)) < n"
  shows "arr_loop n (concat (map tokens vs) @ TDelim (CHR '']'') # rest) =
    (if \<forall>v \<in> set vs. unique_keys v then Inr rest else Inl DuplicateKey)"
  using assms
proof (induction vs arbitrary: n)
  case Nil
  then obtain n' where "n = Suc n'" by (cases n) auto
  then show ?case by (simp add: is_close_def)
next
  case (Cons v vs)
  obtain n' where n: "n = Suc n'" using Cons.prems(2) by (cases n) auto
  obtain t ts where t: "tokens v = t # ts" by (cases "tokens v") auto
  let ?rest = "concat (map tokens vs) @ TDelim (CHR '']'') # rest"
  have w: "json_walk n' (tokens v @ ?rest) = (if unique_keys v then Inr ?rest else Inl DuplicateKey)"
    using Cons.prems(2) t by (intro Cons.prems(1)) (auto simp: n)
  have l: "arr_loop n' ?rest = (if \<forall>v \<in> set vs. unique_keys v then Inr rest else Inl DuplicateKey)"
    by (rule Cons.IH [OF Cons.prems(1)]) (use Cons.prems(2) t in \<open>auto simp: n\<close>)
  have "arr_loop n (concat (map tokens (v # vs)) @ TDelim (CHR '']'') # rest) =
    (if unique_keys v then arr_loop n' ?rest else Inl DuplicateKey)"
    using w tokens_head [OF t] by (simp add: n t)
  then show ?case unfolding l by auto
qed

lemma json_walk_spec:
  "length (tokens v) \<le> n \<Longrightarrow> json_walk n (tokens v @ rest) = (if unique_keys v then Inr rest else Inl DuplicateKey)"
proof (induction v arbitrary: n rest)
  case (JArr vs)
  then obtain n' where n: "n = Suc n'" by (cases n) auto
  have "arr_loop n' (concat (map tokens vs) @ TDelim (CHR '']'') # rest) =
      (if \<forall>v \<in> set vs. unique_keys v then Inr rest else Inl DuplicateKey)"
    using JArr by (intro arr_loop_spec) (auto simp: n)
  then show ?case by (simp add: n)
next
  case (JObj kvs)
  then obtain n' where n: "n = Suc n'" by (cases n) auto
  have "obj_loop n' [] (concat (map (\<lambda>(k, v). TStr k # tokens v) kvs) @ TDelim (CHR ''}'') # rest) =
      (if distinct (map fst kvs) \<and> set (map fst kvs) \<inter> set [] = {} \<and> (\<forall>(k, v) \<in> set kvs. unique_keys v)
       then Inr rest else Inl DuplicateKey)"
    using JObj by (intro obj_loop_spec) (auto simp: n)
  then show ?case by (simp add: n)
qed (case_tac n; simp)+

text \<open>C33: The walk over the tokens of a JSON text refuses it exactly when some object in it repeats a key; for every
  value the walk ends, and it consumes the whole text when it accepts.\<close>

theorem duplicate_keys_refused:
  "walk_tokens (tokens v) = (if unique_keys v then Inr [] else Inl DuplicateKey)"
  using json_walk_spec [of v "Suc (length (tokens v))" "[]"] by (simp add: walk_tokens_def)

section \<open>What an accepted release satisfies\<close>

lemma select_artifact_ok:
  assumes "select_artifact env host arch seen selected as = Inr (Some a)"
  shows "(\<forall>b \<in> set as. descriptor_ok [] b \<and> address_ok env host b) \<and>
         (a \<in> set as \<and> ar_architecture a = arch \<or> selected = Some a) \<and>
         distinct (map ar_architecture as)\<and> set (map ar_architecture as) \<inter> set seen = {}"
  using assms
proof (induction as arbitrary: seen selected)
  case (Cons b as)
  let ?sel = "if ar_architecture b = arch then Some b else selected"
  have b: "descriptor_ok seen b" "address_ok env host b"
      "select_artifact env host arch (ar_architecture b # seen) ?sel as = Inr (Some a)"
    using Cons.prems by (auto split: if_splits)
  have "descriptor_ok [] b" "ar_architecture b \<notin> set seen" using b(1) by (auto simp: descriptor_ok_def)
  with b(2) Cons.IH [OF b(3)] show ?case by (auto split: if_splits)
qed simp

definition accepted :: "release_env \<Rightarrow> string \<Rightarrow> string \<Rightarrow> policy \<Rightarrow> time \<Rightarrow> manifest \<Rightarrow> artifact \<Rightarrow> bool" where
  "accepted env data signature p now m a \<longleftrightarrow>
     ed25519_verify env (public_key p) data signature \<and> length (public_key p) = 32 \<and>
     json_manifest env data = Some m \<and>
     channel m = po_channel p \<and> created m \<le> now + 300 * second \<and> now < expires m \<and>
     (\<not> initial p \<longrightarrow> installed_sequence p < sequence m \<and> minimum_sequence m \<le> installed_sequence p \<and>
        installed_schema p \<le> target_schema m \<and> minimum_schema m \<le> installed_schema p \<and> installed_schema p \<le> maximum_schema m) \<and>
     a \<in> set (artifacts m) \<and> ar_architecture a = po_architecture p \<and>
     0 < ar_size a \<and> ar_size a \<le> 8 * 2 ^ 30 \<and> digestPattern (ar_sha256 a) \<and>
     (\<exists>u v. url_parse env (artifact_origin p) = Some u \<and> url_parse env (ar_url a) = Some v \<and>
        url_scheme v = ''https'' \<and> url_host v = url_host u \<and> url_host u \<noteq> [] \<and> \<not> url_user v \<and> url_query v = [])"

lemma Verify_cases:
  assumes "Verify env data signature p previous now = Inr (m, a, w)"
  obtains u where "ed25519_verify env (public_key p) data signature" "length (public_key p) = 32" "Decode env data = Some m"
    "metadata_ok p m" "time_ok now m" "range_ok m" "installed_ok p m"
    "w = \<lparr>wm_sequence = sequence m, wm_digest = sha256_hex env data\<rparr>" "\<not> rollback p previous w"
    "origin_of env p = Some u" "select_artifact env (url_host u) (po_architecture p) [] None (artifacts m) = Inr (Some a)"
  using assms unfolding Verify_def Let_def
  by (auto split: if_splits option.splits sum.splits)

lemma Verify_accepted:
  assumes "Verify env data signature p previous now = Inr (m, a, w)"
  shows "accepted env data signature p now m a"
proof -
  obtain u where v: "ed25519_verify env (public_key p) data signature" "length (public_key p) = 32" "Decode env data = Some m"
    "metadata_ok p m" "time_ok now m" "installed_ok p m"
    "w = \<lparr>wm_sequence = sequence m, wm_digest = sha256_hex env data\<rparr>" "\<not> rollback p previous w"
    "origin_of env p = Some u" and s: "select_artifact env (url_host u) (po_architecture p) [] None (artifacts m) = Inr (Some a)"
    using Verify_cases [OF assms] .
  have a: "a \<in> set (artifacts m)" "ar_architecture a = po_architecture p" "descriptor_ok [] a" "address_ok env (url_host u) a"
    using select_artifact_ok [OF s] by auto
  have "url_parse env (artifact_origin p) = Some u" "url_host u \<noteq> []"
    using v(9) by (auto simp: origin_of_def split: option.splits if_splits)
  moreover obtain x where "url_parse env (ar_url a) = Some x" "url_scheme x = ''https''" "url_host x = url_host u"
      "\<not> url_user x" "url_query x = []"
    using a(4) by (auto simp: address_ok_def split: option.splits)
  moreover have "json_manifest env data = Some m" using v(3) by (auto simp: Decode_def split: option.splits sum.splits)
  ultimately show ?thesis
    using v a unfolding accepted_def metadata_ok_def time_ok_def installed_ok_def rollback_def descriptor_ok_def max_archive_def
    by auto
qed

text \<open>The runs of the tool, one after the other on one state file, and the watermarks that they accepted.\<close>

record release_run =
  run_written :: state_write
  run_data :: string
  run_signature :: string
  run_policy :: policy
  run_now :: time

fun tool_runs :: "release_env \<Rightarrow> release_run list \<Rightarrow> watermark option \<Rightarrow> watermark list" where
  "tool_runs env [] stored = []"
| "tool_runs env (r # rs) stored =
     (case tool_run env (run_written r) (run_data r) (run_signature r) (run_policy r) (run_now r) stored of
        (Inl _, stored') \<Rightarrow> tool_runs env rs stored'
      | (Inr (m, a, w), stored') \<Rightarrow> w # tool_runs env rs stored')"

definition newer :: "watermark \<Rightarrow> watermark \<Rightarrow> bool" where
  "newer v w \<longleftrightarrow> wm_sequence v < wm_sequence w \<or> v = w"

lemma newer_trans: "newer u v \<Longrightarrow> newer v w \<Longrightarrow> newer u w"
  by (auto simp: newer_def)

lemma Verify_newer:
  assumes "Verify env data signature p previous now = Inr (m, a, w)"
  shows "newer previous w"
  using Verify_cases [OF assms] by (metis newer_def rollback_def watermark.equality linorder_neqE_nat old.unit.exhaust)

lemma tool_run_stored:
  assumes "tool_run env wr data signature p now stored = (r, stored')"
  shows "stored' = stored \<and> (\<exists>e. r = Inl e) \<or>
         (\<exists>m a w. (r = Inr (m, a, w) \<or> r = Inl StateNotWritten) \<and> stored' = Some w \<and> (\<forall>v. stored = Some v \<longrightarrow> newer v w))"
proof -
  define prev where "prev = (case stored of None \<Rightarrow> \<lparr>wm_sequence = 0, wm_digest = []\<rparr> | Some v \<Rightarrow> v)"
  show ?thesis
  proof (cases "Verify env data signature p prev now")
    case (Inl e)
    then have "tool_run env wr data signature p now stored = (Inl e, stored) \<or>
        tool_run env wr data signature p now stored = (Inl CorruptWatermark, stored)"
      by (cases stored) (auto simp: tool_run_def prev_def)
    then show ?thesis using assms by auto
  next
    case (Inr x)
    moreover obtain m a w where "x = (m, a, w)" by (cases x)
    ultimately have "tool_run env wr data signature p now stored = store_watermark wr (m, a, w) stored \<or>
        tool_run env wr data signature p now stored = (Inl CorruptWatermark, stored)" "newer prev w"
      using Verify_newer [of env data signature p prev now m a w]
      by (cases stored; auto simp: tool_run_def prev_def)+
    then show ?thesis using assms by (cases wr) (auto simp: prev_def store_watermark_def)
  qed
qed

lemma tool_runs_newer:
  "(\<forall>w \<in> set (tool_runs env rs stored). \<forall>v. stored = Some v \<longrightarrow> newer v w) \<and> sorted_wrt newer (tool_runs env rs stored)"
proof (induction rs arbitrary: stored)
  case (Cons r rs)
  obtain x stored' where x: "tool_run env (run_written r) (run_data r) (run_signature r) (run_policy r) (run_now r) stored = (x, stored')"
    by fastforce
  show ?case using tool_run_stored [OF x] x Cons.IH [of stored'] newer_trans
    by (fastforce split: sum.splits)
qed simp

text \<open>C32: A run of the release tool only accepts a manifest whose signature verifies under the pinned key, that is in
  the pinned channel and not expired, that admits the installed release and schema, that is newer than the installed
  release unless it is the first installation, and whose artifact for the architecture is bounded, has a digest and
  is fetched over https from the pinned origin; and over any sequence of runs on one state file, faults of writing it
  included, the accepted sequence numbers never go back and a sequence number is never accepted with two digests.\<close>

theorem releases_never_roll_back:
  "(tool_run env wr data signature p now stored = (Inr (m, a, w), stored') \<longrightarrow> accepted env data signature p now m a) \<and>
   (i < j \<longrightarrow> j < length (tool_runs env rs stored) \<longrightarrow>
      newer (tool_runs env rs stored ! i) (tool_runs env rs stored ! j))"
proof (intro conjI impI)
  assume t: "tool_run env wr data signature p now stored = (Inr (m, a, w), stored')"
  then obtain prev where "Verify env data signature p prev now = Inr (m, a, w)"
    by (auto simp: tool_run_def store_watermark_def split: option.splits if_splits sum.splits state_write.splits)
  then show "accepted env data signature p now m a" by (rule Verify_accepted)
next
  assume "i < j" "j < length (tool_runs env rs stored)"
  then show "newer (tool_runs env rs stored ! i) (tool_runs env rs stored ! j)"
    using tool_runs_newer [of env rs stored] by (simp add: sorted_wrt_iff_nth_less)
qed

definition demo_artifact :: artifact where
  "demo_artifact = \<lparr>ar_architecture = ''amd64'', ar_url = ''https://r.example/a'', ar_size = 10, ar_sha256 = replicate 64 (CHR ''0'')\<rparr>"

definition demo_manifest :: "nat \<Rightarrow> manifest" where
  "demo_manifest n = \<lparr>target_schema = 1, sequence = n, version = ''1'', channel = ''stable'', created = 1, expires = 100, protocol_version = 1,
     minimum_sequence = 0, minimum_schema = 0, maximum_schema = 5, release_notes = [], artifacts = [demo_artifact]\<rparr>"

definition demo_env :: release_env where
  "demo_env = \<lparr>ed25519_verify = (\<lambda>k d s. s = ''sig''), sha256_hex = (\<lambda>d. take 64 (d @ replicate 64 (CHR ''0''))),
     url_parse = (\<lambda>u. Some \<lparr>url_scheme = ''https'', url_host = ''r.example'', url_user = False, url_query = [], url_fragment = [],
       url_path = (if u = ''https://r.example/a'' then ''/a'' else []), url_opaque = []\<rparr>),
     json_manifest = (\<lambda>d. Some (demo_manifest (length d))), json_tokens = (\<lambda>d. tokens (JObj [(''version'', JScalar)]))\<rparr>"

definition demo_policy :: policy where
  "demo_policy = \<lparr>public_key = replicate 32 (CHR ''k''), po_channel = ''stable'', artifact_origin = ''https://r.example'',
     po_architecture = ''amd64'', installed_sequence = 1, installed_schema = 1, initial = False\<rparr>"

lemma demo_verify:
  assumes "1 < length d" "length d \<le> 64" "wm_sequence prev < length d"
  shows "Verify demo_env d ''sig'' demo_policy prev 5 =
    Inr (demo_manifest (length d), demo_artifact, \<lparr>wm_sequence = length d, wm_digest = take 64 (d @ replicate 64 (CHR ''0''))\<rparr>)"
proof -
  have "Decode demo_env d = Some (demo_manifest (length d))"
    by (simp add: Decode_def demo_env_def walk_tokens_def is_close_def)
  moreover have "digestPattern (replicate 64 (CHR ''0''))"
    by (simp add: digestPattern_def list_all_iff)
  then have "select_artifact demo_env ''r.example'' ''amd64'' [] None [demo_artifact] = Inr (Some demo_artifact)"
    by (simp add: descriptor_ok_def address_ok_def demo_artifact_def demo_env_def max_archive_def)
  moreover have "metadata_ok demo_policy (demo_manifest (length d))" "time_ok 5 (demo_manifest (length d))"
    using assms by (auto simp: metadata_ok_def time_ok_def demo_policy_def demo_manifest_def versionPattern_def alnum_def
        zero_time_def second_def time_sub_def)
  ultimately show ?thesis
    using assms unfolding Verify_def Let_def
    by (auto simp: demo_env_def demo_policy_def demo_manifest_def max_manifest_def range_ok_def
        installed_ok_def rollback_def origin_of_def)
qed

theorem releases_never_roll_back_witness:
  "newer (tool_runs demo_env [\<lparr>run_written = Written, run_data = ''ab'', run_signature = ''sig'', run_policy = demo_policy, run_now = 5\<rparr>,
       \<lparr>run_written = Written, run_data = ''a'', run_signature = ''sig'', run_policy = demo_policy, run_now = 5\<rparr>,
       \<lparr>run_written = Written, run_data = ''abc'', run_signature = ''sig'', run_policy = demo_policy, run_now = 5\<rparr>] None ! 0)
     \<lparr>wm_sequence = 3, wm_digest = take 64 (''abc'' @ replicate 64 (CHR ''0''))\<rparr>
   \<and> accepted demo_env ''ab'' ''sig'' demo_policy 5 (demo_manifest 2) demo_artifact"
proof -
  let ?rs = "[\<lparr>run_written = Written, run_data = ''ab'', run_signature = ''sig'', run_policy = demo_policy, run_now = 5\<rparr>,
       \<lparr>run_written = Written, run_data = ''a'', run_signature = ''sig'', run_policy = demo_policy, run_now = 5\<rparr>,
       \<lparr>run_written = Written, run_data = ''abc'', run_signature = ''sig'', run_policy = demo_policy, run_now = 5\<rparr>]"
  define w2 where "w2 = \<lparr>wm_sequence = 2, wm_digest = take 64 (''ab'' @ replicate 64 (CHR ''0''))\<rparr>"
  define w3 where "w3 = \<lparr>wm_sequence = 3, wm_digest = take 64 (''abc'' @ replicate 64 (CHR ''0''))\<rparr>"
  have 1: "tool_run demo_env Written ''ab'' ''sig'' demo_policy 5 None = (Inr (demo_manifest 2, demo_artifact, w2), Some w2)"
    by (simp add: tool_run_def store_watermark_def demo_verify w2_def eval_nat_numeral)
  have "\<exists>e. Verify demo_env ''a'' ''sig'' demo_policy w2 5 = Inl e"
    using Verify_accepted [of demo_env "''a''" "''sig''" demo_policy w2 5]
    by (cases "Verify demo_env ''a'' ''sig'' demo_policy w2 5")
       (auto simp: accepted_def demo_env_def demo_manifest_def demo_policy_def)
  then have 2: "\<exists>e. tool_run demo_env Written ''a'' ''sig'' demo_policy 5 (Some w2) = (Inl e, Some w2)"
    by (auto simp: tool_run_def w2_def)
  have 3: "tool_run demo_env Written ''abc'' ''sig'' demo_policy 5 (Some w2) = (Inr (demo_manifest 3, demo_artifact, w3), Some w3)"
    by (simp add: tool_run_def store_watermark_def demo_verify w2_def w3_def eval_nat_numeral)
  have r: "tool_runs demo_env ?rs None = [w2, w3]" using 1 2 3 by auto
  show ?thesis
    using releases_never_roll_back [of demo_env Written "''ab''" "''sig''" demo_policy 5 None "demo_manifest 2" demo_artifact w2
        "Some w2" 0 1 ?rs] 1 r by (simp add: w3_def)
qed

end
