(* ===== verification/Net_Policy.thy ===== *)
theory Net_Policy
  imports Go_Url Auth_Primitives
begin

text \<open>
  Which destinations the relay may connect to, \<^verbatim>\<open>backend/internal/netpolicy/rtmp.go\<close> and \<^verbatim>\<open>relay.go\<close>. An
  address is the number that its bytes spell, tagged with its family. Name resolution is an argument: each lookup of
  the model is one answer of the resolver, so that two lookups of the same name may differ.
\<close>

section \<open>Addresses\<close>

datatype addr = V4 nat | V6 nat

definition AddrFromSlice :: "string \<Rightarrow> addr option" where
  "AddrFromSlice ip = (if length ip = 4 then Some (V4 (be_nat ip)) else if length ip = 16 then Some (V6 (be_nat ip)) else None)"

text \<open>An address in ::ffff:0:0/96 stands for an IPv4 address.\<close>

definition Unmap :: "addr \<Rightarrow> addr" where
  "Unmap a = (case a of V6 n \<Rightarrow> if n div 2 ^ 32 = 2 ^ 16 - 1 then V4 (n mod 2 ^ 32) else V6 n | V4 n \<Rightarrow> V4 n)"

datatype prefix = P4 nat nat | P6 nat nat

definition Prefix_Contains :: "prefix \<Rightarrow> addr \<Rightarrow> bool" where
  "Prefix_Contains p a \<longleftrightarrow>
     (case (p, a) of
        (P4 net len, V4 n) \<Rightarrow> n div 2 ^ (32 - len) = net div 2 ^ (32 - len)
      | (P6 net len, V6 n) \<Rightarrow> n div 2 ^ (128 - len) = net div 2 ^ (128 - len)
      | _ \<Rightarrow> False)"

definition ip4 :: "nat \<Rightarrow> nat \<Rightarrow> nat \<Rightarrow> nat \<Rightarrow> nat" where
  "ip4 a b c d = a * 2 ^ 24 + b * 2 ^ 16 + c * 2 ^ 8 + d"

text \<open>The first three groups of an IPv6 address, the rest zero.\<close>

definition ip6 :: "nat \<Rightarrow> nat \<Rightarrow> nat \<Rightarrow> nat" where
  "ip6 g0 g1 g2 = g0 * 2 ^ 112 + g1 * 2 ^ 96 + g2 * 2 ^ 80"

definition IsLoopback :: "addr \<Rightarrow> bool" where
  "IsLoopback a \<longleftrightarrow> (case a of V4 n \<Rightarrow> n div 2 ^ 24 = 127 | V6 n \<Rightarrow> n = 1)"

definition IsMulticast :: "addr \<Rightarrow> bool" where
  "IsMulticast a \<longleftrightarrow> (case a of V4 n \<Rightarrow> n div 2 ^ 28 = 14 | V6 n \<Rightarrow> n div 2 ^ 120 = 255)"

definition IsLinkLocalUnicast :: "addr \<Rightarrow> bool" where
  "IsLinkLocalUnicast a \<longleftrightarrow> (case a of V4 n \<Rightarrow> n div 2 ^ 16 = 169 * 2 ^ 8 + 254 | V6 n \<Rightarrow> n div 2 ^ 118 = 1018)"

definition IsPrivate :: "addr \<Rightarrow> bool" where
  "IsPrivate a \<longleftrightarrow>
     (case a of V4 n \<Rightarrow> n div 2 ^ 24 = 10 \<or> n div 2 ^ 20 = 172 * 2 ^ 4 + 1 \<or> n div 2 ^ 16 = 192 * 2 ^ 8 + 168
      | V6 n \<Rightarrow> n div 2 ^ 121 = 126)"

definition IsGlobalUnicast :: "addr \<Rightarrow> bool" where
  "IsGlobalUnicast a \<longleftrightarrow>
     a \<noteq> V4 0 \<and> a \<noteq> V4 (2 ^ 32 - 1) \<and> a \<noteq> V6 0 \<and> \<not> IsLoopback a \<and> \<not> IsMulticast a \<and> \<not> IsLinkLocalUnicast a"

definition reserved :: "prefix list" where
  "reserved =
     [P6 (ip6 0x3fff 0 0) 20, P4 (ip4 192 88 99 0) 24,
      P4 (ip4 0 0 0 0) 8, P4 (ip4 100 64 0 0) 10, P4 (ip4 192 0 0 0) 24, P4 (ip4 192 0 2 0) 24, P4 (ip4 198 18 0 0) 15,
      P4 (ip4 198 51 100 0) 24, P4 (ip4 203 0 113 0) 24, P4 (ip4 240 0 0 0) 4,
      P6 (ip6 0x64 0xff9b 0) 96, P6 (ip6 0x64 0xff9b 1) 48, P6 (ip6 0x100 0 0) 64, P6 (ip6 0x2001 0 0) 23,
      P6 (ip6 0x2001 0xdb8 0) 32, P6 (ip6 0x2002 0 0) 16]"

text \<open>The checks on an unmapped address, and \<open>deniedIP\<close> on the bytes.\<close>

definition denied_addr :: "addr \<Rightarrow> bool" where
  "denied_addr a \<longleftrightarrow>
     (case a of V6 _ \<Rightarrow> \<not> Prefix_Contains (P6 (ip6 0x2000 0 0) 3) a | V4 _ \<Rightarrow> False) \<or>
     (\<not> IsGlobalUnicast a \<or> IsPrivate a \<or> IsLoopback a \<or> IsLinkLocalUnicast a) \<or>
     list_ex (\<lambda>p. Prefix_Contains p a) reserved"

definition deniedIP :: "string \<Rightarrow> bool" where
  "deniedIP ip = (case AddrFromSlice ip of None \<Rightarrow> True | Some a \<Rightarrow> denied_addr (Unmap a))"

section \<open>Endpoints\<close>

record rtmp_policy =
  allow_hosts :: "string set"
  development :: bool

type_synonym answer = "string list option"

datatype policy_error = InvalidEndpoint | InvalidPort | ResolutionFailed | DeniedAddress

definition addresses_ok :: "rtmp_policy \<Rightarrow> string \<Rightarrow> string list \<Rightarrow> bool" where
  "addresses_ok p host ips \<longleftrightarrow> list_all (\<lambda>ip. \<not> (deniedIP ip \<and> \<not> (development p \<and> host \<in> allow_hosts p))) ips"

definition endpoint_ok :: "url \<Rightarrow> bool" where
  "endpoint_ok u \<longleftrightarrow>
     Hostname u \<noteq> [] \<and> (url_scheme u = ''rtmp'' \<or> url_scheme u = ''rtmps'') \<and> \<not> url_user u \<and> url_fragment u = [] \<and> url_query u = []"

definition lower_url :: "url \<Rightarrow> url" where
  "lower_url u = u\<lparr>url_scheme := ToLower (url_scheme u), url_host := ToLower (url_host u)\<rparr>"

definition Validate ::
  "(string \<Rightarrow> url option) \<Rightarrow> (url \<Rightarrow> string) \<Rightarrow> (string \<Rightarrow> answer) \<Rightarrow> rtmp_policy \<Rightarrow> string \<Rightarrow> policy_error + string" where
  "Validate parse render lookup p raw =
     (case parse raw of
        None \<Rightarrow> Inl InvalidEndpoint
      | Some u0 \<Rightarrow>
          if \<not> endpoint_ok u0 then Inl InvalidEndpoint
          else if Port u0 \<noteq> [] \<and> port_number (Port u0) = None then Inl InvalidPort
          else let u = lower_url u0; host = Hostname u in
            (case lookup host of
               None \<Rightarrow> Inl ResolutionFailed
             | Some ips \<Rightarrow>
                 if ips = [] then Inl ResolutionFailed
                 else if \<not> addresses_ok p host ips then Inl DeniedAddress
                 else Inr (TrimRight_slash (render u))))"

text \<open>The addresses that \<open>forward\<close> dials, in order, up to the first that answers, with the port.\<close>

fun dial_candidates :: "(string \<Rightarrow> bool) \<Rightarrow> string list \<Rightarrow> string list" where
  "dial_candidates answers [] = []"
| "dial_candidates answers (ip # ips) = (if answers ip then [ip] else ip # dial_candidates answers ips)"

definition forward_port :: "url \<Rightarrow> string" where
  "forward_port u = (if Port u = [] then (if url_scheme u = ''rtmps'' then ''443'' else ''1935'') else Port u)"

definition forward ::
  "(string \<Rightarrow> url option) \<Rightarrow> (url \<Rightarrow> string) \<Rightarrow> (string \<Rightarrow> answer) \<Rightarrow> (string \<Rightarrow> answer) \<Rightarrow> (string \<Rightarrow> bool) \<Rightarrow> rtmp_policy \<Rightarrow> url \<Rightarrow>
   (string \<times> nat) list" where
  "forward parse render lookup1 lookup2 answers p u =
     (case port_number (forward_port u) of
        None \<Rightarrow> []
      | Some n \<Rightarrow>
          (case Validate parse render lookup1 p (render u) of
             Inl _ \<Rightarrow> []
           | Inr _ \<Rightarrow>
               (case lookup2 (Hostname u) of
                  None \<Rightarrow> []
                | Some ips \<Rightarrow>
                    if ips = [] \<or> \<not> addresses_ok p (Hostname u) ips then []
                    else map (\<lambda>ip. (ip, n)) (dial_candidates answers ips))))"

section \<open>Relay listeners\<close>

record relay_target =
  rt_raw :: string
  rt_listener :: nat
  rt_location :: string

text \<open>\<open>open_listeners\<close> are the sockets that the process holds; \<open>next_listener\<close> names the next one.\<close>

record relay =
  listeners :: "string \<rightharpoonup> relay_target"
  open_listeners :: "nat set"
  next_listener :: nat

definition close_key :: "string \<Rightarrow> relay \<Rightarrow> relay" where
  "close_key key r =
     (case listeners r key of
        None \<Rightarrow> r
      | Some t \<Rightarrow> r\<lparr>listeners := (listeners r)(key := None), open_listeners := open_listeners r - {rt_listener t}\<rparr>)"

definition target_ok :: "url \<Rightarrow> bool" where
  "target_ok u \<longleftrightarrow> \<not> url_user u \<and> Hostname u \<noteq> [] \<and> (url_scheme u = ''rtmp'' \<or> url_scheme u = ''rtmps'')"

definition open_target ::
  "(string \<Rightarrow> url option) \<Rightarrow> (url \<Rightarrow> string) \<Rightarrow> (nat \<Rightarrow> string option) \<Rightarrow> string \<Rightarrow> string \<Rightarrow> relay \<Rightarrow> string option \<times> relay" where
  "open_target parse render listen key raw r =
     (case parse raw of
        None \<Rightarrow> (None, r)
      | Some u \<Rightarrow>
          if \<not> target_ok u then (None, r)
          else (case listen (next_listener r) of
              None \<Rightarrow> (None, r)
            | Some address \<Rightarrow>
                let location = render (u\<lparr>url_scheme := ''rtmp'', url_host := address\<rparr>) in
                (Some location,
                 r\<lparr>listeners := (listeners r)(key \<mapsto> \<lparr>rt_raw = raw, rt_listener = next_listener r, rt_location = location\<rparr>),
                   open_listeners := insert (next_listener r) (open_listeners r), next_listener := next_listener r + 1\<rparr>)))"

definition Location ::
  "(string \<Rightarrow> url option) \<Rightarrow> (url \<Rightarrow> string) \<Rightarrow> (nat \<Rightarrow> string option) \<Rightarrow> string \<Rightarrow> string \<Rightarrow> relay \<Rightarrow> string option \<times> relay" where
  "Location parse render listen key raw r =
     (case listeners r key of
        Some t \<Rightarrow>
          if rt_raw t = raw then (Some (rt_location t), r)
          else open_target parse render listen key raw (close_key key r)
      | None \<Rightarrow> open_target parse render listen key raw r)"

text \<open>\<open>order\<close> is the order in which the range visits the keys.\<close>

definition Retain :: "string list \<Rightarrow> string set \<Rightarrow> relay \<Rightarrow> relay" where
  "Retain order keys r = fold (\<lambda>key r. if key \<in> keys then r else close_key key r) order r"

definition Close_relay :: "string list \<Rightarrow> relay \<Rightarrow> relay" where
  "Close_relay order r = Retain order {} r"

section \<open>The admitted addresses\<close>

lemma be_nat_4: "be_nat [a, b, c, d] = ip4 (of_char a) (of_char b) (of_char c) (of_char d)"
  by (simp add: be_nat_def ip4_def)

text \<open>The dotted form of the admitted IPv4 addresses.\<close>

definition special_v4 :: "nat \<Rightarrow> nat \<Rightarrow> nat \<Rightarrow> bool" where
  "special_v4 a b c \<longleftrightarrow>
     a = 0 \<or> a = 10 \<or> a = 127 \<or> a = 100 \<and> 64 \<le> b \<and> b \<le> 127 \<or> a = 169 \<and> b = 254 \<or> a = 172 \<and> 16 \<le> b \<and> b \<le> 31 \<or>
     a = 192 \<and> b = 0 \<and> (c = 0 \<or> c = 2) \<or> a = 192 \<and> b = 88 \<and> c = 99 \<or> a = 192 \<and> b = 168 \<or>
     a = 198 \<and> (b = 18 \<or> b = 19) \<or> a = 198 \<and> b = 51 \<and> c = 100 \<or> a = 203 \<and> b = 0 \<and> c = 113 \<or> 224 \<le> a"

definition special_v6 :: "nat \<Rightarrow> nat \<Rightarrow> bool" where
  "special_v6 g0 g1 \<longleftrightarrow>
     g0 < 0x2000 \<or> 0x3fff < g0 \<or> g0 = 0x2001 \<and> (g1 < 0x200 \<or> g1 = 0xdb8) \<or> g0 = 0x2002 \<or> g0 = 0x3fff \<and> g1 < 0x1000"

lemma ip4_div:
  assumes "a < 256" "b < 256" "c < 256" "d < 256"
  shows "ip4 a b c d div 16777216 = a" "ip4 a b c d div 65536 = a * 256 + b" "ip4 a b c d div 256 = a * 65536 + b * 256 + c"
    "ip4 a b c d div 268435456 = a div 16" "ip4 a b c d div 1048576 = a * 16 + b div 16"
    "ip4 a b c d div 4194304 = a * 4 + b div 64" "ip4 a b c d div 131072 = a * 128 + b div 2"
  using assms unfolding ip4_def by (simp_all; presburger)+

lemma reserved_v4:
  assumes "a < 256" "b < 256" "c < 256" "d < 256"
  shows "list_ex (\<lambda>p. Prefix_Contains p (V4 (ip4 a b c d))) reserved \<longleftrightarrow>
    a * 65536 + b * 256 + c = 12605539 \<or> a = 0 \<or> a * 4 + b div 64 = 401 \<or> a * 65536 + b * 256 + c = 12582912 \<or>
    a * 65536 + b * 256 + c = 12582914 \<or> a * 128 + b div 2 = 25353 \<or> a * 65536 + b * 256 + c = 12989284 \<or>
    a * 65536 + b * 256 + c = 13303921 \<or> a div 16 = 15"
  using assms
  by (simp add: reserved_def Prefix_Contains_def ip4_div ip4_def [of 192] ip4_def [of 0] ip4_def [of 100] ip4_def [of 198]
      ip4_def [of 203] ip4_def [of 240])

lemma digit_eq: "b < k \<Longrightarrow> b' < k \<Longrightarrow> a * k + b = a' * k + b' \<longleftrightarrow> a = a' \<and> b = b'" for a b k :: nat
  by (metis add.commute div_mult_self3 div_less add_cancel_right_left mod_mult_self3 mod_less not_less_zero)

lemma digits3_eq:
  fixes a b c :: nat
  assumes "b < 256" "c < 256" "b' < 256" "c' < 256"
  shows "a * 65536 + b * 256 + c = a' * 65536 + b' * 256 + c' \<longleftrightarrow> a = a' \<and> b = b' \<and> c = c'"
  using digit_eq [of c 256 c' "a * 256 + b" "a' * 256 + b'"] digit_eq [of b 256 b' a a'] assms by (simp add: algebra_simps)

lemma range_v4:
  fixes a b c :: nat
  assumes "a < 256" "b < 256" "c < 256"
  shows "a * 65536 + b * 256 + c = 12605539 \<longleftrightarrow> a = 192 \<and> b = 88 \<and> c = 99"
    "a * 65536 + b * 256 + c = 12582912 \<longleftrightarrow> a = 192 \<and> b = 0 \<and> c = 0"
    "a * 65536 + b * 256 + c = 12582914 \<longleftrightarrow> a = 192 \<and> b = 0 \<and> c = 2"
    "a * 65536 + b * 256 + c = 12989284 \<longleftrightarrow> a = 198 \<and> b = 51 \<and> c = 100"
    "a * 65536 + b * 256 + c = 13303921 \<longleftrightarrow> a = 203 \<and> b = 0 \<and> c = 113"
    "a * 4 + b div 64 = 401 \<longleftrightarrow> a = 100 \<and> 64 \<le> b \<and> b \<le> 127"
    "a * 128 + b div 2 = 25353 \<longleftrightarrow> a = 198 \<and> (b = 18 \<or> b = 19)"
    "a div 16 = 15 \<longleftrightarrow> 240 \<le> a" "a div 16 = 14 \<longleftrightarrow> 224 \<le> a \<and> a < 240"
    "a * 16 + b div 16 = 2753 \<longleftrightarrow> a = 172 \<and> 16 \<le> b \<and> b \<le> 31"
    "a * 256 + b = 49320 \<longleftrightarrow> a = 192 \<and> b = 168" "a * 256 + b = 43518 \<longleftrightarrow> a = 169 \<and> b = 254"
proof -
  have d: "b div 64 < 4" "b div 2 < 128" "b div 16 < 16" using assms by auto
  show "a * 65536 + b * 256 + c = 12605539 \<longleftrightarrow> a = 192 \<and> b = 88 \<and> c = 99"
    "a * 65536 + b * 256 + c = 12582912 \<longleftrightarrow> a = 192 \<and> b = 0 \<and> c = 0"
    "a * 65536 + b * 256 + c = 12582914 \<longleftrightarrow> a = 192 \<and> b = 0 \<and> c = 2"
    "a * 65536 + b * 256 + c = 12989284 \<longleftrightarrow> a = 198 \<and> b = 51 \<and> c = 100"
    "a * 65536 + b * 256 + c = 13303921 \<longleftrightarrow> a = 203 \<and> b = 0 \<and> c = 113"
    using assms digits3_eq [of b c 88 99 a 192] digits3_eq [of b c 0 0 a 192] digits3_eq [of b c 0 2 a 192]
      digits3_eq [of b c 51 100 a 198] digits3_eq [of b c 0 113 a 203] by simp_all
  have "a * 4 + b div 64 = 401 \<longleftrightarrow> a = 100 \<and> b div 64 = 1" "a * 128 + b div 2 = 25353 \<longleftrightarrow> a = 198 \<and> b div 2 = 9"
      "a * 16 + b div 16 = 2753 \<longleftrightarrow> a = 172 \<and> b div 16 = 1"
    using d digit_eq [of "b div 64" 4 1 a 100] digit_eq [of "b div 2" 128 9 a 198] digit_eq [of "b div 16" 16 1 a 172] by simp_all
  then show "a * 4 + b div 64 = 401 \<longleftrightarrow> a = 100 \<and> 64 \<le> b \<and> b \<le> 127"
    "a * 128 + b div 2 = 25353 \<longleftrightarrow> a = 198 \<and> (b = 18 \<or> b = 19)"
    "a * 16 + b div 16 = 2753 \<longleftrightarrow> a = 172 \<and> 16 \<le> b \<and> b \<le> 31" by auto
  show "a div 16 = 15 \<longleftrightarrow> 240 \<le> a" "a div 16 = 14 \<longleftrightarrow> 224 \<le> a \<and> a < 240" using assms by auto
  show "a * 256 + b = 49320 \<longleftrightarrow> a = 192 \<and> b = 168" "a * 256 + b = 43518 \<longleftrightarrow> a = 169 \<and> b = 254"
    using assms digit_eq [of b 256 168 a 192] digit_eq [of b 256 254 a 169] by simp_all
qed

lemma denied_v4:
  assumes "a < 256" "b < 256" "c < 256" "d < 256"
  shows "denied_addr (V4 (ip4 a b c d)) \<longleftrightarrow> special_v4 a b c"
proof -
  have ends: "ip4 a b c d = 0 \<Longrightarrow> a = 0" "ip4 a b c d = 4294967295 \<Longrightarrow> 240 \<le> a"
    using assms by (auto simp: ip4_def)
  have u: "IsLoopback (V4 (ip4 a b c d)) \<longleftrightarrow> a = 127" "IsMulticast (V4 (ip4 a b c d)) \<longleftrightarrow> 224 \<le> a \<and> a < 240"
      "IsLinkLocalUnicast (V4 (ip4 a b c d)) \<longleftrightarrow> a = 169 \<and> b = 254"
      "IsPrivate (V4 (ip4 a b c d)) \<longleftrightarrow> a = 10 \<or> a = 172 \<and> 16 \<le> b \<and> b \<le> 31 \<or> a = 192 \<and> b = 168"
    using assms by (simp_all add: IsLoopback_def IsMulticast_def IsLinkLocalUnicast_def IsPrivate_def ip4_div range_v4)
  have g: "IsGlobalUnicast (V4 (ip4 a b c d)) \<longleftrightarrow>
      ip4 a b c d \<noteq> 0 \<and> ip4 a b c d \<noteq> 4294967295 \<and> a \<noteq> 127 \<and> \<not> (224 \<le> a \<and> a < 240) \<and> \<not> (a = 169 \<and> b = 254)"
    by (simp add: IsGlobalUnicast_def u)
  have m: "224 \<le> a \<longleftrightarrow> 224 \<le> a \<and> a < 240 \<or> 240 \<le> a" by auto
  have "denied_addr (V4 (ip4 a b c d)) \<longleftrightarrow>
      \<not> IsGlobalUnicast (V4 (ip4 a b c d)) \<or> IsPrivate (V4 (ip4 a b c d)) \<or> IsLoopback (V4 (ip4 a b c d)) \<or>
      IsLinkLocalUnicast (V4 (ip4 a b c d)) \<or> list_ex (\<lambda>p. Prefix_Contains p (V4 (ip4 a b c d))) reserved"
    by (simp add: denied_addr_def)
  then show ?thesis
    unfolding g u reserved_v4 [OF assms] range_v4 [OF assms(1-3)] special_v4_def using ends m by satx
qed

lemma deniedIP_v4: "deniedIP [a, b, c, d] \<longleftrightarrow> special_v4 (of_char a) (of_char b) (of_char c)"
  by (simp add: deniedIP_def AddrFromSlice_def be_nat_4 Unmap_def denied_v4)

text \<open>Every prefix test of an IPv6 address that the code makes reads the first 32 bits, once the address is
  known to lie in 2000::/3.\<close>

lemma div_top: "j + k = m \<Longrightarrow> n div 2 ^ m = n div 2 ^ j div 2 ^ k" for n :: nat
  by (simp add: div_mult2_eq [symmetric] power_add [symmetric])

lemma reserved_v6:
  "list_ex (\<lambda>p. Prefix_Contains p (V6 n)) reserved \<longleftrightarrow>
    n div 2 ^ 108 = 0x3fff0 \<or> n div 2 ^ 32 = 0x64ff9b * 2 ^ 64 \<or> n div 2 ^ 80 = 0x64ff9b0001 \<or>
    n div 2 ^ 64 = 0x100 * 2 ^ 48 \<or> n div 2 ^ 105 = 0x100080 \<or> n div 2 ^ 96 = 0x20010db8 \<or> n div 2 ^ 112 = 0x2002"
  by (simp add: reserved_def Prefix_Contains_def ip6_def)

lemma v6_ranges:
  fixes q :: nat
  shows "q div 2 ^ 29 = 1 \<longleftrightarrow> 0x20000000 \<le> q \<and> q < 0x40000000"
    "q div 2 ^ 12 = 0x3fff0 \<longleftrightarrow> 0x3fff0000 \<le> q \<and> q < 0x3fff1000"
    "q div 2 ^ 9 = 0x100080 \<longleftrightarrow> 0x20010000 \<le> q \<and> q < 0x20010200"
    "q div 2 ^ 16 = 0x2002 \<longleftrightarrow> 0x20020000 \<le> q \<and> q < 0x20030000"
  by auto

lemma special_v6_range:
  "special_v6 (q div 65536) (q mod 65536) \<longleftrightarrow>
     \<not> (0x20000000 \<le> q \<and> q < 0x40000000) \<or> 0x3fff0000 \<le> q \<and> q < 0x3fff1000 \<or> 0x20010000 \<le> q \<and> q < 0x20010200 \<or>
     q = 0x20010db8 \<or> 0x20020000 \<le> q \<and> q < 0x20030000"
proof -
  define g h where "g = q div 65536" and "h = q mod 65536"
  have q: "q = 65536 * g + h" and h: "h < 65536" by (simp_all add: g_def h_def)
  have g: "0x3fff0000 \<le> q \<Longrightarrow> q < 0x3fff1000 \<Longrightarrow> g = 0x3fff" "0x20010000 \<le> q \<Longrightarrow> q < 0x20010200 \<Longrightarrow> g = 0x2001"
    using h by (simp_all add: q)
  have 1: "(0x20000000 \<le> q \<and> q < 0x40000000) \<longleftrightarrow> \<not> (g < 0x2000 \<or> 0x3fff < g)"
    and 5: "(0x20020000 \<le> q \<and> q < 0x20030000) \<longleftrightarrow> g = 0x2002"
    and 4: "q = 0x20010db8 \<longleftrightarrow> g = 0x2001 \<and> h = 0xdb8"
    unfolding q using h digit_eq [of h 65536 "0xdb8" g "0x2001"] by (auto simp: algebra_simps)
  have 2: "(0x3fff0000 \<le> q \<and> q < 0x3fff1000) \<longleftrightarrow> g = 0x3fff \<and> h < 0x1000"
    by (rule iffI; (elim conjE; frule (1) g(1))?; simp add: q)
  have 3: "(0x20010000 \<le> q \<and> q < 0x20010200) \<longleftrightarrow> g = 0x2001 \<and> h < 0x200"
    by (rule iffI; (elim conjE; frule (1) g(2))?; simp add: q)
  show ?thesis unfolding g_def [symmetric] h_def [symmetric] special_v6_def 1 2 3 4 5 by blast
qed

lemma denied_v6: "denied_addr (V6 n) \<longleftrightarrow> special_v6 (n div 2 ^ 112) (n div 2 ^ 96 mod 65536)"
proof -
  define q where "q = n div 2 ^ 96"
  have d: "n div 2 ^ 125 = q div 2 ^ 29" "n div 2 ^ 108 = q div 2 ^ 12" "n div 2 ^ 105 = q div 2 ^ 9" "n div 2 ^ 112 = q div 2 ^ 16"
      "n div 2 ^ 120 = q div 2 ^ 24" "n div 2 ^ 118 = q div 2 ^ 22" "n div 2 ^ 121 = q div 2 ^ 25"
      "n div 2 ^ 80 div 2 ^ 16 = q" "n div 2 ^ 64 div 2 ^ 32 = q" "n div 2 ^ 32 div 2 ^ 64 = q"
    by (simp_all only: q_def, rule div_top, simp, rule div_top, simp, rule div_top, simp, rule div_top, simp,
        rule div_top, simp, rule div_top, simp, rule div_top, simp, (rule div_top [symmetric], simp)+)
  have low: "n div 2 ^ 32 = 0x64ff9b * 2 ^ 64 \<Longrightarrow> q = 0x64ff9b" "n div 2 ^ 80 = 0x64ff9b0001 \<Longrightarrow> q = 0x64ff9b"
      "n div 2 ^ 64 = 0x100 * 2 ^ 48 \<Longrightarrow> q = 0x1000000" "n = 0 \<Longrightarrow> q = 0" "n = 1 \<Longrightarrow> q = 0"
    using d(8-10) by (auto simp: q_def)
  have p: "Prefix_Contains (P6 (ip6 0x2000 0 0) 3) (V6 n) \<longleftrightarrow> q div 2 ^ 29 = 1"
    by (simp add: Prefix_Contains_def ip6_def d(1) [simplified])
  show ?thesis
  proof (cases "q div 2 ^ 29 = 1")
    case False
    then have "denied_addr (V6 n)" using p by (simp add: denied_addr_def)
    moreover have "special_v6 (q div 65536) (q mod 65536)" using False unfolding special_v6_range v6_ranges by blast
    ultimately show ?thesis using d(4) by (simp add: q_def)
  next
    case True
    then have r: "0x20000000 \<le> q" "q < 0x40000000" unfolding v6_ranges by blast+
    have u: "\<not> IsLoopback (V6 n)" "\<not> IsMulticast (V6 n)" "\<not> IsLinkLocalUnicast (V6 n)" "\<not> IsPrivate (V6 n)" "IsGlobalUnicast (V6 n)"
      using r low(4,5) d(5-7)
      by (auto simp: IsLoopback_def IsMulticast_def IsLinkLocalUnicast_def IsPrivate_def IsGlobalUnicast_def)
    have "denied_addr (V6 n) \<longleftrightarrow> list_ex (\<lambda>p. Prefix_Contains p (V6 n)) reserved"
      using True p u by (simp add: denied_addr_def)
    also have "\<dots> \<longleftrightarrow> q div 2 ^ 12 = 0x3fff0 \<or> q div 2 ^ 9 = 0x100080 \<or> q = 0x20010db8 \<or> q div 2 ^ 16 = 0x2002"
      using low(1-3) r d(2-4) unfolding reserved_v6 q_def [symmetric] by auto
    also have "\<dots> \<longleftrightarrow> special_v6 (q div 65536) (q mod 65536)"
      using r unfolding special_v6_range v6_ranges by blast
    finally show ?thesis using d(4) by (simp add: q_def)
  qed
qed

definition mapped_prefix :: string where
  "mapped_prefix = replicate 10 (CHR 0x00) @ [CHR 0xFF, CHR 0xFF]"

lemma be_nat_append: "be_nat (xs @ ys) = be_nat xs * 256 ^ length ys + be_nat ys"
proof (induction ys rule: rev_induct)
  case (snoc y ys)
  then show ?case by (simp flip: append_assoc add: algebra_simps)
qed (simp add: be_nat_def)

lemma be_nat_zeros: "be_nat (replicate n (CHR 0x00)) = 0"
  by (induction n) (simp_all add: be_nat_def)

lemma be_nat_bound: "be_nat xs < 256 ^ length xs"
proof (induction xs rule: rev_induct)
  case (snoc x xs)
  then have "256 * be_nat xs + 256 \<le> 256 * 256 ^ length xs" by simp
  moreover have "be_nat (xs @ [x]) = 256 * be_nat xs + of_char x" "256 ^ length (xs @ [x]) = (256 * 256 ^ length xs :: nat)"
    by simp_all
  ultimately show ?case using nat_of_char_less_256 [of x] by linarith
qed (simp add: be_nat_def)

lemma be_nat_inj: "length xs = length ys \<Longrightarrow> be_nat xs = be_nat ys \<Longrightarrow> xs = ys"
proof (induction xs arbitrary: ys rule: rev_induct)
  case (snoc x xs)
  then obtain zs z where ys: "ys = zs @ [z]" by (cases ys rule: rev_cases) auto
  have "be_nat xs * 256 + of_char x = be_nat zs * 256 + (of_char z :: nat)"
    using snoc.prems(2) ys by (simp add: mult.commute)
  then have "be_nat xs = be_nat zs" "(of_char x :: nat) = of_char z"
    using digit_eq [of "of_char x" 256 "of_char z" "be_nat xs" "be_nat zs"] by simp_all
  then show ?case using snoc.IH [of zs] snoc.prems(1) ys by simp
qed simp

lemma mapped_iff:
  assumes "length ip = 16"
  shows "be_nat ip div 2 ^ 32 = 2 ^ 16 - 1 \<longleftrightarrow> take 12 ip = mapped_prefix"
    "be_nat ip mod 2 ^ 32 = be_nat (drop 12 ip)"
proof -
  have ip: "be_nat ip = be_nat (take 12 ip) * 2 ^ 32 + be_nat (drop 12 ip)"
    using be_nat_append [of "take 12 ip" "drop 12 ip"] assms by simp
  have lt: "be_nat (drop 12 ip) < 2 ^ 32" using be_nat_bound [of "drop 12 ip"] assms by simp
  have d: "be_nat ip div 2 ^ 32 = be_nat (take 12 ip)" unfolding ip using lt by simp
  have "be_nat mapped_prefix = 2 ^ 16 - 1" 
    using be_nat_append [of "replicate 10 (CHR 0x00)" "[CHR 0xFF, CHR 0xFF]"] be_nat_zeros [of 10]
    by (simp add: mapped_prefix_def be_nat_def)
  moreover have "length mapped_prefix = length (take 12 ip)" using assms by (simp add: mapped_prefix_def)
  ultimately show "be_nat ip div 2 ^ 32 = 2 ^ 16 - 1 \<longleftrightarrow> take 12 ip = mapped_prefix"
    unfolding d using be_nat_inj by metis
  show "be_nat ip mod 2 ^ 32 = be_nat (drop 12 ip)" unfolding ip using lt by simp
qed

lemma be_nat_4': "length ip = 4 \<Longrightarrow> be_nat ip = ip4 (of_char (ip ! 0)) (of_char (ip ! 1)) (of_char (ip ! 2)) (of_char (ip ! 3))"
  by (auto simp: numeral_eq_Suc length_Suc_conv be_nat_4 [simplified numeral_eq_Suc])

text \<open>The admitted addresses in the notation of the address registries: dotted bytes, and groups of 16 bits.\<close>

definition public_address :: "string \<Rightarrow> bool" where
  "public_address ip \<longleftrightarrow>
     (if length ip = 4 then \<not> special_v4 (of_char (ip ! 0)) (of_char (ip ! 1)) (of_char (ip ! 2))
      else if length ip = 16 \<and> take 12 ip = mapped_prefix
        then \<not> special_v4 (of_char (ip ! 12)) (of_char (ip ! 13)) (of_char (ip ! 14))
      else length ip = 16 \<and> \<not> special_v6 (be_nat (take 2 ip)) (be_nat (take 2 (drop 2 ip))))"

lemma v6_groups:
  assumes "length ip = 16"
  shows "be_nat ip div 2 ^ 112 = be_nat (take 2 ip)" "be_nat ip div 2 ^ 96 mod 65536 = be_nat (take 2 (drop 2 ip))"
proof -
  have 1: "be_nat ip = be_nat (take 2 ip) * 2 ^ 112 + be_nat (drop 2 ip)" "be_nat (drop 2 ip) < 2 ^ 112"
    using be_nat_append [of "take 2 ip" "drop 2 ip"] be_nat_bound [of "drop 2 ip"] assms by simp_all
  then show "be_nat ip div 2 ^ 112 = be_nat (take 2 ip)" by simp
  have 2: "be_nat ip = be_nat (take 4 ip) * 2 ^ 96 + be_nat (drop 4 ip)" "be_nat (drop 4 ip) < 2 ^ 96"
    using be_nat_append [of "take 4 ip" "drop 4 ip"] be_nat_bound [of "drop 4 ip"] assms by simp_all
  have 3: "be_nat (take 4 ip) = be_nat (take 2 ip) * 65536 + be_nat (take 2 (drop 2 ip))" "be_nat (take 2 (drop 2 ip)) < 65536"
    using be_nat_append [of "take 2 ip" "take 2 (drop 2 ip)"] be_nat_bound [of "take 2 (drop 2 ip)"] assms
    by (simp_all flip: take_add)
  have "be_nat ip div 2 ^ 96 = be_nat (take 4 ip)" using 2 by simp
  then show "be_nat ip div 2 ^ 96 mod 65536 = be_nat (take 2 (drop 2 ip))" using 3 by simp
qed

lemma deniedIP_iff: "deniedIP ip \<longleftrightarrow> \<not> public_address ip"
proof -
  consider "length ip = 4" | "length ip = 16" "take 12 ip = mapped_prefix" | "length ip = 16" "take 12 ip \<noteq> mapped_prefix"
    | "length ip \<noteq> 4" "length ip \<noteq> 16" by blast
  then show ?thesis
  proof cases
    case 1
    then show ?thesis by (simp add: deniedIP_def AddrFromSlice_def Unmap_def be_nat_4' denied_v4 public_address_def)
  next
    case 2
    have "be_nat ip div 2 ^ 32 = 2 ^ 16 - 1" "be_nat ip mod 2 ^ 32 = be_nat (drop 12 ip)" using mapped_iff [OF 2(1)] 2(2) by blast+
    then have "deniedIP ip \<longleftrightarrow> denied_addr (V4 (be_nat (drop 12 ip)))"
      using 2 by (simp add: deniedIP_def AddrFromSlice_def Unmap_def)
    with 2 show ?thesis by (simp add: be_nat_4' denied_v4 public_address_def)
  next
    case 3
    have "be_nat ip div 2 ^ 32 \<noteq> 2 ^ 16 - 1" using mapped_iff [OF 3(1)] 3(2) by blast
    then have "deniedIP ip \<longleftrightarrow> denied_addr (V6 (be_nat ip))"
      using 3 by (simp add: deniedIP_def AddrFromSlice_def Unmap_def)
    with 3 v6_groups [OF 3(1)] show ?thesis by (simp only: denied_v6 public_address_def) simp
  qed (auto simp: deniedIP_def AddrFromSlice_def public_address_def)
qed

text \<open>C31: The address filter, on any slice of bytes, admits exactly the public unicast addresses: of IPv4, as four bytes
  or as the sixteen bytes of the address mapped into IPv6 (in which the resolver of Go answers), those outside the private, loopback, link-local, shared, documentation, benchmarking, relay, multicast and
  reserved blocks, and of IPv6 those of 2000::/3 outside the protocol, documentation and 6to4 blocks. Slices of any
  other length are refused.\<close>

theorem deniedIP_exact: "deniedIP ip \<longleftrightarrow> \<not> public_address ip"
  by (rule deniedIP_iff)

section \<open>What the relay dials\<close>

lemma dial_candidates_subset: "set (dial_candidates answers ips) \<subseteq> set ips"
  by (induction ips) auto

lemma forward_dials:
  assumes "(ip, n) \<in> set (forward parse render lookup1 lookup2 answers p u)"
  shows "\<exists>ips. lookup2 (Hostname u) = Some ips \<and> ip \<in> set ips \<and> addresses_ok p (Hostname u) ips \<and>
     (\<exists>r. Validate parse render lookup1 p (render u) = Inr r) \<and> port_number (forward_port u) = Some n"
  using assms subsetD [OF dial_candidates_subset, of ip answers]
  by (cases "lookup2 (Hostname u)"; cases "Validate parse render lookup1 p (render u)"; cases "port_number (forward_port u)")
     (simp_all add: forward_def image_iff split: if_splits)

lemma forward_public:
  assumes "(ip, n) \<in> set (forward parse render lookup1 lookup2 answers p u)"
    and "\<not> (development p \<and> Hostname u \<in> allow_hosts p)"
  shows "public_address ip \<and> 1 \<le> n \<and> n \<le> 65535"
proof -
  obtain ips where i: "ip \<in> set ips" "addresses_ok p (Hostname u) ips" "port_number (forward_port u) = Some n"
    using forward_dials [OF assms(1)] by blast
  have "public_address ip" using i(1,2) assms(2) by (auto simp: addresses_ok_def list_all_iff deniedIP_iff)
  then show ?thesis using i(3) by (auto simp: port_number_def split: if_splits)
qed

section \<open>Relay listeners\<close>

text \<open>The open sockets are exactly those of the table, one per key.\<close>

definition relay_inv :: "relay \<Rightarrow> bool" where
  "relay_inv r \<longleftrightarrow>
     (\<forall>i \<in> open_listeners r. \<exists>k t. listeners r k = Some t \<and> rt_listener t = i) \<and>
     (\<forall>k t. listeners r k = Some t \<longrightarrow> rt_listener t \<in> open_listeners r) \<and>
     (\<forall>k k' t t'. listeners r k = Some t \<longrightarrow> listeners r k' = Some t' \<longrightarrow> rt_listener t = rt_listener t' \<longrightarrow> k = k') \<and>
     (\<forall>i \<in> open_listeners r. i < next_listener r)"

lemma close_key_inv [relay_inv]:
  assumes "relay_inv r"
  shows "relay_inv (close_key key r)"
proof (cases "listeners r key")
  case (Some t)
  have "\<exists>k t'. k \<noteq> key \<and> listeners r k = Some t' \<and> rt_listener t' = i" if "i \<in> open_listeners r" "i \<noteq> rt_listener t" for i
    using assms that Some unfolding relay_inv_def by (metis option.inject)
  moreover have "rt_listener t' \<in> open_listeners r - {rt_listener t}" if "listeners r k = Some t'" "k \<noteq> key" for k t'
    using assms that Some unfolding relay_inv_def by blast
  ultimately show ?thesis using assms Some unfolding relay_inv_def close_key_def by auto
qed (use assms in \<open>simp add: close_key_def\<close>)

lemma open_target_cases:
  "snd (open_target parse render listen key raw r) = r \<or>
   (\<exists>t. rt_listener t = next_listener r \<and> snd (open_target parse render listen key raw r) =
      r\<lparr>listeners := (listeners r)(key \<mapsto> t), open_listeners := insert (next_listener r) (open_listeners r),
        next_listener := next_listener r + 1\<rparr>)"
proof (cases "parse raw")
  case (Some u)
  show ?thesis
  proof (cases "listen (next_listener r)")
    case l: (Some address)
    let ?t = "\<lparr>rt_raw = raw, rt_listener = next_listener r, rt_location = render (u\<lparr>url_scheme := ''rtmp'', url_host := address\<rparr>)\<rparr>"
    show ?thesis using Some l by (cases "target_ok u") (auto simp: open_target_def Let_def intro!: exI [of _ ?t])
  qed (simp add: open_target_def Some)
qed (simp add: open_target_def)

lemma add_listener_inv:
  assumes "relay_inv r" "listeners r key = None" "rt_listener t = next_listener r"
  shows "relay_inv (r\<lparr>listeners := (listeners r)(key \<mapsto> t), open_listeners := insert (next_listener r) (open_listeners r),
        next_listener := next_listener r + 1\<rparr>)"
proof -
  have b: "rt_listener t' < next_listener r" "rt_listener t' \<in> open_listeners r" if "listeners r k = Some t'" for k t'
    using assms(1) that unfolding relay_inv_def by blast+
  have o: "i < next_listener r" "\<exists>k t'. k \<noteq> key \<and> listeners r k = Some t' \<and> rt_listener t' = i" if i: "i \<in> open_listeners r" for i
  proof -
    obtain k t' where "listeners r k = Some t'" "rt_listener t' = i" using assms(1) i unfolding relay_inv_def by blast
    moreover from this assms(2) have "k \<noteq> key" by auto
    ultimately show "\<exists>k t'. k \<noteq> key \<and> listeners r k = Some t' \<and> rt_listener t' = i" by blast
    show "i < next_listener r" using assms(1) i unfolding relay_inv_def by blast
  qed
  have inj: "k = k'" if "listeners r k = Some t1" "listeners r k' = Some t2" "rt_listener t1 = rt_listener t2" for k k' t1 t2
    using assms(1) that unfolding relay_inv_def by blast
  show ?thesis
    unfolding relay_inv_def using assms(3) b o inj by (auto simp: less_Suc_eq) (metis less_irrefl)+
qed

lemma open_target_inv [relay_inv]:
  "relay_inv r \<Longrightarrow> listeners r key = None \<Longrightarrow> relay_inv (snd (open_target parse render listen key raw r))"
  using open_target_cases [of parse render listen key raw r] add_listener_inv by metis

lemma close_key_none: "listeners (close_key key r) key = None"
  by (simp add: close_key_def split: option.split)

lemma Location_inv [relay_inv]: "relay_inv r \<Longrightarrow> relay_inv (snd (Location parse render listen key raw r))"
  by (auto simp: Location_def close_key_none intro: relay_inv split: option.split)

lemma listeners_close_key: "listeners (close_key key r) = (listeners r)(key := None)"
  by (auto simp: close_key_def split: option.split)

lemma Retain_inv [relay_inv]: "relay_inv r \<Longrightarrow> relay_inv (Retain order keys r)"
  unfolding Retain_def by (induction order arbitrary: r) (auto intro: relay_inv)

lemma listeners_Retain: "listeners (Retain order keys r) k = (if k \<in> set order \<and> k \<notin> keys then None else listeners r k)"
  unfolding Retain_def by (induction order arbitrary: r) (auto simp: listeners_close_key)

section \<open>Histories of the relay\<close>

text \<open>
  A worker registers a destination, with what the operating system answered to the listen that it may need, or
  retains the destinations of a snapshot. A connection to a listener is forwarded to the target that it was opened for.
\<close>

datatype relay_op = Register string string "string option" | Keep "string list" "string set"

definition relay_op_step :: "(string \<Rightarrow> url option) \<Rightarrow> (url \<Rightarrow> string) \<Rightarrow> relay_op \<Rightarrow> relay \<Rightarrow> relay" where
  "relay_op_step parse render c r =
     (case c of Register key raw bound \<Rightarrow> snd (Location parse render (\<lambda>_. bound) key raw r) | Keep order keys \<Rightarrow> Retain order keys r)"

definition no_listeners :: relay where
  "no_listeners = \<lparr>listeners = Map.empty, open_listeners = {}, next_listener = 0\<rparr>"

definition relay_run :: "(string \<Rightarrow> url option) \<Rightarrow> (url \<Rightarrow> string) \<Rightarrow> relay_op list \<Rightarrow> relay" where
  "relay_run parse render cs = fold (relay_op_step parse render) cs no_listeners"

definition relay_accepts ::
  "(string \<Rightarrow> url option) \<Rightarrow> (url \<Rightarrow> string) \<Rightarrow> (string \<Rightarrow> answer) \<Rightarrow> (string \<Rightarrow> answer) \<Rightarrow> (string \<Rightarrow> bool) \<Rightarrow> rtmp_policy \<Rightarrow> relay \<Rightarrow> string \<Rightarrow>
   (string \<times> nat) list" where
  "relay_accepts parse render lookup1 lookup2 answers p r key =
     (case listeners r key of
        None \<Rightarrow> []
      | Some t \<Rightarrow> (case parse (rt_raw t) of None \<Rightarrow> [] | Some u \<Rightarrow> forward parse render lookup1 lookup2 answers p u))"

text \<open>The target that was registered last for a key.\<close>

fun last_target :: "string \<Rightarrow> relay_op list \<Rightarrow> string option" where
  "last_target key [] = None"
| "last_target key (c # cs) =
     (case last_target key cs of
        Some raw \<Rightarrow> Some raw
      | None \<Rightarrow> (case c of Register k raw bound \<Rightarrow> if k = key then Some raw else None | Keep _ _ \<Rightarrow> None))"

lemma last_target_snoc:
  "last_target key (cs @ [c]) =
     (case c of Register k raw bound \<Rightarrow> if k = key then Some raw else last_target key cs | Keep _ _ \<Rightarrow> last_target key cs)"
  by (induction cs) (auto split: relay_op.splits option.splits)

text \<open>What the table records of a listener: the target it was opened for, and the address it is bound to.\<close>

definition recorded :: "(string \<Rightarrow> url option) \<Rightarrow> (url \<Rightarrow> string) \<Rightarrow> relay_op list \<Rightarrow> string \<Rightarrow> relay_target \<Rightarrow> bool" where
  "recorded parse render cs key t \<longleftrightarrow>
     last_target key cs = Some (rt_raw t) \<and>
     (\<exists>u address. parse (rt_raw t) = Some u \<and> Register key (rt_raw t) (Some address) \<in> set cs \<and>
        rt_location t = render (u\<lparr>url_scheme := ''rtmp'', url_host := address\<rparr>))"

lemma open_target_listener:
  assumes "listeners (snd (open_target parse render listen key raw r)) k = Some t"
  shows "listeners r k = Some t \<or> k = key \<and> rt_raw t = raw \<and>
    (\<exists>u address. parse raw = Some u \<and> listen (next_listener r) = Some address \<and>
       rt_location t = render (u\<lparr>url_scheme := ''rtmp'', url_host := address\<rparr>))"
  using assms by (auto simp: open_target_def Let_def split: option.splits if_splits)

lemma Location_listener:
  assumes "listeners (snd (Location parse render (\<lambda>_. bound) key raw r)) k = Some t"
  shows "(if k = key then rt_raw t = raw \<and> (listeners r k = Some t \<or>
      (\<exists>u address. parse raw = Some u \<and> bound = Some address \<and> rt_location t = render (u\<lparr>url_scheme := ''rtmp'', url_host := address\<rparr>)))
     else listeners r k = Some t)"
proof (cases "\<exists>t'. listeners r key = Some t' \<and> rt_raw t' = raw")
  case True
  then show ?thesis using assms by (auto simp: Location_def)
next
  case False
  then have "Location parse render (\<lambda>_. bound) key raw r = open_target parse render (\<lambda>_. bound) key raw (close_key key r)"
    by (auto simp: Location_def close_key_def split: option.split)
  from open_target_listener [OF assms [unfolded this]] show ?thesis
    by (auto simp: listeners_close_key split: if_splits)
qed

lemma relay_run_recorded: "listeners (relay_run parse render cs) key = Some t \<Longrightarrow> recorded parse render cs key t"
proof (induction cs arbitrary: key t rule: rev_induct)
  case Nil
  then show ?case by (simp add: relay_run_def no_listeners_def)
next
  case (snoc c cs)
  have run: "relay_run parse render (cs @ [c]) = relay_op_step parse render c (relay_run parse render cs)"
    by (simp add: relay_run_def)
  show ?case
  proof (cases c)
    case (Register k raw bound)
    have L: "listeners (snd (Location parse render (\<lambda>_. bound) k raw (relay_run parse render cs))) key = Some t"
      using snoc.prems run by (simp add: relay_op_step_def Register)
    show ?thesis
    proof (cases "listeners (relay_run parse render cs) key = Some t")
      case True
      then show ?thesis
        using snoc.IH [OF True] Location_listener [OF L] Register
        by (auto simp: recorded_def last_target_snoc split: if_splits)
    next
      case False
      then show ?thesis
        using Location_listener [OF L] Register
        by (auto simp: recorded_def last_target_snoc split: if_splits)
    qed
  next
    case (Keep order keys)
    then have "listeners (relay_run parse render cs) key = Some t"
      using snoc.prems run by (simp add: relay_op_step_def listeners_Retain split: if_splits)
    from snoc.IH [OF this] show ?thesis using Keep by (auto simp: recorded_def last_target_snoc)
  qed
qed

text \<open>C30: In every history of a relay that registers and retains destinations, whatever the resolver answers to the
  validation and to the lookup after it: when a connection to the listener of a key makes the relay dial an address,
  a destination was registered last for this key, \<open>Location\<close> hands out the address of this listener for it and opens
  nothing, the policy accepts that destination, and the address is one that the resolver answered for its host name,
  with its port between 1 and 65535. Unless the deployment is a development one that names the host, the address is
  public.\<close>

theorem relay_dials_public_addresses:
  assumes "r = relay_run parse render cs" and "(ip, n) \<in> set (relay_accepts parse render lookup1 lookup2 answers p r key)"
  shows "\<exists>raw u address. last_target key cs = Some raw \<and> parse raw = Some u \<and> Register key raw (Some address) \<in> set cs \<and>
     (\<forall>listen. Location parse render listen key raw r = (Some (render (u\<lparr>url_scheme := ''rtmp'', url_host := address\<rparr>)), r)) \<and>
     (\<exists>e. Validate parse render lookup1 p (render u) = Inr e) \<and>
     (\<exists>ips. lookup2 (Hostname u) = Some ips \<and> ip \<in> set ips) \<and> port_number (forward_port u) = Some n \<and>
     (\<not> (development p \<and> Hostname u \<in> allow_hosts p) \<longrightarrow> public_address ip \<and> 1 \<le> n \<and> n \<le> 65535)"
proof -
  obtain t u where t: "listeners r key = Some t" "parse (rt_raw t) = Some u"
      and f: "(ip, n) \<in> set (forward parse render lookup1 lookup2 answers p u)"
    using assms(2) by (cases "listeners r key"; cases "parse (rt_raw (the (listeners r key)))") (auto simp: relay_accepts_def)
  from relay_run_recorded t(1) assms(1) have "recorded parse render cs key t" by blast
  then obtain address where "last_target key cs = Some (rt_raw t)" "Register key (rt_raw t) (Some address) \<in> set cs"
      "rt_location t = render (u\<lparr>url_scheme := ''rtmp'', url_host := address\<rparr>)"
    using t(2) by (auto simp: recorded_def)
  with t forward_dials [OF f] forward_public [OF f] show ?thesis
    by (intro exI [of _ "rt_raw t"] exI [of _ u] exI [of _ address]) (auto simp: Location_def)
qed

definition demo_endpoint :: url where
  "demo_endpoint = \<lparr>url_scheme = ''rtmp'', url_host = ''live.example'', url_user = False, url_query = [], url_fragment = [],
     url_path = ''/app'', url_opaque = []\<rparr>"

definition demo_rtmp_policy :: rtmp_policy where
  "demo_rtmp_policy = \<lparr>allow_hosts = {}, development = False\<rparr>"

definition demo_lookup :: "string \<Rightarrow> answer" where
  "demo_lookup h = Some [[CHR 0x08, CHR 0x08, CHR 0x08, CHR 0x08]]"

lemma demo_lower: "lower_url demo_endpoint = demo_endpoint"
  by (simp add: lower_url_def demo_endpoint_def ToLower.simps ascii_lower_def)

lemma demo_host: "Hostname demo_endpoint = ''live.example''" "Port demo_endpoint = []"
  by (simp_all add: Hostname_def Port_def splitHostPort_def split_last_colon_def strip_brackets_def demo_endpoint_def)

lemma demo_forward:
  assumes "parse (render demo_endpoint) = Some demo_endpoint"
  shows "forward parse render demo_lookup demo_lookup (\<lambda>_. True) demo_rtmp_policy demo_endpoint =
   [([CHR 0x08, CHR 0x08, CHR 0x08, CHR 0x08], 1935)]"
proof -
  have "\<not> deniedIP [CHR 0x08, CHR 0x08, CHR 0x08, CHR 0x08]" by (simp add: deniedIP_v4 special_v4_def)
  then have a: "addresses_ok demo_rtmp_policy ''live.example'' [[CHR 0x08, CHR 0x08, CHR 0x08, CHR 0x08]]" by (simp add: addresses_ok_def)
  have e: "endpoint_ok demo_endpoint" by (simp add: endpoint_ok_def demo_host) (simp add: demo_endpoint_def)
  have p: "forward_port demo_endpoint = ''1935''" by (simp add: forward_port_def demo_host) (simp add: demo_endpoint_def)
  have n: "port_number ''1935'' = Some 1935" by (simp add: port_number_def is_digit_def digits_val_def digit_val_def)
  show ?thesis using a e assms
    by (simp add: forward_def Validate_def Let_def demo_lower demo_host demo_lookup_def p n)
qed

definition demo_relay_ops :: "relay_op list" where
  "demo_relay_ops =
     [Register ''out-1'' ''rtmp://old.example/app'' (Some ''127.0.0.1:4000''),
      Register ''out-1'' ''rtmp://live.example/app'' (Some ''127.0.0.1:4001''), Keep [''out-1''] {''out-1''}]"

definition demo_parse :: "string \<Rightarrow> url option" where
  "demo_parse raw = (if raw = ''rtmp://live.example/app'' then Some demo_endpoint
     else if raw = ''rtmp://old.example/app'' then Some (demo_endpoint\<lparr>url_host := ''old.example''\<rparr>) else None)"

definition demo_render :: "url \<Rightarrow> string" where
  "demo_render u = url_scheme u @ ''://'' @ url_host u @ url_path u"

theorem relay_dials_public_addresses_witness:
  "Location demo_parse demo_render (\<lambda>_. None) ''out-1'' ''rtmp://live.example/app'' (relay_run demo_parse demo_render demo_relay_ops) =
     (Some ''rtmp://127.0.0.1:4001/app'', relay_run demo_parse demo_render demo_relay_ops)
   \<and> public_address [CHR 0x08, CHR 0x08, CHR 0x08, CHR 0x08]"
proof -
  let ?r = "relay_run demo_parse demo_render demo_relay_ops"
  have t: "target_ok demo_endpoint" "target_ok (demo_endpoint\<lparr>url_host := ''old.example''\<rparr>)"
    by (simp_all add: target_ok_def demo_host Hostname_def splitHostPort_def split_last_colon_def strip_brackets_def)
      (simp_all add: demo_endpoint_def)
  have l: "listeners ?r ''out-1'' = Some \<lparr>rt_raw = ''rtmp://live.example/app'', rt_listener = 1, rt_location = ''rtmp://127.0.0.1:4001/app''\<rparr>"
    using t by (simp add: relay_run_def demo_relay_ops_def relay_op_step_def Location_def no_listeners_def open_target_def
        demo_parse_def close_key_def Retain_def Let_def) (simp add: demo_render_def demo_endpoint_def)
  have p: "demo_parse ''rtmp://live.example/app'' = Some demo_endpoint" by (simp add: demo_parse_def)
  have "relay_accepts demo_parse demo_render demo_lookup demo_lookup (\<lambda>_. True) demo_rtmp_policy ?r ''out-1'' =
      [([CHR 0x08, CHR 0x08, CHR 0x08, CHR 0x08], 1935)]"
    using demo_forward [of demo_parse demo_render] by (simp add: relay_accepts_def l p demo_render_def demo_endpoint_def)
  then have "([CHR 0x08, CHR 0x08, CHR 0x08, CHR 0x08], 1935) \<in>
      set (relay_accepts demo_parse demo_render demo_lookup demo_lookup (\<lambda>_. True) demo_rtmp_policy ?r ''out-1'')" by simp
  from relay_dials_public_addresses [OF refl this] show ?thesis
    by (auto simp: Location_def l demo_rtmp_policy_def)
qed

end
