(* ===== verification/Media_Config.thy ===== *)
theory Media_Config
  imports Go_Url
begin

text \<open>
  The configuration of a worker, \<^verbatim>\<open>backend/internal/config/media.go\<close> and \<^verbatim>\<open>config.go\<close>: the media profile,
  loading from the environment with its defaults and errors, the checks on the loaded configuration, and the
  location that a destination streams to. The environment is a map, the files of the worker a partial function;
  \<^verbatim>\<open>encoding/json\<close>, \<^verbatim>\<open>net/url\<close> parsing and \<^verbatim>\<open>time.ParseDuration\<close> are arguments (\<open>config_env\<close>).
\<close>

section \<open>Media profiles\<close>

record media_profile =
  mp_width :: int
  mp_height :: int
  mp_fps_num :: int
  mp_fps_den :: int
  mp_video_kbps :: int
  mp_audio_kbps :: int

definition DefaultMediaProfile :: media_profile where
  "DefaultMediaProfile = \<lparr>mp_width = 1280, mp_height = 720, mp_fps_num = 30, mp_fps_den = 1, mp_video_kbps = 3000, mp_audio_kbps = 160\<rparr>"

text \<open>The comparisons are evaluated from left to right, so the products are only formed of bounded factors.\<close>

definition MediaProfile_Validate :: "media_profile \<Rightarrow> bool" where
  "MediaProfile_Validate p \<longleftrightarrow>
     \<not> (mp_width p < 160 \<or> mp_height p < 90 \<or> mp_width p > 1920 \<or> mp_height p > 1920 \<or> i64 (mp_width p * mp_height p) > 1920 * 1080 \<or>
        mp_width p mod 2 \<noteq> 0 \<or> mp_height p mod 2 \<noteq> 0 \<or>
        mp_fps_num p < 1 \<or> mp_fps_num p > 60000 \<or> mp_fps_den p < 1 \<or> mp_fps_den p > 1001 \<or>
        mp_fps_num p < i64 (15 * mp_fps_den p) \<or> mp_fps_num p > i64 (60 * mp_fps_den p) \<or>
        mp_video_kbps p < 100 \<or> mp_video_kbps p > 8000 \<or> mp_audio_kbps p < 64 \<or> mp_audio_kbps p > 320)"

section \<open>Configuration\<close>

record config_destination =
  cd_id :: string
  cd_generation :: nat
  cd_url :: string
  cd_secret :: string

record destination_document =
  doc_id :: string
  doc_generation :: nat
  doc_url :: string
  doc_secret_file :: string

record config =
  cf_media :: media_profile
  cf_fallback_image :: string
  cf_fallback_video :: string
  cf_slate_on_loss :: bool
  cf_slate_forced :: bool
  cf_session :: string
  cf_source_url :: string
  cf_source_auth_token :: bool
  cf_source_token :: string
  cf_queue_max :: nat
  cf_reconnect_min :: duration
  cf_reconnect_max :: duration
  cf_reconnect_attempts :: int
  cf_stable :: duration
  cf_shutdown :: duration
  cf_metrics :: string
  cf_destinations :: "config_destination list"

record config_env =
  ce_lookup :: "string \<rightharpoonup> string"
  ce_read_file :: "string \<rightharpoonup> string"
  ce_json_media :: "media_profile \<Rightarrow> string \<Rightarrow> media_profile option"
  ce_json_documents :: "string \<Rightarrow> destination_document list option"
  ce_url_parse :: "string \<Rightarrow> url option"
  ce_parse_duration :: "string \<Rightarrow> duration option"

datatype config_error =
    BadMediaProfile | NotBoolean string | NotNumber string | NotDuration string | MissingVariable string | UnreadableFile string
  | BadSnapshot | TooManyOutputs | BadDestination string | BadUrl string | EmptySecret string
  | BadSession | EmptySourceToken | BadOutputCount | BadQueue | BadReconnect | BadAttempts | BadDurations

definition value_of :: "config_env \<Rightarrow> string \<Rightarrow> string" where
  "value_of e key = TrimSpace (case ce_lookup e key of None \<Rightarrow> [] | Some v \<Rightarrow> v)"

definition valueOr :: "config_env \<Rightarrow> string \<Rightarrow> string \<Rightarrow> string" where
  "valueOr e key fallback = (let v = value_of e key in if v \<noteq> [] then v else fallback)"

text \<open>\<^verbatim>\<open>strconv.ParseBool\<close> and \<^verbatim>\<open>strconv.ParseUint\<close> in base 10.\<close>

definition ParseBool :: "string \<Rightarrow> bool option" where
  "ParseBool s =
     (if s \<in> {''1'', ''t'', ''T'', ''true'', ''TRUE'', ''True''} then Some True
      else if s \<in> {''0'', ''f'', ''F'', ''false'', ''FALSE'', ''False''} then Some False else None)"

definition ParseUint :: "string \<Rightarrow> nat option" where
  "ParseUint s = (if s \<noteq> [] \<and> list_all is_digit s \<and> digits_val s < 2 ^ 64 then Some (digits_val s) else None)"

definition parseBool :: "config_env \<Rightarrow> string \<Rightarrow> bool \<Rightarrow> config_error + bool" where
  "parseBool e key fallback =
     (case ce_lookup e key of
        None \<Rightarrow> Inr fallback
      | Some v \<Rightarrow> if TrimSpace v = [] then Inr fallback
                  else (case ParseBool (TrimSpace v) of None \<Rightarrow> Inl (NotBoolean key) | Some b \<Rightarrow> Inr b))"

definition parseDuration :: "config_env \<Rightarrow> string \<Rightarrow> duration \<Rightarrow> config_error + duration" where
  "parseDuration e key fallback =
     (let v = value_of e key in
      if v = [] then Inr fallback else (case ce_parse_duration e v of None \<Rightarrow> Inl (NotDuration key) | Some d \<Rightarrow> Inr d))"

definition parseUint :: "config_env \<Rightarrow> string \<Rightarrow> nat \<Rightarrow> config_error + nat" where
  "parseUint e key fallback =
     (let v = value_of e key in
      if v = [] then Inr fallback else (case ParseUint v of None \<Rightarrow> Inl (NotNumber key) | Some n \<Rightarrow> Inr n))"

definition validateURL :: "config_env \<Rightarrow> string \<Rightarrow> string \<Rightarrow> bool" where
  "validateURL e raw scheme \<longleftrightarrow>
     (case ce_url_parse e raw of
        None \<Rightarrow> False
      | Some u \<Rightarrow> \<not> ((url_scheme u \<noteq> scheme \<and> \<not> (scheme = ''rtmp'' \<and> url_scheme u = ''rtmps'')) \<or> url_host u = [] \<or> url_user u \<or>
                     url_fragment u \<noteq> [] \<or> (scheme = ''rtmp'' \<and> url_query u \<noteq> [])))"

definition is_hex_digit :: "char \<Rightarrow> bool" where
  "is_hex_digit c \<longleftrightarrow> c \<in> set ''0123456789abcdefABCDEF''"

definition isUUID :: "string \<Rightarrow> bool" where
  "isUUID v \<longleftrightarrow>
     length v = 36 \<and> list_all (\<lambda>i. if i \<in> {8, 13, 18, 23} then v ! i = CHR ''-'' else is_hex_digit (v ! i)) [0..<36]"

definition secretFile :: "config_env \<Rightarrow> string \<Rightarrow> config_error + string" where
  "secretFile e key =
     (let path = value_of e key in
      if path = [] then Inl (MissingVariable key)
      else (case ce_read_file e path of None \<Rightarrow> Inl (UnreadableFile key) | Some b \<Rightarrow> Inr (TrimSpace b)))"

fun resolve_loop ::
  "config_env \<Rightarrow> string list \<Rightarrow> config_destination list \<Rightarrow> destination_document list \<Rightarrow> config_error + config_destination list" where
  "resolve_loop e seen result [] = Inr (rev result)"
| "resolve_loop e seen result (doc # docs) =
     (if doc_id doc = [] \<or> doc_generation doc = 0 \<or> doc_id doc \<in> set seen then Inl (BadDestination (doc_id doc))
      else if \<not> validateURL e (doc_url doc) ''rtmp'' then Inl (BadUrl ''destination URL'')
      else (case ce_read_file e (doc_secret_file doc) of
          None \<Rightarrow> Inl (UnreadableFile (doc_id doc))
        | Some b \<Rightarrow>
            if TrimSpace b = [] then Inl (EmptySecret (doc_id doc))
            else resolve_loop e (doc_id doc # seen)
                   (\<lparr>cd_id = doc_id doc, cd_generation = doc_generation doc, cd_url = doc_url doc, cd_secret = TrimSpace b\<rparr> # result) docs))"

definition ResolveDestinationDocuments :: "config_env \<Rightarrow> destination_document list \<Rightarrow> config_error + config_destination list" where
  "ResolveDestinationDocuments e docs = (if length docs > 8 then Inl TooManyOutputs else resolve_loop e [] [] docs)"

definition LoadDestinationSnapshot :: "config_env \<Rightarrow> string \<Rightarrow> config_error + config_destination list" where
  "LoadDestinationSnapshot e path =
     (case ce_read_file e path of
        None \<Rightarrow> Inl (UnreadableFile path)
      | Some b \<Rightarrow> (case ce_json_documents e b of None \<Rightarrow> Inl BadSnapshot | Some docs \<Rightarrow> ResolveDestinationDocuments e docs))"

fun destination_errors :: "config_env \<Rightarrow> string list \<Rightarrow> config_destination list \<Rightarrow> config_error list" where
  "destination_errors e seen [] = []"
| "destination_errors e seen (d # ds) =
     (if cd_id d = [] \<or> cd_generation d = 0 \<or> cd_id d \<in> set seen then [BadDestination (cd_id d)] else []) @
     (if \<not> validateURL e (cd_url d) ''rtmp'' then [BadUrl ''destination URL''] else []) @
     (if cd_secret d = [] then [EmptySecret (cd_id d)] else []) @
     destination_errors e (cd_id d # seen) ds"

text \<open>The joined errors, none for a valid configuration.\<close>

definition Config_Validate :: "config_env \<Rightarrow> config \<Rightarrow> config_error list" where
  "Config_Validate e c =
     (if \<not> MediaProfile_Validate (cf_media c) then [BadMediaProfile] else []) @
     (if \<not> isUUID (cf_session c) then [BadSession] else []) @
     (if \<not> validateURL e (cf_source_url c) ''srt'' then [BadUrl ''WORKER_SOURCE_URL''] else []) @
     destination_errors e [] (cf_destinations c) @
     (if cf_source_token c = [] then [EmptySourceToken] else []) @
     (if length (cf_destinations c) < 1 \<or> length (cf_destinations c) > 8 then [BadOutputCount] else []) @
     (if cf_queue_max c = 0 then [BadQueue] else []) @
     (if cf_reconnect_min c \<le> 0 \<or> cf_reconnect_max c < cf_reconnect_min c then [BadReconnect] else []) @
     (if cf_reconnect_attempts c \<le> 0 then [BadAttempts] else []) @
     (if cf_stable c \<le> 0 \<or> cf_shutdown c \<le> 0 then [BadDurations] else [])"

definition bind_error :: "config_error + 'a \<Rightarrow> ('a \<Rightarrow> config_error list + 'b) \<Rightarrow> config_error list + 'b" where
  "bind_error x f = (case x of Inl e \<Rightarrow> Inl [e] | Inr v \<Rightarrow> f v)"

definition load_media :: "config_env \<Rightarrow> config_error + media_profile" where
  "load_media e =
     (let raw = value_of e ''WORKER_MEDIA_PROFILE'' in
      if raw = [] then Inr DefaultMediaProfile
      else (case ce_json_media e DefaultMediaProfile raw of None \<Rightarrow> Inl BadMediaProfile | Some m \<Rightarrow> Inr m))"

definition load_destinations :: "config_env \<Rightarrow> config_error + config_destination list" where
  "load_destinations e =
     (let f = value_of e ''WORKER_DESTINATIONS_FILE'' in
      if f = [] then Inl (MissingVariable ''WORKER_DESTINATIONS_FILE'') else LoadDestinationSnapshot e f)"

definition Load :: "config_env \<Rightarrow> config_error list + config" where
  "Load e =
     bind_error (load_media e) (\<lambda>media.
     bind_error (parseBool e ''WORKER_SLATE_ON_SOURCE_LOSS'' True) (\<lambda>on_loss.
     bind_error (parseBool e ''WORKER_SLATE_FORCED'' False) (\<lambda>forced.
     bind_error (secretFile e ''WORKER_SOURCE_TOKEN_FILE'') (\<lambda>token.
     bind_error (load_destinations e) (\<lambda>dests.
     bind_error (parseUint e ''WORKER_QUEUE_MAX_BYTES'' (8 * 1024 * 1024)) (\<lambda>queue.
     bind_error (parseDuration e ''WORKER_RECONNECT_MIN'' second) (\<lambda>rmin.
     bind_error (parseDuration e ''WORKER_RECONNECT_MAX'' (30 * second)) (\<lambda>rmax.
     bind_error (parseUint e ''WORKER_RECONNECT_MAX_ATTEMPTS'' 10) (\<lambda>attempts.
     bind_error (parseDuration e ''WORKER_STABLE_INTERVAL'' (30 * second)) (\<lambda>stable.
     bind_error (parseDuration e ''WORKER_SHUTDOWN_TIMEOUT'' (10 * second)) (\<lambda>shutdown.
       let c = \<lparr>cf_media = media, cf_fallback_image = value_of e ''WORKER_FALLBACK_IMAGE'',
                 cf_fallback_video = value_of e ''WORKER_FALLBACK_VIDEO'', cf_slate_on_loss = on_loss, cf_slate_forced = forced,
                 cf_session = value_of e ''WORKER_SESSION_ID'', cf_source_url = value_of e ''WORKER_SOURCE_URL'',
                 cf_source_auth_token = (value_of e ''WORKER_SOURCE_AUTH'' = ''token''), cf_source_token = token,
                 cf_queue_max = queue, cf_reconnect_min = rmin, cf_reconnect_max = rmax,
                 cf_reconnect_attempts = i64 (int attempts), cf_stable = stable, cf_shutdown = shutdown,
                 cf_metrics = valueOr e ''WORKER_METRICS_ADDR'' '':9090'', cf_destinations = dests\<rparr>
       in if Config_Validate e c = [] then Inr c else Inl (Config_Validate e c))))))))))))"

definition SecretValues :: "config \<Rightarrow> string list" where
  "SecretValues c = cf_source_token c # map cd_secret (cf_destinations c)"

section \<open>Locations\<close>

text \<open>\<^verbatim>\<open>url.PathEscape\<close>: the unreserved characters and six others stand for themselves.\<close>

definition path_safe :: "char \<Rightarrow> bool" where
  "path_safe c \<longleftrightarrow>
     c \<in> set ''abcdefghijklmnopqrstuvwxyzABCDEFGHIJKLMNOPQRSTUVWXYZ0123456789-_.~$&+=:@''"

definition hex_upper :: "nat \<Rightarrow> char" where
  "hex_upper n = ''0123456789ABCDEF'' ! n"

definition PathEscape :: "string \<Rightarrow> string" where
  "PathEscape s =
     concat (map (\<lambda>c. if path_safe c then [c] else [CHR ''%'', hex_upper (of_char c div 16), hex_upper (of_char c mod 16)]) s)"

definition Destination_Location :: "config_destination \<Rightarrow> string" where
  "Destination_Location d = TrimRight_slash (cd_url d) @ ''/'' @ PathEscape (cd_secret d)"

section \<open>What a loaded configuration satisfies\<close>

lemma MediaProfile_Validate_iff:
  "MediaProfile_Validate p \<longleftrightarrow>
     160 \<le> mp_width p \<and> mp_width p \<le> 1920 \<and> 90 \<le> mp_height p \<and> mp_height p \<le> 1920 \<and> mp_width p * mp_height p \<le> 2073600 \<and>
     even (mp_width p) \<and> even (mp_height p) \<and> 1 \<le> mp_fps_num p \<and> mp_fps_num p \<le> 60000 \<and> 1 \<le> mp_fps_den p \<and> mp_fps_den p \<le> 1001 \<and>
     15 * mp_fps_den p \<le> mp_fps_num p \<and> mp_fps_num p \<le> 60 * mp_fps_den p \<and>
     100 \<le> mp_video_kbps p \<and> mp_video_kbps p \<le> 8000 \<and> 64 \<le> mp_audio_kbps p \<and> mp_audio_kbps p \<le> 320"
proof (cases "160 \<le> mp_width p \<and> mp_width p \<le> 1920 \<and> 90 \<le> mp_height p \<and> mp_height p \<le> 1920 \<and> 1 \<le> mp_fps_den p \<and> mp_fps_den p \<le> 1001")
  case True
  have "mp_width p * mp_height p \<le> 1920 * 1920" using True by (intro mult_mono) auto
  moreover have "0 \<le> mp_width p * mp_height p" using True by simp
  ultimately have "i64 (mp_width p * mp_height p) = mp_width p * mp_height p" by (intro i64_id) (simp add: in_i64_def)
  moreover have "i64 (15 * mp_fps_den p) = 15 * mp_fps_den p" "i64 (60 * mp_fps_den p) = 60 * mp_fps_den p"
    using True by (auto intro!: i64_id simp: in_i64_def)
  ultimately show ?thesis unfolding MediaProfile_Validate_def de_Morgan_disj not_less not_not even_iff_mod_2_eq_zero by simp blast
next
  case False
  then show ?thesis unfolding MediaProfile_Validate_def de_Morgan_disj not_less by blast
qed

lemma Default_valid: "MediaProfile_Validate DefaultMediaProfile"
  by (simp add: MediaProfile_Validate_iff DefaultMediaProfile_def)

lemma destination_errors_none:
  "destination_errors e seen ds = [] \<longleftrightarrow>
     distinct (map cd_id ds) \<and> set (map cd_id ds) \<inter> set seen = {} \<and>
     (\<forall>d \<in> set ds. cd_id d \<noteq> [] \<and> cd_generation d \<noteq> 0 \<and> validateURL e (cd_url d) ''rtmp'' \<and> cd_secret d \<noteq> [])"
  by (induction ds arbitrary: seen) auto

lemma bind_error_Inr: "bind_error x f = Inr c \<longleftrightarrow> (\<exists>v. x = Inr v \<and> f v = Inr c)"
  by (simp add: bind_error_def split: sum.split)

lemma Load_valid:
  assumes "Load e = Inr c"
  shows "Config_Validate e c = [] \<and> load_destinations e = Inr (cf_destinations c) \<and> load_media e = Inr (cf_media c) \<and>
    secretFile e ''WORKER_SOURCE_TOKEN_FILE'' = Inr (cf_source_token c)"
  using assms unfolding Load_def bind_error_Inr Let_def by (elim exE conjE) (simp split: if_splits, clarsimp)

definition valid_config :: "config_env \<Rightarrow> config \<Rightarrow> bool" where
  "valid_config e c \<longleftrightarrow>
     MediaProfile_Validate (cf_media c) \<and> isUUID (cf_session c) \<and> validateURL e (cf_source_url c) ''srt'' \<and> cf_source_token c \<noteq> [] \<and>
     1 \<le> length (cf_destinations c) \<and> length (cf_destinations c) \<le> 8 \<and> distinct (map cd_id (cf_destinations c)) \<and>
     (\<forall>d \<in> set (cf_destinations c). cd_id d \<noteq> [] \<and> cd_generation d \<noteq> 0 \<and> validateURL e (cd_url d) ''rtmp'' \<and> cd_secret d \<noteq> []) \<and>
     0 < cf_queue_max c \<and> 0 < cf_reconnect_min c \<and> cf_reconnect_min c \<le> cf_reconnect_max c \<and> 0 < cf_reconnect_attempts c \<and>
     0 < cf_stable c \<and> 0 < cf_shutdown c"

lemma Config_Validate_iff: "Config_Validate e c = [] \<longleftrightarrow> valid_config e c"
  unfolding Config_Validate_def valid_config_def by (auto simp: destination_errors_none not_less Suc_le_eq)

section \<open>A stream key stays one path segment\<close>

lemma path_safe_no_sep: "path_safe c \<Longrightarrow> c \<notin> {CHR ''/'', CHR ''?'', CHR ''#'', CHR ''%''}"
  by (auto simp: path_safe_def)

lemma hex_upper_safe: "n < 16 \<Longrightarrow> path_safe (hex_upper n)"
proof -
  assume "n < 16"
  then have "hex_upper n \<in> set ''0123456789ABCDEF''" unfolding hex_upper_def by (intro nth_mem) simp
  moreover have "set ''0123456789ABCDEF'' \<subseteq> set ''abcdefghijklmnopqrstuvwxyzABCDEFGHIJKLMNOPQRSTUVWXYZ0123456789-_.~$&+=:@''"
    by code_simp
  ultimately show ?thesis unfolding path_safe_def by blast
qed

lemma hex_upper_inj: "m < 16 \<Longrightarrow> n < 16 \<Longrightarrow> hex_upper m = hex_upper n \<Longrightarrow> m = n"
proof -
  have "distinct ''0123456789ABCDEF''" by simp
  then show "m < 16 \<Longrightarrow> n < 16 \<Longrightarrow> hex_upper m = hex_upper n \<Longrightarrow> m = n"
    by (simp add: hex_upper_def nth_eq_iff_index_eq)
qed

lemma PathEscape_Nil [simp]: "PathEscape [] = []"
  and PathEscape_Cons: "PathEscape (c # s) =
    (if path_safe c then c # PathEscape s
     else CHR ''%'' # hex_upper (of_char c div 16) # hex_upper (of_char c mod 16) # PathEscape s)"
  by (simp_all add: PathEscape_def)

lemma nibbles: "(of_char c :: nat) div 16 < 16" "(of_char c :: nat) mod 16 < 16"
  by (rule less_mult_imp_div_less) (use nat_of_char_less_256 [of c] in \<open>simp_all del: nat_of_char_less_256\<close>)

lemma PathEscape_chars: "c \<in> set (PathEscape s) \<Longrightarrow> path_safe c \<or> c = CHR ''%''"
proof (induction s)
  case (Cons x s)
  show ?case using Cons hex_upper_safe nibbles [of x] by (auto simp: PathEscape_Cons split: if_splits)
qed simp

lemma escape_byte_inj:
  assumes "hex_upper (of_char c div 16) = hex_upper (of_char d div 16)" "hex_upper (of_char c mod 16) = hex_upper (of_char d mod 16)"
  shows "c = d"
proof -
  have "(of_char c :: nat) div 16 = of_char d div 16" "(of_char c :: nat) mod 16 = of_char d mod 16"
    using assms hex_upper_inj nibbles by metis+
  then have "(of_char c :: nat) = of_char d" by (metis div_mult_mod_eq)
  then show ?thesis by simp
qed

lemma PathEscape_inj: "PathEscape s = PathEscape t \<Longrightarrow> s = t"
proof (induction s arbitrary: t)
  case Nil
  then show ?case by (cases t) (auto simp: PathEscape_Cons split: if_splits)
next
  case (Cons c s)
  then obtain d t' where t: "t = d # t'" by (cases t) (auto simp: PathEscape_Cons split: if_splits)
  have "\<not> path_safe (CHR ''%'')" by (simp add: path_safe_def)
  then show ?case using Cons escape_byte_inj [of c d] unfolding t by (auto simp: PathEscape_Cons split: if_splits)
qed

end
