(* ===== verification/Control_Statements.thy ===== *)
theory Control_Statements
  imports Session_Store Media_Config Worker_Runtime
begin

text \<open>
  The statements and transactions of the control loop, \<^verbatim>\<open>backend/internal/control/controller.go\<close> and
  \<^verbatim>\<open>resources.go\<close>, on the tables of the database: each definition is one transaction. The \<open>CHECK\<close> constraints
  and triggers of the schema that a statement can violate are part of it, as the result \<open>Constraint\<close>, which leaves
  the database as it was. The sums over allocations are mathematical integers.
\<close>

section \<open>Reading\<close>

definition active_allocation :: "string \<Rightarrow> db \<Rightarrow> allocation_row option" where
  "active_allocation session d = find (\<lambda>a. wa_session a = session \<and> allocation_active a) (allocations d)"

definition stream_destinations :: "string \<Rightarrow> db \<Rightarrow> destination_row list" where
  "stream_destinations stream d =
     sort_key de_id (filter (\<lambda>r. de_stream r = stream \<and> de_enabled r \<and> \<not> de_archived r) (destinations d))"

definition on_node :: "string \<Rightarrow> allocation_row \<Rightarrow> bool" where
  "on_node node a \<longleftrightarrow> wa_node a = node \<and> allocation_active a"

definition node_count :: "string \<Rightarrow> db \<Rightarrow> int" where
  "node_count node d = int (count_where (on_node node) (allocations d))"

definition load_of :: "(resource_vector \<Rightarrow> int) \<Rightarrow> (allocation_row \<Rightarrow> bool) \<Rightarrow> db \<Rightarrow> int" where
  "load_of f P d = (\<Sum>a\<leftarrow>filter P (allocations d). f (wa_resources a))"

text \<open>The four columns that the budget covers; slots are counted as rows.\<close>

definition budget_dims :: "(resource_vector \<Rightarrow> int) list" where
  "budget_dims = [CPUMillis, MemoryBytes, IngressBPS, EgressBPS]"

definition left_over :: "string \<Rightarrow> (allocation_row \<Rightarrow> bool) \<Rightarrow> resource_vector \<Rightarrow> media_node_row \<Rightarrow> db \<Rightarrow> bool" where
  "left_over node P r mn d \<longleftrightarrow> list_all (\<lambda>f. f (mn_capacity mn) - load_of f (\<lambda>a. on_node node a \<and> P a) d \<ge> f r) budget_dims"

definition node_fits :: "string \<Rightarrow> resource_vector \<Rightarrow> db \<Rightarrow> store_error + bool" where
  "node_fits node r d =
     (case find (\<lambda>mn. mn_id mn = node) (media_nodes d) of
        None \<Rightarrow> Inl NoRows
      | Some mn \<Rightarrow> Inr (left_over node (\<lambda>_. True) r mn d))"

definition nonneg_columns :: "resource_vector \<Rightarrow> bool" where
  "nonneg_columns r \<longleftrightarrow> list_all (\<lambda>f. 0 \<le> f r) budget_dims"

section \<open>Writing\<close>

definition resources :: "resource_vector \<Rightarrow> media_profile \<Rightarrow> int \<Rightarrow> resource_vector" where
  "resources configured media outputs =
     (let r = configured\<lparr>Slots := 1\<rparr>;
          r = (if CPUMillis r = 0 then r\<lparr>CPUMillis := 2000\<rparr> else r);
          r = (if MemoryBytes r = 0 then r\<lparr>MemoryBytes := 2 ^ 30\<rparr> else r);
          r = (if IngressBPS r = 0 then r\<lparr>IngressBPS := 20000000\<rparr> else r);
          r = (if EgressBPS r = 0 then r\<lparr>EgressBPS := 10000000\<rparr> else r)
      in r\<lparr>EgressBPS := max (EgressBPS r) (i64 (i64 (i64 (mp_video_kbps media + mp_audio_kbps media) * 1200) * outputs))\<rparr>)"

definition new_allocation :: "string \<Rightarrow> time \<Rightarrow> string \<Rightarrow> string \<Rightarrow> nat \<Rightarrow> string \<Rightarrow> resource_vector \<Rightarrow> allocation_row" where
  "new_allocation uuid now session node fence hash r =
     \<lparr>wa_id = uuid, wa_session = session, wa_node = node, wa_desired = DesiredRunning, wa_state = AllocPending, wa_desired_generation = 1,
      wa_observed_generation = 0, wa_fence = fence, wa_worker = None, wa_last_error = None, wa_hash = hash, wa_restarts = 0,
      wa_retry_after = now, wa_last_healthy = None, wa_updated = now, wa_fallback_active = False, wa_fallback_forced = False,
      wa_input_live = False, wa_input_unavailable = False, wa_input_error = '''', wa_resources = r\<rparr>"

definition insert_allocation ::
  "string \<Rightarrow> time \<Rightarrow> string \<Rightarrow> string \<Rightarrow> nat \<Rightarrow> string \<Rightarrow> resource_vector \<Rightarrow> db \<Rightarrow> store_error + allocation_row \<times> db" where
  "insert_allocation uuid now session node fence hash r d =
     (if list_ex (\<lambda>a. wa_id a = uuid \<or> (wa_session a = session \<and> allocation_active a)) (allocations d) \<or> \<not> nonneg_columns r \<or> fence < 1
      then Inl Constraint
      else let a = new_allocation uuid now session node fence hash r in Inr (a, d\<lparr>allocations := allocations d @ [a]\<rparr>))"

text \<open>\<open>reserveBudget\<close>: whether exactly one row was updated.\<close>

definition reserveBudget :: "string \<Rightarrow> string \<Rightarrow> resource_vector \<Rightarrow> db \<Rightarrow> store_error + bool \<times> db" where
  "reserveBudget i node r d =
     (let P = (\<lambda>a. wa_id a = i \<and> wa_node a = node \<and>
                   list_ex (\<lambda>mn. mn_id mn = node \<and> left_over node (\<lambda>b. wa_id b \<noteq> i) r mn d) (media_nodes d))
      in if count_where P (allocations d) > 0 \<and> \<not> nonneg_columns r then Inl Constraint
         else Inr (count_where P (allocations d) = 1, d\<lparr>allocations := update_where P
                (\<lambda>a. a\<lparr>wa_resources := (wa_resources a)\<lparr>CPUMillis := CPUMillis r, MemoryBytes := MemoryBytes r, IngressBPS := IngressBPS r,
                                                        EgressBPS := EgressBPS r\<rparr>\<rparr>) (allocations d)\<rparr>))"

definition stop_runtimes :: "time \<Rightarrow> string \<Rightarrow> runtime_row list \<Rightarrow> runtime_row list" where
  "stop_runtimes now i rs = update_where (\<lambda>r. dr_allocation r = i) (\<lambda>r. r\<lparr>dr_state := ''STOPPED'', dr_last_seen := now\<rparr>) rs"

text \<open>The transaction that ends a stopped session; the allocation is \<open>None\<close> for a session without one.\<close>

definition end_session_tx :: "time \<Rightarrow> string \<Rightarrow> string option \<Rightarrow> db \<Rightarrow> db" where
  "end_session_tx now session alloc d =
     d\<lparr>allocations := update_where (\<lambda>a. wa_session a = session)
          (\<lambda>a. a\<lparr>wa_desired := DesiredStopped, wa_state := AllocStopped, wa_updated := now\<rparr>) (allocations d),
       runtimes := (case alloc of None \<Rightarrow> runtimes d | Some i \<Rightarrow> stop_runtimes now i (runtimes d)),
       sessions := update_where (\<lambda>s. ss_id s = session)
          (\<lambda>s. s\<lparr>ss_phase := Ended, ss_ended := Some now, ss_updated := now\<rparr>) (sessions d)\<rparr>"

definition stop_outputs_tx :: "time \<Rightarrow> string \<Rightarrow> string \<Rightarrow> db \<Rightarrow> db" where
  "stop_outputs_tx now session alloc d =
     d\<lparr>allocations := update_where (\<lambda>a. wa_id a = alloc)
          (\<lambda>a. a\<lparr>wa_desired := DesiredStopped, wa_state := AllocStopped, wa_updated := now\<rparr>) (allocations d),
       runtimes := stop_runtimes now alloc (runtimes d),
       sessions := update_where (\<lambda>s. ss_id s = session \<and> ss_desired s = DesiredRunning)
          (\<lambda>s. s\<lparr>ss_phase := Scheduling, ss_updated := now\<rparr>) (sessions d)\<rparr>"

definition fail_session_tx :: "time \<Rightarrow> string \<Rightarrow> string \<Rightarrow> db \<Rightarrow> db" where
  "fail_session_tx now session alloc d =
     d\<lparr>allocations := update_where (\<lambda>a. wa_id a = alloc)
          (\<lambda>a. a\<lparr>wa_state := AllocFailed, wa_desired := DesiredStopped, wa_last_error := Some ''RESTARTS_EXHAUSTED'', wa_updated := now\<rparr>)
          (allocations d),
       sessions := update_where (\<lambda>s. ss_id s = session)
          (\<lambda>s. s\<lparr>ss_phase := Failed, ss_desired := DesiredStopped, ss_end_reason := Some ''RESTARTS_EXHAUSTED'', ss_ended := Some now,
                ss_updated := now\<rparr>) (sessions d)\<rparr>"

definition set_hash :: "time \<Rightarrow> string \<Rightarrow> string \<Rightarrow> db \<Rightarrow> db" where
  "set_hash now alloc hash d =
     d\<lparr>allocations := update_where (\<lambda>a. wa_id a = alloc) (\<lambda>a. a\<lparr>wa_hash := hash, wa_updated := now\<rparr>) (allocations d)\<rparr>"

text \<open>The record of a start, committed before the agent is asked to start the worker.\<close>

definition commit_start :: "time \<Rightarrow> string \<Rightarrow> nat \<Rightarrow> string \<Rightarrow> nat \<Rightarrow> time \<Rightarrow> db \<Rightarrow> db" where
  "commit_start now alloc generation hash fence retry d =
     d\<lparr>allocations := update_where (\<lambda>a. wa_id a = alloc)
          (\<lambda>a. a\<lparr>wa_desired_generation := generation, wa_hash := hash, wa_fence := fence, wa_state := AllocStarting,
                wa_restarts := wa_restarts a + 1, wa_retry_after := retry, wa_last_healthy := None, wa_updated := now\<rparr>)
          (allocations d)\<rparr>"

definition session_starting :: "time \<Rightarrow> string \<Rightarrow> db \<Rightarrow> db" where
  "session_starting now session d =
     d\<lparr>sessions := update_where (\<lambda>s. ss_id s = session) (\<lambda>s. s\<lparr>ss_phase := Starting, ss_updated := now\<rparr>) (sessions d)\<rparr>"

definition stop_disabled :: "time \<Rightarrow> db \<Rightarrow> db" where
  "stop_disabled now d =
     d\<lparr>sessions := update_where
          (\<lambda>s. session_active s \<and> list_ex (\<lambda>r. st_id r = ss_stream s \<and> \<not> st_enabled r) (streams d))
          (\<lambda>s. s\<lparr>ss_desired := DesiredStopped, ss_phase := Stopping, ss_updated := now\<rparr>) (sessions d)\<rparr>"

section \<open>Observing a worker\<close>

fun phase_text :: "dest_phase \<Rightarrow> string" where
  "phase_text NoState = ''''"
| "phase_text CONNECTING = ''CONNECTING''"
| "phase_text STREAMING = ''STREAMING''"
| "phase_text RECONNECTING = ''RECONNECTING''"
| "phase_text FAILED = ''FAILED''"
| "phase_text STOPPED = ''STOPPED''"

fun code_text :: "error_code \<Rightarrow> string" where
  "code_text NoCode = ''''"
| "code_text ErrInputUnavailable = ''INPUT_UNAVAILABLE''"
| "code_text ErrUnsupportedMedia = ''UNSUPPORTED_MEDIA''"
| "code_text ErrDestinationAuth = ''DESTINATION_AUTH''"
| "code_text ErrDestinationNet = ''DESTINATION_NETWORK''"
| "code_text ErrPipeline = ''PIPELINE_ERROR''"
| "code_text ErrShutdownTimeout = ''SHUTDOWN_TIMEOUT''"

text \<open>\<open>INSERT \<dots> SELECT \<dots> FROM destinations WHERE \<dots> ON CONFLICT DO UPDATE\<close>: nothing for a destination of another stream.\<close>

definition upsert_runtime :: "time \<Rightarrow> string \<Rightarrow> string \<Rightarrow> string \<Rightarrow> destination_status \<Rightarrow> db \<Rightarrow> db" where
  "upsert_runtime now alloc session dest st d =
     (if \<not> list_ex (\<lambda>r. de_id r = dest \<and> list_ex (\<lambda>s. ss_id s = session \<and> ss_stream s = de_stream r) (sessions d)) (destinations d) then d
      else let K = (\<lambda>r. dr_allocation r = alloc \<and> dr_destination r = dest);
               f = (\<lambda>r. r\<lparr>dr_state := phase_text (ds_State st), dr_generation := ds_Generation st, dr_reconnects := Reconnects st,
                         dr_error := code_text (ds_ErrorCode st), dr_last_seen := now\<rparr>)
           in d\<lparr>runtimes := (if list_ex K (runtimes d) then update_where K f (runtimes d)
                else runtimes d @ [f \<lparr>dr_allocation = alloc, dr_destination = dest, dr_state = '''', dr_generation = 0, dr_reconnects = 0,
                                     dr_bytes = 0, dr_error = '''', dr_last_seen = now\<rparr>])\<rparr>)"

text \<open>\<open>order\<close> lists the destinations of the report in the order of the iteration.\<close>

definition observe ::
  "time \<Rightarrow> string list \<Rightarrow> string \<Rightarrow> allocation_row \<Rightarrow> worker \<Rightarrow> snapshot \<Rightarrow> db \<Rightarrow> store_error + db" where
  "observe now order session a w rep d =
     (if InputError rep \<noteq> NoCode \<and> InputError rep \<noteq> ErrUnsupportedMedia then Inl Constraint
      else let d1 = d\<lparr>allocations := update_where (\<lambda>x. wa_id x = wa_id a)
                   (\<lambda>x. x\<lparr>wa_fallback_active := snap_FallbackActive rep, wa_fallback_forced := snap_FallbackForced rep,
                         wa_input_live := snap_InputLive rep, wa_input_unavailable := snap_InputUnavailable rep,
                         wa_input_error := code_text (InputError rep), wa_state := AllocRunning, wa_worker := Some (worker_ID w),
                         wa_observed_generation := spec_Generation (Spec w), wa_last_healthy := Some now, wa_last_error := None,
                         wa_restarts := (if time_sub now (StartedAt w) > 60 * second then 0 else wa_restarts x), wa_updated := now\<rparr>)
                   (allocations d)\<rparr>;
               phase = (if snap_InputLive rep \<or> snap_FallbackActive rep \<or> snap_InputUnavailable rep then Live else Starting);
               d2 = d1\<lparr>sessions := update_where (\<lambda>s. ss_id s = session \<and> ss_desired s = DesiredRunning)
                   (\<lambda>s. s\<lparr>ss_phase := phase, ss_updated := now\<rparr>) (sessions d1)\<rparr>
           in Inr (fold (\<lambda>i d. case snap_Destinations rep i of None \<Rightarrow> d | Some st \<Rightarrow> upsert_runtime now (wa_id a) session i st d) order d2))"

section \<open>Invariant of the control tables\<close>

definition ctl_inv :: "db \<Rightarrow> bool" where
  "ctl_inv d \<longleftrightarrow> db_inv d \<and> distinct (map wa_id (allocations d)) \<and> distinct (map mn_id (media_nodes d)) \<and>
     (\<forall>s. count_where (\<lambda>a. wa_session a = s \<and> allocation_active a) (allocations d) \<le> 1) \<and>
     (\<forall>a \<in> set (allocations d). nonneg_columns (wa_resources a)) \<and>
     (\<forall>s \<in> set (sessions d). \<not> session_active s \<longrightarrow> ss_desired s = DesiredStopped)"

lemma ctl_invD:
  assumes "ctl_inv d"
  shows "db_inv d" "distinct (map wa_id (allocations d))" "distinct (map mn_id (media_nodes d))"
    "count_where (\<lambda>a. wa_session a = s \<and> allocation_active a) (allocations d) \<le> 1"
    "a \<in> set (allocations d) \<Longrightarrow> nonneg_columns (wa_resources a)"
    "x \<in> set (sessions d) \<Longrightarrow> \<not> session_active x \<Longrightarrow> ss_desired x = DesiredStopped"
  using assms by (auto simp: ctl_inv_def)

text \<open>How far a database may use a node, compared with an earlier one: no more than before, or within the capacity.\<close>

definition bounded_by :: "string \<Rightarrow> db \<Rightarrow> db \<Rightarrow> bool" where
  "bounded_by node d0 d \<longleftrightarrow>
     media_nodes d = media_nodes d0 \<and>
     (\<forall>mn \<in> set (media_nodes d0). mn_id mn = node \<longrightarrow>
        (\<forall>f \<in> set budget_dims. load_of f (on_node node) d \<le> max (load_of f (on_node node) d0) (f (mn_capacity mn))))"

lemma bounded_refl [simp]: "bounded_by node d d"
  by (simp add: bounded_by_def)

lemma bounded_le:
  assumes "bounded_by node d0 d" "media_nodes d' = media_nodes d"
    and "\<And>f. f \<in> set budget_dims \<Longrightarrow> load_of f (on_node node) d' \<le> load_of f (on_node node) d"
  shows "bounded_by node d0 d'"
  using assms unfolding bounded_by_def by (metis order_trans)

text \<open>The three kinds of change to the allocations.\<close>

lemma load_update_le:
  assumes "\<forall>a \<in> set t. nonneg_columns (wa_resources a)"
    and "\<And>a. a \<in> set t \<Longrightarrow> P a \<Longrightarrow> wa_resources (g a) = wa_resources a \<and> (Q (g a) \<longrightarrow> Q a)"
    and "f \<in> set budget_dims"
  shows "(\<Sum>a\<leftarrow>filter Q (update_where P g t). f (wa_resources a)) \<le> (\<Sum>a\<leftarrow>filter Q t. f (wa_resources a))"
  using assms(1,2)
proof (induction t)
  case (Cons a t)
  have "0 \<le> f (wa_resources a)" using Cons.prems(1) assms(3) by (auto simp: nonneg_columns_def list_all_iff)
  moreover have "(\<Sum>a\<leftarrow>filter Q (update_where P g t). f (wa_resources a)) \<le> (\<Sum>a\<leftarrow>filter Q t. f (wa_resources a))"
    using Cons.prems by (intro Cons.IH) auto
  ultimately show ?case using Cons.prems(2) [of a] by auto
qed simp

lemma allocations_update_inv:
  assumes inv: "ctl_inv d"
    and keep: "\<And>a. wa_id (g a) = wa_id a \<and> wa_session (g a) = wa_session a \<and> wa_resources (g a) = wa_resources a"
    and act: "\<And>a. a \<in> set (allocations d) \<Longrightarrow> P a \<Longrightarrow> allocation_active (g a) \<Longrightarrow> allocation_active a"
  shows "ctl_inv (d\<lparr>allocations := update_where P g (allocations d)\<rparr>)"
proof -
  have "map wa_id (update_where P g (allocations d)) = map wa_id (allocations d)"
    using keep by (intro map_update_where) simp
  moreover have "count_where (\<lambda>a. wa_session a = s \<and> allocation_active a) (update_where P g (allocations d)) \<le> 1" for s
    using keep act by (intro order_trans [OF count_update_where_le ctl_invD(4) [OF inv, of s]]) auto
  moreover have "\<forall>a \<in> set (update_where P g (allocations d)). nonneg_columns (wa_resources a)"
    using ctl_invD(5) [OF inv] keep by (auto simp: set_update_where)
  ultimately show ?thesis using inv by (simp add: ctl_inv_def)
qed

lemma allocations_update_bounded:
  assumes inv: "ctl_inv d" "bounded_by node d0 d"
    and keep: "\<And>a. wa_node (g a) = wa_node a \<and> wa_resources (g a) = wa_resources a"
    and act: "\<And>a. a \<in> set (allocations d) \<Longrightarrow> P a \<Longrightarrow> allocation_active (g a) \<Longrightarrow> allocation_active a"
  shows "bounded_by node d0 (d\<lparr>allocations := update_where P g (allocations d)\<rparr>)"
  using inv(2)
proof (rule bounded_le)
  fix f assume "f \<in> set budget_dims"
  then show "load_of f (on_node node) (d\<lparr>allocations := update_where P g (allocations d)\<rparr>) \<le> load_of f (on_node node) d"
    unfolding load_of_def using ctl_invD(5) [OF inv(1)] keep act
    by (simp, intro load_update_le) (auto simp: on_node_def)
qed simp

lemma other_tables_ctl [simp]:
  "ctl_inv (d\<lparr>runtimes := x\<rparr>) = ctl_inv d" "bounded_by node d0 (d\<lparr>runtimes := x\<rparr>) = bounded_by node d0 d"
  "bounded_by node d0 (d\<lparr>sessions := y\<rparr>) = bounded_by node d0 d"
  by (simp_all add: ctl_inv_def bounded_by_def load_of_def)

lemma sessions_update_inv:
  assumes inv: "ctl_inv d"
    and keep: "\<And>s. ss_id (f s) = ss_id s \<and> ss_stream (f s) = ss_stream s \<and> ss_connection (f s) = ss_connection s"
    and act: "\<And>s. s \<in> set (sessions d) \<Longrightarrow> P s \<Longrightarrow> session_active s"
    and des: "\<And>s. s \<in> set (sessions d) \<Longrightarrow> P s \<Longrightarrow> \<not> session_active (f s) \<Longrightarrow> ss_desired (f s) = DesiredStopped"
  shows "ctl_inv (d\<lparr>sessions := update_where P f (sessions d)\<rparr>)"
proof -
  have "update_where P f (sessions d) = update_where (\<lambda>s. P s \<and> session_active s) f (sessions d)"
    unfolding update_where_def using act by (intro map_cong) auto
  moreover have "db_inv (d\<lparr>sessions := update_where (\<lambda>s. P s \<and> session_active s) f (sessions d)\<rparr>)"
    using keep by (intro update_sessions_inv [OF ctl_invD(1) [OF inv]]) auto
  moreover have "\<forall>s \<in> set (update_where P f (sessions d)). \<not> session_active s \<longrightarrow> ss_desired s = DesiredStopped"
    using des ctl_invD(6) [OF inv] by (auto simp: set_update_where)
  ultimately show ?thesis using inv by (simp add: ctl_inv_def)
qed

section \<open>The transactions keep the invariant and the budget\<close>

definition session_running :: "string \<Rightarrow> db \<Rightarrow> bool" where
  "session_running i d \<longleftrightarrow> (\<forall>s \<in> set (sessions d). ss_id s = i \<longrightarrow> session_active s)"

definition session_stopping :: "string \<Rightarrow> db \<Rightarrow> bool" where
  "session_stopping i d \<longleftrightarrow> (\<forall>s \<in> set (sessions d). ss_id s = i \<longrightarrow> session_active s \<and> ss_desired s = DesiredStopped)"

definition allocation_live :: "string \<Rightarrow> db \<Rightarrow> bool" where
  "allocation_live i d \<longleftrightarrow> (\<forall>a \<in> set (allocations d). wa_id a = i \<longrightarrow> allocation_active a)"

definition safe :: "string \<Rightarrow> db \<Rightarrow> db \<Rightarrow> bool" where
  "safe node d0 d \<longleftrightarrow> ctl_inv d \<and> bounded_by node d0 d"

lemma safe_allocations:
  assumes "safe node d0 d"
    and "\<And>a. wa_id (g a) = wa_id a \<and> wa_session (g a) = wa_session a \<and> wa_node (g a) = wa_node a \<and> wa_resources (g a) = wa_resources a"
    and "\<And>a. a \<in> set (allocations d) \<Longrightarrow> P a \<Longrightarrow> allocation_active (g a) \<Longrightarrow> allocation_active a"
  shows "safe node d0 (d\<lparr>allocations := update_where P g (allocations d)\<rparr>)"
  unfolding safe_def
proof
  show "ctl_inv (d\<lparr>allocations := update_where P g (allocations d)\<rparr>)"
    by (rule allocations_update_inv) (use assms in \<open>auto simp: safe_def\<close>)
  show "bounded_by node d0 (d\<lparr>allocations := update_where P g (allocations d)\<rparr>)"
    by (rule allocations_update_bounded) (use assms in \<open>auto simp: safe_def\<close>)
qed

lemma safe_sessions:
  assumes "safe node d0 d"
    and "\<And>s. ss_id (f s) = ss_id s \<and> ss_stream (f s) = ss_stream s \<and> ss_connection (f s) = ss_connection s"
    and "\<And>s. s \<in> set (sessions d) \<Longrightarrow> P s \<Longrightarrow> session_active s"
    and "\<And>s. s \<in> set (sessions d) \<Longrightarrow> P s \<Longrightarrow> \<not> session_active (f s) \<Longrightarrow> ss_desired (f s) = DesiredStopped"
  shows "safe node d0 (d\<lparr>sessions := update_where P f (sessions d)\<rparr>)"
  unfolding safe_def using assms sessions_update_inv [of d f P] by (simp add: safe_def)

lemma safe_runtimes [simp]: "safe node d0 (d\<lparr>runtimes := x\<rparr>) = safe node d0 d"
  by (simp add: safe_def)

lemma end_session_tx_safe [relay_inv]:
  assumes "safe node d0 d" "session_stopping session d"
  shows "safe node d0 (end_session_tx now session alloc d)"
proof -
  define d1 where "d1 = d\<lparr>allocations := update_where (\<lambda>a. wa_session a = session)
      (\<lambda>a. a\<lparr>wa_desired := DesiredStopped, wa_state := AllocStopped, wa_updated := now\<rparr>) (allocations d)\<rparr>"
  have "safe node d0 d1" unfolding d1_def using assms(1) by (rule safe_allocations) (auto simp: allocation_active_def)
  then have "safe node d0 (d1\<lparr>sessions := update_where (\<lambda>s. ss_id s = session)
          (\<lambda>s. s\<lparr>ss_phase := Ended, ss_ended := Some now, ss_updated := now\<rparr>) (sessions d1)\<rparr>)"
    by (rule safe_sessions) (use assms(2) in \<open>auto simp: d1_def session_stopping_def\<close>)
  moreover have "end_session_tx now session alloc d = (d1\<lparr>sessions := update_where (\<lambda>s. ss_id s = session)
          (\<lambda>s. s\<lparr>ss_phase := Ended, ss_ended := Some now, ss_updated := now\<rparr>) (sessions d1)\<rparr>)
        \<lparr>runtimes := (case alloc of None \<Rightarrow> runtimes d | Some i \<Rightarrow> stop_runtimes now i (runtimes d))\<rparr>"
    by (simp add: end_session_tx_def d1_def)
  ultimately show ?thesis by (simp only: safe_runtimes)
qed

lemma stop_outputs_tx_safe [relay_inv]:
  assumes "safe node d0 d"
  shows "safe node d0 (stop_outputs_tx now session alloc d)"
proof -
  define d1 where "d1 = d\<lparr>allocations := update_where (\<lambda>a. wa_id a = alloc)
      (\<lambda>a. a\<lparr>wa_desired := DesiredStopped, wa_state := AllocStopped, wa_updated := now\<rparr>) (allocations d)\<rparr>"
  have "safe node d0 d1" unfolding d1_def using assms by (rule safe_allocations) (auto simp: allocation_active_def)
  moreover have "ctl_inv d" using assms by (simp add: safe_def)
  then have "s \<in> set (sessions d) \<Longrightarrow> ss_desired s = DesiredRunning \<Longrightarrow> session_active s" for s
    using ctl_invD(6) [of d s] by auto
  ultimately have "safe node d0 (d1\<lparr>sessions := update_where (\<lambda>s. ss_id s = session \<and> ss_desired s = DesiredRunning)
          (\<lambda>s. s\<lparr>ss_phase := Scheduling, ss_updated := now\<rparr>) (sessions d1)\<rparr>)"
    by (intro safe_sessions) (auto simp: d1_def session_active_def active_phase_def)
  moreover have "stop_outputs_tx now session alloc d = (d1\<lparr>sessions := update_where (\<lambda>s. ss_id s = session \<and> ss_desired s = DesiredRunning)
          (\<lambda>s. s\<lparr>ss_phase := Scheduling, ss_updated := now\<rparr>) (sessions d1)\<rparr>)\<lparr>runtimes := stop_runtimes now alloc (runtimes d)\<rparr>"
    by (simp add: stop_outputs_tx_def d1_def)
  ultimately show ?thesis by (simp only: safe_runtimes)
qed

lemma fail_session_tx_safe [relay_inv]:
  assumes "safe node d0 d" "session_running session d"
  shows "safe node d0 (fail_session_tx now session alloc d)"
proof -
  define d1 where "d1 = d\<lparr>allocations := update_where (\<lambda>a. wa_id a = alloc)
      (\<lambda>a. a\<lparr>wa_state := AllocFailed, wa_desired := DesiredStopped, wa_last_error := Some ''RESTARTS_EXHAUSTED'', wa_updated := now\<rparr>)
      (allocations d)\<rparr>"
  have "safe node d0 d1" unfolding d1_def using assms(1) by (rule safe_allocations) (auto simp: allocation_active_def)
  then have "safe node d0 (d1\<lparr>sessions := update_where (\<lambda>s. ss_id s = session)
          (\<lambda>s. s\<lparr>ss_phase := Failed, ss_desired := DesiredStopped, ss_end_reason := Some ''RESTARTS_EXHAUSTED'', ss_ended := Some now,
                ss_updated := now\<rparr>) (sessions d1)\<rparr>)"
    by (rule safe_sessions) (use assms(2) in \<open>auto simp: d1_def session_running_def\<close>)
  then show ?thesis by (simp add: fail_session_tx_def d1_def)
qed

lemma set_hash_safe [relay_inv]: "safe node d0 d \<Longrightarrow> safe node d0 (set_hash now alloc hash d)"
  unfolding set_hash_def by (rule safe_allocations) (auto simp: allocation_active_def)

lemma commit_start_safe [relay_inv]:
  "safe node d0 d \<Longrightarrow> allocation_live alloc d \<Longrightarrow> safe node d0 (commit_start now alloc generation hash fence retry d)"
  unfolding commit_start_def by (rule safe_allocations) (auto simp: allocation_live_def)

lemma session_starting_safe [relay_inv]:
  "safe node d0 d \<Longrightarrow> session_running session d \<Longrightarrow> safe node d0 (session_starting now session d)"
  unfolding session_starting_def by (rule safe_sessions) (auto simp: session_running_def session_active_def active_phase_def)

lemma stop_disabled_safe [relay_inv]: "safe node d0 d \<Longrightarrow> safe node d0 (stop_disabled now d)"
  unfolding stop_disabled_def by (rule safe_sessions) auto

lemma upsert_runtime_frame: "\<exists>x. upsert_runtime now alloc session dest st d = d\<lparr>runtimes := x\<rparr>"
  by (auto simp: upsert_runtime_def Let_def intro: exI [of _ "runtimes d"])

lemma observe_fold_frame:
  "\<exists>x. fold (\<lambda>i d. case rep i of None \<Rightarrow> d | Some st \<Rightarrow> upsert_runtime now alloc session i st d) order d = d\<lparr>runtimes := x\<rparr>"
proof (induction order arbitrary: d)
  case Nil
  show ?case by (auto intro: exI [of _ "runtimes d"])
next
  case (Cons i order)
  have "\<exists>y. (case rep i of None \<Rightarrow> d | Some st \<Rightarrow> upsert_runtime now alloc session i st d) = d\<lparr>runtimes := y\<rparr>"
    using upsert_runtime_frame [of now alloc session i _ d] by (cases "rep i") (auto intro: exI [of _ "runtimes d"])
  then obtain y where y: "(case rep i of None \<Rightarrow> d | Some st \<Rightarrow> upsert_runtime now alloc session i st d) = d\<lparr>runtimes := y\<rparr>" by blast
  show ?case using Cons.IH [of "d\<lparr>runtimes := y\<rparr>"] y by auto
qed

lemma observe_safe [relay_inv]:
  assumes "safe node d0 d" "allocation_live (wa_id a) d" "observe now order session a w rep d = Inr d'"
  shows "safe node d0 d'"
proof -
  define d1 where "d1 = d\<lparr>allocations := update_where (\<lambda>x. wa_id x = wa_id a)
                   (\<lambda>x. x\<lparr>wa_fallback_active := snap_FallbackActive rep, wa_fallback_forced := snap_FallbackForced rep,
                         wa_input_live := snap_InputLive rep, wa_input_unavailable := snap_InputUnavailable rep,
                         wa_input_error := code_text (InputError rep), wa_state := AllocRunning, wa_worker := Some (worker_ID w),
                         wa_observed_generation := spec_Generation (Spec w), wa_last_healthy := Some now, wa_last_error := None,
                         wa_restarts := (if time_sub now (StartedAt w) > 60 * second then 0 else wa_restarts x), wa_updated := now\<rparr>)
                   (allocations d)\<rparr>"
  define phase where "phase = (if snap_InputLive rep \<or> snap_FallbackActive rep \<or> snap_InputUnavailable rep then Live else Starting)"
  define d2 where "d2 = d1\<lparr>sessions := update_where (\<lambda>s. ss_id s = session \<and> ss_desired s = DesiredRunning)
                   (\<lambda>s. s\<lparr>ss_phase := phase, ss_updated := now\<rparr>) (sessions d1)\<rparr>"
  have "safe node d0 d1" unfolding d1_def using assms(1) by (rule safe_allocations) (use assms(2) in \<open>auto simp: allocation_live_def\<close>)
  moreover have "ctl_inv d" using assms by (simp add: safe_def)
  then have "s \<in> set (sessions d) \<Longrightarrow> ss_desired s = DesiredRunning \<Longrightarrow> session_active s" for s
    using ctl_invD(6) [of d s] by auto
  moreover have "sessions d1 = sessions d" "active_phase phase" by (simp_all add: d1_def phase_def active_phase_def)
  ultimately have "safe node d0 d2" unfolding d2_def
    by (intro safe_sessions) (auto simp: session_active_def)
  moreover obtain x where "d' = d2\<lparr>runtimes := x\<rparr>"
    using assms(3) observe_fold_frame [of now "wa_id a" session "snap_Destinations rep" order d2]
    by (auto simp: observe_def Let_def d2_def d1_def phase_def split: if_splits)
  ultimately show ?thesis by simp
qed

lemma load_append: "load_of f P (d\<lparr>allocations := allocations d @ [a]\<rparr>) = load_of f P d + (if P a then f (wa_resources a) else 0)"
  by (simp add: load_of_def)

lemma insert_allocation_safe [relay_inv]:
  assumes "safe node d0 d" "insert_allocation uuid now session node tok hash r d = Inr (a, d')" "node_fits node r d = Inr True"
  shows "safe node d0 d'" "a \<in> set (allocations d')" "allocation_active a" "wa_node a = node" "wa_id a = uuid"
    "wa_desired_generation a = 1" "sessions d' = sessions d"
proof -
  have ins: "a = new_allocation uuid now session node tok hash r" "d' = d\<lparr>allocations := allocations d @ [a]\<rparr>" "nonneg_columns r"
    "\<And>x. x \<in> set (allocations d) \<Longrightarrow> wa_id x \<noteq> uuid \<and> \<not> (wa_session x = session \<and> allocation_active x)"
    using assms(2) by (auto simp: insert_allocation_def Let_def list_ex_iff split: if_splits)
  then show "a \<in> set (allocations d')" "allocation_active a" "wa_node a = node" "wa_id a = uuid" "wa_desired_generation a = 1"
      "sessions d' = sessions d"
    by (simp_all add: new_allocation_def allocation_active_def)
  have new: "wa_id a = uuid" "wa_session a = session" "wa_resources a = r" by (simp_all add: ins(1) new_allocation_def)
  have inv: "ctl_inv d" and b: "bounded_by node d0 d" using assms(1) by (simp_all add: safe_def)
  have "count_where (\<lambda>a. wa_session a = s \<and> allocation_active a) (allocations d @ [a]) \<le> 1" for s
  proof (cases "s = session")
    case True
    then have "count_where (\<lambda>a. wa_session a = s \<and> allocation_active a) (allocations d) = 0"
      unfolding count_where_0_iff using ins(4) by blast
    then show ?thesis by simp
  next
    case False
    then show ?thesis using ctl_invD(4) [OF inv, of s] new(2) by simp
  qed
  moreover have "uuid \<notin> wa_id ` set (allocations d)" using ins(4) by blast
  ultimately have "ctl_inv d'" using inv new ins(2,3) unfolding ctl_inv_def by auto
  moreover have "bounded_by node d0 d'"
  proof -
    obtain mn where mn: "find (\<lambda>mn. mn_id mn = node) (media_nodes d) = Some mn" "left_over node (\<lambda>_. True) r mn d"
      using assms(3) by (auto simp: node_fits_def split: option.splits)
    have only: "m = mn" if "m \<in> set (media_nodes d)" "mn_id m = node" for m
      using find_Some_iff_hd [OF mn(1)] that distinct_map_inj [OF ctl_invD(3) [OF inv], of m mn] by auto
    have "load_of f (on_node node) d' \<le> f (mn_capacity mn)" if "f \<in> set budget_dims" for f
    proof -
      have "f r \<le> f (mn_capacity mn) - load_of f (on_node node) d" using that mn(2) by (simp add: left_over_def list_all_iff)
      then show ?thesis unfolding ins(2) load_append
        using new(3) by (simp add: on_node_def ins(1) new_allocation_def allocation_active_def)
    qed
    then show ?thesis using b only unfolding bounded_by_def by (metis ins(2) db.select_convs(7) db.surjective db.update_convs(4) max.coboundedI2)
  qed
  ultimately show "safe node d0 d'" by (simp add: safe_def)
qed

lemma load_replace_le:
  assumes "distinct (map wa_id t)" "\<And>a. P a \<Longrightarrow> wa_id a = i" "\<And>a. Q a \<Longrightarrow> wa_id a = i \<Longrightarrow> P a"
    and "\<And>a. Q (g a) = Q a" "\<And>a. f (wa_resources (g a)) = v" "0 \<le> (v :: int)"
  shows "(\<Sum>a\<leftarrow>filter Q (update_where P g t). f (wa_resources a)) \<le> (\<Sum>a\<leftarrow>filter (\<lambda>a. Q a \<and> wa_id a \<noteq> i) t. f (wa_resources a)) + v"
  using assms(1)
proof (induction t)
  case (Cons a t)
  show ?case
  proof (cases "wa_id a = i")
    case True
    then have none: "\<And>x. x \<in> set t \<Longrightarrow> wa_id x \<noteq> i" using Cons.prems by (auto simp: image_iff)
    then have "update_where P g t = t" using assms(2) by (intro update_where_none) blast
    moreover have "filter (\<lambda>a. Q a \<and> wa_id a \<noteq> i) t = filter Q t" using none by (intro filter_cong) auto
    ultimately show ?thesis using True assms(3) [of a] assms(4-6) by (cases "P a"; cases "Q a") auto
  next
    case False
    then have "\<not> P a" using assms(2) by blast
    then show ?thesis using False Cons by simp
  qed
qed (use assms(6) in simp)

lemma reserveBudget_safe [relay_inv]:
  assumes "safe node d0 d" "reserveBudget i node r d = Inr (ok, d')"
  shows "safe node d0 d'" "sessions d' = sessions d" "allocation_live j d \<Longrightarrow> allocation_live j d'"
    "map (\<lambda>a. (wa_id a, wa_desired_generation a, wa_fence a, wa_state a)) (allocations d') =
     map (\<lambda>a. (wa_id a, wa_desired_generation a, wa_fence a, wa_state a)) (allocations d)"
proof -
  let ?ok = "list_ex (\<lambda>mn. mn_id mn = node \<and> left_over node (\<lambda>b. wa_id b \<noteq> i) r mn d) (media_nodes d)"
  let ?P = "\<lambda>a. wa_id a = i \<and> wa_node a = node \<and> ?ok"
  let ?g = "\<lambda>a. a\<lparr>wa_resources := (wa_resources a)\<lparr>CPUMillis := CPUMillis r, MemoryBytes := MemoryBytes r, IngressBPS := IngressBPS r,
                                                        EgressBPS := EgressBPS r\<rparr>\<rparr>"
  have d': "d' = d\<lparr>allocations := update_where ?P ?g (allocations d)\<rparr>"
      "count_where ?P (allocations d) > 0 \<Longrightarrow> nonneg_columns r"
    using assms(2) by (auto simp: reserveBudget_def Let_def split: if_splits)
  show "sessions d' = sessions d" by (simp add: d')
  show "allocation_live j d \<Longrightarrow> allocation_live j d'"
    by (auto simp: d' allocation_live_def set_update_where allocation_active_def)
  show "map (\<lambda>a. (wa_id a, wa_desired_generation a, wa_fence a, wa_state a)) (allocations d') =
     map (\<lambda>a. (wa_id a, wa_desired_generation a, wa_fence a, wa_state a)) (allocations d)"
    unfolding d' by (simp, rule map_update_where) simp
  have inv: "ctl_inv d" and b: "bounded_by node d0 d" using assms(1) by (simp_all add: safe_def)
  show "safe node d0 d'"
  proof (cases "count_where ?P (allocations d) > 0")
    case False
    then have "update_where ?P ?g (allocations d) = allocations d"
      by (intro update_where_none) (simp add: count_where_0_iff)
    then show ?thesis using assms(1) d' by simp
  next
    case True
    have nn: "nonneg_columns r" by (rule d'(2) [OF True])
    have ok: ?ok using True by (metis (mono_tags, lifting) count_where_0_iff less_irrefl)
    have ids: "map wa_id (update_where ?P ?g (allocations d)) = map wa_id (allocations d)" by (rule map_update_where) simp
    have "count_where (\<lambda>a. wa_session a = s \<and> allocation_active a) (update_where ?P ?g (allocations d)) \<le> 1" for s
      by (rule order_trans [OF count_update_where_le ctl_invD(4) [OF inv, of s]]) (simp add: allocation_active_def)
    moreover have "nonneg_columns (wa_resources (?g a))" for a using nn by (simp add: nonneg_columns_def budget_dims_def)
    then have "\<forall>a \<in> set (update_where ?P ?g (allocations d)). nonneg_columns (wa_resources a)"
      using ctl_invD(5) [OF inv] by (auto simp: set_update_where)
    ultimately have "ctl_inv d'" using inv ids by (simp add: ctl_inv_def d'(1))
    moreover have "load_of f (on_node node) d' \<le> f (mn_capacity mn)"
      if mn: "mn \<in> set (media_nodes d)" "mn_id mn = node" and f: "f \<in> set budget_dims" for f mn
    proof -
      obtain mn' where "mn' \<in> set (media_nodes d)" "mn_id mn' = node" "left_over node (\<lambda>b. wa_id b \<noteq> i) r mn' d"
        using ok by (auto simp: list_ex_iff)
      then have "left_over node (\<lambda>b. wa_id b \<noteq> i) r mn d"
        using mn distinct_map_inj [OF ctl_invD(3) [OF inv], of mn mn'] by simp
      then have le: "load_of f (\<lambda>a. on_node node a \<and> wa_id a \<noteq> i) d + f r \<le> f (mn_capacity mn)"
        using f by (auto simp: left_over_def list_all_iff)
      have "load_of f (on_node node) d' \<le> load_of f (\<lambda>a. on_node node a \<and> wa_id a \<noteq> i) d + f r"
        unfolding load_of_def d'(1)
        using load_replace_le [of "allocations d" ?P i "on_node node" ?g f "f r"] ctl_invD(2) [OF inv] ok f nn
        by (auto simp: on_node_def allocation_active_def budget_dims_def nonneg_columns_def)
      with le show ?thesis by linarith
    qed
    then have "bounded_by node d0 d'" using b d'(1) unfolding bounded_by_def
      by (auto intro: max.coboundedI2)
    ultimately show ?thesis by (simp add: safe_def)
  qed
qed

lemma commit_start_row:
  assumes "x \<in> set (allocations d)" "wa_id x = i"
  shows "\<exists>x \<in> set (allocations (commit_start now i generation hash fence retry d)). wa_id x = i \<and> wa_desired_generation x = generation \<and>
    wa_fence x = fence \<and> wa_state x = AllocStarting"
proof -
  let ?g = "\<lambda>a. a\<lparr>wa_desired_generation := generation, wa_hash := hash, wa_fence := fence, wa_state := AllocStarting,
            wa_restarts := wa_restarts a + 1, wa_retry_after := retry, wa_last_healthy := None, wa_updated := now\<rparr>"
  have "?g x \<in> set (allocations (commit_start now i generation hash fence retry d))"
    unfolding commit_start_def using update_where_image [OF assms(1), of "\<lambda>a. wa_id a = i" ?g] assms(2) by simp
  then show ?thesis by (rule rev_bexI) (simp add: assms(2))
qed

end
