(* ===== verification/Control_Loop.thy ===== *)
theory Control_Loop
  imports Control_Statements Node_Agent Auth_Primitives
begin

text \<open>
  The control loop, \<^verbatim>\<open>backend/internal/control/controller.go\<close>: one pass reads the edge, talks to the node agent and
  brings the workers of the node in line with the database. The agent is an arbitrary process: a request changes its
  state and gives a response, or none when the transport fails, and then the request may or may not have been
  executed. The world of a pass is the database, the agent and the slots that the controller keeps in memory, with a
  log of the requests sent, each with the database at that moment; the log is for the theorems only.
\<close>

section \<open>Environment and world\<close>

record slate_policy =
  sp_on_loss :: bool
  sp_forced :: bool

record 'g control_env =
  ctl_NodeID :: string
  ctl_Region :: string
  ctl_AgentURL :: string
  ctl_WorkerImage :: string
  ctl_EdgeID :: string
  ctl_Environment :: string
  ctl_AllowedHosts :: string
  ctl_ReadKey :: string
  ctl_Grace :: duration
  ctl_WorkerResources :: resource_vector
  ctl_agent :: "request \<Rightarrow> 'g \<Rightarrow> response option \<times> 'g"
  ctl_slates :: "string \<rightharpoonup> slate_policy"
  ctl_media :: "string \<rightharpoonup> media_profile"
  ctl_assets :: "string \<rightharpoonup> string \<times> string"
  ctl_hash :: "destination_row list \<Rightarrow> slate_policy \<Rightarrow> media_profile \<Rightarrow> string"
  ctl_decrypt :: "destination_row \<Rightarrow> string \<Rightarrow> string option"
  ctl_json_documents :: "destination_document list \<Rightarrow> string"
  ctl_json_media :: "media_profile \<Rightarrow> string"
  ctl_source :: "string \<Rightarrow> string option"
  ctl_hmac :: "string \<Rightarrow> string \<Rightarrow> string"
  ctl_codecs :: codecs

text \<open>The clock, the randomness and the order of the iteration over a report, for one reconciliation.\<close>

record tick =
  tk_now :: time
  tk_uuid :: string
  tk_random :: string
  tk_order :: "string list"

record 'g world =
  wdb :: db
  wagent :: 'g
  wslots :: int
  sent :: "(request \<times> db) list"

datatype control_error =
    AgentUnavailable | AgentNotFound | AgentStatus nat | BadReply | IdentityMismatch | StoreFailure store_error
  | DecryptionFailed | InvalidMedia | InvalidSource | InvalidSnapshot

type_synonym ('g, 'a) control = "'g world \<Rightarrow> (control_error + 'a) \<times> 'g world"

section \<open>Sequencing\<close>

definition ret :: "'a \<Rightarrow> ('g, 'a) control" where
  "ret v w = (Inr v, w)"

definition throw :: "control_error \<Rightarrow> ('g, 'a) control" where
  "throw e w = (Inl e, w)"

definition seq :: "('g, 'a) control \<Rightarrow> ('a \<Rightarrow> ('g, 'b) control) \<Rightarrow> ('g, 'b) control" where
  "seq m f w = (case m w of (Inl e, w') \<Rightarrow> (Inl e, w') | (Inr v, w') \<Rightarrow> f v w')"

definition read_db :: "('g, db) control" where
  "read_db w = (Inr (wdb w), w)"

definition write_db :: "(db \<Rightarrow> db) \<Rightarrow> ('g, unit) control" where
  "write_db f w = (Inr (), w\<lparr>wdb := f (wdb w)\<rparr>)"

text \<open>A statement that can fail; a failure changes nothing.\<close>

definition exec_db :: "(db \<Rightarrow> store_error + 'a \<times> db) \<Rightarrow> ('g, 'a) control" where
  "exec_db f w = (case f (wdb w) of Inl e \<Rightarrow> (Inl (StoreFailure e), w) | Inr (v, d) \<Rightarrow> (Inr v, w\<lparr>wdb := d\<rparr>))"

section \<open>Calling the agent\<close>

definition agent_call :: "'g control_env \<Rightarrow> request \<Rightarrow> ('g, response) control" where
  "agent_call c r w =
     (case ctl_agent c r (wagent w) of
        (reply, g) \<Rightarrow>
          (case reply of
             None \<Rightarrow> Inl AgentUnavailable
           | Some resp \<Rightarrow>
               if status_of resp = 404 then Inl AgentNotFound
               else if status_of resp < 200 \<or> status_of resp \<ge> 300 then Inl (AgentStatus (status_of resp))
               else Inr resp,
           w\<lparr>wagent := g, sent := sent w @ [(r, wdb w)]\<rparr>))"

definition control_command :: "time \<Rightarrow> string \<Rightarrow> nat \<Rightarrow> nat \<Rightarrow> command" where
  "control_command now i generation tok =
     \<lparr>CommandID = i @ ''-'' @ decimal tok, ResourceID = i, TraceID = ''single-node'', Generation = generation,
      FencingToken = tok, Deadline = now + 45 * second\<rparr>"

text \<open>\<open>GET /v1/workers/{id}\<close>, with \<open>None\<close> for a worker that the agent does not know.\<close>

definition inspect :: "'g control_env \<Rightarrow> string \<Rightarrow> ('g, worker option) control" where
  "inspect c i w =
     (case agent_call c (GetWorker i) w of
        (Inl AgentNotFound, w') \<Rightarrow> (Inr None, w')
      | (Inl e, w') \<Rightarrow> (Inl e, w')
      | (Inr (ROne _ x), w') \<Rightarrow> (Inr (Some x), w')
      | (Inr _, w') \<Rightarrow> (Inl BadReply, w'))"

definition remove_worker :: "'g control_env \<Rightarrow> time \<Rightarrow> string \<Rightarrow> nat \<Rightarrow> nat \<Rightarrow> ('g, unit) control" where
  "remove_worker c now i generation tok =
     seq (agent_call c (DeleteWorker i (Some (control_command now i generation tok)))) (\<lambda>_. ret ())"

section \<open>Reconciling a session\<close>

definition document_of :: "destination_row \<Rightarrow> destination_document" where
  "document_of d = \<lparr>doc_id = de_id d, doc_generation = nat (de_generation d mod 2 ^ 64), doc_url = de_endpoint d,
     doc_secret_file = ''/run/secrets/destination-'' @ de_id d\<rparr>"

fun destination_secrets :: "'g control_env \<Rightarrow> string \<Rightarrow> destination_row list \<Rightarrow> (string \<times> string) list option" where
  "destination_secrets c stream [] = Some []"
| "destination_secrets c stream (d # ds) =
     (case ctl_decrypt c d (stream @ '':'' @ de_name d) of
        None \<Rightarrow> None
      | Some secret \<Rightarrow> map_option (\<lambda>fs. (''destination-'' @ de_id d, secret) # fs) (destination_secrets c stream ds))"

definition destinationFiles :: "'g control_env \<Rightarrow> string \<Rightarrow> destination_row list \<Rightarrow> ('g, (string \<times> string) list) control" where
  "destinationFiles c stream dests =
     (case destination_secrets c stream dests of
        None \<Rightarrow> throw DecryptionFailed
      | Some fs \<Rightarrow> ret (fs @ [(''destinations.json'', ctl_json_documents c (map document_of dests))]))"

definition slatePolicy :: "'g control_env \<Rightarrow> string \<Rightarrow> ('g, slate_policy) control" where
  "slatePolicy c stream = seq read_db (\<lambda>d.
     if \<not> list_ex (\<lambda>r. st_id r = stream) (streams d) then throw (StoreFailure NoRows)
     else ret (case ctl_slates c stream of None \<Rightarrow> \<lparr>sp_on_loss = True, sp_forced = False\<rparr> | Some p \<Rightarrow> p))"

definition mediaProfile :: "'g control_env \<Rightarrow> string \<Rightarrow> ('g, media_profile) control" where
  "mediaProfile c stream = seq read_db (\<lambda>d.
     if \<not> list_ex (\<lambda>r. st_id r = stream) (streams d) then throw (StoreFailure NoRows)
     else let m = (case ctl_media c stream of None \<Rightarrow> DefaultMediaProfile | Some m \<Rightarrow> m) in
       if MediaProfile_Validate m then ret m else throw InvalidMedia)"

definition stop_session :: "'g control_env \<Rightarrow> tick \<Rightarrow> string \<Rightarrow> allocation_row option \<Rightarrow> nat \<Rightarrow> ('g, unit) control" where
  "stop_session c tk session a tok =
     seq (case a of None \<Rightarrow> ret () | Some x \<Rightarrow> remove_worker c (tk_now tk) (wa_id x) (wa_desired_generation x) tok)
       (\<lambda>_. write_db (end_session_tx (tk_now tk) session (map_option wa_id a)))"

definition stop_outputs :: "'g control_env \<Rightarrow> tick \<Rightarrow> string \<Rightarrow> allocation_row option \<Rightarrow> nat \<Rightarrow> ('g, unit) control" where
  "stop_outputs c tk session a tok =
     (case a of
        None \<Rightarrow> ret ()
      | Some x \<Rightarrow> seq (remove_worker c (tk_now tk) (wa_id x) (wa_desired_generation x) tok)
          (\<lambda>_. write_db (stop_outputs_tx (tk_now tk) session (wa_id x))))"

text \<open>The allocation of the session, placed now if it has none and the node has room.\<close>

definition place_allocation ::
  "'g control_env \<Rightarrow> tick \<Rightarrow> string \<Rightarrow> allocation_row option \<Rightarrow> nat \<Rightarrow> bool \<Rightarrow> string \<Rightarrow> resource_vector \<Rightarrow> ('g, allocation_row option) control" where
  "place_allocation c tk session a tok drain hash r w =
     (case a of
        Some x \<Rightarrow> (Inr (Some x), w)
      | None \<Rightarrow>
          if drain then (Inr None, w)
          else if node_count (ctl_NodeID c) (wdb w) \<ge> wslots w then (Inr None, w)
          else (case node_fits (ctl_NodeID c) r (wdb w) of
              Inl e \<Rightarrow> (Inl (StoreFailure e), w)
            | Inr False \<Rightarrow> (Inr None, w)
            | Inr True \<Rightarrow>
                (case insert_allocation (tk_uuid tk) (tk_now tk) session (ctl_NodeID c) tok hash r (wdb w) of
                   Inl e \<Rightarrow> (Inl (StoreFailure e), w)
                 | Inr (x, d) \<Rightarrow> (Inr (Some x), w\<lparr>wdb := d\<rparr>))))"

definition apply_config ::
  "'g control_env \<Rightarrow> tick \<Rightarrow> string \<Rightarrow> destination_row list \<Rightarrow> slate_policy \<Rightarrow> resource_vector \<Rightarrow> string \<Rightarrow> nat \<Rightarrow> allocation_row \<Rightarrow> ('g, unit) control" where
  "apply_config c tk stream dests policy r hash tok a =
     seq (destinationFiles c stream dests) (\<lambda>files.
     let cmd = control_command (tk_now tk) (wa_id a) (wa_desired_generation a) tok in
     seq (agent_call c (PutDestinations (wa_id a) (Some \<lparr>dr_Command = cmd, dr_Secrets = files, dr_Resources = r\<rparr>))) (\<lambda>_.
     seq (agent_call c (PutSlate (wa_id a) (Some \<lparr>sl_Command = cmd, sl_OnSourceLoss = sp_on_loss policy, sl_Forced = sp_forced policy\<rparr>))) (\<lambda>_.
     write_db (set_hash (tk_now tk) (wa_id a) hash))))"

definition fail_session :: "'g control_env \<Rightarrow> tick \<Rightarrow> string \<Rightarrow> nat \<Rightarrow> allocation_row \<Rightarrow> ('g, unit) control" where
  "fail_session c tk session tok a =
     seq (remove_worker c (tk_now tk) (wa_id a) (wa_desired_generation a) tok)
       (\<lambda>_. write_db (fail_session_tx (tk_now tk) session (wa_id a)))"

definition format_bool :: "bool \<Rightarrow> string" where
  "format_bool b = (if b then ''true'' else ''false'')"

definition base_environment :: "slate_policy \<Rightarrow> string \<Rightarrow> string \<Rightarrow> (string \<times> string) list" where
  "base_environment policy session source =
     [(''WORKER_FALLBACK_IMAGE'', ''/usr/local/share/streamtool/offline.png''),
      (''WORKER_SLATE_ON_SOURCE_LOSS'', format_bool (sp_on_loss policy)),
      (''WORKER_SLATE_FORCED'', format_bool (sp_forced policy)),
      (''WORKER_SESSION_ID'', session), (''WORKER_SOURCE_URL'', source), (''WORKER_SOURCE_AUTH'', ''token''),
      (''WORKER_SOURCE_TOKEN_FILE'', ''/run/secrets/source_token''),
      (''WORKER_DESTINATIONS_FILE'', ''/run/secrets/destinations.json''),
      (''WORKER_CONTROL_TOKEN_FILE'', ''/run/secrets/control_token'')]"

definition worker_environment ::
  "'g control_env \<Rightarrow> string \<Rightarrow> slate_policy \<Rightarrow> media_profile \<Rightarrow> string \<Rightarrow> (string \<times> string) option \<Rightarrow> (string \<times> string) list" where
  "worker_environment c session policy media source asset =
     AList.update ''ALLOWED_DESTINATION_HOSTS'' (ctl_AllowedHosts c)
      (AList.update ''STREAMTOOL_ENV'' (ctl_Environment c)
       (AList.update ''WORKER_MEDIA_PROFILE'' (ctl_json_media c media)
         (case asset of
            Some (kind, content) \<Rightarrow>
              if content \<noteq> [] then AList.update (if kind = ''video'' then ''WORKER_FALLBACK_VIDEO'' else ''WORKER_FALLBACK_IMAGE'')
                     ''/run/secrets/fallback_asset'' (base_environment policy session source)
              else base_environment policy session source
          | None \<Rightarrow> base_environment policy session source)))"

text \<open>The files of a start: the outputs, the clip, the token that reads the source and the worker's own token.\<close>

definition start_files ::
  "'g control_env \<Rightarrow> tick \<Rightarrow> string \<Rightarrow> string \<Rightarrow> nat \<Rightarrow> (string \<times> string) list \<Rightarrow> (string \<times> string) list" where
  "start_files c tk stream alloc generation files =
     AList.update ''control_token'' (b64_encode (ctl_codecs c) (tk_random tk))
      (AList.update ''source_token''
         (SignEdgeToken (ctl_hmac c) (ctl_codecs c)
            \<lparr>cl_StreamID = stream, cl_Action = ''read'', cl_ExpiresAt = 0, cl_AllocationID = alloc, cl_Generation = generation\<rparr> (ctl_ReadKey c))
         (case ctl_assets c stream of
            Some (_, content) \<Rightarrow> if content \<noteq> [] then AList.update ''fallback_asset'' content files else files
          | None \<Rightarrow> files))"

definition start_spec ::
  "'g control_env \<Rightarrow> string \<Rightarrow> string \<Rightarrow> slate_policy \<Rightarrow> media_profile \<Rightarrow> resource_vector \<Rightarrow> string \<Rightarrow> nat \<Rightarrow> nat \<Rightarrow> string \<Rightarrow> worker_spec" where
  "start_spec c session stream policy media r alloc generation tok source =
     \<lparr>AllocationID = alloc, spec_SessionID = session, Image = ctl_WorkerImage c, spec_NodeID = ctl_NodeID c, spec_Generation = generation,
      spec_FencingToken = tok, Environment = worker_environment c session policy media source (ctl_assets c stream),
      spec_Resources = r, Files = []\<rparr>"

definition retry_delay :: "int \<Rightarrow> duration" where
  "retry_delay restarts = 2 ^ nat (min restarts 5) * second"

definition restart_worker ::
  "'g control_env \<Rightarrow> tick \<Rightarrow> string \<Rightarrow> string \<Rightarrow> destination_row list \<Rightarrow> slate_policy \<Rightarrow> media_profile \<Rightarrow> resource_vector \<Rightarrow> string \<Rightarrow> nat \<Rightarrow>
   allocation_row \<Rightarrow> bool \<Rightarrow> ('g, unit) control" where
  "restart_worker c tk session stream dests policy media r hash tok a fresh =
     (let generation = (if fresh then wa_desired_generation a + 1 else wa_desired_generation a) in
      seq (destinationFiles c stream dests) (\<lambda>files.
      case ctl_source c stream of
        None \<Rightarrow> throw InvalidSource
      | Some source \<Rightarrow>
          seq (write_db (commit_start (tk_now tk) (wa_id a) generation hash tok (tk_now tk + retry_delay (wa_restarts a)))) (\<lambda>_.
          seq (write_db (session_starting (tk_now tk) session)) (\<lambda>_.
          seq (agent_call c (PostWorkers (Some
                 \<lparr>sr_Command = control_command (tk_now tk) (wa_id a) generation tok,
                  sr_Spec = start_spec c session stream policy media r (wa_id a) generation tok source,
                  sr_Secrets = start_files c tk stream (wa_id a) generation files\<rparr>))) (\<lambda>_. ret ())))))"

text \<open>Whether a process that does not report yet is still given time.\<close>

definition in_grace :: "time \<Rightarrow> allocation_row \<Rightarrow> worker \<Rightarrow> bool" where
  "in_grace now a w \<longleftrightarrow>
     (case wa_last_healthy a of
        None \<Rightarrow> time_sub now (StartedAt w) < 60 * second
      | Some t \<Rightarrow> time_sub now t < 30 * second)"

text \<open>A process of the expected generation, its report, and whether the agent knows a process at all.\<close>

definition adopted :: "allocation_row \<Rightarrow> worker option \<Rightarrow> bool" where
  "adopted a current \<longleftrightarrow>
     (case current of None \<Rightarrow> False | Some w \<Rightarrow> State w = RUNNING \<and> spec_Generation (Spec w) = wa_desired_generation a)"

definition healthy_report :: "allocation_row \<Rightarrow> worker option \<Rightarrow> snapshot option" where
  "healthy_report a current = (case current of None \<Rightarrow> None | Some w \<Rightarrow> if adopted a current then Report w else None)"

definition known :: "worker option \<Rightarrow> bool" where
  "known current \<longleftrightarrow> (case current of None \<Rightarrow> False | Some w \<Rightarrow> worker_ID w \<noteq> '''')"

definition drive_worker ::
  "'g control_env \<Rightarrow> tick \<Rightarrow> string \<Rightarrow> string \<Rightarrow> destination_row list \<Rightarrow> slate_policy \<Rightarrow> media_profile \<Rightarrow> resource_vector \<Rightarrow> string \<Rightarrow> nat \<Rightarrow>
   allocation_row \<Rightarrow> worker option \<Rightarrow> ('g, unit) control" where
  "drive_worker c tk session stream dests policy media r hash tok a current =
     (case healthy_report a current of
        Some rep \<Rightarrow>
          if wa_hash a = hash then exec_db (\<lambda>d. map_sum id (\<lambda>d. ((), d)) (observe (tk_now tk) (tk_order tk) session a (the current) rep d))
          else apply_config c tk stream dests policy r hash tok a
      | None \<Rightarrow>
          if tk_now tk < wa_retry_after a then ret ()
          else if adopted a current \<and> wa_hash a = hash \<and> in_grace (tk_now tk) a (the current) then ret ()
          else if wa_restarts a \<ge> 5 \<and> wa_hash a = hash then fail_session c tk session tok a
          else restart_worker c tk session stream dests policy media r hash tok a (known current \<or> wa_hash a \<noteq> hash))"

definition reconcile ::
  "'g control_env \<Rightarrow> tick \<Rightarrow> string \<Rightarrow> string \<Rightarrow> desired_state \<Rightarrow> nat \<Rightarrow> bool \<Rightarrow> ('g, unit) control" where
  "reconcile c tk session stream desired tok drain =
     seq read_db (\<lambda>d.
     let a = active_allocation session d in
     if (case a of None \<Rightarrow> False | Some x \<Rightarrow> wa_node x \<noteq> ctl_NodeID c) then ret ()
     else if desired = DesiredStopped then stop_session c tk session a tok
     else let dests = stream_destinations stream d in
       if dests = [] then stop_outputs c tk session a tok
       else seq (slatePolicy c stream) (\<lambda>policy.
         seq (mediaProfile c stream) (\<lambda>media.
         let r = resources (ctl_WorkerResources c) media (int (length dests)); hash = ctl_hash c dests policy media in
         seq (place_allocation c tk session a tok drain hash r) (\<lambda>p.
         case p of
           None \<Rightarrow> ret ()
         | Some x \<Rightarrow>
             seq (exec_db (reserveBudget (wa_id x) (ctl_NodeID c) r)) (\<lambda>ok.
             if \<not> ok then ret ()
             else seq (inspect c (wa_id x)) (\<lambda>current.
               drive_worker c tk session stream dests policy media r hash tok x current))))))"

section \<open>Reasoning about a pass\<close>

text \<open>
  \<open>runs L P m Q\<close>: started with a database that satisfies \<open>P\<close>, the computation ends, by a result or by an error, with a
  database that satisfies \<open>Q\<close>, and every request it sends satisfies \<open>L\<close> together with the database of that moment.
\<close>

definition runs :: "(request \<Rightarrow> db \<Rightarrow> bool) \<Rightarrow> (db \<Rightarrow> bool) \<Rightarrow> ('g, 'a) control \<Rightarrow> (db \<Rightarrow> bool) \<Rightarrow> bool" where
  "runs L P m Q \<longleftrightarrow>
     (\<forall>w. P (wdb w) \<longrightarrow> Q (wdb (snd (m w))) \<and> (\<exists>l. sent (snd (m w)) = sent w @ l \<and> (\<forall>(r, d) \<in> set l. L r d)))"

lemma runs_ret [intro]: "(\<And>d. P d \<Longrightarrow> Q d) \<Longrightarrow> runs L P (ret v) Q"
  and runs_throw [intro]: "(\<And>d. P d \<Longrightarrow> Q d) \<Longrightarrow> runs L P (throw e) Q"
  and runs_write: "(\<And>d. P d \<Longrightarrow> Q (f d)) \<Longrightarrow> runs L P (write_db f) Q"
  and runs_read: "(\<And>d. P d \<Longrightarrow> Q d) \<Longrightarrow> runs L P read_db Q"
  by (simp_all add: runs_def ret_def throw_def write_db_def read_db_def)

lemma runs_exec:
  assumes "\<And>d. P d \<Longrightarrow> Q d" "\<And>d v d'. P d \<Longrightarrow> f d = Inr (v, d') \<Longrightarrow> Q d'"
  shows "runs L P (exec_db f) Q"
  unfolding runs_def
proof (intro allI impI, goal_cases)
  case (1 w)
  then show "Q (wdb (snd (exec_db f w))) \<and> (\<exists>l. sent (snd (exec_db f w)) = sent w @ l \<and> (\<forall>(r, d) \<in> set l. L r d))"
    using assms by (auto simp: exec_db_def split: sum.split)
qed

lemma runs_call: "(\<And>d. P d \<Longrightarrow> L r d) \<Longrightarrow> (\<And>d. P d \<Longrightarrow> Q d) \<Longrightarrow> runs L P (agent_call c r) Q"
  by (auto simp: runs_def agent_call_def split: prod.split)

lemma runs_seq:
  assumes "runs L P m R" "\<And>v. runs L R (f v) Q" "\<And>d. R d \<Longrightarrow> Q d"
  shows "runs L P (seq m f) Q"
  unfolding runs_def
proof (intro allI impI, goal_cases)
  case (1 w)
  then obtain l where l: "R (wdb (snd (m w)))" "sent (snd (m w)) = sent w @ l" "\<forall>(r, d) \<in> set l. L r d"
    using assms(1) unfolding runs_def by blast
  show "Q (wdb (snd (seq m f w))) \<and> (\<exists>l. sent (snd (seq m f w)) = sent w @ l \<and> (\<forall>(r, d) \<in> set l. L r d))"
  proof (cases "fst (m w)")
    case (Inl e)
    then have "seq m f w = (Inl e, snd (m w))" by (cases "m w") (simp add: seq_def)
    then show ?thesis using l assms(3) by auto
  next
    case (Inr v)
    then have s: "seq m f w = f v (snd (m w))" by (cases "m w") (simp add: seq_def)
    from assms(2) [of v] l(1) obtain l' where l': "Q (wdb (snd (f v (snd (m w)))))" "sent (snd (f v (snd (m w)))) = sent (snd (m w)) @ l'"
        "\<forall>(r, d) \<in> set l'. L r d" unfolding runs_def by blast
    then show ?thesis unfolding s using l by (intro conjI exI [of _ "l @ l'"]) auto
  qed
qed

lemma runs_seq_read:
  assumes "\<And>d. P d \<Longrightarrow> runs L (\<lambda>x. x = d) (f d) Q"
  shows "runs L P (seq read_db f) Q"
  using assms by (auto simp: runs_def seq_def read_db_def)

lemma runs_weaken: "runs L P' m Q \<Longrightarrow> (\<And>d. P d \<Longrightarrow> P' d) \<Longrightarrow> runs L P m Q"
  by (auto simp: runs_def)

lemma runs_inspect: "(\<And>d. P d \<Longrightarrow> L (GetWorker i) d) \<Longrightarrow> (\<And>d. P d \<Longrightarrow> Q d) \<Longrightarrow> runs L P (inspect c i) Q"
  by (auto simp: runs_def inspect_def agent_call_def split: prod.split sum.split control_error.split response.split option.split)

section \<open>What a pass sends\<close>

text \<open>
  Every command carries the token of the pass, and a start names an allocation that the database already records as
  starting, with the generation and the token of the start.
\<close>

definition fenced :: "nat \<Rightarrow> request \<Rightarrow> bool" where
  "fenced tok r \<longleftrightarrow> (\<forall>cmd. command_of r = Some cmd \<longrightarrow> FencingToken cmd = tok)"

definition committed :: "nat \<Rightarrow> request \<Rightarrow> db \<Rightarrow> bool" where
  "committed tok r d \<longleftrightarrow>
     (\<forall>q. r = PostWorkers (Some q) \<longrightarrow>
        (\<exists>a \<in> set (allocations d). wa_id a = AllocationID (sr_Spec q) \<and> wa_desired_generation a = spec_Generation (sr_Spec q) \<and>
           wa_fence a = tok \<and> wa_state a = AllocStarting) \<and>
        spec_FencingToken (sr_Spec q) = tok \<and> ResourceID (sr_Command q) = AllocationID (sr_Spec q) \<and>
        Generation (sr_Command q) = spec_Generation (sr_Spec q))"

definition orderly :: "nat \<Rightarrow> request \<Rightarrow> db \<Rightarrow> bool" where
  "orderly tok r d \<longleftrightarrow> fenced tok r \<and> committed tok r d"

lemma orderly_simps [simp]:
  "orderly tok (DeleteWorker i (Some (control_command now i g tok))) d"
  "orderly tok (GetWorker i) d" "orderly tok GetWorkers d" "orderly tok GetHeartbeat d"
  "orderly tok (PutDraining (Some (control_command now i g tok, b))) d"
  "orderly tok (PutDestinations i (Some \<lparr>dr_Command = control_command now j g tok, dr_Secrets = fs, dr_Resources = r\<rparr>)) d"
  "orderly tok (PutSlate i (Some \<lparr>sl_Command = control_command now j g tok, sl_OnSourceLoss = b1, sl_Forced = b2\<rparr>)) d"
  by (simp_all add: orderly_def fenced_def committed_def control_command_def)

lemma runs_remove_worker: "(\<And>d. P d \<Longrightarrow> Q d) \<Longrightarrow> runs (orderly tok) P (remove_worker c now i g tok) Q"
  unfolding remove_worker_def by (rule runs_seq [where R = Q]) (auto intro: runs_call)

lemma runs_destinationFiles: "(\<And>d. P d \<Longrightarrow> Q d) \<Longrightarrow> runs L P (destinationFiles c stream dests) Q"
  unfolding destinationFiles_def by (auto split: option.split)

lemma runs_slatePolicy: "(\<And>d. P d \<Longrightarrow> Q d) \<Longrightarrow> runs L P (slatePolicy c stream) Q"
  unfolding slatePolicy_def by (rule runs_seq [where R = Q]) (auto intro: runs_read)

lemma runs_mediaProfile: "(\<And>d. P d \<Longrightarrow> Q d) \<Longrightarrow> runs L P (mediaProfile c stream) Q"
  unfolding mediaProfile_def by (rule runs_seq [where R = Q]) (auto intro: runs_read simp: Let_def)

section \<open>A reconciliation is safe and orderly\<close>

definition placed_on :: "string \<Rightarrow> db \<Rightarrow> bool" where
  "placed_on i d \<longleftrightarrow> allocation_live i d \<and> (\<exists>a \<in> set (allocations d). wa_id a = i)"

definition session_is :: "string \<Rightarrow> desired_state \<Rightarrow> db \<Rightarrow> bool" where
  "session_is i desired d \<longleftrightarrow> session_running i d \<and> (desired = DesiredStopped \<longrightarrow> session_stopping i d)"

text \<open>
  What a reconciliation of one session on one node relies on: a predicate on the database that each of its transactions
  keeps, under the condition in which the transaction is used.
\<close>

locale session_transactions =
  fixes session node :: string and good :: "db \<Rightarrow> bool"
  assumes good_ids: "good d \<Longrightarrow> distinct (map wa_id (allocations d))"
    and good_end: "good d \<Longrightarrow> session_stopping session d \<Longrightarrow> good (end_session_tx now session alloc d)"
    and good_stop: "good d \<Longrightarrow> good (stop_outputs_tx now session i d)"
    and good_fail: "good d \<Longrightarrow> session_running session d \<Longrightarrow> good (fail_session_tx now session i d)"
    and good_hash: "good d \<Longrightarrow> good (set_hash now i hash d)"
    and good_commit: "good d \<Longrightarrow> allocation_live i d \<Longrightarrow> good (commit_start now i generation hash tok retry d)"
    and good_starting: "good d \<Longrightarrow> session_running session d \<Longrightarrow> good (session_starting now session d)"
    and good_observe: "good d \<Longrightarrow> allocation_live (wa_id a) d \<Longrightarrow> observe now order session a w rep d = Inr d' \<Longrightarrow> good d'"
    and good_insert: "good d \<Longrightarrow> insert_allocation i now session node tok hash r d = Inr (a, d') \<Longrightarrow> node_fits node r d = Inr True \<Longrightarrow> good d'"
    and good_reserve: "good d \<Longrightarrow> reserveBudget i node r d = Inr (ok, d') \<Longrightarrow> good d'"
begin

lemma runs_stop_session:
  "runs (orderly tok) (\<lambda>d. good d \<and> session_stopping session d) (stop_session c tk session a tok) good"
  unfolding stop_session_def
  by (rule runs_seq [where R = "\<lambda>d. good d \<and> session_stopping session d"])
     (auto intro: runs_remove_worker runs_write good_end split: option.split)

lemma runs_stop_outputs: "runs (orderly tok) good (stop_outputs c tk session a tok) good"
proof (cases a)
  case (Some x)
  then show ?thesis unfolding stop_outputs_def
    by (simp, intro runs_seq [where R = good]) (auto intro: runs_remove_worker runs_write good_stop)
qed (auto simp: stop_outputs_def)

lemma runs_fail_session:
  "runs (orderly tok) (\<lambda>d. good d \<and> session_running session d) (fail_session c tk session tok a) good"
  unfolding fail_session_def
  by (rule runs_seq [where R = "\<lambda>d. good d \<and> session_running session d"])
     (auto intro: runs_remove_worker runs_write good_fail)

lemma runs_apply_config: "runs (orderly tok) good (apply_config c tk stream dests policy r hash tok a) good"
  unfolding apply_config_def Let_def
  by (intro runs_seq [where R = good] runs_destinationFiles runs_call runs_write) (auto intro: good_hash)

lemma runs_restart_worker:
  "runs (orderly tok) (\<lambda>d. good d \<and> session_running session d \<and> placed_on (wa_id a) d)
     (restart_worker c tk session stream dests policy media r hash tok a fresh) good"
proof -
  define gen where "gen = (if fresh then wa_desired_generation a + 1 else wa_desired_generation a)"
  define R where "R = (\<lambda>d :: db. \<exists>x \<in> set (allocations d). wa_id x = wa_id a \<and> wa_desired_generation x = gen \<and> wa_fence x = tok \<and> wa_state x = AllocStarting)"
  let ?P = "\<lambda>d. good d \<and> session_running session d \<and> placed_on (wa_id a) d"
  let ?cs = "commit_start (tk_now tk) (wa_id a) gen hash tok (tk_now tk + retry_delay (wa_restarts a))"
  have 1: "runs (orderly tok) ?P (write_db ?cs) (\<lambda>d. good d \<and> session_running session d \<and> R d)"
  proof (rule runs_write)
    fix d assume d: "?P d"
    then obtain x where "x \<in> set (allocations d)" "wa_id x = wa_id a" by (auto simp: placed_on_def)
    then have "R (?cs d)" unfolding R_def by (rule commit_start_row)
    then show "good (?cs d) \<and> session_running session (?cs d) \<and> R (?cs d)"
      using d good_commit by (auto simp: placed_on_def session_running_def commit_start_def)
  qed
  have 2: "runs (orderly tok) (\<lambda>d. good d \<and> session_running session d \<and> R d) (write_db (session_starting (tk_now tk) session))
      (\<lambda>d. good d \<and> R d)"
  proof (rule runs_write)
    fix d assume d: "good d \<and> session_running session d \<and> R d"
    have "R (session_starting (tk_now tk) session d)" using d by (simp add: R_def session_starting_def)
    then show "good (session_starting (tk_now tk) session d) \<and> R (session_starting (tk_now tk) session d)"
      using d by (auto intro: good_starting)
  qed
  have 3: "runs (orderly tok) (\<lambda>d. good d \<and> R d)
      (agent_call c (PostWorkers (Some \<lparr>sr_Command = control_command (tk_now tk) (wa_id a) gen tok,
          sr_Spec = start_spec c session stream policy media r (wa_id a) gen tok source, sr_Secrets = fs\<rparr>))) good" for source fs
    by (rule runs_call) (auto simp: orderly_def fenced_def committed_def control_command_def start_spec_def R_def)
  show ?thesis
    unfolding restart_worker_def Let_def gen_def [symmetric]
    by (intro runs_seq [where R = ?P] runs_destinationFiles; auto split: option.split;
        (intro runs_seq [OF 1] runs_seq [OF 2] runs_seq [OF 3]; auto)?)
qed

lemma runs_observe:
  "runs L (\<lambda>d. good d \<and> allocation_live (wa_id a) d)
     (exec_db (\<lambda>d. map_sum id (\<lambda>d. ((), d)) (observe now order session a w rep d))) good"
proof (rule runs_exec)
  fix d v d' assume "good d \<and> allocation_live (wa_id a) d" "map_sum id (\<lambda>d. ((), d)) (observe now order session a w rep d) = Inr (v, d')"
  then show "good d'" by (cases "observe now order session a w rep d") (auto intro: good_observe)
qed auto

lemma runs_drive_worker:
  "runs (orderly tok) (\<lambda>d. good d \<and> session_running session d \<and> placed_on (wa_id a) d)
     (drive_worker c tk session stream dests policy media r hash tok a current) good"
proof -
  let ?P = "\<lambda>d. good d \<and> session_running session d \<and> placed_on (wa_id a) d"
  have o: "runs (orderly tok) ?P (exec_db (\<lambda>d. map_sum id (\<lambda>d. ((), d)) (observe now order session a w rep d))) good"
      for now order w rep by (rule runs_weaken [OF runs_observe]) (auto simp: placed_on_def)
  have ac: "runs (orderly tok) ?P (apply_config c tk stream dests policy r hash tok a) good"
    by (rule runs_weaken [OF runs_apply_config]) auto
  have f: "runs (orderly tok) ?P (fail_session c tk session tok a) good"
    by (rule runs_weaken [OF runs_fail_session]) auto
  have r: "runs (orderly tok) ?P (ret ()) good" by auto
  show ?thesis unfolding drive_worker_def
    by (cases "healthy_report a current") (simp_all add: o ac f r runs_restart_worker)
qed

lemma placed_on_active:
  assumes "good d" "x \<in> set (allocations d)" "allocation_active x"
  shows "placed_on (wa_id x) d"
  using assms distinct_map_inj [OF good_ids [OF assms(1)]] unfolding placed_on_def allocation_live_def by blast

lemma place_allocation_cases:
  assumes "ctl_NodeID c = node" "place_allocation c tk session None tok drain hash r w = res"
  obtains "res = (Inr None, w)" | e where "res = (Inl e, w)"
    | x d' where "res = (Inr (Some x), w\<lparr>wdb := d'\<rparr>)" "node_fits node r (wdb w) = Inr True"
        "insert_allocation (tk_uuid tk) (tk_now tk) session node tok hash r (wdb w) = Inr (x, d')"
proof (cases "node_fits node r (wdb w)")
  case (Inl e)
  then show ?thesis using that(1,2) assms by (simp add: place_allocation_def split: if_splits) metis
next
  case (Inr b)
  then show ?thesis
  proof (cases "insert_allocation (tk_uuid tk) (tk_now tk) session node tok hash r (wdb w)")
    case (Inl e)
    then show ?thesis using that(1,2) assms Inr by (simp add: place_allocation_def split: if_splits bool.splits) metis
  next
    case (Inr p)
    then show ?thesis using that(1,3) assms \<open>node_fits node r (wdb w) = Inr b\<close>
      by (cases p; cases b; simp add: place_allocation_def split: if_splits; blast)
  qed
qed

lemma runs_place:
  assumes node: "ctl_NodeID c = node"
    and a: "\<And>x. a = Some x \<Longrightarrow> placed_on (wa_id x) d"
    and some: "\<And>x. runs L (\<lambda>d. good d \<and> session_running session d \<and> placed_on (wa_id x) d) (f (Some x)) good"
    and none: "runs L good (f None) good"
  shows "runs L (\<lambda>x. x = d \<and> good d \<and> session_running session d) (seq (place_allocation c tk session a tok drain hash r) f) good"
  unfolding runs_def
proof (intro allI impI, elim conjE)
  fix w :: "'a world"
  let ?ok = "\<lambda>v w'. good (wdb (snd (f v w'))) \<and> (\<exists>l. sent (snd (f v w')) = sent w' @ l \<and> (\<forall>(r, d) \<in> set l. L r d))"
  let ?m = "place_allocation c tk session a tok drain hash r"
  assume w: "wdb w = d" "good d" "session_running session d"
  have N: "?ok None w" using none w by (auto simp: runs_def)
  have S: "?ok (Some x) w'" if "good (wdb w')" "session_running session (wdb w')" "placed_on (wa_id x) (wdb w')" for x w'
    using some [of x] that by (auto simp: runs_def)
  show "good (wdb (snd (seq ?m f w))) \<and> (\<exists>l. sent (snd (seq ?m f w)) = sent w @ l \<and> (\<forall>(r, d) \<in> set l. L r d))"
  proof (cases a)
    case (Some x)
    then show ?thesis using S [of w x] a w by (simp add: seq_def place_allocation_def)
  next
    case None
    from node refl show ?thesis
    proof (rule place_allocation_cases [of c tk tok drain hash r w])
      assume "place_allocation c tk session None tok drain hash r w = (Inr None, w)"
      then show ?thesis using N None by (simp add: seq_def)
    next
      fix e assume "place_allocation c tk session None tok drain hash r w = (Inl e, w)"
      then show ?thesis using w None by (simp add: seq_def)
    next
      fix x d' assume m: "place_allocation c tk session None tok drain hash r w = (Inr (Some x), w\<lparr>wdb := d'\<rparr>)" "node_fits node r (wdb w) = Inr True"
        "insert_allocation (tk_uuid tk) (tk_now tk) session node tok hash r (wdb w) = Inr (x, d')"
      have "good d'" using good_insert w(1,2) m(2,3) by blast
      moreover have "x \<in> set (allocations d')" "allocation_active x" "sessions d' = sessions d"
        using m(3) w(1) by (auto simp: insert_allocation_def Let_def new_allocation_def allocation_active_def split: if_splits)
      ultimately show ?thesis
        using S [of "w\<lparr>wdb := d'\<rparr>" x] w(3) m(1) None placed_on_active by (simp add: seq_def session_running_def)
    qed
  qed
qed

lemma runs_reserve:
  "runs L (\<lambda>d. good d \<and> session_running session d \<and> placed_on i d) (exec_db (reserveBudget j node r))
     (\<lambda>d. good d \<and> session_running session d \<and> placed_on i d)"
proof (rule runs_exec)
  fix d ok d' assume d: "good d \<and> session_running session d \<and> placed_on i d" "reserveBudget j node r d = Inr (ok, d')"
  have "\<exists>P f. d' = d\<lparr>allocations := update_where P f (allocations d)\<rparr> \<and> (\<forall>a. wa_id (f a) = wa_id a \<and> allocation_active (f a) = allocation_active a)"
  proof -
    let ?P = "\<lambda>a. wa_id a = j \<and> wa_node a = node \<and> list_ex (\<lambda>mn. mn_id mn = node \<and> left_over node (\<lambda>b. wa_id b \<noteq> j) r mn d) (media_nodes d)"
    let ?f = "\<lambda>a. a\<lparr>wa_resources := (wa_resources a)\<lparr>CPUMillis := CPUMillis r, MemoryBytes := MemoryBytes r, IngressBPS := IngressBPS r,
        EgressBPS := EgressBPS r\<rparr>\<rparr>"
    have "d' = d\<lparr>allocations := update_where ?P ?f (allocations d)\<rparr>" using d(2) by (auto simp: reserveBudget_def Let_def split: if_splits)
    then show ?thesis by (intro exI [of _ ?P] exI [of _ ?f]) (simp add: allocation_active_def)
  qed
  then obtain P f where d': "d' = d\<lparr>allocations := update_where P f (allocations d)\<rparr>"
      "\<And>a. wa_id (f a) = wa_id a \<and> allocation_active (f a) = allocation_active a" by blast
  have "placed_on i d'" unfolding placed_on_def allocation_live_def d'(1)
  proof (intro conjI ballI impI)
    fix a assume "a \<in> set (allocations (d\<lparr>allocations := update_where P f (allocations d)\<rparr>))" "wa_id a = i"
    then show "allocation_active a" using d(1) d'(2) by (auto simp: set_update_where placed_on_def allocation_live_def)
  next
    obtain x where "x \<in> set (allocations d)" "wa_id x = i" using d(1) by (auto simp: placed_on_def)
    then show "\<exists>a \<in> set (allocations (d\<lparr>allocations := update_where P f (allocations d)\<rparr>)). wa_id a = i"
      using d'(2) by (intro bexI [of _ "if P x then f x else x"]) (auto simp: update_where_def)
  qed
  moreover have "sessions d' = sessions d" by (simp add: d')
  ultimately show "good d' \<and> session_running session d' \<and> placed_on i d'"
    using d good_reserve by (auto simp: session_running_def)
qed simp

lemma runs_reconcile:
  assumes node: "ctl_NodeID c = node"
  shows "runs (orderly tok) (\<lambda>d. good d \<and> session_is session desired d) (reconcile c tk session stream desired tok drain) good"
  unfolding reconcile_def
proof (rule runs_seq_read)
  fix d assume d: "good d \<and> session_is session desired d"
  let ?a = "active_allocation session d"
  let ?P = "\<lambda>x. x = d \<and> good d \<and> session_running session d"
  let ?M = "\<lambda>d. good d \<and> session_running session d"
  have run: "session_running session d" and g: "good d" using d by (auto simp: session_is_def)
  have placed: "placed_on (wa_id x) d" if "?a = Some x" for x
    using that g placed_on_active by (auto simp: active_allocation_def find_Some_iff)
  have W: "runs (orderly tok) (\<lambda>x. x = d) m good" if "runs (orderly tok) ?P m good" for m :: "('a, unit) control"
    using that d by (auto simp: runs_def session_is_def)
  have stop: "runs (orderly tok) ?P (stop_session c tk session ?a tok) good" if "desired = DesiredStopped"
    using that d by (intro runs_weaken [OF runs_stop_session]) (auto simp: session_is_def)
  have outs: "runs (orderly tok) ?P (stop_outputs c tk session ?a tok) good"
    by (rule runs_weaken [OF runs_stop_outputs]) auto
  have drive: "runs (orderly tok) (\<lambda>d. ?M d \<and> placed_on (wa_id x) d)
      (seq (exec_db (reserveBudget (wa_id x) (ctl_NodeID c) r)) (\<lambda>ok. if \<not> ok then ret ()
         else seq (inspect c (wa_id x)) (\<lambda>current. drive_worker c tk session stream dests policy media r hash tok x current))) good"
      for x r hash dests policy media
    unfolding node
    by (rule runs_seq [where R = "\<lambda>d. ?M d \<and> placed_on (wa_id x) d"], simp add: runs_reserve)
       (auto intro!: runs_seq [where R = "\<lambda>d. ?M d \<and> placed_on (wa_id x) d"] runs_inspect intro: runs_drive_worker)
  have place: "runs (orderly tok) ?P (seq (place_allocation c tk session ?a tok drain hash r) (\<lambda>p. case p of None \<Rightarrow> ret () | Some x \<Rightarrow>
             seq (exec_db (reserveBudget (wa_id x) (ctl_NodeID c) r)) (\<lambda>ok. if \<not> ok then ret ()
             else seq (inspect c (wa_id x)) (\<lambda>current. drive_worker c tk session stream dests policy media r hash tok x current)))) good"
      for r hash dests policy media
    using drive by (intro runs_place [OF node placed]) auto
  have rest: "runs (orderly tok) ?P (seq (slatePolicy c stream) (\<lambda>policy. seq (mediaProfile c stream) (\<lambda>media.
         let r = resources (ctl_WorkerResources c) media (int (length dests)); hash = ctl_hash c dests policy media in
         seq (place_allocation c tk session ?a tok drain hash r) (\<lambda>p. case p of None \<Rightarrow> ret () | Some x \<Rightarrow>
             seq (exec_db (reserveBudget (wa_id x) (ctl_NodeID c) r)) (\<lambda>ok. if \<not> ok then ret ()
             else seq (inspect c (wa_id x)) (\<lambda>current. drive_worker c tk session stream dests policy media r hash tok x current)))))) good"
      for dests
    unfolding Let_def
    by (intro runs_seq [where R = ?P] runs_slatePolicy runs_mediaProfile place) auto
  show "runs (orderly tok) (\<lambda>x. x = d)
      (let a = ?a in if (case a of None \<Rightarrow> False | Some x \<Rightarrow> wa_node x \<noteq> ctl_NodeID c) then ret ()
       else if desired = DesiredStopped then stop_session c tk session a tok
       else let dests = stream_destinations stream d in
         if dests = [] then stop_outputs c tk session a tok
         else seq (slatePolicy c stream) (\<lambda>policy. seq (mediaProfile c stream) (\<lambda>media.
           let r = resources (ctl_WorkerResources c) media (int (length dests)); hash = ctl_hash c dests policy media in
           seq (place_allocation c tk session a tok drain hash r) (\<lambda>p. case p of None \<Rightarrow> ret () | Some x \<Rightarrow>
               seq (exec_db (reserveBudget (wa_id x) (ctl_NodeID c) r)) (\<lambda>ok. if \<not> ok then ret ()
               else seq (inspect c (wa_id x)) (\<lambda>current. drive_worker c tk session stream dests policy media r hash tok x current)))))) good"
    using stop outs rest g by (intro W) (auto simp: Let_def [of "?a"] Let_def [of "stream_destinations stream d"])
qed

end

end
