(* ===== verification/Control_Pass.thy ===== *)
theory Control_Pass
  imports Control_Loop Maintenance_Gate
begin

text \<open>
  A whole pass of the control loop, \<^verbatim>\<open>Controller.Once\<close> of \<^verbatim>\<open>backend/internal/control/controller.go\<close>: the edge is polled
  for the publishers, the agent for its heartbeat, every active session of the region is reconciled, and workers that no
  allocation accounts for are removed. The columns \<^verbatim>\<open>unreachable_since\<close> and \<^verbatim>\<open>instance_id\<close> of the node table, which no
  modelled statement reads, are left out.
\<close>

section \<open>Polling the edge\<close>

record edge_path =
  ep_name :: string
  ep_ready :: bool
  ep_source :: "(string \<times> string) option"

record edge_page =
  pg_items :: "edge_path list"
  pg_count :: int

text \<open>The publishers of a snapshot: the path of a stream with the type and the id of its source; a later path wins.\<close>

definition admit_path :: "edge_path \<Rightarrow> (string \<times> string \<times> string) list \<Rightarrow> (string \<times> string \<times> string) list" where
  "admit_path p active =
     (case ep_source p of
        None \<Rightarrow> active
      | Some (kind, i) \<Rightarrow>
          if ep_ready p \<and> (kind = ''srtConn'' \<or> kind = ''rtmpConn'') then AList.update (ep_name p) (kind, i) active else active)"

text \<open>
  \<open>edge k\<close> is the answer to the request for page \<open>k\<close>: \<open>None\<close> when the request fails, or is refused, or does not decode.
  The loop has no bound of its own; the context of the pass ends it, here after \<open>budget\<close> requests, as a failed request.
\<close>

fun collect_pages :: "(nat \<Rightarrow> edge_page option) \<Rightarrow> nat \<Rightarrow> nat \<Rightarrow> (string \<times> string \<times> string) list \<Rightarrow> (string \<times> string \<times> string) list option" where
  "collect_pages edge 0 k active = None"
| "collect_pages edge (Suc budget) k active =
     (case edge k of
        None \<Rightarrow> None
      | Some r \<Rightarrow>
          let active = fold admit_path (pg_items r) active in
          if int k + 1 \<ge> pg_count r then Some active else collect_pages edge budget (k + 1) active)"

datatype poll_error = EdgeUnavailable | ObservationFailed store_error

definition trim_suffix :: "string \<Rightarrow> string \<Rightarrow> string" where
  "trim_suffix s suf = (if length suf \<le> length s \<and> drop (length s - length suf) s = suf then take (length s - length suf) s else s)"

record poll_env =
  po_edge :: "nat \<Rightarrow> edge_page option"
  po_budget :: nat
  po_now :: time
  po_uuids :: "string \<Rightarrow> string \<times> string"
  po_order :: "string list"

text \<open>A list of observations, each with the stream, the connection, the protocol and whether it is connected; the first failure ends it.\<close>

fun observe_list :: "poll_env \<Rightarrow> string \<Rightarrow> duration \<Rightarrow> (string \<times> string \<times> string \<times> bool) list \<Rightarrow> db \<Rightarrow> (poll_error + unit) \<times> db" where
  "observe_list e edge grace [] d = (Inr (), d)"
| "observe_list e edge grace ((stream, conn, protocol, connected) # os) d =
     (case ObserveIngest (po_uuids e stream) (po_now e) edge conn stream protocol connected (po_now e) grace None d of
        (Inl err, d') \<Rightarrow> (Inl (ObservationFailed err), d')
      | (Inr _, d') \<Rightarrow> observe_list e edge grace os d')"

text \<open>The connections that the snapshot does not show any more and that have been silent for longer than the grace.\<close>

definition missing :: "poll_env \<Rightarrow> string \<Rightarrow> duration \<Rightarrow> (string \<times> string \<times> string) list \<Rightarrow> db \<Rightarrow> (string \<times> string \<times> string \<times> bool) list" where
  "missing e edge grace active d =
     map (\<lambda>v. (ic_stream v, ic_connection v, ic_protocol v, False))
       (filter (\<lambda>v. (case map_of active (ic_stream v) of None \<Rightarrow> True | Some (_, i) \<Rightarrow> i \<noteq> ic_connection v) \<and> time_sub (po_now e) (ic_last_seen v) > grace)
         (filter (\<lambda>v. ic_edge v = edge \<and> ic_status v = Connected) (connections d)))"

definition present :: "poll_env \<Rightarrow> (string \<times> string \<times> string) list \<Rightarrow> (string \<times> string \<times> string \<times> bool) list" where
  "present e active =
     List.map_filter (\<lambda>stream. map_option (\<lambda>(kind, i). (stream, i, trim_suffix kind ''Conn'', True)) (map_of active stream)) (po_order e)"

definition pollEdge :: "poll_env \<Rightarrow> string \<Rightarrow> duration \<Rightarrow> db \<Rightarrow> (poll_error + unit) \<times> db" where
  "pollEdge e edge grace d =
     (case collect_pages (po_edge e) (po_budget e) 0 [] of
        None \<Rightarrow> (Inl EdgeUnavailable, d)
      | Some active \<Rightarrow>
          (case observe_list e edge grace (missing e edge grace active d) d of
             (Inl err, d1) \<Rightarrow> (Inl err, d1)
           | (Inr _, d1) \<Rightarrow>
               (case observe_list e edge grace (present e active) d1 of
                  (Inl err, d2) \<Rightarrow> (Inl err, d2)
                | (Inr _, d2) \<Rightarrow> (Inr (), d2\<lparr>edge_health := AList.update edge (po_now e) (edge_health d2)\<rparr>))))"

section \<open>One pass on the node\<close>

text \<open>The upsert of the node, and the update of its capacity that follows.\<close>

definition upsert_node :: "time \<Rightarrow> string \<Rightarrow> string \<Rightarrow> string \<Rightarrow> resource_vector \<Rightarrow> db \<Rightarrow> db" where
  "upsert_node now node region endpoint cap d =
     d\<lparr>media_nodes :=
        if list_ex (\<lambda>mn. mn_id mn = node) (media_nodes d)
        then update_where (\<lambda>mn. mn_id mn = node) (\<lambda>mn. mn\<lparr>mn_last_seen := now, mn_endpoint := endpoint, mn_capacity := cap\<rparr>) (media_nodes d)
        else media_nodes d @ [\<lparr>mn_id = node, mn_region = region, mn_endpoint = endpoint, mn_state = NodeActive, mn_capacity = cap,
               mn_last_seen = now, mn_generation = 1\<rparr>]\<rparr>"

definition node_draining :: "string \<Rightarrow> db \<Rightarrow> bool option" where
  "node_draining node d = map_option (\<lambda>mn. mn_state mn = media_node_state.NodeDraining) (find (\<lambda>mn. mn_id mn = node) (media_nodes d))"

definition region_sessions :: "string \<Rightarrow> db \<Rightarrow> session_row list" where
  "region_sessions region d =
     sort_key ss_started (filter (\<lambda>s. session_active s \<and> list_ex (\<lambda>r. st_id r = ss_stream s \<and> st_region r = region) (streams d)) (sessions d))"

text \<open>The reconciliation of each session; an error is logged and the next session follows.\<close>

fun reconcile_all :: "'g control_env \<Rightarrow> (string \<Rightarrow> tick) \<Rightarrow> nat \<Rightarrow> bool \<Rightarrow> session_row list \<Rightarrow> ('g, unit) control" where
  "reconcile_all c ticks tok drain [] w = (Inr (), w)"
| "reconcile_all c ticks tok drain (s # ss) w =
     reconcile_all c ticks tok drain ss (snd (reconcile c (ticks (ss_id s)) (ss_id s) (ss_stream s) (ss_desired s) tok drain w))"

text \<open>Whether the database accounts for a worker.\<close>

definition keep_worker :: "string \<Rightarrow> db \<Rightarrow> bool" where
  "keep_worker alloc d \<longleftrightarrow>
     list_ex (\<lambda>a. wa_id a = alloc \<and> wa_desired a = DesiredRunning \<and>
        list_ex (\<lambda>s. ss_id s = wa_session a \<and> ss_desired s = DesiredRunning \<and> session_active s) (sessions d)) (allocations d)"

fun remove_orphans :: "'g control_env \<Rightarrow> time \<Rightarrow> nat \<Rightarrow> worker list \<Rightarrow> ('g, unit) control" where
  "remove_orphans c now tok [] w = (Inr (), w)"
| "remove_orphans c now tok (v # vs) w =
     (if spec_NodeID (Spec v) \<noteq> ctl_NodeID c \<or> keep_worker (AllocationID (Spec v)) (wdb w) then remove_orphans c now tok vs w
      else case remove_worker c now (AllocationID (Spec v)) (spec_Generation (Spec v)) tok w of
          (Inl e, w') \<Rightarrow> (Inl e, w')
        | (Inr _, w') \<Rightarrow> remove_orphans c now tok vs w')"

definition heartbeat_of :: "'g control_env \<Rightarrow> ('g, heartbeat) control" where
  "heartbeat_of c = seq (agent_call c GetHeartbeat) (\<lambda>r. case r of RHeartbeat _ hb \<Rightarrow> ret hb | _ \<Rightarrow> throw BadReply)"

definition workers_of :: "'g control_env \<Rightarrow> ('g, worker list) control" where
  "workers_of c = seq (agent_call c GetWorkers) (\<lambda>r. case r of RMany _ ws \<Rightarrow> ret ws | _ \<Rightarrow> throw BadReply)"

text \<open>The token of the pass, moved above what the agent has already seen.\<close>

definition pass_token :: "nat \<Rightarrow> nat \<Rightarrow> ('g, nat) control" where
  "pass_token tok seen = (if seen \<ge> tok then exec_db (\<lambda>d. Inr (AdvanceFence seen d)) else ret tok)"

definition lower_slots :: "int \<Rightarrow> ('g, unit) control" where
  "lower_slots n w = (Inr (), w\<lparr>wslots := min (wslots w) n\<rparr>)"

text \<open>What follows the heartbeat, with the token of the pass.\<close>

definition run_node :: "'g control_env \<Rightarrow> time \<Rightarrow> (string \<Rightarrow> tick) \<Rightarrow> heartbeat \<Rightarrow> nat \<Rightarrow> ('g, unit) control" where
  "run_node c now ticks hb tok =
     seq (lower_slots (Slots (hb_capacity hb))) (\<lambda>_.
     seq (write_db (upsert_node now (ctl_NodeID c) (ctl_Region c) (ctl_AgentURL c) (hb_capacity hb))) (\<lambda>_.
     seq read_db (\<lambda>d.
     case node_draining (ctl_NodeID c) d of
       None \<Rightarrow> throw (StoreFailure NoRows)
     | Some drain \<Rightarrow>
         seq (agent_call c (PutDraining (Some (control_command now (ctl_NodeID c) 1 tok, drain)))) (\<lambda>_.
         seq (write_db (stop_disabled now)) (\<lambda>_.
         seq read_db (\<lambda>d.
         seq (reconcile_all c ticks tok drain (region_sessions (ctl_Region c) d)) (\<lambda>_.
         seq (workers_of c) (\<lambda>ws.
         remove_orphans c now tok ws))))))))"

definition onceNode :: "'g control_env \<Rightarrow> poll_env \<Rightarrow> (string \<Rightarrow> tick) \<Rightarrow> nat \<Rightarrow> ('g, unit) control" where
  "onceNode c e ticks tok =
     seq (write_db (\<lambda>d. snd (pollEdge e (ctl_EdgeID c) (ctl_Grace c) d))) (\<lambda>_.
     seq (heartbeat_of c) (\<lambda>hb.
     if hb_NodeID hb \<noteq> ctl_NodeID c then throw IdentityMismatch
     else seq (pass_token tok (hb_fence hb)) (\<lambda>tok'. run_node c (po_now e) ticks hb tok')))"

text \<open>A pass: it runs only while the installation admits mutations, with a token of its own.\<close>

datatype once_error = Maintenance | PassFailed control_error

definition Once :: "'g control_env \<Rightarrow> string \<Rightarrow> poll_env \<Rightarrow> (string \<Rightarrow> tick) \<Rightarrow> gate_dir \<Rightarrow> 'g world \<Rightarrow> (once_error + unit) \<times> gate_dir \<times> 'g world" where
  "Once c directory e ticks g w =
     (case Enter directory g of
        (Inl _, g') \<Rightarrow> (Inl Maintenance, g', w)
      | (Inr l, g') \<Rightarrow>
          (case NextFence (wdb w) of
             (tok, d) \<Rightarrow>
               (case onceNode c e ticks tok (w\<lparr>wdb := d\<rparr>) of
                  (r, w') \<Rightarrow> (map_sum PassFailed id r, release l g', w'))))"

section \<open>Polling keeps the invariant\<close>

text \<open>What an observation may change: the connections, and sessions without touching how far they are.\<close>

definition observation_frame :: "db \<Rightarrow> db \<Rightarrow> bool" where
  "observation_frame d d' \<longleftrightarrow> allocations d' = allocations d \<and> media_nodes d' = media_nodes d \<and> fence_counter d' = fence_counter d \<and>
     (\<forall>s \<in> set (sessions d'). session_active s \<or> s \<in> set (sessions d))"

lemma observation_frame_refl [simp]: "observation_frame d d"
  by (simp add: observation_frame_def)

lemma observation_frame_trans: "observation_frame d d' \<Longrightarrow> observation_frame d' d'' \<Longrightarrow> observation_frame d d''"
  unfolding observation_frame_def by metis

lemma observation_sessions:
  assumes "\<And>s. P s \<Longrightarrow> session_active (f s)"
  shows "observation_frame d (d\<lparr>sessions := update_where P f (sessions d)\<rparr>)"
  using assms by (auto simp: observation_frame_def set_update_where)

lemma upsert_connection_frame: "observation_frame d (snd (upsert_connection u edge conn stream protocol st seen d))"
  by (auto simp: upsert_connection_def observation_frame_def Let_def split: option.split)

lemma attach_session_frame: "observation_frame d (snd (attach_session u now stream conn d))"
proof (cases "latest (filter (\<lambda>s. ss_connection s = conn \<and> (ss_operator_stopped s \<or> \<not> session_active s)) (sessions d))")
  case None
  show ?thesis
  proof (cases "find (\<lambda>s. ss_stream s = stream \<and> session_active s \<and> \<not> ss_operator_stopped s) (sessions d)")
    case None
    then show ?thesis using \<open>latest _ = None\<close>
      by (auto simp: attach_session_def insert_session_def observation_frame_def session_active_def active_phase_def)
  next
    case (Some s)
    then show ?thesis using \<open>latest _ = None\<close>
      by (simp add: attach_session_def Let_def) (rule observation_sessions, simp add: session_active_def)
  qed
qed (simp add: attach_session_def)

lemma detach_session_frame: "observation_frame d (snd (detach_session now stream conn t d))"
  by (cases "find (\<lambda>s. ss_stream s = stream \<and> ss_connection s = conn \<and> session_active s) (sessions d)")
     (simp_all add: detach_session_def Let_def, rule observation_sessions, simp add: session_active_def)

lemma observe_tx_frame:
  assumes "observe_tx uuids now edge conn stream protocol connected seen grace h d = Inr (sid, d')"
  shows "observation_frame d d'"
proof -
  let ?u = "upsert_connection (fst uuids) edge conn stream protocol (if connected then Connected else Disconnected) seen d"
  obtain r d1 where u: "?u = (r, d1)" by fastforce
  then have 1: "observation_frame d d1" using upsert_connection_frame [of d] by (metis snd_conv)
  obtain r2 d2 where a: "attach_session (snd uuids) now stream (case r of Inr cid \<Rightarrow> cid | _ \<Rightarrow> '''') d1 = (r2, d2)" by fastforce
  then have 2: "observation_frame d1 d2" using attach_session_frame [of d1] by (metis snd_conv)
  have 3: "observation_frame d1 (snd (detach_session now stream cid t d1))" for cid t by (rule detach_session_frame)
  show ?thesis using assms 1 2 3 u a
    by (auto simp: observe_tx_def Let_def split: option.splits if_splits sum.splits intro: observation_frame_trans)
       (metis observation_frame_trans snd_conv)+
qed

lemma ObserveIngest_frame: "observation_frame d (snd (ObserveIngest uuids now e n stream protocol connected seen grace h d))"
  by (auto simp: ObserveIngest_def split: sum.split dest: observe_tx_frame)

lemma ObserveIngest_ctl_inv: "ctl_inv d \<Longrightarrow> ctl_inv (snd (ObserveIngest uuids now e n stream protocol connected seen grace h d))"
  using ObserveIngest_frame [of d uuids now e n stream protocol connected seen grace h]
    ObserveIngest_inv [of d uuids now e n stream protocol connected seen grace h]
  unfolding ctl_inv_def observation_frame_def by metis

lemma observe_list_keeps:
  "ctl_inv d \<Longrightarrow> ctl_inv (snd (observe_list e edge grace os d)) \<and> observation_frame d (snd (observe_list e edge grace os d))"
proof (induction os arbitrary: d)
  case (Cons ob os)
  obtain stream conn protocol connected where o: "ob = (stream, conn, protocol, connected)" by (cases ob) auto
  let ?o = "ObserveIngest (po_uuids e stream) (po_now e) edge conn stream protocol connected (po_now e) grace None d"
  have 1: "ctl_inv (snd ?o)" "observation_frame d (snd ?o)" using Cons.prems by (auto intro: ObserveIngest_ctl_inv ObserveIngest_frame)
  obtain r d' where r: "?o = (r, d')" by fastforce
  show ?case
  proof (cases r)
    case (Inl err)
    then show ?thesis using 1 r o by simp
  next
    case (Inr v)
    then show ?thesis using 1 r o Cons.IH [of d'] by (auto intro: observation_frame_trans)
  qed
qed simp

lemma pollEdge_keeps:
  assumes "ctl_inv d"
  shows "ctl_inv (snd (pollEdge e edge grace d)) \<and> observation_frame d (snd (pollEdge e edge grace d))"
proof (cases "collect_pages (po_edge e) (po_budget e) 0 []")
  case (Some active)
  obtain r1 d1 where 1: "observe_list e edge grace (missing e edge grace active d) d = (r1, d1)" by fastforce
  then have k1: "ctl_inv d1" "observation_frame d d1" using observe_list_keeps [OF assms] by (metis snd_conv)+
  obtain r2 d2 where 2: "observe_list e edge grace (present e active) d1 = (r2, d2)" by fastforce
  then have k2: "ctl_inv d2" "observation_frame d d2"
    using observe_list_keeps [OF k1(1)] observation_frame_trans [OF k1(2)] by (metis snd_conv)+
  have h: "ctl_inv (d2\<lparr>edge_health := x\<rparr>) = ctl_inv d2" "observation_frame d (d2\<lparr>edge_health := x\<rparr>) = observation_frame d d2" for x
    by (simp_all add: ctl_inv_def observation_frame_def)
  show ?thesis using k1 k2 by (cases r1; cases r2) (simp_all add: pollEdge_def Some 1 2 h)
qed (use assms in \<open>simp add: pollEdge_def\<close>)

section \<open>The transactions of a session leave the others alone\<close>

definition others :: "string \<Rightarrow> db \<Rightarrow> session_row list" where
  "others i d = filter (\<lambda>s. ss_id s \<noteq> i) (sessions d)"

lemma filter_update_where_other: "(\<And>s. P s \<Longrightarrow> \<not> Q s \<and> \<not> Q (f s)) \<Longrightarrow> filter Q (update_where P f xs) = filter Q xs"
  by (induction xs) auto

lemma others_updated:
  "(\<And>s. P s \<Longrightarrow> ss_id s = i) \<Longrightarrow> (\<And>s. ss_id (f s) = ss_id s) \<Longrightarrow> filter (\<lambda>s. ss_id s \<noteq> i) (update_where P f xs) = filter (\<lambda>s. ss_id s \<noteq> i) xs"
  by (rule filter_update_where_other) auto

lemma transactions_others [simp]:
  "others session (end_session_tx now session alloc d) = others session d"
  "others session (stop_outputs_tx now session i d) = others session d"
  "others session (fail_session_tx now session i d) = others session d"
  "others session (set_hash now i hash d) = others session d"
  "others session (commit_start now i generation hash tok retry d) = others session d"
  "others session (session_starting now session d) = others session d"
  by (simp_all add: others_def end_session_tx_def stop_outputs_tx_def fail_session_tx_def set_hash_def commit_start_def session_starting_def
      others_updated [where P = "\<lambda>s. ss_id s = session"] others_updated [where P = "\<lambda>s. ss_id s = session \<and> ss_desired s = DesiredRunning"])

lemma transactions_fence [simp]:
  "fence_counter (end_session_tx now session alloc d) = fence_counter d"
  "fence_counter (stop_outputs_tx now session i d) = fence_counter d"
  "fence_counter (fail_session_tx now session i d) = fence_counter d"
  "fence_counter (set_hash now i hash d) = fence_counter d"
  "fence_counter (commit_start now i generation hash tok retry d) = fence_counter d"
  "fence_counter (session_starting now session d) = fence_counter d"
  "fence_counter (stop_disabled now d) = fence_counter d"
  by (simp_all add: end_session_tx_def stop_outputs_tx_def fail_session_tx_def set_hash_def commit_start_def session_starting_def stop_disabled_def)

lemma observe_frame:
  assumes "observe now order session a w rep d = Inr d'"
  shows "others session d' = others session d" "fence_counter d' = fence_counter d"
proof -
  define phase where "phase = (if snap_InputLive rep \<or> snap_FallbackActive rep \<or> snap_InputUnavailable rep then Live else Starting)"
  obtain x y where "d' = d\<lparr>allocations := x, sessions := update_where (\<lambda>s. ss_id s = session \<and> ss_desired s = DesiredRunning)
      (\<lambda>s. s\<lparr>ss_phase := phase, ss_updated := now\<rparr>) (sessions d), runtimes := y\<rparr>"
    using assms observe_fold_frame [of now "wa_id a" session "snap_Destinations rep" order]
    unfolding observe_def Let_def phase_def [symmetric] by (auto split: if_splits)
  then show "others session d' = others session d" "fence_counter d' = fence_counter d"
    by (simp_all add: others_def others_updated [where P = "\<lambda>s. ss_id s = session \<and> ss_desired s = DesiredRunning"])
qed

lemma insert_allocation_frame:
  "insert_allocation i now session node tok hash r d = Inr (a, d') \<Longrightarrow> sessions d' = sessions d \<and> others j d' = others j d \<and> fence_counter d' = fence_counter d"
  by (auto simp: others_def insert_allocation_def Let_def split: if_splits)

lemma reserveBudget_frame: "reserveBudget i node r d = Inr (ok, d') \<Longrightarrow> sessions d' = sessions d \<and> others j d' = others j d \<and> fence_counter d' = fence_counter d"
  by (auto simp: others_def reserveBudget_def Let_def split: if_splits)

interpretation reconciled: session_transactions session node "\<lambda>d. safe node d0 d \<and> others session d = rest \<and> fence_counter d = n"
  for session node d0 rest n
proof unfold_locales
  show "distinct (map wa_id (allocations d))" if "safe node d0 d \<and> others session d = rest \<and> fence_counter d = n" for d
    using that ctl_invD(2) by (auto simp: safe_def)
qed (auto intro: end_session_tx_safe stop_outputs_tx_safe fail_session_tx_safe set_hash_safe commit_start_safe session_starting_safe
      observe_safe insert_allocation_safe(1) reserveBudget_safe(1) simp: observe_frame
      dest: insert_allocation_frame [where j = session] reserveBudget_frame [where j = session])

section \<open>A pass is safe and orderly\<close>

lemma runsD:
  assumes "runs L P m Q" "P (wdb w)"
  shows "\<exists>l. Q (wdb (snd (m w))) \<and> sent (snd (m w)) = sent w @ l \<and> (\<forall>(r, d) \<in> set l. L r d)"
  using assms unfolding runs_def by blast

lemma session_is_others:
  assumes "others i d' = others i d" "j \<noteq> i" "session_is j desired d"
  shows "session_is j desired d'"
proof -
  have "s \<in> set (sessions d)" if "s \<in> set (sessions d')" "ss_id s = j" for s
  proof -
    have "s \<in> set (others i d')" using that assms(2) by (simp add: others_def)
    then show ?thesis unfolding assms(1) by (simp add: others_def)
  qed
  then show ?thesis using assms(3) by (auto simp: session_is_def session_running_def session_stopping_def)
qed

lemma runs_reconcile_all:
  assumes "distinct (map ss_id ss)"
  shows "runs (orderly tok) (\<lambda>d. safe (ctl_NodeID c) d0 d \<and> fence_counter d = n \<and> (\<forall>s \<in> set ss. session_is (ss_id s) (ss_desired s) d))
     (reconcile_all c ticks tok drain ss) (\<lambda>d. safe (ctl_NodeID c) d0 d \<and> fence_counter d = n)"
  using assms
proof (induction ss)
  case Nil
  then show ?case by (simp add: runs_def)
next
  case (Cons s ss)
  let ?good = "\<lambda>d. safe (ctl_NodeID c) d0 d \<and> fence_counter d = n"
  let ?rec = "reconcile c (ticks (ss_id s)) (ss_id s) (ss_stream s) (ss_desired s) tok drain"
  show ?case unfolding runs_def
  proof (intro allI impI, elim conjE)
    fix w :: "'a world"
    assume w: "safe (ctl_NodeID c) d0 (wdb w)" "fence_counter (wdb w) = n" "\<forall>s' \<in> set (s # ss). session_is (ss_id s') (ss_desired s') (wdb w)"
    define w1 where "w1 = snd (?rec w)"
    have "runs (orderly tok) (\<lambda>d. (safe (ctl_NodeID c) d0 d \<and> others (ss_id s) d = others (ss_id s) (wdb w) \<and> fence_counter d = n) \<and>
        session_is (ss_id s) (ss_desired s) d) ?rec
        (\<lambda>d. safe (ctl_NodeID c) d0 d \<and> others (ss_id s) d = others (ss_id s) (wdb w) \<and> fence_counter d = n)"
      by (rule reconciled.runs_reconcile) (rule refl)
    from runsD [OF this, of w] obtain l1 where 1: "?good (wdb w1)" "others (ss_id s) (wdb w1) = others (ss_id s) (wdb w)"
        "sent w1 = sent w @ l1" "\<forall>(r, d) \<in> set l1. orderly tok r d"
      using w unfolding w1_def by auto
    have rest: "session_is (ss_id s') (ss_desired s') (wdb w1)" if "s' \<in> set ss" for s'
    proof (rule session_is_others [OF 1(2)])
      show "ss_id s' \<noteq> ss_id s" using that Cons.prems by (auto simp: image_iff)
      show "session_is (ss_id s') (ss_desired s') (wdb w)" using that w(3) by simp
    qed
    have "distinct (map ss_id ss)" using Cons.prems by simp
    from runsD [OF Cons.IH [OF this], of w1] obtain l2 where 2: "?good (wdb (snd (reconcile_all c ticks tok drain ss w1)))"
        "sent (snd (reconcile_all c ticks tok drain ss w1)) = sent w1 @ l2" "\<forall>(r, d) \<in> set l2. orderly tok r d"
      using 1(1) rest by auto
    then show "?good (wdb (snd (reconcile_all c ticks tok drain (s # ss) w))) \<and>
        (\<exists>l. sent (snd (reconcile_all c ticks tok drain (s # ss) w)) = sent w @ l \<and> (\<forall>(r, d) \<in> set l. orderly tok r d))"
      unfolding reconcile_all.simps w1_def [symmetric] using 1(3,4) by (intro conjI exI [of _ "l1 @ l2"]) auto
  qed
qed

lemma runs_remove_orphans: "runs (orderly tok) P (remove_orphans c now tok ws) P"
proof (induction ws)
  case Nil
  show ?case by (simp add: runs_def)
next
  case (Cons v ws)
  let ?i = "AllocationID (Spec v)"
  have step: "runs (orderly tok) P (seq (remove_worker c now ?i (spec_Generation (Spec v)) tok) (\<lambda>_. remove_orphans c now tok ws)) P"
    by (rule runs_seq [OF runs_remove_worker [where Q = P] Cons.IH]) auto
  have "remove_orphans c now tok (v # ws) w =
      (if spec_NodeID (Spec v) \<noteq> ctl_NodeID c \<or> keep_worker ?i (wdb w) then remove_orphans c now tok ws w
       else seq (remove_worker c now ?i (spec_Generation (Spec v)) tok) (\<lambda>_. remove_orphans c now tok ws) w)" for w
    by (auto simp: seq_def split: prod.split sum.split)
  then show ?case using step Cons.IH by (simp add: runs_def)
qed

lemma runs_heartbeat_of: "runs (orderly tok) P (heartbeat_of c) P"
  unfolding heartbeat_of_def by (rule runs_seq [where R = P]) (auto intro!: runs_call split: response.split)

lemma runs_workers_of: "runs (orderly tok) P (workers_of c) P"
  unfolding workers_of_def by (rule runs_seq [where R = P]) (auto intro!: runs_call split: response.split)

lemma runs_seq_write: "runs L (\<lambda>x. x = f d) (g ()) Q \<Longrightarrow> runs L (\<lambda>x. x = d) (seq (write_db f) g) Q"
proof -
  assume g: "runs L (\<lambda>x. x = f d) (g ()) Q"
  have "seq (write_db f) g w = g () (w\<lparr>wdb := f (wdb w)\<rparr>)" for w by (simp add: seq_def write_db_def)
  then show ?thesis using runsD [OF g, of "_ \<lparr>wdb := f d\<rparr>"] unfolding runs_def by simp
qed

lemma runs_seq_slots: "runs L P (g ()) Q \<Longrightarrow> runs L P (seq (lower_slots n) g) Q"
proof -
  assume g: "runs L P (g ()) Q"
  have "seq (lower_slots n) g w = g () (w\<lparr>wslots := min (wslots w) n\<rparr>)" for w by (simp add: seq_def lower_slots_def)
  then show ?thesis using runsD [OF g, of "_ \<lparr>wslots := _\<rparr>"] unfolding runs_def by simp
qed

lemma upsert_node_inv:
  assumes "ctl_inv d"
  shows "ctl_inv (upsert_node now node region endpoint cap d)"
proof -
  have "map mn_id (update_where (\<lambda>mn. mn_id mn = node) (\<lambda>mn. mn\<lparr>mn_last_seen := now, mn_endpoint := endpoint, mn_capacity := cap\<rparr>) (media_nodes d))
      = map mn_id (media_nodes d)" by (rule map_update_where) simp
  then show ?thesis using assms by (auto simp: ctl_inv_def upsert_node_def list_ex_iff)
qed

lemma region_sessions_is:
  assumes "ctl_inv d" "s \<in> set (region_sessions region d)"
  shows "session_is (ss_id s) (ss_desired s) d"
proof -
  have s: "s \<in> set (sessions d)" "session_active s" using assms(2) by (auto simp: region_sessions_def)
  have "x = s" if "x \<in> set (sessions d)" "ss_id x = ss_id s" for x
    by (rule distinct_map_inj [OF db_invD(2) [OF ctl_invD(1) [OF assms(1)]] that(1) s(1) that(2)])
  then show ?thesis using s by (auto simp: session_is_def session_running_def session_stopping_def)
qed

lemma region_sessions_distinct: "ctl_inv d \<Longrightarrow> distinct (map ss_id (region_sessions region d))"
  using db_invD(2) [OF ctl_invD(1)] by (auto simp: region_sessions_def distinct_map inj_on_def)

lemma runs_run_node:
  assumes "ctl_inv d" "fence_counter d = n"
    and d0_def: "d0 = upsert_node now (ctl_NodeID c) (ctl_Region c) (ctl_AgentURL c) (hb_capacity hb) d"
  shows "runs (orderly tok) (\<lambda>x. x = d) (run_node c now ticks hb tok) (\<lambda>d. safe (ctl_NodeID c) d0 d \<and> fence_counter d = n)"
proof -
  let ?Q = "\<lambda>d. safe (ctl_NodeID c) d0 d \<and> fence_counter d = n"
  have d0: "?Q d0" using upsert_node_inv assms by (simp add: safe_def d0_def) (simp add: upsert_node_def)
  have last: "runs (orderly tok) ?Q (seq (workers_of c) (remove_orphans c now tok)) ?Q"
    by (rule runs_seq [OF runs_workers_of runs_remove_orphans])
  have rec: "runs (orderly tok) ?Q (seq read_db (\<lambda>d. seq (reconcile_all c ticks tok drain (region_sessions (ctl_Region c) d)) (\<lambda>_.
        seq (workers_of c) (remove_orphans c now tok)))) ?Q" for drain
  proof (rule runs_seq_read)
    fix d assume d: "?Q d"
    then have "ctl_inv d" by (simp add: safe_def)
    then have "runs (orderly tok) (\<lambda>x. x = d) (reconcile_all c ticks tok drain (region_sessions (ctl_Region c) d)) ?Q"
      using d by (intro runs_weaken [OF runs_reconcile_all [OF region_sessions_distinct]]) (auto intro: region_sessions_is)
    then show "runs (orderly tok) (\<lambda>x. x = d) (seq (reconcile_all c ticks tok drain (region_sessions (ctl_Region c) d)) (\<lambda>_.
        seq (workers_of c) (remove_orphans c now tok))) ?Q"
      by (rule runs_seq) (auto intro: last)
  qed
  have stop: "runs (orderly tok) ?Q (write_db (stop_disabled now)) ?Q"
    by (rule runs_write) (auto intro: stop_disabled_safe)
  have drain: "runs (orderly tok) ?Q (agent_call c (PutDraining (Some (control_command now (ctl_NodeID c) 1 tok, b)))) ?Q" for b
    by (rule runs_call) auto
  show ?thesis unfolding run_node_def
  proof (intro runs_seq_slots runs_seq_write runs_seq_read, fold d0_def)
    fix d assume "d = d0"
    then have d: "?Q d" using d0 by simp
    have "runs (orderly tok) ?Q (case node_draining (ctl_NodeID c) d of None \<Rightarrow> throw (StoreFailure NoRows)
     | Some drain \<Rightarrow>
         seq (agent_call c (PutDraining (Some (control_command now (ctl_NodeID c) 1 tok, drain)))) (\<lambda>_.
         seq (write_db (stop_disabled now)) (\<lambda>_.
         seq read_db (\<lambda>d.
         seq (reconcile_all c ticks tok drain (region_sessions (ctl_Region c) d)) (\<lambda>_.
         seq (workers_of c) (\<lambda>ws. remove_orphans c now tok ws)))))) ?Q"
    proof (cases "node_draining (ctl_NodeID c) d")
      case None
      then show ?thesis by auto
    next
      case (Some b)
      show ?thesis unfolding Some option.case
        by (rule runs_seq [OF drain], rule runs_seq [OF stop], rule rec, assumption, assumption)
    qed
    then show "runs (orderly tok) (\<lambda>x. x = d) (case node_draining (ctl_NodeID c) d of None \<Rightarrow> throw (StoreFailure NoRows)
     | Some drain \<Rightarrow>
         seq (agent_call c (PutDraining (Some (control_command now (ctl_NodeID c) 1 tok, drain)))) (\<lambda>_.
         seq (write_db (stop_disabled now)) (\<lambda>_.
         seq read_db (\<lambda>d.
         seq (reconcile_all c ticks tok drain (region_sessions (ctl_Region c) d)) (\<lambda>_.
         seq (workers_of c) (\<lambda>ws. remove_orphans c now tok ws)))))) ?Q"
      by (rule runs_weaken) (use d in auto)
  qed
qed

text \<open>
  How a pass ends: the invariant holds, the node is not loaded beyond what it was or its capacity, and the requests are
  orderly for a token above every earlier one, which is the counter of the database afterwards.
\<close>

definition pass_result :: "string \<Rightarrow> db \<Rightarrow> (request \<times> db) list \<Rightarrow> db \<Rightarrow> bool" where
  "pass_result node d l d' \<longleftrightarrow> ctl_inv d' \<and>
     (\<forall>mn \<in> set (media_nodes d'). mn_id mn = node \<longrightarrow>
        (\<forall>f \<in> set budget_dims. load_of f (on_node node) d' \<le> max (load_of f (on_node node) d) (f (mn_capacity mn)))) \<and>
     fence_counter d < fence_counter d' \<and> (\<forall>(r, x) \<in> set l. orderly (fence_counter d') r x)"

lemma observation_load: "observation_frame d d' \<Longrightarrow> load_of f P d' = load_of f P d"
  by (simp add: observation_frame_def load_of_def)

lemma fence_only [simp]: "ctl_inv (d\<lparr>fence_counter := n\<rparr>) = ctl_inv d" "load_of f P (d\<lparr>fence_counter := n\<rparr>) = load_of f P d"
  by (simp_all add: ctl_inv_def load_of_def)

lemma onceNode_result:
  assumes inv: "ctl_inv d" and w: "wdb w = d\<lparr>fence_counter := tok\<rparr>" "fence_counter d < tok"
  shows "\<exists>l. sent (snd (onceNode c e ticks tok w)) = sent w @ l \<and> pass_result (ctl_NodeID c) d l (wdb (snd (onceNode c e ticks tok w)))"
proof -
  define d1 where "d1 = snd (pollEdge e (ctl_EdgeID c) (ctl_Grace c) (wdb w))"
  define w1 where "w1 = w\<lparr>wdb := d1\<rparr>"
  have d1: "ctl_inv d1" "observation_frame (d\<lparr>fence_counter := tok\<rparr>) d1"
    using pollEdge_keeps [of "wdb w" e "ctl_EdgeID c" "ctl_Grace c"] inv w(1) by (auto simp: d1_def)
  then have l1: "fence_counter d1 = tok" "load_of f P d1 = load_of f P d" for f P
    using observation_load [OF d1(2), of f P] by (auto simp: observation_frame_def)
  obtain r2 w2 where h: "heartbeat_of c w1 = (r2, w2)" by fastforce
  obtain l2 where 2: "wdb w2 = d1" "sent w2 = sent w @ l2" "\<forall>t. \<forall>(r, x) \<in> set l2. orderly t r x"
  proof -
    have hb: "\<exists>l. wdb w2 = d1 \<and> sent w2 = sent w @ l \<and> (\<forall>(r, x) \<in> set l. orderly t r x)" for t
      using runsD [OF runs_heartbeat_of [where P = "\<lambda>x. x = d1" and c = c], of w1 t] h by (simp add: w1_def)
    then obtain l where "wdb w2 = d1" "sent w2 = sent w @ l" by blast
    moreover have "\<forall>(r, x) \<in> set l. orderly t r x" for t using hb [of t] calculation(2) by auto
    ultimately show thesis using that by blast
  qed
  have early: "pass_result (ctl_NodeID c) d l2 d1" using d1(1) l1 w(2) 2(3) by (simp add: pass_result_def)
  have eq: "onceNode c e ticks tok w = (case r2 of Inl err \<Rightarrow> (Inl err, w2) | Inr hb \<Rightarrow>
      (if hb_NodeID hb \<noteq> ctl_NodeID c then throw IdentityMismatch
       else seq (pass_token tok (hb_fence hb)) (\<lambda>tok'. run_node c (po_now e) ticks hb tok')) w2)"
    by (auto simp: onceNode_def seq_def write_db_def h d1_def [symmetric] w1_def [symmetric] split: sum.split)
  show ?thesis
  proof (cases "\<exists>hb. r2 = Inr hb \<and> hb_NodeID hb = ctl_NodeID c")
    case False
    then show ?thesis using early 2(1,2) unfolding eq by (auto simp: throw_def split: sum.split)
  next
    case True
    then obtain hb where hb: "r2 = Inr hb" "hb_NodeID hb = ctl_NodeID c" by blast
    define t where "t = (if hb_fence hb \<ge> tok then max tok (hb_fence hb) + 1 else tok)"
    define w3 where "w3 = w2\<lparr>wdb := d1\<lparr>fence_counter := t\<rparr>\<rparr>"
    have "pass_token tok (hb_fence hb) w2 = (Inr t, w3)"
      using l1(1) 2(1) by (auto simp: pass_token_def exec_db_def ret_def AdvanceFence_def Let_def t_def w3_def)
    then have once: "onceNode c e ticks tok w = run_node c (po_now e) ticks hb t w3" unfolding eq using hb by (simp add: seq_def)
    define d3 where "d3 = upsert_node (po_now e) (ctl_NodeID c) (ctl_Region c) (ctl_AgentURL c) (hb_capacity hb) (d1\<lparr>fence_counter := t\<rparr>)"
    have "runs (orderly t) (\<lambda>x. x = d1\<lparr>fence_counter := t\<rparr>) (run_node c (po_now e) ticks hb t) (\<lambda>d. safe (ctl_NodeID c) d3 d \<and> fence_counter d = t)"
      by (rule runs_run_node [OF _ _ d3_def]) (use d1(1) in simp_all)
    from runsD [OF this, of w3] obtain l where l: "safe (ctl_NodeID c) d3 (wdb (snd (run_node c (po_now e) ticks hb t w3)))"
        "fence_counter (wdb (snd (run_node c (po_now e) ticks hb t w3))) = t"
        "sent (snd (run_node c (po_now e) ticks hb t w3)) = sent w @ l2 @ l" "\<forall>(r, x) \<in> set l. orderly t r x"
      using 2(2) by (auto simp: w3_def)
    have "load_of f P d3 = load_of f P d" for f P using l1(2) by (simp add: d3_def upsert_node_def load_of_def)
    then have "pass_result (ctl_NodeID c) d (l2 @ l) (wdb (snd (run_node c (po_now e) ticks hb t w3)))"
      using l w(2) 2(3) unfolding pass_result_def safe_def bounded_by_def by (auto simp: t_def)
    then show ?thesis unfolding once using l(3) by blast
  qed
qed

lemma Once_result:
  assumes "ctl_inv (wdb w)" "Once c directory e ticks g w = (r, g', w')"
  shows "(w' = w \<and> r = Inl Maintenance) \<or> (\<exists>l. sent w' = sent w @ l \<and> pass_result (ctl_NodeID c) (wdb w) l (wdb w'))"
proof (cases "Enter directory g")
  case (Pair a g1)
  show ?thesis
  proof (cases a)
    case (Inl b)
    then show ?thesis using assms(2) Pair by (simp add: Once_def)
  next
    case (Inr l)
    let ?w = "w\<lparr>wdb := (wdb w)\<lparr>fence_counter := fence_counter (wdb w) + 1\<rparr>\<rparr>"
    have "w' = snd (onceNode c e ticks (fence_counter (wdb w) + 1) ?w)"
      using assms(2) Inr Pair by (simp add: Once_def NextFence_def split: prod.splits)
    moreover have "sent ?w = sent w" by simp
    ultimately show ?thesis
      using onceNode_result [OF assms(1), of ?w "fence_counter (wdb w) + 1" c e ticks] by simp
  qed
qed

section \<open>Properties\<close>

text \<open>C4: A pass of the control loop keeps the tables consistent: identities are unique, a session has at most one active
  allocation, reservations are not negative and an ended session is not wanted; and no budget of the node (CPU, memory,
  ingress, egress) is reserved beyond what was reserved before or the capacity that the node has reported, whichever is
  larger. This holds whatever the agent and the edge answer, and wherever the pass fails.\<close>

theorem pass_keeps_budget:
  assumes "ctl_inv (wdb w)" "Once c directory e ticks g w = (r, g', w')"
    and "mn \<in> set (media_nodes (wdb w'))" "mn_id mn = ctl_NodeID c" "f \<in> {CPUMillis, MemoryBytes, IngressBPS, EgressBPS}"
  shows "ctl_inv (wdb w') \<and>
    load_of f (on_node (ctl_NodeID c)) (wdb w') \<le> max (load_of f (on_node (ctl_NodeID c)) (wdb w)) (f (mn_capacity mn))"
  using Once_result [OF assms(1,2)] assms(1,3-) by (auto simp: pass_result_def budget_dims_def)

text \<open>C3: Every command of a pass carries the same fencing token, which is above the token of every earlier pass; and a
  worker is only asked to start when the database, at that moment, already records the allocation as starting with the
  generation and the token of the request. So a start whose answer is lost is found again by the next pass.\<close>

theorem pass_commands_are_fenced:
  assumes "ctl_inv (wdb w)" "Once c directory e ticks g w = (r, g', w')"
  shows "\<exists>l. sent w' = sent w @ l \<and> (l \<noteq> [] \<longrightarrow> fence_counter (wdb w) < fence_counter (wdb w')) \<and>
    (\<forall>(q, d) \<in> set l.
       (\<forall>cmd. command_of q = Some cmd \<longrightarrow> FencingToken cmd = fence_counter (wdb w')) \<and>
       (\<forall>s. q = PostWorkers (Some s) \<longrightarrow>
          (\<exists>a \<in> set (allocations d). wa_id a = AllocationID (sr_Spec s) \<and> wa_desired_generation a = spec_Generation (sr_Spec s) \<and>
             wa_fence a = fence_counter (wdb w') \<and> wa_state a = AllocStarting) \<and>
          spec_FencingToken (sr_Spec s) = fence_counter (wdb w')))"
  using Once_result [OF assms]
proof (elim disjE exE conjE)
  fix l assume l: "sent w' = sent w @ l" "pass_result (ctl_NodeID c) (wdb w) l (wdb w')"
  have o: "orderly (fence_counter (wdb w')) q d" if "(q, d) \<in> set l" for q d using l(2) that by (auto simp: pass_result_def)
  show ?thesis
    using l o by (intro exI [of _ l]) (auto simp: pass_result_def orderly_def fenced_def committed_def)
qed simp

section \<open>A pass on a concrete node\<close>

definition demo_env :: "unit control_env" where
  "demo_env = \<lparr>ctl_NodeID = ''n1'', ctl_Region = ''eu'', ctl_AgentURL = ''https://n1'', ctl_WorkerImage = ''worker'', ctl_EdgeID = ''edge'',
     ctl_Environment = ''production'', ctl_AllowedHosts = '''', ctl_ReadKey = ''key'', ctl_Grace = 30 * second, ctl_WorkerResources = rv_zero,
     ctl_agent = (\<lambda>r g. (Some (case r of
          GetHeartbeat \<Rightarrow> RHeartbeat 200 \<lparr>hb_NodeID = ''n1'', hb_fence = 7, hb_draining = False,
             hb_capacity = \<lparr>Slots = 1, CPUMillis = 4000, MemoryBytes = 2 ^ 31, IngressBPS = 100000000, EgressBPS = 100000000\<rparr>, hb_used = rv_zero\<rparr>
        | GetWorkers \<Rightarrow> RMany 200 [] | GetWorker _ \<Rightarrow> Status 404 | _ \<Rightarrow> Status 200), g)),
     ctl_slates = Map.empty, ctl_media = Map.empty, ctl_assets = Map.empty, ctl_hash = (\<lambda>ds p m. concat (map de_id ds)),
     ctl_decrypt = (\<lambda>d context. Some (de_ciphertext d)), ctl_json_documents = (\<lambda>ds. concat (map doc_id ds)), ctl_json_media = (\<lambda>m. ''{}''),
     ctl_source = (\<lambda>s. Some (''srt://edge?streamid=read:'' @ s)), ctl_hmac = (\<lambda>k m. k @ m),
     ctl_codecs = \<lparr>b64_encode = id, b64_decode = Some, json_encode = cl_StreamID, json_decode = (\<lambda>_. None)\<rparr>\<rparr>"

definition demo_pass_db :: db where
  "demo_pass_db = demo_db2\<lparr>destinations := [\<lparr>de_id = ''d1'', de_stream = ''st'', de_name = ''out'', de_endpoint = ''rtmp://live'', de_key = ''k'',
     de_enabled = True, de_archived = False, de_generation = 1, de_ciphertext = ''secret'', de_nonce = '''', de_updated = 0\<rparr>]\<rparr>"

definition demo_poll :: poll_env where
  "demo_poll = \<lparr>po_edge = (\<lambda>_. None), po_budget = 10, po_now = 100 * second, po_uuids = (\<lambda>_. (''c9'', ''s9'')), po_order = []\<rparr>"

definition demo_ticks :: "string \<Rightarrow> tick" where
  "demo_ticks _ = \<lparr>tk_now = 100 * second, tk_uuid = ''a1'', tk_random = ''random'', tk_order = []\<rparr>"

definition demo_world :: "unit world" where
  "demo_world = \<lparr>wdb = demo_pass_db, wagent = (), wslots = 1, sent = []\<rparr>"

definition demo_gate :: gate_dir where
  "demo_gate = \<lparr>lock_file = True, exclusive = False, shared = 0, marker = LAbsent\<rparr>"

lemma demo_pass_requests:
  "map (\<lambda>(q, d). map_option FencingToken (command_of q)) (sent (snd (snd (Once demo_env ''/m'' demo_poll demo_ticks demo_gate demo_world))))
     = [None, Some 8, None, Some 8, None]"
  by code_simp

lemma demo_pass_node:
  "map (\<lambda>mn. (mn_id mn, CPUMillis (mn_capacity mn))) (media_nodes (wdb (snd (snd (Once demo_env ''/m'' demo_poll demo_ticks demo_gate demo_world)))))
     = [(''n1'', 4000)]"
  "load_of CPUMillis (on_node ''n1'') (wdb (snd (snd (Once demo_env ''/m'' demo_poll demo_ticks demo_gate demo_world)))) = 2000"
  "allocations demo_pass_db = []" "media_nodes demo_pass_db = []" "fence_counter demo_pass_db = 0"
  by code_simp+

lemma demo_pass_inv: "ctl_inv demo_pass_db"
proof -
  have "db_inv demo_pass_db" unfolding demo_pass_db_def using store_reach_inv [OF demo_reach_db2] by simp
  moreover have "sessions demo_pass_db = sessions demo_db2" by (simp add: demo_pass_db_def)
  ultimately show ?thesis
    unfolding ctl_inv_def demo_pass_node by (simp add: demo_db2_eq session_active_def active_phase_def)
qed

theorem pass_keeps_budget_witness:
  "let w' = snd (snd (Once demo_env ''/m'' demo_poll demo_ticks demo_gate demo_world)) in
   ctl_inv (wdb w') \<and> load_of CPUMillis (on_node ''n1'') (wdb w') = 2000 \<and> (\<exists>mn \<in> set (media_nodes (wdb w')). load_of CPUMillis (on_node ''n1'') (wdb w') \<le> CPUMillis (mn_capacity mn))"
proof -
  let ?o = "Once demo_env ''/m'' demo_poll demo_ticks demo_gate demo_world"
  have "(''n1'', 4000) \<in> set (map (\<lambda>mn. (mn_id mn, CPUMillis (mn_capacity mn))) (media_nodes (wdb (snd (snd ?o)))))"
    by (simp add: demo_pass_node)
  then obtain mn where mn: "mn \<in> set (media_nodes (wdb (snd (snd ?o))))" "mn_id mn = ''n1''" "CPUMillis (mn_capacity mn) = 4000" by auto
  have env: "ctl_NodeID demo_env = ''n1''" by (simp add: demo_env_def)
  have "ctl_inv (wdb (snd (snd ?o))) \<and> load_of CPUMillis (on_node ''n1'') (wdb (snd (snd ?o))) \<le>
      max (load_of CPUMillis (on_node ''n1'') (wdb demo_world)) (CPUMillis (mn_capacity mn))"
    using pass_keeps_budget [of demo_world demo_env "''/m''" demo_poll demo_ticks demo_gate "fst ?o" "fst (snd ?o)" "snd (snd ?o)" mn CPUMillis] mn demo_pass_inv
    by (simp add: env demo_world_def)
  then show ?thesis using mn(1) demo_pass_node(2) mn(3) by (auto simp: Let_def intro!: bexI [of _ mn])
qed

theorem pass_commands_are_fenced_witness:
  "let w' = snd (snd (Once demo_env ''/m'' demo_poll demo_ticks demo_gate demo_world)) in
   length (sent w') = 5 \<and> (\<forall>(q, d) \<in> set (sent w'). \<forall>cmd. command_of q = Some cmd \<longrightarrow> FencingToken cmd = fence_counter (wdb w'))"
proof -
  let ?o = "Once demo_env ''/m'' demo_poll demo_ticks demo_gate demo_world"
  have "\<forall>(q, d) \<in> set (sent (snd (snd ?o))). \<forall>cmd. command_of q = Some cmd \<longrightarrow> FencingToken cmd = fence_counter (wdb (snd (snd ?o)))"
    using pass_commands_are_fenced [of demo_world demo_env "''/m''" demo_poll demo_ticks demo_gate "fst ?o" "fst (snd ?o)" "snd (snd ?o)"] demo_pass_inv
    by (auto simp: demo_world_def)
  then show ?thesis using arg_cong [OF demo_pass_requests, of length] by (simp add: Let_def)
qed

end
