(* ===== verification/Control_Liveness.thy ===== *)
theory Control_Liveness
  imports Control_Pass
begin

text \<open>
  What becomes of a session whose worker cannot run: the control loop restarts it with growing delays, and gives up after
  five restarts, so that the session ends as failed.
\<close>

section \<open>A worker that never runs\<close>

text \<open>The agent answers, and says of the worker that it is gone or that its process is not running.\<close>

definition never_runs :: "'g control_env \<Rightarrow> string \<Rightarrow> bool" where
  "never_runs c i \<longleftrightarrow>
     (\<forall>g. (\<exists>resp. fst (ctl_agent c (GetWorker i) g) = Some resp \<and>
             (status_of resp = 404 \<or> (\<exists>v. resp = ROne 200 v \<and> State v \<noteq> RUNNING))) \<and>
          (\<forall>cmd. \<exists>resp. fst (ctl_agent c (DeleteWorker i cmd) g) = Some resp \<and> 200 \<le> status_of resp \<and> status_of resp < 300))"

definition policy_of :: "'g control_env \<Rightarrow> string \<Rightarrow> slate_policy" where
  "policy_of c stream = (case ctl_slates c stream of None \<Rightarrow> \<lparr>sp_on_loss = True, sp_forced = False\<rparr> | Some p \<Rightarrow> p)"

definition media_of :: "'g control_env \<Rightarrow> string \<Rightarrow> media_profile" where
  "media_of c stream = (case ctl_media c stream of None \<Rightarrow> DefaultMediaProfile | Some m \<Rightarrow> m)"

definition demand_of :: "'g control_env \<Rightarrow> string \<Rightarrow> db \<Rightarrow> resource_vector" where
  "demand_of c stream d = resources (ctl_WorkerResources c) (media_of c stream) (int (length (stream_destinations stream d)))"

text \<open>The configuration is complete and unchanged, and the node still has room for the allocation.\<close>

definition configured :: "'g control_env \<Rightarrow> string \<Rightarrow> allocation_row \<Rightarrow> db \<Rightarrow> bool" where
  "configured c stream a d \<longleftrightarrow>
     stream_destinations stream d \<noteq> [] \<and> list_ex (\<lambda>r. st_id r = stream) (streams d) \<and> MediaProfile_Validate (media_of c stream) \<and>
     destination_secrets c stream (stream_destinations stream d) \<noteq> None \<and> ctl_source c stream \<noteq> None \<and>
     wa_hash a = ctl_hash c (stream_destinations stream d) (policy_of c stream) (media_of c stream) \<and>
     nonneg_columns (demand_of c stream d) \<and>
     list_ex (\<lambda>mn. mn_id mn = ctl_NodeID c \<and> left_over (ctl_NodeID c) (\<lambda>b. wa_id b \<noteq> wa_id a) (demand_of c stream d) mn d) (media_nodes d)"

definition held :: "'g control_env \<Rightarrow> string \<Rightarrow> string \<Rightarrow> allocation_row \<Rightarrow> db \<Rightarrow> bool" where
  "held c session stream a d \<longleftrightarrow>
     active_allocation session d = Some a \<and> wa_node a = ctl_NodeID c \<and> distinct (map wa_id (allocations d)) \<and> configured c stream a d"

lemma find_update_where:
  "find Q xs = Some a \<Longrightarrow> (\<And>x. x \<in> set xs \<Longrightarrow> P x \<Longrightarrow> Q (f x) = Q x) \<Longrightarrow> find Q (update_where P f xs) = Some (if P a then f a else a)"
  by (induction xs) (auto split: if_splits)

lemma count_where_distinct: "distinct (map k xs) \<Longrightarrow> a \<in> set xs \<Longrightarrow> count_where (\<lambda>x. k x = k a) xs = 1"
proof (induction xs)
  case (Cons x xs)
  show ?case
  proof (cases "x = a")
    case True
    then have "count_where (\<lambda>x. k x = k a) xs = 0" using Cons.prems(1) by (auto simp: count_where_0_iff image_iff)
    then show ?thesis using True by simp
  next
    case False
    then have "a \<in> set xs" "k x \<noteq> k a" using Cons.prems by (auto simp: image_iff)
    then show ?thesis using Cons by simp
  qed
qed simp

text \<open>Updates of the one row keep the rest of the picture.\<close>

lemma held_update_active:
  assumes h: "held c session stream a d"
    and f: "\<And>x. wa_id (f x) = wa_id x \<and> wa_session (f x) = wa_session x \<and> wa_node (f x) = wa_node x"
    and act: "\<And>x. x \<in> set (allocations d) \<Longrightarrow> wa_id x = wa_id a \<Longrightarrow> allocation_active (f x) = allocation_active x"
    and hash: "wa_hash (f a) = wa_hash a"
  shows "held c session stream (f a) (d\<lparr>allocations := update_where (\<lambda>x. wa_id x = wa_id a) f (allocations d), sessions := ss\<rparr>)"
proof -
  let ?al = "update_where (\<lambda>x. wa_id x = wa_id a) f (allocations d)"
  let ?d = "d\<lparr>allocations := ?al, sessions := ss\<rparr>"
  have "active_allocation session ?d = Some (f a)"
    using h find_update_where [of "\<lambda>a. wa_session a = session \<and> allocation_active a" "allocations d" a "\<lambda>x. wa_id x = wa_id a" f] f act
    by (simp add: held_def active_allocation_def)
  moreover have "map wa_id ?al = map wa_id (allocations d)" using f by (intro map_update_where) simp
  moreover have same: "stream_destinations stream ?d = stream_destinations stream d" "streams ?d = streams d" "demand_of c stream ?d = demand_of c stream d"
      "media_nodes ?d = media_nodes d"
    by (simp_all add: stream_destinations_def demand_of_def)
  moreover have "filter (\<lambda>x. on_node (ctl_NodeID c) x \<and> wa_id x \<noteq> wa_id a) ?al = filter (\<lambda>x. on_node (ctl_NodeID c) x \<and> wa_id x \<noteq> wa_id a) (allocations d)"
    by (rule filter_update_where_other) (use f in auto)
  then have "load_of g (\<lambda>x. on_node (ctl_NodeID c) x \<and> wa_id x \<noteq> wa_id a) ?d = load_of g (\<lambda>x. on_node (ctl_NodeID c) x \<and> wa_id x \<noteq> wa_id a) d" for g
    by (simp add: load_of_def)
  then have "left_over (ctl_NodeID c) (\<lambda>b. wa_id b \<noteq> wa_id a) r mn ?d = left_over (ctl_NodeID c) (\<lambda>b. wa_id b \<noteq> wa_id a) r mn d" for r mn
    by (simp add: left_over_def)
  ultimately show ?thesis using h f hash by (simp add: held_def configured_def)
qed

lemma held_reserve:
  assumes h: "held c session stream a d"
  defines "r \<equiv> demand_of c stream d"
  shows "reserveBudget (wa_id a) (ctl_NodeID c) r d = Inr (True, d\<lparr>allocations := update_where (\<lambda>x. wa_id x = wa_id a)
       (\<lambda>x. x\<lparr>wa_resources := (wa_resources x)\<lparr>CPUMillis := CPUMillis r, MemoryBytes := MemoryBytes r, IngressBPS := IngressBPS r,
                                             EgressBPS := EgressBPS r\<rparr>\<rparr>) (allocations d)\<rparr>)"
proof -
  let ?P = "\<lambda>x. wa_id x = wa_id a \<and> wa_node x = ctl_NodeID c \<and>
      list_ex (\<lambda>mn. mn_id mn = ctl_NodeID c \<and> left_over (ctl_NodeID c) (\<lambda>b. wa_id b \<noteq> wa_id a) r mn d) (media_nodes d)"
  have a: "a \<in> set (allocations d)" using h by (auto simp: held_def active_allocation_def find_Some_iff)
  have only: "x = a" if "x \<in> set (allocations d)" "wa_id x = wa_id a" for x
    using distinct_map_inj [of wa_id "allocations d" x a] h a that by (simp add: held_def)
  have Pa: "x \<in> set (allocations d) \<Longrightarrow> ?P x \<longleftrightarrow> wa_id x = wa_id a" for x
    using only [of x] h unfolding held_def configured_def r_def by auto
  have "count_where ?P (allocations d) = count_where (\<lambda>x. wa_id x = wa_id a) (allocations d)"
    unfolding count_where_def by (rule arg_cong [where f = length], rule filter_cong [OF refl]) (rule Pa)
  moreover have "\<dots> = 1" using a h by (intro count_where_distinct) (auto simp: held_def)
  moreover have "update_where ?P f (allocations d) = update_where (\<lambda>x. wa_id x = wa_id a) f (allocations d)" for f
    unfolding update_where_def using Pa by (intro map_cong) auto
  ultimately show ?thesis using h unfolding reserveBudget_def Let_def by (simp add: held_def configured_def r_def)
qed

section \<open>One reconciliation\<close>

lemma destinationFiles_ret:
  "destination_secrets c stream dests \<noteq> None \<Longrightarrow> \<exists>fs. destinationFiles c stream dests = ret fs"
  by (auto simp: destinationFiles_def)

lemma inspect_never_runs:
  assumes "never_runs c i"
  obtains current g where "inspect c i w = (Inr current, w\<lparr>wagent := g, sent := sent w @ [(GetWorker i, wdb w)]\<rparr>)"
    "\<And>a. \<not> adopted a current" "\<And>a. healthy_report a current = None"
proof -
  obtain reply g where r: "ctl_agent c (GetWorker i) (wagent w) = (reply, g)" by fastforce
  then obtain resp where resp: "reply = Some resp" "status_of resp = 404 \<or> (\<exists>v. resp = ROne 200 v \<and> State v \<noteq> RUNNING)"
    using assms unfolding never_runs_def by (metis fst_conv)
  let ?w = "w\<lparr>wagent := g, sent := sent w @ [(GetWorker i, wdb w)]\<rparr>"
  from resp(2) show thesis
  proof
    assume "status_of resp = 404"
    then have "inspect c i w = (Inr None, ?w)" using r resp(1) by (simp add: inspect_def agent_call_def)
    then show thesis by (rule that) (simp_all add: adopted_def healthy_report_def)
  next
    assume "\<exists>v. resp = ROne 200 v \<and> State v \<noteq> RUNNING"
    then obtain v where v: "resp = ROne 200 v" "State v \<noteq> RUNNING" by blast
    then have "inspect c i w = (Inr (Some v), ?w)" using r resp(1) by (simp add: inspect_def agent_call_def)
    then show thesis by (rule that) (use v in \<open>simp_all add: adopted_def healthy_report_def\<close>)
  qed
qed

text \<open>Up to the decision about the worker, a reconciliation only refreshes the reservation.\<close>

lemma reconcile_drives:
  assumes h: "held c session stream a (wdb w)" and run: "never_runs c (wa_id a)"
  obtains w1 fresh where
    "reconcile c tk session stream DesiredRunning tok drain w =
       (if tk_now tk < wa_retry_after a then (Inr (), w1) else if wa_restarts a \<ge> 5 then fail_session c tk session tok a w1
        else restart_worker c tk session stream (stream_destinations stream (wdb w)) (policy_of c stream) (media_of c stream)
               (demand_of c stream (wdb w)) (wa_hash a) tok a fresh w1)"
    "wdb w1 = (wdb w)\<lparr>allocations := update_where (\<lambda>x. wa_id x = wa_id a)
       (\<lambda>x. x\<lparr>wa_resources := (wa_resources x)\<lparr>CPUMillis := CPUMillis (demand_of c stream (wdb w)), MemoryBytes := MemoryBytes (demand_of c stream (wdb w)),
          IngressBPS := IngressBPS (demand_of c stream (wdb w)), EgressBPS := EgressBPS (demand_of c stream (wdb w))\<rparr>\<rparr>) (allocations (wdb w))\<rparr>"
proof -
  let ?d = "wdb w" and ?r = "demand_of c stream (wdb w)"
  let ?d1 = "?d\<lparr>allocations := update_where (\<lambda>x. wa_id x = wa_id a)
       (\<lambda>x. x\<lparr>wa_resources := (wa_resources x)\<lparr>CPUMillis := CPUMillis ?r, MemoryBytes := MemoryBytes ?r, IngressBPS := IngressBPS ?r,
          EgressBPS := EgressBPS ?r\<rparr>\<rparr>) (allocations ?d)\<rparr>"
  have cfg: "configured c stream a ?d" and act: "active_allocation session ?d = Some a" "wa_node a = ctl_NodeID c"
    using h by (simp_all add: held_def)
  have slate: "slatePolicy c stream w = (Inr (policy_of c stream), w)"
    using cfg by (simp add: slatePolicy_def seq_def read_db_def ret_def policy_of_def configured_def)
  have media: "mediaProfile c stream w = (Inr (media_of c stream), w)"
    using cfg by (auto simp: mediaProfile_def seq_def read_db_def ret_def media_of_def configured_def Let_def)
  have reserve: "exec_db (reserveBudget (wa_id a) (ctl_NodeID c) ?r) w = (Inr True, w\<lparr>wdb := ?d1\<rparr>)"
    by (simp add: exec_db_def held_reserve [OF h])
  obtain current g where insp: "inspect c (wa_id a) (w\<lparr>wdb := ?d1\<rparr>) =
      (Inr current, (w\<lparr>wdb := ?d1\<rparr>)\<lparr>wagent := g, sent := sent w @ [(GetWorker (wa_id a), ?d1)]\<rparr>)"
      "\<And>a. \<not> adopted a current" "\<And>a. healthy_report a current = None"
    using inspect_never_runs [OF run, of "w\<lparr>wdb := ?d1\<rparr>"] by auto
  let ?w1 = "(w\<lparr>wdb := ?d1\<rparr>)\<lparr>wagent := g, sent := sent w @ [(GetWorker (wa_id a), ?d1)]\<rparr>"
  have "reconcile c tk session stream DesiredRunning tok drain w =
      drive_worker c tk session stream (stream_destinations stream ?d) (policy_of c stream) (media_of c stream) ?r (wa_hash a) tok a current ?w1"
    using cfg act
    by (simp add: reconcile_def seq_def read_db_def Let_def slate media place_allocation_def demand_of_def [symmetric] reserve insp(1) configured_def)
  also have "\<dots> = (if tk_now tk < wa_retry_after a then (Inr (), ?w1) else if wa_restarts a \<ge> 5 then fail_session c tk session tok a ?w1
        else restart_worker c tk session stream (stream_destinations stream ?d) (policy_of c stream) (media_of c stream)
               ?r (wa_hash a) tok a (known current) ?w1)"
    by (simp add: drive_worker_def insp ret_def)
  finally show thesis by (rule that) simp
qed

lemma restart_worker_db:
  assumes "destination_secrets c stream dests \<noteq> None" "ctl_source c stream \<noteq> None"
  shows "\<exists>generation. wdb (snd (restart_worker c tk session stream dests policy media r hash tok a fresh w)) =
    session_starting (tk_now tk) session
      (commit_start (tk_now tk) (wa_id a) generation hash tok (tk_now tk + retry_delay (wa_restarts a)) (wdb w))"
proof -
  obtain fs where fs: "destinationFiles c stream dests = ret fs" using destinationFiles_ret [OF assms(1)] by blast
  obtain source where "ctl_source c stream = Some source" using assms(2) by auto
  then show ?thesis
    by (intro exI [of _ "if fresh then wa_desired_generation a + 1 else wa_desired_generation a"])
       (simp add: restart_worker_def Let_def fs seq_def ret_def write_db_def agent_call_def split: prod.split sum.split option.split)
qed

lemma held_reserved:
  assumes "held c session stream a d"
  shows "held c session stream (a\<lparr>wa_resources := (wa_resources a)\<lparr>CPUMillis := n1, MemoryBytes := n2, IngressBPS := n3, EgressBPS := n4\<rparr>\<rparr>)
    (d\<lparr>allocations := update_where (\<lambda>x. wa_id x = wa_id a)
       (\<lambda>x. x\<lparr>wa_resources := (wa_resources x)\<lparr>CPUMillis := n1, MemoryBytes := n2, IngressBPS := n3, EgressBPS := n4\<rparr>\<rparr>) (allocations d)\<rparr>)"
  using held_update_active [OF assms, of "\<lambda>x. x\<lparr>wa_resources := (wa_resources x)\<lparr>CPUMillis := n1, MemoryBytes := n2, IngressBPS := n3, EgressBPS := n4\<rparr>\<rparr>" "sessions d"]
  by (simp add: allocation_active_def)

text \<open>Before the time of the next attempt a reconciliation leaves the session and the count of restarts alone.\<close>

lemma reconcile_waits:
  assumes h: "held c session stream a (wdb w)" and run: "never_runs c (wa_id a)" and early: "tk_now tk < wa_retry_after a"
  obtains a' where "held c session stream a' (wdb (snd (reconcile c tk session stream DesiredRunning tok drain w)))"
    "wa_id a' = wa_id a" "wa_restarts a' = wa_restarts a" "wa_retry_after a' = wa_retry_after a"
    "sessions (wdb (snd (reconcile c tk session stream DesiredRunning tok drain w))) = sessions (wdb w)"
proof -
  let ?r = "demand_of c stream (wdb w)"
  obtain w1 where w1: "reconcile c tk session stream DesiredRunning tok drain w = (Inr (), w1)" and
    d1: "wdb w1 = (wdb w)\<lparr>allocations := update_where (\<lambda>x. wa_id x = wa_id a)
       (\<lambda>x. x\<lparr>wa_resources := (wa_resources x)\<lparr>CPUMillis := CPUMillis ?r, MemoryBytes := MemoryBytes ?r,
          IngressBPS := IngressBPS ?r, EgressBPS := EgressBPS ?r\<rparr>\<rparr>) (allocations (wdb w))\<rparr>"
    by (rule reconcile_drives [OF h run, of tk tok drain]) (use early in simp)
  show thesis by (rule that [OF _ _ _ _], unfold w1 snd_conv d1, rule held_reserved [OF h]) simp_all
qed

lemma reconcile_restarts:
  assumes h: "held c session stream a (wdb w)" and run: "never_runs c (wa_id a)" and due: "wa_retry_after a \<le> tk_now tk" and few: "wa_restarts a < 5"
  obtains a' where "held c session stream a' (wdb (snd (reconcile c tk session stream DesiredRunning tok drain w)))"
    "wa_id a' = wa_id a" "wa_restarts a' = wa_restarts a + 1" "wa_retry_after a' = tk_now tk + retry_delay (wa_restarts a)"
    "sessions (wdb (snd (reconcile c tk session stream DesiredRunning tok drain w))) =
       update_where (\<lambda>s. ss_id s = session) (\<lambda>s. s\<lparr>ss_phase := Starting, ss_updated := tk_now tk\<rparr>) (sessions (wdb w))"
proof -
  obtain w1 fresh where w1: "reconcile c tk session stream DesiredRunning tok drain w =
       restart_worker c tk session stream (stream_destinations stream (wdb w)) (policy_of c stream) (media_of c stream)
         (demand_of c stream (wdb w)) (wa_hash a) tok a fresh w1" and
    d1: "wdb w1 = (wdb w)\<lparr>allocations := update_where (\<lambda>x. wa_id x = wa_id a)
       (\<lambda>x. x\<lparr>wa_resources := (wa_resources x)\<lparr>CPUMillis := CPUMillis (demand_of c stream (wdb w)), MemoryBytes := MemoryBytes (demand_of c stream (wdb w)),
          IngressBPS := IngressBPS (demand_of c stream (wdb w)), EgressBPS := EgressBPS (demand_of c stream (wdb w))\<rparr>\<rparr>) (allocations (wdb w))\<rparr>"
    by (rule reconcile_drives [OF h run, of tk tok drain]) (use few due in simp)
  define a1 where "a1 = a\<lparr>wa_resources := (wa_resources a)\<lparr>CPUMillis := CPUMillis (demand_of c stream (wdb w)),
      MemoryBytes := MemoryBytes (demand_of c stream (wdb w)), IngressBPS := IngressBPS (demand_of c stream (wdb w)), EgressBPS := EgressBPS (demand_of c stream (wdb w))\<rparr>\<rparr>"
  have h1: "held c session stream a1 (wdb w1)" unfolding d1 a1_def by (rule held_reserved [OF h])
  have "destination_secrets c stream (stream_destinations stream (wdb w)) \<noteq> None" "ctl_source c stream \<noteq> None"
    using h by (auto simp: held_def configured_def)
  from restart_worker_db [OF this] obtain generation where
    gen: "wdb (snd (reconcile c tk session stream DesiredRunning tok drain w)) =
      session_starting (tk_now tk) session
        (commit_start (tk_now tk) (wa_id a) generation (wa_hash a) tok (tk_now tk + retry_delay (wa_restarts a)) (wdb w1))" unfolding w1 by metis
  let ?f = "\<lambda>x. x\<lparr>wa_desired_generation := generation, wa_hash := wa_hash a, wa_fence := tok, wa_state := AllocStarting,
      wa_restarts := wa_restarts x + 1, wa_retry_after := tk_now tk + retry_delay (wa_restarts a), wa_last_healthy := None, wa_updated := tk_now tk\<rparr>"
  have id1: "wa_id a1 = wa_id a" "wa_hash a1 = wa_hash a" "wa_restarts a1 = wa_restarts a" by (simp_all add: a1_def)
  have act: "allocation_active x" if "x \<in> set (allocations (wdb w1))" "wa_id x = wa_id a" for x
  proof -
    have "a1 \<in> set (allocations (wdb w1))" "allocation_active a1" using h1 by (auto simp: held_def active_allocation_def find_Some_iff)
    then show ?thesis using that id1(1) h1 distinct_map_inj [of wa_id "allocations (wdb w1)" x a1] by (simp add: held_def)
  qed
  have "held c session stream (?f a1) (session_starting (tk_now tk) session
        (commit_start (tk_now tk) (wa_id a) generation (wa_hash a) tok (tk_now tk + retry_delay (wa_restarts a)) (wdb w1)))"
    using held_update_active [OF h1, of ?f] act id1 by (simp add: session_starting_def commit_start_def allocation_active_def)
  then show thesis unfolding gen [symmetric] by (rule that) (simp_all add: id1 gen, simp add: session_starting_def commit_start_def d1)
qed

lemma reconcile_gives_up:
  assumes h: "held c session stream a (wdb w)" and run: "never_runs c (wa_id a)" and due: "wa_retry_after a \<le> tk_now tk" and many: "5 \<le> wa_restarts a"
    and d'_def: "d' = wdb (snd (reconcile c tk session stream DesiredRunning tok drain w))"
  shows "map ss_id (sessions d') = map ss_id (sessions (wdb w))
    \<and> (\<forall>s \<in> set (sessions d'). ss_id s = session \<longrightarrow> ss_phase s = Failed \<and> ss_end_reason s = Some ''RESTARTS_EXHAUSTED'')
    \<and> (\<forall>x \<in> set (allocations d'). wa_id x = wa_id a \<longrightarrow> wa_state x = AllocFailed)"
proof -
  obtain w1 fresh where w1: "reconcile c tk session stream DesiredRunning tok drain w = fail_session c tk session tok a w1"
    and d1: "sessions (wdb w1) = sessions (wdb w)"
    by (rule reconcile_drives [OF h run, of tk tok drain]) (use many due in auto)
  obtain reply g where r: "ctl_agent c (DeleteWorker (wa_id a) (Some (control_command (tk_now tk) (wa_id a) (wa_desired_generation a) tok))) (wagent w1) = (reply, g)"
    by fastforce
  then obtain resp where "reply = Some resp" "200 \<le> status_of resp" "status_of resp < 300"
    using run unfolding never_runs_def by (metis fst_conv)
  then have "d' = fail_session_tx (tk_now tk) session (wa_id a) (wdb w1)"
    unfolding d'_def w1 by (simp add: fail_session_def remove_worker_def seq_def agent_call_def r ret_def write_db_def)
  then have upd: "sessions d' = update_where (\<lambda>s. ss_id s = session) (\<lambda>s. s\<lparr>ss_phase := Failed, ss_desired := DesiredStopped,
      ss_end_reason := Some ''RESTARTS_EXHAUSTED'', ss_ended := Some (tk_now tk), ss_updated := tk_now tk\<rparr>) (sessions (wdb w))"
    "allocations d' = update_where (\<lambda>x. wa_id x = wa_id a) (\<lambda>x. x\<lparr>wa_state := AllocFailed, wa_desired := DesiredStopped,
      wa_last_error := Some ''RESTARTS_EXHAUSTED'', wa_updated := tk_now tk\<rparr>) (allocations (wdb w1))"
    by (simp_all add: fail_session_tx_def d1)
  have "map ss_id (sessions d') = map ss_id (sessions (wdb w))" unfolding upd by (rule map_update_where) simp
  then show ?thesis unfolding upd by (simp add: update_where_def ball_Un)
qed

section \<open>Properties\<close>

text \<open>
  The reconciliations of a session by consecutive passes, each with its time, its token and whether the node drains. As in a pass, the session is
  reconciled while it is neither ended nor failed.
\<close>

fun reconcile_run :: "'g control_env \<Rightarrow> string \<Rightarrow> string \<Rightarrow> (tick \<times> nat \<times> bool) list \<Rightarrow> 'g world \<Rightarrow> 'g world" where
  "reconcile_run c session stream [] w = w"
| "reconcile_run c session stream ((tk, tok, drain) # ts) w =
     reconcile_run c session stream ts
       (case find (\<lambda>s. ss_id s = session \<and> session_active s) (sessions (wdb w)) of
          None \<Rightarrow> w
        | Some s \<Rightarrow> snd (reconcile c tk session stream (ss_desired s) tok drain w))"

text \<open>Passes from the time \<open>t\<close> on, in the order of their times, with at most \<open>g\<close> between two of them; and the time of the last one.\<close>

fun paced :: "duration \<Rightarrow> time \<Rightarrow> (tick \<times> nat \<times> bool) list \<Rightarrow> bool" where
  "paced g t [] = True"
| "paced g t ((tk, tok, drain) # ts) = (t \<le> tk_now tk \<and> tk_now tk \<le> t + g \<and> paced g (tk_now tk) ts)"

fun last_pass :: "time \<Rightarrow> (tick \<times> nat \<times> bool) list \<Rightarrow> time" where
  "last_pass t [] = t"
| "last_pass t ((tk, tok, drain) # ts) = last_pass (tk_now tk) ts"

text \<open>What the restarts that are left wait in total: 31 seconds from the first one.\<close>

definition waits :: "int \<Rightarrow> duration" where
  "waits r = (\<Sum>k \<in> {r..<5}. retry_delay k)"

definition running_session :: "string \<Rightarrow> session_row list \<Rightarrow> bool" where
  "running_session session ss \<longleftrightarrow> session \<in> ss_id ` set ss \<and> (\<forall>s \<in> set ss. ss_id s = session \<longrightarrow> session_active s \<and> ss_desired s = DesiredRunning)"

lemma waits_step: "r < 5 \<Longrightarrow> waits r = retry_delay r + waits (r + 1)"
proof -
  assume "r < 5"
  then have "{r..<5} = insert r {r + 1..<5}" by auto
  then show ?thesis by (simp add: waits_def)
qed

lemma retry_delay_nonneg: "0 \<le> retry_delay r"
  by (simp add: retry_delay_def second_def)

lemma waits_nonneg: "0 \<le> waits r"
  unfolding waits_def by (rule sum_nonneg) (rule retry_delay_nonneg)

lemma paced_last: "paced g t ts \<Longrightarrow> t \<le> last_pass t ts"
  by (induction g t ts rule: paced.induct) auto

lemma running_found:
  assumes "running_session session ss"
  obtains s where "find (\<lambda>s. ss_id s = session \<and> session_active s) ss = Some s" "ss_desired s = DesiredRunning"
proof -
  obtain s where "find (\<lambda>s. ss_id s = session \<and> session_active s) ss = Some s"
    using assms by (cases "find (\<lambda>s. ss_id s = session \<and> session_active s) ss") (auto simp: running_session_def find_None_iff)
  moreover from this have "s \<in> set ss" "ss_id s = session" by (auto simp: find_Some_iff)
  ultimately show thesis using that assms by (auto simp: running_session_def)
qed

lemma running_starting:
  "running_session session ss \<Longrightarrow> running_session session (update_where (\<lambda>s. ss_id s = session) (\<lambda>s. s\<lparr>ss_phase := Starting, ss_updated := now\<rparr>) ss)"
proof -
  assume run: "running_session session ss"
  let ?ss = "update_where (\<lambda>s. ss_id s = session) (\<lambda>s. s\<lparr>ss_phase := Starting, ss_updated := now\<rparr>) ss"
  have "map ss_id ?ss = map ss_id ss" by (rule map_update_where) simp
  then have "ss_id ` set ?ss = ss_id ` set ss" by (metis list.set_map)
  then show ?thesis using run by (auto simp: running_session_def set_update_where session_active_def active_phase_def)
qed

lemma reconcile_run_failed:
  "\<forall>s \<in> set (sessions (wdb w)). ss_id s = session \<longrightarrow> ss_phase s = Failed \<Longrightarrow> reconcile_run c session stream ts w = w"
proof (induction ts)
  case (Cons x ts)
  have "find (\<lambda>s. ss_id s = session \<and> session_active s) (sessions (wdb w)) = None"
    using Cons.prems by (auto simp: find_None_iff session_active_def active_phase_def)
  then show ?case using Cons by (cases x) simp
qed simp

lemma reconcile_run_running:
  "running_session session (sessions (wdb w)) \<Longrightarrow> reconcile_run c session stream ((tk, tok, drain) # ts) w =
     reconcile_run c session stream ts (snd (reconcile c tk session stream DesiredRunning tok drain w))"
  by (erule running_found) simp

definition exhausted :: "string \<Rightarrow> string \<Rightarrow> db \<Rightarrow> bool" where
  "exhausted session i d \<longleftrightarrow> session \<in> ss_id ` set (sessions d)
     \<and> (\<forall>s \<in> set (sessions d). ss_id s = session \<longrightarrow> ss_phase s = Failed \<and> ss_end_reason s = Some ''RESTARTS_EXHAUSTED'')
     \<and> (\<forall>x \<in> set (allocations d). wa_id x = i \<longrightarrow> wa_state x = AllocFailed)"

lemma crash_loop:
  assumes "held c session stream a (wdb w)" "never_runs c (wa_id a)" "0 \<le> wa_restarts a" "wa_restarts a \<le> 5"
    and "running_session session (sessions (wdb w))" "0 < g" "paced g t ts"
  shows "(max t (wa_retry_after a) + waits (wa_restarts a) + (6 - wa_restarts a) * g \<le> last_pass t ts \<longrightarrow>
      exhausted session (wa_id a) (wdb (reconcile_run c session stream ts w)))
    \<and> (last_pass t ts < wa_retry_after a + waits (wa_restarts a) \<longrightarrow>
      running_session session (sessions (wdb (reconcile_run c session stream ts w))))"
  using assms
proof (induction ts arbitrary: a w t)
  case Nil
  have "t < max t (wa_retry_after a) + waits (wa_restarts a) + (6 - wa_restarts a) * g"
    using Nil.prems(4,6) waits_nonneg [of "wa_restarts a"] by (smt (verit) mult_pos_pos)
  then show ?case using Nil.prems(5) by simp
next
  case (Cons x ts)
  obtain tk tok drain where x: "x = (tk, tok, drain)" by (cases x)
  let ?w = "snd (reconcile c tk session stream DesiredRunning tok drain w)"
  note run = reconcile_run_running [OF Cons.prems(5), of c stream tk tok drain ts]
  have tk: "t \<le> tk_now tk" "tk_now tk \<le> t + g" "paced g (tk_now tk) ts" using Cons.prems(7) by (simp_all add: x)
  consider (early) "tk_now tk < wa_retry_after a" | (due) "wa_retry_after a \<le> tk_now tk" "wa_restarts a < 5"
    | (over) "wa_retry_after a \<le> tk_now tk" "wa_restarts a = 5" using Cons.prems(4) by linarith
  then show ?case
  proof cases
    case early
    obtain a' where a': "held c session stream a' (wdb ?w)" "wa_id a' = wa_id a" "wa_restarts a' = wa_restarts a" "wa_retry_after a' = wa_retry_after a"
        "sessions (wdb ?w) = sessions (wdb w)" using reconcile_waits [OF Cons.prems(1,2) early] by blast
    have "max (tk_now tk) (wa_retry_after a) = max t (wa_retry_after a)" using early tk(1) by simp
    then show ?thesis using Cons.IH [OF a'(1), of "tk_now tk"] Cons.prems(2-6) a'(2-5) tk(3) unfolding x run by simp
  next
    case due
    obtain a' where a': "held c session stream a' (wdb ?w)" "wa_id a' = wa_id a" "wa_restarts a' = wa_restarts a + 1"
        "wa_retry_after a' = tk_now tk + retry_delay (wa_restarts a)"
        "sessions (wdb ?w) = update_where (\<lambda>s. ss_id s = session) (\<lambda>s. s\<lparr>ss_phase := Starting, ss_updated := tk_now tk\<rparr>) (sessions (wdb w))"
      using reconcile_restarts [OF Cons.prems(1,2) due] by blast
    have "max (tk_now tk) (wa_retry_after a') = tk_now tk + retry_delay (wa_restarts a)" using retry_delay_nonneg [of "wa_restarts a"] a'(4) by simp
    then have up: "max (tk_now tk) (wa_retry_after a') + waits (wa_restarts a') + (6 - wa_restarts a') * g
        \<le> max t (wa_retry_after a) + waits (wa_restarts a) + (6 - wa_restarts a) * g"
      using tk(2) waits_step [OF due(2)] unfolding a'(3) by (simp add: algebra_simps)
    have low: "wa_retry_after a + waits (wa_restarts a) \<le> wa_retry_after a' + waits (wa_restarts a')"
      using due waits_step [OF due(2)] a'(3,4) by simp
    have "running_session session (sessions (wdb ?w))" unfolding a'(5) by (rule running_starting [OF Cons.prems(5)])
    then show ?thesis using Cons.IH [OF a'(1), of "tk_now tk"] Cons.prems(2-4,6) due(2) a'(2,3) tk(3) up low unfolding x run by simp
  next
    case over
    have "session \<in> set (map ss_id (sessions (wdb w)))" using Cons.prems(5) by (simp add: running_session_def)
    then have "exhausted session (wa_id a) (wdb ?w)"
      using reconcile_gives_up [OF Cons.prems(1,2) over(1) _ refl, of tok drain] over(2) unfolding exhausted_def list.set_map [symmetric] by simp
    moreover from this have "reconcile_run c session stream ts ?w = ?w" by (intro reconcile_run_failed) (simp add: exhausted_def)
    moreover have "\<not> last_pass t ((tk, tok, drain) # ts) < wa_retry_after a + waits (wa_restarts a)"
      using over paced_last [OF tk(3)] by (simp add: waits_def)
    ultimately show ?thesis unfolding x run by simp
  qed
qed

text \<open>C6: A session whose worker cannot run neither restarts for ever nor is given up early. Let the agent answer but never find the process running, let the configuration be
  complete and not change, and let the node keep room for the allocation; and let passes follow one another at any times, as long as at most \<open>g\<close>
  passes between two. Then the session is failed, with the reason that the restarts are exhausted, and its allocation is failed, which frees its
  share of the node, once the delays of the remaining restarts (31 seconds in all) and \<open>g\<close> for each of the remaining attempts have passed; and it is not failed
  before these delays have passed, however many passes there are: a pass before the time of the next attempt changes neither the session nor the count.\<close>

theorem crash_loop_ends_failed:
  assumes "held c session stream a (wdb w)" "never_runs c (wa_id a)" "0 \<le> wa_restarts a" "wa_restarts a \<le> 5"
    and "running_session session (sessions (wdb w))" "0 < g" "paced g t ts"
  shows "let d' = wdb (reconcile_run c session stream ts w) in
    (max t (wa_retry_after a) + (\<Sum>k \<in> {wa_restarts a..<5}. retry_delay k) + (6 - wa_restarts a) * g \<le> last_pass t ts \<longrightarrow>
      session \<in> ss_id ` set (sessions d')
      \<and> (\<forall>s \<in> set (sessions d'). ss_id s = session \<longrightarrow> ss_phase s = Failed \<and> ss_end_reason s = Some ''RESTARTS_EXHAUSTED'')
      \<and> (\<forall>x \<in> set (allocations d'). wa_id x = wa_id a \<longrightarrow> wa_state x = AllocFailed))
    \<and> (last_pass t ts < wa_retry_after a + (\<Sum>k \<in> {wa_restarts a..<5}. retry_delay k) \<longrightarrow> running_session session (sessions d'))"
  using crash_loop [OF assms] unfolding Let_def exhausted_def waits_def .

definition demo_started :: "unit world" where
  "demo_started = snd (snd (Once demo_env ''/m'' demo_poll demo_ticks demo_gate demo_world))"

definition demo_retries :: "(tick \<times> nat \<times> bool) list" where
  "demo_retries = map (\<lambda>k. (\<lparr>tk_now = (200 + 2 * int k) * second, tk_uuid = ''a9'', tk_random = ''r'', tk_order = []\<rparr>, 9 + k, False)) [0..<25]"

lemma demo_held: "held demo_env ''s1'' ''st'' (hd (allocations (wdb demo_started))) (wdb demo_started)"
  by code_simp

lemma demo_hd: "wa_id (hd (allocations (wdb demo_started))) = ''a1''" "wa_restarts (hd (allocations (wdb demo_started))) = 1"
  "wa_retry_after (hd (allocations (wdb demo_started))) \<le> 198 * second" "running_session ''s1'' (sessions (wdb demo_started))"
  by code_simp+

lemma demo_paced: "paced (2 * second) (198 * second) demo_retries" "last_pass (198 * second) demo_retries = 248 * second"
  by code_simp+

theorem crash_loop_ends_failed_witness:
  "\<exists>s \<in> set (sessions (wdb (reconcile_run demo_env ''s1'' ''st'' demo_retries demo_started))). ss_id s = ''s1'' \<and> ss_phase s = Failed"
proof -
  let ?d = "wdb (reconcile_run demo_env ''s1'' ''st'' demo_retries demo_started)" and ?a = "hd (allocations (wdb demo_started))"
  have run: "never_runs demo_env (wa_id ?a)" by (simp add: demo_hd(1) never_runs_def demo_env_def)
  have "(\<Sum>k \<in> {1..<5::int}. retry_delay k) = 30 * second"
  proof -
    have "{1..<5::int} = {1, 2, 3, 4}" by auto
    then show ?thesis by (simp add: retry_delay_def second_def)
  qed
  then have "max (198 * second) (wa_retry_after ?a) + (\<Sum>k \<in> {wa_restarts ?a..<5}. retry_delay k) + (6 - wa_restarts ?a) * (2 * second)
      \<le> last_pass (198 * second) demo_retries" using demo_hd(2,3) demo_paced(2) by (simp add: second_def)
  then have "''s1'' \<in> ss_id ` set (sessions ?d) \<and> (\<forall>s \<in> set (sessions ?d). ss_id s = ''s1'' \<longrightarrow> ss_phase s = Failed)"
    using crash_loop_ends_failed [OF demo_held run _ _ demo_hd(4) _ demo_paced(1)] demo_hd(2) by (simp add: Let_def second_def)
  then show ?thesis by auto
qed

end
