(* ===== verification/Control_Edge.thy ===== *)
theory Control_Edge
  imports Control_Pass
begin

text \<open>
  What a poll of the edge may conclude, \<^verbatim>\<open>Controller.pollEdge\<close>: only a complete snapshot says that a publisher is gone.
\<close>

definition status_at :: "db \<Rightarrow> string \<times> string \<Rightarrow> conn_status option" where
  "status_at d K = map_option ic_status (find (\<lambda>c. (ic_edge c, ic_connection c) = K) (connections d))"

lemma find_update_other:
  "(\<And>x. P x \<Longrightarrow> \<not> Q x \<and> \<not> Q (f x)) \<Longrightarrow> find Q (update_where P f xs) = find Q xs"
  by (induction xs) auto

lemma find_update_same:
  "find Q xs = Some a \<Longrightarrow> (\<And>x. Q (f x) = Q x) \<Longrightarrow> find Q (update_where Q f xs) = Some (f a)"
  by (induction xs) (auto split: if_splits)

lemma find_snoc: "find Q (xs @ [x]) = (case find Q xs of Some y \<Rightarrow> Some y | None \<Rightarrow> if Q x then Some x else None)"
  by (induction xs) auto

lemma upsert_connection_status:
  "status_at (snd (upsert_connection u edge conn stream protocol st seen d)) K = status_at d K \<or>
   (K = (edge, conn) \<and> status_at (snd (upsert_connection u edge conn stream protocol st seen d)) K = Some st)"
proof (cases "find (\<lambda>c. (ic_edge c, ic_connection c) = (edge, conn)) (connections d)")
  case None
  then show ?thesis by (auto simp: upsert_connection_def status_at_def find_snoc Let_def split: option.split)
next
  case (Some c)
  let ?Q = "\<lambda>c. (ic_edge c, ic_connection c) = (edge, conn)"
  show ?thesis
  proof (cases "K = (edge, conn)")
    case True
    have "find ?Q (update_where ?Q (set_connection edge st seen) (connections d)) = Some (set_connection edge st seen c)"
      using Some by (rule find_update_same) simp
    then show ?thesis using Some True by (simp add: upsert_connection_def status_at_def set_connection_def Let_def)
  next
    case False
    have "find (\<lambda>c. (ic_edge c, ic_connection c) = K) (update_where ?Q (set_connection edge st seen) (connections d))
        = find (\<lambda>c. (ic_edge c, ic_connection c) = K) (connections d)"
      by (rule find_update_other) (use False in \<open>auto simp: set_connection_def\<close>)
    then show ?thesis using Some by (simp add: upsert_connection_def status_at_def Let_def)
  qed
qed

lemma attach_connections [simp]: "connections (snd (attach_session u now stream conn d)) = connections d"
  by (simp add: attach_session_def insert_session_def Let_def split: option.split)

lemma detach_connections [simp]: "connections (snd (detach_session now stream conn t d)) = connections d"
  by (simp add: detach_session_def Let_def split: option.split)

lemma observe_tx_status:
  assumes "observe_tx uuids now edge conn stream protocol connected seen grace h d = Inr (sid, d')"
  shows "status_at d' K = status_at d K \<or> (K = (edge, conn) \<and> status_at d' K = Some (if connected then Connected else Disconnected))"
proof -
  let ?st = "if connected then Connected else Disconnected"
  let ?u = "upsert_connection (fst uuids) edge conn stream protocol ?st seen d"
  obtain res d1 where u: "?u = (res, d1)" by fastforce
  have 1: "status_at d1 K = status_at d K \<or> (K = (edge, conn) \<and> status_at d1 K = Some ?st)"
    using upsert_connection_status [of "fst uuids" edge conn stream protocol ?st seen d K] unfolding u by simp
  have 2: "d' = d \<or> connections d' = connections d1"
  proof (cases res)
    case (Inl err)
    then show ?thesis using assms u by (auto simp: observe_tx_def Let_def split: option.splits if_splits)
  next
    case (Inr cid)
    have a: "attach_session (snd uuids) now stream cid d1 = (Inr x, d2) \<Longrightarrow> connections d2 = connections d1" for x d2
      using attach_connections [of "snd uuids" now stream cid d1] by simp
    have b: "detach_session now stream cid t d1 = (x, d2) \<Longrightarrow> connections d2 = connections d1" for x d2 t
      using detach_connections [of now stream cid t d1] by simp
    show ?thesis using assms u Inr a b
      by (auto simp: observe_tx_def Let_def split: option.splits if_splits sum.splits prod.splits)
  qed
  then show ?thesis using 1 by (auto simp: status_at_def)
qed

lemma ObserveIngest_status:
  "status_at (snd (ObserveIngest uuids now edge conn stream protocol connected seen grace h d)) K = status_at d K \<or>
   (K = (edge, conn) \<and> status_at (snd (ObserveIngest uuids now edge conn stream protocol connected seen grace h d)) K =
      Some (if connected then Connected else Disconnected))"
proof (cases "observe_tx uuids now edge conn stream protocol connected (truncate_ms seen) grace h d")
  case (Inl err)
  then have "snd (ObserveIngest uuids now edge conn stream protocol connected seen grace h d) = d" by (simp add: ObserveIngest_def)
  then show ?thesis by simp
next
  case (Inr p)
  then have "snd (ObserveIngest uuids now edge conn stream protocol connected seen grace h d) \<in> {d, snd p}" by (cases p) (simp add: ObserveIngest_def)
  then show ?thesis using observe_tx_status [of uuids now edge conn stream protocol connected "truncate_ms seen" grace h d "fst p" "snd p" K] Inr by auto
qed

lemma observe_list_status:
  assumes "status_at d K = Some Connected" "status_at (snd (observe_list e edge grace os d)) K \<noteq> Some Connected"
  shows "\<exists>stream conn protocol. (stream, conn, protocol, False) \<in> set os \<and> K = (edge, conn)"
  using assms
proof (induction os arbitrary: d)
  case (Cons ob os)
  obtain stream conn protocol connected where o: "ob = (stream, conn, protocol, connected)" by (cases ob) auto
  let ?o = "ObserveIngest (po_uuids e stream) (po_now e) edge conn stream protocol connected (po_now e) grace None d"
  obtain r d' where r: "?o = (r, d')" by fastforce
  have s: "status_at d' K = status_at d K \<or> (K = (edge, conn) \<and> status_at d' K = Some (if connected then Connected else Disconnected))"
    using ObserveIngest_status [of "po_uuids e stream" "po_now e" edge conn stream protocol connected "po_now e" grace None d K] r by simp
  show ?case
  proof (cases "status_at d' K = Some Connected")
    case False
    then show ?thesis using s Cons.prems(1) o by (cases connected) auto
  next
    case True
    then show ?thesis using Cons.IH [of d'] Cons.prems(2) r o by (cases r) auto
  qed
qed simp

section \<open>Properties\<close>

text \<open>C7: A poll of the edge never makes up a disconnect: a connection that was admitted is only recorded as gone if the edge returned a complete
  snapshot, the connection is one of this edge, the snapshot does not show it as the source of its stream, and it was last seen longer than the grace
  period ago. A poll that fails on any page changes nothing.\<close>

theorem poll_never_fabricates_disconnects:
  assumes "status_at d (edge', conn) = Some Connected" "status_at (snd (pollEdge e edge grace d)) (edge', conn) \<noteq> Some Connected"
  shows "\<exists>active v. collect_pages (po_edge e) (po_budget e) 0 [] = Some active \<and> edge' = edge \<and> v \<in> set (connections d) \<and> ic_edge v = edge \<and>
    ic_connection v = conn \<and> map_option snd (map_of active (ic_stream v)) \<noteq> Some conn \<and> grace < time_sub (po_now e) (ic_last_seen v)"
proof (cases "collect_pages (po_edge e) (po_budget e) 0 []")
  case None
  then show ?thesis using assms by (simp add: pollEdge_def)
next
  case (Some active)
  obtain r1 d1 where 1: "observe_list e edge grace (missing e edge grace active d) d = (r1, d1)" by fastforce
  obtain r2 d2 where 2: "observe_list e edge grace (present e active) d1 = (r2, d2)" by fastforce
  have pres: "(stream, i, protocol, False) \<notin> set (present e active)" for stream i protocol
    by (auto simp: present_def map_filter_def)
  have "status_at d2 (edge', conn) = Some Connected" if "status_at d1 (edge', conn) = Some Connected"
    using observe_list_status [OF that, of e edge grace "present e active"] 2 pres by auto
  moreover have "status_at (x\<lparr>edge_health := y\<rparr>) K = status_at x K" for x y K by (simp add: status_at_def)
  ultimately have "status_at d1 (edge', conn) \<noteq> Some Connected"
    using assms(2) by (cases r1; cases r2) (auto simp: pollEdge_def Some 1 2)
  then obtain stream protocol where "(stream, conn, protocol, False) \<in> set (missing e edge grace active d)" "edge' = edge"
    using observe_list_status [OF assms(1), of e edge grace "missing e edge grace active d"] 1 by auto
  then show ?thesis unfolding missing_def using Some by (fastforce split: option.splits)
qed

definition demo_empty_edge :: poll_env where
  "demo_empty_edge = demo_poll\<lparr>po_edge := (\<lambda>_. Some \<lparr>pg_items = [], pg_count = 1\<rparr>)\<rparr>"

lemma demo_edge_status:
  "status_at demo_db2 (''edge'', ''conn'') = Some Connected" "status_at (snd (pollEdge demo_empty_edge ''edge'' (30 * second) demo_db2)) (''edge'', ''conn'') = Some Disconnected"
  by code_simp+

theorem poll_never_fabricates_disconnects_witness:
  "\<exists>v \<in> set (connections demo_db2). ic_connection v = ''conn'' \<and> 30 * second < time_sub (100 * second) (ic_last_seen v)"
  using poll_never_fabricates_disconnects [of demo_db2 "''edge''" "''conn''" demo_empty_edge "''edge''" "30 * second"] demo_edge_status
  by (auto simp: demo_empty_edge_def demo_poll_def)

end
