(* ===== verification/Worker_Files.thy ===== *)
theory Worker_Files
  imports Worker_Runtime "HOL-Library.Multiset" "HOL-Library.List_Lexorder" "HOL-Library.Char_ord"
begin

text \<open>
  The private directory of a worker and the transport that fills it, \<^verbatim>\<open>backend/internal/runtime/workerio/io.go\<close>, and the
  archive that \<^verbatim>\<open>backend/internal/runtime/docker/docker.go\<close> sends through it at a start. The directory is a map from
  names to files; an archive is the sequence of results of the tar reader, with the number of blocks that each takes of the
  input, so that the reader of the worker sees the input cut where its limit is. The faults of the file system are an argument:
  a call that a fault names fails. The staging directory is removed on every path, so it is only a value.
\<close>

section \<open>Files and archives\<close>

datatype dir_entry = RegularFile string | SpecialFile

type_synonym directory = "string \<rightharpoonup> dir_entry"

record tar_entry =
  te_name :: string
  te_regular :: bool
  te_pax :: bool
  te_link :: string
  te_size :: int
  te_data :: string
  te_header :: nat
  te_ends :: "nat list"

datatype tar_event = TarEntry tar_entry | TarError

record io_faults =
  no_directory :: bool
  no_staging :: bool
  stage_fault :: "string \<Rightarrow> bool"
  rename_fault :: "string \<Rightarrow> bool"
  read_error :: "string \<Rightarrow> bool"
  create_fault :: bool

datatype transport_error =
    FileUnavailable | NotRegularFile | FileSizeInvalid | SnapshotInvalid | MarkerUnavailable | DirectoryUnavailable | StagingUnavailable
  | ArchiveInvalid | EntryRejected | StagingFailed | ArchiveTruncated | ArchiveEmpty | HandoffFailed | UnknownMode | RenameFailed

definition readRegular :: "io_faults \<Rightarrow> directory \<Rightarrow> string \<Rightarrow> nat \<Rightarrow> transport_error + string" where
  "readRegular flt dir name limit =
     (case dir name of
        None \<Rightarrow> Inl FileUnavailable
      | Some SpecialFile \<Rightarrow> Inl NotRegularFile
      | Some (RegularFile b) \<Rightarrow> if read_error flt name \<or> b = [] \<or> length b > limit then Inl FileSizeInvalid else Inr b)"

text \<open>\<open>json\<close> decodes one resource vector strictly: no unknown field and nothing after it.\<close>

definition read_resources :: "(string \<Rightarrow> resource_vector option) \<Rightarrow> io_faults \<Rightarrow> directory \<Rightarrow> string \<Rightarrow> transport_error + string" where
  "read_resources json flt dir name =
     (case readRegular flt dir name 4096 of
        Inl e \<Rightarrow> Inl e
      | Inr b \<Rightarrow>
          (case json b of
             None \<Rightarrow> Inl SnapshotInvalid
           | Some r \<Rightarrow>
               if Slots r \<le> 0 \<or> CPUMillis r < 0 \<or> MemoryBytes r < 0 \<or> IngressBPS r < 0 \<or> EgressBPS r < 0 then Inl SnapshotInvalid else Inr b))"

section \<open>Receiving an archive\<close>

definition entry_limit :: "string \<Rightarrow> int" where
  "entry_limit name = (if name = ''fallback_asset'' then 50 * 2 ^ 20 else 2 ^ 20)"

definition entry_rejected :: "tar_entry \<Rightarrow> string list \<Rightarrow> int \<Rightarrow> bool" where
  "entry_rejected h names tot \<longleftrightarrow>
     \<not> te_regular h \<or> te_pax h \<or> te_link h \<noteq> [] \<or> te_name h = ''ready'' \<or>
     (\<not> ValidID (te_name h) \<and> te_name h \<noteq> ''resources.json'' \<and> te_name h \<noteq> ''resources.next'' \<and> te_name h \<noteq> ''destinations.json'') \<or>
     te_name h \<in> set names \<or> length names \<ge> 32 \<or> te_size h < 0 \<or> te_size h > entry_limit (te_name h) \<or> tot > 54 * 2 ^ 20 + 4096"

text \<open>
  The input of the reader ends after \<open>n\<close> blocks of 512 bytes (\<^verbatim>\<open>io.LimitReader\<close>; the limit is a whole number of
  blocks). An entry takes \<open>te_header\<close> blocks, one unless it has extended headers, and its contents padded to full blocks. An
  input that ends where a header could begin ends the archive without an error; \<open>te_ends\<close> are the places inside of extended
  headers where it does so too, and elsewhere in a header it is an error. Contents that are cut off are shorter than their size.
\<close>

definition blocks :: "int \<Rightarrow> nat" where
  "blocks k = (nat k + 511) div 512"

fun limit_reader :: "nat \<Rightarrow> tar_event list \<Rightarrow> tar_event list" where
  "limit_reader n [] = []"
| "limit_reader n (TarError # evs) = (if n = 0 then [] else [TarError])"
| "limit_reader n (TarEntry h # evs) =
     (if n = 0 then []
      else if n < te_header h then (if n \<in> set (te_ends h) then [] else [TarError])
      else TarEntry (h\<lparr>te_data := take (512 * (n - te_header h)) (te_data h)\<rparr>)
        # limit_reader (n - te_header h - blocks (te_size h)) evs)"

definition input_limit :: nat where
  "input_limit = 56 * 2 ^ 20"

text \<open>The loop over the archive; the staged files are collected in the order of their names.\<close>

fun stage_entries :: "io_faults \<Rightarrow> tar_event list \<Rightarrow> int \<Rightarrow> (string \<times> string) list \<Rightarrow> transport_error + (string \<times> string) list" where
  "stage_entries flt [] tot staged = Inr staged"
| "stage_entries flt (TarError # evs) tot staged = Inl ArchiveInvalid"
| "stage_entries flt (TarEntry h # evs) tot staged =
     (let tot' = i64 (tot + te_size h) in
      if entry_rejected h (map fst staged) tot' then Inl EntryRejected
      else if stage_fault flt (te_name h) then Inl StagingFailed
      else if int (length (te_data h)) < te_size h then Inl ArchiveTruncated
      else stage_entries flt evs tot' (staged @ [(te_name h, take (nat (te_size h)) (te_data h))]))"

fun rename_all :: "io_faults \<Rightarrow> (string \<times> string) list \<Rightarrow> directory \<Rightarrow> (transport_error + unit) \<times> directory" where
  "rename_all flt [] dir = (Inr (), dir)"
| "rename_all flt ((name, b) # fs) dir =
     (if rename_fault flt name then (Inl HandoffFailed, dir) else rename_all flt fs (dir(name \<mapsto> RegularFile b)))"

definition receive :: "io_faults \<Rightarrow> tar_event list \<Rightarrow> directory \<Rightarrow> (transport_error + unit) \<times> directory" where
  "receive flt archive dir =
     (if no_directory flt then (Inl DirectoryUnavailable, dir)
      else if no_staging flt then (Inl StagingUnavailable, dir)
      else case stage_entries flt (limit_reader (input_limit div 512) archive) 0 [] of
          Inl e \<Rightarrow> (Inl e, dir)
        | Inr [] \<Rightarrow> (Inl ArchiveEmpty, dir)
        | Inr staged \<Rightarrow> rename_all flt staged dir)"

text \<open>The modes of the transport, with what they write to the output; \<open>host\<close> holds the two files outside the directory.\<close>

definition executeAt ::
  "(string \<Rightarrow> resource_vector option) \<Rightarrow> directory \<Rightarrow> io_faults \<Rightarrow> string \<Rightarrow> tar_event list \<Rightarrow> directory \<Rightarrow> (transport_error + string) \<times> directory" where
  "executeAt json host flt mode input dir =
     (if mode = ''receive'' then (case receive flt input dir of (Inl e, dir') \<Rightarrow> (Inl e, dir') | (Inr _, dir') \<Rightarrow> (Inr [], dir'))
      else if mode = ''activate'' then
        (case read_resources json flt dir ''resources.json'' of
           Inl e \<Rightarrow> (Inl e, dir)
         | Inr _ \<Rightarrow>
             (case readRegular flt dir ''control_token'' (2 ^ 20) of
                Inl e \<Rightarrow> (Inl e, dir)
              | Inr _ \<Rightarrow>
                  if dir ''ready'' \<noteq> None \<or> create_fault flt then (Inl MarkerUnavailable, dir)
                  else (Inr [], dir(''ready'' \<mapsto> RegularFile []))))
      else if mode = ''read-resources'' then (read_resources json flt dir ''resources.json'', dir)
      else if mode = ''read-token'' then (readRegular flt dir ''control_token'' (2 ^ 20), dir)
      else if mode = ''commit-resources'' then
        (case read_resources json flt dir ''resources.next'' of
           Inl e \<Rightarrow> (Inl e, dir)
         | Inr _ \<Rightarrow>
             if rename_fault flt ''resources.next'' then (Inl RenameFailed, dir)
             else (Inr [], dir(''resources.json'' := dir ''resources.next'', ''resources.next'' := None)))
      else if mode = ''read-stat'' then (readRegular flt host ''/proc/1/stat'' 8192, dir)
      else if mode = ''read-memory'' then (readRegular flt host ''/sys/fs/cgroup/memory.current'' 8192, dir)
      else (Inl UnknownMode, dir))"

section \<open>The archive of a start\<close>

definition start_archive :: "(string \<times> string) list \<Rightarrow> string \<Rightarrow> tar_event list" where
  "start_archive files resources =
     map (\<lambda>(name, b). TarEntry \<lparr>te_name = name, te_regular = True, te_pax = False, te_link = [], te_size = int (length b), te_data = b,
         te_header = 1, te_ends = []\<rparr>)
       (sort_key fst (filter (\<lambda>f. fst f \<noteq> ''ready'') (AList.update ''resources.json'' resources files)))"

section \<open>What a handoff changes\<close>

lemma stage_names:
  assumes "stage_entries flt evs tot staged = Inr fs" "distinct (map fst staged)"
    "\<forall>f \<in> set staged. fst f \<noteq> ''ready'' \<and> (ValidID (fst f) \<or> fst f \<in> {''resources.json'', ''resources.next'', ''destinations.json''})"
    "length staged \<le> 32"
  shows "distinct (map fst fs) \<and> length fs \<le> 32 \<and>
    (\<forall>f \<in> set fs. fst f \<noteq> ''ready'' \<and> (ValidID (fst f) \<or> fst f \<in> {''resources.json'', ''resources.next'', ''destinations.json''}))"
  using assms
proof (induction flt evs tot staged rule: stage_entries.induct)
  case (3 flt h evs tot staged)
  then show ?case by (fastforce simp: Let_def entry_rejected_def split: if_splits)
qed auto

lemma rename_all_other: "name \<notin> fst ` set fs \<Longrightarrow> snd (rename_all flt fs dir) name = dir name"
  by (induction fs arbitrary: dir) auto

lemma rename_all_delivers:
  assumes "rename_all flt fs dir = (Inr u, dir')" "distinct (map fst fs)"
  shows "dir' = (\<lambda>name. case map_of fs name of None \<Rightarrow> dir name | Some b \<Rightarrow> Some (RegularFile b))"
  using assms
proof (induction fs arbitrary: dir)
  case (Cons f fs)
  obtain name b where f: "f = (name, b)" by fastforce
  have "map_of fs name = None" using Cons.prems(2) by (simp add: f map_of_eq_None_iff)
  moreover have "rename_all flt fs (dir(name \<mapsto> RegularFile b)) = (Inr u, dir')" using Cons.prems(1) by (simp add: f split: if_splits)
  then have "dir' = (\<lambda>n. case map_of fs n of None \<Rightarrow> (dir(name \<mapsto> RegularFile b)) n | Some b \<Rightarrow> Some (RegularFile b))"
    by (rule Cons.IH) (use Cons.prems(2) in simp)
  ultimately show ?case by (auto simp: f fun_eq_iff split: option.splits)
qed simp

lemma rename_all_ok: "(\<And>f. f \<in> set fs \<Longrightarrow> \<not> rename_fault flt (fst f)) \<Longrightarrow> \<exists>dir'. rename_all flt fs dir = (Inr (), dir')"
  by (induction fs arbitrary: dir) force+

lemma update_new_key: "k \<notin> fst ` set xs \<Longrightarrow> AList.update k v xs = xs @ [(k, v)]"
  by (induction xs) auto

abbreviation tar_file :: "string \<times> string \<Rightarrow> tar_event" where
  "tar_file f \<equiv> TarEntry \<lparr>te_name = fst f, te_regular = True, te_pax = False, te_link = [], te_size = int (length (snd f)), te_data = snd f, te_header = 1, te_ends = []\<rparr>"

definition sendable :: "string \<times> string \<Rightarrow> bool" where
  "sendable f \<longleftrightarrow> fst f \<noteq> ''ready'' \<and> (ValidID (fst f) \<or> fst f \<in> {''resources.json'', ''destinations.json''}) \<and> int (length (snd f)) \<le> entry_limit (fst f)"

definition payload :: "(string \<times> string) list \<Rightarrow> nat" where
  "payload fs = (\<Sum>f\<leftarrow>fs. length (snd f))"

lemma stage_sendable:
  assumes "distinct (map fst (staged @ fs))" "\<forall>f \<in> set fs. sendable f" "\<forall>f \<in> set fs. \<not> stage_fault flt (fst f)"
    and "length staged + length fs \<le> 32" "payload staged + payload fs \<le> 54 * 2 ^ 20 + 4096"
  shows "stage_entries flt (map tar_file fs) (int (payload staged)) staged = Inr (staged @ fs)"
  using assms
proof (induction fs arbitrary: staged)
  case (Cons f fs)
  have sum: "payload staged + length (snd f) + payload fs \<le> 54 * 2 ^ 20 + 4096" using Cons.prems(5) by (simp add: payload_def)
  then have "i64 (int (payload staged) + int (length (snd f))) = int (payload (staged @ [f]))"
    by (subst i64_id) (auto simp: in_i64_def payload_def)
  moreover have "\<not> entry_rejected \<lparr>te_name = fst f, te_regular = True, te_pax = False, te_link = [], te_size = int (length (snd f)), te_data = snd f, te_header = 1, te_ends = []\<rparr>
      (map fst staged) (int (payload (staged @ [f])))"
    using Cons.prems(1,2,4) sum by (auto simp: entry_rejected_def sendable_def payload_def)
  moreover have "stage_entries flt (map tar_file fs) (int (payload (staged @ [f]))) (staged @ [f]) = Inr ((staged @ [f]) @ fs)"
    by (rule Cons.IH) (use Cons.prems sum in \<open>auto simp: payload_def\<close>)
  ultimately show ?case using Cons.prems(3) by (simp add: Let_def)
qed simp

text \<open>An archive of the files of a start ends before the limit of the reader, with its headers and its padding.\<close>

definition archive_blocks :: "(string \<times> string) list \<Rightarrow> nat" where
  "archive_blocks fs = (\<Sum>f\<leftarrow>fs. 1 + blocks (int (length (snd f))))"

lemma limit_reader_all: "archive_blocks fs \<le> n \<Longrightarrow> limit_reader n (map tar_file fs) = map tar_file fs"
proof (induction fs arbitrary: n)
  case (Cons f fs)
  have b: "length (snd f) \<le> 512 * blocks (int (length (snd f)))" by (simp add: blocks_def)
  have n: "1 + blocks (int (length (snd f))) + archive_blocks fs \<le> n" using Cons.prems by (simp add: archive_blocks_def)
  then have "length (snd f) \<le> 512 * (n - 1)" using b by linarith
  moreover have "limit_reader (n - 1 - blocks (int (length (snd f)))) (map tar_file fs) = map tar_file fs"
    by (rule Cons.IH) (use n in simp)
  ultimately show ?case using n by simp
qed simp

lemma archive_blocks_bound: "512 * archive_blocks fs \<le> payload fs + 1023 * length fs"
proof (induction fs)
  case (Cons f fs)
  have "512 * blocks (int (length (snd f))) \<le> length (snd f) + 511" by (simp add: blocks_def)
  with Cons show ?case by (simp add: archive_blocks_def payload_def)
qed (simp add: archive_blocks_def payload_def)

lemma limit_reader_sendable:
  assumes "length fs \<le> 32" "payload fs \<le> 54 * 2 ^ 20 + 4096"
  shows "limit_reader (input_limit div 512) (map tar_file fs) = map tar_file fs"
  by (rule limit_reader_all) (use assms archive_blocks_bound [of fs] in \<open>simp add: input_limit_def\<close>)

lemma validate_files_sendable:
  "validate_files t fs = None \<Longrightarrow> (\<forall>f \<in> set fs. sendable f \<and> fst f \<noteq> ''resources.json'') \<and> (fs \<noteq> [] \<longrightarrow> t + payload fs \<le> 54 * 2 ^ 20)"
proof (induction fs arbitrary: t)
  case (Cons f fs)
  have "\<not> ValidID ''resources.json''" using ValidID_no_separator [of "''resources.json''"] by auto
  moreover obtain name b where f: "f = (name, b)" by fastforce
  have 1: "t + length b \<le> 54 * 2 ^ 20" "validate_files (t + length b) fs = None"
      "name = ''fallback_asset'' \<Longrightarrow> length b \<le> 50 * 2 ^ 20" "name \<noteq> ''fallback_asset'' \<Longrightarrow> length b \<le> 2 ^ 20"
      "name \<noteq> ''ready''" "ValidID name \<or> name = ''destinations.json''"
    using Cons.prems unfolding f validate_files.simps Let_def MiB_def by (simp_all split: if_splits)
  ultimately have "sendable f \<and> fst f \<noteq> ''resources.json''" unfolding sendable_def entry_limit_def f by auto
  then show ?case using Cons.IH [OF 1(2)] 1(1) by (cases "fs = []") (auto simp: payload_def f)
qed simp

lemma payload_perm: "mset fs = mset gs \<Longrightarrow> payload fs = payload gs"
proof -
  assume "mset fs = mset gs"
  then have "mset (map (\<lambda>f. length (snd f)) fs) = mset (map (\<lambda>f. length (snd f)) gs)" by simp
  then show ?thesis unfolding payload_def sum_mset_sum_list [symmetric] by simp
qed

section \<open>Properties\<close>

lemma files_delivered:
  assumes "ValidateStart s = None" "distinct (map fst (Files s))" "length res \<le> 4096"
    and "\<not> no_directory flt" "\<not> no_staging flt" "\<And>name. \<not> stage_fault flt name \<and> \<not> rename_fault flt name"
  shows "receive flt (start_archive (Files s) res) dir =
    (Inr (), \<lambda>name. if name = ''resources.json'' then Some (RegularFile res)
       else case map_of (Files s) name of None \<Rightarrow> dir name | Some b \<Rightarrow> Some (RegularFile b))"
proof -
  let ?all = "Files s @ [(''resources.json'', res)]"
  define fs where "fs = sort_key fst ?all"
  have v: "validate_files 0 (Files s) = None" "length (Files s) \<le> 31"
    using assms(1) by (auto simp: ValidateStart_def split: if_splits option.splits)
  note ok = validate_files_sendable [OF v(1)]
  have new: "''resources.json'' \<notin> fst ` set (Files s)" using ok by force
  then have upd: "AList.update ''resources.json'' res (Files s) = ?all" by (rule update_new_key)
  have "filter (\<lambda>f. fst f \<noteq> ''ready'') ?all = ?all" using ok by (auto simp: filter_id_conv sendable_def)
  then have arch: "start_archive (Files s) res = map tar_file fs"
    unfolding start_archive_def upd fs_def by (simp add: case_prod_unfold)
  have mset: "mset fs = mset ?all" and set: "set fs = set ?all" by (simp_all add: fs_def)
  have dist: "distinct (map fst ?all)" using assms(2) new by simp
  moreover have "mset (map fst fs) = mset (map fst ?all)" using mset by simp
  ultimately have dist': "distinct (map fst fs)" using mset_eq_imp_distinct_iff by blast
  have "sendable (''resources.json'', res)" using assms(3) by (simp add: sendable_def entry_limit_def)
  then have "\<forall>f \<in> set fs. sendable f" using ok by (auto simp: set)
  moreover have len: "length fs \<le> 32" using v(2) by (simp add: fs_def)
  moreover have pay: "payload fs \<le> 54 * 2 ^ 20 + 4096"
    using ok assms(3) payload_perm [OF mset] by (cases "Files s = []") (auto simp: payload_def)
  ultimately have "stage_entries flt (map tar_file fs) 0 [] = Inr fs"
    using stage_sendable [of "[]" fs flt] dist' assms(6) by (simp add: payload_def)
  moreover have "fs \<noteq> []" using set by auto
  then obtain f fs' where "fs = f # fs'" by (cases fs) auto
  moreover obtain dir' where r: "rename_all flt fs dir = (Inr (), dir')" using rename_all_ok assms(6) by blast
  ultimately have "receive flt (start_archive (Files s) res) dir = (Inr (), dir')"
    using assms(4,5) limit_reader_sendable [OF len pay] by (simp add: receive_def arch)
  moreover have "map_of fs = map_of ?all" using map_of_inject_set [OF dist' dist] set by simp
  then have "dir' = (\<lambda>name. case map_of ?all name of None \<Rightarrow> dir name | Some b \<Rightarrow> Some (RegularFile b))"
    using rename_all_delivers [OF r dist'] by simp
  moreover have "map_of (Files s) ''resources.json'' = None" using new by (simp add: map_of_eq_None_iff)
  ultimately show ?thesis by (auto simp: map_add_def fun_eq_iff split: option.splits)
qed

text \<open>C8: The limits of the two ends of the file transport agree, the ones of the validation with those on the entries, on their
  total and on the length of the input with its headers and padding: for every specification that passes the validation of a start, the
  archive that the runtime sends, with a resource snapshot of at most 4096 bytes added, is received as a whole by a worker whose file system works, and its directory then holds
  exactly the files of the specification and the snapshot, besides what was there before.\<close>

theorem validated_files_delivered:
  assumes "ValidateStart s = None" "distinct (map fst (Files s))" "length res \<le> 4096"
    and "\<not> no_directory flt" "\<not> no_staging flt" "\<And>name. \<not> stage_fault flt name \<and> \<not> rename_fault flt name"
  shows "receive flt (start_archive (Files s) res) dir =
    (Inr (), \<lambda>name. if name = ''resources.json'' then Some (RegularFile res)
       else case map_of (Files s) name of None \<Rightarrow> dir name | Some b \<Rightarrow> Some (RegularFile b))"
  using assms by (rule files_delivered)

definition demo_files :: "(string \<times> string) list" where
  "demo_files = [(''source_token'', ''t''), (''destinations.json'', ''[]'')]"

definition demo_faults :: io_faults where
  "demo_faults = \<lparr>no_directory = False, no_staging = False, stage_fault = (\<lambda>_. False), rename_fault = (\<lambda>_. False), read_error = (\<lambda>_. False), create_fault = False\<rparr>"

theorem validated_files_delivered_witness:
  "snd (receive demo_faults (start_archive demo_files ''{}'') Map.empty) ''source_token'' = Some (RegularFile ''t'') \<and>
   snd (receive demo_faults (start_archive demo_files ''{}'') Map.empty) ''resources.json'' = Some (RegularFile ''{}'')"
proof -
  have "ValidateStart (demo_spec\<lparr>Files := demo_files\<rparr>) = None"
    by (simp add: ValidateStart_def demo_spec_def demo_files_def ValidID_def is_alnum_def Let_def MiB_def)
  from validated_files_delivered [OF this, of "''{}''" demo_faults Map.empty] show ?thesis
    by (simp add: demo_faults_def demo_files_def)
qed

text \<open>Whatever an archive holds, a handoff stays inside the private directory and out of the activation: it only ever replaces files whose
  names are plain identifiers or one of the three snapshots, never the marker that releases the worker, and a refused archive, or one that cannot be
  staged, leaves every file as it was.\<close>

lemma handoff_contained:
  assumes "receive flt archive dir = (res, dir')"
  shows "(res \<noteq> Inr () \<and> res \<noteq> Inl HandoffFailed \<longrightarrow> dir' = dir) \<and>
    (\<forall>name. dir' name \<noteq> dir name \<longrightarrow> name \<noteq> ''ready'' \<and> name \<noteq> [] \<and> CHR ''/'' \<notin> set name \<and> name \<noteq> ''..'')"
proof (cases "no_directory flt \<or> no_staging flt \<or> (\<exists>e. stage_entries flt (limit_reader (input_limit div 512) archive) 0 [] = Inl e) \<or>
    stage_entries flt (limit_reader (input_limit div 512) archive) 0 [] = Inr []")
  case True
  then show ?thesis using assms by (auto simp: receive_def split: sum.splits list.splits if_splits)
next
  case False
  then obtain fs where fs: "stage_entries flt (limit_reader (input_limit div 512) archive) 0 [] = Inr fs" "fs \<noteq> []" by (metis sumE)
  then have r: "rename_all flt fs dir = (res, dir')" using assms False by (cases fs) (auto simp: receive_def)
  have names: "f \<in> set fs \<Longrightarrow> fst f \<noteq> ''ready'' \<and> (ValidID (fst f) \<or> fst f \<in> {''resources.json'', ''resources.next'', ''destinations.json''})" for f
    using stage_names [OF fs(1)] by simp
  have "res = Inr () \<or> res = Inl HandoffFailed" using r
  proof (induction fs arbitrary: dir)
    case (Cons f fs)
    then show ?case by (cases f) (auto split: if_splits)
  qed simp
  moreover have "name \<noteq> ''ready'' \<and> name \<noteq> [] \<and> CHR ''/'' \<notin> set name \<and> name \<noteq> ''..''" if "dir' name \<noteq> dir name" for name
  proof -
    have "name \<in> fst ` set fs" using rename_all_other [of name fs flt dir] r that by auto
    then have "name \<noteq> ''ready'' \<and> (ValidID name \<or> name \<in> {''resources.json'', ''resources.next'', ''destinations.json''})" using names by auto
    then show ?thesis using ValidID_no_separator [of name] by auto
  qed
  ultimately show ?thesis by blast
qed

lemma handoff_contained_witness:
  "receive demo_faults [TarEntry \<lparr>te_name = ''../x'', te_regular = True, te_pax = False, te_link = [], te_size = 1, te_data = ''x'', te_header = 1, te_ends = []\<rparr>] Map.empty
     = (Inl EntryRejected, Map.empty)"
proof -
  let ?a = "[TarEntry \<lparr>te_name = ''../x'', te_regular = True, te_pax = False, te_link = [], te_size = 1, te_data = ''x'', te_header = 1, te_ends = []\<rparr>]"
  have r: "fst (receive demo_faults ?a Map.empty) = Inl EntryRejected"
    by (simp add: receive_def demo_faults_def input_limit_def entry_rejected_def ValidID_def is_alnum_def Let_def)
  have e: "receive demo_faults ?a Map.empty = (Inl EntryRejected, snd (receive demo_faults ?a Map.empty))" by (rule prod_eqI) (simp_all only: r prod.sel)
  from handoff_contained [OF e] have "snd (receive demo_faults ?a Map.empty) = Map.empty" by simp
  then show ?thesis by (rule trans [OF e arg_cong [where f = "Pair (Inl EntryRejected)"]])
qed

end
