(* ===== verification/Worker_Launch.thy ===== *)
theory Worker_Launch
  imports Control_Loop Worker_Files
begin

text \<open>
  From the control loop to the worker: what the controller writes into a start (\<^verbatim>\<open>backend/internal/control/controller.go\<close>) travels
  through the file transport of the runtime into the private directory, where the worker loads it
  (\<^verbatim>\<open>backend/internal/config/config.go\<close>).
\<close>

section \<open>Trimming\<close>

definition printable :: "char \<Rightarrow> bool" where
  "printable c \<longleftrightarrow> 33 \<le> (of_char c :: nat) \<and> (of_char c :: nat) \<le> 126"

lemma space_runes_unprintable: "p \<in> set space_runes \<Longrightarrow> c \<in> set p \<Longrightarrow> \<not> printable c"
  unfolding space_runes_def printable_def by auto

lemma trim_left_keeps:
  assumes "c \<in> set s" "\<And>p. p \<in> set ps \<Longrightarrow> c \<notin> set p"
  shows "c \<in> set (trim_left ps s)"
  using assms
proof (induction ps s rule: trim_left.induct)
  case (1 ps s)
  show ?case
  proof (cases "find (\<lambda>p. p \<noteq> [] \<and> prefix p s) ps")
    case None
    then show ?thesis using 1 by (simp add: trim_left.simps)
  next
    case (Some p)
    then have p: "prefix p s" "p \<in> set ps" by (auto simp: find_Some_iff)
    then have "c \<in> set (drop (length p) s)" using 1(2) 1(3) [OF p(2)] by (auto simp: prefix_def)
    then show ?thesis using 1(1) [OF Some] 1(3) Some by (subst trim_left.simps) simp
  qed
qed

lemma TrimSpace_nonempty: "c \<in> set s \<Longrightarrow> printable c \<Longrightarrow> TrimSpace s \<noteq> []"
proof -
  assume c: "c \<in> set s" "printable c"
  have 1: "c \<in> set (trim_left space_runes s)" by (rule trim_left_keeps [OF c(1)]) (use c(2) space_runes_unprintable in blast)
  have "c \<in> set (trim_left (map rev space_runes) (rev (trim_left space_runes s)))"
    by (rule trim_left_keeps) (use 1 c(2) space_runes_unprintable in auto)
  then show ?thesis by (auto simp: TrimSpace_def trim_right_def)
qed

lemma trim_left_id:
  assumes "s \<noteq> []" "\<And>p. p \<in> set ps \<Longrightarrow> hd s \<notin> set p"
  shows "trim_left ps s = s"
proof -
  have "find (\<lambda>p. p \<noteq> [] \<and> prefix p s) ps = None"
    unfolding find_None_iff using assms by (force simp: prefix_def neq_Nil_conv)
  then show ?thesis by (simp add: trim_left.simps)
qed

lemma TrimSpace_id: "s \<noteq> [] \<Longrightarrow> printable (hd s) \<Longrightarrow> printable (last s) \<Longrightarrow> TrimSpace s = s"
proof -
  assume s: "s \<noteq> []" "printable (hd s)" "printable (last s)"
  have 1: "trim_left space_runes s = s" by (rule trim_left_id [OF s(1)]) (use s(2) space_runes_unprintable in blast)
  have "trim_left (map rev space_runes) (rev s) = rev s"
    by (rule trim_left_id) (use s space_runes_unprintable in \<open>auto simp: hd_rev\<close>)
  then show ?thesis by (simp add: TrimSpace_def trim_right_def 1)
qed

section \<open>What the worker sees\<close>

text \<open>The environment of the container and the files under the directory of the secrets; the parsers are those of \<open>e\<close>.\<close>

definition worker_view :: "config_env \<Rightarrow> worker_spec \<Rightarrow> directory \<Rightarrow> config_env" where
  "worker_view e s pdir = e\<lparr>ce_lookup := map_of (Environment s),
     ce_read_file := (\<lambda>p. if take 13 p = ''/run/secrets/'' then (case pdir (drop 13 p) of Some (RegularFile b) \<Rightarrow> Some b | _ \<Rightarrow> None) else None)\<rparr>"

lemma worker_view_url [simp]: "validateURL (worker_view e s pdir) raw scheme = validateURL e raw scheme"
  by (simp add: validateURL_def worker_view_def)

lemma worker_view_json [simp]:
  "ce_json_documents (worker_view e s pdir) = ce_json_documents e" "ce_json_media (worker_view e s pdir) = ce_json_media e"
  by (simp_all add: worker_view_def)

lemma worker_view_file: "pdir name = Some (RegularFile b) \<Longrightarrow> ce_read_file (worker_view e s pdir) (''/run/secrets/'' @ name) = Some b"
  by (simp add: worker_view_def)

lemma launch_lookup:
  assumes "Environment s = worker_environment c session policy media source asset"
  shows "ce_lookup (worker_view e s pdir) ''WORKER_MEDIA_PROFILE'' = Some (ctl_json_media c media)"
    "ce_lookup (worker_view e s pdir) ''WORKER_SLATE_ON_SOURCE_LOSS'' = Some (format_bool (sp_on_loss policy))"
    "ce_lookup (worker_view e s pdir) ''WORKER_SLATE_FORCED'' = Some (format_bool (sp_forced policy))"
    "ce_lookup (worker_view e s pdir) ''WORKER_SESSION_ID'' = Some session"
    "ce_lookup (worker_view e s pdir) ''WORKER_SOURCE_URL'' = Some source"
    "ce_lookup (worker_view e s pdir) ''WORKER_SOURCE_AUTH'' = Some ''token''"
    "ce_lookup (worker_view e s pdir) ''WORKER_SOURCE_TOKEN_FILE'' = Some ''/run/secrets/source_token''"
    "ce_lookup (worker_view e s pdir) ''WORKER_DESTINATIONS_FILE'' = Some ''/run/secrets/destinations.json''"
    "ce_lookup (worker_view e s pdir) ''WORKER_QUEUE_MAX_BYTES'' = None"
    "ce_lookup (worker_view e s pdir) ''WORKER_RECONNECT_MIN'' = None"
    "ce_lookup (worker_view e s pdir) ''WORKER_RECONNECT_MAX'' = None"
    "ce_lookup (worker_view e s pdir) ''WORKER_RECONNECT_MAX_ATTEMPTS'' = None"
    "ce_lookup (worker_view e s pdir) ''WORKER_STABLE_INTERVAL'' = None"
    "ce_lookup (worker_view e s pdir) ''WORKER_SHUTDOWN_TIMEOUT'' = None"
proof -
  define base where "base = (case asset of Some (kind, content) \<Rightarrow>
      if content \<noteq> [] then AList.update (if kind = ''video'' then ''WORKER_FALLBACK_VIDEO'' else ''WORKER_FALLBACK_IMAGE'')
        ''/run/secrets/fallback_asset'' (base_environment policy session source) else base_environment policy session source
    | None \<Rightarrow> base_environment policy session source)"
  have base: "map_of base k = map_of (base_environment policy session source) k"
    if "k \<noteq> ''WORKER_FALLBACK_VIDEO''" "k \<noteq> ''WORKER_FALLBACK_IMAGE''" for k
    using that unfolding base_def by (auto simp: update_conv' split: option.split)
  have l: "ce_lookup (worker_view e s pdir) k = (if k = ''ALLOWED_DESTINATION_HOSTS'' then Some (ctl_AllowedHosts c) else if k = ''STREAMTOOL_ENV''
      then Some (ctl_Environment c) else if k = ''WORKER_MEDIA_PROFILE'' then Some (ctl_json_media c media) else map_of base k)" for k
    unfolding worker_view_def assms worker_environment_def base_def by (simp add: update_conv')
  show "ce_lookup (worker_view e s pdir) ''WORKER_MEDIA_PROFILE'' = Some (ctl_json_media c media)"
    "ce_lookup (worker_view e s pdir) ''WORKER_SLATE_ON_SOURCE_LOSS'' = Some (format_bool (sp_on_loss policy))"
    "ce_lookup (worker_view e s pdir) ''WORKER_SLATE_FORCED'' = Some (format_bool (sp_forced policy))"
    "ce_lookup (worker_view e s pdir) ''WORKER_SESSION_ID'' = Some session"
    "ce_lookup (worker_view e s pdir) ''WORKER_SOURCE_URL'' = Some source"
    "ce_lookup (worker_view e s pdir) ''WORKER_SOURCE_AUTH'' = Some ''token''"
    "ce_lookup (worker_view e s pdir) ''WORKER_SOURCE_TOKEN_FILE'' = Some ''/run/secrets/source_token''"
    "ce_lookup (worker_view e s pdir) ''WORKER_DESTINATIONS_FILE'' = Some ''/run/secrets/destinations.json''"
    "ce_lookup (worker_view e s pdir) ''WORKER_QUEUE_MAX_BYTES'' = None"
    "ce_lookup (worker_view e s pdir) ''WORKER_RECONNECT_MIN'' = None"
    "ce_lookup (worker_view e s pdir) ''WORKER_RECONNECT_MAX'' = None"
    "ce_lookup (worker_view e s pdir) ''WORKER_RECONNECT_MAX_ATTEMPTS'' = None"
    "ce_lookup (worker_view e s pdir) ''WORKER_STABLE_INTERVAL'' = None"
    "ce_lookup (worker_view e s pdir) ''WORKER_SHUTDOWN_TIMEOUT'' = None"
    unfolding l by (simp_all add: base base_environment_def)
qed

section \<open>The files of a start\<close>

lemma destination_secrets_of:
  assumes "destination_secrets c stream dests = Some fs"
  shows "map fst fs = map (\<lambda>d. ''destination-'' @ de_id d) dests"
    "d \<in> set dests \<Longrightarrow> \<exists>secret. ctl_decrypt c d (stream @ '':'' @ de_name d) = Some secret \<and> (''destination-'' @ de_id d, secret) \<in> set fs"
  using assms by (induction dests arbitrary: fs) (fastforce split: option.splits)+

definition secret_of :: "'g control_env \<Rightarrow> string \<Rightarrow> destination_row \<Rightarrow> string" where
  "secret_of c stream d = the (ctl_decrypt c d (stream @ '':'' @ de_name d))"

lemma start_files_lookup:
  assumes secrets: "destination_secrets c stream dests = Some fs" and ids: "distinct (map de_id dests)"
    and files_def: "files = start_files c tk stream alloc generation (fs @ [(''destinations.json'', docs)])"
  shows "map_of files ''destinations.json'' = Some docs"
    "map_of files ''source_token'' = Some (SignEdgeToken (ctl_hmac c) (ctl_codecs c)
       \<lparr>cl_StreamID = stream, cl_Action = ''read'', cl_ExpiresAt = 0, cl_AllocationID = alloc, cl_Generation = generation\<rparr> (ctl_ReadKey c))"
    "d \<in> set dests \<Longrightarrow> map_of files (''destination-'' @ de_id d) = Some (secret_of c stream d)"
proof -
  note names = destination_secrets_of [OF secrets]
  have no: "k \<notin> fst ` set fs" if "take 12 k \<noteq> ''destination-''" for k
  proof -
    have "fst ` set fs = (\<lambda>d. ''destination-'' @ de_id d) ` set dests" using arg_cong [OF names(1), of set] by simp
    then show ?thesis using that by auto
  qed
  have base: "map_of files k = map_of (fs @ [(''destinations.json'', docs)]) k"
    if "k \<noteq> ''control_token''" "k \<noteq> ''source_token''" "k \<noteq> ''fallback_asset''" for k
    using that unfolding files_def start_files_def by (auto simp: update_conv' split: option.split)
  have "map_of fs ''destinations.json'' = None" using no [of "''destinations.json''"] by (simp add: map_of_eq_None_iff)
  then show "map_of files ''destinations.json'' = Some docs" by (simp add: base map_add_def)
  show "map_of files ''source_token'' = Some (SignEdgeToken (ctl_hmac c) (ctl_codecs c)
       \<lparr>cl_StreamID = stream, cl_Action = ''read'', cl_ExpiresAt = 0, cl_AllocationID = alloc, cl_Generation = generation\<rparr> (ctl_ReadKey c))"
    by (simp add: files_def start_files_def update_conv')
  show "map_of files (''destination-'' @ de_id d) = Some (secret_of c stream d)" if "d \<in> set dests"
  proof -
    from names(2) [OF that] obtain secret where s: "ctl_decrypt c d (stream @ '':'' @ de_name d) = Some secret" "(''destination-'' @ de_id d, secret) \<in> set fs"
      by blast
    have "distinct (map fst fs)" unfolding names(1) using ids by (simp add: distinct_map inj_on_def)
    then have "map_of fs (''destination-'' @ de_id d) = Some secret" using s(2) by simp
    then show ?thesis using s(1) by (simp add: base secret_of_def map_add_def)
  qed
qed

section \<open>Loading\<close>

definition loaded_destination :: "'g control_env \<Rightarrow> string \<Rightarrow> destination_row \<Rightarrow> config_destination" where
  "loaded_destination c stream d =
     \<lparr>cd_id = de_id d, cd_generation = nat (de_generation d), cd_url = de_endpoint d, cd_secret = TrimSpace (secret_of c stream d)\<rparr>"

text \<open>What the application lets into the table of outputs: an identity, a version, an endpoint and a key that are not empty.\<close>

definition output_ok :: "config_env \<Rightarrow> 'g control_env \<Rightarrow> string \<Rightarrow> destination_row \<Rightarrow> bool" where
  "output_ok e c stream d \<longleftrightarrow>
     de_id d \<noteq> [] \<and> 1 \<le> de_generation d \<and> de_generation d < 2 ^ 63 \<and> validateURL e (de_endpoint d) ''rtmp'' \<and> TrimSpace (secret_of c stream d) \<noteq> []"

lemma resolve_outputs:
  assumes "\<And>d. d \<in> set dests \<Longrightarrow> output_ok e c stream d \<and> ce_read_file e (''/run/secrets/destination-'' @ de_id d) = Some (secret_of c stream d)"
    and "distinct (map de_id dests)" "de_id ` set dests \<inter> set seen = {}"
  shows "resolve_loop e seen result (map document_of dests) = Inr (rev result @ map (loaded_destination c stream) dests)"
  using assms
proof (induction dests arbitrary: seen result)
  case (Cons d dests)
  have d: "output_ok e c stream d" "ce_read_file e (''/run/secrets/destination-'' @ de_id d) = Some (secret_of c stream d)" using Cons.prems(1) [of d] by auto
  then have g: "nat (de_generation d mod 2 ^ 64) = nat (de_generation d)" "nat (de_generation d) \<noteq> 0"
    by (simp_all add: output_ok_def mod_pos_pos_trivial)
  have "resolve_loop e (de_id d # seen) (loaded_destination c stream d # result) (map document_of dests)
      = Inr (rev (loaded_destination c stream d # result) @ map (loaded_destination c stream) dests)"
    by (rule Cons.IH) (use Cons.prems in auto)
  then show ?case using d g Cons.prems(3) by (simp add: document_of_def [of d] output_ok_def loaded_destination_def [of c stream d])
qed simp

lemma isUUID_printable:
  assumes "isUUID s"
  shows "TrimSpace s = s"
proof (rule TrimSpace_id)
  have l: "length s = 36" and c: "i < 36 \<Longrightarrow> if i \<in> {8, 13, 18, 23} then s ! i = CHR ''-'' else is_hex_digit (s ! i)" for i
    using assms by (auto simp: isUUID_def list_all_iff)
  show "s \<noteq> []" using l by auto
  have "is_hex_digit (s ! 0)" "is_hex_digit (s ! 35)" using c [of 0] c [of 35] by simp_all
  moreover have "printable x" if "is_hex_digit x" for x using that by (auto simp: is_hex_digit_def printable_def)
  ultimately show "printable (hd s)" "printable (last s)" using l by (simp_all add: hd_conv_nth last_conv_nth \<open>s \<noteq> []\<close>)
qed

section \<open>Properties\<close>

definition launched ::
  "'g control_env \<Rightarrow> tick \<Rightarrow> string \<Rightarrow> string \<Rightarrow> destination_row list \<Rightarrow> slate_policy \<Rightarrow> media_profile \<Rightarrow> resource_vector \<Rightarrow> string \<Rightarrow> nat \<Rightarrow> nat \<Rightarrow>
   string \<Rightarrow> worker_spec option" where
  "launched c tk session stream dests policy media r alloc generation tok source =
     (case destination_secrets c stream dests of
        None \<Rightarrow> None
      | Some fs \<Rightarrow> Some ((start_spec c session stream policy media r alloc generation tok source)\<lparr>Files :=
          start_files c tk stream alloc generation (fs @ [(''destinations.json'', ctl_json_documents c (map document_of dests))])\<rparr>))"

text \<open>C5: A worker loads what the control loop has configured. Take a start for a session with a valid media profile and one to eight outputs with different
  identities; let the JSON decoder of the worker invert the encoder of the controller. If the specification of the start passes its validation and its files are
  handed off, then the configuration of the worker loads without an error, and it has the session, the source, the media profile, the slate policy and
  the outputs of the controller, each output with its version and its key, and the source token, up to surrounding white space.\<close>

theorem worker_loads_what_is_launched:
  assumes launch: "launched c tk session stream dests policy media r alloc generation tok source = Some s"
    and valid: "ValidateStart s = None" "distinct (map fst (Files s))"
    and sent: "receive flt (start_archive (Files s) res) pdir0 = (Inr (), pdir)" "length res \<le> 4096"
      "\<not> no_directory flt" "\<not> no_staging flt" "\<And>name. \<not> stage_fault flt name \<and> \<not> rename_fault flt name"
    and json: "ce_json_documents e (ctl_json_documents c (map document_of dests)) = Some (map document_of dests)"
      "ce_json_media e DefaultMediaProfile (ctl_json_media c media) = Some media"
      "ctl_json_media c media \<noteq> []" "TrimSpace (ctl_json_media c media) = ctl_json_media c media"
    and session: "isUUID session" "MediaProfile_Validate media" "validateURL e source ''srt''" "TrimSpace source = source"
    and outputs: "dests \<noteq> []" "length dests \<le> 8" "distinct (map de_id dests)" "\<And>d. d \<in> set dests \<Longrightarrow> output_ok e c stream d"
  shows "\<exists>cfg. Load (worker_view e s pdir) = Inr cfg \<and> cf_session cfg = session \<and> cf_source_url cfg = source \<and> cf_media cfg = media \<and>
    cf_slate_on_loss cfg = sp_on_loss policy \<and> cf_slate_forced cfg = sp_forced policy \<and> cf_source_auth_token cfg \<and>
    cf_destinations cfg = map (loaded_destination c stream) dests \<and>
    cf_source_token cfg = TrimSpace (SignEdgeToken (ctl_hmac c) (ctl_codecs c)
       \<lparr>cl_StreamID = stream, cl_Action = ''read'', cl_ExpiresAt = 0, cl_AllocationID = alloc, cl_Generation = generation\<rparr> (ctl_ReadKey c))"
proof -
  let ?e = "worker_view e s pdir"
  let ?docs = "ctl_json_documents c (map document_of dests)"
  let ?token = "SignEdgeToken (ctl_hmac c) (ctl_codecs c)
       \<lparr>cl_StreamID = stream, cl_Action = ''read'', cl_ExpiresAt = 0, cl_AllocationID = alloc, cl_Generation = generation\<rparr> (ctl_ReadKey c)"
  obtain fs where fs: "destination_secrets c stream dests = Some fs"
    and s: "s = (start_spec c session stream policy media r alloc generation tok source)\<lparr>Files :=
      start_files c tk stream alloc generation (fs @ [(''destinations.json'', ?docs)])\<rparr>"
    using launch by (auto simp: launched_def split: option.splits)
  note files = start_files_lookup [OF fs outputs(3) refl, where tk = tk and alloc = alloc and generation = generation and docs = ?docs]
  have env: "Environment s = worker_environment c session policy media source (ctl_assets c stream)" by (simp add: s start_spec_def)
  note env = launch_lookup [OF env, of e pdir]
  have dir: "map_of (Files s) name = Some b \<Longrightarrow> name \<noteq> ''resources.json'' \<Longrightarrow> pdir name = Some (RegularFile b)" for name b
    using files_delivered [OF valid sent(2-5), of pdir0] sent(1) by (auto simp: fun_eq_iff)
  have read: "map_of (Files s) name = Some b \<Longrightarrow> name \<noteq> ''resources.json'' \<Longrightarrow> ce_read_file ?e (''/run/secrets/'' @ name) = Some b" for name b
    using dir worker_view_file by blast
  have "ce_read_file ?e (''/run/secrets/'' @ ''destination-'' @ de_id d) = Some (secret_of c stream d)" if "d \<in> set dests" for d
    by (rule read) (use files(3) [OF that] in \<open>simp_all add: s\<close>)
  then have "resolve_loop ?e [] [] (map document_of dests) = Inr (map (loaded_destination c stream) dests)"
    using resolve_outputs [of dests ?e c stream "[]" "[]"] outputs(3,4) by (simp add: output_ok_def)
  moreover have "ce_read_file ?e (''/run/secrets/'' @ ''destinations.json'') = Some ?docs" by (rule read) (use files(1) in \<open>simp_all add: s\<close>)
  ultimately have dests: "load_destinations ?e = Inr (map (loaded_destination c stream) dests)"
    using outputs(2) json(1) TrimSpace_id [of "''/run/secrets/destinations.json''"]
    by (simp add: load_destinations_def value_of_def env Let_def LoadDestinationSnapshot_def ResolveDestinationDocuments_def printable_def)
  have "ce_read_file ?e (''/run/secrets/'' @ ''source_token'') = Some ?token" by (rule read) (use files(2) in \<open>simp_all add: s\<close>)
  then have token: "secretFile ?e ''WORKER_SOURCE_TOKEN_FILE'' = Inr (TrimSpace ?token)"
    using TrimSpace_id [of "''/run/secrets/source_token''"] by (simp add: secretFile_def value_of_def env Let_def printable_def)
  have tn: "TrimSpace ?token \<noteq> []" by (rule TrimSpace_nonempty [of "CHR ''.''"]) (auto simp: SignEdgeToken_def Let_def printable_def)
  have bools: "TrimSpace (format_bool b) = format_bool b" "ParseBool (format_bool b) = Some b" "format_bool b \<noteq> []" for b
    by (cases b; simp add: TrimSpace_id printable_def format_bool_def ParseBool_def)+
  have empty: "TrimSpace [] = []" by (simp add: TrimSpace_def trim_right_def trim_left.simps space_runes_def)
  have media: "load_media ?e = Inr media" using json(2-4) by (simp add: load_media_def value_of_def env Let_def)
  show ?thesis
    using session outputs dests token tn media
    by (simp add: Load_def bind_error_def parseBool_def env bools parseUint_def parseDuration_def value_of_def empty Let_def Config_Validate_iff
        valid_config_def isUUID_printable second_def loaded_destination_def output_ok_def TrimSpace_id printable_def i64_id in_i64_def Suc_le_eq comp_def)
       (use outputs(4) in \<open>force simp: output_ok_def\<close>)
qed

definition launch_output :: destination_row where
  "launch_output = \<lparr>de_id = ''d1'', de_stream = ''st'', de_name = ''out'', de_endpoint = ''rtmp://live'', de_key = ''k'',
     de_enabled = True, de_archived = False, de_generation = 3, de_ciphertext = ''key'', de_nonce = '''', de_updated = 0\<rparr>"

definition launch_env :: "unit control_env" where
  "launch_env = \<lparr>ctl_NodeID = ''n1'', ctl_Region = ''eu'', ctl_AgentURL = ''https://n1'', ctl_WorkerImage = ''worker'', ctl_EdgeID = ''edge'',
     ctl_Environment = ''production'', ctl_AllowedHosts = '''', ctl_ReadKey = ''key'', ctl_Grace = 30 * second, ctl_WorkerResources = rv_zero,
     ctl_agent = (\<lambda>r g. (None, g)), ctl_slates = Map.empty, ctl_media = Map.empty, ctl_assets = Map.empty, ctl_hash = (\<lambda>ds p m. concat (map de_id ds)),
     ctl_decrypt = (\<lambda>d context. Some (de_ciphertext d)), ctl_json_documents = (\<lambda>ds. concat (map doc_id ds)), ctl_json_media = (\<lambda>m. ''{}''),
     ctl_source = (\<lambda>s. Some (''srt://edge?streamid=read:'' @ s)), ctl_hmac = (\<lambda>k m. k @ m),
     ctl_codecs = \<lparr>b64_encode = id, b64_decode = Some, json_encode = cl_StreamID, json_decode = (\<lambda>_. None)\<rparr>\<rparr>"

definition launch_tick :: tick where
  "launch_tick = \<lparr>tk_now = 0, tk_uuid = ''a1'', tk_random = ''random'', tk_order = []\<rparr>"

definition launch_parsers :: config_env where
  "launch_parsers = \<lparr>ce_lookup = Map.empty, ce_read_file = Map.empty, ce_json_media = (\<lambda>m b. Some m),
     ce_json_documents = (\<lambda>b. if b = ''d1'' then Some [document_of launch_output] else None),
     ce_url_parse = (\<lambda>u. Some \<lparr>url_scheme = (if take 3 u = ''srt'' then ''srt'' else ''rtmp''), url_host = ''h'', url_user = False, url_query = [],
        url_fragment = [], url_path = [], url_opaque = []\<rparr>),
     ce_parse_duration = (\<lambda>_. None)\<rparr>"

abbreviation launch_session :: string where
  "launch_session \<equiv> ''00000000-0000-4000-8000-000000000001''"

definition launch_spec :: worker_spec where
  "launch_spec = the (launched launch_env launch_tick launch_session ''st'' [launch_output] \<lparr>sp_on_loss = True, sp_forced = False\<rparr> DefaultMediaProfile
     (resources rv_zero DefaultMediaProfile 1) ''a1'' 1 8 ''srt://edge'')"

definition launch_dir :: directory where
  "launch_dir = snd (receive demo_faults (start_archive (Files launch_spec) ''{}'') Map.empty)"

theorem worker_loads_what_is_launched_witness:
  "\<exists>cfg. Load (worker_view launch_parsers launch_spec launch_dir) = Inr cfg \<and> cf_session cfg = launch_session \<and>
     map cd_secret (cf_destinations cfg) = [''key''] \<and> map cd_generation (cf_destinations cfg) = [3]"
proof -
  have l: "launched launch_env launch_tick launch_session ''st'' [launch_output] \<lparr>sp_on_loss = True, sp_forced = False\<rparr> DefaultMediaProfile
     (resources rv_zero DefaultMediaProfile 1) ''a1'' 1 8 ''srt://edge'' = Some launch_spec"
    by (simp add: launch_spec_def launched_def launch_env_def)
  have f: "Files launch_spec = [(''destination-d1'', ''key''), (''destinations.json'', ''d1''), (''source_token'', ''st.keyst''), (''control_token'', ''random'')]"
    by (simp add: launch_spec_def launched_def launch_env_def launch_output_def launch_tick_def start_files_def document_of_def SignEdgeToken_def Let_def)
  have fields: "AllocationID launch_spec = ''a1''" "spec_SessionID launch_spec = launch_session" "Image launch_spec = ''worker''"
      "spec_Generation launch_spec = 1" "spec_FencingToken launch_spec = 8" "spec_Resources launch_spec = resources rv_zero DefaultMediaProfile 1"
      "Environment launch_spec = worker_environment launch_env launch_session \<lparr>sp_on_loss = True, sp_forced = False\<rparr> DefaultMediaProfile ''srt://edge'' None"
    by (simp_all add: launch_spec_def launched_def launch_env_def start_spec_def)
  have r1: "resources rv_zero DefaultMediaProfile 1 = \<lparr>Slots = 1, CPUMillis = 2000, MemoryBytes = 2 ^ 30, IngressBPS = 20000000, EgressBPS = 10000000\<rparr>"
    by (simp add: resources_def DefaultMediaProfile_def Let_def i64_id in_i64_def)
  have e1: "\<not> list_ex (\<lambda>(k, v). k = ''WORKER_SOURCE_TOKEN'' \<or> k = ''WORKER_DESTINATION_SECRET'') (Environment launch_spec)"
    unfolding fields worker_environment_def base_environment_def by simp
  have f1: "validate_files 0 (Files launch_spec) = None" unfolding f by (simp add: ValidID_def is_alnum_def MiB_def Let_def)
  have v: "ValidateStart launch_spec = None" "distinct (map fst (Files launch_spec))"
    using e1 f1 by (simp_all add: ValidateStart_def fields r1 ValidID_def is_alnum_def f del: validate_files.simps)
  have r: "receive demo_faults (start_archive (Files launch_spec) ''{}'') Map.empty = (Inr (), launch_dir)"
    using files_delivered [OF v, of "''{}''" demo_faults Map.empty] by (simp add: launch_dir_def demo_faults_def)
  have s: "secret_of launch_env ''st'' launch_output = ''key''" by (simp add: secret_of_def launch_env_def launch_output_def)
  have k: "TrimSpace ''key'' = ''key''" by (rule TrimSpace_id) (simp_all add: printable_def)
  have o: "output_ok launch_parsers launch_env ''st'' launch_output"
    by (simp add: output_ok_def s k) (simp add: launch_output_def validateURL_def launch_parsers_def)
  have u: "isUUID launch_session" "validateURL launch_parsers ''srt://edge'' ''srt''"
    by (code_simp, simp add: validateURL_def launch_parsers_def)
  have j: "ce_json_documents launch_parsers (ctl_json_documents launch_env (map document_of [launch_output])) = Some (map document_of [launch_output])"
    by (simp add: launch_parsers_def launch_env_def document_of_def launch_output_def)
  have "\<exists>cfg. Load (worker_view launch_parsers launch_spec launch_dir) = Inr cfg \<and> cf_session cfg = launch_session \<and>
      cf_destinations cfg = map (loaded_destination launch_env ''st'') [launch_output]"
    using worker_loads_what_is_launched [OF l v r _ _ _ _ j] u o Default_valid
    by (simp add: launch_parsers_def launch_env_def demo_faults_def TrimSpace_id printable_def) blast
  moreover have "loaded_destination launch_env ''st'' launch_output = \<lparr>cd_id = ''d1'', cd_generation = 3, cd_url = ''rtmp://live'', cd_secret = ''key''\<rparr>"
    unfolding loaded_destination_def s k by (simp add: launch_output_def)
  ultimately show ?thesis by auto
qed

end
