(* ===== verification/Envelope_Crypto.thy ===== *)
theory Envelope_Crypto
  imports Go_Strings
begin

text \<open>
  Envelope encryption of stored secrets (\<^verbatim>\<open>crypto/envelope.go\<close>) and the two providers of its keys
  (\<^verbatim>\<open>crypto/envelope.go\<close>, \<^verbatim>\<open>crypto/provider.go\<close>). Bytes are characters. The Go interface \<^verbatim>\<open>KeyProvider\<close> is a record of its
  two methods; the locale \<open>key_provider\<close> states what the users of the interface rely on, and both providers satisfy it.

  The world of a provider (the manifest file, key files, the metadata and payload services) may change between any two
  accesses: the world of a call is a function of the number of the access. AES-GCM, the JSON decoder, base64 and URL escaping
  are arguments.
\<close>

section \<open>The interface and the envelope\<close>

record ('e, 's) KeyProvider =
  kp_Key :: "'e \<Rightarrow> string \<Rightarrow> 's \<Rightarrow> (string + string) \<times> 's"
  kp_CurrentKeyID :: "'e \<Rightarrow> 's \<Rightarrow> (string + string) \<times> 's"

record Envelope =
  en_KeyID :: string
  en_Nonce :: string
  en_Ciphertext :: string

text \<open>\<open>cipher.AEAD\<close> for AES-GCM with a 32 byte key: \<open>seal key nonce plaintext aad\<close> and \<open>open key nonce ciphertext aad\<close>.\<close>

record aead =
  ae_seal :: "string \<Rightarrow> string \<Rightarrow> string \<Rightarrow> string \<Rightarrow> string"
  ae_open :: "string \<Rightarrow> string \<Rightarrow> string \<Rightarrow> string \<Rightarrow> string option"

definition NonceSize :: nat where
  "NonceSize = 12"

definition newAEAD :: "string \<Rightarrow> string + string" where
  "newAEAD key = (if length key \<noteq> 32 then Inl ''envelope key must be 32 bytes'' else Inr key)"

text \<open>\<open>random\<close> is what the random source yields; a short read is an error.\<close>

definition Encrypt ::
  "aead \<Rightarrow> ('e, 's) KeyProvider \<Rightarrow> 'e \<Rightarrow> 'e \<Rightarrow> string \<Rightarrow> string \<Rightarrow> string \<Rightarrow> 's \<Rightarrow> (string + Envelope) \<times> 's" where
  "Encrypt A p w w' random plaintext aad s =
     (case kp_CurrentKeyID p w s of
        (Inl e, s1) \<Rightarrow> (Inl e, s1)
      | (Inr kid, s1) \<Rightarrow>
          (case kp_Key p w' kid s1 of
             (Inl e, s2) \<Rightarrow> (Inl e, s2)
           | (Inr key, s2) \<Rightarrow>
               (case newAEAD key of
                  Inl e \<Rightarrow> (Inl e, s2)
                | Inr k \<Rightarrow>
                    if length random < NonceSize then (Inl ''unexpected EOF'', s2)
                    else let n = take NonceSize random in
                      (Inr \<lparr>en_KeyID = kid, en_Nonce = n, en_Ciphertext = ae_seal A k n plaintext aad\<rparr>, s2))))"

definition Decrypt :: "aead \<Rightarrow> ('e, 's) KeyProvider \<Rightarrow> 'e \<Rightarrow> Envelope \<Rightarrow> string \<Rightarrow> 's \<Rightarrow> (string + string) \<times> 's" where
  "Decrypt A p w e aad s =
     (case kp_Key p w (en_KeyID e) s of
        (Inl err, s1) \<Rightarrow> (Inl err, s1)
      | (Inr key, s1) \<Rightarrow>
          (case newAEAD key of
             Inl err \<Rightarrow> (Inl err, s1)
           | Inr k \<Rightarrow>
               if length (en_Nonce e) \<noteq> NonceSize then (Inl ''invalid ciphertext nonce'', s1)
               else (case ae_open A k (en_Nonce e) (en_Ciphertext e) aad of
                       None \<Rightarrow> (Inl ''decrypt destination secret'', s1)
                     | Some plaintext \<Rightarrow> (Inr plaintext, s1))))"

section \<open>The provider with fixed keys\<close>

record LocalProvider =
  lp_ID :: string
  lp_Keys :: "(string \<times> string) list"

definition local_lookup :: "LocalProvider \<Rightarrow> string \<Rightarrow> string" where
  "local_lookup p kid = (case map_of (lp_Keys p) kid of None \<Rightarrow> [] | Some key \<Rightarrow> key)"

definition Local_CurrentKeyID :: "LocalProvider \<Rightarrow> string + string" where
  "Local_CurrentKeyID p = (if local_lookup p (lp_ID p) = [] then Inl ''current key unavailable'' else Inr (lp_ID p))"

definition Local_Key :: "string \<Rightarrow> LocalProvider \<Rightarrow> string + string" where
  "Local_Key kid p = (let key = local_lookup p kid in if key = [] then Inl ''key unavailable'' else Inr key)"

definition local_provider :: "(unit, LocalProvider) KeyProvider" where
  "local_provider = \<lparr>kp_Key = (\<lambda>_ kid p. (Local_Key kid p, p)), kp_CurrentKeyID = (\<lambda>_ p. (Local_CurrentKeyID p, p))\<rparr>"

section \<open>The provider with a manifest of key versions\<close>

record KeyReference =
  kr_File :: string
  kr_SecretID :: string
  kr_VersionID :: string
  kr_Entry :: string

text \<open>A Go map as the list of its entries, in the order of the iteration.\<close>

record KeyManifest =
  km_Current :: string
  km_Keys :: "(string \<times> KeyReference) list"

record VersionedProvider =
  vp_Mode :: string
  vp_cache :: "KeyReference \<Rightarrow> string option"
  vp_bindings :: "string \<Rightarrow> KeyReference option"

record key_payload =
  pl_Version :: string
  pl_Entries :: "(string \<times> string) list"

text \<open>
  What the program sees of its surroundings at one instant: the bytes of the manifest, the key files, and the answer of a
  server (status and body) to a request with its headers.
\<close>

record key_world =
  kw_manifest :: "string option"
  kw_file :: "string \<Rightarrow> string option"
  kw_http :: "string \<Rightarrow> (string \<times> string) list \<Rightarrow> (int \<times> string) option"

record key_codec =
  kc_manifest :: "string \<Rightarrow> KeyManifest option"
  kc_token :: "string \<Rightarrow> string option"
  kc_payload :: "string \<Rightarrow> key_payload option"
  kc_base64 :: "string \<Rightarrow> string option"
  kc_path_escape :: "string \<Rightarrow> string"
  kc_query_escape :: "string \<Rightarrow> string"

definition metadataURL :: string where
  "metadataURL = ''http://169.254.169.254/computeMetadata/v1/instance/service-accounts/default/token''"

definition payloadURL :: string where
  "payloadURL = ''https://payload.lockbox.api.cloud.yandex.net/lockbox/v1/secrets/''"

definition reference_error :: "string \<Rightarrow> string \<times> KeyReference \<Rightarrow> string option" where
  "reference_error mode kr = (case kr of (kid, ref) \<Rightarrow>
     if kid = [] \<or> 100 < length kid then Some ''invalid key ID''
     else if mode = ''file'' then
       (if kr_File ref = [] \<or> kr_SecretID ref \<noteq> [] \<or> kr_VersionID ref \<noteq> [] then Some ''invalid file reference'' else None)
     else if kr_File ref \<noteq> [] \<or> kr_SecretID ref = [] \<or> kr_VersionID ref = [] \<or> kr_Entry ref = []
       then Some ''Lockbox references must pin a version and entry'' else None)"

fun first_error :: "('a \<Rightarrow> string option) \<Rightarrow> 'a list \<Rightarrow> string option" where
  "first_error f [] = None"
| "first_error f (x # xs) = (case f x of Some e \<Rightarrow> Some e | None \<Rightarrow> first_error f xs)"

definition key_manifest :: "key_codec \<Rightarrow> string \<Rightarrow> string option \<Rightarrow> string + KeyManifest" where
  "key_manifest c mode file =
     (case file of
        None \<Rightarrow> Inl ''key manifest unavailable''
      | Some bytes \<Rightarrow>
          (case kc_manifest c (take 65536 bytes) of
             None \<Rightarrow> Inl ''invalid key manifest''
           | Some m \<Rightarrow>
               if length (km_Keys m) < 1 \<or> length (km_Keys m) > 32 \<or> km_Current m = [] then Inl ''invalid key manifest''
               else if map_of (km_Keys m) (km_Current m) = None then Inl ''current key not in manifest''
               else (case first_error (reference_error mode) (km_Keys m) of Some e \<Rightarrow> Inl e | None \<Rightarrow> Inr m)))"

definition http_get :: "key_world \<Rightarrow> string \<Rightarrow> string \<Rightarrow> (string \<Rightarrow> 'a option) \<Rightarrow> string + 'a" where
  "http_get w endpoint token decode =
     (case kw_http w endpoint (if token = [] then [(''Metadata-Flavor'', ''Google'')] else [(''Authorization'', ''Bearer '' @ token)]) of
        None \<Rightarrow> Inl ''key service unavailable''
      | Some (status, body) \<Rightarrow>
          (if status \<noteq> 200 then Inl ''invalid key service response''
           else case decode (take 1048576 body) of None \<Rightarrow> Inl ''invalid key service response'' | Some x \<Rightarrow> Inr x))"

definition payload_endpoint :: "key_codec \<Rightarrow> KeyReference \<Rightarrow> string" where
  "payload_endpoint c ref =
     payloadURL @ kc_path_escape c (kr_SecretID ref) @ ''/payload?versionId='' @ kc_query_escape c (kr_VersionID ref)"

text \<open>The loop over the entries keeps the text of the last one that has the name.\<close>

definition entry_text :: "KeyReference \<Rightarrow> (string \<times> string) list \<Rightarrow> string" where
  "entry_text ref es = foldl (\<lambda>raw (k, t). if k = kr_Entry ref then t else raw) [] es"

definition fetch_raw :: "key_codec \<Rightarrow> (nat \<Rightarrow> key_world) \<Rightarrow> string \<Rightarrow> KeyReference \<Rightarrow> string + string" where
  "fetch_raw c w mode ref =
     (if mode = ''file'' then
        (case kw_file (w 1) (kr_File ref) of None \<Rightarrow> Inl ''key file unavailable'' | Some raw \<Rightarrow> Inr raw)
      else
        (case http_get (w 1) metadataURL [] (kc_token c) of
           Inl _ \<Rightarrow> Inl ''workload credentials unavailable''
         | Inr token \<Rightarrow>
             (if token = [] then Inl ''workload credentials unavailable''
              else case http_get (w 2) (payload_endpoint c ref) token (kc_payload c) of
                     Inl _ \<Rightarrow> Inl ''key payload unavailable or version mismatch''
                   | Inr p \<Rightarrow> if pl_Version p \<noteq> kr_VersionID ref then Inl ''key payload unavailable or version mismatch''
                             else Inr (entry_text ref (pl_Entries p)))))"

definition decode_key :: "key_codec \<Rightarrow> string \<Rightarrow> string + string" where
  "decode_key c raw =
     (case kc_base64 c (TrimSpace raw) of
        None \<Rightarrow> Inl ''invalid encryption key''
      | Some key \<Rightarrow> if length key \<noteq> 32 then Inl ''invalid encryption key'' else Inr key)"

definition fetch_key :: "key_codec \<Rightarrow> (nat \<Rightarrow> key_world) \<Rightarrow> string \<Rightarrow> KeyReference \<Rightarrow> string + string" where
  "fetch_key c w mode ref = (case fetch_raw c w mode ref of Inl e \<Rightarrow> Inl e | Inr raw \<Rightarrow> decode_key c raw)"

text \<open>The section of \<open>Key\<close> that holds the lock, for the manifest that was read before.\<close>

definition locked_Key ::
  "key_codec \<Rightarrow> (nat \<Rightarrow> key_world) \<Rightarrow> KeyManifest \<Rightarrow> string \<Rightarrow> KeyReference \<Rightarrow> VersionedProvider \<Rightarrow> (string + string) \<times> VersionedProvider" where
  "locked_Key c w m kid ref p =
     (if vp_bindings p kid \<noteq> None \<and> vp_bindings p kid \<noteq> Some ref then (Inl ''key ID cannot be rebound'', p)
      else let p1 = p\<lparr>vp_bindings := (vp_bindings p)(kid \<mapsto> ref),
                     vp_cache := (\<lambda>r. if r \<in> set (map snd (km_Keys m)) then vp_cache p r else None)\<rparr> in
        (case vp_cache p1 ref of
           Some key \<Rightarrow> (Inr key, p1)
         | None \<Rightarrow>
             (case fetch_key c w (vp_Mode p) ref of
                Inl e \<Rightarrow> (Inl e, p1)
              | Inr key \<Rightarrow> (Inr key, p1\<lparr>vp_cache := (vp_cache p1)(ref \<mapsto> key)\<rparr>))))"

definition Versioned_Key ::
  "key_codec \<Rightarrow> (nat \<Rightarrow> key_world) \<Rightarrow> string \<Rightarrow> VersionedProvider \<Rightarrow> (string + string) \<times> VersionedProvider" where
  "Versioned_Key c w kid p =
     (case key_manifest c (vp_Mode p) (kw_manifest (w 0)) of
        Inl e \<Rightarrow> (Inl e, p)
      | Inr m \<Rightarrow>
          (case map_of (km_Keys m) kid of
             None \<Rightarrow> (Inl ''key version unavailable'', p)
           | Some ref \<Rightarrow> locked_Key c w m kid ref p))"

definition Versioned_CurrentKeyID ::
  "key_codec \<Rightarrow> (nat \<Rightarrow> key_world) \<Rightarrow> VersionedProvider \<Rightarrow> (string + string) \<times> VersionedProvider" where
  "Versioned_CurrentKeyID c w p =
     (case key_manifest c (vp_Mode p) (kw_manifest (w 0)) of
        Inl e \<Rightarrow> (Inl e, p)
      | Inr m \<Rightarrow>
          (case Versioned_Key c (\<lambda>i. w (Suc i)) (km_Current m) p of
             (Inl e, p1) \<Rightarrow> (Inl e, p1)
           | (Inr _, p1) \<Rightarrow> (Inr (km_Current m), p1)))"

definition versioned_provider :: "key_codec \<Rightarrow> (nat \<Rightarrow> key_world, VersionedProvider) KeyProvider" where
  "versioned_provider c = \<lparr>kp_Key = Versioned_Key c, kp_CurrentKeyID = Versioned_CurrentKeyID c\<rparr>"

definition NewVersionedProvider :: "key_codec \<Rightarrow> key_world \<Rightarrow> string \<Rightarrow> string \<Rightarrow> string + VersionedProvider" where
  "NewVersionedProvider c w path mode =
     (if path = [] \<or> mode \<noteq> ''file'' \<and> mode \<noteq> ''lockbox'' then Inl ''key manifest and valid provider required''
      else (case key_manifest c mode (kw_manifest w) of
              Inl e \<Rightarrow> Inl e
            | Inr m \<Rightarrow> Inr \<lparr>vp_Mode = mode, vp_cache = Map.empty, vp_bindings = Map.empty\<rparr>))"

text \<open>A history of calls, in the order in which they take the lock.\<close>

datatype 'e key_call = CallKey 'e string | CallCurrent 'e

fun provider_call :: "('e, 's) KeyProvider \<Rightarrow> 'e key_call \<Rightarrow> 's \<Rightarrow> 's" where
  "provider_call p (CallKey w kid) s = snd (kp_Key p w kid s)"
| "provider_call p (CallCurrent w) s = snd (kp_CurrentKeyID p w s)"

fun provider_run :: "('e, 's) KeyProvider \<Rightarrow> 'e key_call list \<Rightarrow> 's \<Rightarrow> 's" where
  "provider_run p [] s = s"
| "provider_run p (c # cs) s = provider_run p cs (provider_call p c s)"

fun call_world :: "'e key_call \<Rightarrow> 'e" where
  "call_world (CallKey w _) = w"
| "call_world (CallCurrent w) = w"

section \<open>What the users of a provider rely on\<close>

lemma map_leD: "m \<subseteq>\<^sub>m m' \<Longrightarrow> m i = Some k \<Longrightarrow> m' i = Some k"
  by (force simp: map_le_def)

lemma Encrypt_success:
  assumes "Encrypt A P w w' random plaintext aad s = (Inr e, s2)"
  shows "\<exists>s1 k. kp_CurrentKeyID P w s = (Inr (en_KeyID e), s1) \<and> kp_Key P w' (en_KeyID e) s1 = (Inr k, s2) \<and> length k = 32
    \<and> length (en_Nonce e) = NonceSize \<and> en_Ciphertext e = ae_seal A k (en_Nonce e) plaintext aad"
  using assms by (auto simp: Encrypt_def newAEAD_def Let_def split: prod.splits sum.splits if_splits)

text \<open>
  \<open>keys\<close> is the abstract state of a provider: the keys that are fixed for an identifier. Calls in an admissible world only
  extend it, and a key that is returned is fixed from then on.
\<close>

locale key_provider =
  fixes P :: "('e, 's) KeyProvider"
    and admissible :: "'e \<Rightarrow> bool"
    and valid :: "'s \<Rightarrow> bool"
    and keys :: "'s \<Rightarrow> string \<Rightarrow> string option"
  assumes Key_step: "admissible w \<Longrightarrow> valid s \<Longrightarrow> valid (snd (kp_Key P w i s)) \<and> keys s \<subseteq>\<^sub>m keys (snd (kp_Key P w i s))"
    and Current_step: "admissible w \<Longrightarrow> valid s \<Longrightarrow> valid (snd (kp_CurrentKeyID P w s)) \<and> keys s \<subseteq>\<^sub>m keys (snd (kp_CurrentKeyID P w s))"
    and Key_fixed: "admissible w \<Longrightarrow> valid s \<Longrightarrow> kp_Key P w i s = (Inr k, s') \<Longrightarrow> keys s' i = Some k"
begin

lemma call_step:
  "admissible (call_world c) \<Longrightarrow> valid s \<Longrightarrow> valid (provider_call P c s) \<and> keys s \<subseteq>\<^sub>m keys (provider_call P c s)"
  by (cases c) (simp_all add: Key_step Current_step)

lemma run_extends:
  assumes "\<forall>c \<in> set cs. admissible (call_world c)" "valid s"
  shows "valid (provider_run P cs s) \<and> keys s \<subseteq>\<^sub>m keys (provider_run P cs s)"
  using assms
proof (induction cs arbitrary: s)
  case (Cons c cs)
  then have "valid (provider_call P c s)" "keys s \<subseteq>\<^sub>m keys (provider_call P c s)" using call_step by auto
  moreover have "valid (provider_run P cs (provider_call P c s)) \<and> keys (provider_call P c s) \<subseteq>\<^sub>m keys (provider_run P cs (provider_call P c s))"
    using Cons.IH [of "provider_call P c s"] Cons.prems(1) calculation(1) by simp
  ultimately show ?case unfolding provider_run.simps by (meson map_le_trans)
qed simp

lemma key_stays:
  assumes "kp_Key P w i s = (Inr k, s1)" "valid s" "admissible w" "admissible w'"
    and "\<forall>c \<in> set cs. admissible (call_world c)" "kp_Key P w' i (provider_run P cs s1) = (Inr k', s2)"
  shows "k' = k"
proof -
  let ?r = "provider_run P cs s1"
  have v1: "valid s1" using Key_step [OF assms(3,2), of i] unfolding assms(1) snd_conv by (rule conjunct1)
  have r: "valid ?r" "keys s1 \<subseteq>\<^sub>m keys ?r" using run_extends [OF assms(5) v1] by auto
  have "keys s1 i = Some k" by (rule Key_fixed [OF assms(3,2,1)])
  then have "keys ?r i = Some k" by (rule map_leD [OF r(2)])
  moreover have "keys ?r \<subseteq>\<^sub>m keys (snd (kp_Key P w' i ?r))" using Key_step [OF assms(4) r(1)] by (rule conjunct2)
  ultimately have "keys s2 i = Some k" unfolding assms(6) snd_conv by (rule map_leD [rotated])
  with Key_fixed [OF assms(4) r(1) assms(6)] show ?thesis by simp
qed

lemma Decrypt_Encrypt:
  assumes "Encrypt A P w w' random plaintext aad s = (Inr e, s1)" "valid s" "admissible w" "admissible w'" "admissible w''"
    and "\<forall>c \<in> set cs. admissible (call_world c)"
    and "kp_Key P w'' (en_KeyID e) (provider_run P cs s1) = (Inr k, s2)"
    and "\<And>k n p a. ae_open A k n (ae_seal A k n p a) a = Some p"
  shows "Decrypt A P w'' e aad (provider_run P cs s1) = (Inr plaintext, s2)"
proof -
  from Encrypt_success [OF assms(1)] obtain s0 k0 where e: "kp_CurrentKeyID P w s = (Inr (en_KeyID e), s0)"
    "kp_Key P w' (en_KeyID e) s0 = (Inr k0, s1)" "length k0 = 32" "length (en_Nonce e) = NonceSize"
    "en_Ciphertext e = ae_seal A k0 (en_Nonce e) plaintext aad" by blast
  have "valid s0" using Current_step [OF assms(3,2)] unfolding e(1) snd_conv by (rule conjunct1)
  from key_stays [OF e(2) this assms(4,5,6,7)] have "k = k0" .
  with assms(7,8) e(3-5) show ?thesis by (simp add: Decrypt_def newAEAD_def)
qed

end

text \<open>The provider with fixed keys.\<close>

definition local_keys :: "LocalProvider \<Rightarrow> string \<Rightarrow> string option" where
  "local_keys p i = (if local_lookup p i = [] then None else Some (local_lookup p i))"

interpretation local_kp: key_provider local_provider "\<lambda>_. True" "\<lambda>_. True" local_keys
  by unfold_locales (auto simp: local_provider_def Local_Key_def local_keys_def Let_def split: if_splits)

section \<open>The provider with a manifest: bindings and cache\<close>

lemma locked_Key_mode [simp]: "vp_Mode (snd (locked_Key c w m i ref p)) = vp_Mode p"
  by (auto simp: locked_Key_def Let_def split: option.split sum.split)

lemma Versioned_Key_mode [simp]: "vp_Mode (snd (Versioned_Key c w i p)) = vp_Mode p"
  by (auto simp: Versioned_Key_def split: option.split sum.split)

lemma Versioned_CurrentKeyID_state:
  "snd (Versioned_CurrentKeyID c w p) = p \<or> (\<exists>i. snd (Versioned_CurrentKeyID c w p) = snd (Versioned_Key c (\<lambda>i. w (Suc i)) i p))"
proof (cases "key_manifest c (vp_Mode p) (kw_manifest (w 0))")
  case (Inr m)
  have "snd (Versioned_CurrentKeyID c w p) = snd (Versioned_Key c (\<lambda>i. w (Suc i)) (km_Current m) p)"
    by (simp add: Versioned_CurrentKeyID_def Inr split: sum.split prod.split)
  then show ?thesis by blast
qed (simp add: Versioned_CurrentKeyID_def)

text \<open>A property that every access to a key keeps holds after every history.\<close>

lemma versioned_run_invariant:
  assumes "\<And>w i p. I p \<Longrightarrow> I (snd (Versioned_Key c w i p))" "I p"
  shows "I (provider_run (versioned_provider c) cs p)"
  using assms(2)
proof (induction cs arbitrary: p)
  case (Cons a cs)
  have "I (provider_call (versioned_provider c) a p)"
  proof (cases a)
    case (CallCurrent w)
    then show ?thesis using Versioned_CurrentKeyID_state [of c w p] assms(1) Cons.prems by (auto simp: versioned_provider_def)
  qed (use assms(1) Cons.prems in \<open>simp add: versioned_provider_def\<close>)
  then show ?case using Cons.IH by simp
qed simp

lemma locked_Key_bindings: "vp_bindings p \<subseteq>\<^sub>m vp_bindings (snd (locked_Key c w m i ref p))"
  by (auto simp: locked_Key_def map_le_def Let_def split: option.split sum.split)

lemma Versioned_Key_bindings: "vp_bindings p \<subseteq>\<^sub>m vp_bindings (snd (Versioned_Key c w i p))"
  using locked_Key_bindings by (auto simp: Versioned_Key_def split: option.split sum.split)

lemma Versioned_Key_success:
  assumes "Versioned_Key c w i p = (Inr k, p')"
  obtains m ref where "key_manifest c (vp_Mode p) (kw_manifest (w 0)) = Inr m" "map_of (km_Keys m) i = Some ref"
    "vp_bindings p' i = Some ref" "vp_cache p' ref = Some k" "vp_cache p ref = Some k \<or> fetch_key c w (vp_Mode p) ref = Inr k"
proof -
  from assms obtain m ref where m: "key_manifest c (vp_Mode p) (kw_manifest (w 0)) = Inr m" "map_of (km_Keys m) i = Some ref"
    and k: "locked_Key c w m i ref p = (Inr k, p')"
    by (auto simp: Versioned_Key_def split: option.splits sum.splits)
  have ref: "ref \<in> snd ` set (km_Keys m)" using m(2) by (force dest: map_of_SomeD)
  have "vp_bindings p' i = Some ref \<and> vp_cache p' ref = Some k \<and> (vp_cache p ref = Some k \<or> fetch_key c w (vp_Mode p) ref = Inr k)"
    using k by (auto simp: locked_Key_def Let_def ref split: option.splits sum.splits if_splits)
  with m that show ?thesis by blast
qed

lemma key_manifest_size:
  "key_manifest c mode file = Inr m \<Longrightarrow> 1 \<le> length (km_Keys m) \<and> length (km_Keys m) \<le> 32"
  by (auto simp: key_manifest_def Suc_le_eq split: option.splits if_splits)

definition cache_bounded :: "VersionedProvider \<Rightarrow> bool" where
  "cache_bounded p \<longleftrightarrow> finite (dom (vp_cache p)) \<and> card (dom (vp_cache p)) \<le> 32"

lemma locked_Key_cache:
  "dom (vp_cache (snd (locked_Key c w m i ref p))) \<subseteq> dom (vp_cache p) \<and> snd (locked_Key c w m i ref p) = p
   \<or> dom (vp_cache (snd (locked_Key c w m i ref p))) \<subseteq> insert ref (set (map snd (km_Keys m)))"
  by (auto simp: locked_Key_def Let_def split: option.split sum.split if_splits)

lemma Versioned_Key_cache_bounded: "cache_bounded p \<Longrightarrow> cache_bounded (snd (Versioned_Key c w i p))"
proof -
  assume b: "cache_bounded p"
  consider "snd (Versioned_Key c w i p) = p"
    | m ref where "key_manifest c (vp_Mode p) (kw_manifest (w 0)) = Inr m" "map_of (km_Keys m) i = Some ref"
      "snd (Versioned_Key c w i p) = snd (locked_Key c w m i ref p)"
  proof (cases "key_manifest c (vp_Mode p) (kw_manifest (w 0))")
    case (Inr m)
    then show ?thesis using that by (cases "map_of (km_Keys m) i") (simp_all add: Versioned_Key_def)
  qed (use that in \<open>simp add: Versioned_Key_def\<close>)
  then show ?thesis
  proof cases
    case (2 m ref)
    from 2(2) have ref: "ref \<in> set (map snd (km_Keys m))" by (force dest: map_of_SomeD)
    show ?thesis
    proof (cases "snd (locked_Key c w m i ref p) = p")
      case False
      then have "dom (vp_cache (snd (Versioned_Key c w i p))) \<subseteq> set (map snd (km_Keys m))"
        using locked_Key_cache [of c w m i ref p] ref 2(3) by auto
      moreover have "card (set (map snd (km_Keys m))) \<le> 32"
        using card_length [of "map snd (km_Keys m)"] key_manifest_size [OF 2(1)] by simp
      ultimately show ?thesis unfolding cache_bounded_def
        by (meson List.finite_set card_mono finite_subset le_trans)
    qed (use b 2 in simp)
  qed (use b in simp)
qed

text \<open>
  Pinned keys: whenever a reference can be read at all, in whatever world, it yields the same key. A reference names an immutable
  version of a secret, or a key file that is never rewritten.
\<close>

definition pinned :: "key_codec \<Rightarrow> string \<Rightarrow> (KeyReference \<Rightarrow> string) \<Rightarrow> (nat \<Rightarrow> key_world) \<Rightarrow> bool" where
  "pinned c mode f w \<longleftrightarrow> (\<forall>n ref k. fetch_key c (\<lambda>i. w (n + i)) mode ref = Inr k \<longrightarrow> k = f ref)"

definition versioned_valid :: "string \<Rightarrow> (KeyReference \<Rightarrow> string) \<Rightarrow> VersionedProvider \<Rightarrow> bool" where
  "versioned_valid mode f p \<longleftrightarrow> vp_Mode p = mode \<and> (\<forall>ref k. vp_cache p ref = Some k \<longrightarrow> k = f ref)"

definition versioned_keys :: "(KeyReference \<Rightarrow> string) \<Rightarrow> VersionedProvider \<Rightarrow> string \<Rightarrow> string option" where
  "versioned_keys f p i = map_option f (vp_bindings p i)"

lemma pinned_fetch: "pinned c mode f w \<Longrightarrow> fetch_key c w mode ref = Inr k \<Longrightarrow> k = f ref"
  by (drule pinned_def [THEN iffD1, rule_format, of _ _ _ _ 0]) simp_all

lemma pinned_later: "pinned c mode f w \<Longrightarrow> pinned c mode f (\<lambda>i. w (Suc i))"
  unfolding pinned_def
proof (intro allI impI)
  fix n ref k
  assume "\<forall>n ref k. fetch_key c (\<lambda>i. w (n + i)) mode ref = Inr k \<longrightarrow> k = f ref" "fetch_key c (\<lambda>i. w (Suc (n + i))) mode ref = Inr k"
  from this(1) [rule_format, of "Suc n" ref k] this(2) show "k = f ref" by simp
qed

lemma locked_Key_valid:
  assumes "pinned c mode f w" "versioned_valid mode f p"
  shows "versioned_valid mode f (snd (locked_Key c w m i ref p))"
proof -
  have "vp_cache (snd (locked_Key c w m i ref p)) r = Some k \<Longrightarrow>
      vp_cache p r = Some k \<or> r = ref \<and> fetch_key c w (vp_Mode p) ref = Inr k" for r k
    by (auto simp: locked_Key_def Let_def split: option.splits sum.splits if_splits)
  then have "vp_cache (snd (locked_Key c w m i ref p)) r = Some k \<Longrightarrow> k = f r" for r k
    using assms pinned_fetch [OF assms(1), of ref k] unfolding versioned_valid_def by blast
  then show ?thesis using assms(2) by (simp add: versioned_valid_def)
qed

lemma Versioned_Key_valid:
  assumes "pinned c mode f w" "versioned_valid mode f p"
  shows "versioned_valid mode f (snd (Versioned_Key c w i p))"
  using locked_Key_valid [OF assms] assms(2) by (auto simp: Versioned_Key_def split: option.split sum.split)

lemma versioned_keys_mono: "vp_bindings p \<subseteq>\<^sub>m vp_bindings q \<Longrightarrow> versioned_keys f p \<subseteq>\<^sub>m versioned_keys f q"
  by (auto simp: map_le_def versioned_keys_def dom_def)

lemma Versioned_Key_law:
  assumes "pinned c mode f w" "versioned_valid mode f p"
  shows "versioned_valid mode f (snd (Versioned_Key c w i p)) \<and> versioned_keys f p \<subseteq>\<^sub>m versioned_keys f (snd (Versioned_Key c w i p))"
  using Versioned_Key_valid [OF assms] versioned_keys_mono [OF Versioned_Key_bindings] by blast

interpretation versioned_kp: key_provider "versioned_provider c" "pinned c mode f" "versioned_valid mode f" "versioned_keys f"
  for c mode f
proof (unfold_locales, goal_cases)
  case (1 w s i)
  then show ?case using Versioned_Key_law by (simp add: versioned_provider_def)
next
  case (2 w s)
  show ?case
    using Versioned_CurrentKeyID_state [of c w s] Versioned_Key_law [OF pinned_later [OF 2(1)] 2(2)] 2(2)
    by (auto simp: versioned_provider_def)
next
  case (3 w s i k s')
  then have "Versioned_Key c w i s = (Inr k, s')" by (simp add: versioned_provider_def)
  then show ?case
  proof (rule Versioned_Key_success)
    fix m ref
    assume "vp_bindings s' i = Some ref" "vp_cache s ref = Some k \<or> fetch_key c w (vp_Mode s) ref = Inr k"
    with 3(1,2) show ?thesis by (auto simp: versioned_keys_def versioned_valid_def dest: pinned_fetch)
  qed
qed

section \<open>Properties\<close>

lemma NewVersionedProvider_state:
  "NewVersionedProvider c w path mode = Inr p \<Longrightarrow> p = \<lparr>vp_Mode = mode, vp_cache = Map.empty, vp_bindings = Map.empty\<rparr>"
  by (auto simp: NewVersionedProvider_def split: sum.splits if_splits)

lemma NewVersionedProvider_valid: "NewVersionedProvider c w path mode = Inr p \<Longrightarrow> versioned_valid mode f p"
  by (auto dest: NewVersionedProvider_state simp: versioned_valid_def)

lemma locked_Key_bound:
  assumes "vp_bindings p i = Some r"
  shows "fst (locked_Key c w m i ref p) = (if r = ref then
     (case (if ref \<in> set (map snd (km_Keys m)) then vp_cache p ref else None) of
        Some key \<Rightarrow> Inr key | None \<Rightarrow> fetch_key c w (vp_Mode p) ref) else Inl ''key ID cannot be rebound'')"
  using assms by (auto simp: locked_Key_def Let_def split: option.split sum.split)

text \<open>C22: a secret that was sealed opens again, to the same bytes, after every history of key accesses and every rotation of the current
  key, as long as the manifest still lists the key under the identifier of the envelope and the key can be read; when the manifest
  lists another key under that identifier, opening is refused.
\<close>

theorem sealed_secret_opens_after_rotation:
  assumes "\<And>k n p a. ae_open A k n (ae_seal A k n p a) a = Some p"
    and "NewVersionedProvider c w0 path mode = Inr p0"
    and "\<forall>call \<in> set (cs @ cs'). pinned c mode f (call_world call)" "\<forall>x \<in> {w, w', w''}. pinned c mode f x"
    and "Encrypt A (versioned_provider c) w w' random plaintext aad (provider_run (versioned_provider c) cs p0) = (Inr e, p1)"
    and "key_manifest c mode (kw_manifest (w'' 0)) = Inr m" "map_of (km_Keys m) (en_KeyID e) = Some ref"
    and "fetch_key c w'' mode ref = Inr k"
  shows "fst (Decrypt A (versioned_provider c) w'' e aad (provider_run (versioned_provider c) cs' p1)) =
    (if vp_bindings p1 (en_KeyID e) = Some ref then Inr plaintext else Inl ''key ID cannot be rebound'')"
proof -
  let ?P = "versioned_provider c" and ?q = "provider_run (versioned_provider c) cs' p1"
  have valid: "versioned_valid mode f (provider_run ?P cs p0)"
    using versioned_kp.run_extends [OF _ NewVersionedProvider_valid [OF assms(2)]] assms(3) by auto
  from Encrypt_success [OF assms(5)] obtain s1 k0 where s1: "Versioned_CurrentKeyID c w (provider_run ?P cs p0) = (Inr (en_KeyID e), s1)"
    and k0: "Versioned_Key c w' (en_KeyID e) s1 = (Inr k0, p1)" "length k0 = 32" by (auto simp: versioned_provider_def)
  have "versioned_valid mode f s1" using versioned_kp.Current_step [of c mode f w, OF _ valid] s1 assms(4) by (simp add: versioned_provider_def)
  then have v1: "versioned_valid mode f p1" using Versioned_Key_valid [of c mode f w' s1 "en_KeyID e"] k0 assms(4) by simp
  then have vq: "versioned_valid mode f ?q" using versioned_kp.run_extends [OF _ v1] assms(3) by auto
  from k0(1) obtain r where r: "vp_bindings p1 (en_KeyID e) = Some r" by (rule Versioned_Key_success)
  have q: "vp_bindings ?q (en_KeyID e) = Some r"
    by (rule versioned_run_invariant [where I = "\<lambda>p. vp_bindings p (en_KeyID e) = Some r"])
      (use r in \<open>auto intro: map_leD [OF Versioned_Key_bindings]\<close>)
  have key: "Versioned_Key c w'' (en_KeyID e) ?q = locked_Key c w'' m (en_KeyID e) ref ?q"
    using vq assms(6,7) by (simp add: Versioned_Key_def versioned_valid_def)
  show ?thesis
  proof (cases "r = ref")
    case True
    have "\<exists>k s. Versioned_Key c w'' (en_KeyID e) ?q = (Inr k, s)"
      using locked_Key_bound [OF q, of c w'' m ref] True key assms(8) vq
      by (cases "locked_Key c w'' m (en_KeyID e) ref ?q") (auto simp: versioned_valid_def split: option.splits)
    then obtain k1 s where "kp_Key ?P w'' (en_KeyID e) ?q = (Inr k1, s)" by (auto simp: versioned_provider_def)
    from versioned_kp.Decrypt_Encrypt [OF assms(5) valid _ _ _ _ this assms(1)] True r assms(3,4)
    show ?thesis by simp
  next
    case False
    then show ?thesis using locked_Key_bound [OF q, of c w'' m ref] key r
      by (cases "locked_Key c w'' m (en_KeyID e) ref ?q") (simp add: Decrypt_def versioned_provider_def)
  qed
qed

text \<open>whatever happens to the manifest and to the keys, an identifier under which a key was handed out never stands for another
  reference later, and the cache never holds more than 32 keys.
\<close>

lemma key_identifiers_never_rebound:
  assumes "NewVersionedProvider c w0 path mode = Inr p0"
    and "Versioned_Key c w i (provider_run (versioned_provider c) cs p0) = (Inr k, p1)"
    and "Versioned_Key c w' i (provider_run (versioned_provider c) cs' p1) = (Inr k', p2)"
  shows "\<exists>m m' ref. key_manifest c mode (kw_manifest (w 0)) = Inr m \<and> key_manifest c mode (kw_manifest (w' 0)) = Inr m'
    \<and> map_of (km_Keys m) i = Some ref \<and> map_of (km_Keys m') i = Some ref \<and> card (dom (vp_cache p2)) \<le> 32"
proof -
  let ?I = "\<lambda>p. cache_bounded p \<and> vp_Mode p = mode"
  have I: "\<And>w i p. ?I p \<Longrightarrow> ?I (snd (Versioned_Key c w i p))" by (simp add: Versioned_Key_cache_bounded)
  let ?q = "provider_run (versioned_provider c) cs p0" and ?q' = "provider_run (versioned_provider c) cs' p1"
  have "?I p0" using NewVersionedProvider_state [OF assms(1)] by (simp add: cache_bounded_def)
  then have q: "?I ?q" using versioned_run_invariant [where I = ?I and c = c and cs = cs] I by blast
  then have "?I p1" using I [OF q, of w i] assms(2) by simp
  then have q': "?I ?q'" using versioned_run_invariant [where I = ?I and c = c and cs = cs'] I by blast
  then have b: "cache_bounded p2" using I [OF q', of w' i] assms(3) by simp
  from assms(2) obtain m ref where m: "key_manifest c mode (kw_manifest (w 0)) = Inr m" "map_of (km_Keys m) i = Some ref"
    "vp_bindings p1 i = Some ref" using q by (auto elim: Versioned_Key_success)
  from assms(3) obtain m' ref' where m': "key_manifest c mode (kw_manifest (w' 0)) = Inr m'" "map_of (km_Keys m') i = Some ref'"
    "vp_bindings p2 i = Some ref'" using q' by (auto elim: Versioned_Key_success)
  have "vp_bindings ?q' i = Some ref"
    by (rule versioned_run_invariant [where I = "\<lambda>p. vp_bindings p i = Some ref"])
      (use m(3) in \<open>auto intro: map_leD [OF Versioned_Key_bindings]\<close>)
  then have "vp_bindings p2 i = Some ref" using map_leD [OF Versioned_Key_bindings [of ?q' c w' i]] assms(3) by simp
  with m m' b show ?thesis by (auto simp: cache_bounded_def)
qed

section \<open>A concrete rotation\<close>

definition demo_ref :: "string \<Rightarrow> KeyReference" where
  "demo_ref file = \<lparr>kr_File = file, kr_SecretID = [], kr_VersionID = [], kr_Entry = []\<rparr>"

definition demo_codec :: key_codec where
  "demo_codec = \<lparr>
     kc_manifest = (\<lambda>s. if s = ''before'' then Some \<lparr>km_Current = ''k1'', km_Keys = [(''k1'', demo_ref ''f1'')]\<rparr>
        else if s = ''after'' then Some \<lparr>km_Current = ''k2'', km_Keys = [(''k2'', demo_ref ''f2''), (''k1'', demo_ref ''f1'')]\<rparr> else None),
     kc_token = (\<lambda>_. None), kc_payload = (\<lambda>_. None),
     kc_base64 = (\<lambda>s. if s = ''QQ'' then Some (replicate 32 CHR ''A'') else if s = ''Qg'' then Some (replicate 32 CHR ''B'') else None),
     kc_path_escape = (\<lambda>s. s), kc_query_escape = (\<lambda>s. s)\<rparr>"

definition demo_key_world :: "string \<Rightarrow> nat \<Rightarrow> key_world" where
  "demo_key_world m i = \<lparr>kw_manifest = Some m,
     kw_file = (\<lambda>p. if p = ''f1'' then Some ''QQ'' else if p = ''f2'' then Some ''Qg'' else None), kw_http = (\<lambda>_ _. None)\<rparr>"

definition demo_aead :: aead where
  "demo_aead = \<lparr>ae_seal = (\<lambda>k n p a. k @ n @ a @ p),
     ae_open = (\<lambda>k n x a. if take (length (k @ n @ a)) x = k @ n @ a then Some (drop (length (k @ n @ a)) x) else None)\<rparr>"

definition demo_material :: "KeyReference \<Rightarrow> string" where
  "demo_material ref = replicate 32 (if kr_File ref = ''f1'' then CHR ''A'' else CHR ''B'')"

definition demo_provider :: VersionedProvider where
  "demo_provider = \<lparr>vp_Mode = ''file'', vp_cache = Map.empty, vp_bindings = Map.empty\<rparr>"

definition demo_envelope :: Envelope where
  "demo_envelope = \<lparr>en_KeyID = ''k1'', en_Nonce = ''0123456789ab'',
     en_Ciphertext = replicate 32 CHR ''A'' @ ''0123456789ab'' @ ''stream:name'' @ ''secret''\<rparr>"

lemma demo_new: "NewVersionedProvider demo_codec (demo_key_world ''before'' 0) ''keys.json'' ''file'' = Inr demo_provider"
  by (simp add: NewVersionedProvider_def key_manifest_def demo_codec_def demo_key_world_def demo_provider_def reference_error_def demo_ref_def)

lemma demo_aead_law: "ae_open demo_aead k n (ae_seal demo_aead k n p a) a = Some p"
  by (simp add: demo_aead_def)

lemma demo_pinned: "pinned demo_codec ''file'' demo_material (demo_key_world m)"
proof -
  have "TrimSpace ''QQ'' = ''QQ''" "TrimSpace ''Qg'' = ''Qg''" by code_simp+
  then show ?thesis
    by (auto simp: pinned_def fetch_key_def fetch_raw_def decode_key_def demo_codec_def demo_key_world_def demo_material_def
        split: option.splits if_splits)
qed

lemma demo_after: "key_manifest demo_codec ''file'' (kw_manifest (demo_key_world ''after'' 0)) =
    Inr \<lparr>km_Current = ''k2'', km_Keys = [(''k2'', demo_ref ''f2''), (''k1'', demo_ref ''f1'')]\<rparr>"
  by (simp add: key_manifest_def demo_codec_def demo_key_world_def reference_error_def demo_ref_def)

lemma demo_before: "key_manifest demo_codec ''file'' (kw_manifest (demo_key_world ''before'' 0)) =
    Inr \<lparr>km_Current = ''k1'', km_Keys = [(''k1'', demo_ref ''f1'')]\<rparr>"
  by (simp add: key_manifest_def demo_codec_def demo_key_world_def reference_error_def demo_ref_def)

lemma demo_fetch:
  "fetch_key demo_codec (demo_key_world m) ''file'' (demo_ref ''f1'') = Inr (replicate 32 CHR ''A'')"
  "fetch_key demo_codec (demo_key_world m) ''file'' (demo_ref ''f2'') = Inr (replicate 32 CHR ''B'')"
proof -
  have "TrimSpace ''QQ'' = ''QQ''" "TrimSpace ''Qg'' = ''Qg''" by code_simp+
  then show "fetch_key demo_codec (demo_key_world m) ''file'' (demo_ref ''f1'') = Inr (replicate 32 CHR ''A'')"
    "fetch_key demo_codec (demo_key_world m) ''file'' (demo_ref ''f2'') = Inr (replicate 32 CHR ''B'')"
    by (simp_all add: fetch_key_def fetch_raw_def decode_key_def demo_codec_def demo_key_world_def demo_ref_def)
qed

definition demo_bound :: VersionedProvider where
  "demo_bound = \<lparr>vp_Mode = ''file'', vp_cache = [demo_ref ''f1'' \<mapsto> replicate 32 CHR ''A''], vp_bindings = [''k1'' \<mapsto> demo_ref ''f1'']\<rparr>"

lemma demo_shift: "(\<lambda>i. demo_key_world m (Suc i)) = demo_key_world m"
  by (simp add: demo_key_world_def fun_eq_iff)

lemma demo_Key_before:
  "Versioned_Key demo_codec (demo_key_world ''before'') ''k1'' demo_provider = (Inr (replicate 32 CHR ''A''), demo_bound)"
  "Versioned_Key demo_codec (demo_key_world ''before'') ''k1'' demo_bound = (Inr (replicate 32 CHR ''A''), demo_bound)"
  using demo_before
  by (auto simp: Versioned_Key_def locked_Key_def Let_def demo_fetch demo_provider_def demo_bound_def fun_eq_iff)

lemma demo_Key_after:
  "fst (Versioned_Key demo_codec (demo_key_world ''after'') ''k1''
     (snd (Versioned_CurrentKeyID demo_codec (demo_key_world ''after'') demo_bound))) = Inr (replicate 32 CHR ''A'')"
  using demo_after
  by (simp add: Versioned_CurrentKeyID_def Versioned_Key_def locked_Key_def Let_def demo_shift demo_fetch demo_bound_def)

lemma demo_sealed:
  "Encrypt demo_aead (versioned_provider demo_codec) (demo_key_world ''before'') (demo_key_world ''before'')
     ''0123456789ab'' ''secret'' ''stream:name'' demo_provider = (Inr demo_envelope, demo_bound)"
proof -
  have "vp_Mode demo_provider = ''file''" by (simp add: demo_provider_def)
  then have "Versioned_CurrentKeyID demo_codec (demo_key_world ''before'') demo_provider = (Inr ''k1'', demo_bound)"
    using demo_before by (simp add: Versioned_CurrentKeyID_def demo_shift demo_Key_before)
  then show ?thesis
    by (simp add: Encrypt_def versioned_provider_def demo_Key_before newAEAD_def NonceSize_def demo_envelope_def demo_aead_def)
qed

theorem sealed_secret_opens_after_rotation_witness:
  "fst (Decrypt demo_aead (versioned_provider demo_codec) (demo_key_world ''after'') demo_envelope ''stream:name''
     (provider_run (versioned_provider demo_codec) [CallCurrent (demo_key_world ''after'')] demo_bound)) = Inr ''secret''"
proof -
  have sealed: "Encrypt demo_aead (versioned_provider demo_codec) (demo_key_world ''before'') (demo_key_world ''before'')
      ''0123456789ab'' ''secret'' ''stream:name'' (provider_run (versioned_provider demo_codec) [] demo_provider) =
      (Inr demo_envelope, demo_bound)"
    using demo_sealed by simp
  have "vp_bindings demo_bound (en_KeyID demo_envelope) = Some (demo_ref ''f1'')" by (simp add: demo_bound_def demo_envelope_def)
  moreover have "map_of [(''k2'', demo_ref ''f2''), (''k1'', demo_ref ''f1'')] (en_KeyID demo_envelope) = Some (demo_ref ''f1'')"
    by (simp add: demo_envelope_def)
  ultimately show ?thesis
    using sealed_secret_opens_after_rotation [where w'' = "demo_key_world ''after''", OF demo_aead_law demo_new _ _ sealed demo_after,
        where cs' = "[CallCurrent (demo_key_world ''after'')]" and f = demo_material and ref = "demo_ref ''f1''"]
    by (simp add: demo_pinned demo_fetch)
qed

lemma key_identifiers_never_rebound_witness:
  "\<exists>m m' ref. key_manifest demo_codec ''file'' (kw_manifest (demo_key_world ''before'' 0)) = Inr m
    \<and> key_manifest demo_codec ''file'' (kw_manifest (demo_key_world ''after'' 0)) = Inr m'
    \<and> map_of (km_Keys m) ''k1'' = Some ref \<and> map_of (km_Keys m') ''k1'' = Some ref"
proof -
  let ?k = "Versioned_Key demo_codec (demo_key_world ''after'') ''k1''
    (provider_run (versioned_provider demo_codec) [CallCurrent (demo_key_world ''after'')] demo_bound)"
  have "fst ?k = Inr (replicate 32 CHR ''A'')" using demo_Key_after by (simp add: versioned_provider_def)
  then have "?k = (Inr (replicate 32 CHR ''A''), snd ?k)" by (simp add: prod_eq_iff)
  moreover have "Versioned_Key demo_codec (demo_key_world ''before'') ''k1''
      (provider_run (versioned_provider demo_codec) [] demo_provider) = (Inr (replicate 32 CHR ''A''), demo_bound)"
    by (simp add: demo_Key_before)
  ultimately show ?thesis using key_identifiers_never_rebound [OF demo_new] by blast
qed

end
