(* ===== verification/Request_Limits.thy ===== *)
theory Request_Limits
  imports Net_Policy
begin

text \<open>
  The limits in front of the application, \<^verbatim>\<open>backend/internal/application/security.go\<close>: which address a request comes from, the
  counters of attempts in the table \<^verbatim>\<open>auth_attempts\<close>, and the slots of concurrent work. The parsers and printers of
  \<^verbatim>\<open>net\<close> and \<^verbatim>\<open>net/netip\<close> and the digest of a key are arguments. Instants are milliseconds, the resolution in which the table
  stores them.
\<close>

section \<open>Addresses of requests\<close>

text \<open>A \<open>netip.Addr\<close> with its zone, which is empty for most addresses.\<close>

type_synonym netaddr = "addr \<times> string"

record net_lib =
  nl_split :: "string \<Rightarrow> (string \<times> string) option"
  nl_parse :: "string \<Rightarrow> netaddr option"
  nl_show :: "netaddr \<Rightarrow> string"
  nl_prefix :: "string \<Rightarrow> prefix option"

definition unmap_addr :: "netaddr \<Rightarrow> netaddr" where
  "unmap_addr ip = (case Unmap (fst ip) of V4 n \<Rightarrow> (V4 n, []) | V6 n \<Rightarrow> (V6 n, snd ip))"

text \<open>\<open>Prefix.Contains\<close> is false for an address with a zone.\<close>

definition net_contains :: "prefix \<Rightarrow> netaddr \<Rightarrow> bool" where
  "net_contains p ip \<longleftrightarrow> snd ip = [] \<and> Prefix_Contains p (fst ip)"

definition Masked :: "prefix \<Rightarrow> prefix" where
  "Masked p = (case p of
     P4 net len \<Rightarrow> P4 (net div 2 ^ (32 - len) * 2 ^ (32 - len)) len
   | P6 net len \<Rightarrow> P6 (net div 2 ^ (128 - len) * 2 ^ (128 - len)) len)"

fun parse_prefixes :: "net_lib \<Rightarrow> string list \<Rightarrow> prefix list option" where
  "parse_prefixes L [] = Some []"
| "parse_prefixes L (item # items) =
     (if TrimSpace item = [] then parse_prefixes L items
      else case nl_prefix L (TrimSpace item) of
             None \<Rightarrow> None
           | Some p \<Rightarrow> map_option ((#) (Masked p)) (parse_prefixes L items))"

definition ParsePrefixes :: "net_lib \<Rightarrow> string \<Rightarrow> prefix list option" where
  "ParsePrefixes L raw = parse_prefixes L (Split CHR '','' raw)"

definition inPrefixes :: "netaddr \<Rightarrow> prefix list \<Rightarrow> bool" where
  "inPrefixes ip ps \<longleftrightarrow> list_ex (\<lambda>p. net_contains p (unmap_addr ip)) ps"

definition peerIP :: "net_lib \<Rightarrow> string \<Rightarrow> netaddr option" where
  "peerIP L remote =
     (case nl_split L remote of None \<Rightarrow> None | Some (host, _) \<Rightarrow> map_option unmap_addr (nl_parse L host))"

text \<open>The loop over the chain of forwarding addresses, from the last one to the first.\<close>

fun forwarded_client :: "net_lib \<Rightarrow> prefix list \<Rightarrow> string list \<Rightarrow> string + string" where
  "forwarded_client L trusted [] = Inl ''no untrusted client in forwarded chain''"
| "forwarded_client L trusted (p # ps) =
     (case nl_parse L (TrimSpace p) of
        None \<Rightarrow> Inl ''invalid address''
      | Some ip \<Rightarrow>
          if \<not> inPrefixes (unmap_addr ip) trusted then Inr (nl_show L (unmap_addr ip)) else forwarded_client L trusted ps)"

definition clientIP :: "net_lib \<Rightarrow> prefix list \<Rightarrow> string \<Rightarrow> string \<Rightarrow> string + string" where
  "clientIP L trusted remote forwarded =
     (case peerIP L remote of
        None \<Rightarrow> Inl ''invalid address''
      | Some ip \<Rightarrow>
          if \<not> inPrefixes ip trusted then Inr (nl_show L ip)
          else if forwarded = [] then Inl ''trusted proxy did not provide client IP''
          else if length (Split CHR '','' forwarded) > 16 then Inl ''forwarded chain too long''
          else forwarded_client L trusted (rev (Split CHR '','' forwarded)))"

text \<open>\<open>None\<close> is the panic of \<open>MustParseAddr\<close>.\<close>

definition authNetwork :: "net_lib \<Rightarrow> string \<Rightarrow> string option" where
  "authNetwork L ip =
     (case nl_parse L ip of
        None \<Rightarrow> None
      | Some a \<Rightarrow>
          (case fst (unmap_addr a) of
             V6 n \<Rightarrow> Some (nl_show L (V6 (n div 2 ^ 64 * 2 ^ 64), []) @ ''/64'')
           | V4 n \<Rightarrow> Some (nl_show L (unmap_addr a))))"

section \<open>Counters of attempts\<close>

record attempt_row =
  at_key :: string
  at_count :: int
  at_expires :: time

text \<open>The statement of \<open>allow\<close>: insert a row, or count in the row of the key, which restarts when it has expired.\<close>

definition count_attempt :: "int \<Rightarrow> int \<Rightarrow> time \<Rightarrow> attempt_row \<Rightarrow> attempt_row" where
  "count_attempt maximum seconds now r =
     (if at_expires r < now then r\<lparr>at_count := 1, at_expires := now + seconds * 1000\<rparr>
      else r\<lparr>at_count := min (at_count r + 1) (maximum + 1)\<rparr>)"

fun upsert_attempt :: "string \<Rightarrow> int \<Rightarrow> int \<Rightarrow> time \<Rightarrow> attempt_row list \<Rightarrow> int \<times> attempt_row list" where
  "upsert_attempt key maximum seconds now [] = (1, [\<lparr>at_key = key, at_count = 1, at_expires = now + seconds * 1000\<rparr>])"
| "upsert_attempt key maximum seconds now (r # rs) =
     (if at_key r = key then (at_count (count_attempt maximum seconds now r), count_attempt maximum seconds now r # rs)
      else case upsert_attempt key maximum seconds now rs of (n, rs') \<Rightarrow> (n, r # rs'))"

definition allow :: "(string \<Rightarrow> string) \<Rightarrow> string \<Rightarrow> int \<Rightarrow> int \<Rightarrow> time \<Rightarrow> attempt_row list \<Rightarrow> bool \<times> attempt_row list" where
  "allow digest key maximum seconds now t =
     (case upsert_attempt (digest key) maximum seconds now t of (count, t') \<Rightarrow> (count \<le> maximum, t'))"

text \<open>The removal of expired rows; which 128 of them the subquery selects is up to the database.\<close>

definition purge_attempts :: "(string list \<Rightarrow> string list) \<Rightarrow> nat \<Rightarrow> time \<Rightarrow> attempt_row list \<Rightarrow> attempt_row list" where
  "purge_attempts select lim now t =
     (let chosen = take lim (select (map at_key (filter (\<lambda>r. at_expires r \<le> now) t))) in
      filter (\<lambda>r. \<not> (at_expires r \<le> now \<and> at_key r \<in> set chosen)) t)"

section \<open>Admission of an attempt to sign in\<close>

definition auth_limits :: "string \<Rightarrow> (string \<times> int \<times> int) list" where
  "auth_limits network = [(''auth:global'', 60, 60), (''auth:ip:'' @ network, 10, 900), (''auth:owner'', 10, 900)]"

text \<open>
  \<open>clock i\<close> is the time of the i-th statement and \<open>fault i\<close> says that the database fails it. The answer is \<open>None\<close> when the request
  is admitted and the status otherwise.
\<close>

fun check_limits ::
  "(string \<Rightarrow> string) \<Rightarrow> (nat \<Rightarrow> time) \<Rightarrow> (nat \<Rightarrow> bool) \<Rightarrow> nat \<Rightarrow> (string \<times> int \<times> int) list \<Rightarrow> attempt_row list \<Rightarrow>
   int option \<times> attempt_row list" where
  "check_limits digest clock fault i [] t = (None, t)"
| "check_limits digest clock fault i ((key, maximum, seconds) # limits) t =
     (if fault i then (Some 503, t)
      else case allow digest key maximum seconds (clock i) t of
             (allowed, t') \<Rightarrow> if allowed then check_limits digest clock fault (Suc i) limits t' else (Some 429, t'))"

record auth_request =
  ar_remote :: string
  ar_forwarded :: string
  ar_clock :: "nat \<Rightarrow> time"
  ar_fault :: "nat \<Rightarrow> bool"
  ar_select :: "string list \<Rightarrow> string list"

definition authAdmission ::
  "net_lib \<Rightarrow> prefix list \<Rightarrow> (string \<Rightarrow> string) \<Rightarrow> auth_request \<Rightarrow> attempt_row list \<Rightarrow> int option \<times> attempt_row list" where
  "authAdmission L trusted digest r t =
     (case clientIP L trusted (ar_remote r) (ar_forwarded r) of
        Inl _ \<Rightarrow> (Some 400, t)
      | Inr ip \<Rightarrow>
          (case authNetwork L ip of
             None \<Rightarrow> (Some 500, t)
           | Some network \<Rightarrow>
               (case check_limits digest (ar_clock r) (ar_fault r) 0 (auth_limits network) t of
                  (Some status, t') \<Rightarrow> (Some status, t')
                | (None, t') \<Rightarrow>
                    if ar_fault r 3 then (Some 503, t') else (None, purge_attempts (ar_select r) 128 (ar_clock r 3) t'))))"

text \<open>\<open>acquire\<close> on a buffered channel: the number of slots in use, or the answer 429.\<close>

definition acquire :: "nat \<Rightarrow> nat \<Rightarrow> nat option" where
  "acquire size_of used = (if used < size_of then Some (Suc used) else None)"

section \<open>The listener of the edge\<close>

datatype edge_answer = EdgeStatus int | EdgeAuth netaddr

definition EdgeHandler :: "net_lib \<Rightarrow> prefix list \<Rightarrow> nat \<Rightarrow> string \<Rightarrow> string \<Rightarrow> string \<Rightarrow> edge_answer" where
  "EdgeHandler L peers used remote http_method path =
     (case peerIP L remote of
        None \<Rightarrow> EdgeStatus 403
      | Some ip \<Rightarrow>
          if \<not> inPrefixes ip peers then EdgeStatus 403
          else if http_method \<noteq> ''POST'' \<or> path \<noteq> ''/v1/edge/auth'' then EdgeStatus 404
          else if acquire 4 used = None then EdgeStatus 429
          else EdgeAuth ip)"

section \<open>Forwarded addresses\<close>

lemma Masked_Contains: "Prefix_Contains (Masked p) a = Prefix_Contains p a"
  by (auto simp: Prefix_Contains_def Masked_def split: prefix.split addr.split)

lemma Split_join: "Split sep (a @ sep # b) = Split sep a @ Split sep b"
  by (induction a) (auto split: list.split)

lemma forwarded_client_append:
  "forwarded_client L trusted ps = Inr ip \<Longrightarrow> forwarded_client L trusted (ps @ qs) = Inr ip"
  by (induction ps) (auto split: option.splits if_splits)

text \<open>the address of a client cannot be forged. A peer that is not a trusted proxy is taken as it is, whatever headers it
  sends; behind trusted proxies, what a client puts in front of the entries that the proxies added changes nothing, unless it makes
  the chain too long, which is refused.\<close>

lemma client_address_not_forged:
  assumes "peerIP L remote = Some peer" "clientIP L trusted remote forwarded = Inr ip"
  shows "if inPrefixes peer trusted
    then clientIP L trusted remote (forged @ CHR '','' # forwarded) \<in> {Inr ip, Inl ''forwarded chain too long''}
    else clientIP L trusted remote forged = Inr ip"
proof (cases "inPrefixes peer trusted")
  case True
  then have "forwarded_client L trusted (rev (Split CHR '','' forwarded)) = Inr ip"
    using assms by (auto simp: clientIP_def split: if_splits)
  then show ?thesis
    using assms(1) True by (simp add: clientIP_def Split_join forwarded_client_append)
qed (use assms in \<open>simp add: clientIP_def\<close>)

section \<open>The table of attempts\<close>

definition row_of :: "string \<Rightarrow> attempt_row list \<Rightarrow> attempt_row option" where
  "row_of k t = find (\<lambda>r. at_key r = k) t"

text \<open>The primary key of the table, and counts that start at one.\<close>

definition attempts_ok :: "attempt_row list \<Rightarrow> bool" where
  "attempts_ok t \<longleftrightarrow> distinct (map at_key t) \<and> (\<forall>r \<in> set t. 0 \<le> at_count r)"

lemma row_of_Nil [simp]: "row_of k [] = None"
  and row_of_Cons [simp]: "row_of k (r # t) = (if at_key r = k then Some r else row_of k t)"
  by (simp_all add: row_of_def)

lemma row_of_None: "row_of k t = None \<longleftrightarrow> k \<notin> at_key ` set t"
  by (induction t) auto

lemma row_of_Some: "row_of k t = Some r \<Longrightarrow> r \<in> set t \<and> at_key r = k"
  by (induction t) (auto split: if_splits)

lemma count_attempt_key [simp]: "at_key (count_attempt m s now r) = at_key r"
  by (simp add: count_attempt_def)

lemma upsert_attempt_row:
  "row_of k (snd (upsert_attempt key m s now t)) =
     (if k = key then Some (case row_of key t of None \<Rightarrow> \<lparr>at_key = key, at_count = 1, at_expires = now + s * 1000\<rparr>
        | Some r \<Rightarrow> count_attempt m s now r) else row_of k t)"
  by (induction t) (auto split: prod.split)

lemma upsert_attempt_count:
  "Some (fst (upsert_attempt key m s now t)) = map_option at_count (row_of key (snd (upsert_attempt key m s now t)))"
  by (induction t) (auto split: prod.split)

lemma upsert_attempt_keys:
  "at_key ` set (snd (upsert_attempt key m s now t)) = insert key (at_key ` set t)"
  by (induction t) (auto split: prod.split)

lemma upsert_attempt_ok:
  assumes "attempts_ok t" "0 \<le> m"
  shows "attempts_ok (snd (upsert_attempt key m s now t))"
  using assms(1)
proof (induction t)
  case Nil
  then show ?case by (simp add: attempts_ok_def)
next
  case (Cons r t)
  then have ok: "attempts_ok t" "at_key r \<notin> at_key ` set t" "0 \<le> at_count r" by (auto simp: attempts_ok_def)
  show ?case
  proof (cases "at_key r = key")
    case True
    then show ?thesis using ok assms(2) by (auto simp: attempts_ok_def count_attempt_def)
  next
    case False
    then show ?thesis using ok Cons.IH upsert_attempt_keys [of key m s now t]
      by (auto simp: attempts_ok_def split: prod.split)
  qed
qed

lemma row_of_filter:
  assumes "distinct (map at_key t)"
  shows "row_of k (filter P t) = (case row_of k t of Some r \<Rightarrow> if P r then Some r else None | None \<Rightarrow> None)"
  using assms
proof (induction t)
  case (Cons r t)
  have "at_key r = k \<Longrightarrow> row_of k (filter P t) = None" using Cons.prems by (auto simp: row_of_None)
  with Cons show ?case by auto
qed simp

lemma purge_attempts_ok: "attempts_ok t \<Longrightarrow> attempts_ok (purge_attempts select lim now t)"
  by (auto simp: attempts_ok_def purge_attempts_def Let_def distinct_map_filter)

lemma purge_attempts_row:
  assumes "attempts_ok t"
  shows "row_of k (purge_attempts select lim now t) = row_of k t
    \<or> row_of k (purge_attempts select lim now t) = None \<and> (\<exists>r. row_of k t = Some r \<and> at_expires r \<le> now)"
  using assms by (auto simp: attempts_ok_def purge_attempts_def Let_def row_of_filter split: option.split)

section \<open>Histories of statements on the table\<close>

datatype limit_event =
  Attempt string int int time
| Purge "string list \<Rightarrow> string list" nat time

fun limit_time :: "limit_event \<Rightarrow> time" where
  "limit_time (Attempt _ _ _ now) = now"
| "limit_time (Purge _ _ now) = now"

fun limit_step :: "(string \<Rightarrow> string) \<Rightarrow> limit_event \<Rightarrow> attempt_row list \<Rightarrow> attempt_row list" where
  "limit_step digest (Attempt key m s now) t = snd (allow digest key m s now t)"
| "limit_step digest (Purge select lim now) t = purge_attempts select lim now t"

definition limit_run :: "(string \<Rightarrow> string) \<Rightarrow> limit_event list \<Rightarrow> attempt_row list \<Rightarrow> attempt_row list" where
  "limit_run digest es t = fold (limit_step digest) es t"

text \<open>How many attempts on a key a history lets through.\<close>

fun grants :: "(string \<Rightarrow> string) \<Rightarrow> string \<Rightarrow> limit_event list \<Rightarrow> attempt_row list \<Rightarrow> nat" where
  "grants digest k [] t = 0"
| "grants digest k (e # es) t =
     (case e of Attempt key m s now \<Rightarrow> of_bool (key = k \<and> fst (allow digest key m s now t)) | Purge _ _ _ \<Rightarrow> 0)
       + grants digest k es (limit_step digest e t)"

text \<open>The events that a limit on key \<open>k\<close> with this maximum and window meets: the digest tells the key from the others.\<close>

definition limit_event_ok :: "(string \<Rightarrow> string) \<Rightarrow> string \<Rightarrow> int \<Rightarrow> int \<Rightarrow> limit_event \<Rightarrow> bool" where
  "limit_event_ok digest k maximum seconds e = (case e of
     Attempt key m s now \<Rightarrow> 0 \<le> m \<and> (key = k \<longrightarrow> m = maximum \<and> s = seconds) \<and> (key \<noteq> k \<longrightarrow> digest key \<noteq> digest k)
   | Purge _ _ _ \<Rightarrow> True)"

lemma limit_run_simps [simp]:
  "limit_run digest [] t = t" "limit_run digest (e # es) t = limit_run digest es (limit_step digest e t)"
  "limit_run digest (es @ fs) t = limit_run digest fs (limit_run digest es t)"
  by (simp_all add: limit_run_def)

lemma grants_append: "grants digest k (es @ fs) t = grants digest k es t + grants digest k fs (limit_run digest es t)"
  by (induction es arbitrary: t) (simp_all add: limit_run_def)

lemma allow_snd: "snd (allow digest key m s now t) = snd (upsert_attempt (digest key) m s now t)"
  by (simp add: allow_def split: prod.split)

lemma limit_step_ok:
  "attempts_ok t \<Longrightarrow> limit_event_ok digest k m s e \<Longrightarrow> attempts_ok (limit_step digest e t)"
  by (cases e) (simp_all add: allow_snd upsert_attempt_ok purge_attempts_ok limit_event_ok_def)

lemma allow_row:
  "row_of (digest key) (snd (allow digest key m s now t)) = Some r \<Longrightarrow> fst (allow digest key m s now t) \<longleftrightarrow> at_count r \<le> m"
  using upsert_attempt_count [of "digest key" m s now t] by (auto simp: allow_def split: prod.splits)

lemma allow_counting:
  assumes "row_of (digest k) t = Some r" "now \<le> at_expires r"
  shows "row_of (digest k) (snd (allow digest k m s now t)) = Some (r\<lparr>at_count := min (at_count r + 1) (m + 1)\<rparr>)"
    and "fst (allow digest k m s now t) \<longleftrightarrow> at_count r + 1 \<le> m"
proof -
  show row: "row_of (digest k) (snd (allow digest k m s now t)) = Some (r\<lparr>at_count := min (at_count r + 1) (m + 1)\<rparr>)"
    using assms by (simp add: allow_snd upsert_attempt_row count_attempt_def)
  show "fst (allow digest k m s now t) \<longleftrightarrow> at_count r + 1 \<le> m" using allow_row [OF row] by auto
qed

lemma allow_restarts:
  assumes "\<And>r. row_of (digest k) t = Some r \<Longrightarrow> at_expires r < now"
  shows "\<exists>r. row_of (digest k) (snd (allow digest k m s now t)) = Some r \<and> at_count r = 1 \<and> at_expires r = now + s * 1000"
    and "fst (allow digest k m s now t) \<longleftrightarrow> 1 \<le> m"
proof -
  show row: "\<exists>r. row_of (digest k) (snd (allow digest k m s now t)) = Some r \<and> at_count r = 1 \<and> at_expires r = now + s * 1000"
    using assms by (auto simp: allow_snd upsert_attempt_row count_attempt_def split: option.split)
  then show "fst (allow digest k m s now t) \<longleftrightarrow> 1 \<le> m" using allow_row by force
qed

lemma limit_step_other:
  assumes "limit_event_ok digest k m s (Attempt key m' s' now)" "key \<noteq> k"
  shows "row_of (digest k) (limit_step digest (Attempt key m' s' now) t) = row_of (digest k) t"
  using assms by (auto simp: limit_event_ok_def allow_snd upsert_attempt_row)

text \<open>Until the row of a key expires, it lets through what is left of its maximum.\<close>

lemma grants_in_window:
  assumes "attempts_ok t" "\<forall>e \<in> set es. limit_event_ok digest k m s e \<and> limit_time e < b"
    and "row_of (digest k) t = Some r" "b \<le> at_expires r"
  shows "grants digest k es t \<le> nat (m - at_count r)"
  using assms
proof (induction es arbitrary: t r)
  case (Cons e es)
  have ok: "attempts_ok (limit_step digest e t)" "\<forall>e \<in> set es. limit_event_ok digest k m s e \<and> limit_time e < b"
    using Cons.prems limit_step_ok by auto
  show ?case
  proof (cases e)
    case (Purge select lim now)
    then have "row_of (digest k) (limit_step digest e t) = Some r"
      using purge_attempts_row [OF Cons.prems(1), of "digest k" select lim now] Cons.prems(2-4) by auto
    then show ?thesis using Cons.IH [OF ok] Cons.prems(4) Purge by simp
  next
    case (Attempt key m' s' now)
    show ?thesis
    proof (cases "key = k")
      case True
      then have e: "e = Attempt k m s now" using Cons.prems(2) Attempt by (simp add: limit_event_ok_def)
      note step = allow_counting [where digest = digest and k = k and m = m and s = s and now = now, OF Cons.prems(3)]
      have now: "now \<le> at_expires r" using Cons.prems(2,4) e by simp
      then have "row_of (digest k) (limit_step digest e t) = Some (r\<lparr>at_count := min (at_count r + 1) (m + 1)\<rparr>)"
        using step(1) e by simp
      from Cons.IH [OF ok this] Cons.prems(4)
      have "grants digest k es (limit_step digest e t) \<le> nat (m - min (at_count r + 1) (m + 1))" by simp
      then show ?thesis using step(2) [OF now] e by (auto simp: of_bool_def)
    next
      case False
      then have "row_of (digest k) (limit_step digest e t) = Some r"
        using limit_step_other [where digest = digest and k = k, OF _ False, of m s m' s' now t] Cons.prems(2,3) Attempt by simp
      then show ?thesis using Cons.IH [OF ok] Cons.prems(4) False Attempt by simp
    qed
  qed
qed simp

definition row_left :: "int \<Rightarrow> attempt_row option \<Rightarrow> nat" where
  "row_left m row = (case row of None \<Rightarrow> 0 | Some r \<Rightarrow> nat (m - at_count r))"

lemma grants_in_interval:
  assumes "attempts_ok t" "\<forall>e \<in> set es. limit_event_ok digest k m s e \<and> a \<le> limit_time e \<and> limit_time e < a + s * 1000" "0 \<le> m"
  shows "grants digest k es t \<le> row_left m (row_of (digest k) t) + nat m"
  using assms
proof (induction es arbitrary: t)
  case (Cons e es)
  have ok: "attempts_ok (limit_step digest e t)"
      "\<forall>e \<in> set es. limit_event_ok digest k m s e \<and> a \<le> limit_time e \<and> limit_time e < a + s * 1000"
    using Cons.prems limit_step_ok by auto
  note IH = Cons.IH [OF ok assms(3)]
  show ?case
  proof (cases e)
    case (Purge select lim now)
    have "row_left m (row_of (digest k) (limit_step digest e t)) \<le> row_left m (row_of (digest k) t)"
      using purge_attempts_row [OF Cons.prems(1), of "digest k" select lim now] Purge by (auto simp: row_left_def)
    then show ?thesis using IH Purge by simp
  next
    case (Attempt key m' s' now)
    show ?thesis
    proof (cases "key = k")
      case False
      then have "row_of (digest k) (limit_step digest e t) = row_of (digest k) t"
        using limit_step_other [where digest = digest and k = k, OF _ False, of m s m' s' now t] Cons.prems(2) Attempt by simp
      then show ?thesis using IH False Attempt by simp
    next
      case True
      then have e: "e = Attempt k m s now" using Cons.prems(2) Attempt by (simp add: limit_event_ok_def)
      show ?thesis
      proof (cases "\<exists>r. row_of (digest k) t = Some r \<and> now \<le> at_expires r")
        case True
        then obtain r where r: "row_of (digest k) t = Some r" "now \<le> at_expires r" by blast
        note step = allow_counting [where digest = digest and k = k and m = m and s = s, OF this]
        have "row_left m (row_of (digest k) (limit_step digest e t)) + of_bool (fst (allow digest k m s now t)) \<le> nat (m - at_count r)"
          using step e by (auto simp: row_left_def of_bool_def)
        then show ?thesis using IH e r(1) by (simp add: row_left_def)
      next
        case False
        then have fresh: "\<And>r. row_of (digest k) t = Some r \<Longrightarrow> at_expires r < now" by force
        from allow_restarts(1) [where digest = digest and k = k and m = m and s = s, OF this] obtain r
          where r: "row_of (digest k) (limit_step digest e t) = Some r" "at_count r = 1" "at_expires r = now + s * 1000"
          using e by auto
        have late: "\<forall>e \<in> set es. limit_event_ok digest k m s e \<and> limit_time e < a + s * 1000" using ok(2) by simp
        have "a + s * 1000 \<le> at_expires r" using Cons.prems(2) e r(3) by simp
        from grants_in_window [OF ok(1) late r(1) this]
        have "grants digest k es (limit_step digest e t) \<le> nat (m - 1)" using r(2) by simp
        then show ?thesis using allow_restarts(2) [where digest = digest and k = k and m = m and s = s, OF fresh] e assms(3) by (auto simp: of_bool_def)
      qed
    qed
  qed
qed (simp add: row_left_def)

lemma grants_bounded:
  assumes "attempts_ok t" "\<forall>e \<in> set es. limit_event_ok digest k m s e \<and> a \<le> limit_time e \<and> limit_time e < a + s * 1000" "0 \<le> m"
  shows "grants digest k es t \<le> 2 * nat m"
proof -
  have "row_left m (row_of (digest k) t) \<le> nat m"
    using assms(1) by (auto simp: row_left_def attempts_ok_def split: option.split dest!: row_of_Some)
  with grants_in_interval [OF assms] show ?thesis by simp
qed

section \<open>How many attempts to sign in are admitted\<close>

definition statement_of :: "(nat \<Rightarrow> time) \<Rightarrow> (string \<times> int \<times> int) list \<Rightarrow> limit_event \<Rightarrow> bool" where
  "statement_of clock limits e \<longleftrightarrow> (\<exists>i < 4. limit_time e = clock i) \<and>
     (case e of Attempt key m s now \<Rightarrow> (key, m, s) \<in> set limits | Purge _ _ _ \<Rightarrow> True)"

lemma check_limits_events:
  assumes "i + length limits \<le> 4"
  shows "\<exists>es. snd (check_limits digest clock fault i limits t) = limit_run digest es t
    \<and> (\<forall>e \<in> set es. statement_of clock limits e)
    \<and> (fst (check_limits digest clock fault i limits t) = None \<longrightarrow> (\<forall>l \<in> set limits. 1 \<le> grants digest (fst l) es t))"
  using assms
proof (induction limits arbitrary: i t)
  case Nil
  then show ?case by (auto intro!: exI [of _ "[]"])
next
  case (Cons l limits)
  obtain key m s where l: "l = (key, m, s)" by (cases l)
  obtain allowed t' where step: "allow digest key m s (clock i) t = (allowed, t')" by (cases "allow digest key m s (clock i) t")
  let ?e = "Attempt key m s (clock i)"
  have stmt: "statement_of clock (l # limits) ?e" using Cons.prems l by (auto simp: statement_of_def intro!: exI [of _ i])
  show ?case
  proof (cases "fault i")
    case True
    then show ?thesis using l by (intro exI [of _ "[]"]) simp
  next
    case up: False
    show ?thesis
    proof (cases allowed)
      case False
      then show ?thesis using l step stmt up by (intro exI [of _ "[?e]"]) simp
    next
      case True
      obtain es where es: "snd (check_limits digest clock fault (Suc i) limits t') = limit_run digest es t'"
      "\<forall>e \<in> set es. statement_of clock limits e"
      "fst (check_limits digest clock fault (Suc i) limits t') = None \<longrightarrow> (\<forall>l \<in> set limits. 1 \<le> grants digest (fst l) es t')"
      using Cons.IH [of "Suc i" t'] Cons.prems by auto
    have "\<forall>e \<in> set es. statement_of clock (l # limits) e"
      using es(2) by (auto simp: statement_of_def split: limit_event.splits)
    then show ?thesis
      using es stmt up True l step by (intro exI [of _ "?e # es"]) (auto simp: trans_le_add2)
    qed
  qed
qed

lemma authAdmission_events:
  "\<exists>es network. snd (authAdmission L trusted digest r t) = limit_run digest es t
    \<and> (\<forall>e \<in> set es. statement_of (ar_clock r) (auth_limits network) e)
    \<and> (fst (authAdmission L trusted digest r t) = None \<longrightarrow> 1 \<le> grants digest ''auth:owner'' es t)"
proof (cases "clientIP L trusted (ar_remote r) (ar_forwarded r)")
  case (Inr ip)
  show ?thesis
  proof (cases "authNetwork L ip")
    case (Some network)
    let ?c = "check_limits digest (ar_clock r) (ar_fault r) 0 (auth_limits network) t"
    obtain es where es: "snd ?c = limit_run digest es t" "\<forall>e \<in> set es. statement_of (ar_clock r) (auth_limits network) e"
      "fst ?c = None \<longrightarrow> (\<forall>l \<in> set (auth_limits network). 1 \<le> grants digest (fst l) es t)"
      using check_limits_events [of 0 "auth_limits network" digest "ar_clock r" "ar_fault r" t] by (auto simp: auth_limits_def)
    let ?p = "Purge (ar_select r) 128 (ar_clock r 3)"
    show ?thesis
    proof (cases "fst ?c = None \<and> \<not> ar_fault r 3")
      case True
      then have "authAdmission L trusted digest r t = (None, limit_run digest (es @ [?p]) t)"
        using es(1) Inr Some by (cases ?c) (simp add: authAdmission_def)
      moreover have "statement_of (ar_clock r) (auth_limits network) ?p" by (auto simp: statement_of_def intro!: exI [of _ 3])
      moreover have "1 \<le> grants digest ''auth:owner'' (es @ [?p]) t"
        using es(3) True by (simp add: grants_append auth_limits_def)
      ultimately show ?thesis using es(2) by (intro exI [of _ "es @ [?p]"] exI [of _ network]) auto
    next
      case False
      then have "snd (authAdmission L trusted digest r t) = limit_run digest es t" "fst (authAdmission L trusted digest r t) \<noteq> None"
        using es(1) Inr Some by (cases ?c; cases "fst ?c"; simp add: authAdmission_def)+
      then show ?thesis using es(2) by (intro exI [of _ es] exI [of _ network]) auto
    qed
  qed (auto simp: authAdmission_def Inr intro!: exI [of _ "[]"])
qed (auto simp: authAdmission_def intro!: exI [of _ "[]"])

fun admissions :: "net_lib \<Rightarrow> prefix list \<Rightarrow> (string \<Rightarrow> string) \<Rightarrow> auth_request list \<Rightarrow> attempt_row list \<Rightarrow> nat" where
  "admissions L trusted digest [] t = 0"
| "admissions L trusted digest (r # rs) t =
     of_bool (fst (authAdmission L trusted digest r t) = None) + admissions L trusted digest rs (snd (authAdmission L trusted digest r t))"

lemma admissions_grants:
  "\<exists>es. admissions L trusted digest rs t \<le> grants digest ''auth:owner'' es t
    \<and> (\<forall>e \<in> set es. \<exists>r \<in> set rs. \<exists>network. statement_of (ar_clock r) (auth_limits network) e)"
proof (induction rs arbitrary: t)
  case Nil
  show ?case by (auto intro!: exI [of _ "[]"])
next
  case (Cons r rs)
  obtain es network where es: "snd (authAdmission L trusted digest r t) = limit_run digest es t"
    "\<forall>e \<in> set es. statement_of (ar_clock r) (auth_limits network) e"
    "fst (authAdmission L trusted digest r t) = None \<longrightarrow> 1 \<le> grants digest ''auth:owner'' es t"
    using authAdmission_events by blast
  obtain fs where fs: "admissions L trusted digest rs (limit_run digest es t) \<le> grants digest ''auth:owner'' fs (limit_run digest es t)"
    "\<forall>e \<in> set fs. \<exists>r \<in> set rs. \<exists>network. statement_of (ar_clock r) (auth_limits network) e"
    using Cons.IH by blast
  have "admissions L trusted digest (r # rs) t \<le> grants digest ''auth:owner'' (es @ fs) t"
    using es(1,3) fs(1) by (auto simp: grants_append of_bool_def)
  moreover have "\<forall>e \<in> set (es @ fs). \<exists>r \<in> set (r # rs). \<exists>network. statement_of (ar_clock r) (auth_limits network) e"
    using es(2) fs(2) by auto
  ultimately show ?case by blast
qed

lemma statement_limit_ok:
  assumes "statement_of clock (auth_limits network) e" "\<And>key. digest key = digest ''auth:owner'' \<Longrightarrow> key = ''auth:owner''"
  shows "limit_event_ok digest ''auth:owner'' 10 900 e"
  using assms by (cases e) (auto simp: limit_event_ok_def statement_of_def auth_limits_def)

text \<open>C21: within any fifteen minutes at most twenty attempts to sign in are admitted, from whatever addresses and with whatever
  headers they come, and however the database fails or cleans up in between.\<close>

theorem sign_in_attempts_bounded:
  assumes "attempts_ok t" "\<And>key. digest key = digest ''auth:owner'' \<Longrightarrow> key = ''auth:owner''"
    and "\<forall>r \<in> set rs. \<forall>i < 4. start \<le> ar_clock r i \<and> ar_clock r i < start + 900000"
  shows "admissions L trusted digest rs t \<le> 20"
proof -
  obtain es where es: "admissions L trusted digest rs t \<le> grants digest ''auth:owner'' es t"
    "\<forall>e \<in> set es. \<exists>r \<in> set rs. \<exists>network. statement_of (ar_clock r) (auth_limits network) e"
    using admissions_grants by blast
  have "limit_event_ok digest ''auth:owner'' 10 900 e \<and> start \<le> limit_time e \<and> limit_time e < start + 900 * 1000" if "e \<in> set es" for e
  proof -
    from es(2) that obtain r network where "r \<in> set rs" "statement_of (ar_clock r) (auth_limits network) e" by blast
    then show ?thesis using statement_limit_ok assms(2,3) by (fastforce simp: statement_of_def)
  qed
  then have "grants digest ''auth:owner'' es t \<le> 2 * nat 10" by (intro grants_bounded [OF assms(1)]) auto
  with es(1) show ?thesis by simp
qed

section \<open>Concrete requests\<close>

definition demo_lib :: net_lib where
  "demo_lib = \<lparr>nl_split = (\<lambda>s. Some (s, [])),
     nl_parse = (\<lambda>s. if s = ''10.0.0.1'' then Some (V4 (ip4 10 0 0 1), []) else if s = ''1.2.3.4'' then Some (V4 (ip4 1 2 3 4), []) else None),
     nl_show = (\<lambda>a. if fst a = V4 (ip4 10 0 0 1) then ''10.0.0.1'' else ''1.2.3.4''),
     nl_prefix = (\<lambda>_. None)\<rparr>"

definition demo_trusted :: "prefix list" where
  "demo_trusted = [P4 (ip4 10 0 0 0) 8]"

lemma demo_TrimSpace: "TrimSpace '' 1.2.3.4'' = ''1.2.3.4''"
  by code_simp

lemma demo_peer: "peerIP demo_lib ''10.0.0.1'' = Some (V4 (ip4 10 0 0 1), [])"
  "inPrefixes (V4 (ip4 10 0 0 1), []) demo_trusted" "\<not> inPrefixes (V4 (ip4 1 2 3 4), []) demo_trusted"
  by (simp_all add: peerIP_def demo_lib_def unmap_addr_def Unmap_def inPrefixes_def demo_trusted_def net_contains_def Prefix_Contains_def
      ip4_def)

lemma demo_client: "clientIP demo_lib demo_trusted ''10.0.0.1'' '' 1.2.3.4'' = Inr ''1.2.3.4''"
proof -
  have "unmap_addr (V4 (ip4 1 2 3 4), []) = (V4 (ip4 1 2 3 4), [])" by (simp add: unmap_addr_def Unmap_def)
  moreover have "nl_parse demo_lib ''1.2.3.4'' = Some (V4 (ip4 1 2 3 4), [])" "nl_show demo_lib (V4 (ip4 1 2 3 4), []) = ''1.2.3.4''"
    by (simp_all add: demo_lib_def ip4_def)
  ultimately show ?thesis using demo_peer by (simp add: clientIP_def demo_TrimSpace)
qed

lemma client_address_not_forged_witness:
  "clientIP demo_lib demo_trusted ''10.0.0.1'' (''8.8.8.8'' @ CHR '','' # '' 1.2.3.4'') \<in> {Inr ''1.2.3.4'', Inl ''forwarded chain too long''}"
  using client_address_not_forged [OF demo_peer(1) demo_client, of "''8.8.8.8''"] demo_peer(2) by simp

definition demo_request :: auth_request where
  "demo_request = \<lparr>ar_remote = ''1.2.3.4'', ar_forwarded = [], ar_clock = (\<lambda>i. 1000 + int i), ar_fault = (\<lambda>_. False), ar_select = (\<lambda>ks. ks)\<rparr>"

theorem sign_in_attempts_bounded_witness:
  "admissions demo_lib demo_trusted (\<lambda>key. key) (replicate 40 demo_request) [] \<le> 20"
  by (rule sign_in_attempts_bounded [where start = 0]) (auto simp: attempts_ok_def demo_request_def)

end
