(* ===== verification/Source_Settings.thy ===== *)
theory Source_Settings
  imports Envelope_Crypto Media_Config Request_Limits Session_Store
begin

text \<open>
  The source of an account and its ingest key, \<^verbatim>\<open>backend/internal/application/source.go\<close>: the source is provisioned once, its key is shown again on
  demand and replaced only on request. The key is stored twice: as a hash, with which the edge checks publishers, and sealed, so that the owner
  can read it. A request is one transaction; the counter of attempts to rotate is committed before it, and the key provider
  keeps what it learned when the transaction is rolled back.
\<close>

section \<open>State, surroundings and answers\<close>

record slate_row =
  sl_source :: string
  sl_on_loss :: bool
  sl_forced :: bool
  sl_generation :: int
  sl_updated :: time

record profile_row =
  pr_source :: string
  pr_profile :: media_profile
  pr_generation :: int

record 's source_state =
  so_db :: db
  so_sources :: "(string \<times> string) list"
  so_slates :: "slate_row list"
  so_profiles :: "profile_row list"
  so_credentials :: "(string \<times> string) list"
  so_users :: "(string \<times> string \<times> string) list"
  so_attempts :: "attempt_row list"
  so_audit :: "(string \<times> string \<times> string) list"
  so_keys :: 's

record ('e, 's) source_env =
  sv_aead :: aead
  sv_Keys :: "('e, 's) KeyProvider option"
  sv_worlds :: "nat \<Rightarrow> 'e"
  sv_random :: string
  sv_raw :: string
  sv_salt :: string
  sv_uuid :: string
  sv_now :: time
  sv_fault :: "nat \<Rightarrow> bool"
  sv_region :: string
  sv_b64url :: "string \<Rightarrow> string"
  sv_json :: "Envelope \<Rightarrow> string"
  sv_unjson :: "string \<Rightarrow> Envelope option"
  sv_pbkdf2 :: "string \<Rightarrow> string \<Rightarrow> nat \<Rightarrow> nat \<Rightarrow> string"
  sv_passwordHash :: "string \<Rightarrow> string \<Rightarrow> string"

datatype source_answer = SourceStatus int | SourceView string string bool

text \<open>The name that every provisioned source gets, in UTF-8.\<close>

definition source_name :: string where
  "source_name = [CHR 0xD0, CHR 0x98, CHR 0xD1, CHR 0x81, CHR 0xD1, CHR 0x82, CHR 0xD0, CHR 0xBE, CHR 0xD1, CHR 0x87,
     CHR 0xD0, CHR 0xBD, CHR 0xD0, CHR 0xB8, CHR 0xD0, CHR 0xBA]"

definition key_aad :: "string \<Rightarrow> string" where
  "key_aad i = ''source-key:'' @ i"

section \<open>Sealing and opening the key\<close>

definition sealSourceKey :: "('e, 's) source_env \<Rightarrow> string \<Rightarrow> string \<Rightarrow> 's \<Rightarrow> string option \<times> 's" where
  "sealSourceKey v i key k =
     (case sv_Keys v of
        None \<Rightarrow> (None, k)
      | Some p \<Rightarrow>
          (case Encrypt (sv_aead v) p (sv_worlds v 0) (sv_worlds v 1) (sv_random v) key (key_aad i) k of
             (Inl _, k') \<Rightarrow> (None, k')
           | (Inr e, k') \<Rightarrow> (Some (sv_json v e), k')))"

definition openSourceKey :: "('e, 's) source_env \<Rightarrow> string \<Rightarrow> string \<Rightarrow> 's \<Rightarrow> string option \<times> 's" where
  "openSourceKey v i encrypted k =
     (if encrypted = [] then (Some [], k)
      else case sv_Keys v of
          None \<Rightarrow> (None, k)
        | Some p \<Rightarrow>
            (case sv_unjson v encrypted of
               None \<Rightarrow> (None, k)
             | Some e \<Rightarrow>
                 (case Decrypt (sv_aead v) p (sv_worlds v 2) e (key_aad i) k of
                    (Inl _, k') \<Rightarrow> (None, k')
                  | (Inr key, k') \<Rightarrow> (Some key, k'))))"

section \<open>Reading\<close>

definition delivery_configured :: "string \<Rightarrow> db \<Rightarrow> bool" where
  "delivery_configured i d \<longleftrightarrow> list_ex (\<lambda>r. de_stream r = i \<and> de_enabled r \<and> \<not> de_archived r) (destinations d)"

text \<open>The end of both methods: the look at the outputs, and the view.\<close>

definition source_view :: "('e, 's) source_env \<Rightarrow> string \<Rightarrow> string \<Rightarrow> 's source_state \<Rightarrow> source_answer \<times> 's source_state" where
  "source_view v i key s = (if sv_fault v 9 then (SourceStatus 503, s) else (SourceView i key (delivery_configured i (so_db s)), s))"

definition stored_secret :: "string \<Rightarrow> 's source_state \<Rightarrow> string" where
  "stored_secret i s = (case map_of (so_credentials s) i of None \<Rightarrow> [] | Some x \<Rightarrow> x)"

definition source_get :: "('e, 's) source_env \<Rightarrow> string \<Rightarrow> 's source_state \<Rightarrow> source_answer \<times> 's source_state" where
  "source_get v account s =
     (if sv_fault v 0 then (SourceStatus 503, s)
      else case map_of (so_sources s) account of
          None \<Rightarrow> (SourceStatus 404, s)
        | Some i \<Rightarrow>
            if \<not> list_ex (\<lambda>r. st_id r = i) (streams (so_db s)) then (SourceStatus 404, s)
            else (case openSourceKey v i (stored_secret i s) (so_keys s) of
                    (None, k) \<Rightarrow> (SourceStatus 503, s\<lparr>so_keys := k\<rparr>)
                  | (Some key, k) \<Rightarrow> source_view v i key (s\<lparr>so_keys := k\<rparr>)))"

section \<open>Attempts to rotate\<close>

text \<open>Unlike the limits of \<^verbatim>\<open>security.go\<close>, this counter is not capped and its key is not hashed.\<close>

definition count_rotation :: "time \<Rightarrow> attempt_row \<Rightarrow> attempt_row" where
  "count_rotation now r =
     (if at_expires r < now then r\<lparr>at_count := 1, at_expires := now + 900000\<rparr> else r\<lparr>at_count := at_count r + 1\<rparr>)"

definition rotation_attempt :: "string \<Rightarrow> time \<Rightarrow> attempt_row list \<Rightarrow> int \<times> attempt_row list" where
  "rotation_attempt account now t =
     (let key = ''source-rotation:'' @ account in
      case find (\<lambda>r. at_key r = key) t of
        None \<Rightarrow> (1, t @ [\<lparr>at_key = key, at_count = 1, at_expires = now + 900000\<rparr>])
      | Some r \<Rightarrow> (at_count (count_rotation now r), update_where (\<lambda>r. at_key r = key) (count_rotation now) t))"

text \<open>The password, after the counter; the answer is \<open>None\<close> when the request may go on.\<close>

definition rotation_guard :: "('e, 's) source_env \<Rightarrow> string \<Rightarrow> string option \<Rightarrow> 's source_state \<Rightarrow> int option \<times> 's source_state" where
  "rotation_guard v account input s =
     (case input of
        None \<Rightarrow> (Some 400, s)
      | Some password \<Rightarrow>
          if length password < 12 \<or> length password > 256 then (Some 400, s)
          else if sv_fault v 0 then (Some 503, s)
          else case rotation_attempt account (sv_now v div millisecond) (so_attempts s) of
              (attempts, t) \<Rightarrow>
                (let s1 = s\<lparr>so_attempts := t\<rparr> in
                 if attempts > 10 then (Some 429, s1)
                 else case map_of (so_users s1) account of
                     None \<Rightarrow> (Some 403, s1)
                   | Some (hash, salt) \<Rightarrow> if sv_fault v 1 \<or> sv_passwordHash v password salt \<noteq> hash then (Some 403, s1) else (None, s1)))"

section \<open>The transaction\<close>

text \<open>The slate and the media profile of a new source are the defaults of the schema.\<close>

definition new_slate :: "time \<Rightarrow> string \<Rightarrow> slate_row" where
  "new_slate now i = \<lparr>sl_source = i, sl_on_loss = True, sl_forced = False, sl_generation = 1, sl_updated = now\<rparr>"

definition new_profile :: "string \<Rightarrow> profile_row" where
  "new_profile i = \<lparr>pr_source = i, pr_profile = DefaultMediaProfile, pr_generation = 1\<rparr>"

definition create_source :: "('e, 's) source_env \<Rightarrow> string \<Rightarrow> string \<Rightarrow> 's source_state \<Rightarrow> (string \<times> 's source_state) option" where
  "create_source v account key s =
     (case HashKey (sv_pbkdf2 v) (sv_salt v) key of
        None \<Rightarrow> None
      | Some hash \<Rightarrow>
          (case CreateStream (sv_uuid v) (sv_now v) account source_name (if sv_region v = [] then ''local'' else sv_region v) hash (so_db s) of
             (Inl _, _) \<Rightarrow> None
           | (Inr st, d) \<Rightarrow>
               if list_ex (\<lambda>r. sl_source r = st_id st) (so_slates s) \<or> st_id st \<in> snd ` set (so_sources s) then None
               else Some (st_id st, s\<lparr>so_db := d, so_sources := so_sources s @ [(account, st_id st)],
                      so_slates := so_slates s @ [new_slate (sv_now v) (st_id st)]\<rparr>)))"

definition add_profile :: "string \<Rightarrow> 's source_state \<Rightarrow> 's source_state" where
  "add_profile i s = (if list_ex (\<lambda>r. pr_source r = i) (so_profiles s) then s else s\<lparr>so_profiles := so_profiles s @ [new_profile i]\<rparr>)"

definition enable_source :: "time \<Rightarrow> string \<Rightarrow> db \<Rightarrow> db" where
  "enable_source now i d = d\<lparr>streams := update_where (\<lambda>r. st_id r = i \<and> \<not> st_enabled r)
     (\<lambda>r. r\<lparr>st_enabled := True, st_generation := st_generation r + 1, st_updated := now\<rparr>) (streams d)\<rparr>"

definition source_active :: "string \<Rightarrow> db \<Rightarrow> bool" where
  "source_active i d \<longleftrightarrow> list_ex (\<lambda>x. ss_stream x = i \<and> session_active x) (sessions d)
     \<or> list_ex (\<lambda>c. ic_stream c = i \<and> ic_status c = Connected) (connections d)"

definition replace_hash :: "time \<Rightarrow> string \<Rightarrow> string \<Rightarrow> db \<Rightarrow> db" where
  "replace_hash now i hash d = d\<lparr>streams := update_where (\<lambda>r. st_id r = i) (\<lambda>r. r\<lparr>st_hash := hash, st_updated := now\<rparr>) (streams d)\<rparr>"

definition rotate_source :: "('e, 's) source_env \<Rightarrow> string \<Rightarrow> string \<Rightarrow> string \<Rightarrow> 's source_state \<Rightarrow> int + 's source_state" where
  "rotate_source v account i key s =
     (if source_active i (so_db s) then Inl 409
      else case HashKey (sv_pbkdf2 v) (sv_salt v) key of
          None \<Rightarrow> Inl 503
        | Some hash \<Rightarrow>
            if sv_fault v 5 then Inl 503
            else Inr (s\<lparr>so_db := replace_hash (sv_now v) i hash (so_db s), so_audit := so_audit s @ [(account, ''ROTATE_INGEST_KEY'', i)]\<rparr>))"

text \<open>The first part fixes the source: its identifier, the new key if there is one, and the state.\<close>

definition source_target :: "('e, 's) source_env \<Rightarrow> string \<Rightarrow> bool \<Rightarrow> 's source_state \<Rightarrow> int + string \<times> string \<times> 's source_state" where
  "source_target v account rotating s =
     (let key = sv_b64url v (sv_raw v) in
      case map_of (so_sources s) account of
        None \<Rightarrow>
          if rotating then Inl 404
          else if sv_fault v 3 then Inl 503
          else (case create_source v account key s of
                  None \<Rightarrow> Inl 503
                | Some (i, s1) \<Rightarrow>
                    (let s2 = add_profile i s1 in Inr (i, key, s2\<lparr>so_db := enable_source (sv_now v) i (so_db s2)\<rparr>)))
      | Some i \<Rightarrow>
          (let s1 = add_profile i s in
           if rotating then (case rotate_source v account i key s1 of Inl e \<Rightarrow> Inl e | Inr s2 \<Rightarrow> Inr (i, key, s2))
           else Inr (i, [], s1\<lparr>so_db := enable_source (sv_now v) i (so_db s1)\<rparr>)))"

text \<open>The second part stores the new key or reads the old one, and commits; \<open>s\<close> is the state before the transaction.\<close>

definition source_commit ::
  "('e, 's) source_env \<Rightarrow> string \<Rightarrow> string \<Rightarrow> 's source_state \<Rightarrow> 's source_state \<Rightarrow> source_answer \<times> 's source_state" where
  "source_commit v i key s1 s =
     (if key \<noteq> [] then
        (case sealSourceKey v i key (so_keys s) of
           (None, k) \<Rightarrow> (SourceStatus 503, s\<lparr>so_keys := k\<rparr>)
         | (Some x, k) \<Rightarrow>
             if sv_fault v 7 \<or> x = [] then (SourceStatus 503, s\<lparr>so_keys := k\<rparr>)
             else source_view v i key (s1\<lparr>so_keys := k, so_credentials := (i, x) # filter (\<lambda>c. fst c \<noteq> i) (so_credentials s1)\<rparr>))
      else
        (case openSourceKey v i (stored_secret i s1) (so_keys s) of
           (None, k) \<Rightarrow> (SourceStatus 503, s\<lparr>so_keys := k\<rparr>)
         | (Some old, k) \<Rightarrow> if sv_fault v 7 then (SourceStatus 503, s\<lparr>so_keys := k\<rparr>) else source_view v i old (s1\<lparr>so_keys := k\<rparr>)))"

definition source_post :: "('e, 's) source_env \<Rightarrow> string \<Rightarrow> bool \<Rightarrow> string option \<Rightarrow> 's source_state \<Rightarrow> source_answer \<times> 's source_state" where
  "source_post v account rotating input s0 =
     (case (if rotating then rotation_guard v account input s0 else (None, s0)) of
        (Some status, s) \<Rightarrow> (SourceStatus status, s)
      | (None, s) \<Rightarrow>
          if sv_fault v 2 then (SourceStatus 503, s)
          else (case source_target v account rotating s of
                  Inl status \<Rightarrow> (SourceStatus status, s)
                | Inr (i, key, s1) \<Rightarrow> source_commit v i key s1 s))"

text \<open>The handler; \<open>credential\<close> says that the path is the one of the key.\<close>

definition source :: "('e, 's) source_env \<Rightarrow> string \<Rightarrow> bool \<Rightarrow> string \<Rightarrow> string option \<Rightarrow> 's source_state \<Rightarrow> source_answer \<times> 's source_state" where
  "source v account credential meth input s =
     (if credential \<and> meth \<noteq> ''POST'' then (SourceStatus 405, s)
      else if meth \<noteq> ''GET'' \<and> meth \<noteq> ''POST'' then (SourceStatus 405, s)
      else if meth = ''GET'' then source_get v account s
      else source_post v account credential input s)"

section \<open>What a request keeps\<close>

text \<open>The hash that the edge sees for a source, the reference of every source to its stream, and the same program in later surroundings.\<close>

definition key_hash :: "string \<Rightarrow> db \<Rightarrow> string option" where
  "key_hash i d = map_of (map (\<lambda>r. (st_id r, st_hash r)) (streams d)) i"

definition sources_ok :: "'s source_state \<Rightarrow> bool" where
  "sources_ok s \<longleftrightarrow> snd ` set (so_sources s) \<subseteq> st_id ` set (streams (so_db s))"

definition later :: "(nat \<Rightarrow> 'e) \<Rightarrow> time \<Rightarrow> ('e, 's) source_env \<Rightarrow> ('e, 's) source_env" where
  "later ws now v = v\<lparr>sv_worlds := ws, sv_now := now, sv_fault := (\<lambda>_. False)\<rparr>"

lemma map_of_update_same:
  "(\<And>r. P r \<Longrightarrow> g (f r) = g r) \<Longrightarrow> (\<And>r. P r \<Longrightarrow> h (f r) = h r) \<Longrightarrow>
   map (\<lambda>r. (g r, h r)) (update_where P f t) = map (\<lambda>r. (g r, h r)) t"
  by (auto simp: update_where_def)

lemma key_hash_enable [simp]: "key_hash j (enable_source now i d) = key_hash j d"
  by (simp add: key_hash_def enable_source_def map_of_update_same)

lemma ids_update_where: "(\<And>r. P r \<Longrightarrow> g (f r) = g r) \<Longrightarrow> g ` set (update_where P f t) = g ` set t"
  by (induction t) (auto simp: update_where_def)

lemma ids_enable [simp]: "st_id ` set (streams (enable_source now i d)) = st_id ` set (streams d)"
  by (simp add: enable_source_def ids_update_where)

lemma ids_replace [simp]: "st_id ` set (streams (replace_hash now i h d)) = st_id ` set (streams d)"
  by (simp add: replace_hash_def ids_update_where)

lemma key_hash_replace: "key_hash j (replace_hash now i h d) = (if j = i \<and> key_hash i d \<noteq> None then Some h else key_hash j d)"
proof -
  have "map_of (map (\<lambda>r. (st_id r, st_hash r)) (update_where (\<lambda>r. st_id r = i) (\<lambda>r. r\<lparr>st_hash := h, st_updated := now\<rparr>) t)) j =
      (if j = i \<and> map_of (map (\<lambda>r. (st_id r, st_hash r)) t) i \<noteq> None then Some h else map_of (map (\<lambda>r. (st_id r, st_hash r)) t) j)" for t
    by (induction t) (auto simp: update_where_def)
  from this [of "streams d"] show ?thesis unfolding key_hash_def replace_hash_def by simp
qed

lemma key_hash_known: "key_hash i d \<noteq> None \<longleftrightarrow> i \<in> st_id ` set (streams d)"
  by (force simp: key_hash_def map_of_eq_None_iff)

lemma add_profile_fields [simp]:
  "so_db (add_profile i s) = so_db s" "so_sources (add_profile i s) = so_sources s" "so_credentials (add_profile i s) = so_credentials s"
  "so_keys (add_profile i s) = so_keys s" "so_audit (add_profile i s) = so_audit s" "so_users (add_profile i s) = so_users s"
  by (simp_all add: add_profile_def)

lemma create_source_some:
  assumes "create_source v account key s = Some (i, s')"
  shows "i \<notin> st_id ` set (streams (so_db s)) \<and> so_sources s' = so_sources s @ [(account, i)] \<and> so_credentials s' = so_credentials s
    \<and> (\<exists>h r. HashKey (sv_pbkdf2 v) (sv_salt v) key = Some h \<and> st_id r = i \<and> st_hash r = h \<and> streams (so_db s') = streams (so_db s) @ [r])"
  using assms by (auto simp: create_source_def CreateStream_def Let_def list_ex_iff split: option.splits sum.splits prod.splits if_splits)

lemma rotate_source_some:
  assumes "rotate_source v account i key s = Inr s'"
  shows "\<not> source_active i (so_db s) \<and> (\<exists>h. HashKey (sv_pbkdf2 v) (sv_salt v) key = Some h \<and> so_db s' = replace_hash (sv_now v) i h (so_db s))
    \<and> so_sources s' = so_sources s \<and> so_credentials s' = so_credentials s \<and> so_audit s' = so_audit s @ [(account, ''ROTATE_INGEST_KEY'', i)]"
  using assms by (auto simp: rotate_source_def split: option.splits if_splits)

text \<open>The three ways through the first part of the transaction.\<close>

lemma source_target_cases:
  assumes "source_target v account rotating s = Inr (i, key, s1)"
  obtains (create) h where "\<not> rotating" "map_of (so_sources s) account = None" "key = sv_b64url v (sv_raw v)" "i \<notin> st_id ` set (streams (so_db s))"
      "so_sources s1 = so_sources s @ [(account, i)]" "so_credentials s1 = so_credentials s" "HashKey (sv_pbkdf2 v) (sv_salt v) key = Some h"
      "\<And>j. key_hash j (so_db s1) = (if j = i then Some h else key_hash j (so_db s))"
    | (reopen) "\<not> rotating" "map_of (so_sources s) account = Some i" "key = []" "so_sources s1 = so_sources s" "so_credentials s1 = so_credentials s"
      "\<And>j. key_hash j (so_db s1) = key_hash j (so_db s)"
    | (renew) h where "rotating" "map_of (so_sources s) account = Some i" "key = sv_b64url v (sv_raw v)" "\<not> source_active i (so_db s)"
      "so_sources s1 = so_sources s" "so_credentials s1 = so_credentials s" "HashKey (sv_pbkdf2 v) (sv_salt v) key = Some h"
      "\<And>j. key_hash j (so_db s1) = (if j = i \<and> key_hash i (so_db s) \<noteq> None then Some h else key_hash j (so_db s))"
      "so_audit s1 = so_audit s @ [(account, ''ROTATE_INGEST_KEY'', i)]"
proof (cases "map_of (so_sources s) account")
  case None
  with assms obtain s0 where c: "create_source v account key s = Some (i, s0)" "\<not> rotating" "key = sv_b64url v (sv_raw v)"
    and s1: "s1 = (add_profile i s0)\<lparr>so_db := enable_source (sv_now v) i (so_db (add_profile i s0))\<rparr>"
    by (auto simp: source_target_def Let_def split: option.splits if_splits)
  from create_source_some [OF c(1)] obtain h r where n: "i \<notin> st_id ` set (streams (so_db s))" "so_sources s0 = so_sources s @ [(account, i)]"
    "so_credentials s0 = so_credentials s" "HashKey (sv_pbkdf2 v) (sv_salt v) key = Some h"
    "st_id r = i" "st_hash r = h" "streams (so_db s0) = streams (so_db s) @ [r]" by blast
  have "key_hash i (so_db s) = None" using n(1) key_hash_known by blast
  then have "key_hash j (so_db s0) = (if j = i then Some h else key_hash j (so_db s))" for j
    using n(5-7) by (auto simp: key_hash_def map_add_def split: option.splits)
  then show ?thesis using create [of h] c(2,3) None n(1-4) s1 by simp
next
  case (Some j)
  show ?thesis
  proof (cases rotating)
    case True
    with assms Some have j: "i = j" "key = sv_b64url v (sv_raw v)" "rotate_source v account i key (add_profile i s) = Inr s1"
      by (auto simp: source_target_def Let_def split: sum.splits)
    from rotate_source_some [OF j(3)] renew [OF True _ j(2)] j(1) Some show ?thesis by (auto simp: key_hash_replace)
  next
    case False
    with assms Some reopen show ?thesis by (auto simp: source_target_def Let_def)
  qed
qed

lemma source_view_state [simp]: "snd (source_view v i key s) = s"
  by (simp add: source_view_def)

text \<open>The second part keeps everything, or commits; a key is shown only after a commit.\<close>

lemma source_commit_cases:
  assumes "source_commit v i key s1 s = (a, s')"
  obtains (undone) k where "s' = s\<lparr>so_keys := k\<rparr>" "\<exists>n. a = SourceStatus n"
    | (stored) x k where "key \<noteq> []" "x \<noteq> []" "sealSourceKey v i key (so_keys s) = (Some x, k)"
      "s' = s1\<lparr>so_keys := k, so_credentials := (i, x) # filter (\<lambda>c. fst c \<noteq> i) (so_credentials s1)\<rparr>" "a = fst (source_view v i key s')"
    | (shown) old k where "key = []" "s' = s1\<lparr>so_keys := k\<rparr>" "a = fst (source_view v i old s')"
proof (cases "key = []")
  case True
  then show ?thesis using assms undone shown
    by (auto simp: source_commit_def split: prod.splits option.splits if_splits) (metis fst_conv snd_conv source_view_state)+
next
  case False
  then show ?thesis using assms undone stored
    by (auto simp: source_commit_def split: prod.splits option.splits if_splits) (metis fst_conv snd_conv source_view_state)+
qed

text \<open>A request leaves the transaction open to fail, or runs both parts; a rotation passed the guard before.\<close>

definition guarded :: "('e, 's) source_env \<Rightarrow> string \<Rightarrow> bool \<Rightarrow> string option \<Rightarrow> 's source_state \<Rightarrow> bool" where
  "guarded v account rotating input s \<longleftrightarrow> (rotating \<longrightarrow> (case input of None \<Rightarrow> False
     | Some password \<Rightarrow> (case map_of (so_users s) account of None \<Rightarrow> False | Some (hash, salt) \<Rightarrow> sv_passwordHash v password salt = hash)))"

lemma rotation_guard_state: "\<exists>t. snd (rotation_guard v account input s) = s\<lparr>so_attempts := t\<rparr>"
proof -
  have same: "\<exists>t. s = s\<lparr>so_attempts := t\<rparr>" by (rule exI [of _ "so_attempts s"]) simp
  show ?thesis using same by (auto simp: rotation_guard_def Let_def split: option.splits prod.splits)
qed

lemma rotation_guard_pass: "fst (rotation_guard v account input s) = None \<Longrightarrow> guarded v account True input s"
  by (auto simp: rotation_guard_def guarded_def Let_def split: option.splits prod.splits if_splits)

lemma source_post_cases:
  assumes "source_post v account rotating input s = (a, s')"
  obtains (refused) t where "s' = s\<lparr>so_attempts := t\<rparr>" "\<exists>n. a = SourceStatus n"
    | (run) t i key s1 where "guarded v account rotating input s" "source_target v account rotating (s\<lparr>so_attempts := t\<rparr>) = Inr (i, key, s1)"
      "source_commit v i key s1 (s\<lparr>so_attempts := t\<rparr>) = (a, s')"
proof -
  define g where "g = (if rotating then rotation_guard v account input s else (None, s))"
  have same: "s = s\<lparr>so_attempts := so_attempts s\<rparr>" by simp
  have "\<exists>t. snd g = s\<lparr>so_attempts := t\<rparr>" using rotation_guard_state [of v account input s] exI [of "\<lambda>t. s = s\<lparr>so_attempts := t\<rparr>", OF same]
    unfolding g_def by (cases rotating) simp_all
  then obtain t where t: "snd g = s\<lparr>so_attempts := t\<rparr>" ..
  have pass: "guarded v account rotating input s" if "fst g = None"
    using rotation_guard_pass [of v account input s] that unfolding g_def by (cases rotating) (auto simp: guarded_def)
  have post: "(case g of (Some status, s) \<Rightarrow> (SourceStatus status, s)
      | (None, s) \<Rightarrow> if sv_fault v 2 then (SourceStatus 503, s)
          else (case source_target v account rotating s of Inl status \<Rightarrow> (SourceStatus status, s)
                | Inr (i, key, s1) \<Rightarrow> source_commit v i key s1 s)) = (a, s')"
    using assms unfolding source_post_def g_def .
  show ?thesis
  proof (cases "fst g")
    case (Some n)
    then show ?thesis using post t refused [of t] by (cases g) auto
  next
    case None
    then show ?thesis using post t refused [of t] run [OF pass [OF None], of t]
      by (cases g) (auto split: if_splits sum.splits prod.splits)
  qed
qed

lemma openSourceKey_later [simp]:
  "openSourceKey (later ws now v) i x k = openSourceKey (v\<lparr>sv_worlds := ws\<rparr>) i x k"
  by (simp add: openSourceKey_def later_def split: option.split)

lemma stored_secret_fields [simp]: "stored_secret i (s\<lparr>so_db := d\<rparr>) = stored_secret i s" "stored_secret i (add_profile j s) = stored_secret i s"
  by (simp_all add: stored_secret_def)

context key_provider
begin

lemma sealSourceKey_opens:
  assumes "sealSourceKey v i key s = (Some x, s1)" "sv_Keys v = Some P" "x \<noteq> []"
    and "\<And>e. sv_unjson v (sv_json v e) = Some e" "\<And>k n p a. ae_open (sv_aead v) k n (ae_seal (sv_aead v) k n p a) a = Some p"
    and "valid s" "\<And>n. admissible (sv_worlds v n)" "\<And>n. admissible (ws n)" "\<forall>c \<in> set cs. admissible (call_world c)"
    and "sv_unjson v x = Some e" "kp_Key P (ws 2) (en_KeyID e) (provider_run P cs s1) = (Inr k, s2)"
  shows "openSourceKey (v\<lparr>sv_worlds := ws\<rparr>) i x (provider_run P cs s1) = (Some key, s2)"
proof -
  from assms(1,2) obtain e' where e': "Encrypt (sv_aead v) P (sv_worlds v 0) (sv_worlds v 1) (sv_random v) key (key_aad i) s = (Inr e', s1)"
    "x = sv_json v e'" by (auto simp: sealSourceKey_def split: prod.splits sum.splits)
  with assms(4,10) have "e' = e" by simp
  from Decrypt_Encrypt [OF e'(1) assms(6,7,7,8,9), of 2 k s2] assms(5,11) \<open>e' = e\<close>
  have "Decrypt (sv_aead v) P (ws 2) e (key_aad i) (provider_run P cs s1) = (Inr key, s2)" by simp
  with assms(2,3,10) show ?thesis by (simp add: openSourceKey_def)
qed

end

text \<open>A look at the source, by either method, in a state in which the stored key opens.\<close>

lemma source_shows:
  assumes "map_of (so_sources s) account = Some i" "i \<in> st_id ` set (streams (so_db s))" "meth \<in> {''GET'', ''POST''}"
    and "openSourceKey (v\<lparr>sv_worlds := ws\<rparr>) i (stored_secret i s) (so_keys s) = (Some key, k)"
  shows "\<exists>b. fst (source (later ws now v) account False meth input s) = SourceView i key b"
proof -
  have row: "list_ex (\<lambda>r. st_id r = i) (streams (so_db s))" using assms(2) by (auto simp: list_ex_iff)
  have fault: "\<not> sv_fault (later ws now v) n" for n by (simp add: later_def)
  from assms(3) consider "meth = ''GET''" | "meth = ''POST''" by blast
  then show ?thesis
  proof cases
    case 1
    with assms row fault show ?thesis by (simp add: source_def source_get_def source_view_def)
  next
    case 2
    with assms fault show ?thesis
      by (simp add: source_def source_post_def source_target_def source_commit_def source_view_def Let_def)
  qed
qed

section \<open>Properties\<close>

lemma source_get_fields [simp]:
  "so_db (snd (source_get v account s)) = so_db s" "so_sources (snd (source_get v account s)) = so_sources s"
  "so_credentials (snd (source_get v account s)) = so_credentials s"
  by (simp_all add: source_get_def split: option.split prod.split)

lemma map_of_filter_other: "n \<noteq> i \<Longrightarrow> map_of (filter (\<lambda>c. fst c \<noteq> i) t) n = map_of t n"
  by (induction t) auto

lemma sources_ok_hash: "sources_ok s \<longleftrightarrow> (\<forall>x \<in> set (so_sources s). key_hash (snd x) (so_db s) \<noteq> None)"
  unfolding sources_ok_def image_subset_iff key_hash_known by (rule refl)

lemma source_keeps_reference:
  assumes "source v account credential meth input s = (a, s')" "sources_ok s"
  shows "sources_ok s'"
proof -
  show ?thesis
  proof (cases "meth = ''POST''")
    case False
    then have "s' = s \<or> s' = snd (source_get v account s)" using assms(1) by (auto simp: source_def split: if_splits)
    then have "so_db s' = so_db s" "so_sources s' = so_sources s" by auto
    with assms(2) show ?thesis by (simp add: sources_ok_def)
  next
    case True
    with assms(1) have "source_post v account credential input s = (a, s')" by (simp add: source_def)
    then show ?thesis
    proof (cases rule: source_post_cases)
      case (run t i key s1)
      have "sources_ok s1" using run(2)
        by (cases rule: source_target_cases) (use assms(2) in \<open>auto simp: sources_ok_hash\<close>)
      with run(3) assms(2) show ?thesis by (cases rule: source_commit_cases) (auto simp: sources_ok_def)
    qed (use assms(2) in \<open>simp add: sources_ok_def\<close>)
  qed
qed

lemma new_key_stored:
  assumes "source_target v account rotating s = Inr (i, key, s1)" "sources_ok s" "rotating \<or> map_of (so_sources s) account = None"
    and "length (sv_b64url v (sv_raw v)) = 32"
  shows "length key = 32 \<and> map_of (so_sources s1) account = Some i \<and> (\<exists>h. key_hash i (so_db s1) = Some h \<and> HashKey (sv_pbkdf2 v) (sv_salt v) key = Some h)"
  using assms(1)
proof (cases rule: source_target_cases)
  case (create h)
  then show ?thesis using assms(4) by (simp add: map_add_def)
next
  case reopen
  then show ?thesis using assms(3) by simp
next
  case (renew h)
  have "i \<in> st_id ` set (streams (so_db s))" using map_of_SomeD [OF renew(2)] assms(2) by (force simp: sources_ok_def)
  then have "key_hash i (so_db s) \<noteq> None" using key_hash_known by blast
  then show ?thesis using renew assms(4) by simp
qed

text \<open>C25: a new ingest key, of a new source or after a rotation, is the key that the edge accepts, and every later look at the
  source (reading it, or opening it again) shows this key, after every history of the key provider in which the key can be read.\<close>

theorem shown_ingest_key_is_accepted:
  assumes "sv_Keys v = Some (versioned_provider c)" "\<And>e. sv_unjson v (sv_json v e) = Some e"
    and "\<And>k n p a. ae_open (sv_aead v) k n (ae_seal (sv_aead v) k n p a) a = Some p"
    and "length (sv_salt v) = 16" "\<And>k s n l. length (sv_pbkdf2 v k s n l) = l" "length (sv_b64url v (sv_raw v)) = 32"
    and "versioned_valid mode f (so_keys s)" "\<And>n. pinned c mode f (sv_worlds v n)" "sources_ok s"
    and "source v account rotating ''POST'' input s = (SourceView i key b, s')" "rotating \<or> map_of (so_sources s) account = None"
    and "\<And>n. pinned c mode f (ws n)" "\<forall>call \<in> set cs. pinned c mode f (call_world call)"
    and "sv_unjson v (stored_secret i s') = Some e"
    and "Versioned_Key c (ws 2) (en_KeyID e) (provider_run (versioned_provider c) cs (so_keys s')) = (Inr k, p)"
    and "meth \<in> {''GET'', ''POST''}"
  shows "(\<exists>h. key_hash i (so_db s') = Some h \<and> VerifyKey (sv_pbkdf2 v) h key)
    \<and> (\<exists>b. fst (source (later ws now v) account False meth later_input
           (s'\<lparr>so_keys := provider_run (versioned_provider c) cs (so_keys s')\<rparr>)) = SourceView i key b)"
proof -
  from assms(10) have "source_post v account rotating input s = (SourceView i key b, s')" by (simp add: source_def)
  then show ?thesis
  proof (cases rule: source_post_cases)
    case (run t j new s1)
    from new_key_stored [OF run(2) _ _ assms(6)] assms(9,11) obtain h where len: "length new = 32" and s1: "map_of (so_sources s1) account = Some j"
      and h: "key_hash j (so_db s1) = Some h" "HashKey (sv_pbkdf2 v) (sv_salt v) new = Some h"
      by (auto simp: sources_ok_def)
    then have new: "new \<noteq> []" by auto
    from run(3) obtain x q where x: "x \<noteq> []" "sealSourceKey v j new (so_keys s) = (Some x, q)" "so_keys s' = q"
      "so_sources s' = so_sources s1" "so_db s' = so_db s1" "stored_secret j s' = x" "i = j" "key = new"
    proof (cases rule: source_commit_cases)
      case (stored x q)
      with that [of x q] show ?thesis by (auto simp: source_view_def stored_secret_def split: if_splits)
    qed (use new in auto)
    have "VerifyKey (sv_pbkdf2 v) h new" using ingest_key_roundtrip [OF h(2) assms(4,5), of new] len by simp
    moreover have "openSourceKey (v\<lparr>sv_worlds := ws\<rparr>) j x (provider_run (versioned_provider c) cs q) = (Some new, p)"
      by (rule versioned_kp.sealSourceKey_opens [OF x(2) assms(1) x(1) assms(2,3,7,8,12,13)])
        (use assms(14,15) x in \<open>simp_all add: versioned_provider_def\<close>)
    ultimately show ?thesis
      using h x s1 source_shows [OF _ _ assms(16), where s = "s'\<lparr>so_keys := provider_run (versioned_provider c) cs (so_keys s')\<rparr>" and i = j and v = v and ws = ws]
        key_hash_known [of j "so_db s1"] by (simp add: stored_secret_def)
  qed simp
qed

text \<open>no request changes the key that the edge accepts for a source, or the stored copy of it, unless it is a rotation by the account
  that owns the source, with the password of that account, while the source has no session and no connection; the change is recorded.\<close>

lemma ingest_key_changes_only_by_rotation:
  assumes "source v account credential meth input s = (a, s')" "key_hash j (so_db s) \<noteq> None"
    and "key_hash j (so_db s') \<noteq> key_hash j (so_db s) \<or> map_of (so_credentials s') j \<noteq> map_of (so_credentials s) j"
  shows "credential \<and> meth = ''POST'' \<and> map_of (so_sources s) account = Some j \<and> \<not> source_active j (so_db s)
    \<and> (\<exists>password hash salt. input = Some password \<and> map_of (so_users s) account = Some (hash, salt) \<and> sv_passwordHash v password salt = hash)
    \<and> (account, ''ROTATE_INGEST_KEY'', j) \<in> set (so_audit s')"
proof -
  have post: "meth = ''POST'' \<and> source_post v account credential input s = (a, s')"
  proof (rule ccontr)
    assume "\<not> ?thesis"
    then have "s' = s \<or> s' = snd (source_get v account s)" using assms(1) by (auto simp: source_def split: if_splits)
    with assms(3) show False by auto
  qed
  then have "source_post v account credential input s = (a, s')" by blast
  then show ?thesis
  proof (cases rule: source_post_cases)
    case (run t i key s1)
    from run(3) have commit: "so_db s' = so_db s1 \<and> so_audit s' = so_audit s1 \<and> (\<forall>n. n \<noteq> i \<or> key = [] \<longrightarrow> map_of (so_credentials s') n = map_of (so_credentials s1) n)"
      using assms(3) by (cases rule: source_commit_cases) (auto simp: map_of_filter_other)
    from run(2) show ?thesis
    proof (cases rule: source_target_cases)
      case create
      then show ?thesis using assms(2,3) commit key_hash_known [of j "so_db s"] by (auto split: if_splits)
    next
      case reopen
      then show ?thesis using assms(3) commit by simp
    next
      case renew
      then have "j = i" using assms(3) commit by (auto split: if_splits)
      with renew show ?thesis using run(1) commit post by (auto simp: guarded_def split: if_splits option.splits prod.splits)
    qed
  qed (use assms(3) in simp)
qed

section \<open>A concrete rotation of the ingest key\<close>

text \<open>A code for envelopes: every field after its length in unary.\<close>

definition demo_field :: "string \<Rightarrow> string" where
  "demo_field x = replicate (length x) CHR ''1'' @ CHR '':'' # x"

definition demo_split :: "string \<Rightarrow> string \<times> string" where
  "demo_split t = (let n = length (takeWhile (\<lambda>c. c = CHR ''1'') t); r = drop (Suc n) t in (take n r, drop n r))"

lemma demo_split_field: "demo_split (demo_field x @ t) = (x, t)"
proof -
  have "takeWhile (\<lambda>c. c = CHR ''1'') (replicate n CHR ''1'' @ CHR '':'' # r) = replicate n CHR ''1''" for n r
    by (induction n) simp_all
  then have "takeWhile (\<lambda>c. c = CHR ''1'') (demo_field x @ t) = replicate (length x) CHR ''1''"
    by (simp add: demo_field_def)
  then show ?thesis by (simp add: demo_split_def Let_def) (simp add: demo_field_def)
qed

definition demo_json :: "Envelope \<Rightarrow> string" where
  "demo_json e = demo_field (en_KeyID e) @ demo_field (en_Nonce e) @ demo_field (en_Ciphertext e)"

definition demo_unjson :: "string \<Rightarrow> Envelope option" where
  "demo_unjson t = (case demo_split t of (x, t1) \<Rightarrow> case demo_split t1 of (y, t2) \<Rightarrow> case demo_split t2 of (z, _) \<Rightarrow>
     Some \<lparr>en_KeyID = x, en_Nonce = y, en_Ciphertext = z\<rparr>)"

lemma demo_unjson_json: "demo_unjson (demo_json e) = Some e"
  using demo_split_field [of "en_Ciphertext e" "[]"] by (simp add: demo_unjson_def demo_json_def demo_split_field)

definition demo_source_env :: "(nat \<Rightarrow> key_world, VersionedProvider) source_env" where
  "demo_source_env = \<lparr>sv_aead = demo_aead, sv_Keys = Some (versioned_provider demo_codec), sv_worlds = (\<lambda>_. demo_key_world ''before''),
     sv_random = ''0123456789ab'', sv_raw = replicate 24 CHR ''r'', sv_salt = replicate 16 CHR ''s'', sv_uuid = ''u'', sv_now = 0,
     sv_fault = (\<lambda>_. False), sv_region = [], sv_b64url = (\<lambda>x. x @ replicate 8 CHR ''z''), sv_json = demo_json, sv_unjson = demo_unjson,
     sv_pbkdf2 = demo_pbkdf2, sv_passwordHash = (\<lambda>p s. p @ s)\<rparr>"

definition demo_source :: "VersionedProvider source_state" where
  "demo_source = \<lparr>so_db = demo_db1, so_sources = [(''acc'', ''st'')], so_slates = [new_slate 0 ''st''], so_profiles = [new_profile ''st''], so_credentials = [],
     so_users = [(''acc'', ''a long password!'', ''!'')], so_attempts = [], so_audit = [], so_keys = demo_provider\<rparr>"

definition demo_new_key :: string where
  "demo_new_key = replicate 24 CHR ''r'' @ replicate 8 CHR ''z''"

definition demo_key_envelope :: Envelope where
  "demo_key_envelope = \<lparr>en_KeyID = ''k1'', en_Nonce = ''0123456789ab'',
     en_Ciphertext = replicate 32 CHR ''A'' @ ''0123456789ab'' @ ''source-key:st'' @ demo_new_key\<rparr>"

definition demo_rotated :: "VersionedProvider source_state" where
  "demo_rotated = demo_source\<lparr>so_attempts := [\<lparr>at_key = ''source-rotation:acc'', at_count = 1, at_expires = 900000\<rparr>],
     so_db := replace_hash 0 ''st'' (be_bytes 4 iterations @ replicate 16 CHR ''s'' @ demo_pbkdf2 demo_new_key (replicate 16 CHR ''s'') iterations 32) demo_db1,
     so_audit := [(''acc'', ''ROTATE_INGEST_KEY'', ''st'')], so_keys := demo_bound, so_credentials := [(''st'', demo_json demo_key_envelope)]\<rparr>"

lemma demo_seal_key: "sealSourceKey demo_source_env ''st'' demo_new_key demo_provider = (Some (demo_json demo_key_envelope), demo_bound)"
proof -
  have "vp_Mode demo_provider = ''file''" by (simp add: demo_provider_def)
  then have "Versioned_CurrentKeyID demo_codec (demo_key_world ''before'') demo_provider = (Inr ''k1'', demo_bound)"
    using demo_before by (simp add: Versioned_CurrentKeyID_def demo_shift demo_Key_before)
  then show ?thesis
    by (simp add: sealSourceKey_def demo_source_env_def Encrypt_def versioned_provider_def demo_Key_before newAEAD_def NonceSize_def
        demo_key_envelope_def demo_aead_def key_aad_def)
qed

lemma demo_rotation:
  "source demo_source_env ''acc'' True ''POST'' (Some ''a long password'') demo_source = (SourceView ''st'' demo_new_key False, demo_rotated)"
proof -
  have "rotation_guard demo_source_env ''acc'' (Some ''a long password'') demo_source =
      (None, demo_source\<lparr>so_attempts := [\<lparr>at_key = ''source-rotation:acc'', at_count = 1, at_expires = 900000\<rparr>]\<rparr>)"
    by (simp add: rotation_guard_def demo_source_env_def demo_source_def rotation_attempt_def Let_def)
  moreover have "\<not> source_active ''st'' demo_db1" "\<not> delivery_configured ''st'' (replace_hash n ''st'' h demo_db1)" for n h
    by (simp_all add: source_active_def delivery_configured_def replace_hash_def demo_db1_def CreateStream_def empty_db_def Let_def)
  moreover have "demo_json demo_key_envelope \<noteq> []" by (simp add: demo_json_def demo_field_def)
  moreover have "sv_b64url demo_source_env (sv_raw demo_source_env) = demo_new_key" "length demo_new_key = 32" "demo_new_key \<noteq> []"
    by (simp_all add: demo_source_env_def demo_new_key_def)
  moreover have "\<not> sv_fault demo_source_env n" "sv_now demo_source_env = 0" "sv_salt demo_source_env = replicate 16 CHR ''s''"
      "sv_pbkdf2 demo_source_env = demo_pbkdf2" for n
    by (simp_all add: demo_source_env_def)
  moreover have "map_of (so_sources demo_source) ''acc'' = Some ''st''" "add_profile ''st'' (demo_source\<lparr>so_attempts := t\<rparr>) = demo_source\<lparr>so_attempts := t\<rparr>"
      "so_db demo_source = demo_db1" "so_keys demo_source = demo_provider" "so_credentials demo_source = []" "so_audit demo_source = []" for t
    by (simp_all add: demo_source_def add_profile_def new_profile_def)
  ultimately show ?thesis using demo_seal_key
    by (simp add: source_def source_post_def source_target_def source_commit_def rotate_source_def HashKey_def source_view_def Let_def)
      (simp add: demo_rotated_def)
qed

lemma demo_rotated_fields:
  "so_keys demo_rotated = demo_bound" "stored_secret ''st'' demo_rotated = demo_json demo_key_envelope" "key_hash ''st'' demo_db1 = Some ''hash''"
  "so_db demo_source = demo_db1"
  by (simp_all add: demo_rotated_def stored_secret_def demo_source_def key_hash_def demo_db1_def CreateStream_def empty_db_def Let_def)

theorem shown_ingest_key_is_accepted_witness:
  "(\<exists>h. key_hash ''st'' (so_db demo_rotated) = Some h \<and> VerifyKey demo_pbkdf2 h demo_new_key)
   \<and> (\<exists>b. fst (source (later (\<lambda>_. demo_key_world ''after'') 1 demo_source_env) ''acc'' False ''GET'' None
        (demo_rotated\<lparr>so_keys := provider_run (versioned_provider demo_codec) [CallCurrent (demo_key_world ''after'')] demo_bound\<rparr>)) =
      SourceView ''st'' demo_new_key b)"
proof -
  let ?w = "demo_key_world ''after''"
  let ?k = "Versioned_Key demo_codec ?w ''k1'' (provider_run (versioned_provider demo_codec) [CallCurrent ?w] demo_bound)"
  have key: "?k = (Inr (replicate 32 CHR ''A''), snd ?k)" using demo_Key_after by (simp add: versioned_provider_def prod_eq_iff)
  have ok: "sources_ok demo_source" by (simp add: sources_ok_hash demo_rotated_fields) (simp add: demo_source_def demo_rotated_fields)
  have valid: "versioned_valid ''file'' demo_material (so_keys demo_source)"
    by (simp add: versioned_valid_def demo_source_def demo_provider_def)
  show ?thesis
    using shown_ingest_key_is_accepted [OF _ _ _ _ _ _ valid _ ok demo_rotation, of demo_codec "\<lambda>_. ?w" "[CallCurrent ?w]" demo_key_envelope
        "replicate 32 CHR ''A''" "snd ?k" "''GET''" 1 None] key
    by (simp add: demo_source_env_def demo_unjson_json demo_aead_law demo_pinned demo_pbkdf2_def demo_rotated_fields) (simp add: demo_key_envelope_def)
qed

lemma ingest_key_changes_only_by_rotation_witness:
  "map_of (so_sources demo_source) ''acc'' = Some ''st'' \<and> (''acc'', ''ROTATE_INGEST_KEY'', ''st'') \<in> set (so_audit demo_rotated)"
proof -
  have "map_of (so_credentials demo_rotated) ''st'' \<noteq> map_of (so_credentials demo_source) ''st''"
    by (simp add: demo_rotated_def demo_source_def)
  moreover have "key_hash ''st'' (so_db demo_source) \<noteq> None" by (simp add: demo_rotated_fields)
  ultimately show ?thesis using ingest_key_changes_only_by_rotation [OF demo_rotation] by blast
qed

end
