(* ===== verification/Broadcast_Settings.thy ===== *)
theory Broadcast_Settings
  imports Mp4_Fallback Media_Config Source_Settings
begin

text \<open>
  The settings of a broadcast as the owner edits them: the slate (\<^verbatim>\<open>application/slate.go\<close>), the media profile (\<^verbatim>\<open>application/media.go\<close>)
  and the fallback asset (\<^verbatim>\<open>userFallback\<close> and \<^verbatim>\<open>validateFallback\<close> of \<^verbatim>\<open>application/fallback.go\<close>). Each is one row per src with a generation, a
  request is one transaction, and the constraints of the schema are part of the statements. The locale \<open>versioned_setting\<close> states the
  discipline that the three handlers share, and every handler is an instance of it. The decoders of images and SHA-256 are arguments.
\<close>

section \<open>Rows, surroundings and answers\<close>

record asset_row =
  as_source :: string
  as_kind :: string
  as_content :: string
  as_digest :: string
  as_generation :: int

record studio =
  sd_db :: db
  sd_slates :: "slate_row list"
  sd_profiles :: "profile_row list"
  sd_assets :: "asset_row list"
  sd_audit :: "(string \<times> string \<times> string) list"

record 'i image_lib =
  il_config :: "string \<Rightarrow> (int \<times> int) option"
  il_decode :: "string \<Rightarrow> 'i option"
  il_png :: "'i \<Rightarrow> string option"

record 'i studio_env =
  sd_now :: time
  sd_fault :: "nat \<Rightarrow> bool"
  sd_images :: "'i image_lib"
  sd_hex_sha256 :: "string \<Rightarrow> string"

datatype studio_answer =
    StudioStatus int
  | StudioPanic
  | SlateView bool bool int
  | ProfileView media_profile int
  | AssetView "(string \<times> nat \<times> int) option"

section \<open>The slate\<close>

record slate_input =
  si_OnSourceLoss :: bool
  si_Forced :: bool
  si_Generation :: int

definition update_slate :: "string \<Rightarrow> slate_input \<Rightarrow> time \<Rightarrow> slate_row list \<Rightarrow> slate_row list" where
  "update_slate src x now t = update_where (\<lambda>r. sl_source r = src \<and> sl_generation r = si_Generation x)
     (\<lambda>r. r\<lparr>sl_on_loss := si_OnSourceLoss x, sl_forced := si_Forced x, sl_generation := sl_generation r + 1, sl_updated := now\<rparr>) t"

definition userSlate :: "'i studio_env \<Rightarrow> string \<Rightarrow> string \<Rightarrow> string \<Rightarrow> slate_input option \<Rightarrow> studio \<Rightarrow> studio_answer \<times> studio" where
  "userSlate v account src meth input s =
     (if meth = ''GET'' then
        (if sd_fault v 0 then (StudioStatus 503, s)
         else case find (\<lambda>r. sl_source r = src) (sd_slates s) of
             None \<Rightarrow> (StudioStatus 404, s)
           | Some r \<Rightarrow> (SlateView (sl_on_loss r) (sl_forced r) (sl_generation r), s))
      else if meth \<noteq> ''PUT'' then (StudioStatus 405, s)
      else case input of
          None \<Rightarrow> (StudioStatus 400, s)
        | Some x \<Rightarrow>
            if si_Generation x < 1 then (StudioStatus 400, s)
            else if sd_fault v 1 then (StudioStatus 503, s)
            else (case find (\<lambda>r. sl_source r = src \<and> sl_generation r = si_Generation x) (sd_slates s) of
                    None \<Rightarrow> (StudioStatus 409, s)
                  | Some r \<Rightarrow>
                      if sd_fault v 2 then (StudioStatus 503, s)
                      else (SlateView (si_OnSourceLoss x) (si_Forced x) (sl_generation r + 1),
                            s\<lparr>sd_slates := update_slate src x (sd_now v) (sd_slates s), sd_audit := sd_audit s @ [(account, ''UPDATE_SLATE'', src)]\<rparr>)))"

section \<open>The media profile\<close>

text \<open>The constraint of the table \<^verbatim>\<open>source_media_profiles\<close>.\<close>

definition profile_check :: "media_profile \<Rightarrow> bool" where
  "profile_check p \<longleftrightarrow> 160 \<le> mp_width p \<and> mp_width p \<le> 1920 \<and> 90 \<le> mp_height p \<and> mp_height p \<le> 1920 \<and> mp_width p * mp_height p \<le> 2073600
     \<and> mp_width p mod 2 = 0 \<and> mp_height p mod 2 = 0 \<and> 1 \<le> mp_fps_num p \<and> mp_fps_num p \<le> 60000 \<and> 1 \<le> mp_fps_den p \<and> mp_fps_den p \<le> 1001
     \<and> 15 * mp_fps_den p \<le> mp_fps_num p \<and> mp_fps_num p \<le> 60 * mp_fps_den p \<and> 100 \<le> mp_video_kbps p \<and> mp_video_kbps p \<le> 8000
     \<and> 64 \<le> mp_audio_kbps p \<and> mp_audio_kbps p \<le> 320"

definition profile_match :: "string \<Rightarrow> int \<Rightarrow> profile_row \<Rightarrow> bool" where
  "profile_match src g r \<longleftrightarrow> pr_source r = src \<and> pr_generation r = g"

definition update_profile :: "string \<Rightarrow> media_profile \<Rightarrow> int \<Rightarrow> profile_row list \<Rightarrow> profile_row list" where
  "update_profile src p g t = update_where (profile_match src g) (\<lambda>r. r\<lparr>pr_profile := p, pr_generation := pr_generation r + 1\<rparr>) t"

text \<open>The record of a change names the account of the stream.\<close>

definition audit_stream :: "string \<Rightarrow> string \<Rightarrow> studio \<Rightarrow> studio" where
  "audit_stream act src s =
     s\<lparr>sd_audit := sd_audit s @ map (\<lambda>r. (st_account r, act, st_id r)) (filter (\<lambda>r. st_id r = src) (streams (sd_db s)))\<rparr>"

definition userMedia :: "'i studio_env \<Rightarrow> string \<Rightarrow> string \<Rightarrow> (media_profile \<times> int) option \<Rightarrow> studio \<Rightarrow> studio_answer \<times> studio" where
  "userMedia v src meth input s =
     (if meth = ''GET'' then
        (case find (\<lambda>r. pr_source r = src) (sd_profiles s) of
           None \<Rightarrow> (StudioStatus 503, s)
         | Some r \<Rightarrow> if sd_fault v 0 then (StudioStatus 503, s) else (ProfileView (pr_profile r) (pr_generation r), s))
      else if meth \<noteq> ''PUT'' then (StudioStatus 405, s)
      else case input of
          None \<Rightarrow> (StudioStatus 422, s)
        | Some (p, g) \<Rightarrow>
            if \<not> MediaProfile_Validate p then (StudioStatus 422, s)
            else if sd_fault v 1 then (StudioStatus 503, s)
            else if source_active src (sd_db s) then (StudioStatus 409, s)
            else if sd_fault v 2 \<or> \<not> profile_check p \<and> list_ex (profile_match src g) (sd_profiles s) then (StudioStatus 503, s)
            else if count_where (profile_match src g) (sd_profiles s) \<noteq> 1 then (StudioStatus 409, s)
            else if sd_fault v 3 then (StudioStatus 503, s)
            else (ProfileView p (i64 (g + 1)), audit_stream ''UPDATE_MEDIA_PROFILE'' src (s\<lparr>sd_profiles := update_profile src p g (sd_profiles s)\<rparr>)))"

section \<open>The fallback asset\<close>

definition maxFallbackBytes :: int where
  "maxFallbackBytes = 52428800"

definition validateFallback :: "'i image_lib \<Rightarrow> string \<Rightarrow> string \<Rightarrow> mp4_error + string \<times> string" where
  "validateFallback L data mime =
     (if mime = ''image/png'' \<or> mime = ''image/jpeg'' then
        (case il_config L data of
           None \<Rightarrow> Inl Bad
         | Some (width, height) \<Rightarrow>
             if width \<le> 0 \<or> height \<le> 0 \<or> i64 (width * height) > 2073600 then Inl Bad
             else (case il_decode L data of
                     None \<Rightarrow> Inl Bad
                   | Some img \<Rightarrow> (case il_png L img of None \<Rightarrow> Inl Bad | Some out \<Rightarrow> Inr (''image'', out))))
      else if mime \<noteq> ''video/mp4'' then Inl Bad
      else (case validateFallbackMP4 data of Inl e \<Rightarrow> Inl e | Inr _ \<Rightarrow> Inr (''video'', data)))"

text \<open>\<^verbatim>\<open>strconv.ParseInt\<close> in base 10, for 64 bits.\<close>

definition ParseInt :: "string \<Rightarrow> int option" where
  "ParseInt s =
     (let sign = s \<noteq> [] \<and> hd s \<in> {CHR ''+'', CHR ''-''}; ds = (if sign then tl s else s);
          n = (if sign \<and> hd s = CHR ''-'' then - int (digits_val ds) else int (digits_val ds))
      in if ds \<noteq> [] \<and> list_all is_digit ds \<and> in_i64 n then Some n else None)"

text \<open>The constraint of the table \<^verbatim>\<open>source_fallback_assets\<close>.\<close>

definition asset_check :: "asset_row \<Rightarrow> bool" where
  "asset_check r \<longleftrightarrow> as_generation r > 0 \<and> as_kind r \<in> {''default'', ''image'', ''video''}
     \<and> (as_kind r = ''default'' \<and> as_content r = [] \<and> as_digest r = [] \<or>
        as_kind r \<noteq> ''default'' \<and> 1 \<le> int (length (as_content r)) \<and> int (length (as_content r)) \<le> 52428800 \<and> length (as_digest r) = 64)"

definition clear_asset :: "string \<Rightarrow> asset_row list \<Rightarrow> asset_row list" where
  "clear_asset src t = update_where (\<lambda>r. as_source r = src)
     (\<lambda>r. r\<lparr>as_kind := ''default'', as_content := [], as_digest := [], as_generation := as_generation r + 1\<rparr>) t"

definition store_asset :: "db \<Rightarrow> asset_row \<Rightarrow> asset_row list \<Rightarrow> asset_row list option" where
  "store_asset d r t =
     (if \<not> asset_check r then None
      else if list_ex (\<lambda>q. as_source q = as_source r) t then Some (update_where (\<lambda>q. as_source q = as_source r) (\<lambda>_. r) t)
      else if list_ex (\<lambda>st. st_id st = as_source r) (streams d) then Some (t @ [r]) else None)"

definition change_asset :: "'i studio_env \<Rightarrow> string \<Rightarrow> (string \<times> string) option \<Rightarrow> int \<Rightarrow> studio \<Rightarrow> asset_row list option" where
  "change_asset v src asset g s =
     (case asset of
        None \<Rightarrow> Some (clear_asset src (sd_assets s))
      | Some (kind, content) \<Rightarrow>
          store_asset (sd_db s) \<lparr>as_source = src, as_kind = kind, as_content = content, as_digest = sd_hex_sha256 v content,
            as_generation = i64 (g + 1)\<rparr> (sd_assets s))"

definition asset_generation :: "string \<Rightarrow> asset_row list \<Rightarrow> int" where
  "asset_generation src t = (case find (\<lambda>r. as_source r = src) t of None \<Rightarrow> 0 | Some r \<Rightarrow> as_generation r)"

text \<open>The transaction; without an asset the row is reset.\<close>

definition save_asset :: "'i studio_env \<Rightarrow> string \<Rightarrow> (string \<times> string) option \<Rightarrow> int \<Rightarrow> studio \<Rightarrow> studio_answer \<times> studio" where
  "save_asset v src asset g s =
     (if sd_fault v 1 then (StudioStatus 503, s)
      else if source_active src (sd_db s) then (StudioStatus 409, s)
      else if sd_fault v 2 then (StudioStatus 503, s)
      else if asset_generation src (sd_assets s) \<noteq> g then (StudioStatus 409, s)
      else case change_asset v src asset g s of
          None \<Rightarrow> (StudioStatus 503, s)
        | Some t \<Rightarrow>
            if sd_fault v 3 then (StudioStatus 503, s)
            else (StudioStatus 204, audit_stream ''UPDATE_FALLBACK'' src (s\<lparr>sd_assets := t\<rparr>)))"

definition userFallback ::
  "'i studio_env \<Rightarrow> string \<Rightarrow> string \<Rightarrow> string \<Rightarrow> string \<Rightarrow> string option \<Rightarrow> studio \<Rightarrow> studio_answer \<times> studio" where
  "userFallback v src meth generation mime body s =
     (if meth = ''GET'' then
        (if sd_fault v 0 then (StudioStatus 503, s)
         else case find (\<lambda>r. as_source r = src) (sd_assets s) of
             None \<Rightarrow> (AssetView None, s)
           | Some r \<Rightarrow> (AssetView (Some (as_kind r, length (as_content r), as_generation r)), s))
      else if meth \<noteq> ''PUT'' \<and> meth \<noteq> ''DELETE'' then (StudioStatus 405, s)
      else case ParseInt generation of
          None \<Rightarrow> (StudioStatus 400, s)
        | Some g \<Rightarrow>
            if g < 0 then (StudioStatus 400, s)
            else if meth = ''DELETE'' then save_asset v src None g s
            else (case body of
                    None \<Rightarrow> (StudioStatus 413, s)
                  | Some data \<Rightarrow>
                      if int (length data) > maxFallbackBytes then (StudioStatus 413, s)
                      else (case validateFallback (sd_images v) data mime of
                              Inl Panic \<Rightarrow> (StudioPanic, s)
                            | Inl Bad \<Rightarrow> (StudioStatus 422, s)
                            | Inr asset \<Rightarrow> save_asset v src (Some asset) g s)))"

section \<open>Histories\<close>

text \<open>The rows that a source gets when it is opened (\<^verbatim>\<open>source\<close> in \<^verbatim>\<open>application/source.go\<close>).\<close>

definition provision :: "time \<Rightarrow> string \<Rightarrow> studio \<Rightarrow> studio" where
  "provision now i s =
     (let slates = (if list_ex (\<lambda>r. sl_source r = i) (sd_slates s) then sd_slates s
            else sd_slates s @ [new_slate now i]);
          profiles = (if list_ex (\<lambda>r. pr_source r = i) (sd_profiles s) then sd_profiles s
            else sd_profiles s @ [new_profile i])
      in s\<lparr>sd_slates := slates, sd_profiles := profiles\<rparr>)"

text \<open>The steps of a history: the handlers, a new source, and whatever the other components do to the other tables.\<close>

datatype 'i studio_step =
    Provision time string
  | EditSlate "'i studio_env" string string string "slate_input option"
  | EditMedia "'i studio_env" string string "(media_profile \<times> int) option"
  | EditFallback "'i studio_env" string string string string "string option"
  | Elsewhere db

fun take_step :: "'i studio_step \<Rightarrow> studio \<Rightarrow> studio" where
  "take_step (Provision now i) s = provision now i s"
| "take_step (EditSlate v account i meth input) s = snd (userSlate v account i meth input s)"
| "take_step (EditMedia v i meth input) s = snd (userMedia v i meth input s)"
| "take_step (EditFallback v i meth g mime body) s = snd (userFallback v i meth g mime body s)"
| "take_step (Elsewhere d) s = s\<lparr>sd_db := d\<rparr>"

definition studio_run :: "'i studio_step list \<Rightarrow> studio \<Rightarrow> studio" where
  "studio_run qs s = fold take_step qs s"

definition empty_studio :: "db \<Rightarrow> studio" where
  "empty_studio d = \<lparr>sd_db = d, sd_slates = [], sd_profiles = [], sd_assets = [], sd_audit = []\<rparr>"

section \<open>Edits under a generation\<close>

text \<open>
  A setting has for every source a content, of which the generation is a part. A request names the generation that its
  author saw; a source that has no row yet has generation 0, and its first row is an edit of generation 0. \<open>effective\<close> lists the generations
  that the requests of a history claimed which changed a source.
\<close>

primrec effective :: "('s \<Rightarrow> string \<Rightarrow> 'c) \<Rightarrow> ('q \<Rightarrow> 's \<Rightarrow> 's) \<Rightarrow> ('q \<Rightarrow> (string \<times> int) option) \<Rightarrow> string \<Rightarrow> 'q list \<Rightarrow> 's \<Rightarrow> int list" where
  "effective content request claimed i [] s = []"
| "effective content request claimed i (q # qs) s =
     (if content (request q s) i \<noteq> content s i then [snd (the (claimed q))] else []) @ effective content request claimed i qs (request q s)"

locale versioned_setting =
  fixes content :: "'s \<Rightarrow> string \<Rightarrow> 'c"
    and generation :: "'s \<Rightarrow> string \<Rightarrow> int"
    and request :: "'q \<Rightarrow> 's \<Rightarrow> 's"
    and claimed :: "'q \<Rightarrow> (string \<times> int) option"
  assumes change: "content (request q s) i \<noteq> content s i \<Longrightarrow>
      claimed q = Some (i, generation s i) \<and> generation (request q s) i = generation s i + 1"
    and generation_part: "content s i = content s' i \<Longrightarrow> generation s i = generation s' i"
begin

lemma edits_consecutive:
  "generation s i \<le> generation (fold request qs s) i \<and> effective content request claimed i qs s = [generation s i .. generation (fold request qs s) i - 1]"
proof (induction qs arbitrary: s)
  case (Cons q qs)
  show ?case
  proof (cases "content (request q s) i = content s i")
    case True
    then show ?thesis using Cons.IH [of "request q s"] generation_part [OF True] by simp
  next
    case False
    note c = change [OF False]
    then show ?thesis using Cons.IH [of "request q s"] False
      by (simp add: upto_rec1 [of "generation s i"])
  qed
qed (simp add: upto.simps)

end

definition slate_of :: "studio \<Rightarrow> string \<Rightarrow> slate_row option" where
  "slate_of s i = find (\<lambda>r. sl_source r = i) (sd_slates s)"

definition profile_of :: "studio \<Rightarrow> string \<Rightarrow> profile_row option" where
  "profile_of s i = find (\<lambda>r. pr_source r = i) (sd_profiles s)"

definition asset_of :: "studio \<Rightarrow> string \<Rightarrow> asset_row option" where
  "asset_of s i = find (\<lambda>r. as_source r = i) (sd_assets s)"

definition generation_of :: "('r \<Rightarrow> int) \<Rightarrow> 'r option \<Rightarrow> int" where
  "generation_of g row = (case row of None \<Rightarrow> 0 | Some r \<Rightarrow> g r)"

fun slate_claim :: "'i studio_step \<Rightarrow> (string \<times> int) option" where
  "slate_claim (Provision now i) = Some (i, 0)"
| "slate_claim (EditSlate v account i meth (Some x)) = Some (i, si_Generation x)"
| "slate_claim _ = None"

fun profile_claim :: "'i studio_step \<Rightarrow> (string \<times> int) option" where
  "profile_claim (Provision now i) = Some (i, 0)"
| "profile_claim (EditMedia v i meth (Some x)) = Some (i, snd x)"
| "profile_claim _ = None"

fun asset_claim :: "'i studio_step \<Rightarrow> (string \<times> int) option" where
  "asset_claim (EditFallback v i meth g mime body) = (case ParseInt g of None \<Rightarrow> None | Some n \<Rightarrow> Some (i, n))"
| "asset_claim _ = None"

text \<open>Rows under a key: how an update and an insertion look from one key.\<close>

lemma find_keyed_update:
  assumes "\<And>r. P r \<Longrightarrow> k r = j" "\<And>r. P r \<Longrightarrow> k (f r) = j"
  shows "find (\<lambda>r. k r = i) (update_where P f t) =
    (case find (\<lambda>r. k r = i) t of None \<Rightarrow> None | Some r \<Rightarrow> Some (if P r then f r else r))"
proof (induction t)
  case (Cons r t)
  have "k (if P r then f r else r) = i \<longleftrightarrow> k r = i" using assms by (cases "P r") auto
  then show ?case using Cons.IH by (simp add: update_where_def)
qed (simp add: update_where_def)

lemma find_append_new: "find P (t @ [x]) = (case find P t of None \<Rightarrow> if P x then Some x else None | Some r \<Rightarrow> Some r)"
  by (induction t) auto

lemma find_list_ex: "list_ex P t \<longleftrightarrow> find P t \<noteq> None"
  by (induction t) auto

text \<open>What each handler leaves alone.\<close>

lemma audit_stream_fields [simp]:
  "sd_db (audit_stream act i s) = sd_db s" "sd_slates (audit_stream act i s) = sd_slates s"
  "sd_profiles (audit_stream act i s) = sd_profiles s" "sd_assets (audit_stream act i s) = sd_assets s"
  by (simp_all add: audit_stream_def)

lemma userSlate_frame [simp]:
  "sd_db (snd (userSlate v account i meth x s)) = sd_db s" "sd_profiles (snd (userSlate v account i meth x s)) = sd_profiles s"
  "sd_assets (snd (userSlate v account i meth x s)) = sd_assets s"
  by (simp_all add: userSlate_def split: option.split)

lemma userMedia_frame [simp]:
  "sd_db (snd (userMedia v i meth x s)) = sd_db s" "sd_slates (snd (userMedia v i meth x s)) = sd_slates s"
  "sd_assets (snd (userMedia v i meth x s)) = sd_assets s"
  by (simp_all add: userMedia_def split: option.split prod.split)

lemma save_asset_frame [simp]:
  "sd_db (snd (save_asset v i asset g s)) = sd_db s" "sd_slates (snd (save_asset v i asset g s)) = sd_slates s"
  "sd_profiles (snd (save_asset v i asset g s)) = sd_profiles s"
  by (simp_all add: save_asset_def split: option.split)

lemma userFallback_frame [simp]:
  "sd_db (snd (userFallback v i meth g mime body s)) = sd_db s" "sd_slates (snd (userFallback v i meth g mime body s)) = sd_slates s"
  "sd_profiles (snd (userFallback v i meth g mime body s)) = sd_profiles s"
  by (simp_all add: userFallback_def split: option.split sum.split mp4_error.split)

lemma provision_frame [simp]: "sd_db (provision now i s) = sd_db s" "sd_assets (provision now i s) = sd_assets s"
  by (simp_all add: provision_def Let_def)

text \<open>A request that changes anything ran its last statement.\<close>

lemma userSlate_slates:
  "sd_slates (snd (userSlate v account j meth x s)) = sd_slates s \<or>
   (\<exists>y. x = Some y \<and> sd_slates (snd (userSlate v account j meth x s)) = update_slate j y (sd_now v) (sd_slates s))"
  by (auto simp: userSlate_def split: option.split)

lemma userMedia_profiles:
  "sd_profiles (snd (userMedia v j meth x s)) = sd_profiles s \<or>
   (\<exists>p g. x = Some (p, g) \<and> MediaProfile_Validate p \<and> \<not> source_active j (sd_db s)
      \<and> sd_profiles (snd (userMedia v j meth x s)) = update_profile j p g (sd_profiles s))"
  by (auto simp: userMedia_def split: option.split)

lemma save_asset_assets:
  "sd_assets (snd (save_asset v j asset g s)) = sd_assets s \<or>
   (asset_generation j (sd_assets s) = g \<and> \<not> source_active j (sd_db s)
      \<and> change_asset v j asset g s = Some (sd_assets (snd (save_asset v j asset g s))))"
  by (auto simp: save_asset_def split: option.split)

lemma userFallback_state:
  "snd (userFallback v j meth generation mime body s) = s \<or>
   (\<exists>g asset. ParseInt generation = Some g \<and> 0 \<le> g
      \<and> (\<forall>a. asset = Some a \<longrightarrow> (\<exists>data. int (length data) \<le> maxFallbackBytes \<and> validateFallback (sd_images v) data mime = Inr a))
      \<and> snd (userFallback v j meth generation mime body s) = snd (save_asset v j asset g s))" (is "?same \<or> (\<exists>g asset. ?saved g asset)")
proof (cases "ParseInt generation")
  case (Some g)
  show ?thesis
  proof (cases "meth = ''DELETE'' \<and> 0 \<le> g")
    case True
    then have "?saved g None" using Some by (simp add: userFallback_def)
    then show ?thesis by blast
  next
    case False
    show ?thesis
    proof (cases "\<exists>data a. meth = ''PUT'' \<and> 0 \<le> g \<and> body = Some data \<and> int (length data) \<le> maxFallbackBytes \<and> validateFallback (sd_images v) data mime = Inr a")
      case True
      then obtain data a where "meth = ''PUT''" "0 \<le> g" "body = Some data" "int (length data) \<le> maxFallbackBytes" "validateFallback (sd_images v) data mime = Inr a"
        by blast
      with Some have "?saved g (Some a)" by (auto simp: userFallback_def)
      then show ?thesis by blast
    next
      case other: False
      have "?same" using Some False other by (auto simp: userFallback_def not_less split: option.split sum.split mp4_error.split)
      then show ?thesis ..
    qed
  qed
qed (simp add: userFallback_def split: option.split)

lemma userFallback_assets:
  "sd_assets (snd (userFallback v j meth generation mime body s)) = sd_assets s \<or>
   (\<exists>g asset. ParseInt generation = Some g \<and> 0 \<le> g \<and> asset_generation j (sd_assets s) = g \<and> \<not> source_active j (sd_db s)
      \<and> (\<forall>a. asset = Some a \<longrightarrow> (\<exists>data. int (length data) \<le> maxFallbackBytes \<and> validateFallback (sd_images v) data mime = Inr a))
      \<and> change_asset v j asset g s = Some (sd_assets (snd (userFallback v j meth generation mime body s))))"
  using userFallback_state [of v j meth generation mime body s] save_asset_assets [of v j _ _ s] by metis

section \<open>The three settings follow the discipline\<close>

abbreviation slate_generation :: "studio \<Rightarrow> string \<Rightarrow> int" where
  "slate_generation s i \<equiv> generation_of sl_generation (slate_of s i)"

abbreviation profile_generation :: "studio \<Rightarrow> string \<Rightarrow> int" where
  "profile_generation s i \<equiv> generation_of pr_generation (profile_of s i)"

lemma update_slate_find:
  "find (\<lambda>r. sl_source r = i) (update_slate j x now t) = (case find (\<lambda>r. sl_source r = i) t of None \<Rightarrow> None
     | Some r \<Rightarrow> Some (if sl_source r = j \<and> sl_generation r = si_Generation x
         then r\<lparr>sl_on_loss := si_OnSourceLoss x, sl_forced := si_Forced x, sl_generation := sl_generation r + 1, sl_updated := now\<rparr> else r))"
  unfolding update_slate_def by (rule find_keyed_update [where j = j]) simp_all

lemma update_profile_find:
  "find (\<lambda>r. pr_source r = i) (update_profile j p g t) = (case find (\<lambda>r. pr_source r = i) t of None \<Rightarrow> None
     | Some r \<Rightarrow> Some (if profile_match j g r then r\<lparr>pr_profile := p, pr_generation := pr_generation r + 1\<rparr> else r))"
  unfolding update_profile_def by (rule find_keyed_update [where j = j]) (simp_all add: profile_match_def)

lemma find_key: "find (\<lambda>r. k r = i) t = Some r \<Longrightarrow> k r = i"
  by (auto simp: find_Some_iff)

lemma slate_change:
  assumes "slate_of (take_step q s) i \<noteq> slate_of s i"
  shows "slate_claim q = Some (i, slate_generation s i) \<and> slate_generation (take_step q s) i = slate_generation s i + 1"
proof (cases q)
  case (Provision now j)
  then show ?thesis using assms
    by (auto simp: provision_def new_slate_def new_profile_def slate_of_def generation_of_def find_append_new find_list_ex Let_def split: if_splits option.splits)
next
  case (EditSlate v account j meth x)
  from userSlate_slates [of v account j meth x s] obtain y where y: "x = Some y" "sd_slates (take_step q s) = update_slate j y (sd_now v) (sd_slates s)"
    using assms EditSlate by (auto simp: slate_of_def)
  show ?thesis
  proof (cases "slate_of s i")
    case (Some r)
    then have "sl_source r = i" by (auto simp: slate_of_def dest: find_key)
    then show ?thesis using assms y EditSlate Some by (auto simp: slate_of_def generation_of_def update_slate_find split: if_splits)
  qed (use assms y in \<open>simp add: slate_of_def update_slate_find\<close>)
qed (use assms in \<open>simp_all add: slate_of_def\<close>)

lemma profile_change:
  assumes "profile_of (take_step q s) i \<noteq> profile_of s i"
  shows "profile_claim q = Some (i, profile_generation s i) \<and> profile_generation (take_step q s) i = profile_generation s i + 1"
proof (cases q)
  case (Provision now j)
  then show ?thesis using assms
    by (auto simp: provision_def new_slate_def new_profile_def profile_of_def generation_of_def find_append_new find_list_ex Let_def split: if_splits option.splits)
next
  case (EditMedia v j meth x)
  from userMedia_profiles [of v j meth x s] obtain p g where y: "x = Some (p, g)" "sd_profiles (take_step q s) = update_profile j p g (sd_profiles s)"
    using assms EditMedia by (auto simp: profile_of_def)
  show ?thesis
  proof (cases "profile_of s i")
    case (Some r)
    then have "pr_source r = i" by (auto simp: profile_of_def dest: find_key)
    then show ?thesis using assms y EditMedia Some by (auto simp: profile_of_def generation_of_def update_profile_find profile_match_def split: if_splits)
  qed (use assms y in \<open>simp add: profile_of_def update_profile_find\<close>)
qed (use assms in \<open>simp_all add: profile_of_def\<close>)

lemma clear_asset_find:
  "find (\<lambda>r. as_source r = i) (clear_asset j t) = (case find (\<lambda>r. as_source r = i) t of None \<Rightarrow> None
     | Some r \<Rightarrow> Some (if as_source r = j then r\<lparr>as_kind := ''default'', as_content := [], as_digest := [], as_generation := as_generation r + 1\<rparr> else r))"
  unfolding clear_asset_def by (rule find_keyed_update [where j = j]) simp_all

lemma store_asset_find:
  assumes "store_asset d r t = Some t'"
  shows "asset_check r \<and> find (\<lambda>q. as_source q = i) t' = (if as_source r = i then Some r else find (\<lambda>q. as_source q = i) t)"
proof -
  have "find (\<lambda>q. as_source q = i) (update_where (\<lambda>q. as_source q = as_source r) (\<lambda>_. r) t) =
      (case find (\<lambda>q. as_source q = i) t of None \<Rightarrow> None | Some q \<Rightarrow> Some (if as_source q = as_source r then r else q))"
    by (rule find_keyed_update [where j = "as_source r"]) simp_all
  then show ?thesis using assms
    by (auto simp: store_asset_def find_append_new find_list_ex split: if_splits option.splits dest: find_key)
qed

lemma asset_generation_of: "asset_generation i (sd_assets s) = generation_of as_generation (asset_of s i)"
  by (simp add: asset_generation_def generation_of_def asset_of_def)

lemma i64_succ_pos: "0 \<le> g \<Longrightarrow> in_i64 g \<Longrightarrow> 0 < i64 (g + 1) \<Longrightarrow> i64 (g + 1) = g + 1"
proof (cases "g = 2 ^ 63 - 1")
  case True
  assume "0 < i64 (g + 1)"
  then show ?thesis by (simp add: True i64_def)
qed (auto simp: in_i64_def intro!: i64_id)

lemma ParseInt_range: "ParseInt x = Some g \<Longrightarrow> in_i64 g"
  by (auto simp: ParseInt_def Let_def split: if_splits)

lemma asset_change:
  assumes "asset_of (take_step q s) i \<noteq> asset_of s i"
  shows "asset_claim q = Some (i, asset_generation i (sd_assets s)) \<and> asset_generation i (sd_assets (take_step q s)) = asset_generation i (sd_assets s) + 1"
proof (cases q)
  case (EditFallback v j meth x mime body)
  let ?t = "sd_assets (take_step q s)"
  from userFallback_assets [of v j meth x mime body s] obtain g asset where g: "ParseInt x = Some g" "0 \<le> g"
    "asset_generation j (sd_assets s) = g" "change_asset v j asset g s = Some ?t"
    using assms EditFallback by (auto simp: asset_of_def)
  show ?thesis
  proof (cases asset)
    case None
    with g(4) have t: "?t = clear_asset j (sd_assets s)" by (simp add: change_asset_def)
    then obtain r where r: "asset_of s i = Some r" "as_source r = j" using assms
      by (cases "asset_of s i") (auto simp: asset_of_def clear_asset_find split: if_splits)
    then have "j = i" by (auto simp: asset_of_def dest: find_key)
    with r t g EditFallback show ?thesis by (auto simp: asset_of_def asset_generation_def clear_asset_find)
  next
    case (Some a)
    let ?r = "\<lparr>as_source = j, as_kind = fst a, as_content = snd a, as_digest = sd_hex_sha256 v (snd a), as_generation = i64 (g + 1)\<rparr>"
    from g(4) Some have "store_asset (sd_db s) ?r (sd_assets s) = Some ?t" by (simp add: change_asset_def case_prod_beta)
    from store_asset_find [OF this, of i]
    have t: "asset_check ?r" "asset_of (take_step q s) i = (if j = i then Some ?r else asset_of s i)" by (simp_all add: asset_of_def)
    then have "i64 (g + 1) = g + 1" using g ParseInt_range [OF g(1)] by (intro i64_succ_pos) (simp_all add: asset_check_def)
    moreover have "j = i" using assms t(2) by (simp split: if_splits)
    ultimately show ?thesis using t g EditFallback by (simp add: asset_generation_of generation_of_def)
  qed
qed (use assms in \<open>simp_all add: asset_of_def\<close>)

interpretation slates: versioned_setting slate_of slate_generation take_step slate_claim
  by unfold_locales (use slate_change in \<open>auto simp: generation_of_def\<close>)

interpretation profiles: versioned_setting profile_of profile_generation take_step profile_claim
  by unfold_locales (use profile_change in \<open>auto simp: generation_of_def\<close>)

interpretation assets: versioned_setting asset_of "\<lambda>s i. asset_generation i (sd_assets s)" take_step asset_claim
  by unfold_locales (use asset_change in \<open>auto simp: asset_generation_of\<close>)

section \<open>Properties\<close>

text \<open>C26: whatever requests arrive in whatever order, the edits of the slate, of the media profile and of the fallback of a source that take
  effect were made for the generations one after the other, without a gap and without a repetition: of two edits that were prepared from the
  same state one is refused.\<close>

theorem settings_edits_apply_in_order:
  "effective slate_of take_step slate_claim i qs s = [generation_of sl_generation (slate_of s i) .. generation_of sl_generation (slate_of (studio_run qs s) i) - 1]
   \<and> effective profile_of take_step profile_claim i qs s = [generation_of pr_generation (profile_of s i) .. generation_of pr_generation (profile_of (studio_run qs s) i) - 1]
   \<and> effective asset_of take_step asset_claim i qs s = [asset_generation i (sd_assets s) .. asset_generation i (sd_assets (studio_run qs s)) - 1]"
  unfolding studio_run_def using slates.edits_consecutive profiles.edits_consecutive assets.edits_consecutive by blast

lemma profile_frozen:
  assumes "source_active i (sd_db s)" "profile_of s i \<noteq> None"
  shows "profile_of (take_step q s) i = profile_of s i"
proof (cases q)
  case (Provision now j)
  then show ?thesis using assms(2) by (auto simp: provision_def new_slate_def new_profile_def profile_of_def find_append_new Let_def)
next
  case (EditMedia v j meth x)
  show ?thesis
  proof (rule ccontr)
    assume c: "profile_of (take_step q s) i \<noteq> profile_of s i"
    then have "\<not> source_active j (sd_db s)" using userMedia_profiles [of v j meth x s] EditMedia by (auto simp: profile_of_def)
    moreover have "j = i" using profile_change [OF c] EditMedia by (cases x) auto
    ultimately show False using assms(1) by simp
  qed
qed (simp_all add: profile_of_def)

lemma asset_frozen: "source_active i (sd_db s) \<Longrightarrow> asset_of (take_step q s) i = asset_of s i"
proof (cases q)
  case (EditFallback v j meth x mime body)
  assume "source_active i (sd_db s)"
  then show ?thesis
  proof (rule contrapos_pp)
    assume c: "asset_of (take_step q s) i \<noteq> asset_of s i"
    then have "\<not> source_active j (sd_db s)" using userFallback_assets [of v j meth x mime body s] EditFallback by (auto simp: asset_of_def)
    moreover have "j = i" using asset_change [OF c] EditFallback by (cases "ParseInt x") auto
    ultimately show "\<not> source_active i (sd_db s)" by simp
  qed
qed (simp_all add: asset_of_def)

lemma take_step_db: "sd_db (take_step q s) = sd_db s \<or> (\<exists>d. q = Elsewhere d \<and> sd_db (take_step q s) = d)"
  by (cases q) simp_all

text \<open>C27: while a source has a session or a connected publisher, no request changes its media profile or its fallback; the worker that
  was started for the session keeps the contract it was started with.\<close>

theorem live_source_settings_frozen:
  assumes "source_active i (sd_db s)" "\<forall>d. Elsewhere d \<in> set qs \<longrightarrow> source_active i d" "profile_of s i = Some p"
  shows "profile_of (studio_run qs s) i = Some p \<and> asset_of (studio_run qs s) i = asset_of s i"
  using assms unfolding studio_run_def
proof (induction qs arbitrary: s)
  case (Cons q qs)
  have "source_active i (sd_db (take_step q s))" using take_step_db [of q s] Cons.prems(1,2) by auto
  moreover have "profile_of (take_step q s) i = Some p" using profile_frozen [OF Cons.prems(1)] Cons.prems(3) by simp
  ultimately show ?case using Cons.IH [of "take_step q s"] Cons.prems(2) asset_frozen [OF Cons.prems(1)] by simp
qed simp

text \<open>What a stored asset is: nothing, an image as the encoder wrote it, or a clip that passed the validation.\<close>

definition asset_valid :: "'i image_lib \<Rightarrow> (string \<Rightarrow> string) \<Rightarrow> asset_row \<Rightarrow> bool" where
  "asset_valid L sha r \<longleftrightarrow> asset_check r
     \<and> (as_kind r = ''image'' \<longrightarrow> (\<exists>img. il_png L img = Some (as_content r)))
     \<and> (as_kind r = ''video'' \<longrightarrow> validateFallbackMP4 (as_content r) = Inr ())
     \<and> (as_kind r \<noteq> ''default'' \<longrightarrow> as_digest r = sha (as_content r))"

definition studio_valid :: "'i image_lib \<Rightarrow> (string \<Rightarrow> string) \<Rightarrow> studio \<Rightarrow> bool" where
  "studio_valid L sha s \<longleftrightarrow> (\<forall>r \<in> set (sd_profiles s). MediaProfile_Validate (pr_profile r)) \<and> (\<forall>r \<in> set (sd_assets s). asset_valid L sha r)"

fun of_lib :: "'i image_lib \<Rightarrow> (string \<Rightarrow> string) \<Rightarrow> 'i studio_step \<Rightarrow> bool" where
  "of_lib L sha (EditFallback v j meth x mime body) \<longleftrightarrow> sd_images v = L \<and> sd_hex_sha256 v = sha"
| "of_lib L sha _ \<longleftrightarrow> True"

lemma validateFallback_valid:
  "validateFallback L data mime = Inr (kind, content) \<Longrightarrow>
   kind = ''image'' \<and> (\<exists>img. il_png L img = Some content) \<or> kind = ''video'' \<and> validateFallbackMP4 content = Inr ()"
  by (auto simp: validateFallback_def split: if_splits option.splits sum.splits)

lemma change_asset_valid:
  assumes "change_asset v j asset g s = Some t" "\<forall>r \<in> set (sd_assets s). asset_valid (sd_images v) (sd_hex_sha256 v) r"
    and "\<forall>a. asset = Some a \<longrightarrow> (\<exists>data. validateFallback (sd_images v) data mime = Inr a)"
  shows "\<forall>r \<in> set t. asset_valid (sd_images v) (sd_hex_sha256 v) r"
proof (cases asset)
  case None
  with assms(1) have t: "t = clear_asset j (sd_assets s)" by (simp add: change_asset_def)
  show ?thesis using assms(2) by (auto simp: t clear_asset_def update_where_def asset_valid_def asset_check_def)
next
  case (Some a)
  obtain kind content where a: "a = (kind, content)" by (cases a)
  let ?r = "\<lparr>as_source = j, as_kind = kind, as_content = content, as_digest = sd_hex_sha256 v content, as_generation = i64 (g + 1)\<rparr>"
  from assms(1) Some a have st: "store_asset (sd_db s) ?r (sd_assets s) = Some t" by (simp add: change_asset_def)
  then have "asset_check ?r" using store_asset_find by blast
  then have "asset_valid (sd_images v) (sd_hex_sha256 v) ?r" using assms(3) Some a by (auto simp: asset_valid_def dest: validateFallback_valid)
  with st assms(2) show ?thesis by (auto simp: store_asset_def update_where_def split: if_splits)
qed

lemma take_step_valid: "studio_valid L sha s \<Longrightarrow> of_lib L sha q \<Longrightarrow> studio_valid L sha (take_step q s)"
proof (cases q)
  case (Provision now j)
  assume "studio_valid L sha s"
  with Provision show ?thesis using Default_valid by (auto simp: studio_valid_def provision_def new_profile_def Let_def)
next
  case (EditMedia v j meth x)
  assume "studio_valid L sha s"
  with EditMedia show ?thesis using userMedia_profiles [of v j meth x s] by (auto simp: studio_valid_def update_profile_def update_where_def)
next
  case (EditFallback v j meth x mime body)
  assume s: "studio_valid L sha s" and lib: "of_lib L sha q"
  have old: "\<forall>r \<in> set (sd_assets s). asset_valid (sd_images v) (sd_hex_sha256 v) r" using s lib EditFallback by (simp add: studio_valid_def)
  from userFallback_assets [of v j meth x mime body s]
  have "\<forall>r \<in> set (sd_assets (snd (userFallback v j meth x mime body s))). asset_valid (sd_images v) (sd_hex_sha256 v) r"
  proof (elim disjE exE conjE)
    fix g asset
    assume "change_asset v j asset g s = Some (sd_assets (snd (userFallback v j meth x mime body s)))"
      "\<forall>a. asset = Some a \<longrightarrow> (\<exists>data. int (length data) \<le> maxFallbackBytes \<and> validateFallback (sd_images v) data mime = Inr a)"
    then show ?thesis using change_asset_valid [OF _ old, of j asset g _ mime] by blast
  qed (use old in simp)
  then have "\<forall>r \<in> set (sd_assets (take_step q s)). asset_valid L sha r" using lib EditFallback by simp
  with s EditFallback show ?thesis by (simp add: studio_valid_def)
qed (simp_all add: studio_valid_def)

text \<open>every media profile and every fallback that the database ever holds is one that the worker can use: the profile passes the
  validation of the worker configuration, and the fallback is an image that the encoder wrote or a clip that passed the validation, within
  50 MB and with the digest of its content.\<close>

lemma stored_settings_valid:
  assumes "\<forall>q \<in> set qs. of_lib L sha q"
  shows "(\<forall>r \<in> set (sd_profiles (studio_run qs (empty_studio d))). MediaProfile_Validate (pr_profile r))
    \<and> (\<forall>r \<in> set (sd_assets (studio_run qs (empty_studio d))). asset_valid L sha r)"
proof -
  have run: "studio_valid L sha (fold take_step qs s)" if "studio_valid L sha s" for s
    using assms that
  proof (induction qs arbitrary: s)
    case (Cons q qs)
    then show ?case using take_step_valid [of L sha s q] by simp
  qed simp
  have "studio_valid L sha (empty_studio d)" by (simp add: studio_valid_def empty_studio_def)
  from run [OF this] show ?thesis unfolding studio_valid_def studio_run_def .
qed

text \<open>A profile that passes the validation never violates the constraint of the table.\<close>

lemma profile_check_valid: "MediaProfile_Validate p \<Longrightarrow> profile_check p"
  unfolding MediaProfile_Validate_iff profile_check_def even_iff_mod_2_eq_zero by blast

section \<open>Concrete edits\<close>

definition demo_studio_env :: "string studio_env" where
  "demo_studio_env = \<lparr>sd_now = 5, sd_fault = (\<lambda>_. False), sd_images = \<lparr>il_config = (\<lambda>_. Some (2, 2)), il_decode = Some, il_png = Some\<rparr>,
     sd_hex_sha256 = (\<lambda>_. replicate 64 CHR ''0'')\<rparr>"

definition demo_profile :: media_profile where
  "demo_profile = DefaultMediaProfile\<lparr>mp_video_kbps := 500\<rparr>"

definition demo_edits :: "string studio_step list" where
  "demo_edits = [Provision 0 ''st'', EditMedia demo_studio_env ''st'' ''PUT'' (Some (demo_profile, 1)),
     EditFallback demo_studio_env ''st'' ''PUT'' ''0'' ''image/png'' (Some ''png'')]"

lemma demo_zero: "ParseInt ''0'' = Some 0"
  by (simp add: ParseInt_def is_digit_def digits_val_def digit_val_def in_i64_def)

lemma demo_edits_run:
  "sd_profiles (studio_run demo_edits (empty_studio demo_db1)) = [\<lparr>pr_source = ''st'', pr_profile = demo_profile, pr_generation = 2\<rparr>]"
  "sd_assets (studio_run demo_edits (empty_studio demo_db1)) =
     [\<lparr>as_source = ''st'', as_kind = ''image'', as_content = ''png'', as_digest = replicate 64 CHR ''0'', as_generation = 1\<rparr>]"
proof -
  have db: "sd_db (empty_studio d) = d" for d by (simp add: empty_studio_def)
  have idle: "\<not> source_active ''st'' demo_db1" "list_ex (\<lambda>st. st_id st = ''st'') (streams demo_db1)"
    by (simp_all add: source_active_def demo_db1_def CreateStream_def empty_db_def Let_def)
  have ok: "MediaProfile_Validate demo_profile" by (simp add: MediaProfile_Validate_iff demo_profile_def DefaultMediaProfile_def)
  have fault: "\<not> sd_fault demo_studio_env n" for n by (simp add: demo_studio_env_def)
  have image: "validateFallback (sd_images demo_studio_env) ''png'' ''image/png'' = Inr (''image'', ''png'')"
    by (simp add: validateFallback_def demo_studio_env_def i64_def)
  have check: "asset_check \<lparr>as_source = ''st'', as_kind = ''image'', as_content = ''png'', as_digest = replicate 64 CHR ''0'', as_generation = 1\<rparr>"
    by (simp add: asset_check_def)
  have sha: "sd_hex_sha256 demo_studio_env x = replicate 64 CHR ''0''" for x by (simp add: demo_studio_env_def)
  define s1 where "s1 = provision 0 ''st'' (empty_studio demo_db1)"
  have s1: "sd_db s1 = demo_db1" "sd_assets s1 = []"
      "sd_profiles s1 = [\<lparr>pr_source = ''st'', pr_profile = DefaultMediaProfile, pr_generation = 1\<rparr>]"
    by (simp_all add: s1_def provision_def new_profile_def empty_studio_def)
  define s2 where "s2 = snd (userMedia demo_studio_env ''st'' ''PUT'' (Some (demo_profile, 1)) s1)"
  have p2: "sd_profiles s2 = [\<lparr>pr_source = ''st'', pr_profile = demo_profile, pr_generation = 2\<rparr>]"
    by (simp add: s2_def userMedia_def ok fault idle s1 profile_check_valid count_where_def profile_match_def update_profile_def update_where_def)
  have s2: "sd_db s2 = demo_db1" "sd_assets s2 = []" by (simp_all add: s2_def s1)
  define s3 where "s3 = snd (userFallback demo_studio_env ''st'' ''PUT'' ''0'' ''image/png'' (Some ''png'') s2)"
  have "sd_assets s3 = [\<lparr>as_source = ''st'', as_kind = ''image'', as_content = ''png'', as_digest = replicate 64 CHR ''0'', as_generation = 1\<rparr>]"
    by (simp add: s3_def userFallback_def demo_zero maxFallbackBytes_def image save_asset_def fault s2 idle asset_generation_def change_asset_def
        store_asset_def check sha in_i64_def)
  moreover have "studio_run demo_edits (empty_studio demo_db1) = s3" by (simp add: studio_run_def demo_edits_def s3_def s2_def s1_def)
  moreover have "sd_profiles s3 = sd_profiles s2" by (simp add: s3_def)
  ultimately show "sd_profiles (studio_run demo_edits (empty_studio demo_db1)) = [\<lparr>pr_source = ''st'', pr_profile = demo_profile, pr_generation = 2\<rparr>]"
    "sd_assets (studio_run demo_edits (empty_studio demo_db1)) =
     [\<lparr>as_source = ''st'', as_kind = ''image'', as_content = ''png'', as_digest = replicate 64 CHR ''0'', as_generation = 1\<rparr>]"
    using p2 by simp_all
qed

lemma stored_settings_valid_witness:
  "MediaProfile_Validate demo_profile
   \<and> asset_valid (sd_images demo_studio_env) (sd_hex_sha256 demo_studio_env)
       \<lparr>as_source = ''st'', as_kind = ''image'', as_content = ''png'', as_digest = replicate 64 CHR ''0'', as_generation = 1\<rparr>"
proof -
  have "\<forall>q \<in> set demo_edits. of_lib (sd_images demo_studio_env) (sd_hex_sha256 demo_studio_env) q" by (simp add: demo_edits_def)
  from stored_settings_valid [OF this, of demo_db1] show ?thesis unfolding demo_edits_run by simp
qed

theorem live_source_settings_frozen_witness:
  "profile_of (studio_run (tl demo_edits) (provision 0 ''st'' (empty_studio demo_db2))) ''st'' =
     Some \<lparr>pr_source = ''st'', pr_profile = DefaultMediaProfile, pr_generation = 1\<rparr>"
proof -
  have "source_active ''st'' (sd_db (provision 0 ''st'' (empty_studio demo_db2)))"
    by (simp add: empty_studio_def source_active_def demo_db2_eq)
  moreover have "profile_of (provision 0 ''st'' (empty_studio demo_db2)) ''st'' = Some \<lparr>pr_source = ''st'', pr_profile = DefaultMediaProfile, pr_generation = 1\<rparr>"
    by (simp add: profile_of_def provision_def new_profile_def empty_studio_def)
  moreover have "\<forall>d. Elsewhere d \<in> set (tl demo_edits) \<longrightarrow> source_active ''st'' d" by (simp add: demo_edits_def)
  ultimately show ?thesis using live_source_settings_frozen by blast
qed

end
