(* ===== verification/Edge_Gateway.thy ===== *)
theory Edge_Gateway
  imports Request_Limits Session_Store Maintenance_Gate Control_Pass
begin

text \<open>
  What the edge asks the application, \<^verbatim>\<open>edgeAuth\<close> and \<^verbatim>\<open>edgeObservation\<close> of \<^verbatim>\<open>backend/internal/application/api.go\<close>: may the
  controller use the edge's own interface, may a worker read a source, may a publisher send one. The handler is composed from the
  maintenance fence, the table of attempts, the tokens and keys and the session store. The status that the application
  reports for a session and the answers to an operator are here as well.

  The store is configured. \<open>ge_clock i\<close> is the reading of the clock before the i-th step and \<open>ge_fault i\<close> says that the database fails at it.
\<close>

section \<open>State and requests\<close>

record gateway =
  gw_db :: db
  gw_attempts :: "attempt_row list"
  gw_gate :: gate_dir

record edge_api =
  ea_EdgeToken :: string
  ea_MaintenanceDirectory :: string
  ea_ReadKey :: string
  ea_EdgeID :: string
  ea_Grace :: duration

record edge_lib =
  el_net :: net_lib
  el_digest :: "string \<Rightarrow> string"
  el_hmac :: "string \<Rightarrow> string \<Rightarrow> string"
  el_codecs :: codecs
  el_pbkdf2 :: "string \<Rightarrow> string \<Rightarrow> nat \<Rightarrow> nat \<Rightarrow> string"

record edgeAuthRequest =
  er_User :: string
  er_Password :: string
  er_Token :: string
  er_IP :: string
  er_Action :: string
  er_Path :: string
  er_Protocol :: string
  er_ID :: string
  er_Query :: string
  er_UserAgent :: string

record gateway_env =
  ge_peer :: netaddr
  ge_clock :: "nat \<Rightarrow> time"
  ge_fault :: "nat \<Rightarrow> bool"
  ge_uuids :: "string \<times> string"

definition ms_of :: "time \<Rightarrow> time" where
  "ms_of t = t div millisecond"

section \<open>Authorization for the edge\<close>

text \<open>The query for the allocation that a read token names.\<close>

definition allocation_reads :: "string \<Rightarrow> nat \<Rightarrow> string \<Rightarrow> db \<Rightarrow> bool" where
  "allocation_reads alloc generation stream d \<longleftrightarrow>
     list_ex (\<lambda>wa. wa_id wa = alloc \<and> wa_desired_generation wa = generation \<and> wa_desired wa = DesiredRunning \<and> allocation_active wa
       \<and> list_ex (\<lambda>ss. ss_id ss = wa_session wa \<and> ss_stream ss = stream \<and> ss_desired ss = DesiredRunning \<and> session_active ss
            \<and> list_ex (\<lambda>s. st_id s = ss_stream ss \<and> st_enabled s) (streams d)) (sessions d))
       (allocations d)"

definition read_claims :: "edge_lib \<Rightarrow> edge_api \<Rightarrow> gateway_env \<Rightarrow> edgeAuthRequest \<Rightarrow> edge_claims option" where
  "read_claims l a v r =
     (if er_Action r = ''read'' \<and> er_Protocol r = ''srt'' \<and> 32 \<le> length (ea_ReadKey a)
      then (case VerifyEdgeToken (el_hmac l) (el_codecs l) (er_Password r) (ea_ReadKey a) (ge_clock v 1) of
              Some cl \<Rightarrow> if cl_Action cl = ''read'' \<and> cl_StreamID cl = er_Path r \<and> cl_AllocationID cl \<noteq> [] \<and> 0 < cl_Generation cl
                         then Some cl else None
            | None \<Rightarrow> None)
      else None)"

definition edge_publish :: "edge_lib \<Rightarrow> edge_api \<Rightarrow> gateway_env \<Rightarrow> edgeAuthRequest \<Rightarrow> gateway \<Rightarrow> int \<times> gateway" where
  "edge_publish l a v r g =
     (if er_Action r \<noteq> ''publish'' \<or> (er_Protocol r \<noteq> ''srt'' \<and> er_Protocol r \<noteq> ''rtmp'') then (403, g)
      else case nl_parse (el_net l) (er_IP r) of
          None \<Rightarrow> (403, g)
        | Some sourceIP \<Rightarrow>
            if length (er_Password r) > 256 \<or> length (er_Path r) > 80 \<or> length (er_ID r) > 80 then (403, g)
            else if ge_fault v 2 then (503, g)
            else case allow (el_digest l) (''publisher:'' @ nl_show (el_net l) (unmap_addr sourceIP)) 100 900 (ms_of (ge_clock v 2)) (gw_attempts g) of
                (allowed, t) \<Rightarrow>
                  (let g1 = g\<lparr>gw_attempts := t\<rparr> in
                   if \<not> allowed then (429, g1)
                   else case (if ge_fault v 3 then Inl NoRows else GetStream (er_Path r) (gw_db g1)) of
                       Inl _ \<Rightarrow> (403, g1)
                     | Inr (stream, hash) \<Rightarrow>
                         if \<not> st_enabled stream \<or> \<not> VerifyKey (el_pbkdf2 l) hash (er_Password r) then (403, g1)
                         else if ea_EdgeID a = [] then (204, g1)
                         else if ge_fault v 4 then (403, g1)
                         else (case ObserveIngest (ge_uuids v) (ge_clock v 4) (ea_EdgeID a) (er_ID r) (er_Path r) (er_Protocol r) True
                                      (ge_clock v 3) (ea_Grace a) (Some hash) (gw_db g1) of
                                 (Inl _, d) \<Rightarrow> (403, g1\<lparr>gw_db := d\<rparr>)
                               | (Inr _, d) \<Rightarrow> (204, g1\<lparr>gw_db := d\<rparr>))))"

definition edge_admit :: "edge_lib \<Rightarrow> edge_api \<Rightarrow> gateway_env \<Rightarrow> edgeAuthRequest \<Rightarrow> gateway \<Rightarrow> int \<times> gateway" where
  "edge_admit l a v r g =
     (if ge_fault v 0 then (503, g)
      else case allow (el_digest l) (''edge:'' @ nl_show (el_net l) (ge_peer v)) 6000 60 (ms_of (ge_clock v 0)) (gw_attempts g) of
          (allowed, t) \<Rightarrow>
            (let g1 = g\<lparr>gw_attempts := t\<rparr> in
             if \<not> allowed then (429, g1)
             else case read_claims l a v r of
                 Some cl \<Rightarrow>
                   if ge_fault v 1 \<or> \<not> allocation_reads (cl_AllocationID cl) (cl_Generation cl) (cl_StreamID cl) (gw_db g1) then (403, g1)
                   else (204, g1)
               | None \<Rightarrow> edge_publish l a v r g1))"

definition edgeAuth :: "edge_lib \<Rightarrow> edge_api \<Rightarrow> gateway_env \<Rightarrow> edgeAuthRequest option \<Rightarrow> gateway \<Rightarrow> int \<times> gateway" where
  "edgeAuth l a v input g =
     (case input of
        None \<Rightarrow> (403, g)
      | Some r \<Rightarrow>
          if er_Action r = ''api'' \<and> er_User r = ''controller'' \<and> Matches (er_Password r) (ea_EdgeToken a) then (204, g)
          else (case Enter (ea_MaintenanceDirectory a) (gw_gate g) of
                  (Inl _, gd) \<Rightarrow> (503, g\<lparr>gw_gate := gd\<rparr>)
                | (Inr lv, gd) \<Rightarrow>
                    (case edge_admit l a v r (g\<lparr>gw_gate := gd\<rparr>) of
                       (status, g1) \<Rightarrow> (status, g1\<lparr>gw_gate := Maintenance_Gate.release lv (gw_gate g1)\<rparr>))))"

text \<open>An observation that the edge reports itself.\<close>

record edge_observation =
  eo_EdgeID :: string
  eo_ConnectionID :: string
  eo_StreamID :: string
  eo_Protocol :: string
  eo_Connected :: bool
  eo_SeenAt :: time

definition edgeObservation :: "edge_api \<Rightarrow> gateway_env \<Rightarrow> edge_observation option \<Rightarrow> db \<Rightarrow> (int \<times> string) \<times> db" where
  "edgeObservation a v input d =
     (case input of
        None \<Rightarrow> ((400, []), d)
      | Some o' \<Rightarrow>
          if ea_EdgeID a \<noteq> [] \<and> eo_EdgeID o' \<noteq> ea_EdgeID a then ((400, []), d)
          else (case ObserveIngest (ge_uuids v) (ge_clock v 0) (eo_EdgeID o') (eo_ConnectionID o') (eo_StreamID o') (eo_Protocol o')
                       (eo_Connected o') (eo_SeenAt o') (ea_Grace a) None d of
                  (Inl _, d') \<Rightarrow> ((409, []), d')
                | (Inr sid, d') \<Rightarrow> ((202, sid), d')))"

section \<open>Status and stop\<close>

definition project_status :: "time \<Rightarrow> session_status \<Rightarrow> string" where
  "project_status now s =
     (if ss_phase (sst_session s) = Ended then ''STOPPED''
      else if ss_phase (sst_session s) = Failed then ''FAILED''
      else if 30 * second < time_sub now (sst_last_seen s) then ''UNKNOWN''
      else if ss_phase (sst_session s) = Live \<and> sst_state s = AllocRunning then
        (if list_ex (\<lambda>(_, r). dr_state r \<noteq> ''STREAMING'') (sst_destinations s) then ''DEGRADED''
         else if (case sst_allocation s of Some x \<Rightarrow> wa_fallback_active x | None \<Rightarrow> False) then ''FALLBACK''
         else if (case sst_allocation s of Some x \<Rightarrow> wa_input_unavailable x | None \<Rightarrow> False) then ''NO_SIGNAL''
         else ''LIVE'')
      else ''TRANSITIONING'')"

definition status_view :: "time \<Rightarrow> string \<Rightarrow> db \<Rightarrow> int + string \<times> session_status \<times> bool \<times> stop_reason" where
  "status_view now stream d =
     (case Session_Store.Status stream d of
        Inl _ \<Rightarrow> Inl 404
      | Inr s \<Rightarrow>
          (case StopEligibility now (ss_id (sst_session s)) d of
             (_, Inl _) \<Rightarrow> Inl 503
           | (canStop, Inr reason) \<Rightarrow> Inr (project_status now s, s, canStop, reason)))"

definition api_stopSession :: "time \<Rightarrow> string \<Rightarrow> db \<Rightarrow> int \<times> db" where
  "api_stopSession now i d =
     (case StopSession now i d of
        (None, d') \<Rightarrow> (202, d')
      | (Some e, d') \<Rightarrow>
          (if e = ErrSourceConnected \<or> e = ErrSourceStateUnknown then 409 else if e = NoRows then 404 else 503, d'))"

definition api_drainNode :: "string \<Rightarrow> db \<Rightarrow> int \<times> db" where
  "api_drainNode i d = (case DrainNode i d of (None, d') \<Rightarrow> (202, d') | (Some _, d') \<Rightarrow> (404, d'))"

definition api_retryDestination :: "time \<Rightarrow> string \<Rightarrow> db \<Rightarrow> int \<times> db" where
  "api_retryDestination now i d = (case RetryDestination now i d of (None, d') \<Rightarrow> (202, d') | (Some _, d') \<Rightarrow> (404, d'))"

section \<open>The parts of an authorization\<close>

lemma ObserveIngest_refused: "ObserveIngest u n e k st p b t gr h d = (Inl err, d') \<Longrightarrow> d' = d"
  by (auto simp: ObserveIngest_def split: if_splits sum.splits)

lemma attach_session_connections: "connections (snd (attach_session u n st c d)) = connections d"
  by (auto simp: attach_session_def insert_session_def Let_def split: option.split)

lemma upsert_connection_recorded:
  assumes "upsert_connection u e k st p status t d = (Inr cid, d1)"
  shows "\<exists>c \<in> set (connections d1). ic_edge c = e \<and> ic_connection c = k \<and> ic_status c = status"
proof (cases "find (\<lambda>c. (ic_edge c, ic_connection c) = (e, k)) (connections d)")
  case None
  then show ?thesis using assms by (auto simp: upsert_connection_def Let_def split: if_splits)
next
  case (Some c)
  let ?K = "\<lambda>c. (ic_edge c, ic_connection c) = (e, k)"
  have "c \<in> set (connections d)" "?K c" using find_Some_iff_hd [OF Some] by auto
  moreover have "connections d1 = update_where ?K (set_connection e status t) (connections d)"
    using assms Some by (auto simp: upsert_connection_def Let_def)
  ultimately show ?thesis using update_where_image [of c "connections d" ?K "set_connection e status t"] by (intro bexI) auto
qed

text \<open>An accepted observation is recorded, unless the database holds a newer one of the same connection.\<close>

lemma ObserveIngest_recorded:
  assumes "ObserveIngest u n e k st p True t gr h d = (Inr sid, d')"
  shows "\<exists>c \<in> set (connections d'). ic_edge c = e \<and> ic_connection c = k \<and> (ic_status c = Connected \<or> truncate_ms t \<le> ic_last_seen c)"
proof -
  from assms have tx: "observe_tx u n e k st p True (truncate_ms t) gr h d = Inr (sid, d')"
    by (auto simp: ObserveIngest_def split: if_splits sum.splits)
  let ?old = "find (\<lambda>c. (ic_edge c, ic_connection c) = (e, k)) (connections d)"
  let ?stale = "case ?old of None \<Rightarrow> False
    | Some c \<Rightarrow> truncate_ms t < ic_last_seen c \<or> (truncate_ms t = ic_last_seen c \<and> ic_status c = Disconnected \<and> True)"
  show ?thesis
  proof (cases ?stale)
    case True
    then obtain c where c: "?old = Some c" "truncate_ms t \<le> ic_last_seen c" by (auto split: option.splits)
    have "d' = d" using tx True by (auto simp: observe_tx_def Let_def split: option.splits if_splits)
    then show ?thesis using c find_Some_iff_hd [OF c(1)] by auto
  next
    case False
    from tx obtain str where str: "find (\<lambda>r. st_id r = st \<and> st_enabled r) (streams d) = Some str"
      by (auto simp: observe_tx_def split: option.splits)
    from tx str False obtain cid d1 where up: "upsert_connection (fst u) e k st p Connected (truncate_ms t) d = (Inr cid, d1)"
      and at: "attach_session (snd u) n st cid d1 = (Inr sid, d')"
      by (auto simp: observe_tx_def Let_def split: if_splits prod.splits sum.splits)
    have "connections d' = connections d1" using attach_session_connections [of "snd u" n st cid d1] at by simp
    then show ?thesis using upsert_connection_recorded [OF up] by auto
  qed
qed

lemma allow_gw: "\<exists>b t. allow dg key m s now ts = (b, t)"
  by (cases "allow dg key m s now ts") blast

text \<open>What an admitted publisher has shown, and what the database then holds.\<close>

definition publisher_admitted :: "edge_lib \<Rightarrow> edge_api \<Rightarrow> gateway_env \<Rightarrow> edgeAuthRequest \<Rightarrow> db \<Rightarrow> db \<Rightarrow> bool" where
  "publisher_admitted l a v r d d' \<longleftrightarrow> er_Action r = ''publish''
     \<and> (\<exists>s \<in> set (streams d). st_id s = er_Path r \<and> st_enabled s \<and> VerifyKey (el_pbkdf2 l) (st_hash s) (er_Password r))
     \<and> (if ea_EdgeID a = [] then d' = d
        else \<exists>c \<in> set (connections d'). ic_edge c = ea_EdgeID a \<and> ic_connection c = er_ID r
               \<and> (ic_status c = Connected \<or> truncate_ms (ge_clock v 3) \<le> ic_last_seen c))"

definition reader_admitted :: "edge_lib \<Rightarrow> edge_api \<Rightarrow> gateway_env \<Rightarrow> edgeAuthRequest \<Rightarrow> db \<Rightarrow> db \<Rightarrow> bool" where
  "reader_admitted l a v r d d' \<longleftrightarrow> d' = d \<and> er_Action r = ''read'' \<and>
     (\<exists>cl. VerifyEdgeToken (el_hmac l) (el_codecs l) (er_Password r) (ea_ReadKey a) (ge_clock v 1) = Some cl \<and> cl_Action cl = ''read''
        \<and> cl_StreamID cl = er_Path r \<and> allocation_reads (cl_AllocationID cl) (cl_Generation cl) (er_Path r) d)"

lemma edge_publish_cases:
  assumes "edge_publish l a v r g = (status, g')"
  shows "gw_gate g' = gw_gate g \<and> (status \<noteq> 204 \<longrightarrow> gw_db g' = gw_db g) \<and> (status = 204 \<longrightarrow> publisher_admitted l a v r (gw_db g) (gw_db g'))"
proof (cases "edge_publish l a v r g = (403, g) \<or> edge_publish l a v r g = (503, g)")
  case True
  then show ?thesis using assms by auto
next
  case False
  then obtain ip where ip: "nl_parse (el_net l) (er_IP r) = Some ip"
    and basic: "er_Action r = ''publish''" "er_Protocol r = ''srt'' \<or> er_Protocol r = ''rtmp''" "\<not> ge_fault v 2"
      "\<not> (length (er_Password r) > 256 \<or> length (er_Path r) > 80 \<or> length (er_ID r) > 80)"
    by (auto simp: edge_publish_def split: option.splits if_splits)
  obtain allowed t where t:
    "allow (el_digest l) (''publisher:'' @ nl_show (el_net l) (unmap_addr ip)) 100 900 (ms_of (ge_clock v 2)) (gw_attempts g) = (allowed, t)"
    using allow_gw by blast
  note eval = assms [unfolded edge_publish_def, simplified basic ip option.case t prod.case Let_def]
  show ?thesis
  proof (cases "allowed \<and> \<not> ge_fault v 3")
    case False
    then show ?thesis using eval basic(2) by (auto split: if_splits)
  next
    case go: True
    show ?thesis
    proof (cases "GetStream (er_Path r) (gw_db g)")
      case (Inl e)
      then show ?thesis using eval basic(2) go by (auto split: if_splits)
    next
      case (Inr sh)
      then obtain s where s: "find (\<lambda>q. st_id q = er_Path r) (streams (gw_db g)) = Some s" "sh = (s, st_hash s)"
        by (auto simp: GetStream_def split: option.splits)
      have mem: "s \<in> set (streams (gw_db g))" "st_id s = er_Path r" using find_Some_iff_hd [OF s(1)] by auto
      show ?thesis
      proof (cases "st_enabled s \<and> VerifyKey (el_pbkdf2 l) (st_hash s) (er_Password r) \<and> ea_EdgeID a \<noteq> [] \<and> \<not> ge_fault v 4")
        case False
        then show ?thesis using eval basic go Inr s(2) mem by (auto simp: publisher_admitted_def split: if_splits)
      next
        case True
        obtain res d where o: "ObserveIngest (ge_uuids v) (ge_clock v 4) (ea_EdgeID a) (er_ID r) (er_Path r) (er_Protocol r) True
            (ge_clock v 3) (ea_Grace a) (Some (st_hash s)) (gw_db g) = (res, d)" by (meson surj_pair)
        show ?thesis
        proof (cases res)
          case (Inl e)
          then have "d = gw_db g" using o ObserveIngest_refused by blast
          then show ?thesis using eval basic(2) go Inr s(2) True o Inl by auto
        next
          case r: (Inr sid)
          then have "publisher_admitted l a v r (gw_db g) d"
            using ObserveIngest_recorded o True basic(1) mem by (auto simp: publisher_admitted_def)
          then show ?thesis using eval basic(2) go Inr s(2) True o r by auto
        qed
      qed
    qed
  qed
qed

lemma edge_admit_cases:
  assumes "edge_admit l a v r g = (status, g')"
  shows "gw_gate g' = gw_gate g \<and> (status \<noteq> 204 \<longrightarrow> gw_db g' = gw_db g)
    \<and> (status = 204 \<longrightarrow> reader_admitted l a v r (gw_db g) (gw_db g') \<or> publisher_admitted l a v r (gw_db g) (gw_db g'))"
proof (cases "ge_fault v 0")
  case True
  then show ?thesis using assms by (auto simp: edge_admit_def)
next
  case up: False
  obtain allowed t where t:
    "allow (el_digest l) (''edge:'' @ nl_show (el_net l) (ge_peer v)) 6000 60 (ms_of (ge_clock v 0)) (gw_attempts g) = (allowed, t)"
    using allow_gw by blast
  show ?thesis
  proof (cases "read_claims l a v r")
    case None
    then show ?thesis
      using assms up t edge_publish_cases [of l a v r "g\<lparr>gw_attempts := t\<rparr>" status g']
      by (auto simp: edge_admit_def Let_def split: if_splits)
  next
    case (Some cl)
    then have "VerifyEdgeToken (el_hmac l) (el_codecs l) (er_Password r) (ea_ReadKey a) (ge_clock v 1) = Some cl"
      "cl_Action cl = ''read''" "cl_StreamID cl = er_Path r" "er_Action r = ''read''"
      by (auto simp: read_claims_def split: option.splits if_splits)
    then show ?thesis using assms up t Some by (auto simp: edge_admit_def reader_admitted_def Let_def split: if_splits)
  qed
qed

lemma ObserveIngest_keeps_inv: "ObserveIngest u n e k st p b t gr h d = (x, d') \<Longrightarrow> db_inv d \<Longrightarrow> db_inv d'"
  using ObserveIngest_inv [of d u n e k st p b t gr h] by simp

lemma edge_publish_inv: "db_inv (gw_db g) \<Longrightarrow> db_inv (gw_db (snd (edge_publish l a v r g)))"
  by (auto simp: edge_publish_def Let_def split: option.split prod.split sum.split dest: ObserveIngest_keeps_inv)

text \<open>C19: the edge is told to admit somebody only when the controller shows its token, a worker shows a token for the current
  start of an allocation that reads this source, or a publisher shows the key of the enabled source, in which case the connection
  is recorded; a refusal leaves the database as it was, and the maintenance fence is always left again.\<close>

theorem edge_admits_only_authorized:
  assumes "edgeAuth l a v (Some r) g = (status, g')"
  shows "gw_gate g' = gw_gate g \<and> (status \<noteq> 204 \<longrightarrow> gw_db g' = gw_db g) \<and>
    (status = 204 \<longrightarrow>
       er_User r = ''controller'' \<and> Matches (er_Password r) (ea_EdgeToken a) \<and> g' = g \<or>
       (ea_MaintenanceDirectory a = [] \<or> \<not> exclusive (gw_gate g) \<and> marker (gw_gate g) = LAbsent) \<and>
       (reader_admitted l a v r (gw_db g) (gw_db g') \<or> publisher_admitted l a v r (gw_db g) (gw_db g')))"
proof (cases "er_Action r = ''api'' \<and> er_User r = ''controller'' \<and> Matches (er_Password r) (ea_EdgeToken a)")
  case True
  then show ?thesis using assms by (simp add: edgeAuth_def)
next
  case other: False
  obtain res gd where e: "Enter (ea_MaintenanceDirectory a) (gw_gate g) = (res, gd)" by (meson surj_pair)
  show ?thesis
  proof (cases res)
    case (Inl x)
    then have "gd = gw_gate g" using e Enter_error by blast
    then show ?thesis using assms other e Inl by (auto simp: edgeAuth_def)
  next
    case (Inr lv)
    obtain g1 where g1: "edge_admit l a v r (g\<lparr>gw_gate := gd\<rparr>) = (status, g1)" "g' = g1\<lparr>gw_gate := Maintenance_Gate.release lv (gw_gate g1)\<rparr>"
      using assms other e Inr by (auto simp: edgeAuth_def split: prod.splits)
    have open_gate: "ea_MaintenanceDirectory a = [] \<or> \<not> exclusive (gw_gate g) \<and> marker (gw_gate g) = LAbsent"
      using e Inr by (auto simp: Enter_def try_shared_def split: if_splits option.splits)
    have "Maintenance_Gate.release lv gd = gw_gate g" using e Inr Enter_release by blast
    then show ?thesis using edge_admit_cases [OF g1(1)] g1(2) open_gate by auto
  qed
qed

section \<open>Read tokens follow the allocation\<close>

definition read_request :: "string \<Rightarrow> string \<Rightarrow> edgeAuthRequest" where
  "read_request stream token = \<lparr>er_User = [], er_Password = token, er_Token = [], er_IP = [], er_Action = ''read'', er_Path = stream,
     er_Protocol = ''srt'', er_ID = [], er_Query = [], er_UserAgent = []\<rparr>"

text \<open>The session of an allocation lets it read the source.\<close>

definition session_reads :: "string \<Rightarrow> allocation_row \<Rightarrow> db \<Rightarrow> bool" where
  "session_reads stream wa d \<longleftrightarrow> wa_desired wa = DesiredRunning \<and>
     (\<exists>ss \<in> set (sessions d). ss_id ss = wa_session wa \<and> ss_stream ss = stream \<and> ss_desired ss = DesiredRunning \<and> session_active ss
        \<and> (\<exists>s \<in> set (streams d). st_id s = stream \<and> st_enabled s))"

lemma bex_update_where: "(\<exists>r \<in> set (update_where P f t). Q r) \<longleftrightarrow> (\<exists>r \<in> set t. Q (if P r then f r else r))"
  by (induction t) auto

lemma allocation_reads_iff:
  "allocation_reads alloc generation stream d \<longleftrightarrow>
     (\<exists>wa \<in> set (allocations d). wa_id wa = alloc \<and> wa_desired_generation wa = generation \<and> allocation_active wa \<and> session_reads stream wa d)"
proof -
  have "(\<exists>ss \<in> set (sessions d). ss_id ss = i \<and> ss_stream ss = stream \<and> ss_desired ss = DesiredRunning \<and> session_active ss
        \<and> (\<exists>s \<in> set (streams d). st_id s = ss_stream ss \<and> st_enabled s)) \<longleftrightarrow>
      (\<exists>ss \<in> set (sessions d). ss_id ss = i \<and> ss_stream ss = stream \<and> ss_desired ss = DesiredRunning \<and> session_active ss
        \<and> (\<exists>s \<in> set (streams d). st_id s = stream \<and> st_enabled s))" for i
    by (rule bex_cong [OF refl]) auto
  then show ?thesis unfolding allocation_reads_def session_reads_def list_ex_iff
    by (intro bex_cong [OF refl]) (simp, blast)
qed

lemma allocation_reads_committed:
  "allocation_reads alloc generation stream (commit_start now alloc generation' hash fc retry d) \<longleftrightarrow>
     generation' = generation \<and> (\<exists>wa \<in> set (allocations d). wa_id wa = alloc \<and> session_reads stream wa d)"
proof -
  let ?d = "commit_start now alloc generation' hash fc retry d"
  let ?f = "\<lambda>a. a\<lparr>wa_desired_generation := generation', wa_hash := hash, wa_fence := fc, wa_state := AllocStarting,
    wa_restarts := wa_restarts a + 1, wa_retry_after := retry, wa_last_healthy := None, wa_updated := now\<rparr>"
  have reads: "session_reads stream (?f wa) ?d = session_reads stream wa d" for wa
    by (simp add: session_reads_def commit_start_def)
  have "allocation_reads alloc generation stream ?d \<longleftrightarrow> (\<exists>wa \<in> set (allocations d). wa_id wa = alloc \<and> wa_desired_generation (?f wa) = generation
      \<and> allocation_active (?f wa) \<and> session_reads stream (?f wa) ?d)"
  proof -
    have al: "allocations ?d = update_where (\<lambda>a. wa_id a = alloc) ?f (allocations d)" by (simp add: commit_start_def)
    have split_f: "(\<exists>wa \<in> set (allocations ?d). Q wa) \<longleftrightarrow> (\<exists>wa \<in> set (allocations d). Q (if wa_id wa = alloc then ?f wa else wa))" for Q
      unfolding al by (rule bex_update_where)
    show ?thesis unfolding allocation_reads_iff split_f
    proof (rule bex_cong [OF refl])
      fix wa
      show "(wa_id (if wa_id wa = alloc then ?f wa else wa) = alloc
          \<and> wa_desired_generation (if wa_id wa = alloc then ?f wa else wa) = generation
          \<and> allocation_active (if wa_id wa = alloc then ?f wa else wa) \<and> session_reads stream (if wa_id wa = alloc then ?f wa else wa) ?d) \<longleftrightarrow>
        (wa_id wa = alloc \<and> wa_desired_generation (?f wa) = generation \<and> allocation_active (?f wa) \<and> session_reads stream (?f wa) ?d)"
        by (cases "wa_id wa = alloc") simp_all
    qed
  qed
  then show ?thesis unfolding reads by (auto simp: allocation_active_def)
qed

text \<open>C20: Whatever the database holds, the token that the control loop hands to a worker at a start lets it read its source
  exactly while some allocation of that name records the generation of that start, is desired and neither stopped nor failed, and belongs
  to a desired, active session of the enabled source; so as soon as the loop commits a start of another generation, the token of the old worker
  is refused. The edge and the loop share the key, of at least 32 bytes, and the codecs; the request is not refused before the token is
  looked at, by maintenance, by the limit on requests or by a fault of the database.\<close>

theorem read_token_fenced_by_generation:
  assumes "\<And>x. b64_decode (ctl_codecs c) (b64_encode (ctl_codecs c) x) = Some x" "\<And>x. CHR ''.'' \<notin> set (b64_encode (ctl_codecs c) x)"
    and "claims = \<lparr>cl_StreamID = stream, cl_Action = ''read'', cl_ExpiresAt = 0, cl_AllocationID = alloc, cl_Generation = generation\<rparr>"
    and "json_decode (ctl_codecs c) (json_encode (ctl_codecs c) claims) = Some claims"
    and "el_hmac l = ctl_hmac c" "el_codecs l = ctl_codecs c" "ea_ReadKey a = ctl_ReadKey c" "32 \<le> length (ctl_ReadKey c)"
    and "map_of (start_files c tk stream alloc generation files) ''source_token'' = Some token" "alloc \<noteq> []" "0 < generation"
    and "\<not> ge_fault v 0" "\<not> ge_fault v 1" "fst (Enter (ea_MaintenanceDirectory a) (gw_gate g)) \<noteq> Inl ErrActive"
    and "fst (allow (el_digest l) (''edge:'' @ nl_show (el_net l) (ge_peer v)) 6000 60 (ms_of (ge_clock v 0)) (gw_attempts g))"
  shows "fst (edgeAuth l a v (Some (read_request stream token)) g) =
      (if \<exists>wa \<in> set (allocations (gw_db g)). wa_id wa = alloc \<and> wa_desired_generation wa = generation \<and> wa_desired wa = DesiredRunning \<and>
            wa_state wa \<noteq> AllocStopped \<and> wa_state wa \<noteq> AllocFailed \<and>
            (\<exists>ss \<in> set (sessions (gw_db g)). ss_id ss = wa_session wa \<and> ss_stream ss = stream \<and> ss_desired ss = DesiredRunning \<and>
               session_active ss \<and> (\<exists>s \<in> set (streams (gw_db g)). st_id s = stream \<and> st_enabled s))
       then 204 else 403) \<and>
    (gw_db g = commit_start now alloc generation' hash fc retry d \<longrightarrow> generation' \<noteq> generation \<longrightarrow>
       fst (edgeAuth l a v (Some (read_request stream token)) g) = 403)"
proof -
  have token: "token = SignEdgeToken (ctl_hmac c) (ctl_codecs c) claims (ctl_ReadKey c)"
    using assms(3,9) by (simp add: start_files_def update_conv')
  have verified: "VerifyEdgeToken (ctl_hmac c) (ctl_codecs c) token (ctl_ReadKey c) (ge_clock v 1) = Some claims"
    using assms(1-4,10,11) Split_append [of "CHR ''.''"] Split_single [of "CHR ''.''"]
    by (simp add: token VerifyEdgeToken_def SignEdgeToken_def Let_def)
  have claims: "read_claims l a v (read_request stream token) = Some claims"
    using assms(3,5-8,10,11) verified by (simp add: read_claims_def read_request_def)
  obtain gd lv where gd: "Enter (ea_MaintenanceDirectory a) (gw_gate g) = (Inr lv, gd)"
    using assms(14) by (cases "Enter (ea_MaintenanceDirectory a) (gw_gate g)"; cases "fst (Enter (ea_MaintenanceDirectory a) (gw_gate g))")
      (auto intro: gate_error.exhaust)
  have "fst (edgeAuth l a v (Some (read_request stream token)) g) = fst (edge_admit l a v (read_request stream token) (g\<lparr>gw_gate := gd\<rparr>))"
    by (simp add: edgeAuth_def gd read_request_def split: prod.split)
  also have "\<dots> = (if allocation_reads alloc generation stream (gw_db g) then 204 else 403)"
    using assms(3,12,13,15) claims by (auto simp: edge_admit_def Let_def split: prod.splits)
  finally have "fst (edgeAuth l a v (Some (read_request stream token)) g) = (if allocation_reads alloc generation stream (gw_db g) then 204 else 403)" .
  moreover have "\<not> allocation_reads alloc generation stream (gw_db g)"
    if "gw_db g = commit_start now alloc generation' hash fc retry d" "generation' \<noteq> generation"
    unfolding that(1) allocation_reads_committed using that(2) by blast
  ultimately show ?thesis by (simp add: allocation_reads_iff allocation_active_def session_reads_def) blast
qed

section \<open>Concrete requests to the edge\<close>

definition demo_edge_lib :: edge_lib where
  "demo_edge_lib = \<lparr>el_net = demo_lib, el_digest = (\<lambda>k. k), el_hmac = (\<lambda>k m. k @ m), el_codecs = demo_codecs,
     el_pbkdf2 = (\<lambda>_ _ _ n. replicate n CHR ''h'')\<rparr>"

definition demo_edge_api :: edge_api where
  "demo_edge_api = \<lparr>ea_EdgeToken = ''token'', ea_MaintenanceDirectory = [], ea_ReadKey = replicate 32 CHR ''k'', ea_EdgeID = [], ea_Grace = 0\<rparr>"

definition demo_gateway_env :: gateway_env where
  "demo_gateway_env = \<lparr>ge_peer = (V4 (ip4 10 0 0 1), []), ge_clock = (\<lambda>i. second + int i), ge_fault = (\<lambda>_. False), ge_uuids = (''u1'', ''u2'')\<rparr>"

definition demo_hash :: string where
  "demo_hash = be_bytes 4 iterations @ replicate 16 CHR ''s'' @ replicate 32 CHR ''h''"

definition demo_stream :: stream_row where
  "demo_stream = \<lparr>st_id = ''s'', st_account = ''acc'', st_name = ''source'', st_region = ''eu'', st_enabled = True, st_generation = 1,
     st_hash = demo_hash, st_created = 0, st_updated = 0\<rparr>"

definition demo_session :: session_row where
  "demo_session = \<lparr>ss_id = ''x'', ss_stream = ''s'', ss_connection = ''c1'', ss_desired = DesiredRunning, ss_phase = Scheduling, ss_generation = 1,
     ss_started = 0, ss_updated = 0, ss_ended = None, ss_end_reason = None, ss_stop_after = None, ss_operator_stopped = False\<rparr>"

definition demo_allocation :: allocation_row where
  "demo_allocation = \<lparr>wa_id = ''a'', wa_session = ''x'', wa_node = ''n1'', wa_desired = DesiredRunning, wa_state = AllocPending,
     wa_desired_generation = 1, wa_observed_generation = 0, wa_fence = 0, wa_worker = None, wa_last_error = None, wa_hash = [], wa_restarts = 0,
     wa_retry_after = 0, wa_last_healthy = None, wa_updated = 0, wa_fallback_active = False, wa_fallback_forced = False, wa_input_live = False,
     wa_input_unavailable = False, wa_input_error = [], wa_resources = rv_zero\<rparr>"

definition demo_edge_db :: db where
  "demo_edge_db = empty_db\<lparr>streams := [demo_stream], sessions := [demo_session], allocations := [demo_allocation]\<rparr>"

definition demo_gateway :: "db \<Rightarrow> gateway" where
  "demo_gateway d = \<lparr>gw_db = d, gw_attempts = [], gw_gate = demo_gate\<rparr>"

definition demo_publish :: edgeAuthRequest where
  "demo_publish = \<lparr>er_User = [], er_Password = replicate 16 CHR ''p'', er_Token = [], er_IP = ''1.2.3.4'', er_Action = ''publish'', er_Path = ''s'',
     er_Protocol = ''srt'', er_ID = ''conn'', er_Query = [], er_UserAgent = []\<rparr>"

lemma demo_key_verifies: "VerifyKey (\<lambda>_ _ _ n. replicate n CHR ''h'') demo_hash (replicate 16 CHR ''p'')"
proof -
  have "be_nat (be_bytes 4 iterations) = iterations" by (rule be_nat_be_bytes) (simp add: iterations_def)
  then show ?thesis by (simp add: VerifyKey_def demo_hash_def iterations_def Let_def)
qed

lemma demo_published:
  "\<exists>g'. edgeAuth demo_edge_lib demo_edge_api demo_gateway_env (Some demo_publish) (demo_gateway demo_edge_db) = (204, g')"
  using demo_key_verifies
  by (simp add: edgeAuth_def edge_admit_def edge_publish_def demo_edge_lib_def demo_edge_api_def demo_gateway_env_def demo_publish_def demo_gateway_def
      Enter_def allow_def demo_lib_def read_claims_def GetStream_def demo_edge_db_def demo_stream_def)

theorem edge_admits_only_authorized_witness:
  "\<exists>g'. edgeAuth demo_edge_lib demo_edge_api demo_gateway_env (Some demo_publish) (demo_gateway demo_edge_db) = (204, g') \<and>
     publisher_admitted demo_edge_lib demo_edge_api demo_gateway_env demo_publish demo_edge_db (gw_db g')"
proof -
  obtain g' where g': "edgeAuth demo_edge_lib demo_edge_api demo_gateway_env (Some demo_publish) (demo_gateway demo_edge_db) = (204, g')"
    using demo_published by blast
  then show ?thesis
    using edge_admits_only_authorized [OF g'] by (auto simp: demo_publish_def reader_admitted_def demo_gateway_def)
qed

definition demo_control :: "unit control_env" where
  "demo_control = demo_env\<lparr>ctl_codecs := demo_codecs, ctl_ReadKey := replicate 32 CHR ''k''\<rparr>"

definition demo_allocation_in :: "allocation_state \<Rightarrow> nat \<Rightarrow> db" where
  "demo_allocation_in st n = demo_edge_db\<lparr>allocations := [demo_allocation\<lparr>wa_state := st, wa_desired_generation := n\<rparr>]\<rparr>"

theorem read_token_fenced_by_generation_witness:
  "\<exists>token. map_of (start_files demo_control (demo_ticks []) ''s'' ''a'' 1 []) ''source_token'' = Some token
    \<and> fst (edgeAuth demo_edge_lib demo_edge_api demo_gateway_env (Some (read_request ''s'' token)) (demo_gateway (demo_allocation_in AllocRunning 1))) = 204
    \<and> fst (edgeAuth demo_edge_lib demo_edge_api demo_gateway_env (Some (read_request ''s'' token)) (demo_gateway (demo_allocation_in AllocFailed 1))) = 403
    \<and> fst (edgeAuth demo_edge_lib demo_edge_api demo_gateway_env (Some (read_request ''s'' token))
         (demo_gateway (commit_start 0 ''a'' 2 [] 1 0 demo_edge_db))) = 403"
proof -
  obtain token where t: "map_of (start_files demo_control (demo_ticks []) ''s'' ''a'' 1 []) ''source_token'' = Some token"
    by (auto simp: start_files_def update_conv')
  have laws: "\<And>x. b64_decode (ctl_codecs demo_control) (b64_encode (ctl_codecs demo_control) x) = Some x"
    "\<And>x. CHR ''.'' \<notin> set (b64_encode (ctl_codecs demo_control) x)"
    using demo_unhex_hex demo_hex_no_dot by (simp_all add: demo_control_def demo_codecs_def)
  let ?ask = "\<lambda>d. fst (edgeAuth demo_edge_lib demo_edge_api demo_gateway_env (Some (read_request ''s'' token)) (demo_gateway d))"
  note claim = read_token_fenced_by_generation [of demo_control demo_claims "''s''" "''a''" 1 demo_edge_lib demo_edge_api "demo_ticks []" "[]" token
        demo_gateway_env "demo_gateway d" 0 2 "[]" 1 0 demo_edge_db for d, OF laws]
  have "?ask (demo_allocation_in st 1) = (if st \<noteq> AllocStopped \<and> st \<noteq> AllocFailed then 204 else 403)" for st
    using claim [of "demo_allocation_in st 1"] t
    by (simp add: demo_control_def demo_codecs_def demo_claims_def demo_edge_lib_def demo_edge_api_def demo_gateway_def demo_gateway_env_def
        demo_env_def Enter_def allow_def demo_allocation_in_def demo_edge_db_def demo_allocation_def demo_session_def demo_stream_def
        session_active_def active_phase_def)
  moreover have "?ask (commit_start 0 ''a'' 2 [] 1 0 demo_edge_db) = 403"
    using claim [of "commit_start 0 ''a'' 2 [] 1 0 demo_edge_db"] t
    by (simp add: demo_control_def demo_codecs_def demo_claims_def demo_edge_lib_def demo_edge_api_def demo_gateway_def demo_gateway_env_def
        demo_env_def Enter_def allow_def)
  ultimately show ?thesis using t by auto
qed

end
