(* ===== verification/Output_Settings.thy ===== *)
theory Output_Settings
  imports Envelope_Crypto Net_Policy Session_Store
begin

text \<open>
  The outputs of a source as the owner edits them, \<^verbatim>\<open>backend/internal/application/outputs.go\<close>, and their creation by the operator
  (\<^verbatim>\<open>createDestination\<close> of \<^verbatim>\<open>api.go\<close>, \<^verbatim>\<open>CreateDestination\<close> of \<^verbatim>\<open>persistence/store.go\<close>). Every request is one transaction on the table of
  destinations, with the constraints of the schema: identifiers are unique, the names of the outputs of a source that are not archived
  are unique, and there are at most eight of them. The secret of an output is sealed for its source and name. The key provider
  keeps what it learned when a transaction is rolled back.
\<close>

section \<open>State, requests and answers\<close>

record 's settings =
  sg_db :: db
  sg_keys :: 's
  sg_audit :: "(string \<times> string \<times> string) list"

record output_input =
  oi_Name :: string
  oi_Endpoint :: string
  oi_Secret :: string
  oi_Enabled :: bool
  oi_Generation :: int

datatype output_answer = OutputStatus int | OutputCreated string | OutputList "destination_row list"

text \<open>
  The surroundings of a request: the policy for endpoints with its library, the provider of keys (which may be missing), the worlds that
  its calls see, random bytes, a fresh identifier, the clock, and which statement the database fails.
\<close>

record ('e, 's) output_env =
  ov_validate :: "string \<Rightarrow> policy_error + string"
  ov_aead :: aead
  ov_Keys :: "('e, 's) KeyProvider option"
  ov_worlds :: "nat \<Rightarrow> 'e"
  ov_random :: string
  ov_uuid :: string
  ov_now :: time
  ov_fault :: "nat \<Rightarrow> bool"

text \<open>\<open>utf8.RuneCountInString\<close> on the valid texts that the JSON decoder yields.\<close>

definition RuneCount :: "string \<Rightarrow> nat" where
  "RuneCount s = length (filter (\<lambda>c. \<not> (128 \<le> (of_char c :: nat) \<and> (of_char c :: nat) < 192)) s)"

definition row_envelope :: "destination_row \<Rightarrow> Envelope" where
  "row_envelope r = \<lparr>en_KeyID = de_key r, en_Nonce = de_nonce r, en_Ciphertext = de_ciphertext r\<rparr>"

definition output_aad :: "string \<Rightarrow> string \<Rightarrow> string" where
  "output_aad stream name = stream @ '':'' @ name"

section \<open>Statements\<close>

definition live_output :: "string \<Rightarrow> destination_row \<Rightarrow> bool" where
  "live_output stream r \<longleftrightarrow> de_stream r = stream \<and> \<not> de_archived r"

text \<open>In the order of the insertion, which is the order of \<open>created_at\<close>; rows of the same millisecond are further ordered by
  their identifier, which the model leaves out.\<close>

definition list_outputs :: "string \<Rightarrow> db \<Rightarrow> destination_row list" where
  "list_outputs stream d = filter (live_output stream) (destinations d)"

definition find_output :: "string \<Rightarrow> string \<Rightarrow> db \<Rightarrow> destination_row option" where
  "find_output stream i d = find (\<lambda>r. de_id r = i \<and> live_output stream r) (destinations d)"

text \<open>The insertion with the constraints of the schema.\<close>

definition insert_destination :: "destination_row \<Rightarrow> db \<Rightarrow> db option" where
  "insert_destination r d =
     (if \<not> list_ex (\<lambda>s. st_id s = de_stream r) (streams d) \<or> list_ex (\<lambda>q. de_id q = de_id r) (destinations d)
       \<or> list_ex (\<lambda>q. live_output (de_stream r) q \<and> de_name q = de_name r) (destinations d)
       \<or> 8 \<le> count_where (live_output (de_stream r)) (destinations d)
      then None else Some (d\<lparr>destinations := destinations d @ [r]\<rparr>))"

definition new_output :: "string \<Rightarrow> time \<Rightarrow> string \<Rightarrow> string \<Rightarrow> string \<Rightarrow> bool \<Rightarrow> Envelope \<Rightarrow> destination_row" where
  "new_output uuid now stream name endpoint enabled e =
     \<lparr>de_id = uuid, de_stream = stream, de_name = name, de_endpoint = endpoint, de_key = en_KeyID e, de_enabled = enabled, de_archived = False,
      de_generation = 1, de_ciphertext = en_Ciphertext e, de_nonce = en_Nonce e, de_updated = now\<rparr>"

text \<open>The update of an output; the index on the names can refuse it.\<close>

definition update_output :: "string \<Rightarrow> time \<Rightarrow> output_input \<Rightarrow> Envelope \<Rightarrow> destination_row \<Rightarrow> db \<Rightarrow> db option" where
  "update_output stream now x e r d =
     (if list_ex (\<lambda>q. live_output stream q \<and> de_id q \<noteq> de_id r \<and> de_name q = oi_Name x) (destinations d) then None
      else Some (d\<lparr>destinations := update_where (\<lambda>q. de_id q = de_id r)
        (\<lambda>q. q\<lparr>de_name := oi_Name x, de_endpoint := oi_Endpoint x, de_enabled := oi_Enabled x, de_ciphertext := en_Ciphertext e,
              de_nonce := en_Nonce e, de_key := en_KeyID e, de_generation := de_generation q + 1, de_updated := now\<rparr>) (destinations d)\<rparr>))"

definition archive_output :: "time \<Rightarrow> string \<Rightarrow> db \<Rightarrow> db" where
  "archive_output now i d = d\<lparr>destinations := update_where (\<lambda>q. de_id q = i)
     (\<lambda>q. q\<lparr>de_archived := True, de_enabled := False, de_ciphertext := [], de_nonce := [], de_generation := de_generation q + 1, de_updated := now\<rparr>)
     (destinations d)\<rparr>"

definition bump_output :: "time \<Rightarrow> string \<Rightarrow> db \<Rightarrow> db" where
  "bump_output now i d = d\<lparr>destinations := update_where (\<lambda>q. de_id q = i)
     (\<lambda>q. q\<lparr>de_generation := de_generation q + 1, de_updated := now\<rparr>) (destinations d)\<rparr>"

section \<open>The handler\<close>

definition check_output :: "('e, 's) output_env \<Rightarrow> bool \<Rightarrow> output_input \<Rightarrow> int + output_input" where
  "check_output v creating x =
     (let name = TrimSpace (oi_Name x); endpoint = TrimSpace (oi_Endpoint x) in
      if name = [] \<or> RuneCount name > 140 \<or> length endpoint > 2048 \<or> length (oi_Secret x) > 4096
        \<or> CHR 0x0D \<in> set (oi_Secret x) \<or> CHR 0x0A \<in> set (oi_Secret x) \<or> Contains endpoint ''?'' \<or> creating \<and> oi_Secret x = []
      then Inl 400
      else case ov_validate v endpoint of
          Inl _ \<Rightarrow> Inl 422
        | Inr normalized \<Rightarrow> Inr (x\<lparr>oi_Name := name, oi_Endpoint := normalized\<rparr>))"

text \<open>The envelope to store: \<open>None\<close> for the answer 503. Without a new secret a renamed output is opened under its old name first.\<close>

definition seal_output :: "('e, 's) output_env \<Rightarrow> string \<Rightarrow> bool \<Rightarrow> output_input \<Rightarrow> destination_row \<Rightarrow> 's \<Rightarrow> Envelope option \<times> 's" where
  "seal_output v stream creating x r s =
     (if oi_Secret x \<noteq> [] \<or> \<not> creating \<and> oi_Name x \<noteq> de_name r
      then (case ov_Keys v of
              None \<Rightarrow> (None, s)
            | Some p \<Rightarrow>
                (case (if oi_Secret x = [] then Decrypt (ov_aead v) p (ov_worlds v 0) (row_envelope r) (output_aad stream (de_name r)) s
                       else (Inr (oi_Secret x), s)) of
                   (Inl _, s1) \<Rightarrow> (None, s1)
                 | (Inr secret, s1) \<Rightarrow>
                     (case Encrypt (ov_aead v) p (ov_worlds v 1) (ov_worlds v 2) (ov_random v) secret (output_aad stream (oi_Name x)) s1 of
                        (Inl _, s2) \<Rightarrow> (None, s2)
                      | (Inr e, s2) \<Rightarrow> (Some e, s2))))
      else (Some (row_envelope r), s))"

text \<open>The end of the transaction: the audit record and the commit, which the database can fail.\<close>

definition finish_output :: "('e, 's) output_env \<Rightarrow> string \<Rightarrow> string \<Rightarrow> string \<Rightarrow> output_answer \<Rightarrow> db \<Rightarrow> 's settings \<Rightarrow> output_answer \<times> 's settings" where
  "finish_output v account action i answer d s =
     (if ov_fault v 3 \<or> ov_fault v 4 then (OutputStatus 503, s)
      else (answer, s\<lparr>sg_db := d, sg_audit := sg_audit s @ [(account, action, i)]\<rparr>))"

definition save_output ::
  "('e, 's) output_env \<Rightarrow> string \<Rightarrow> string \<Rightarrow> bool \<Rightarrow> output_input \<Rightarrow> destination_row \<Rightarrow> 's settings \<Rightarrow> output_answer \<times> 's settings" where
  "save_output v account stream creating x r s =
     (case seal_output v stream creating x r (sg_keys s) of
        (None, k) \<Rightarrow> (OutputStatus 503, s\<lparr>sg_keys := k\<rparr>)
      | (Some e, k) \<Rightarrow>
          (let s1 = s\<lparr>sg_keys := k\<rparr> in
           if ov_fault v 2 then (OutputStatus 503, s1)
           else if creating then
             (case insert_destination (new_output (ov_uuid v) (ov_now v) stream (oi_Name x) (oi_Endpoint x) (oi_Enabled x) e) (sg_db s1) of
                None \<Rightarrow> (OutputStatus 409, s1)
              | Some d \<Rightarrow> finish_output v account ''CREATE_OUTPUT'' (ov_uuid v) (OutputCreated (ov_uuid v)) d s1)
           else
             (case update_output stream (ov_now v) x e r (sg_db s1) of
                None \<Rightarrow> (OutputStatus 409, s1)
              | Some d \<Rightarrow> finish_output v account ''UPDATE_OUTPUT'' (de_id r) (OutputStatus 204) d s1)))"

text \<open>The row that a request is about; a creation has none, all its variables are zero.\<close>

definition no_output :: destination_row where
  "no_output = \<lparr>de_id = [], de_stream = [], de_name = [], de_endpoint = [], de_key = [], de_enabled = False, de_archived = False,
     de_generation = 0, de_ciphertext = [], de_nonce = [], de_updated = 0\<rparr>"

definition change_output ::
  "('e, 's) output_env \<Rightarrow> string \<Rightarrow> string \<Rightarrow> string \<Rightarrow> bool \<Rightarrow> output_input option \<Rightarrow> destination_row \<Rightarrow> 's settings \<Rightarrow> output_answer \<times> 's settings" where
  "change_output v account stream meth creating input r s =
     (case input of
        None \<Rightarrow> (OutputStatus 400, s)
      | Some x0 \<Rightarrow>
          (case (if creating \<or> meth = ''PUT'' then check_output v creating x0 else Inr x0) of
             Inl status \<Rightarrow> (OutputStatus status, s)
           | Inr x \<Rightarrow>
               if oi_Generation x \<noteq> de_generation r then (OutputStatus 409, s)
               else if creating \<or> meth = ''PUT'' then save_output v account stream creating x r s
               else if meth = ''DELETE'' then
                 (if ov_fault v 2 then (OutputStatus 503, s)
                  else finish_output v account ''DELETE_OUTPUT'' (de_id r) (OutputStatus 204) (archive_output (ov_now v) (de_id r) (sg_db s)) s)
               else if \<not> de_enabled r then (OutputStatus 409, s)
               else if ov_fault v 2 then (OutputStatus 503, s)
               else finish_output v account ''RETRY_OUTPUT'' (de_id r) (OutputStatus 204) (bump_output (ov_now v) (de_id r) (sg_db s)) s))"

definition userOutput ::
  "('e, 's) output_env \<Rightarrow> string \<Rightarrow> string \<Rightarrow> string \<Rightarrow> string \<Rightarrow> output_input option \<Rightarrow> 's settings \<Rightarrow> output_answer \<times> 's settings" where
  "userOutput v account stream meth actionName input s =
     (let parts = Split CHR ''/'' actionName; collection = actionName = ''outputs'';
          idPath = (if 2 \<le> length parts then parts ! 1 else []); retry = (length parts = 3 \<and> parts ! 2 = ''retry'');
          creating = (collection \<and> meth = ''POST'') in
      if collection \<and> meth = ''GET''
      then (if ov_fault v 0 then (OutputStatus 503, s) else (OutputList (list_outputs stream (sg_db s)), s))
      else if \<not> (creating \<or> length parts = 2 \<and> idPath \<noteq> [] \<and> (meth = ''PUT'' \<or> meth = ''DELETE'') \<or> retry \<and> idPath \<noteq> [] \<and> meth = ''POST'')
      then (OutputStatus 405, s)
      else if ov_fault v 0 then (OutputStatus 503, s)
      else if creating then change_output v account stream meth True input no_output s
      else if ov_fault v 1 then (OutputStatus 503, s)
      else (case find_output stream idPath (sg_db s) of
              None \<Rightarrow> (OutputStatus 404, s)
            | Some r \<Rightarrow> change_output v account stream meth False input r s))"

section \<open>Creation by the operator\<close>

definition CreateDestination :: "string \<Rightarrow> time \<Rightarrow> string \<Rightarrow> string \<Rightarrow> string \<Rightarrow> Envelope \<Rightarrow> db \<Rightarrow> (store_error + destination_row) \<times> db" where
  "CreateDestination uuid now stream name endpoint e d =
     (let r = new_output uuid now stream name endpoint True e in
      case insert_destination r d of None \<Rightarrow> (Inl Constraint, d) | Some d' \<Rightarrow> (Inr r, d'))"

text \<open>An operator's request needs keys: without a provider the handler panics, which answers 500.\<close>

definition createDestination ::
  "('e, 's) output_env \<Rightarrow> string \<Rightarrow> (string \<times> string \<times> string) option \<Rightarrow> 's settings \<Rightarrow> output_answer \<times> 's settings" where
  "createDestination v stream input s =
     (case input of
        None \<Rightarrow> (OutputStatus 400, s)
      | Some (name, endpoint, secret) \<Rightarrow>
          if name = [] \<or> secret = [] then (OutputStatus 400, s)
          else (case ov_validate v endpoint of
                  Inl _ \<Rightarrow> (OutputStatus 422, s)
                | Inr normalized \<Rightarrow>
                    (case ov_Keys v of
                       None \<Rightarrow> (OutputStatus 500, s)
                     | Some p \<Rightarrow>
                         (case Encrypt (ov_aead v) p (ov_worlds v 1) (ov_worlds v 2) (ov_random v) secret (output_aad stream name) (sg_keys s) of
                            (Inl _, k) \<Rightarrow> (OutputStatus 500, s\<lparr>sg_keys := k\<rparr>)
                          | (Inr e, k) \<Rightarrow>
                              (case CreateDestination (ov_uuid v) (ov_now v) stream name normalized e (sg_db s) of
                                 (Inl _, d) \<Rightarrow> (OutputStatus 409, s\<lparr>sg_keys := k\<rparr>)
                               | (Inr r, d) \<Rightarrow> (OutputCreated (de_id r), s\<lparr>sg_db := d, sg_keys := k\<rparr>))))))"

section \<open>What a request does to the table\<close>

inductive output_step :: "string \<Rightarrow> db \<Rightarrow> db \<Rightarrow> bool" for stream where
  inserted: "insert_destination r d = Some d' \<Longrightarrow> de_stream r = stream \<Longrightarrow> \<not> de_archived r \<Longrightarrow> output_step stream d d'"
| updated: "find_output stream i d = Some r \<Longrightarrow> update_output stream now x e r d = Some d' \<Longrightarrow> output_step stream d d'"
| archived: "find_output stream i d = Some r \<Longrightarrow> output_step stream d (archive_output now (de_id r) d)"
| bumped: "find_output stream i d = Some r \<Longrightarrow> output_step stream d (bump_output now (de_id r) d)"

lemma find_output_Some:
  "find_output stream i d = Some r \<Longrightarrow> r \<in> set (destinations d) \<and> de_id r = i \<and> live_output stream r"
  by (auto simp: find_output_def find_Some_iff)

lemma finish_output_db:
  "finish_output v account action i answer d s = (a, s') \<Longrightarrow> s' = s \<and> a = OutputStatus 503 \<or> sg_db s' = d \<and> a = answer"
  by (auto simp: finish_output_def split: if_splits)

lemma save_output_cases:
  assumes "save_output v account stream creating x r s = (a, s')"
  obtains (failed) "sg_db s' = sg_db s" "a = OutputStatus 503 \<or> a = OutputStatus 409"
  | (created) e where "creating" "fst (seal_output v stream creating x r (sg_keys s)) = Some e" "a = OutputCreated (ov_uuid v)"
      "insert_destination (new_output (ov_uuid v) (ov_now v) stream (oi_Name x) (oi_Endpoint x) (oi_Enabled x) e) (sg_db s) = Some (sg_db s')"
      "sg_keys s' = snd (seal_output v stream creating x r (sg_keys s))"
  | (saved) e where "\<not> creating" "fst (seal_output v stream creating x r (sg_keys s)) = Some e" "a = OutputStatus 204"
      "update_output stream (ov_now v) x e r (sg_db s) = Some (sg_db s')"
      "sg_keys s' = snd (seal_output v stream creating x r (sg_keys s))"
proof (cases "seal_output v stream creating x r (sg_keys s)")
  case (Pair oe k)
  show ?thesis
  proof (cases oe)
    case None
    then show ?thesis using assms Pair failed by (auto simp: save_output_def)
  next
    case (Some e)
    show ?thesis
    proof (cases creating)
      case True
      then show ?thesis
        using assms Pair Some failed created by (auto simp: save_output_def finish_output_def Let_def split: if_splits option.splits)
    next
      case False
      then show ?thesis
        using assms Pair Some failed saved by (auto simp: save_output_def finish_output_def Let_def split: if_splits option.splits)
    qed
  qed
qed

text \<open>A request that is not a creation changes the table only when it carries the generation of the row.\<close>

lemma change_output_item:
  assumes "change_output v account stream meth False input r s = (a, s')" "find_output stream i (sg_db s) = Some r"
  shows "sg_db s' = sg_db s \<and> a \<noteq> OutputStatus 204 \<or>
    a = OutputStatus 204 \<and> (\<exists>x. input = Some x \<and> oi_Generation x = de_generation r) \<and>
    ((\<exists>x e. update_output stream (ov_now v) x e r (sg_db s) = Some (sg_db s')) \<or> sg_db s' = archive_output (ov_now v) (de_id r) (sg_db s)
      \<or> sg_db s' = bump_output (ov_now v) (de_id r) (sg_db s))"
proof (cases input)
  case None
  then show ?thesis using assms(1) by (auto simp: change_output_def)
next
  case (Some x0)
  show ?thesis
  proof (cases "meth = ''PUT''")
    case put: True
    show ?thesis
    proof (cases "check_output v False x0")
      case (Inl st)
      then have "st \<noteq> 204" by (auto simp: check_output_def Let_def split: if_splits sum.splits)
      then show ?thesis using assms(1) Some put Inl by (auto simp: change_output_def)
    next
      case (Inr x)
      then have gen: "oi_Generation x = oi_Generation x0" by (auto simp: check_output_def Let_def split: if_splits sum.splits)
      show ?thesis
      proof (cases "oi_Generation x = de_generation r")
        case True
        then have "save_output v account stream False x r s = (a, s')" using assms(1) Some put Inr by (auto simp: change_output_def)
        then show ?thesis by (rule save_output_cases) (use True gen Some in auto)
      qed (use assms(1) Some put Inr in \<open>auto simp: change_output_def\<close>)
    qed
  next
    case False
    then show ?thesis
      using assms(1) Some by (auto simp: change_output_def finish_output_def split: if_splits)
  qed
qed

fun refused :: "output_answer \<Rightarrow> bool" where
  "refused (OutputStatus status) \<longleftrightarrow> status \<noteq> 204"
| "refused _ \<longleftrightarrow> False"

lemma change_output_new:
  assumes "change_output v account stream meth True input no_output s = (a, s')"
  shows "sg_db s' = sg_db s \<and> refused a \<or>
    (\<exists>x x0 e. input = Some x0 \<and> check_output v True x0 = Inr x \<and> a = OutputCreated (ov_uuid v)
       \<and> fst (seal_output v stream True x no_output (sg_keys s)) = Some e
       \<and> insert_destination (new_output (ov_uuid v) (ov_now v) stream (oi_Name x) (oi_Endpoint x) (oi_Enabled x) e) (sg_db s) = Some (sg_db s')
       \<and> sg_keys s' = snd (seal_output v stream True x no_output (sg_keys s)))"
proof (cases input)
  case None
  then show ?thesis using assms by (auto simp: change_output_def)
next
  case (Some x0)
  show ?thesis
  proof (cases "check_output v True x0")
    case (Inl st)
    then have "st \<noteq> 204" by (auto simp: check_output_def Let_def split: if_splits sum.splits)
    then show ?thesis using assms Some Inl by (auto simp: change_output_def)
  next
    case (Inr x)
    show ?thesis
    proof (cases "oi_Generation x = de_generation no_output")
      case True
      then have "save_output v account stream True x no_output s = (a, s')" using assms Some Inr by (auto simp: change_output_def)
      then show ?thesis
      proof (cases rule: save_output_cases)
        case failed
        then show ?thesis by auto
      next
        case (created e)
        then show ?thesis using Some Inr by blast
      qed simp
    qed (use assms Some Inr in \<open>auto simp: change_output_def\<close>)
  qed
qed

text \<open>The output that the path of a request names.\<close>

definition path_id :: "string \<Rightarrow> string" where
  "path_id actionName = (let parts = Split CHR ''/'' actionName in if 2 \<le> length parts then parts ! 1 else [])"

lemma userOutput_cases:
  assumes "userOutput v account stream meth actionName input s = (a, s')"
  obtains (same) "sg_db s' = sg_db s" "a \<noteq> OutputStatus 204" "\<And>i. a \<noteq> OutputCreated i"
  | (new) "actionName = ''outputs''" "change_output v account stream meth True input no_output s = (a, s')"
  | (item) r where "actionName \<noteq> ''outputs''" "find_output stream (path_id actionName) (sg_db s) = Some r"
      "change_output v account stream meth False input r s = (a, s')"
proof (cases "actionName = ''outputs'' \<and> meth = ''POST''")
  case True
  then show ?thesis using assms same new by (auto simp: userOutput_def Let_def split: if_splits)
next
  case False
  show ?thesis
  proof (cases "actionName = ''outputs''")
    case True
    then show ?thesis using assms False same by (auto simp: userOutput_def Let_def split: if_splits)
  next
    case other: False
    show ?thesis
    proof (cases "find_output stream (path_id actionName) (sg_db s)")
      case None
      then show ?thesis using assms other same by (auto simp: userOutput_def path_id_def Let_def split: if_splits)
    next
      case (Some r)
      then show ?thesis using assms other same item by (auto simp: userOutput_def path_id_def Let_def split: if_splits)
    qed
  qed
qed

lemma userOutput_step:
  assumes "userOutput v account stream meth actionName input s = (a, s')"
  shows "sg_db s' = sg_db s \<or> output_step stream (sg_db s) (sg_db s')"
  using assms
proof (cases rule: userOutput_cases)
  case new
  from change_output_new [OF this(2)] show ?thesis by (auto simp: new_output_def intro: output_step.inserted)
next
  case (item r)
  from change_output_item [OF item(3,2)] item(2) show ?thesis
    by (auto intro: output_step.updated output_step.archived output_step.bumped)
qed simp

section \<open>Quota and names\<close>

definition outputs_ok :: "db \<Rightarrow> bool" where
  "outputs_ok d \<longleftrightarrow> distinct (map de_id (destinations d)) \<and> (\<forall>stream. count_where (live_output stream) (destinations d) \<le> 8)
     \<and> (\<forall>stream. \<forall>q \<in> set (destinations d). \<forall>r \<in> set (destinations d).
          live_output stream q \<and> live_output stream r \<and> de_name q = de_name r \<longrightarrow> q = r)"

lemma update_where_row:
  assumes "distinct (map k xs)" "r \<in> set xs"
  shows "update_where (\<lambda>q. k q = k r) f xs = map (\<lambda>q. if q = r then f r else q) xs"
  unfolding update_where_def using distinct_map_inj [OF assms(1) _ assms(2)] by (intro map_cong [OF refl]) auto

lemma count_where_map_le: "(\<And>q. P (g q) \<Longrightarrow> P q) \<Longrightarrow> count_where P (map g xs) \<le> count_where P xs"
  by (induction xs) (auto intro: le_SucI)

text \<open>A change of one row that keeps its identifier and its source, does not revive it and gives it a name of its own.\<close>

lemma outputs_ok_update:
  assumes "outputs_ok d" "r \<in> set (destinations d)" "de_id (f r) = de_id r" "de_stream (f r) = de_stream r" "\<not> de_archived (f r) \<Longrightarrow> \<not> de_archived r"
    and "\<And>q. q \<in> set (destinations d) \<Longrightarrow> q \<noteq> r \<Longrightarrow> live_output (de_stream r) q \<Longrightarrow> \<not> de_archived (f r) \<Longrightarrow> de_name q \<noteq> de_name (f r)"
  shows "outputs_ok (d\<lparr>destinations := update_where (\<lambda>q. de_id q = de_id r) f (destinations d)\<rparr>)"
proof -
  let ?g = "\<lambda>q. if q = r then f r else q" and ?xs = "destinations d"
  have d: "distinct (map de_id ?xs)" using assms(1) by (simp add: outputs_ok_def)
  have eq: "update_where (\<lambda>q. de_id q = de_id r) f ?xs = map ?g ?xs" by (rule update_where_row [OF d assms(2)])
  have ids: "map de_id (map ?g ?xs) = map de_id ?xs" using assms(3) by simp
  have live: "live_output st (?g q) \<Longrightarrow> live_output st q" for st q using assms(4,5) by (auto simp: live_output_def split: if_splits)
  have "count_where (live_output st) (map ?g ?xs) \<le> count_where (live_output st) ?xs" for st
    by (rule count_where_map_le [OF live])
  then have count: "count_where (live_output st) (map ?g ?xs) \<le> 8" for st
    using assms(1) unfolding outputs_ok_def by (meson le_trans)
  have clash: False if "q \<in> set ?xs" "q \<noteq> r" "live_output st q" "live_output st (f r)" "de_name q = de_name (f r)" for q st
  proof -
    have "live_output (de_stream r) q" "\<not> de_archived (f r)" using that(3,4) assms(4) by (simp_all add: live_output_def)
    then show False using assms(6) [OF that(1,2)] that(5) by simp
  qed
  have "?g q = ?g q'" if "q \<in> set ?xs" "q' \<in> set ?xs" "live_output st (?g q)" "live_output st (?g q')" "de_name (?g q) = de_name (?g q')" for st q q'
  proof (cases "q = r \<longleftrightarrow> q' = r")
    case True
    then show ?thesis using that assms(1) by (cases "q = r") (auto simp: outputs_ok_def)
  next
    case False
    then show ?thesis using clash [of q st] clash [of q' st] that by (cases "q = r") auto
  qed
  then have names: "\<forall>q \<in> ?g ` set ?xs. \<forall>q' \<in> ?g ` set ?xs. live_output stream q \<and> live_output stream q' \<and> de_name q = de_name q' \<longrightarrow> q = q'" for stream
    by blast
  have "distinct (map de_id (map ?g ?xs))" unfolding ids by (rule d)
  moreover have sel: "destinations (d\<lparr>destinations := xs\<rparr>) = xs" for xs by simp
  ultimately show ?thesis unfolding outputs_ok_def eq sel set_map using count names by (intro conjI allI) assumption
qed

lemma outputs_ok_insert:
  assumes "outputs_ok d" "insert_destination r d = Some d'"
  shows "outputs_ok d'"
proof -
  have new: "d' = d\<lparr>destinations := destinations d @ [r]\<rparr>" "de_id r \<notin> de_id ` set (destinations d)"
    "\<And>q. q \<in> set (destinations d) \<Longrightarrow> live_output (de_stream r) q \<Longrightarrow> de_name q \<noteq> de_name r"
    "count_where (live_output (de_stream r)) (destinations d) < 8"
    using assms(2) by (auto simp: insert_destination_def list_ex_iff split: if_splits)
  have "count_where (live_output st) (destinations d @ [r]) \<le> 8" for st
    using assms(1) new(4) by (cases "st = de_stream r") (auto simp: outputs_ok_def live_output_def)
  moreover have "q = q'" if "q \<in> set (destinations d @ [r])" "q' \<in> set (destinations d @ [r])" "live_output st q" "live_output st q'" "de_name q = de_name q'" for st q q'
    using that new(3) assms(1) by (fastforce simp: outputs_ok_def live_output_def)
  ultimately show ?thesis using assms(1) new(1,2) by (auto simp: outputs_ok_def)
qed

lemma output_step_ok: "output_step stream d d' \<Longrightarrow> outputs_ok d \<Longrightarrow> outputs_ok d'"
proof (induction rule: output_step.induct)
  case (inserted r d d')
  then show ?case using outputs_ok_insert by blast
next
  case (updated i d r now x e d')
  note r = find_output_Some [OF updated(1)]
  have fresh: "de_name q \<noteq> oi_Name x" if "q \<in> set (destinations d)" "q \<noteq> r" "live_output (de_stream r) q" for q
  proof -
    have "de_id q \<noteq> de_id r" using that updated(3) r distinct_map_inj [of de_id "destinations d" q r] by (auto simp: outputs_ok_def)
    then show ?thesis using updated(2) that r by (auto simp: update_output_def list_ex_iff live_output_def split: if_splits)
  qed
  from updated(2) have "d' = d\<lparr>destinations := update_where (\<lambda>q. de_id q = de_id r)
      (\<lambda>q. q\<lparr>de_name := oi_Name x, de_endpoint := oi_Endpoint x, de_enabled := oi_Enabled x, de_ciphertext := en_Ciphertext e,
        de_nonce := en_Nonce e, de_key := en_KeyID e, de_generation := de_generation q + 1, de_updated := now\<rparr>) (destinations d)\<rparr>"
    by (auto simp: update_output_def split: if_splits)
  then show ?case using fresh r updated(3) by (auto intro!: outputs_ok_update)
next
  case (archived i d r now)
  note r = find_output_Some [OF archived(1)]
  show ?case unfolding archive_output_def using r archived(2) by (intro outputs_ok_update) auto
next
  case (bumped i d r now)
  note r = find_output_Some [OF bumped(1)]
  have "de_name q \<noteq> de_name r" if "q \<in> set (destinations d)" "q \<noteq> r" "live_output (de_stream r) q" for q
    using that r bumped(2) unfolding outputs_ok_def live_output_def by metis
  then show ?case unfolding bump_output_def using r bumped(2) by (intro outputs_ok_update) auto
qed

text \<open>Retrying an output through the store changes archived rows too, but neither names nor sources.\<close>

lemma RetryDestination_ok: "outputs_ok d \<Longrightarrow> outputs_ok (snd (RetryDestination now i d))"
proof -
  assume ok: "outputs_ok d"
  let ?f = "\<lambda>r. r\<lparr>de_generation := de_generation r + 1, de_updated := now\<rparr>"
  show ?thesis
  proof (cases "\<exists>r \<in> set (destinations d). de_id r = i")
    case True
    then obtain r where r: "r \<in> set (destinations d)" "i = de_id r" by blast
    then have "count_where (\<lambda>q. de_id q = i) (destinations d) \<noteq> 0" unfolding count_where_0_iff by blast
    then have "snd (RetryDestination now i d) = d\<lparr>destinations := update_where (\<lambda>q. de_id q = de_id r) ?f (destinations d)\<rparr>"
      by (simp add: RetryDestination_def r(2))
    moreover have "de_name q \<noteq> de_name r" if "q \<in> set (destinations d)" "q \<noteq> r" "live_output (de_stream r) q" "\<not> de_archived r" for q
      using that r ok unfolding outputs_ok_def live_output_def by metis
    ultimately show ?thesis using outputs_ok_update [OF ok r(1), of ?f] by simp
  next
    case False
    then have "count_where (\<lambda>q. de_id q = i) (destinations d) = 0" unfolding count_where_0_iff by blast
    then show ?thesis using ok by (simp add: RetryDestination_def)
  qed
qed

lemma createDestination_step:
  "createDestination v stream input s = (a, s') \<Longrightarrow> sg_db s' = sg_db s \<or> output_step stream (sg_db s) (sg_db s')"
  by (auto simp: createDestination_def CreateDestination_def Let_def new_output_def split: option.splits prod.splits if_splits sum.splits
      intro!: output_step.inserted)

inductive output_reach :: "('e, 's) KeyProvider option \<Rightarrow> 's settings \<Rightarrow> bool" for P where
  start: "destinations (sg_db s) = [] \<Longrightarrow> output_reach P s"
| edit: "output_reach P s \<Longrightarrow> ov_Keys v = P \<Longrightarrow> userOutput v account stream meth actionName input s = (a, s') \<Longrightarrow> output_reach P s'"
| operator: "output_reach P s \<Longrightarrow> ov_Keys v = P \<Longrightarrow> createDestination v stream input s = (a, s') \<Longrightarrow> output_reach P s'"
| retry: "output_reach P s \<Longrightarrow> RetryDestination now i (sg_db s) = (e, d) \<Longrightarrow> output_reach P (s\<lparr>sg_db := d\<rparr>)"
| other: "output_reach P s \<Longrightarrow> destinations (sg_db s') = destinations (sg_db s) \<Longrightarrow> output_reach P s'"

lemma output_reach_ok: "output_reach P s \<Longrightarrow> outputs_ok (sg_db s)"
proof (induction rule: output_reach.induct)
  case (edit s v account stream meth actionName input a s')
  then show ?case using userOutput_step output_step_ok by metis
next
  case (operator s v stream input a s')
  then show ?case using createDestination_step output_step_ok by metis
next
  case (retry s now i e d)
  then show ?case using RetryDestination_ok [of "sg_db s" now i] by simp
next
  case (other s s')
  from other(3) show ?case unfolding outputs_ok_def other(2) .
qed (simp add: outputs_ok_def)

text \<open>a source never has more than eight outputs that are not archived, and no two of them have the same name, whatever requests the
  owner and the operator send.\<close>

lemma outputs_stay_within_quota:
  assumes "output_reach P s"
  shows "length (list_outputs stream (sg_db s)) \<le> 8 \<and> distinct (map de_name (list_outputs stream (sg_db s)))"
proof -
  have ok: "outputs_ok (sg_db s)" by (rule output_reach_ok [OF assms])
  have "distinct (map de_name (filter (live_output stream) (destinations (sg_db s))))"
    unfolding distinct_map inj_on_def using ok distinct_map [of de_id "destinations (sg_db s)"] by (auto simp: outputs_ok_def)
  then show ?thesis using ok by (simp add: outputs_ok_def list_outputs_def count_where_def)
qed

section \<open>Concurrent edits\<close>

lemma update_output_rows:
  "update_output stream now x e r d = Some d' \<Longrightarrow> destinations d' = update_where (\<lambda>q. de_id q = de_id r)
     (\<lambda>q. q\<lparr>de_name := oi_Name x, de_endpoint := oi_Endpoint x, de_enabled := oi_Enabled x, de_ciphertext := en_Ciphertext e,
        de_nonce := en_Nonce e, de_key := en_KeyID e, de_generation := de_generation q + 1, de_updated := now\<rparr>) (destinations d)"
  by (auto simp: update_output_def split: if_splits)

text \<open>A successful edit replaces one row by one with the next generation.\<close>

lemma edit_replaces_row:
  assumes "outputs_ok (sg_db s)" "find_output stream i (sg_db s) = Some r" "change_output v account stream meth False input r s = (OutputStatus 204, s')"
  shows "\<exists>r'. destinations (sg_db s') = map (\<lambda>q. if q = r then r' else q) (destinations (sg_db s)) \<and> de_id r' = de_id r
    \<and> de_stream r' = de_stream r \<and> de_generation r' = de_generation r + 1"
proof -
  note r = find_output_Some [OF assms(2)]
  have one: "update_where (\<lambda>q. de_id q = de_id r) f (destinations (sg_db s)) = map (\<lambda>q. if q = r then f r else q) (destinations (sg_db s))" for f
    using assms(1) r by (intro update_where_row) (auto simp: outputs_ok_def)
  from change_output_item [OF assms(3,2)] consider
      (put) x e where "update_output stream (ov_now v) x e r (sg_db s) = Some (sg_db s')"
    | (del) "sg_db s' = archive_output (ov_now v) (de_id r) (sg_db s)"
    | (bump) "sg_db s' = bump_output (ov_now v) (de_id r) (sg_db s)" by auto
  then show ?thesis
  proof cases
    case put
    let ?f = "\<lambda>q. q\<lparr>de_name := oi_Name x, de_endpoint := oi_Endpoint x, de_enabled := oi_Enabled x, de_ciphertext := en_Ciphertext e,
      de_nonce := en_Nonce e, de_key := en_KeyID e, de_generation := de_generation q + 1, de_updated := ov_now v\<rparr>"
    have "destinations (sg_db s') = update_where (\<lambda>q. de_id q = de_id r) ?f (destinations (sg_db s))"
      by (rule update_output_rows [OF put])
    then show ?thesis unfolding one by (intro exI [of _ "?f r"]) simp
  next
    case del
    let ?f = "\<lambda>q. q\<lparr>de_archived := True, de_enabled := False, de_ciphertext := [], de_nonce := [], de_generation := de_generation q + 1,
      de_updated := ov_now v\<rparr>"
    have "destinations (sg_db s') = update_where (\<lambda>q. de_id q = de_id r) ?f (destinations (sg_db s))" by (simp add: del archive_output_def)
    then show ?thesis unfolding one by (intro exI [of _ "?f r"]) simp
  next
    case bump
    let ?f = "\<lambda>q. q\<lparr>de_generation := de_generation q + 1, de_updated := ov_now v\<rparr>"
    have "destinations (sg_db s') = update_where (\<lambda>q. de_id q = de_id r) ?f (destinations (sg_db s))" by (simp add: bump bump_output_def)
    then show ?thesis unfolding one by (intro exI [of _ "?f r"]) simp
  qed
qed

lemma userOutput_204:
  assumes "userOutput v account stream meth act input s = (OutputStatus 204, s')"
  shows "\<exists>r. find_output stream (path_id act) (sg_db s) = Some r \<and> change_output v account stream meth False input r s = (OutputStatus 204, s')"
  using assms
proof (cases rule: userOutput_cases)
  case new
  from change_output_new [OF new(2)] show ?thesis by auto
qed auto

text \<open>C24: an edit of an output that succeeds carries the generation that the row had, changes that row only and gives it the next
  generation; a second request that was prepared from the same generation changes nothing, so no edit is lost.\<close>

theorem output_edits_never_lost:
  assumes "outputs_ok (sg_db s)" "userOutput v account stream meth act (Some x) s = (OutputStatus 204, s')"
    and "path_id act' = path_id act" "act' \<noteq> ''outputs''" "oi_Generation x' = oi_Generation x"
  shows "(\<exists>r r'. r \<in> set (list_outputs stream (sg_db s)) \<and> de_id r = path_id act \<and> oi_Generation x = de_generation r \<and> de_id r' = de_id r
      \<and> de_stream r' = stream \<and> de_generation r' = de_generation r + 1
      \<and> destinations (sg_db s') = map (\<lambda>q. if q = r then r' else q) (destinations (sg_db s)))
    \<and> sg_db (snd (userOutput v' account' stream meth' act' (Some x') s')) = sg_db s'"
proof -
  from userOutput_204 [OF assms(2)] obtain r where r: "find_output stream (path_id act) (sg_db s) = Some r"
    "change_output v account stream meth False (Some x) r s = (OutputStatus 204, s')" by blast
  note mem = find_output_Some [OF r(1)]
  have gen: "oi_Generation x = de_generation r" using change_output_item [OF r(2,1)] by auto
  from edit_replaces_row [OF assms(1) r] obtain r' where r': "de_id r' = de_id r" "de_stream r' = de_stream r" "de_generation r' = de_generation r + 1"
    "destinations (sg_db s') = map (\<lambda>q. if q = r then r' else q) (destinations (sg_db s))" by blast
  obtain a s'' where second: "userOutput v' account' stream meth' act' (Some x') s' = (a, s'')" by (meson surj_pair)
  have "sg_db s'' = sg_db s'"
  proof (cases rule: userOutput_cases [OF second])
    case (3 q)
    note q = find_output_Some [OF 3(2)]
    have "distinct (map de_id (destinations (sg_db s)))" using assms(1) by (simp add: outputs_ok_def)
    then have "q = r'" using q mem r'(1,4) assms(3) distinct_map_inj [of de_id "destinations (sg_db s)" q r] by (auto split: if_splits)
    then show ?thesis using change_output_item [OF 3(3,2)] r'(3) gen assms(5) by auto
  qed (use assms(4) in auto)
  then show ?thesis using r' gen mem second by (auto simp: list_outputs_def live_output_def)
qed

section \<open>Secrets survive an edit\<close>

context key_provider
begin

lemma seal_output_opens:
  assumes "seal_output v stream creating x r s = (Some e, s1)" "ov_Keys v = Some P" "\<And>i. admissible (ov_worlds v i)" "valid s"
    and "oi_Secret x \<noteq> [] \<or> \<not> creating \<and> oi_Name x \<noteq> de_name r"
    and "\<And>k n p a. ae_open (ov_aead v) k n (ae_seal (ov_aead v) k n p a) a = Some p"
    and "\<forall>c \<in> set cs. admissible (call_world c)" "admissible w" "kp_Key P w (en_KeyID e) (provider_run P cs s1) = (Inr k, s2)"
  shows "fst (Decrypt (ov_aead v) P w e (output_aad stream (oi_Name x)) (provider_run P cs s1)) =
    (if oi_Secret x \<noteq> [] then Inr (oi_Secret x)
     else fst (Decrypt (ov_aead v) P (ov_worlds v 0) (row_envelope r) (output_aad stream (de_name r)) s))"
proof -
  define first where "first = (if oi_Secret x = []
    then Decrypt (ov_aead v) P (ov_worlds v 0) (row_envelope r) (output_aad stream (de_name r)) s else (Inr (oi_Secret x), s))"
  obtain s0 secret where s0: "first = (Inr secret, s0)"
    and enc: "Encrypt (ov_aead v) P (ov_worlds v 1) (ov_worlds v 2) (ov_random v) secret (output_aad stream (oi_Name x)) s0 = (Inr e, s1)"
  proof (cases first)
    case (Pair res s0)
    have "seal_output v stream creating x r s = (case first of (Inl _, s1) \<Rightarrow> (None, s1)
        | (Inr secret, s1) \<Rightarrow>
            (case Encrypt (ov_aead v) P (ov_worlds v 1) (ov_worlds v 2) (ov_random v) secret (output_aad stream (oi_Name x)) s1 of
               (Inl _, s2) \<Rightarrow> (None, s2) | (Inr e, s2) \<Rightarrow> (Some e, s2)))"
      using assms(2,5) by (simp add: seal_output_def first_def)
    then show ?thesis using assms(1) Pair that by (cases res) (auto split: prod.splits sum.splits)
  qed
  have key: "snd (Decrypt A P w e a s) = snd (kp_Key P w (en_KeyID e) s)" for A w e a s
    by (simp add: Decrypt_def split: prod.split sum.split option.split)
  have "valid s0"
  proof (cases "oi_Secret x = []")
    case True
    then have "s0 = snd (kp_Key P (ov_worlds v 0) (en_KeyID (row_envelope r)) s)" using s0 key unfolding first_def by (metis snd_conv)
    then show ?thesis using Key_step [OF assms(3,4)] by blast
  next
    case False
    then show ?thesis using s0 assms(4) by (simp add: first_def)
  qed
  from Decrypt_Encrypt [OF enc this assms(3,3,8,7,9,6)]
  have "fst (Decrypt (ov_aead v) P w e (output_aad stream (oi_Name x)) (provider_run P cs s1)) = Inr secret" by simp
  then show ?thesis using s0 by (auto simp: first_def split: if_splits)
qed

end

lemma userOutput_put:
  assumes "userOutput v account stream ''PUT'' act (Some x0) s = (OutputStatus 204, s')" "outputs_ok (sg_db s)"
    and "find_output stream (path_id act) (sg_db s) = Some r" "find_output stream (path_id act) (sg_db s') = Some r'"
  shows "\<exists>x. oi_Name x = TrimSpace (oi_Name x0) \<and> oi_Secret x = oi_Secret x0 \<and> de_name r' = oi_Name x
    \<and> seal_output v stream False x r (sg_keys s) = (Some (row_envelope r'), sg_keys s')"
proof -
  from userOutput_204 [OF assms(1)] assms(3)
  have c: "change_output v account stream ''PUT'' False (Some x0) r s = (OutputStatus 204, s')" by auto
  then obtain x where x: "check_output v False x0 = Inr x" "save_output v account stream False x r s = (OutputStatus 204, s')"
    by (auto simp: change_output_def check_output_def Let_def split: sum.splits if_splits)
  from x(1) have "oi_Name x = TrimSpace (oi_Name x0)" "oi_Secret x = oi_Secret x0"
    by (auto simp: check_output_def Let_def split: sum.splits if_splits)
  moreover from x(2) obtain e where e: "fst (seal_output v stream False x r (sg_keys s)) = Some e"
    "update_output stream (ov_now v) x e r (sg_db s) = Some (sg_db s')" "sg_keys s' = snd (seal_output v stream False x r (sg_keys s))"
    by (rule save_output_cases) auto
  note r = find_output_Some [OF assms(3)] and r' = find_output_Some [OF assms(4)]
  let ?f = "\<lambda>q. q\<lparr>de_name := oi_Name x, de_endpoint := oi_Endpoint x, de_enabled := oi_Enabled x, de_ciphertext := en_Ciphertext e,
      de_nonce := en_Nonce e, de_key := en_KeyID e, de_generation := de_generation q + 1, de_updated := ov_now v\<rparr>"
  have d: "distinct (map de_id (destinations (sg_db s)))" using assms(2) by (simp add: outputs_ok_def)
  have "destinations (sg_db s') = update_where (\<lambda>q. de_id q = de_id r) ?f (destinations (sg_db s))"
    by (rule update_output_rows [OF e(2)])
  then have "destinations (sg_db s') = map (\<lambda>q. if q = r then ?f r else q) (destinations (sg_db s))"
    using update_where_row [OF d, of r ?f] r by simp
  then have "r' \<in> (\<lambda>q. if q = r then ?f r else q) ` set (destinations (sg_db s))" using r' by auto
  then obtain q where q: "q \<in> set (destinations (sg_db s))" "r' = (if q = r then ?f r else q)" by blast
  have "q = r" using q r r' distinct_map_inj [OF d q(1), of r] by (cases "q = r") auto
  with q have "r' = ?f r" by simp
  then have "de_name r' = oi_Name x" "row_envelope r' = e" by (simp_all add: row_envelope_def)
  ultimately show ?thesis using e(1,3) by (intro exI [of _ x]) (simp add: prod_eq_iff)
qed

text \<open>C23: after the owner changed the secret or the name of an output, the control loop opens the stored secret under the new name: it
  is the new secret, or the old one when the form left it empty, after every later rotation of the keys.\<close>

theorem output_secret_survives_edit:
  assumes "\<And>k n p a. ae_open (ov_aead v) k n (ae_seal (ov_aead v) k n p a) a = Some p"
    and "ov_Keys v = Some (versioned_provider c)" "\<And>i. pinned c mode f (ov_worlds v i)"
    and "versioned_valid mode f (sg_keys s)" "outputs_ok (sg_db s)"
    and "userOutput v account stream ''PUT'' act (Some x) s = (OutputStatus 204, s')"
    and "find_output stream (path_id act) (sg_db s) = Some r" "find_output stream (path_id act) (sg_db s') = Some r'"
    and "oi_Secret x \<noteq> [] \<or> TrimSpace (oi_Name x) \<noteq> de_name r"
    and "\<forall>call \<in> set cs. pinned c mode f (call_world call)" "pinned c mode f w"
    and "Versioned_Key c w (de_key r') (provider_run (versioned_provider c) cs (sg_keys s')) = (Inr k, p)"
  shows "fst (Decrypt (ov_aead v) (versioned_provider c) w (row_envelope r') (output_aad stream (de_name r'))
      (provider_run (versioned_provider c) cs (sg_keys s'))) =
    (if oi_Secret x \<noteq> [] then Inr (oi_Secret x)
     else fst (Decrypt (ov_aead v) (versioned_provider c) (ov_worlds v 0) (row_envelope r) (output_aad stream (de_name r)) (sg_keys s)))"
proof -
  from userOutput_put [OF assms(6,5,7,8)] obtain y where y: "oi_Name y = TrimSpace (oi_Name x)" "oi_Secret y = oi_Secret x" "de_name r' = oi_Name y"
    "seal_output v stream False y r (sg_keys s) = (Some (row_envelope r'), sg_keys s')" by blast
  have key: "kp_Key (versioned_provider c) w (en_KeyID (row_envelope r')) (provider_run (versioned_provider c) cs (sg_keys s')) = (Inr k, p)"
    using assms(12) by (simp add: versioned_provider_def row_envelope_def)
  have "oi_Secret y \<noteq> [] \<or> \<not> False \<and> oi_Name y \<noteq> de_name r" using assms(9) y by simp
  from versioned_kp.seal_output_opens [OF y(4) assms(2,3,4) this assms(1,10,11) key] show ?thesis using y by simp
qed

section \<open>Concrete edits\<close>

definition demo_out_env :: "(unit, LocalProvider) output_env" where
  "demo_out_env = \<lparr>ov_validate = Inr, ov_aead = demo_aead, ov_Keys = Some local_provider, ov_worlds = (\<lambda>_. ()), ov_random = ''0123456789ab'',
     ov_uuid = ''d1'', ov_now = 0, ov_fault = (\<lambda>_. False)\<rparr>"

definition demo_settings :: "LocalProvider settings" where
  "demo_settings = \<lparr>sg_db = demo_db1, sg_keys = \<lparr>lp_ID = ''k1'', lp_Keys = [(''k1'', replicate 32 CHR ''A'')]\<rparr>, sg_audit = []\<rparr>"

definition demo_form :: "string \<Rightarrow> int \<Rightarrow> output_input" where
  "demo_form secret generation = \<lparr>oi_Name = '' out '', oi_Endpoint = ''rtmp://live/app'', oi_Secret = secret, oi_Enabled = True, oi_Generation = generation\<rparr>"

definition demo_created :: "LocalProvider settings" where
  "demo_created = snd (userOutput demo_out_env ''acc'' ''st'' ''POST'' ''outputs'' (Some (demo_form ''key'' 0)) demo_settings)"

definition demo_row :: destination_row where
  "demo_row = \<lparr>de_id = ''d1'', de_stream = ''st'', de_name = ''out'', de_endpoint = ''rtmp://live/app'', de_key = ''k1'', de_enabled = True, de_archived = False,
     de_generation = 1, de_ciphertext = replicate 32 CHR ''A'' @ ''0123456789ab'' @ ''st:out'' @ ''key'', de_nonce = ''0123456789ab'', de_updated = 0\<rparr>"

lemma demo_created_rows: "destinations (sg_db demo_created) = [demo_row]"
  by code_simp

lemma demo_output_reach: "output_reach (Some local_provider) demo_created"
proof -
  have "destinations (sg_db demo_settings) = []" by code_simp
  then have "output_reach (Some local_provider) demo_settings" by (rule output_reach.start)
  moreover have "ov_Keys demo_out_env = Some local_provider" by (simp add: demo_out_env_def)
  ultimately show ?thesis unfolding demo_created_def by (rule output_reach.edit) (rule prod.collapse [symmetric])
qed

lemma outputs_stay_within_quota_witness:
  "length (list_outputs ''st'' (sg_db demo_created)) = 1 \<and> length (list_outputs ''st'' (sg_db demo_created)) \<le> 8
    \<and> distinct (map de_name (list_outputs ''st'' (sg_db demo_created)))"
  using outputs_stay_within_quota [OF demo_output_reach, of "''st''"]
  by (simp add: list_outputs_def demo_created_rows live_output_def demo_row_def)

lemma demo_update: "fst (userOutput demo_out_env ''acc'' ''st'' ''PUT'' ''outputs/d1'' (Some (demo_form [] 1)) demo_created) = OutputStatus 204"
  by code_simp

theorem output_edits_never_lost_witness:
  "let s' = snd (userOutput demo_out_env ''acc'' ''st'' ''PUT'' ''outputs/d1'' (Some (demo_form [] 1)) demo_created) in
     sg_db (snd (userOutput demo_out_env ''acc'' ''st'' ''DELETE'' ''outputs/d1'' (Some (demo_form [] 1)) s')) = sg_db s'"
proof -
  let ?u = "userOutput demo_out_env ''acc'' ''st'' ''PUT'' ''outputs/d1'' (Some (demo_form [] 1)) demo_created"
  have "?u = (OutputStatus 204, snd ?u)" using demo_update by (simp add: prod_eq_iff)
  from output_edits_never_lost [OF output_reach_ok [OF demo_output_reach] this refl, of "demo_form [] 1" demo_out_env "''acc''" "''DELETE''"]
  show ?thesis by (simp add: Let_def)
qed

definition demo_rotating_env :: "(nat \<Rightarrow> key_world, VersionedProvider) output_env" where
  "demo_rotating_env = \<lparr>ov_validate = Inr, ov_aead = demo_aead, ov_Keys = Some (versioned_provider demo_codec),
     ov_worlds = (\<lambda>_. demo_key_world ''before''), ov_random = ''0123456789ab'', ov_uuid = ''d2'', ov_now = 0, ov_fault = (\<lambda>_. False)\<rparr>"

definition demo_rotating :: "VersionedProvider settings" where
  "demo_rotating = \<lparr>sg_db = sg_db demo_created, sg_keys = demo_bound, sg_audit = []\<rparr>"

definition demo_new_row :: destination_row where
  "demo_new_row = demo_row\<lparr>de_generation := 2, de_ciphertext := replicate 32 CHR ''A'' @ ''0123456789ab'' @ ''st:out'' @ ''new''\<rparr>"

lemma demo_rotating_keys:
  "Versioned_CurrentKeyID demo_codec (demo_key_world ''before'') demo_bound = (Inr ''k1'', demo_bound)"
proof -
  have "vp_Mode demo_bound = ''file''" by (simp add: demo_bound_def)
  then show ?thesis using demo_before by (simp add: Versioned_CurrentKeyID_def demo_shift demo_Key_before)
qed

lemma demo_check: "check_output demo_rotating_env False (demo_form ''new'' 1) = Inr ((demo_form ''new'' 1)\<lparr>oi_Name := ''out''\<rparr>)"
proof -
  have "TrimSpace '' out '' = ''out''" "TrimSpace ''rtmp://live/app'' = ''rtmp://live/app''" "RuneCount ''out'' = 3" "\<not> Contains ''rtmp://live/app'' ''?''"
    by code_simp+
  then show ?thesis by (simp add: check_output_def demo_form_def demo_rotating_env_def)
qed

lemma demo_edit:
  "\<exists>s'. userOutput demo_rotating_env ''acc'' ''st'' ''PUT'' ''outputs/d1'' (Some (demo_form ''new'' 1)) demo_rotating = (OutputStatus 204, s')
     \<and> sg_keys s' = demo_bound \<and> find_output ''st'' ''d1'' (sg_db s') = Some demo_new_row"
proof -
  let ?x = "(demo_form ''new'' 1)\<lparr>oi_Name := ''out''\<rparr>"
  have "seal_output demo_rotating_env ''st'' False ?x demo_row demo_bound = (Some (row_envelope demo_new_row), demo_bound)"
    by (simp add: seal_output_def demo_rotating_env_def demo_form_def Encrypt_def versioned_provider_def demo_rotating_keys demo_Key_before
        newAEAD_def NonceSize_def demo_aead_def row_envelope_def demo_new_row_def demo_row_def output_aad_def)
  moreover have "update_output ''st'' 0 ?x (row_envelope demo_new_row) demo_row (sg_db demo_created) =
      Some ((sg_db demo_created)\<lparr>destinations := [demo_new_row]\<rparr>)"
    unfolding update_output_def demo_created_rows by (simp add: demo_form_def demo_row_def demo_new_row_def row_envelope_def)
  moreover have "sg_db demo_rotating = sg_db demo_created" "sg_keys demo_rotating = demo_bound" "ov_now demo_rotating_env = 0"
    "ov_fault demo_rotating_env = (\<lambda>_. False)" "sg_audit demo_rotating = []" "de_id demo_row = ''d1''"
    by (simp_all add: demo_rotating_def demo_rotating_env_def demo_row_def)
  ultimately have "save_output demo_rotating_env ''acc'' ''st'' False ?x demo_row demo_rotating =
      (OutputStatus 204, demo_rotating\<lparr>sg_db := (sg_db demo_created)\<lparr>destinations := [demo_new_row]\<rparr>,
         sg_audit := [(''acc'', ''UPDATE_OUTPUT'', ''d1'')]\<rparr>)"
    by (simp add: save_output_def finish_output_def)
  moreover have "find_output ''st'' ''d1'' (sg_db demo_rotating) = Some demo_row"
    by (simp add: find_output_def demo_rotating_def demo_created_rows live_output_def demo_row_def)
  moreover have "oi_Generation (demo_form ''new'' 1) = de_generation demo_row" by (simp add: demo_form_def demo_row_def)
  ultimately show ?thesis
    using demo_check by (simp add: userOutput_def change_output_def demo_rotating_env_def) (simp add: demo_rotating_def find_output_def live_output_def
      demo_new_row_def demo_row_def)
qed

theorem output_secret_survives_edit_witness:
  "fst (Decrypt demo_aead (versioned_provider demo_codec) (demo_key_world ''after'') (row_envelope demo_new_row) ''st:out''
     (provider_run (versioned_provider demo_codec) [CallCurrent (demo_key_world ''after'')] demo_bound)) = Inr ''new''"
proof -
  from demo_edit obtain s' where s': "userOutput demo_rotating_env ''acc'' ''st'' ''PUT'' ''outputs/d1'' (Some (demo_form ''new'' 1)) demo_rotating = (OutputStatus 204, s')"
    "sg_keys s' = demo_bound" "find_output ''st'' ''d1'' (sg_db s') = Some demo_new_row" by blast
  let ?w = "demo_key_world ''after''"
  let ?k = "Versioned_Key demo_codec ?w ''k1'' (provider_run (versioned_provider demo_codec) [CallCurrent ?w] demo_bound)"
  have key: "?k = (Inr (replicate 32 CHR ''A''), snd ?k)" using demo_Key_after by (simp add: versioned_provider_def prod_eq_iff)
  have ok: "outputs_ok (sg_db demo_rotating)" using output_reach_ok [OF demo_output_reach] by (simp add: demo_rotating_def)
  have old: "find_output ''st'' ''d1'' (sg_db demo_rotating) = Some demo_row"
    by (simp add: find_output_def demo_rotating_def demo_created_rows live_output_def demo_row_def)
  have path: "path_id ''outputs/d1'' = ''d1''" by code_simp
  have valid: "versioned_valid ''file'' demo_material (sg_keys demo_rotating)"
    by (simp add: versioned_valid_def demo_rotating_def demo_bound_def demo_material_def demo_ref_def)
  have law: "ae_open (ov_aead demo_rotating_env) k n (ae_seal (ov_aead demo_rotating_env) k n p a) a = Some p" for k n p a
    using demo_aead_law by (simp add: demo_rotating_env_def)
  show ?thesis
    using output_secret_survives_edit [of demo_rotating_env demo_codec "''file''" demo_material demo_rotating "''acc''" "''st''" "''outputs/d1''"
        "demo_form ''new'' 1" s' demo_row demo_new_row "[CallCurrent ?w]" ?w "replicate 32 CHR ''A''" "snd ?k", OF law] s' key ok old valid demo_pinned
    by (simp add: path demo_rotating_env_def demo_form_def demo_new_row_def demo_row_def output_aad_def)
qed

end
