(* ===== verification/Release_Bundle.thy ===== *)
theory Release_Bundle
  imports Release_Manifest
begin

text \<open>
  The staging of a release bundle, \<^verbatim>\<open>backend/internal/release/bundle.go\<close>. The bundle is an untrusted compressed archive; its
  bytes are copied once, compared with the signed digest and only then unpacked into a new directory, which is removed again when anything
  is wrong. The directory is a list of paths, as lists of components, with their nodes. The decompressed archive is an argument: the entries
  that the tar reader yields, with what it can read of each, and the bytes that follow the end of the archive. Faults of the file system
  are arguments as well.
\<close>

section \<open>Paths\<close>

definition TrimPrefix :: "string \<Rightarrow> string \<Rightarrow> string" where
  "TrimPrefix s p = (if HasPrefix s p then drop (length p) s else s)"

definition TrimSuffix_slash :: "string \<Rightarrow> string" where
  "TrimSuffix_slash s = (if s \<noteq> [] \<and> last s = CHR ''/'' then butlast s else s)"

fun join_slash :: "string list \<Rightarrow> string" where
  "join_slash [] = []"
| "join_slash [c] = c"
| "join_slash (c # cs) = c @ CHR ''/'' # join_slash cs"

text \<open>\<open>path.Clean\<close>: no empty or dot components, a parent component only at the start of a relative path.\<close>

definition clean_step :: "bool \<Rightarrow> string list \<Rightarrow> string \<Rightarrow> string list" where
  "clean_step rooted acc c =
     (if c = [] \<or> c = ''.'' then acc
      else if c = ''..'' then (if acc \<noteq> [] \<and> last acc \<noteq> ''..'' then butlast acc else if rooted then acc else acc @ [''..''])
      else acc @ [c])"

definition Clean :: "string \<Rightarrow> string" where
  "Clean s =
     (if s = [] then ''.''
      else let rooted = hd s = CHR ''/''; cs = foldl (clean_step rooted) [] (Split CHR ''/'' s) in
        if rooted then CHR ''/'' # join_slash cs else if cs = [] then ''.'' else join_slash cs)"

section \<open>Archives and directories\<close>

datatype tar_kind = TarDir | TarReg | TarOther

record tar_header =
  th_Name :: string
  th_Typeflag :: tar_kind
  th_Size :: int

text \<open>One answer of the reader: a header with the content that can be read and whether reading then fails, or an error; the end of the list
  is the end of the archive.\<close>

datatype tar_item = TarFile tar_header string bool | TarFailed

record tar_archive =
  ta_items :: "tar_item list"
  ta_trailer :: "string option"

datatype bnode = BDir | BFile string

type_synonym btree = "(string list \<times> bnode) list"

fun mkdir_paths :: "string list list \<Rightarrow> btree \<Rightarrow> btree option" where
  "mkdir_paths [] t = Some t"
| "mkdir_paths (p # ps) t =
     (case map_of t p of
        Some (BFile _) \<Rightarrow> None
      | Some BDir \<Rightarrow> mkdir_paths ps t
      | None \<Rightarrow> mkdir_paths ps (t @ [(p, BDir)]))"

definition MkdirAll :: "string list \<Rightarrow> btree \<Rightarrow> btree option" where
  "MkdirAll p t = mkdir_paths (tl (prefixes p)) t"

text \<open>\<open>O_CREATE|O_EXCL\<close>: the path must not exist; the directory itself does.\<close>

definition create_excl :: "string list \<Rightarrow> string \<Rightarrow> btree \<Rightarrow> btree option" where
  "create_excl p content t = (if p = [] \<or> map_of t p \<noteq> None then None else Some (t @ [(p, BFile content)]))"

definition target_of :: "string \<Rightarrow> string list" where
  "target_of name = (if name = ''.'' then [] else Split CHR ''/'' name)"

section \<open>Extraction\<close>

record bundle_state =
  bs_entries :: "string list"
  bs_files :: "(string \<times> string) list"
  bs_total :: int
  bs_root :: bool
  bs_tree :: btree

definition unsafe_name :: "string list \<Rightarrow> string \<Rightarrow> bool" where
  "unsafe_name entries name \<longleftrightarrow>
     name = [] \<or> Clean name \<noteq> name \<or> HasPrefix name ''/'' \<or> CHR 0x5C \<in> set name
     \<or> list_ex (\<lambda>c. c \<in> {CHR 0x00, CHR 0x0D, CHR 0x0A, CHR 0x09}) name
     \<or> name = ''..'' \<or> HasPrefix name ''../'' \<or> name \<in> set entries \<or> 4096 \<le> int (length entries)"

text \<open>A fault of the file system while an entry is unpacked: after some of its directories were made, when its file is created, or after
  some of its bytes were written (all of them when the file cannot be synchronized or closed). The fault of the empty name is that of the
  last synchronization.\<close>

datatype unpack_fault = MkdirFault nat | CreateFault | WriteFault nat

record bundle_env =
  be_sha256_hex :: "string \<Rightarrow> string"
  be_untar :: "string \<Rightarrow> tar_archive option"
  be_fault :: "string \<Rightarrow> unpack_fault option"

text \<open>What an operation leaves, with its error.\<close>

definition make_dirs :: "unpack_fault option \<Rightarrow> string list \<Rightarrow> btree \<Rightarrow> string option \<times> btree" where
  "make_dirs flt p t =
     (case flt of
        Some (MkdirFault k) \<Rightarrow> (Some ''mkdir'', case MkdirAll (take k p) t of None \<Rightarrow> t | Some t' \<Rightarrow> t')
      | _ \<Rightarrow> (case MkdirAll p t of None \<Rightarrow> (Some ''mkdir'', t) | Some t' \<Rightarrow> (None, t')))"

definition write_file :: "unpack_fault option \<Rightarrow> string list \<Rightarrow> string \<Rightarrow> btree \<Rightarrow> string option \<times> btree" where
  "write_file flt p content t =
     (case flt of
        Some CreateFault \<Rightarrow> (Some ''create'', t)
      | _ \<Rightarrow>
          (case create_excl p (case flt of Some (WriteFault k) \<Rightarrow> take k content | _ \<Rightarrow> content) t of
             None \<Rightarrow> (Some ''file exists'', t)
           | Some t' \<Rightarrow> (case flt of Some (WriteFault k) \<Rightarrow> (Some ''write'', t') | _ \<Rightarrow> (None, t'))))"

definition extract_file ::
  "bundle_env \<Rightarrow> string \<Rightarrow> tar_header \<Rightarrow> string \<Rightarrow> bool \<Rightarrow> bundle_state \<Rightarrow> string option \<times> bundle_state" where
  "extract_file e name h content unread b =
     (if th_Typeflag h \<noteq> TarReg \<or> th_Size h < 0 \<or> th_Size h > max_archive \<or> bs_total b + th_Size h > 16 * 2 ^ 30
      then (Some ''unsupported archive entry or extraction limit'', b)
      else let b1 = b\<lparr>bs_total := bs_total b + th_Size h\<rparr> in
        (case make_dirs (be_fault e name) (butlast (target_of name)) (bs_tree b1) of
           (Some x, t) \<Rightarrow> (Some x, b1\<lparr>bs_tree := t\<rparr>)
         | (None, t) \<Rightarrow>
             (case write_file (be_fault e name) (target_of name) content t of
                (Some x, t') \<Rightarrow> (Some x, b1\<lparr>bs_tree := t'\<rparr>)
              | (None, t') \<Rightarrow>
                  if unread then (Some ''read'', b1\<lparr>bs_tree := t'\<rparr>)
                  else if int (length content) \<noteq> th_Size h then (Some ''unexpected EOF'', b1\<lparr>bs_tree := t'\<rparr>)
                  else (None, b1\<lparr>bs_tree := t', bs_files := bs_files b @ [(name, be_sha256_hex e content)]\<rparr>))))"

fun extract_items :: "bundle_env \<Rightarrow> tar_item list \<Rightarrow> bundle_state \<Rightarrow> string option \<times> bundle_state" where
  "extract_items e [] b = (None, b)"
| "extract_items e (TarFailed # items) b = (Some ''archive'', b)"
| "extract_items e (TarFile h content unread # items) b =
     (if (th_Name h = ''.'' \<or> th_Name h = ''./'') \<and> th_Typeflag h = TarDir \<and> \<not> bs_root b
      then extract_items e items (b\<lparr>bs_root := True\<rparr>)
      else let name = TrimSuffix_slash (TrimPrefix (th_Name h) ''./'') in
        if unsafe_name (bs_entries b) name then (Some ''unsafe or duplicate archive entry'', b)
        else let b1 = b\<lparr>bs_entries := bs_entries b @ [name]\<rparr> in
          if th_Typeflag h = TarDir then
            (case make_dirs (be_fault e name) (target_of name) (bs_tree b1) of
               (Some x, t) \<Rightarrow> (Some x, b1\<lparr>bs_tree := t\<rparr>)
             | (None, t) \<Rightarrow> extract_items e items (b1\<lparr>bs_tree := t\<rparr>))
          else (case extract_file e name h content unread b1 of (Some x, b2) \<Rightarrow> (Some x, b2) | (None, b2) \<Rightarrow> extract_items e items b2))"

section \<open>Checksums and contents\<close>

definition read_file :: "string \<Rightarrow> btree \<Rightarrow> string option" where
  "read_file name t = (case map_of t (target_of name) of Some (BFile content) \<Rightarrow> Some content | _ \<Rightarrow> None)"

text \<open>\<open>bufio.Scanner\<close>: lines without their end; a last line without one counts when it is not empty.\<close>

definition drop_cr :: "string \<Rightarrow> string" where
  "drop_cr s = (if s \<noteq> [] \<and> last s = CHR 0x0D then butlast s else s)"

definition scan_lines :: "string \<Rightarrow> string list" where
  "scan_lines s = (let ls = Split CHR 0x0A s in if last ls = [] then butlast ls else ls)"

text \<open>The loop over the records; a line that does not fit the buffer ends it with an error.\<close>

fun check_lines :: "(string \<times> string) list \<Rightarrow> string list \<Rightarrow> string list \<Rightarrow> string + string list" where
  "check_lines files [] matched = Inr matched"
| "check_lines files (raw # ls) matched =
     (let line = drop_cr raw; name = drop 66 line in
      if 65536 \<le> int (length raw) then Inl ''incomplete bundle checksums''
      else if length line < 67 \<or> take 2 (drop 64 line) \<noteq> ''  '' then Inl ''invalid bundle checksum record''
      else if name = ''SHA256SUMS'' \<or> name \<in> set matched \<or> map_of files name = None \<or> map_of files name = Some [] \<or> map_of files name \<noteq> Some (take 64 line)
      then Inl ''bundle checksum mismatch''
      else check_lines files ls (matched @ [name]))"

definition required_files :: "string list" where
  "required_files = [''VERSION'', ''ARCHITECTURE'', ''api-image'', ''worker-image'', ''proxy-image'', ''edge-image'', ''images.tar'', ''node-agent'',
     ''updater.py'', ''updater_bridge.py'', ''updater_engine.py'', ''updater_host.py'', ''maintenance.py'', ''release-tool'',
     ''streamtool-updater.service'', ''streamtool-updater-space.service'', ''streamtool-updater-bridge.service'', ''bootstrap.py'', ''deploy.py'',
     ''backup.py'', ''renew.py'', ''install.sh'', ''update.sh'', ''compose.yml'', ''Caddyfile'', ''mediamtx.yml'', ''streamtool-agent.service'',
     ''streamtool-agent.sudoers'', ''streamtool-worker-policy'', ''streamtool-certificates.service'', ''streamtool-certificates.timer'',
     ''web/index.html'', ''web/app.js'', ''web/style.css'']"

definition image_files :: "string list" where
  "image_files = [''api-image'', ''worker-image'', ''proxy-image'', ''edge-image'']"

definition readSmall :: "string \<Rightarrow> btree \<Rightarrow> string option" where
  "readSmall name t =
     (case read_file name t of
        None \<Rightarrow> None
      | Some content \<Rightarrow> if length (take 256 content) \<ge> 256 then None else Some (TrimSpace (take 256 content)))"

definition valid_image :: "btree \<Rightarrow> string \<Rightarrow> bool" where
  "valid_image t name = (case readSmall name t of
     None \<Rightarrow> False | Some img \<Rightarrow> HasPrefix img ''sha256:'' \<and> digestPattern (TrimPrefix img ''sha256:''))"

definition check_staged :: "manifest \<Rightarrow> artifact \<Rightarrow> (string \<times> string) list \<Rightarrow> btree \<Rightarrow> string option" where
  "check_staged m a files t =
     (if files = [] then Some ''empty release bundle''
      else case read_file ''SHA256SUMS'' t of
          None \<Rightarrow> Some ''bundle checksum list missing''
        | Some sums \<Rightarrow>
            if int (length sums) > 1048576 then Some ''oversized checksum list''
            else (case check_lines files (scan_lines sums) [] of
                    Inl x \<Rightarrow> Some x
                  | Inr matched \<Rightarrow>
                      if int (length matched) \<noteq> int (length files) - 1 then Some ''incomplete bundle checksums''
                      else if \<not> list_all (\<lambda>name. map_of files name \<notin> {None, Some []}) required_files then Some ''required bundle file missing''
                      else if readSmall ''VERSION'' t \<noteq> Some (version m) then Some ''bundle version mismatch''
                      else if readSmall ''ARCHITECTURE'' t \<noteq> Some (ar_architecture a) then Some ''bundle architecture mismatch''
                      else if \<not> list_all (valid_image t) image_files then Some ''invalid immutable image ID''
                      else None))"

section \<open>Staging\<close>

text \<open>What opening the bundle shows: whether it is a regular file, its size, and the bytes that reading it yields, which may be others.\<close>

record bundle_file =
  bu_regular :: bool
  bu_size :: int
  bu_bytes :: string

definition trailer_ok :: "string option \<Rightarrow> bool" where
  "trailer_ok x = (case x of None \<Rightarrow> False | Some rest \<Rightarrow> int (length rest) < 10240 \<and> list_all (\<lambda>c. c = CHR 0x00) rest)"

text \<open>The result of unpacking is its error and everything that it has made in the destination.\<close>

definition unpack :: "bundle_env \<Rightarrow> manifest \<Rightarrow> artifact \<Rightarrow> string \<Rightarrow> string option \<times> btree" where
  "unpack e m a bytes =
     (case be_untar e bytes of
        None \<Rightarrow> (Some ''gzip'', [])
      | Some ta \<Rightarrow>
          (case extract_items e (ta_items ta) \<lparr>bs_entries = [], bs_files = [], bs_total = 0, bs_root = False, bs_tree = []\<rparr> of
             (Some x, b) \<Rightarrow> (Some x, bs_tree b)
           | (None, b) \<Rightarrow>
               if \<not> trailer_ok (ta_trailer ta) then (Some ''invalid archive trailer'', bs_tree b)
               else (case check_staged m a (bs_files b) (bs_tree b) of
                       Some x \<Rightarrow> (Some x, bs_tree b)
                     | None \<Rightarrow> if be_fault e [] \<noteq> None then (Some ''sync'', bs_tree b) else (None, bs_tree b))))"

text \<open>
  The state is the parent directory: the destination, \<open>None\<close> when it does not exist, and the private snapshots of the input that are left in
  the parent. Each system call may fail: creating the snapshot, copying to it after some bytes, synchronizing it, making the
  destination. The snapshot and, after an error, the destination are removed by deferred calls whose errors are ignored: \<open>sf_unlink\<close> says that
  the snapshot stays, \<open>sf_remove\<close> which paths of the destination stay.
\<close>

record staging =
  st_destination :: "btree option"
  st_inputs :: "string list"

record stage_faults =
  sf_temp :: bool
  sf_copy :: "nat option"
  sf_sync :: bool
  sf_mkdir :: bool
  sf_unlink :: bool
  sf_remove :: "(string list \<Rightarrow> bool) option"

definition RemoveAll :: "stage_faults \<Rightarrow> btree \<Rightarrow> btree option" where
  "RemoveAll f t = (case sf_remove f of None \<Rightarrow> None | Some stays \<Rightarrow> Some (filter (\<lambda>(p, _). stays p) t))"

definition Stage ::
  "bundle_env \<Rightarrow> stage_faults \<Rightarrow> bundle_file option \<Rightarrow> manifest \<Rightarrow> artifact \<Rightarrow> staging \<Rightarrow> string option \<times> staging" where
  "Stage e f bundle m a s =
     (if ar_size a \<le> 0 \<or> ar_size a > max_archive \<or> \<not> digestPattern (ar_sha256 a) then (Some ''invalid artifact bounds'', s)
      else case bundle of
          None \<Rightarrow> (Some ''open'', s)
        | Some b \<Rightarrow>
            if \<not> bu_regular b \<or> bu_size b \<noteq> ar_size a then (Some ''artifact size or type mismatch'', s)
            else if sf_temp f then (Some ''snapshot'', s)
            else let bytes = take (nat (ar_size a + 1)) (bu_bytes b);
                     copied = (case sf_copy f of None \<Rightarrow> bytes | Some k \<Rightarrow> take k bytes);
                     (err, d) =
                       (if sf_copy f \<noteq> None then (Some ''copy'', st_destination s)
                        else if int (length bytes) \<noteq> ar_size a \<or> be_sha256_hex e bytes \<noteq> ar_sha256 a
                        then (Some ''artifact digest mismatch'', st_destination s)
                        else if sf_sync f then (Some ''sync'', st_destination s)
                        else if sf_mkdir f \<or> st_destination s \<noteq> None then (Some ''mkdir'', st_destination s)
                        else (case unpack e m a bytes of (Some x, t) \<Rightarrow> (Some x, RemoveAll f t) | (None, t) \<Rightarrow> (None, Some t)))
                 in (err, s\<lparr>st_destination := d, st_inputs := (if sf_unlink f then copied # st_inputs s else st_inputs s)\<rparr>))"

section \<open>Clean names stay inside\<close>

text \<open>Following a path from a directory, component by component.\<close>

fun resolve :: "string list \<Rightarrow> string list \<Rightarrow> string list" where
  "resolve base [] = base"
| "resolve base (c # cs) = resolve (if c = ''..'' then butlast base else if c = ''.'' \<or> c = [] then base else base @ [c]) cs"

definition plain :: "string \<Rightarrow> bool" where
  "plain c \<longleftrightarrow> c \<noteq> [] \<and> c \<noteq> ''.'' \<and> c \<noteq> ''..'' \<and> CHR ''/'' \<notin> set c"

lemma resolve_plain: "list_all plain cs \<Longrightarrow> resolve base cs = base @ cs"
  by (induction cs arbitrary: base) (auto simp: plain_def)

lemma Split_join_slash: "cs \<noteq> [] \<Longrightarrow> \<forall>c \<in> set cs. CHR ''/'' \<notin> set c \<Longrightarrow> Split CHR ''/'' (join_slash cs) = cs"
proof (induction cs rule: join_slash.induct)
  case (3 c d cs)
  then show ?case by (simp add: Split_append)
qed (simp_all add: Split_single)

text \<open>The components that \<open>Clean\<close> keeps of a relative path: parents first, then plain ones.\<close>

definition cleaned :: "string list \<Rightarrow> bool" where
  "cleaned acc \<longleftrightarrow> (\<exists>n cs. acc = replicate n ''..'' @ cs \<and> list_all plain cs)"

lemma clean_step_cleaned:
  assumes "cleaned acc" "CHR ''/'' \<notin> set c"
  shows "cleaned (clean_step False acc c)"
proof -
  from assms(1) obtain n cs where acc: "acc = replicate n ''..'' @ cs" "list_all plain cs" by (auto simp: cleaned_def)
  show ?thesis
  proof (cases "c = ''..''")
    case True
    show ?thesis
    proof (cases cs rule: rev_cases)
      case Nil
      then have "clean_step False acc c = replicate (Suc n) ''..'' @ []"
        using acc True replicate_append_same [of n "''..''"] by (cases n) (auto simp: clean_step_def)
      then show ?thesis unfolding cleaned_def by (metis list.pred_inject(1))
    next
      case (snoc cs' x)
      then have "x \<noteq> ''..''" using acc(2) by (auto simp: plain_def)
      then have "clean_step False acc c = replicate n ''..'' @ cs'" using acc snoc True by (simp add: clean_step_def butlast_append)
      then show ?thesis using acc(2) snoc by (auto simp: cleaned_def)
    qed
  next
    case False
    then show ?thesis
    proof (cases "c = [] \<or> c = ''.''")
      case True
      then show ?thesis using assms(1) by (auto simp: clean_step_def)
    next
      case plain_c: False
      then have "clean_step False acc c = replicate n ''..'' @ (cs @ [c])" using acc False by (simp add: clean_step_def)
      moreover have "list_all plain (cs @ [c])" using acc(2) plain_c False assms(2) by (simp add: plain_def)
      ultimately show ?thesis unfolding cleaned_def by blast
    qed
  qed
qed

lemma foldl_cleaned: "cleaned acc \<Longrightarrow> \<forall>c \<in> set cs. CHR ''/'' \<notin> set c \<Longrightarrow> cleaned (foldl (clean_step False) acc cs)"
  by (induction cs arbitrary: acc) (simp_all add: clean_step_cleaned)

lemma safe_name_plain:
  assumes "\<not> unsafe_name entries name" "name \<noteq> ''.''"
  shows "list_all plain (Split CHR ''/'' name)"
proof -
  have name: "name \<noteq> []" "Clean name = name" "hd name \<noteq> CHR ''/''" "name \<noteq> ''..''" "\<not> HasPrefix name ''../''"
    using assms(1) by (auto simp: unsafe_name_def HasPrefix_def neq_Nil_conv)
  define cs where "cs = foldl (clean_step False) [] (Split CHR ''/'' name)"
  have "cleaned cs" unfolding cs_def by (rule foldl_cleaned) (auto simp: cleaned_def dest: Split_no_sep)
  then obtain n ds where ds: "cs = replicate n ''..'' @ ds" "list_all plain ds" by (auto simp: cleaned_def)
  have join: "cs \<noteq> []" "join_slash cs = name"
    using name assms(2) unfolding Clean_def cs_def by (auto simp: Let_def split: if_splits)
  have "n = 0"
  proof (rule ccontr)
    assume "n \<noteq> 0"
    then obtain rest where rest: "cs = ''..'' # rest" using ds(1) by (cases n) auto
    show False
    proof (cases rest)
      case Nil
      then show ?thesis using rest join(2) name(4) by simp
    next
      case (Cons r rs)
      then have "name = ''../'' @ join_slash rest" using rest join(2) by simp
      then show ?thesis using name(5) by (auto simp: HasPrefix_def)
    qed
  qed
  then have p: "list_all plain cs" using ds by simp
  then have "Split CHR ''/'' (join_slash cs) = cs" using join(1) by (intro Split_join_slash) (auto simp: list_all_iff plain_def)
  then show ?thesis using p join(2) by simp
qed

lemma target_plain: "\<not> unsafe_name entries name \<Longrightarrow> list_all plain (target_of name)"
  using safe_name_plain by (auto simp: target_of_def)

section \<open>The staged directory\<close>

definition tree_ok :: "btree \<Rightarrow> bool" where
  "tree_ok t \<longleftrightarrow> (\<forall>(p, _) \<in> set t. p \<noteq> [] \<and> list_all plain p) \<and> distinct (map fst t)"

lemma mkdir_paths_ok:
  assumes "tree_ok t" "\<forall>p \<in> set ps. p \<noteq> [] \<and> list_all plain p" "mkdir_paths ps t = Some t'"
  shows "tree_ok t' \<and> (\<forall>p content. (p, BFile content) \<in> set t' \<longleftrightarrow> (p, BFile content) \<in> set t)"
  using assms
proof (induction ps arbitrary: t)
  case (Cons p ps)
  show ?case
  proof (cases "map_of t p")
    case None
    then have "p \<notin> fst ` set t" by (simp add: map_of_eq_None_iff)
    then have "tree_ok (t @ [(p, BDir)])" using Cons.prems(1,2) by (auto simp: tree_ok_def)
    with Cons None show ?thesis by auto
  next
    case (Some n)
    then show ?thesis using Cons by (cases n) auto
  qed
qed simp

lemma MkdirAll_ok:
  assumes "tree_ok t" "list_all plain p" "MkdirAll p t = Some t'"
  shows "tree_ok t' \<and> (\<forall>p content. (p, BFile content) \<in> set t' \<longleftrightarrow> (p, BFile content) \<in> set t)"
proof -
  have "q \<noteq> [] \<and> list_all plain q" if "q \<in> set (tl (prefixes p))" for q
  proof -
    have p: "prefixes p = [] # tl (prefixes p)" by (cases p) simp_all
    have "distinct ([] # tl (prefixes p))" using distinct_prefixes [of p] p by metis
    then have "q \<noteq> []" using that by auto
    moreover have "q \<in> set (prefixes p)" using that p by (metis list.set_intros(2))
    ultimately show ?thesis using assms(2) by (auto simp: in_set_prefixes prefix_def)
  qed
  then show ?thesis using mkdir_paths_ok [OF assms(1), of "tl (prefixes p)" t'] assms(3) by (simp add: MkdirAll_def)
qed

lemma create_excl_ok:
  assumes "tree_ok t" "list_all plain p" "create_excl p content t = Some t'"
  shows "tree_ok t' \<and> t' = t @ [(p, BFile content)]"
  using assms by (auto simp: create_excl_def tree_ok_def map_of_eq_None_iff split: if_splits)

text \<open>The invariant of the extraction: the tree is contained, and it holds exactly the files whose digests were recorded.\<close>

definition listed :: "bundle_env \<Rightarrow> (string \<times> string) list \<Rightarrow> btree \<Rightarrow> bool" where
  "listed e files t \<longleftrightarrow> (\<forall>p content. (p, BFile content) \<in> set t \<longrightarrow> (\<exists>name. p = target_of name \<and> (name, be_sha256_hex e content) \<in> set files))"

definition recorded :: "bundle_env \<Rightarrow> (string \<times> string) list \<Rightarrow> btree \<Rightarrow> bool" where
  "recorded e files t \<longleftrightarrow> (\<forall>name dg. (name, dg) \<in> set files \<longrightarrow> (\<exists>content. (target_of name, BFile content) \<in> set t \<and> dg = be_sha256_hex e content))"

definition bundle_inv :: "bundle_env \<Rightarrow> bundle_state \<Rightarrow> bool" where
  "bundle_inv e b \<longleftrightarrow> tree_ok (bs_tree b) \<and> distinct (map fst (bs_files b)) \<and> fst ` set (bs_files b) \<subseteq> set (bs_entries b)
     \<and> listed e (bs_files b) (bs_tree b) \<and> recorded e (bs_files b) (bs_tree b)"

lemma listed_add: "listed e files t \<Longrightarrow> listed e (files @ [(name, be_sha256_hex e content)]) (t @ [(target_of name, BFile content)])"
  unfolding listed_def by auto

lemma recorded_add: "recorded e files t \<Longrightarrow> recorded e (files @ [(name, be_sha256_hex e content)]) (t @ [(target_of name, BFile content)])"
  unfolding recorded_def by auto

lemma bundle_inv_tree:
  assumes "bundle_inv e b" "tree_ok t" "\<And>p content. (p, BFile content) \<in> set t \<longleftrightarrow> (p, BFile content) \<in> set (bs_tree b)"
  shows "bundle_inv e (b\<lparr>bs_tree := t\<rparr>)"
  using assms by (simp add: bundle_inv_def listed_def recorded_def)

lemma bundle_inv_entry: "bundle_inv e b \<Longrightarrow> bundle_inv e (b\<lparr>bs_entries := bs_entries b @ [name]\<rparr>)"
  by (auto simp: bundle_inv_def)

lemma bundle_inv_file:
  assumes "bundle_inv e b" "name \<in> set (bs_entries b)" "name \<notin> fst ` set (bs_files b)" "tree_ok (bs_tree b @ [(target_of name, BFile content)])"
  shows "bundle_inv e (b\<lparr>bs_total := n, bs_tree := bs_tree b @ [(target_of name, BFile content)], bs_files := bs_files b @ [(name, be_sha256_hex e content)]\<rparr>)"
  using assms by (simp add: bundle_inv_def listed_add recorded_add)

lemma plain_butlast: "list_all plain p \<Longrightarrow> list_all plain (butlast p)" "list_all plain p \<Longrightarrow> list_all plain (take k p)"
  by (auto simp: list_all_iff dest: in_set_butlastD in_set_takeD)

lemma make_dirs_ok:
  assumes "tree_ok t" "list_all plain p" "make_dirs flt p t = (x, t')"
  shows "tree_ok t' \<and> (\<forall>q content. (q, BFile content) \<in> set t' \<longleftrightarrow> (q, BFile content) \<in> set t)"
proof -
  have "t' = t \<or> (\<exists>k. MkdirAll (take k p) t = Some t') \<or> MkdirAll p t = Some t'"
    using assms(3) by (auto simp: make_dirs_def split: option.splits unpack_fault.splits)
  then show ?thesis using MkdirAll_ok [OF assms(1,2)] MkdirAll_ok [OF assms(1) plain_butlast(2) [OF assms(2)]] assms(1) by blast
qed

lemma write_file_ok:
  assumes "tree_ok t" "list_all plain p" "write_file flt p content t = (x, t')"
  shows "tree_ok t' \<and> (x = None \<longrightarrow> t' = t @ [(p, BFile content)])"
proof -
  have "x \<noteq> None \<and> t' = t \<or> x \<noteq> None \<and> (\<exists>k. create_excl p (take k content) t = Some t') \<or> x = None \<and> create_excl p content t = Some t'"
    using assms(3) by (auto simp: write_file_def split: option.splits unpack_fault.splits)
  then show ?thesis using create_excl_ok [OF assms(1,2)] assms(1) by blast
qed

text \<open>Whatever happens, everything that an entry made is contained; the loop only goes on when the entry is recorded.\<close>

lemma extract_file_tree:
  assumes "tree_ok (bs_tree b)" "list_all plain (target_of name)" "extract_file e name h content unread b = (x, b')"
  shows "tree_ok (bs_tree b')"
proof -
  obtain x1 t where t: "make_dirs (be_fault e name) (butlast (target_of name)) (bs_tree b) = (x1, t)" by fastforce
  obtain x2 t' where t': "write_file (be_fault e name) (target_of name) content t = (x2, t')" by fastforce
  have "tree_ok t" using make_dirs_ok [OF assms(1) plain_butlast(1) [OF assms(2)] t] by blast
  moreover from this have "tree_ok t'" using write_file_ok [OF _ assms(2) t'] by blast
  moreover have "bs_tree b' \<in> {bs_tree b, t, t'}"
    using assms(3) t t' by (auto simp: extract_file_def Let_def split: if_splits option.splits)
  ultimately show ?thesis using assms(1) by auto
qed

lemma extract_file_inv:
  assumes "bundle_inv e b" "list_all plain (target_of name)" "name \<in> set (bs_entries b)" "name \<notin> fst ` set (bs_files b)"
    and "extract_file e name h content unread b = (None, b')"
  shows "bundle_inv e b' \<and> bs_entries b' = bs_entries b"
proof -
  from assms(5) obtain t t' where t: "make_dirs (be_fault e name) (butlast (target_of name)) (bs_tree b) = (None, t)"
    "write_file (be_fault e name) (target_of name) content t = (None, t')"
    and b': "b' = b\<lparr>bs_total := bs_total b + th_Size h, bs_tree := t', bs_files := bs_files b @ [(name, be_sha256_hex e content)]\<rparr>"
    by (auto simp: extract_file_def Let_def split: if_splits option.splits prod.splits)
  from make_dirs_ok [OF _ plain_butlast(1) [OF assms(2)] t(1)] assms(1)
  have ok: "tree_ok t" "\<And>p content. (p, BFile content) \<in> set t \<longleftrightarrow> (p, BFile content) \<in> set (bs_tree b)" by (auto simp: bundle_inv_def)
  have inv: "bundle_inv e (b\<lparr>bs_tree := t\<rparr>)" by (rule bundle_inv_tree [OF assms(1) ok])
  have t': "tree_ok t'" "t' = t @ [(target_of name, BFile content)]" using write_file_ok [OF ok(1) assms(2) t(2)] by auto
  have "bundle_inv e ((b\<lparr>bs_tree := t\<rparr>)\<lparr>bs_total := bs_total b + th_Size h, bs_tree := bs_tree (b\<lparr>bs_tree := t\<rparr>) @ [(target_of name, BFile content)],
      bs_files := bs_files (b\<lparr>bs_tree := t\<rparr>) @ [(name, be_sha256_hex e content)]\<rparr>)"
    by (rule bundle_inv_file [OF inv]) (use assms(3,4) t' in simp_all)
  then show ?thesis using b' t' by simp
qed

lemma extract_items_tree: "tree_ok (bs_tree b) \<Longrightarrow> tree_ok (bs_tree (snd (extract_items e items b)))"
proof (induction e items b rule: extract_items.induct)
  case (3 e h content unread items b)
  let ?name = "TrimSuffix_slash (TrimPrefix (th_Name h) ''./'')"
  let ?b1 = "b\<lparr>bs_entries := bs_entries b @ [?name]\<rparr>"
  show ?case
  proof (cases "(th_Name h = ''.'' \<or> th_Name h = ''./'') \<and> th_Typeflag h = TarDir \<and> \<not> bs_root b")
    case True
    then show ?thesis using 3(1) [OF True] 3(4) by simp
  next
    case False
    show ?thesis
    proof (cases "unsafe_name (bs_entries b) ?name")
      case True
      then show ?thesis using False 3(4) by (auto simp: Let_def)
    next
      case safe: False
      obtain x t where t: "make_dirs (be_fault e ?name) (target_of ?name) (bs_tree ?b1) = (x, t)" by fastforce
      have ok: "tree_ok t" using make_dirs_ok [OF _ target_plain [OF safe] t] 3(4) by simp
      obtain y b2 where f: "extract_file e ?name h content unread ?b1 = (y, b2)" by fastforce
      have ok2: "tree_ok (bs_tree b2)" using extract_file_tree [OF _ target_plain [OF safe] f] 3(4) by simp
      show ?thesis
      proof (cases "th_Typeflag h = TarDir")
        case dir: True
        show ?thesis using False safe dir t ok 3(2) [OF False refl safe refl dir t [symmetric]] by (cases x) (auto simp: Let_def)
      next
        case reg: False
        show ?thesis using False safe reg f ok2 3(3) [OF False refl safe refl reg f [symmetric]] by (cases y) (auto simp: Let_def)
      qed
    qed
  qed
qed simp_all

lemma extract_items_inv:
  assumes "extract_items e items b = (None, b')" "bundle_inv e b" "length (bs_entries b) \<le> 4096" "distinct (bs_entries b)"
  shows "bundle_inv e b' \<and> length (bs_entries b') \<le> 4096"
  using assms
proof (induction e items b rule: extract_items.induct)
  case (3 e h content unread items b)
  let ?name = "TrimSuffix_slash (TrimPrefix (th_Name h) ''./'')"
  let ?b1 = "b\<lparr>bs_entries := bs_entries b @ [?name]\<rparr>"
  show ?case
  proof (cases "(th_Name h = ''.'' \<or> th_Name h = ''./'') \<and> th_Typeflag h = TarDir \<and> \<not> bs_root b")
    case True
    have "bundle_inv e (b\<lparr>bs_root := True\<rparr>)" using 3(5) by (simp add: bundle_inv_def)
    then show ?thesis using 3(1) [OF True] 3(4,6,7) True by simp
  next
    case False
    then have safe: "\<not> unsafe_name (bs_entries b) ?name" using 3(4) by (auto simp: Let_def split: if_splits)
    then have size: "length (bs_entries ?b1) \<le> 4096" "distinct (bs_entries ?b1)" "?name \<notin> set (bs_entries b)"
      using 3(7) by (auto simp: unsafe_name_def)
    note plain = target_plain [OF safe] and inv1 = bundle_inv_entry [OF 3(5), of ?name]
    show ?thesis
    proof (cases "th_Typeflag h = TarDir")
      case dir: True
      then obtain t where t: "make_dirs (be_fault e ?name) (target_of ?name) (bs_tree ?b1) = (None, t)"
        "extract_items e items (?b1\<lparr>bs_tree := t\<rparr>) = (None, b')"
        using 3(4) False safe by (auto simp: Let_def split: if_splits option.splits prod.splits)
      have "tree_ok t" "\<And>p content. (p, BFile content) \<in> set t \<longleftrightarrow> (p, BFile content) \<in> set (bs_tree ?b1)"
        using make_dirs_ok [OF _ plain t(1)] inv1 by (auto simp: bundle_inv_def)
      then have "bundle_inv e (?b1\<lparr>bs_tree := t\<rparr>)" by (rule bundle_inv_tree [OF inv1])
      then show ?thesis using 3(2) [OF False refl safe refl dir t(1) [symmetric] refl] t(2) size by simp
    next
      case reg: False
      then obtain b2 where b2: "extract_file e ?name h content unread ?b1 = (None, b2)" "extract_items e items b2 = (None, b')"
        using 3(4) False safe by (auto simp: Let_def split: if_splits option.splits prod.splits)
      have "?name \<notin> fst ` set (bs_files ?b1)" using size(3) 3(5) by (auto simp: bundle_inv_def)
      from extract_file_inv [OF inv1 plain _ this b2(1)] have "bundle_inv e b2" "bs_entries b2 = bs_entries ?b1" by auto
      then show ?thesis using 3(3) [OF False refl safe refl reg b2(1) [symmetric] refl] b2(2) size by simp
    qed
  qed
qed simp_all

section \<open>The checksum list\<close>

lemma check_lines_matched:
  assumes "check_lines files ls matched = Inr m'" "distinct matched"
  shows "distinct m' \<and> set matched \<subseteq> set m'
    \<and> (\<forall>name \<in> set m' - set matched. name \<noteq> ''SHA256SUMS'' \<and> (\<exists>line \<in> set (map drop_cr ls). drop 66 line = name \<and> map_of files name = Some (take 64 line)))"
  using assms
proof (induction files ls matched rule: check_lines.induct)
  case (2 files raw ls matched)
  let ?name = "drop 66 (drop_cr raw)"
  have step: "check_lines files ls (matched @ [?name]) = Inr m'" "?name \<noteq> ''SHA256SUMS''" "?name \<notin> set matched"
    "map_of files ?name = Some (take 64 (drop_cr raw))" and
    conds: "\<not> 65536 \<le> int (length raw)" "\<not> (length (drop_cr raw) < 67 \<or> take 2 (drop 64 (drop_cr raw)) \<noteq> ''  '')"
      "\<not> (?name = ''SHA256SUMS'' \<or> ?name \<in> set matched \<or> map_of files ?name = None \<or> map_of files ?name = Some [] \<or> map_of files ?name \<noteq> Some (take 64 (drop_cr raw)))"
    using 2(2) by (auto simp: Let_def split: if_splits)
  have IH: "distinct m' \<and> set (matched @ [?name]) \<subseteq> set m' \<and> (\<forall>name \<in> set m' - set (matched @ [?name]).
      name \<noteq> ''SHA256SUMS'' \<and> (\<exists>line \<in> set (map drop_cr ls). drop 66 line = name \<and> map_of files name = Some (take 64 line)))"
    using 2(1) [OF refl refl conds] step 2(3) by simp
  show ?case
  proof (intro conjI ballI)
    fix name
    assume n: "name \<in> set m' - set matched"
    show "name \<noteq> ''SHA256SUMS''" using IH n step(2) by (cases "name = ?name") auto
    show "\<exists>line \<in> set (map drop_cr (raw # ls)). drop 66 line = name \<and> map_of files name = Some (take 64 line)"
    proof (cases "name = ?name")
      case True
      then show ?thesis using step(4) by (intro bexI [of _ "drop_cr raw"]) auto
    next
      case False
      then show ?thesis using IH n by auto
    qed
  qed (use IH in auto)
qed simp

lemma check_lines_all:
  assumes "check_lines files ls [] = Inr m'" "distinct (map fst files)" "int (length m') = int (length files) - 1"
    and "''SHA256SUMS'' \<in> fst ` set files" "(name, dg) \<in> set files" "name \<noteq> ''SHA256SUMS''"
  shows "\<exists>line \<in> set (map drop_cr ls). drop 66 line = name \<and> dg = take 64 line"
proof -
  have "distinct ([] :: string list)" by simp
  note m = check_lines_matched [OF assms(1) this]
  let ?names = "fst ` set files - {''SHA256SUMS''}"
  have sub: "set m' \<subseteq> ?names"
  proof
    fix n
    assume "n \<in> set m'"
    then have "n \<noteq> ''SHA256SUMS''" "map_of files n \<noteq> None" using m by auto
    then show "n \<in> ?names" unfolding map_of_eq_None_iff by simp
  qed
  have "card (fst ` set files) = length files" using assms(2) by (metis distinct_card length_map set_map)
  then have "card ?names = length files - 1" using assms(4) by simp
  moreover have "card (set m') = length files - 1" using m distinct_card [of m'] assms(3) by auto
  ultimately have "set m' = ?names" using card_subset_eq [OF _ sub] by simp
  then have "name \<in> set m'" using assms(5,6) by force
  then obtain line where "line \<in> set (map drop_cr ls)" "drop 66 line = name" "map_of files name = Some (take 64 line)" using m by fastforce
  moreover have "map_of files name = Some dg" using assms(2,5) by simp
  ultimately show ?thesis by auto
qed

section \<open>Properties\<close>

definition no_entries :: bundle_state where
  "no_entries = \<lparr>bs_entries = [], bs_files = [], bs_total = 0, bs_root = False, bs_tree = []\<rparr>"

lemma unpack_cases:
  assumes "unpack e m a bytes = (None, t)"
  obtains ta b where "be_untar e bytes = Some ta" "bundle_inv e b" "bs_tree b = t" "check_staged m a (bs_files b) t = None"
proof -
  from assms obtain ta b where ta: "be_untar e bytes = Some ta" and b: "extract_items e (ta_items ta) no_entries = (None, b)"
    "bs_tree b = t" "check_staged m a (bs_files b) t = None"
    by (auto simp: unpack_def no_entries_def split: option.splits prod.splits if_splits)
  have "bundle_inv e no_entries" by (simp add: no_entries_def bundle_inv_def tree_ok_def listed_def recorded_def)
  then have "bundle_inv e b" using extract_items_inv [OF b(1)] by (simp add: no_entries_def)
  with ta b that show ?thesis by blast
qed

lemma unpack_tree: "tree_ok (snd (unpack e m a bytes))"
proof (cases "be_untar e bytes")
  case (Some ta)
  obtain x b where b: "extract_items e (ta_items ta) no_entries = (x, b)" by fastforce
  have "tree_ok (bs_tree no_entries)" by (simp add: no_entries_def tree_ok_def)
  from extract_items_tree [OF this, of e "ta_items ta"] have "tree_ok (bs_tree b)" by (simp add: b)
  then show ?thesis using Some b by (cases x) (auto simp: unpack_def no_entries_def split: option.split)
qed (simp add: unpack_def tree_ok_def)

lemma Stage_success:
  assumes "Stage e f bundle m a s = (None, s')"
  shows "\<exists>b bytes t. bundle = Some b \<and> bytes = take (nat (ar_size a + 1)) (bu_bytes b) \<and> int (length bytes) = ar_size a
    \<and> be_sha256_hex e bytes = ar_sha256 a \<and> st_destination s = None \<and> st_destination s' = Some t \<and> unpack e m a bytes = (None, t)"
  using assms by (auto simp: Stage_def Let_def split: option.splits prod.splits if_splits)

text \<open>Following the path of every file and directory from the destination never leaves it.\<close>

definition inside :: "btree \<Rightarrow> bool" where
  "inside t \<longleftrightarrow> (\<forall>(p, node) \<in> set t. p \<noteq> [] \<and> (\<forall>base. resolve base p = base @ p))"

lemma tree_ok_inside: "tree_ok t \<Longrightarrow> inside t" "inside t \<Longrightarrow> inside (filter P t)"
  by (auto simp: tree_ok_def inside_def resolve_plain)

lemma Stage_destination:
  assumes "Stage e f bundle m a s = (Some x, s')"
  shows "st_destination s' = st_destination s \<or>
    st_destination s = None \<and> sf_remove f \<noteq> None \<and> (\<exists>bytes P. st_destination s' = Some (filter P (snd (unpack e m a bytes))))"
proof (cases "st_destination s' = st_destination s")
  case False
  then obtain bytes t where t: "unpack e m a bytes = (Some x, t)" "st_destination s = None" "st_destination s' = RemoveAll f t"
    using assms by (auto simp: Stage_def Let_def split: option.splits prod.splits if_splits)
  then obtain P where P: "sf_remove f \<noteq> None" "st_destination s' = Some (filter P t)" using False by (auto simp: RemoveAll_def split: option.splits)
  have "t = snd (unpack e m a bytes)" using t(1) by simp
  then show ?thesis using P t(2) by blast
qed simp

lemma Stage_inputs:
  assumes "Stage e f bundle m a s = (err, s')"
  shows "st_inputs s' = st_inputs s \<or> sf_unlink f \<and>
    (\<exists>b copied. bundle = Some b \<and> st_inputs s' = copied # st_inputs s \<and> prefix copied (bu_bytes b) \<and> int (length copied) \<le> ar_size a + 1)"
proof (cases "st_inputs s' = st_inputs s")
  case False
  then obtain b where b: "bundle = Some b" "sf_unlink f" "0 < ar_size a"
    and c: "st_inputs s' = (let bytes = take (nat (ar_size a + 1)) (bu_bytes b) in case sf_copy f of None \<Rightarrow> bytes | Some k \<Rightarrow> take k bytes) # st_inputs s"
    using assms by (auto simp: Stage_def Let_def split: option.splits prod.splits if_splits)
  have "prefix (take k (bu_bytes b)) (bu_bytes b)" "length (take k (bu_bytes b)) \<le> k" for k by (simp_all add: take_is_prefix)
  moreover have "take k (take n (bu_bytes b)) = take (min k n) (bu_bytes b)" for k n by (simp add: min.commute)
  ultimately show ?thesis using b c by (cases "sf_copy f") (auto simp: Let_def)
qed simp

text \<open>C28: whatever the archive holds and whatever system call fails, whether staging succeeds or not: everything that unpacking ever made is
  inside of the new directory, where following its path never leaves it. After an error the destination is as it was, unless the removal of the
  new directory fails too, and then what is left of it is inside of it. Besides the destination there is only the private snapshot of the
  input in the parent directory, a beginning of the bundle of at most the signed size and a byte, which is gone at the end unless its removal fails.\<close>

theorem staging_contained_or_undone:
  assumes "Stage e f bundle m a s = (err, s')"
  shows "(\<forall>bytes. inside (snd (unpack e m a bytes))) \<and>
    (case err of
       None \<Rightarrow> st_destination s = None \<and> (\<exists>t. st_destination s' = Some t \<and> inside t)
     | Some _ \<Rightarrow> st_destination s' = st_destination s \<or>
         st_destination s = None \<and> sf_remove f \<noteq> None \<and> (\<exists>t. st_destination s' = Some t \<and> inside t)) \<and>
    (st_inputs s' = st_inputs s \<or> sf_unlink f \<and>
       (\<exists>b copied. bundle = Some b \<and> st_inputs s' = copied # st_inputs s \<and> prefix copied (bu_bytes b) \<and> int (length copied) \<le> ar_size a + 1))"
proof (intro conjI)
  show all: "\<forall>bytes. inside (snd (unpack e m a bytes))" using unpack_tree tree_ok_inside(1) by blast
  show "case err of
       None \<Rightarrow> st_destination s = None \<and> (\<exists>t. st_destination s' = Some t \<and> inside t)
     | Some _ \<Rightarrow> st_destination s' = st_destination s \<or>
         st_destination s = None \<and> sf_remove f \<noteq> None \<and> (\<exists>t. st_destination s' = Some t \<and> inside t)"
  proof (cases err)
    case None
    from Stage_success [OF assms [unfolded None]] obtain bytes t
      where t: "st_destination s = None" "st_destination s' = Some t" "unpack e m a bytes = (None, t)" by blast
    then have "inside t" using all by (metis snd_conv)
    then show ?thesis using None t by simp
  next
    case (Some x)
    from Stage_destination [OF assms [unfolded Some]] all tree_ok_inside(2) show ?thesis by (auto simp: Some)
  qed
qed (rule Stage_inputs [OF assms])

lemma read_file_listed: "bundle_inv e b \<Longrightarrow> read_file name (bs_tree b) = Some content \<Longrightarrow> (target_of name, BFile content) \<in> set (bs_tree b)"
  by (auto simp: read_file_def split: option.splits bnode.splits dest: map_of_SomeD)

lemma target_of_inj: "target_of x = target_of y \<Longrightarrow> y \<noteq> ''.'' \<Longrightarrow> x = y"
proof -
  assume a: "target_of x = target_of y" "y \<noteq> ''.''"
  have join: "join_slash (Split CHR ''/'' s) = s" for s
  proof (induction s)
    case (Cons c s)
    obtain p ps where p: "Split CHR ''/'' s = p # ps" by (cases "Split CHR ''/'' s") auto
    show ?case
    proof (cases "c = CHR ''/''")
      case True
      then show ?thesis using Cons p by simp
    next
      case False
      have "join_slash ((c # p) # ps) = c # join_slash (p # ps)" by (cases ps) simp_all
      then show ?thesis using Cons p False by simp
    qed
  qed simp
  have "x \<noteq> ''.''" using a by (metis Split_nonempty target_of_def)
  then have "Split CHR ''/'' x = Split CHR ''/'' y" using a by (simp add: target_of_def)
  then have "join_slash (Split CHR ''/'' x) = join_slash (Split CHR ''/'' y)" by (rule arg_cong)
  then show "x = y" unfolding join .
qed

text \<open>C29: a staged release is the signed one and complete: the bytes that were unpacked have the size and the digest of the signed
  artifact, every file but the checksum list itself has its digest in a record of the list, the required files are there, and the
  version and the architecture are those of the manifest.\<close>

theorem staged_release_authentic:
  assumes "Stage e f bundle m a s = (None, s')" "st_destination s' = Some t"
  shows "(\<exists>b. bundle = Some b \<and> (let bytes = take (nat (ar_size a + 1)) (bu_bytes b) in int (length bytes) = ar_size a \<and> be_sha256_hex e bytes = ar_sha256 a))
    \<and> (\<exists>sums. read_file ''SHA256SUMS'' t = Some sums \<and>
         (\<forall>p content. (p, BFile content) \<in> set t \<and> p \<noteq> [''SHA256SUMS''] \<longrightarrow>
            (\<exists>line \<in> set (map drop_cr (scan_lines sums)). target_of (drop 66 line) = p \<and> take 64 line = be_sha256_hex e content)))
    \<and> (\<forall>name \<in> set required_files. \<exists>content. (target_of name, BFile content) \<in> set t)
    \<and> readSmall ''VERSION'' t = Some (version m) \<and> readSmall ''ARCHITECTURE'' t = Some (ar_architecture a)"
proof -
  from Stage_success [OF assms(1)] assms(2) obtain bf bytes where f: "bundle = Some bf" "bytes = take (nat (ar_size a + 1)) (bu_bytes bf)"
    "int (length bytes) = ar_size a" "be_sha256_hex e bytes = ar_sha256 a" "unpack e m a bytes = (None, t)" by auto
  from f(5) obtain b where b: "bundle_inv e b" "bs_tree b = t" "check_staged m a (bs_files b) t = None" by (rule unpack_cases)
  let ?files = "bs_files b"
  from b(3) obtain sums matched where c: "read_file ''SHA256SUMS'' t = Some sums" "check_lines ?files (scan_lines sums) [] = Inr matched"
    "int (length matched) = int (length ?files) - 1" "list_all (\<lambda>name. map_of ?files name \<notin> {None, Some []}) required_files"
    "readSmall ''VERSION'' t = Some (version m)" "readSmall ''ARCHITECTURE'' t = Some (ar_architecture a)"
    by (auto simp: check_staged_def split: if_splits option.splits sum.splits)
  have dist: "distinct (map fst ?files)" using b(1) by (simp add: bundle_inv_def)
  have sums: "(target_of ''SHA256SUMS'', BFile sums) \<in> set t" using read_file_listed [OF b(1)] c(1) b(2) by simp
  have sums_target: "target_of ''SHA256SUMS'' = [''SHA256SUMS'']" by (simp add: target_of_def Split_single)
  have lst: "listed e ?files t" using b by (auto simp: bundle_inv_def)
  have "''SHA256SUMS'' \<in> fst ` set ?files"
  proof -
    from lst sums obtain name where "target_of ''SHA256SUMS'' = target_of name" "(name, be_sha256_hex e sums) \<in> set ?files" unfolding listed_def by blast
    moreover have "name = ''SHA256SUMS''" using target_of_inj [of name "''SHA256SUMS''"] calculation(1) by simp
    ultimately show ?thesis by force
  qed
  note all = check_lines_all [OF c(2) dist c(3) this]
  have lines: "\<exists>line \<in> set (map drop_cr (scan_lines sums)). target_of (drop 66 line) = p \<and> take 64 line = be_sha256_hex e content"
    if "(p, BFile content) \<in> set t" "p \<noteq> [''SHA256SUMS'']" for p content
  proof -
    from lst that(1) obtain name where name: "p = target_of name" "(name, be_sha256_hex e content) \<in> set ?files" unfolding listed_def by blast
    have "name \<noteq> ''SHA256SUMS''" using that(2) name(1) sums_target by auto
    from all [OF name(2) this] obtain line where "line \<in> set (map drop_cr (scan_lines sums))" "drop 66 line = name"
      "be_sha256_hex e content = take 64 line" by blast
    then show ?thesis using name(1) by (intro bexI [of _ line]) auto
  qed
  have required: "\<exists>content. (target_of name, BFile content) \<in> set t" if "name \<in> set required_files" for name
  proof -
    from c(4) that obtain dg where "map_of ?files name = Some dg" by (auto simp: list_all_iff)
    then have "(name, dg) \<in> set ?files" by (rule map_of_SomeD)
    then show ?thesis using b unfolding bundle_inv_def recorded_def by blast
  qed
  show ?thesis using f lines required c(1,5,6) by (auto simp: Let_def)
qed

section \<open>A concrete bundle\<close>

definition demo_digest :: string where
  "demo_digest = replicate 64 CHR ''0''"

definition demo_content :: "string \<Rightarrow> string" where
  "demo_content name = (if name = ''VERSION'' then ''v1'' else if name = ''ARCHITECTURE'' then ''amd64''
     else if name \<in> set image_files then ''sha256:'' @ demo_digest else ''x'')"

definition demo_item :: "string \<Rightarrow> string \<Rightarrow> tar_item" where
  "demo_item name content = TarFile \<lparr>th_Name = ''./'' @ name, th_Typeflag = TarReg, th_Size = int (length content)\<rparr> content False"

definition demo_bundle :: bundle_file where
  "demo_bundle = \<lparr>bu_regular = True, bu_size = 4, bu_bytes = ''data''\<rparr>"

definition demo_bundle_artifact :: artifact where
  "demo_bundle_artifact = \<lparr>ar_architecture = ''amd64'', ar_url = ''https://r.example/b'', ar_size = 4, ar_sha256 = demo_digest\<rparr>"

definition demo_bundle_manifest :: manifest where
  "demo_bundle_manifest = (demo_manifest 0)\<lparr>version := ''v1''\<rparr>"

text \<open>Files at the top of the archive or in its directory \<^verbatim>\<open>web\<close> are unpacked one after the other.\<close>

definition simple_name :: "string \<Rightarrow> bool" where
  "simple_name n \<longleftrightarrow> \<not> unsafe_name [] n \<and> last n \<noteq> CHR ''/'' \<and> n \<noteq> ''.'' \<and>
     (case target_of n of [f] \<Rightarrow> f \<noteq> ''web'' | [d, f] \<Rightarrow> d = ''web'' | _ \<Rightarrow> False)"

lemma simple_name_target:
  assumes "simple_name n"
  shows "target_of n \<noteq> [''web'']" "target_of n \<noteq> []" "butlast (target_of n) = [] \<or> butlast (target_of n) = [''web'']"
  using assms by (auto simp: simple_name_def split: list.splits)

lemma MkdirAll_web:
  assumes "butlast q = [] \<or> butlast q = [''web'']" "map_of t [''web''] \<in> {None, Some BDir}"
  shows "\<exists>t'. MkdirAll (butlast q) t = Some t' \<and> map_of t' [''web''] \<in> {None, Some BDir} \<and> (\<forall>p. p \<noteq> [''web''] \<longrightarrow> map_of t' p = map_of t p)"
  using assms by (auto simp: MkdirAll_def map_add_def split: option.splits)

lemma extract_simple_file:
  assumes "simple_name n" "n \<notin> set (bs_entries b)" "int (length (bs_entries b)) < 4096" "int (length c) \<le> max_archive"
    and "bs_total b + int (length c) \<le> 16 * 2 ^ 30" "map_of (bs_tree b) [''web''] \<in> {None, Some BDir}" "map_of (bs_tree b) (target_of n) = None" "be_fault e n = None"
  shows "\<exists>b'. (\<forall>items. extract_items e (demo_item n c # items) b = extract_items e items b') \<and> bs_entries b' = bs_entries b @ [n]
    \<and> bs_files b' = bs_files b @ [(n, be_sha256_hex e c)] \<and> bs_total b' = bs_total b + int (length c)
    \<and> map_of (bs_tree b') [''web''] \<in> {None, Some BDir} \<and> map_of (bs_tree b') (target_of n) = Some (BFile c)
    \<and> (\<forall>p. p \<noteq> [''web''] \<and> p \<noteq> target_of n \<longrightarrow> map_of (bs_tree b') p = map_of (bs_tree b) p)"
proof -
  note target = simple_name_target [OF assms(1)]
  have safe: "\<not> unsafe_name (bs_entries b) n" using assms(1-3) by (auto simp: simple_name_def unsafe_name_def)
  have "n \<noteq> []" "last n \<noteq> CHR ''/''" using assms(1) by (auto simp: simple_name_def unsafe_name_def)
  then have name: "TrimSuffix_slash (TrimPrefix (''./'' @ n) ''./'') = n" by (simp add: TrimSuffix_slash_def TrimPrefix_def HasPrefix_def)
  let ?b1 = "b\<lparr>bs_entries := bs_entries b @ [n]\<rparr>"
  from MkdirAll_web [OF target(3) assms(6)] obtain t where t: "MkdirAll (butlast (target_of n)) (bs_tree b) = Some t"
    "map_of t [''web''] \<in> {None, Some BDir}" "\<forall>p. p \<noteq> [''web''] \<longrightarrow> map_of t p = map_of (bs_tree b) p" by blast
  have fresh: "map_of t (target_of n) = None" using t(3) target(1) assms(7) by simp
  let ?h = "\<lparr>th_Name = ''./'' @ n, th_Typeflag = TarReg, th_Size = int (length c)\<rparr>"
  define b' where "b' = ?b1\<lparr>bs_total := bs_total b + int (length c), bs_tree := t @ [(target_of n, BFile c)],
      bs_files := bs_files b @ [(n, be_sha256_hex e c)]\<rparr>"
  have "extract_file e n ?h c False ?b1 = (None, b')"
    using assms(4,5,8) t(1) fresh target(2) by (simp add: extract_file_def make_dirs_def write_file_def create_excl_def b'_def Let_def)
  then have "extract_items e (demo_item n c # items) b = extract_items e items b'" for items
    unfolding demo_item_def using name safe by (simp del: append_Cons)
  moreover have "map_of (t @ [(target_of n, BFile c)]) p = (if map_of t p = None \<and> p = target_of n then Some (BFile c) else map_of t p)" for p
    by (auto simp: map_add_def split: option.split)
  ultimately show ?thesis using t fresh target by (intro exI [of _ b']) (auto simp: b'_def)
qed

lemma extract_simple_files:
  assumes "\<forall>n \<in> set ns. simple_name n \<and> n \<notin> set (bs_entries b) \<and> int (length (content n)) \<le> max_archive \<and> map_of (bs_tree b) (target_of n) = None"
    and "distinct ns" "int (length (bs_entries b)) + int (length ns) \<le> 4096" "bs_total b + (\<Sum>n\<leftarrow>ns. int (length (content n))) \<le> 16 * 2 ^ 30"
    and "map_of (bs_tree b) [''web''] \<in> {None, Some BDir}" "\<forall>n. be_fault e n = None" "inj_on target_of (set ns)"
  shows "\<exists>b'. extract_items e (map (\<lambda>n. demo_item n (content n)) ns) b = (None, b') \<and> bs_files b' = bs_files b @ map (\<lambda>n. (n, be_sha256_hex e (content n))) ns
    \<and> (\<forall>n \<in> set ns. map_of (bs_tree b') (target_of n) = Some (BFile (content n)))
    \<and> (\<forall>p. p \<noteq> [''web''] \<and> p \<notin> target_of ` set ns \<longrightarrow> map_of (bs_tree b') p = map_of (bs_tree b) p)"
  using assms
proof (induction ns arbitrary: b)
  case (Cons n ns)
  have pos: "0 \<le> (\<Sum>n\<leftarrow>ns. int (length (content n)))" by (rule sum_list_nonneg) auto
  have "\<exists>b'. (\<forall>items. extract_items e (demo_item n (content n) # items) b = extract_items e items b') \<and> bs_entries b' = bs_entries b @ [n]
    \<and> bs_files b' = bs_files b @ [(n, be_sha256_hex e (content n))] \<and> bs_total b' = bs_total b + int (length (content n))
    \<and> map_of (bs_tree b') [''web''] \<in> {None, Some BDir} \<and> map_of (bs_tree b') (target_of n) = Some (BFile (content n))
    \<and> (\<forall>p. p \<noteq> [''web''] \<and> p \<noteq> target_of n \<longrightarrow> map_of (bs_tree b') p = map_of (bs_tree b) p)"
    by (rule extract_simple_file) (use Cons.prems pos in auto)
  then obtain b1 where b1: "\<And>items. extract_items e (demo_item n (content n) # items) b = extract_items e items b1" "bs_entries b1 = bs_entries b @ [n]"
    "bs_files b1 = bs_files b @ [(n, be_sha256_hex e (content n))]" "bs_total b1 = bs_total b + int (length (content n))"
    "map_of (bs_tree b1) [''web''] \<in> {None, Some BDir}" "map_of (bs_tree b1) (target_of n) = Some (BFile (content n))"
    "\<And>p. p \<noteq> [''web''] \<Longrightarrow> p \<noteq> target_of n \<Longrightarrow> map_of (bs_tree b1) p = map_of (bs_tree b) p" by blast
  have other: "target_of k \<noteq> target_of n \<and> target_of k \<noteq> [''web'']" if "k \<in> set ns" for k
    using that Cons.prems(1,2,7) simple_name_target(1) by (auto simp: inj_on_def)
  have "\<exists>b'. extract_items e (map (\<lambda>n. demo_item n (content n)) ns) b1 = (None, b') \<and> bs_files b' = bs_files b1 @ map (\<lambda>n. (n, be_sha256_hex e (content n))) ns
    \<and> (\<forall>n \<in> set ns. map_of (bs_tree b') (target_of n) = Some (BFile (content n)))
    \<and> (\<forall>p. p \<noteq> [''web''] \<and> p \<notin> target_of ` set ns \<longrightarrow> map_of (bs_tree b') p = map_of (bs_tree b1) p)"
    by (rule Cons.IH) (use Cons.prems b1 other in \<open>auto simp: inj_on_def\<close>)
  then obtain b2 where b2: "extract_items e (map (\<lambda>n. demo_item n (content n)) ns) b1 = (None, b2)" "bs_files b2 = bs_files b1 @ map (\<lambda>n. (n, be_sha256_hex e (content n))) ns"
    "\<forall>n \<in> set ns. map_of (bs_tree b2) (target_of n) = Some (BFile (content n))"
    "\<And>p. p \<noteq> [''web''] \<Longrightarrow> p \<notin> target_of ` set ns \<Longrightarrow> map_of (bs_tree b2) p = map_of (bs_tree b1) p" by blast
  have "target_of n \<notin> target_of ` set ns" using other by force
  then have "map_of (bs_tree b2) (target_of n) = Some (BFile (content n))"
    using b2(4) b1(6) simple_name_target(1) Cons.prems(1) by auto
  then show ?case using b1 b2 by (intro exI [of _ b2]) auto
qed simp

lemma scan_records: "\<forall>l \<in> set ls. CHR 0x0A \<notin> set l \<Longrightarrow> scan_lines (concat (map (\<lambda>l. l @ [CHR 0x0A]) ls)) = ls"
proof -
  assume "\<forall>l \<in> set ls. CHR 0x0A \<notin> set l"
  then have "Split CHR 0x0A (concat (map (\<lambda>l. l @ [CHR 0x0A]) ls)) = ls @ [[]]" by (induction ls) (simp_all add: Split_append)
  then show ?thesis by (simp add: scan_lines_def)
qed

lemma check_records:
  assumes "\<forall>n \<in> set ns. n \<noteq> [] \<and> last n \<noteq> CHR 0x0D \<and> length n < 1000 \<and> n \<noteq> ''SHA256SUMS'' \<and> map_of files n = Some dg" "distinct ns"
    and "set ns \<inter> set matched = {}" "length dg = 64"
  shows "check_lines files (map (\<lambda>n. dg @ ''  '' @ n) ns) matched = Inr (matched @ ns)"
  using assms
proof (induction ns arbitrary: matched)
  case (Cons n ns)
  have "drop_cr (dg @ ''  '' @ n) = dg @ ''  '' @ n" using Cons.prems(1) by (auto simp: drop_cr_def)
  moreover have "1 \<le> length n" using Cons.prems(1) by (cases n) auto
  ultimately show ?case using Cons by (auto simp: Let_def)
qed simp

definition demo_sums :: string where
  "demo_sums = concat (map (\<lambda>l. l @ [CHR 0x0A]) (map (\<lambda>n. demo_digest @ ''  '' @ n) required_files))"

definition demo_text :: "string \<Rightarrow> string" where
  "demo_text n = (if n = ''SHA256SUMS'' then demo_sums else demo_content n)"

lemma demo_names_ok:
  "list_all simple_name (''SHA256SUMS'' # required_files)" "distinct (map target_of (''SHA256SUMS'' # required_files))"
  "list_all (\<lambda>n. n \<noteq> [] \<and> last n \<noteq> CHR 0x0D \<and> CHR 0x0A \<notin> set n \<and> length n < 40 \<and> n \<noteq> ''SHA256SUMS'') required_files"
  by code_simp+

lemma demo_contents:
  "length demo_digest = 64" "CHR 0x0A \<notin> set demo_digest" "length (demo_text n) \<le> 71 \<or> n = ''SHA256SUMS'' \<and> length (demo_text n) < 4000"
proof -
  have "length (concat (map (\<lambda>l. l @ [CHR 0x0A]) (map (\<lambda>n. demo_digest @ ''  '' @ n) ns))) = (\<Sum>n\<leftarrow>ns. 67 + length n)" for ns
    by (induction ns) (auto simp: demo_digest_def)
  then have "length demo_sums = (\<Sum>n\<leftarrow>required_files. 67 + length n)" by (simp only: demo_sums_def)
  also have "\<dots> < 4000" by (simp add: required_files_def)
  finally show "length (demo_text n) \<le> 71 \<or> n = ''SHA256SUMS'' \<and> length (demo_text n) < 4000"
    by (auto simp: demo_text_def demo_content_def demo_digest_def)
qed (simp_all add: demo_digest_def)

definition demo_archive :: tar_archive where
  "demo_archive = \<lparr>ta_items = TarFile \<lparr>th_Name = ''./'', th_Typeflag = TarDir, th_Size = 0\<rparr> [] False
       # map (\<lambda>n. demo_item n (demo_text n)) (''SHA256SUMS'' # required_files),
     ta_trailer = Some (replicate 3 CHR 0x00)\<rparr>"

definition demo_bundle_env :: bundle_env where
  "demo_bundle_env = \<lparr>be_sha256_hex = (\<lambda>_. demo_digest), be_untar = (\<lambda>_. Some demo_archive), be_fault = (\<lambda>_. None)\<rparr>"

lemma demo_extracted:
  "\<exists>b. extract_items demo_bundle_env (ta_items demo_archive) \<lparr>bs_entries = [], bs_files = [], bs_total = 0, bs_root = False, bs_tree = []\<rparr> = (None, b)
    \<and> bs_files b = map (\<lambda>n. (n, demo_digest)) (''SHA256SUMS'' # required_files)
    \<and> (\<forall>n \<in> set (''SHA256SUMS'' # required_files). map_of (bs_tree b) (target_of n) = Some (BFile (demo_text n)))"
proof -
  let ?b0 = "\<lparr>bs_entries = [], bs_files = [], bs_total = 0, bs_root = True, bs_tree = []\<rparr>"
  have small: "int (length (demo_text n)) \<le> 4000" for n using demo_contents(3) [of n] by auto
  have max: "int (length (demo_text n)) \<le> max_archive" for n using small [of n] by (simp add: max_archive_def)
  have sum: "(\<Sum>n\<leftarrow>ns. int (length (demo_text n))) \<le> 4000 * int (length ns)" for ns
    by (induction ns) (use small in \<open>simp_all add: algebra_simps add_mono\<close>)
  have count: "length required_files = 34" by (simp add: required_files_def)
  have "\<exists>b'. extract_items demo_bundle_env (map (\<lambda>n. demo_item n (demo_text n)) (''SHA256SUMS'' # required_files)) ?b0 = (None, b')
    \<and> bs_files b' = bs_files ?b0 @ map (\<lambda>n. (n, be_sha256_hex demo_bundle_env (demo_text n))) (''SHA256SUMS'' # required_files)
    \<and> (\<forall>n \<in> set (''SHA256SUMS'' # required_files). map_of (bs_tree b') (target_of n) = Some (BFile (demo_text n)))
    \<and> (\<forall>p. p \<noteq> [''web''] \<and> p \<notin> target_of ` set (''SHA256SUMS'' # required_files) \<longrightarrow> map_of (bs_tree b') p = map_of (bs_tree ?b0) p)"
  proof (rule extract_simple_files)
    show "\<forall>n \<in> set (''SHA256SUMS'' # required_files). simple_name n \<and> n \<notin> set (bs_entries ?b0) \<and> int (length (demo_text n)) \<le> max_archive
        \<and> map_of (bs_tree ?b0) (target_of n) = None"
      using demo_names_ok(1) max by (auto simp: list_all_iff)
    show "distinct (''SHA256SUMS'' # required_files)" "inj_on target_of (set (''SHA256SUMS'' # required_files))"
      using demo_names_ok(2) unfolding distinct_map by blast+
    show "bs_total ?b0 + (\<Sum>n\<leftarrow>''SHA256SUMS'' # required_files. int (length (demo_text n))) \<le> 16 * 2 ^ 30"
      using sum [of "''SHA256SUMS'' # required_files"] count by simp
  qed (simp_all add: count demo_bundle_env_def)
  then show ?thesis by (auto simp: demo_archive_def demo_bundle_env_def)
qed

lemma demo_checked:
  assumes "bs_files b = map (\<lambda>n. (n, demo_digest)) (''SHA256SUMS'' # required_files)"
    and "\<forall>n \<in> set (''SHA256SUMS'' # required_files). map_of (bs_tree b) (target_of n) = Some (BFile (demo_text n))"
  shows "check_staged demo_bundle_manifest demo_bundle_artifact (bs_files b) (bs_tree b) = None"
proof -
  have read: "read_file n (bs_tree b) = Some (demo_text n)" if "n \<in> set (''SHA256SUMS'' # required_files)" for n
    using assms(2) that by (auto simp: read_file_def)
  have req: "''VERSION'' \<in> set required_files" "''ARCHITECTURE'' \<in> set required_files" "set image_files \<subseteq> set required_files"
    by (simp_all add: required_files_def image_files_def)
  have files: "map_of (bs_files b) n = Some demo_digest" if "n \<in> set (''SHA256SUMS'' # required_files)" for n
  proof -
    have "x \<in> set ns \<Longrightarrow> map_of (map (\<lambda>n. (n, demo_digest)) ns) x = Some demo_digest" for x ns by (induction ns) auto
    from this [OF that] show ?thesis unfolding assms(1) .
  qed
  have dist: "distinct required_files" using demo_names_ok(2) unfolding distinct_map by simp
  have "scan_lines demo_sums = map (\<lambda>n. demo_digest @ ''  '' @ n) required_files"
    unfolding demo_sums_def using demo_names_ok(3) demo_contents(2) by (intro scan_records) (auto simp: list_all_iff)
  moreover have "check_lines (bs_files b) (map (\<lambda>n. demo_digest @ ''  '' @ n) required_files) [] = Inr ([] @ required_files)"
  proof (rule check_records)
    show "\<forall>n \<in> set required_files. n \<noteq> [] \<and> last n \<noteq> CHR 0x0D \<and> length n < 1000 \<and> n \<noteq> ''SHA256SUMS'' \<and> map_of (bs_files b) n = Some demo_digest"
    proof
      fix n
      assume n: "n \<in> set required_files"
      then have "n \<noteq> [] \<and> last n \<noteq> CHR 0x0D \<and> CHR 0x0A \<notin> set n \<and> length n < 40 \<and> n \<noteq> ''SHA256SUMS''"
        using demo_names_ok(3) unfolding list_all_iff by (rule bspec [rotated])
      then show "n \<noteq> [] \<and> last n \<noteq> CHR 0x0D \<and> length n < 1000 \<and> n \<noteq> ''SHA256SUMS'' \<and> map_of (bs_files b) n = Some demo_digest"
        using files [of n] n by simp
    qed
  qed (use dist demo_contents(1) in simp_all)
  ultimately have lines: "check_lines (bs_files b) (scan_lines demo_sums) [] = Inr required_files" by simp
  have sums: "read_file ''SHA256SUMS'' (bs_tree b) = Some demo_sums" using read [of "''SHA256SUMS''"] by (simp add: demo_text_def)
  have small: "readSmall n (bs_tree b) = Some (TrimSpace (demo_content n))" if "n \<in> set required_files" "n \<noteq> ''SHA256SUMS''" for n
    using read [of n] that demo_contents(3) [of n] by (simp add: readSmall_def demo_text_def)
  have trims: "TrimSpace ''v1'' = ''v1''" "TrimSpace ''amd64'' = ''amd64''" "TrimSpace (''sha256:'' @ demo_digest) = ''sha256:'' @ demo_digest" by code_simp+
  have "valid_image (bs_tree b) n" if "n \<in> set image_files" for n
  proof -
    have "readSmall n (bs_tree b) = Some (''sha256:'' @ demo_digest)"
      using small [of n] that req(3) trims(3) by (auto simp: demo_content_def image_files_def)
    then show ?thesis by (simp add: valid_image_def HasPrefix_def TrimPrefix_def digestPattern_def demo_digest_def list_all_iff)
  qed
  then have images: "list_all (valid_image (bs_tree b)) image_files" by (simp add: list_all_iff)
  have "demo_content ''VERSION'' = ''v1''" "demo_content ''ARCHITECTURE'' = ''amd64''" by (simp_all add: demo_content_def image_files_def)
  then have small2: "readSmall ''VERSION'' (bs_tree b) = Some ''v1''" "readSmall ''ARCHITECTURE'' (bs_tree b) = Some ''amd64''"
    using small [OF req(1)] small [OF req(2)] trims by simp_all
  have all: "list_all (\<lambda>name. map_of (bs_files b) name \<notin> {None, Some []}) required_files"
    using files demo_contents(1) by (auto simp: list_all_iff)
  have "int (length demo_sums) \<le> 1048576" using demo_contents(3) [of "''SHA256SUMS''"] by (auto simp: demo_text_def)
  then show ?thesis
    using sums lines all small2 images assms(1)
    by (simp add: check_staged_def demo_bundle_manifest_def demo_bundle_artifact_def)
qed

definition demo_faultless :: stage_faults where
  "demo_faultless = \<lparr>sf_temp = False, sf_copy = None, sf_sync = False, sf_mkdir = False, sf_unlink = False, sf_remove = None\<rparr>"

definition demo_parent :: staging where
  "demo_parent = \<lparr>st_destination = None, st_inputs = []\<rparr>"

lemma demo_unpacked: "\<exists>t. unpack demo_bundle_env demo_bundle_manifest demo_bundle_artifact ''data'' = (None, t)"
proof -
  obtain b where b: "extract_items demo_bundle_env (ta_items demo_archive) \<lparr>bs_entries = [], bs_files = [], bs_total = 0, bs_root = False, bs_tree = []\<rparr> = (None, b)"
    "check_staged demo_bundle_manifest demo_bundle_artifact (bs_files b) (bs_tree b) = None"
    using demo_extracted demo_checked by blast
  have "trailer_ok (ta_trailer demo_archive)" by (simp add: demo_archive_def trailer_ok_def list_all_iff)
  moreover have "be_untar demo_bundle_env ''data'' = Some demo_archive" "be_fault demo_bundle_env [] = None" by (simp_all add: demo_bundle_env_def)
  ultimately show ?thesis using b by (simp add: unpack_def)
qed

lemma demo_staged: "\<exists>s t. Stage demo_bundle_env demo_faultless (Some demo_bundle) demo_bundle_manifest demo_bundle_artifact demo_parent = (None, s) \<and> st_destination s = Some t"
proof -
  obtain t where t: "unpack demo_bundle_env demo_bundle_manifest demo_bundle_artifact ''data'' = (None, t)" using demo_unpacked by blast
  have "take (nat (ar_size demo_bundle_artifact + 1)) (bu_bytes demo_bundle) = ''data''" "int (length ''data'') = ar_size demo_bundle_artifact"
    "be_sha256_hex demo_bundle_env ''data'' = ar_sha256 demo_bundle_artifact" "digestPattern (ar_sha256 demo_bundle_artifact)"
    by (simp_all add: demo_bundle_def demo_bundle_artifact_def demo_bundle_env_def digestPattern_def demo_digest_def list_all_iff)
  moreover have "bu_regular demo_bundle" "bu_size demo_bundle = ar_size demo_bundle_artifact" "0 < ar_size demo_bundle_artifact"
    "ar_size demo_bundle_artifact \<le> max_archive"
    by (simp_all add: demo_bundle_def demo_bundle_artifact_def max_archive_def)
  ultimately show ?thesis using t by (simp add: Stage_def demo_faultless_def demo_parent_def)
qed

theorem staging_contained_or_undone_witness:
  "\<exists>s t. Stage demo_bundle_env demo_faultless (Some demo_bundle) demo_bundle_manifest demo_bundle_artifact demo_parent = (None, s)
    \<and> st_destination s = Some t \<and> inside t \<and> st_inputs s = []"
proof -
  obtain s t where s: "Stage demo_bundle_env demo_faultless (Some demo_bundle) demo_bundle_manifest demo_bundle_artifact demo_parent = (None, s)"
    "st_destination s = Some t" using demo_staged by blast
  from staging_contained_or_undone [OF s(1)] s show ?thesis by (auto simp: demo_parent_def demo_faultless_def)
qed

theorem staged_release_authentic_witness:
  "\<exists>s t. Stage demo_bundle_env demo_faultless (Some demo_bundle) demo_bundle_manifest demo_bundle_artifact demo_parent = (None, s)
    \<and> st_destination s = Some t
    \<and> readSmall ''VERSION'' t = Some ''v1'' \<and> (\<forall>name \<in> set required_files. \<exists>content. (target_of name, BFile content) \<in> set t)"
proof -
  obtain s t where s: "Stage demo_bundle_env demo_faultless (Some demo_bundle) demo_bundle_manifest demo_bundle_artifact demo_parent = (None, s)"
    "st_destination s = Some t" using demo_staged by blast
  from staged_release_authentic [OF s] s show ?thesis by (intro exI [of _ s] exI [of _ t]) (simp add: demo_bundle_manifest_def)
qed

end
