(* ===== verification/Relay_Api.thy ===== *)
theory Relay_Api
  imports Broadcast_Settings Edge_Gateway Output_Settings Owner_Auth Release_Bundle
begin

text \<open>
  The application programming interface as a whole: \<^verbatim>\<open>Handler\<close> and the handlers of the operator in \<^verbatim>\<open>application/api.go\<close>, the routes of the
  owner in \<^verbatim>\<open>users.go\<close>, \<^verbatim>\<open>source.go\<close> and \<^verbatim>\<open>updates.go\<close>. They compose the components of the other theories over one state. A request is
  answered as a whole here; that the transactions of concurrent requests do not interfere is the matter of those theories.
  The decoders of request bodies (with their limits of the size), the URL parser, the updater of the host and the clocks are arguments. A path is
  one without percent-encoding. The configuration has a store, and an updater when updates are enabled.
\<close>

section \<open>State, requests and answers\<close>

record 's relay_state =
  rl_db :: db
  rl_accounts :: "(string \<times> string) list"
  rl_sources :: "(string \<times> string) list"
  rl_slates :: "slate_row list"
  rl_profiles :: "profile_row list"
  rl_assets :: "asset_row list"
  rl_credentials :: "(string \<times> string) list"
  rl_audit :: "(string \<times> string \<times> string) list"
  rl_auth :: auth_db
  rl_attempts :: "attempt_row list"
  rl_keys :: 's

record http_request =
  rq_method :: string
  rq_path :: string
  rq_generation :: string
  rq_host :: string
  rq_origin :: string
  rq_fetch_site :: string
  rq_streamtool :: string
  rq_content_type :: string
  rq_authorization :: string
  rq_if_match :: string
  rq_setup_token :: string
  rq_cookie :: string
  rq_body :: string

datatype relay_answer =
    Code int
  | FromSource source_answer
  | FromStudio studio_answer
  | FromOutput output_answer
  | FromStatus "int + string \<times> session_status \<times> bool \<times> stop_reason"
  | StreamView stream_row
  | NewStream stream_row string
  | NewAccount string
  | Observed int string
  | Account string
  | SetupRequired bool
  | UpdateOverview string string
  | UpdateReceipt string update_state

record body_codec =
  bc_password :: "string \<Rightarrow> string option"
  bc_credentials :: "string \<Rightarrow> owner_credentials option"
  bc_update :: "string \<Rightarrow> (string \<times> string \<times> string) option"
  bc_slate :: "string \<Rightarrow> slate_input option"
  bc_media :: "string \<Rightarrow> (media_profile \<times> int) option"
  bc_output :: "string \<Rightarrow> output_input option"
  bc_account :: "string \<Rightarrow> string option"
  bc_stream :: "string \<Rightarrow> (string \<times> string \<times> string) option"
  bc_stream_edit :: "string \<Rightarrow> (string \<times> bool) option"
  bc_destination :: "string \<Rightarrow> (string \<times> string \<times> string) option"
  bc_observation :: "string \<Rightarrow> edge_observation option"

record api_config =
  ap_InsecureCookies :: bool
  ap_SetupToken :: string
  ap_AdminToken :: string
  ap_UpdatesEnabled :: bool
  ap_MaintenanceDirectory :: string
  ap_TrustedProxies :: "prefix list"
  ap_edge :: edge_api

text \<open>The surroundings of one request; \<open>av_used\<close> are the slots of the three channels that are taken when the request arrives.\<close>

record ('e, 's, 'i) api_env =
  av_source :: "('e, 's) source_env"
  av_output :: "('e, 's) output_env"
  av_studio :: "'i studio_env"
  av_gateway :: gateway_env
  av_crypto :: crypto
  av_chance :: chance
  av_net :: net_lib
  av_digest :: "string \<Rightarrow> string"
  av_admission :: auth_request
  av_codec :: body_codec
  av_url :: "string \<Rightarrow> url option"
  av_equal_fold :: "string \<Rightarrow> string \<Rightarrow> bool"
  av_catalog :: "string option option"
  av_host_phase :: "string option"
  av_gate :: gate_dir
  av_now :: time
  av_uuid :: string
  av_raw :: string
  av_used :: "nat \<times> nat \<times> nat"
  av_fault :: "nat \<Rightarrow> bool"

text \<open>The parts of the state that the components work on.\<close>

definition source_part :: "'s relay_state \<Rightarrow> 's source_state" where
  "source_part s = \<lparr>so_db = rl_db s, so_sources = rl_sources s, so_slates = rl_slates s, so_profiles = rl_profiles s, so_credentials = rl_credentials s,
     so_users = map (\<lambda>u. (us_account u, us_hash u, us_salt u)) (users (rl_auth s)), so_attempts = rl_attempts s, so_audit = rl_audit s, so_keys = rl_keys s\<rparr>"

definition put_source :: "'s source_state \<Rightarrow> 's relay_state \<Rightarrow> 's relay_state" where
  "put_source x s = s\<lparr>rl_db := so_db x, rl_sources := so_sources x, rl_slates := so_slates x, rl_profiles := so_profiles x,
     rl_credentials := so_credentials x, rl_attempts := so_attempts x, rl_audit := so_audit x, rl_keys := so_keys x\<rparr>"

definition studio_part :: "'s relay_state \<Rightarrow> studio" where
  "studio_part s = \<lparr>sd_db = rl_db s, sd_slates = rl_slates s, sd_profiles = rl_profiles s, sd_assets = rl_assets s, sd_audit = rl_audit s\<rparr>"

definition put_studio :: "studio \<Rightarrow> 's relay_state \<Rightarrow> 's relay_state" where
  "put_studio x s = s\<lparr>rl_db := sd_db x, rl_slates := sd_slates x, rl_profiles := sd_profiles x, rl_assets := sd_assets x, rl_audit := sd_audit x\<rparr>"

definition settings_part :: "'s relay_state \<Rightarrow> 's settings" where
  "settings_part s = \<lparr>sg_db = rl_db s, sg_keys = rl_keys s, sg_audit = rl_audit s\<rparr>"

definition put_settings :: "'s settings \<Rightarrow> 's relay_state \<Rightarrow> 's relay_state" where
  "put_settings x s = s\<lparr>rl_db := sg_db x, rl_keys := sg_keys x, rl_audit := sg_audit x\<rparr>"

section \<open>The routes of a source\<close>

definition owner_stop :: "('e, 's, 'i) api_env \<Rightarrow> string \<Rightarrow> 's relay_state \<Rightarrow> relay_answer \<times> 's relay_state" where
  "owner_stop v i s =
     (if av_fault v 5 then (Code 503, s)
      else case latest (filter (\<lambda>x. ss_stream x = i \<and> session_active x) (sessions (rl_db s))) of
          None \<Rightarrow> (Code 204, s)
        | Some x \<Rightarrow> (case api_stopSession (av_now v) (ss_id x) (rl_db s) of (status, d) \<Rightarrow> (Code status, s\<lparr>rl_db := d\<rparr>)))"

definition sourceRoutes :: "('e, 's, 'i) api_env \<Rightarrow> http_request \<Rightarrow> string \<Rightarrow> 's relay_state \<Rightarrow> relay_answer \<times> 's relay_state" where
  "sourceRoutes v q account s =
     (let m = rq_method q; body = rq_body q; act = TrimPrefix (rq_path q) ''/v1/me/source/'' in
      if rq_path q = ''/v1/me/source'' \<or> rq_path q = ''/v1/me/source/credential''
      then (case source (av_source v) account (rq_path q = ''/v1/me/source/credential'') m (bc_password (av_codec v) body) (source_part s) of
              (a, x) \<Rightarrow> (FromSource a, put_source x s))
      else if av_fault v 4 then (Code 404, s)
      else case map_of (rl_sources s) account of
          None \<Rightarrow> (Code 404, s)
        | Some i \<Rightarrow>
            if act = ''fallback''
            then (case userFallback (av_studio v) i m (rq_generation q) (rq_content_type q) (if av_fault v 10 then None else Some body) (studio_part s) of
                    (a, x) \<Rightarrow> (FromStudio a, put_studio x s))
            else if act = ''media''
            then (case userMedia (av_studio v) i m (bc_media (av_codec v) body) (studio_part s) of (a, x) \<Rightarrow> (FromStudio a, put_studio x s))
            else if act = ''slate''
            then (case userSlate (av_studio v) account i m (bc_slate (av_codec v) body) (studio_part s) of (a, x) \<Rightarrow> (FromStudio a, put_studio x s))
            else if act = ''outputs'' \<or> HasPrefix act ''outputs/''
            then (case userOutput (av_output v) account i m act (bc_output (av_codec v) body) (settings_part s) of
                    (a, x) \<Rightarrow> (FromOutput a, put_settings x s))
            else if m = ''GET'' \<and> act = ''status'' then (FromStatus (status_view (av_now v) i (rl_db s)), s)
            else if m = ''POST'' \<and> act = ''stop'' then owner_stop v i s
            else (Code 404, s))"

section \<open>Updates\<close>

definition edge_heard :: "time \<Rightarrow> string \<Rightarrow> db \<Rightarrow> bool" where
  "edge_heard now edge d \<longleftrightarrow> list_ex (\<lambda>(e, t). e = edge \<and> t > now - 6 * second) (edge_health d)"

definition relay_idle :: "time \<Rightarrow> string \<Rightarrow> db \<Rightarrow> bool" where
  "relay_idle now edge d \<longleftrightarrow> edge_heard now edge d \<and> \<not> list_ex (\<lambda>c. ic_status c = Connected) (connections d)
     \<and> \<not> list_ex session_active (sessions d) \<and> \<not> list_ex allocation_active (allocations d)"

text \<open>What a new request for an update has to pass: the answer, if it does not, and the counters of attempts.\<close>

definition update_admission ::
  "api_config \<Rightarrow> ('e, 's, 'i) api_env \<Rightarrow> string \<Rightarrow> 's relay_state \<Rightarrow> int option \<times> attempt_row list" where
  "update_admission a v digest s =
     (case authAdmission (av_net v) (ap_TrustedProxies a) (av_digest v) (av_admission v) (rl_attempts s) of
        (Some status, t) \<Rightarrow> (Some status, t)
      | (None, t) \<Rightarrow>
          (case av_catalog v of
             None \<Rightarrow> (Some 503, t)
           | Some target \<Rightarrow>
               if target \<noteq> Some digest then (Some 409, t)
               else (case av_host_phase v of
                       None \<Rightarrow> (Some 503, t)
                     | Some phase \<Rightarrow>
                         if phase \<notin> {''IDLE'', ''SUCCEEDED'', ''ROLLED_BACK'', ''FAILED''} then (Some 409, t)
                         else if av_fault v 7 then (Some 503, t)
                         else if \<not> relay_idle (av_now v) (ea_EdgeID (ap_edge a)) (rl_db s) then (Some 409, t)
                         else (None, t))))"

definition authorize_request ::
  "api_config \<Rightarrow> ('e, 's, 'i) api_env \<Rightarrow> string \<Rightarrow> string \<Rightarrow> string \<Rightarrow> string \<Rightarrow> 's relay_state \<Rightarrow> relay_answer \<times> 's relay_state" where
  "authorize_request a v token i digest code s =
     (case authorizeUpdate (av_crypto v) (av_now v) (ap_MaintenanceDirectory a) (av_gate v) token i digest code (rl_auth s) of
        (UpdateProof, d) \<Rightarrow> (Code 401, s\<lparr>rl_auth := d\<rparr>)
      | (UpdateConflict, d) \<Rightarrow> (Code 409, s\<lparr>rl_auth := d\<rparr>)
      | (UpdateUnavailable, d) \<Rightarrow> (Code 503, s\<lparr>rl_auth := d\<rparr>)
      | (Authorized _, d) \<Rightarrow>
          (case find (\<lambda>u. up_id u = i) (update_authorizations d) of
             None \<Rightarrow> (Code 503, s\<lparr>rl_auth := d\<rparr>)
           | Some u \<Rightarrow> (UpdateReceipt i (up_state u), s\<lparr>rl_auth := d\<rparr>)))"

text \<open>
  The checks of a request for an update, before its transaction, with the counters of attempts: whether the request is known already is read in
  \<open>sx\<close>, the rest in \<open>s\<close>. The transaction of \<open>authorize_request\<close> runs later, on whatever the database then holds; \<open>updateRoutes\<close> is the request
  that nobody interrupts.
\<close>

definition update_checks ::
  "api_config \<Rightarrow> ('e, 's, 'i) api_env \<Rightarrow> http_request \<Rightarrow> 's relay_state \<Rightarrow> 's relay_state \<Rightarrow>
   (relay_answer + string \<times> string \<times> string) \<times> attempt_row list" where
  "update_checks a v q sx s =
     (if 4096 < int (length (rq_body q)) then (Inl (Code 400), rl_attempts s)
      else case bc_update (av_codec v) (rq_body q) of
          None \<Rightarrow> (Inl (Code 400), rl_attempts s)
        | Some (i, digest, code) \<Rightarrow>
            if av_fault v 6 then (Inl (Code 503), rl_attempts s)
            else if list_ex (\<lambda>u. up_id u = i) (update_authorizations (rl_auth sx)) then (Inr (i, digest, code), rl_attempts s)
            else (case update_admission a v digest s of
                    (Some status, t) \<Rightarrow> (Inl (Code status), t)
                  | (None, t) \<Rightarrow> (Inr (i, digest, code), t)))"

definition updateRoutes :: "api_config \<Rightarrow> ('e, 's, 'i) api_env \<Rightarrow> http_request \<Rightarrow> string \<Rightarrow> 's relay_state \<Rightarrow> relay_answer \<times> 's relay_state" where
  "updateRoutes a v q token s =
     (if \<not> ap_UpdatesEnabled a then (Code 404, s)
      else if rq_method q = ''GET'' then
        (case (av_catalog v, av_host_phase v) of
           (Some _, Some phase) \<Rightarrow>
             if av_fault v 5 then (Code 503, s)
             else (UpdateOverview phase (case find (\<lambda>u. up_state u = PENDING) (update_authorizations (rl_auth s)) of None \<Rightarrow> [] | Some u \<Rightarrow> up_id u), s)
         | _ \<Rightarrow> (Code 503, s))
      else if rq_method q \<noteq> ''POST'' then (Code 405, s)
      else case update_checks a v q s s of
          (Inl r, t) \<Rightarrow> (r, s\<lparr>rl_attempts := t\<rparr>)
        | (Inr (i, digest, code), t) \<Rightarrow> authorize_request a v token i digest code (s\<lparr>rl_attempts := t\<rparr>))"

section \<open>The routes of the owner\<close>

text \<open>A browser names the origin of a request; requests of other sites are refused.\<close>

definition same_origin :: "api_config \<Rightarrow> ('e, 's, 'i) api_env \<Rightarrow> http_request \<Rightarrow> bool" where
  "same_origin a v q \<longleftrightarrow>
     (rq_origin q \<noteq> [] \<longrightarrow>
        (case av_url v (rq_origin q) of
           None \<Rightarrow> False
         | Some u \<Rightarrow> url_scheme u = (if ap_InsecureCookies a then ''http'' else ''https'') \<and> av_equal_fold v (url_host u) (rq_host q)
             \<and> \<not> url_user u \<and> url_path u = [] \<and> url_query u = [] \<and> url_fragment u = []))
     \<and> rq_fetch_site q \<noteq> ''cross-site''"

definition custom_header :: "http_request \<Rightarrow> bool" where
  "custom_header q \<longleftrightarrow> rq_streamtool q = ''1''
     \<and> (rq_method q = ''PUT'' \<and> rq_path q = ''/v1/me/source/fallback'' \<or> HasPrefix (rq_content_type q) ''application/json'')"

definition sign_in_path :: "string \<Rightarrow> auth_path option" where
  "sign_in_path p =
     (if p = ''/v1/auth/setup'' then Some PathSetup else if p = ''/v1/auth/setup/confirm'' then Some PathConfirm
      else if p = ''/v1/auth/totp/replace'' then Some PathReplace else if p = ''/v1/auth/login'' then Some PathLogin else None)"

definition sign_in_route ::
  "api_config \<Rightarrow> ('e, 's, 'i) api_env \<Rightarrow> auth_path \<Rightarrow> http_request \<Rightarrow> 's relay_state \<Rightarrow> relay_answer \<times> 's relay_state" where
  "sign_in_route a v p q s =
     (case authAdmission (av_net v) (ap_TrustedProxies a) (av_digest v) (av_admission v) (rl_attempts s) of
        (Some status, t) \<Rightarrow> (Code status, s\<lparr>rl_attempts := t\<rparr>)
      | (None, t) \<Rightarrow>
          (let body = bc_credentials (av_codec v) (rq_body q) in
           if p \<noteq> PathConfirm \<and> (p = PathSetup \<longrightarrow> Matches (rq_setup_token q) (ap_SetupToken a))
             \<and> (case body of None \<Rightarrow> False | Some x \<Rightarrow> 12 \<le> length (in_Password x) \<and> length (in_Password x) \<le> 256)
             \<and> acquire 2 (snd (snd (av_used v))) = None
           then (Code 429, s\<lparr>rl_attempts := t\<rparr>)
           else (case signIn (av_crypto v) (av_chance v) (ap_SetupToken a) (rq_setup_token q) p body (rl_auth s) (rl_auth s) of
                   (status, d) \<Rightarrow> (Code (int status), s\<lparr>rl_attempts := t, rl_auth := d\<rparr>))))"

text \<open>The account of the cookie of a request.\<close>

definition request_account :: "('e, 's, 'i) api_env \<Rightarrow> http_request \<Rightarrow> 's relay_state \<Rightarrow> string option" where
  "request_account v q s =
     (if length (rq_cookie q) \<noteq> 43 then None
      else case b64url_decode (av_crypto v) (rq_cookie q) of
          None \<Rightarrow> None
        | Some b \<Rightarrow> if length b \<noteq> 32 \<or> av_fault v 1 then None else session_account (av_crypto v) (av_now v) (rq_cookie q) (rl_auth s))"

definition owner_routes ::
  "api_config \<Rightarrow> ('e, 's, 'i) api_env \<Rightarrow> http_request \<Rightarrow> string \<Rightarrow> 's relay_state \<Rightarrow> relay_answer \<times> 's relay_state" where
  "owner_routes a v q account s =
     (if rq_path q = ''/v1/auth/logout'' \<and> rq_method q = ''POST''
      then (if av_fault v 3 then (Code 503, s) else (Code 204, s\<lparr>rl_auth := logout (av_crypto v) (rq_cookie q) (rl_auth s)\<rparr>))
      else if rq_path q = ''/v1/me'' \<and> rq_method q = ''GET'' then (Account account, s)
      else if rq_path q = ''/v1/me/updates'' then updateRoutes a v q (rq_cookie q) s
      else if rq_path q = ''/v1/me/source'' \<or> HasPrefix (rq_path q) ''/v1/me/source/'' then sourceRoutes v q account s
      else (Code 404, s))"

definition userRoutes :: "api_config \<Rightarrow> ('e, 's, 'i) api_env \<Rightarrow> http_request \<Rightarrow> 's relay_state \<Rightarrow> relay_answer \<times> 's relay_state" where
  "userRoutes a v q s =
     (if rq_method q \<noteq> ''GET'' \<and> (\<not> same_origin a v q \<or> \<not> custom_header q) then (Code 403, s)
      else if rq_path q = ''/v1/auth/setup'' \<and> rq_method q = ''GET''
      then (if av_fault v 0 then (Code 503, s) else (SetupRequired (owner_mfa (rl_auth s) = []), s))
      else case sign_in_path (rq_path q) of
          Some p \<Rightarrow> if rq_method q \<noteq> ''POST'' then (Code 405, s) else sign_in_route a v p q s
        | None \<Rightarrow>
            if rq_path q = ''/v1/auth/register'' then (Code 404, s)
            else (case request_account v q s of
                    None \<Rightarrow> (Code 401, s)
                  | Some account \<Rightarrow>
                      if rq_method q = ''GET'' then owner_routes a v q account s
                      else if av_fault v 2 then (Code 503, s)
                      else (case allow (av_digest v) (''mutation:'' @ account) 60 60 (ms_of (av_now v)) (rl_attempts s) of
                              (allowed, t) \<Rightarrow>
                                if allowed then owner_routes a v q account (s\<lparr>rl_attempts := t\<rparr>) else (Code 429, s\<lparr>rl_attempts := t\<rparr>))))"

section \<open>The handlers of the operator\<close>

definition createAccount :: "('e, 's, 'i) api_env \<Rightarrow> string option \<Rightarrow> 's relay_state \<Rightarrow> relay_answer \<times> 's relay_state" where
  "createAccount v input s =
     (case input of
        None \<Rightarrow> (Code 400, s)
      | Some name \<Rightarrow>
          if name = [] then (Code 400, s)
          else if av_fault v 8 \<or> av_uuid v \<in> fst ` set (rl_accounts s) then (Code 409, s)
          else (NewAccount (av_uuid v), s\<lparr>rl_accounts := rl_accounts s @ [(av_uuid v, name)]\<rparr>))"

definition createStream :: "('e, 's, 'i) api_env \<Rightarrow> (string \<times> string \<times> string) option \<Rightarrow> 's relay_state \<Rightarrow> relay_answer \<times> 's relay_state" where
  "createStream v input s =
     (case input of
        None \<Rightarrow> (Code 400, s)
      | Some (account, name, region) \<Rightarrow>
          if account = [] \<or> name = [] then (Code 400, s)
          else let key = sv_b64url (av_source v) (av_raw v) in
            (case HashKey (sv_pbkdf2 (av_source v)) (sv_salt (av_source v)) key of
               None \<Rightarrow> (Code 500, s)
             | Some hash \<Rightarrow>
                 if av_fault v 8 \<or> account \<notin> fst ` set (rl_accounts s) then (Code 409, s)
                 else (case CreateStream (av_uuid v) (av_now v) account name (if region = [] then ''local'' else region) hash (rl_db s) of
                         (Inl _, _) \<Rightarrow> (Code 409, s)
                       | (Inr st, d) \<Rightarrow> (NewStream st key, s\<lparr>rl_db := d\<rparr>))))"

definition getStream :: "string \<Rightarrow> 's relay_state \<Rightarrow> relay_answer \<times> 's relay_state" where
  "getStream i s = (case GetStream i (rl_db s) of Inl _ \<Rightarrow> (Code 404, s) | Inr (st, _) \<Rightarrow> (StreamView st, s))"

text \<open>\<^verbatim>\<open>strings.Trim\<close> for quotation marks.\<close>

definition Trim_quotes :: "string \<Rightarrow> string" where
  "Trim_quotes s = rev (dropWhile (\<lambda>c. c = CHR 0x22) (rev (dropWhile (\<lambda>c. c = CHR 0x22) s)))"

definition updateStream :: "('e, 's, 'i) api_env \<Rightarrow> string \<Rightarrow> string \<Rightarrow> (string \<times> bool) option \<Rightarrow> 's relay_state \<Rightarrow> relay_answer \<times> 's relay_state" where
  "updateStream v i if_match input s =
     (case ParseInt (Trim_quotes if_match) of
        None \<Rightarrow> (Code 428, s)
      | Some generation \<Rightarrow>
          (case input of
             None \<Rightarrow> (Code 400, s)
           | Some (name, enabled) \<Rightarrow>
               (case UpdateStream (av_now v) i generation name enabled (rl_db s) of
                  (Inl _, _) \<Rightarrow> (Code 409, s)
                | (Inr st, d) \<Rightarrow> (StreamView st, s\<lparr>rl_db := d\<rparr>))))"

text \<open>The table of routes; the segments of the path that are not fixed are identifiers.\<close>

datatype operator_route =
    RCreateAccount | RCreateStream | RGetStream string | RUpdateStream string | RCreateDestination string | RStatus string
  | RStop string | RDrain string | RRetry string | RObserve | RInstallation | RNone

definition operator_route :: "string \<Rightarrow> string \<Rightarrow> operator_route" where
  "operator_route m p =
     (let parts = Split CHR ''/'' p; i = (if 3 < length parts then parts ! 3 else []); n = length parts in
      if m = ''POST'' \<and> p = ''/v1/accounts'' then RCreateAccount
      else if m = ''POST'' \<and> p = ''/v1/streams'' then RCreateStream
      else if m = ''POST'' \<and> p = ''/v1/edge/observations'' then RObserve
      else if (m = ''GET'' \<or> m = ''HEAD'') \<and> p = ''/v1/installation'' then RInstallation
      else if n < 4 \<or> i = [] \<or> take 2 parts \<noteq> [[], ''v1''] then RNone
      else let kind = parts ! 2; rest = drop 4 parts in
        if kind = ''streams'' \<and> rest = [] then (if m = ''GET'' \<or> m = ''HEAD'' then RGetStream i else if m = ''PATCH'' then RUpdateStream i else RNone)
        else if m = ''POST'' \<and> kind = ''streams'' \<and> rest = [''destinations''] then RCreateDestination i
        else if (m = ''GET'' \<or> m = ''HEAD'') \<and> kind = ''streams'' \<and> rest = [''status''] then RStatus i
        else if m = ''POST'' \<and> kind = ''sessions'' \<and> rest = [''stop''] then RStop i
        else if m = ''POST'' \<and> kind = ''nodes'' \<and> rest = [''drain''] then RDrain i
        else if m = ''POST'' \<and> kind = ''destinations'' \<and> rest = [''retry''] then RRetry i
        else RNone)"

text \<open>The multiplexer redirects a path that is not clean.\<close>

definition unclean :: "string \<Rightarrow> bool" where
  "unclean p \<longleftrightarrow> (let parts = tl (Split CHR ''/'' p) in
     list_ex (\<lambda>x. x = []) (butlast parts) \<or> list_ex (\<lambda>x. x = ''.'' \<or> x = ''..'') parts)"

definition with_db :: "'s relay_state \<Rightarrow> int \<times> db \<Rightarrow> relay_answer \<times> 's relay_state" where
  "with_db s r = (Code (fst r), s\<lparr>rl_db := snd r\<rparr>)"

definition operatorRoutes :: "api_config \<Rightarrow> ('e, 's, 'i) api_env \<Rightarrow> http_request \<Rightarrow> 's relay_state \<Rightarrow> relay_answer \<times> 's relay_state" where
  "operatorRoutes a v q s =
     (let c = av_codec v; body = rq_body q in
      if unclean (rq_path q) then (Code 301, s)
      else case operator_route (rq_method q) (rq_path q) of
        RCreateAccount \<Rightarrow> createAccount v (bc_account c body) s
      | RCreateStream \<Rightarrow> createStream v (bc_stream c body) s
      | RGetStream i \<Rightarrow> getStream i s
      | RUpdateStream i \<Rightarrow> updateStream v i (rq_if_match q) (bc_stream_edit c body) s
      | RCreateDestination i \<Rightarrow>
          (case createDestination (av_output v) i (bc_destination c body) (settings_part s) of (r, x) \<Rightarrow> (FromOutput r, put_settings x s))
      | RStatus i \<Rightarrow> (FromStatus (status_view (av_now v) i (rl_db s)), s)
      | RStop i \<Rightarrow> with_db s (api_stopSession (av_now v) i (rl_db s))
      | RDrain i \<Rightarrow> with_db s (api_drainNode i (rl_db s))
      | RRetry i \<Rightarrow> with_db s (api_retryDestination (av_now v) i (rl_db s))
      | RObserve \<Rightarrow>
          (case edgeObservation (ap_edge a) (av_gateway v) (bc_observation c body) (rl_db s) of
             ((status, i), d) \<Rightarrow> (Observed status i, s\<lparr>rl_db := d\<rparr>))
      | RInstallation \<Rightarrow> (Code (if av_fault v 9 then 503 else 200), s)
      | RNone \<Rightarrow> (Code (if rq_method q = ''GET'' \<or> rq_method q = ''HEAD'' then 404 else 405), s))"

section \<open>The handler\<close>

definition owner_path :: "string \<Rightarrow> bool" where
  "owner_path p \<longleftrightarrow> HasPrefix p ''/v1/auth/'' \<or> p = ''/v1/me'' \<or> HasPrefix p ''/v1/me/''"

text \<open>The pages of the web client.\<close>

definition web_page :: "('e, 's, 'i) api_env \<Rightarrow> string \<Rightarrow> int" where
  "web_page v p =
     (if unclean p then 301 else if p = ''/operator'' \<or> p = ''/healthz'' then 200
      else if p \<notin> {''/'', ''/dashboard'', ''/app.js'', ''/style.css''} then 404 else if av_fault v 9 then 503 else 200)"

text \<open>After the fence of the host and the slots.\<close>

definition dispatch :: "api_config \<Rightarrow> ('e, 's, 'i) api_env \<Rightarrow> http_request \<Rightarrow> 's relay_state \<Rightarrow> relay_answer \<times> 's relay_state" where
  "dispatch a v q s =
     (let p = rq_path q in
      if owner_path p then userRoutes a v q s
      else if \<not> HasPrefix p ''/v1/'' \<and> rq_method q = ''GET'' then (Code (web_page v p), s)
      else if p = ''/v1/edge/auth'' \<or> HasPrefix p ''/v1/twitch/'' \<or> HasPrefix p ''/v1/channels/'' then (Code 404, s)
      else if p = ''/healthz'' \<or> p = ''/'' then (Code (if rq_method q = ''HEAD'' then web_page v p else 405), s)
      else if \<not> Bearer (rq_authorization q) (if p = ''/v1/edge/observations'' then ea_EdgeToken (ap_edge a) else ap_AdminToken a) then (Code 401, s)
      else operatorRoutes a v q s)"

definition mutating :: "http_request \<Rightarrow> bool" where
  "mutating q \<longleftrightarrow> rq_method q \<noteq> ''GET'' \<and> rq_method q \<noteq> ''HEAD''"

definition Handler_api :: "api_config \<Rightarrow> ('e, 's, 'i) api_env \<Rightarrow> http_request \<Rightarrow> 's relay_state \<Rightarrow> relay_answer \<times> 's relay_state" where
  "Handler_api a v q s =
     (if mutating q \<and> (case fst (Enter (ap_MaintenanceDirectory a) (av_gate v)) of Inl _ \<Rightarrow> True | Inr _ \<Rightarrow> False) then (Code 503, s)
      else if acquire 64 (fst (av_used v)) = None then (Code 429, s)
      else if rq_method q = ''PUT'' \<and> rq_path q = ''/v1/me/source/fallback'' \<and> acquire 2 (fst (snd (av_used v))) = None then (Code 429, s)
      else dispatch a v q s)"

section \<open>Requests that read\<close>

text \<open>Everything but the counters of attempts and what the key provider learned.\<close>

definition durable :: "'s relay_state \<Rightarrow> db \<times> auth_db \<times> (string \<times> string) list \<times> (string \<times> string) list \<times> slate_row list \<times> profile_row list \<times> asset_row list
    \<times> (string \<times> string) list \<times> (string \<times> string \<times> string) list" where
  "durable s = (rl_db s, rl_auth s, rl_accounts s, rl_sources s, rl_slates s, rl_profiles s, rl_assets s, rl_credentials s, rl_audit s)"

lemma durable_attempts [simp]: "durable (s\<lparr>rl_attempts := t\<rparr>) = durable s"
  by (simp add: durable_def)

lemma durable_put_studio [simp]: "durable (put_studio (studio_part s) s) = durable s"
  by (simp add: durable_def put_studio_def studio_part_def)

lemma durable_put_settings [simp]: "durable (put_settings (settings_part s) s) = durable s"
  by (simp add: durable_def put_settings_def settings_part_def)

lemma source_reads:
  assumes "meth \<noteq> ''POST''"
  shows "durable (put_source (snd (source v account credential meth input (source_part s))) s) = durable s"
proof -
  have "snd (source_get v account x) = x \<or> (\<exists>k. snd (source_get v account x) = x\<lparr>so_keys := k\<rparr>)" for x
    by (auto simp: source_get_def source_view_def split: option.split prod.split)
  from this [of "source_part s"]
  have "\<exists>k. snd (source v account credential meth input (source_part s)) = (source_part s)\<lparr>so_keys := k\<rparr>"
    using assms exI [of "\<lambda>k. source_part s = (source_part s)\<lparr>so_keys := k\<rparr>" "so_keys (source_part s)"] by (auto simp: source_def)
  then show ?thesis by (auto simp: durable_def put_source_def source_part_def)
qed

lemma userSlate_reads: "meth \<noteq> ''PUT'' \<Longrightarrow> snd (userSlate v account i meth x s) = s"
  by (simp add: userSlate_def split: option.split)

lemma userMedia_reads: "meth \<noteq> ''PUT'' \<Longrightarrow> snd (userMedia v i meth x s) = s"
  by (simp add: userMedia_def split: option.split)

lemma userFallback_reads: "meth \<noteq> ''PUT'' \<Longrightarrow> meth \<noteq> ''DELETE'' \<Longrightarrow> snd (userFallback v i meth g mime body s) = s"
  by (simp add: userFallback_def split: option.split)

lemma userOutput_reads: "meth \<notin> {''POST'', ''PUT'', ''DELETE''} \<Longrightarrow> snd (userOutput v account i meth act x s) = s"
  by (auto simp: userOutput_def Let_def)

lemma sourceRoutes_reads:
  assumes "rq_method q \<notin> {''POST'', ''PUT'', ''DELETE''}"
  shows "durable (snd (sourceRoutes v q account s)) = durable s"
  using assms by (simp add: sourceRoutes_def Let_def case_prod_beta source_reads userSlate_reads userMedia_reads userFallback_reads userOutput_reads
      split: option.split)

lemma updateRoutes_reads: "rq_method q \<noteq> ''POST'' \<Longrightarrow> snd (updateRoutes a v q token s) = s"
  by (simp add: updateRoutes_def split: option.split)

lemma owner_routes_reads:
  assumes "rq_method q \<notin> {''POST'', ''PUT'', ''DELETE''}"
  shows "durable (snd (owner_routes a v q account s)) = durable s"
  using assms by (simp add: owner_routes_def sourceRoutes_reads updateRoutes_reads)

lemma userRoutes_reads:
  assumes "rq_method q \<notin> {''POST'', ''PUT'', ''DELETE''}"
  shows "durable (snd (userRoutes a v q s)) = durable s"
  using assms by (simp add: userRoutes_def owner_routes_reads split: option.split prod.split)

lemma operator_route_reads:
  "m = ''GET'' \<or> m = ''HEAD'' \<Longrightarrow> (\<exists>i. operator_route m p = RGetStream i \<or> operator_route m p = RStatus i) \<or> operator_route m p = RInstallation \<or> operator_route m p = RNone"
  unfolding operator_route_def Let_def by (elim disjE) simp_all

lemma getStream_reads [simp]: "snd (getStream i s) = s"
  by (simp add: getStream_def split: sum.split prod.split)

lemma operatorRoutes_reads: "\<not> mutating q \<Longrightarrow> snd (operatorRoutes a v q s) = s"
  using operator_route_reads [of "rq_method q" "rq_path q"]
  by (auto simp: operatorRoutes_def mutating_def Let_def)

lemma dispatch_reads: "\<not> mutating q \<Longrightarrow> durable (snd (dispatch a v q s)) = durable s"
  by (auto simp: dispatch_def Let_def userRoutes_reads operatorRoutes_reads mutating_def)

section \<open>Properties\<close>

text \<open>What makes a request one of the owner, and one of the operator or of the edge.\<close>

definition owner_request :: "api_config \<Rightarrow> ('e, 's, 'i) api_env \<Rightarrow> http_request \<Rightarrow> 's relay_state \<Rightarrow> bool" where
  "owner_request a v q s \<longleftrightarrow> same_origin a v q \<and> custom_header q \<and>
     (\<exists>account. request_account v q s = Some account \<and> fst (allow (av_digest v) (''mutation:'' @ account) 60 60 (ms_of (av_now v)) (rl_attempts s)))"

definition sign_in_request :: "api_config \<Rightarrow> ('e, 's, 'i) api_env \<Rightarrow> http_request \<Rightarrow> 's relay_state \<Rightarrow> bool" where
  "sign_in_request a v q s \<longleftrightarrow> same_origin a v q \<and> custom_header q \<and> rq_method q = ''POST''
     \<and> fst (authAdmission (av_net v) (ap_TrustedProxies a) (av_digest v) (av_admission v) (rl_attempts s)) = None"

definition token_request :: "api_config \<Rightarrow> http_request \<Rightarrow> bool" where
  "token_request a q \<longleftrightarrow>
     Bearer (rq_authorization q) (if rq_path q = ''/v1/edge/observations'' then ea_EdgeToken (ap_edge a) else ap_AdminToken a)"

lemma sign_in_route_change:
  assumes "sign_in_route a v p q s = (r, s')" "durable s' \<noteq> durable s"
  shows "fst (authAdmission (av_net v) (ap_TrustedProxies a) (av_digest v) (av_admission v) (rl_attempts s)) = None
    \<and> s' = s\<lparr>rl_attempts := rl_attempts s', rl_auth := rl_auth s'\<rparr>"
  using assms by (auto simp: sign_in_route_def Let_def split: prod.splits option.splits if_splits)

lemma userRoutes_change:
  assumes "userRoutes a v q s = (r, s')" "durable s' \<noteq> durable s"
  shows "if sign_in_path (rq_path q) = None then owner_request a v q s
    else sign_in_request a v q s \<and> s' = s\<lparr>rl_attempts := rl_attempts s', rl_auth := rl_auth s'\<rparr>"
proof -
  from assms userRoutes_reads [of q a v s] have m: "rq_method q \<noteq> ''GET''" by auto
  have o: "same_origin a v q \<and> custom_header q"
  proof (rule ccontr)
    assume "\<not> ?thesis"
    then have "userRoutes a v q s = (Code 403, s)" using m by (simp add: userRoutes_def)
    with assms show False by simp
  qed
  show ?thesis
  proof (cases "sign_in_path (rq_path q)")
    case None
    from assms m o None obtain account where "request_account v q s = Some account"
      "fst (allow (av_digest v) (''mutation:'' @ account) 60 60 (ms_of (av_now v)) (rl_attempts s))"
      by (auto simp: userRoutes_def split: option.splits prod.splits if_splits)
    with o None show ?thesis by (auto simp: owner_request_def)
  next
    case (Some p)
    with assms m o have "rq_method q = ''POST''" "sign_in_route a v p q s = (r, s')" by (auto simp: userRoutes_def split: if_splits)
    with sign_in_route_change [OF _ assms(2)] Some o show ?thesis by (simp add: sign_in_request_def)
  qed
qed

text \<open>C17: whatever request arrives, the state of the relay only changes for a request that is no read, outside of the maintenance of the host, and
  that is authorized: by a live session of the owner, from the same site and within the limit of changes; by the admission of an
  attempt to sign in, which changes only the tables of authentication; or by the token of the operator or, for observations, of the edge.\<close>

theorem every_change_is_authorized:
  assumes "Handler_api a v q s = (r, s')" "durable s' \<noteq> durable s"
  shows "mutating q \<and> (\<exists>l. fst (Enter (ap_MaintenanceDirectory a) (av_gate v)) = Inr l)
    \<and> (if \<not> owner_path (rq_path q) then token_request a q
       else if sign_in_path (rq_path q) = None then owner_request a v q s
       else sign_in_request a v q s \<and> s' = s\<lparr>rl_attempts := rl_attempts s', rl_auth := rl_auth s'\<rparr>)"
proof -
  from assms have d: "dispatch a v q s = (r, s')" by (auto simp: Handler_api_def split: if_splits)
  have m: "mutating q" using dispatch_reads [of q a v s] d assms(2) by auto
  moreover have "\<exists>l. fst (Enter (ap_MaintenanceDirectory a) (av_gate v)) = Inr l"
    using assms m by (auto simp: Handler_api_def split: sum.splits)
  moreover have "token_request a q" if "\<not> owner_path (rq_path q)"
    using d assms(2) that by (auto simp: dispatch_def token_request_def Let_def split: if_splits)
  moreover have "if sign_in_path (rq_path q) = None then owner_request a v q s
      else sign_in_request a v q s \<and> s' = s\<lparr>rl_attempts := rl_attempts s', rl_auth := rl_auth s'\<rparr>" if "owner_path (rq_path q)"
    by (rule userRoutes_change [OF _ assms(2)]) (use d that in \<open>simp add: dispatch_def\<close>)
  ultimately show ?thesis by simp
qed

text \<open>The other routes leave the tables of authentication alone.\<close>

lemma put_auth [simp]: "rl_auth (put_source x s) = rl_auth s" "rl_auth (put_studio y s) = rl_auth s" "rl_auth (put_settings z s) = rl_auth s"
  by (simp_all add: put_source_def put_studio_def put_settings_def)

lemma sourceRoutes_auth [simp]: "rl_auth (snd (sourceRoutes v q account s)) = rl_auth s"
  by (simp add: sourceRoutes_def owner_stop_def Let_def case_prod_beta split: option.split)

lemma operator_handlers_auth [simp]:
  "rl_auth (snd (createAccount v x s)) = rl_auth s" "rl_auth (snd (createStream v y s)) = rl_auth s"
  "rl_auth (snd (updateStream v i m z s)) = rl_auth s" "rl_auth (snd (with_db s r)) = rl_auth s"
  by (simp_all add: createAccount_def createStream_def updateStream_def with_db_def Let_def split: option.split sum.split prod.split)

lemma operatorRoutes_auth [simp]: "rl_auth (snd (operatorRoutes a v q s)) = rl_auth s"
  by (cases "operator_route (rq_method q) (rq_path q)") (simp_all add: operatorRoutes_def Let_def case_prod_beta)

definition update_ids :: "auth_db \<Rightarrow> string set" where
  "update_ids d = up_id ` set (update_authorizations d)"

lemma update_ids_cancel [simp]: "update_ids (cancel_pending P d) = update_ids d"
  unfolding update_ids_def cancel_pending_def by (simp add: ids_update_where)

lemma update_ids_cong: "update_authorizations d = update_authorizations d' \<Longrightarrow> update_ids d = update_ids d'"
  by (simp add: update_ids_def)


lemma authorize_new_update:
  assumes "u \<in> set (update_authorizations (snd (authorize_new cr now uid h i digest code d)))" "up_id u \<notin> update_ids d"
  shows "u = \<lparr>up_id = i, up_digest = digest, up_user = uid, up_session = h, up_expires = now + 24 * 3600 * second, up_state = PENDING\<rparr>
    \<and> (\<exists>m step. find (\<lambda>m. mf_user m = uid) (owner_mfa d) = Some m
        \<and> secondFactor cr now (no_owner\<lparr>oc_id := uid, oc_encrypted := mf_secret m, oc_lastStep := mf_last_step m\<rparr>)
            \<lparr>in_Password = '''', in_Code = code, in_RecoveryCode = '''', in_EnrollmentToken = ''''\<rparr> = Some (step, True))"
proof -
  have old: "u \<notin> set (update_authorizations d)" "u \<notin> set (update_authorizations (cancel_pending P d))" for P
    using assms(2) update_ids_cancel [of P d] by (auto simp: update_ids_def)
  then show ?thesis using assms(1)
    by (auto simp: authorize_new_def Let_def split: option.splits prod.splits bool.splits if_splits dest!: consume_frame)
      (auto simp: cancel_pending_def)
qed

lemma authorizeUpdate_new:
  assumes "u \<in> set (update_authorizations (snd (authorizeUpdate cr now dr g token i digest code d)))" "up_id u \<notin> update_ids d"
  shows "up_id u = i \<and> up_digest u = digest \<and> up_state u = PENDING
    \<and> (\<exists>x m step. live_session now (sessionHash cr token) d = Some x \<and> up_user u = se_user x \<and> find (\<lambda>m. mf_user m = se_user x) (owner_mfa d) = Some m
        \<and> secondFactor cr now (no_owner\<lparr>oc_id := se_user x, oc_encrypted := mf_secret m, oc_lastStep := mf_last_step m\<rparr>)
            \<lparr>in_Password = '''', in_Code = code, in_RecoveryCode = '''', in_EnrollmentToken = ''''\<rparr> = Some (step, True))"
proof -
  have "u \<notin> set (update_authorizations d)" using assms(2) by (auto simp: update_ids_def)
  with assms(1) obtain x where x: "live_session now (sessionHash cr token) d = Some x"
    and new: "u \<in> set (update_authorizations (snd (authorize_new cr now (se_user x) (sessionHash cr token) i digest code d)))"
    by (auto simp: authorizeUpdate_def Let_def split: if_splits sum.splits option.splits)
  from authorize_new_update [OF new assms(2)] x show ?thesis by auto
qed











section \<open>A concrete request\<close>

definition demo_cookie :: string where
  "demo_cookie = replicate 43 CHR ''z''"

definition demo_request_id :: string where
  "demo_request_id = ''00000000-0000-0000-0000-000000000000''"

definition demo_update_digest :: string where
  "demo_update_digest = replicate 64 CHR ''0''"

definition demo_code :: string where
  "demo_code = TOTPCode demo_hmac (replicate 20 CHR ''k'') 2 6"

definition demo_api_crypto :: crypto where
  "demo_api_crypto = demo_crypto\<lparr>b64url := (\<lambda>b. b @ replicate 11 CHR ''z''), b64url_decode := (\<lambda>t. Some (take 32 t))\<rparr>"

definition demo_api_config :: api_config where
  "demo_api_config = \<lparr>ap_InsecureCookies = False, ap_SetupToken = [], ap_AdminToken = ''admin'', ap_UpdatesEnabled = True, ap_MaintenanceDirectory = [],
     ap_TrustedProxies = demo_trusted, ap_edge = demo_edge_api\<lparr>ea_EdgeID := ''edge''\<rparr>\<rparr>"

definition demo_body_codec :: body_codec where
  "demo_body_codec = \<lparr>bc_password = (\<lambda>_. None), bc_credentials = (\<lambda>_. None), bc_update = (\<lambda>_. Some (demo_request_id, demo_update_digest, demo_code)),
     bc_slate = (\<lambda>_. None), bc_media = (\<lambda>_. None), bc_output = (\<lambda>_. None), bc_account = (\<lambda>_. None), bc_stream = (\<lambda>_. None),
     bc_stream_edit = (\<lambda>_. None), bc_destination = (\<lambda>_. None), bc_observation = (\<lambda>_. None)\<rparr>"

definition demo_api_env :: "(nat \<Rightarrow> key_world, VersionedProvider, string) api_env" where
  "demo_api_env = \<lparr>av_source = demo_source_env, av_output = demo_rotating_env, av_studio = demo_studio_env, av_gateway = demo_gateway_env,
     av_crypto = demo_api_crypto, av_chance = demo_chance, av_net = demo_lib, av_digest = (\<lambda>k. k),
     av_admission = demo_request\<lparr>ar_remote := ''10.0.0.1'', ar_forwarded := '' 1.2.3.4''\<rparr>, av_codec = demo_body_codec,
     av_url = (\<lambda>_. None), av_equal_fold = (=), av_catalog = Some (Some demo_update_digest), av_host_phase = Some ''IDLE'',
     av_gate = dir gate_start, av_now = 61 * second, av_uuid = ''n'', av_raw = replicate 24 CHR ''r'', av_used = (0, 0, 0), av_fault = (\<lambda>_. False)\<rparr>"

definition demo_http :: http_request where
  "demo_http = \<lparr>rq_method = ''POST'', rq_path = ''/v1/me/updates'', rq_generation = [], rq_host = ''relay'', rq_origin = [], rq_fetch_site = ''same-origin'',
     rq_streamtool = ''1'', rq_content_type = ''application/json'', rq_authorization = [], rq_if_match = [], rq_setup_token = [],
     rq_cookie = demo_cookie, rq_body = ''{}''\<rparr>"

definition demo_relay :: "VersionedProvider relay_state" where
  "demo_relay = \<lparr>rl_db = empty_db\<lparr>edge_health := [(''edge'', 60 * second)]\<rparr>, rl_accounts = [], rl_sources = [], rl_slates = [], rl_profiles = [], rl_assets = [],
     rl_credentials = [], rl_audit = [],
     rl_auth = demo_auth\<lparr>user_sessions := [\<lparr>se_hash = demo_cookie, se_user = ''u'', se_expires = 100 * second\<rparr>]\<rparr>,
     rl_attempts = [], rl_keys = demo_provider\<rparr>"

lemma demo_ids_ok: "request_id_ok demo_request_id" "digest_ok demo_update_digest"
  unfolding demo_request_id_def demo_update_digest_def by code_simp+

lemma demo_token_ok: "token_ok demo_api_crypto demo_cookie"
  by (simp add: token_ok_def demo_api_crypto_def demo_cookie_def replicate_add [symmetric])

lemma demo_factor:
  "secondFactor demo_api_crypto (61 * second) (no_owner\<lparr>oc_id := ''u'', oc_encrypted := replicate 20 CHR ''k'', oc_lastStep := 1\<rparr>)
     \<lparr>in_Password = '''', in_Code = demo_code, in_RecoveryCode = '''', in_EnrollmentToken = ''''\<rparr> = Some (2, True)"
proof -
  have s: "totp_step (61 * second) = 2" by (simp add: totp_step_def second_def)
  have shape: "demo_code \<noteq> ''''" using TOTPCode_shape [of demo_hmac "replicate 20 (CHR ''k'')" 2] by (auto simp: demo_code_def)
  have "VerifyTOTP demo_hmac (replicate 20 (CHR ''k'')) demo_code (61 * second) = (2, True)"
    using TOTPCode_shape [of demo_hmac "replicate 20 (CHR ''k'')" 2] by (simp add: VerifyTOTP_def totp_window_def s Let_def demo_code_def)
  with shape show ?thesis by (simp add: secondFactor_def demo_api_crypto_def demo_crypto_def)
qed

lemma demo_authorized:
  "\<exists>d. authorizeUpdate demo_api_crypto (61 * second) [] g demo_cookie demo_request_id demo_update_digest demo_code (rl_auth demo_relay) = (Authorized False, d)
     \<and> (\<exists>u \<in> set (update_authorizations d). up_id u = demo_request_id)"
proof -
  have "sessionHash demo_api_crypto demo_cookie = demo_cookie" by (simp add: sessionHash_def demo_api_crypto_def demo_crypto_def)
  moreover have "fst (Enter [] g) = Inr NoLock" by (simp add: Enter_def)
  moreover have "100 * second > 61 * second" by (simp add: second_def)
  ultimately show ?thesis using demo_ids_ok demo_token_ok demo_factor
    by (simp add: authorizeUpdate_def authorize_new_def live_session_def demo_relay_def demo_auth_def cancel_pending_def consumeFactor_def Let_def)
qed

lemma demo_admitted:
  "fst (authAdmission demo_lib demo_trusted (\<lambda>k. k) (demo_request\<lparr>ar_remote := ''10.0.0.1'', ar_forwarded := '' 1.2.3.4''\<rparr>)
     [\<lparr>at_key = ''mutation:a'', at_count = 1, at_expires = 121000\<rparr>]) = None"
proof -
  have "nl_parse demo_lib ''1.2.3.4'' = Some (V4 (ip4 1 2 3 4), [])" "unmap_addr (V4 (ip4 1 2 3 4), []) = (V4 (ip4 1 2 3 4), [])"
    by (simp_all add: demo_lib_def unmap_addr_def Unmap_def)
  then obtain network where "authNetwork demo_lib ''1.2.3.4'' = Some network" by (simp add: authNetwork_def)
  then show ?thesis using demo_client by (simp add: authAdmission_def auth_limits_def allow_def demo_request_def)
qed

abbreviation demo_attempts :: "attempt_row list" where
  "demo_attempts \<equiv> [\<lparr>at_key = ''mutation:a'', at_count = 1, at_expires = 121000\<rparr>]"

lemma demo_checks:
  "\<exists>t. update_checks demo_api_config demo_api_env demo_http (demo_relay\<lparr>rl_attempts := demo_attempts\<rparr>) (demo_relay\<lparr>rl_attempts := demo_attempts\<rparr>)
     = (Inr (demo_request_id, demo_update_digest, demo_code), t)"
proof -
  obtain t where "authAdmission demo_lib demo_trusted (\<lambda>k. k) (demo_request\<lparr>ar_remote := ''10.0.0.1'', ar_forwarded := '' 1.2.3.4''\<rparr>) demo_attempts = (None, t)"
    using demo_admitted by (metis prod.collapse)
  then have adm: "update_admission demo_api_config demo_api_env demo_update_digest (demo_relay\<lparr>rl_attempts := demo_attempts\<rparr>) = (None, t)"
    by (simp add: update_admission_def demo_api_config_def demo_api_env_def relay_idle_def edge_heard_def demo_relay_def empty_db_def second_def)
  have "update_authorizations (rl_auth demo_relay) = []" by (simp add: demo_relay_def demo_auth_def)
  moreover have "bc_update (av_codec demo_api_env) (rq_body demo_http) = Some (demo_request_id, demo_update_digest, demo_code)" "\<not> av_fault demo_api_env 6"
      "length (rq_body demo_http) = 2"
    by (simp_all add: demo_api_env_def demo_body_codec_def demo_http_def)
  ultimately show ?thesis using adm by (simp add: update_checks_def)
qed

text \<open>The transaction looks at the credentials only.\<close>

lemma demo_commit:
  assumes "rl_auth s1 = rl_auth demo_relay"
  shows "\<exists>d u. authorize_request demo_api_config demo_api_env demo_cookie demo_request_id demo_update_digest demo_code s1 =
      (UpdateReceipt demo_request_id PENDING, s1\<lparr>rl_auth := d\<rparr>) \<and> u \<in> set (update_authorizations d) \<and> up_id u = demo_request_id"
proof -
  have new: "update_authorizations (rl_auth demo_relay) = []" by (simp add: demo_relay_def demo_auth_def)
  obtain d where d: "authorizeUpdate demo_api_crypto (61 * second) [] (av_gate demo_api_env) demo_cookie demo_request_id demo_update_digest demo_code
      (rl_auth demo_relay) = (Authorized False, d)" "\<exists>u \<in> set (update_authorizations d). up_id u = demo_request_id"
    using demo_authorized by blast
  then obtain u where u: "find (\<lambda>u. up_id u = demo_request_id) (update_authorizations d) = Some u"
    by (metis (mono_tags, lifting) find_None_iff not_None_eq)
  then have mem: "u \<in> set (update_authorizations d)" "up_id u = demo_request_id" by (auto simp: find_Some_iff)
  have "up_state u = PENDING" using authorizeUpdate_new [of u demo_api_crypto "61 * second" "[]" "av_gate demo_api_env" demo_cookie demo_request_id
      demo_update_digest demo_code "rl_auth demo_relay"] d(1) mem new by (simp add: update_ids_def)
  moreover have "av_crypto demo_api_env = demo_api_crypto" "av_now demo_api_env = 61 * second" "ap_MaintenanceDirectory demo_api_config = []"
    by (simp_all add: demo_api_env_def demo_api_config_def)
  ultimately show ?thesis using d(1) u mem assms by (intro exI [of _ d] exI [of _ u]) (simp add: authorize_request_def)
qed

lemma demo_update_request:
  "\<exists>s' u. Handler_api demo_api_config demo_api_env demo_http demo_relay = (UpdateReceipt demo_request_id PENDING, s')
     \<and> u \<in> set (update_authorizations (rl_auth s')) \<and> up_id u = demo_request_id"
proof -
  have env: "av_crypto demo_api_env = demo_api_crypto" "av_now demo_api_env = 61 * second" "\<not> av_fault demo_api_env n"
      "av_digest demo_api_env = (\<lambda>k. k)" "av_used demo_api_env = (0, 0, 0)" "av_codec demo_api_env = demo_body_codec" for n
    by (simp_all add: demo_api_env_def)
  have q: "rq_method demo_http = ''POST''" "rq_path demo_http = ''/v1/me/updates''" "rq_cookie demo_http = demo_cookie" "rq_body demo_http = ''{}''"
    by (simp_all add: demo_http_def)
  have guard: "same_origin demo_api_config demo_api_env demo_http" "custom_header demo_http"
    by (simp_all add: same_origin_def custom_header_def demo_http_def HasPrefix_def)
  have "sessionHash demo_api_crypto demo_cookie = demo_cookie" by (simp add: sessionHash_def demo_api_crypto_def demo_crypto_def)
  moreover have "length demo_cookie = 43" "b64url_decode demo_api_crypto demo_cookie = Some (take 32 demo_cookie)" "length (take 32 demo_cookie) = 32"
    by (simp_all add: demo_cookie_def demo_api_crypto_def)
  moreover have "61 * second < 100 * second" by (simp add: second_def)
  ultimately have account: "request_account demo_api_env demo_http demo_relay = Some ''a''"
    by (simp add: request_account_def env q session_account_def demo_relay_def demo_auth_def)
  let ?t = "[\<lparr>at_key = ''mutation:a'', at_count = 1, at_expires = 121000\<rparr>]"
  have allow: "allow (\<lambda>k. k) ''mutation:a'' 60 60 (ms_of (61 * second)) (rl_attempts demo_relay) = (True, ?t)"
    by (simp add: allow_def demo_relay_def ms_of_def second_def millisecond_def)
  obtain t where chk: "update_checks demo_api_config demo_api_env demo_http (demo_relay\<lparr>rl_attempts := ?t\<rparr>) (demo_relay\<lparr>rl_attempts := ?t\<rparr>)
      = (Inr (demo_request_id, demo_update_digest, demo_code), t)"
    using demo_checks by blast
  obtain d u where c: "authorize_request demo_api_config demo_api_env demo_cookie demo_request_id demo_update_digest demo_code (demo_relay\<lparr>rl_attempts := t\<rparr>) =
      (UpdateReceipt demo_request_id PENDING, demo_relay\<lparr>rl_attempts := t, rl_auth := d\<rparr>)" and mem: "u \<in> set (update_authorizations d)" "up_id u = demo_request_id"
    using demo_commit [of "demo_relay\<lparr>rl_attempts := t\<rparr>"] by auto
  have "updateRoutes demo_api_config demo_api_env demo_http demo_cookie (demo_relay\<lparr>rl_attempts := ?t\<rparr>) =
      (UpdateReceipt demo_request_id PENDING, demo_relay\<lparr>rl_attempts := t, rl_auth := d\<rparr>)"
    using chk c by (simp add: updateRoutes_def q) (simp add: demo_api_config_def)
  then have "userRoutes demo_api_config demo_api_env demo_http demo_relay = (UpdateReceipt demo_request_id PENDING, demo_relay\<lparr>rl_attempts := t, rl_auth := d\<rparr>)"
    using guard account allow by (simp add: userRoutes_def owner_routes_def q env sign_in_path_def)
  then have "Handler_api demo_api_config demo_api_env demo_http demo_relay =
      (UpdateReceipt demo_request_id PENDING, demo_relay\<lparr>rl_attempts := t, rl_auth := d\<rparr>)"
    by (simp add: Handler_api_def dispatch_def owner_path_def q env acquire_def Enter_def demo_api_config_def HasPrefix_def)
  with mem show ?thesis by auto
qed



theorem every_change_is_authorized_witness:
  "mutating demo_http \<and> owner_request demo_api_config demo_api_env demo_http demo_relay"
proof -
  from demo_update_request obtain s' u where h: "Handler_api demo_api_config demo_api_env demo_http demo_relay = (UpdateReceipt demo_request_id PENDING, s')"
    "u \<in> set (update_authorizations (rl_auth s'))" by blast
  moreover have "update_authorizations (rl_auth demo_relay) = []" by (simp add: demo_relay_def demo_auth_def)
  ultimately have "durable s' \<noteq> durable demo_relay" by (auto simp: durable_def)
  moreover have "owner_path (rq_path demo_http)" "sign_in_path (rq_path demo_http) = None"
    by (simp_all add: owner_path_def sign_in_path_def demo_http_def HasPrefix_def)
  ultimately show ?thesis using every_change_is_authorized [OF h(1)] by simp
qed

end
