(* ===== verification/Docker_Runtime.thy ===== *)
theory Docker_Runtime
  imports Media_Config Worker_Runtime
begin

text \<open>
  The runtime that runs workers as containers, \<^verbatim>\<open>backend/internal/runtime/docker/docker.go\<close>. The command line client of Docker, the program that
  sets the network policy and the HTTP server of a worker are arbitrary processes over an arbitrary state: the functions of \<open>docker_env\<close>. The
  state of the runtime adds the log of what was sent to them and of what they answered, about which the properties speak. JSON and tar are arguments; a Go map that the
  code ranges over is a list in the order of the iteration. The client accepts input, as the \<^verbatim>\<open>CLI\<close> of the
  program does, and the addresses that Docker gives form valid URLs. The message of an archive that cannot be written is one text.
\<close>

section \<open>The processes and the log\<close>

datatype docker_call = Docker "string list" string | NetPolicy "string list" | Http string string string string

datatype docker_reply = Exited bool string | Answered "(int \<times> string) option"

record 'd docker_state =
  dk_world :: 'd
  dk_log :: "(docker_call \<times> docker_reply) list"

record container =
  ct_Labels :: "(string \<times> string) list"
  ct_Running :: bool
  ct_ExitCode :: int
  ct_StartedAt :: time
  ct_Networks :: "(string \<times> string) list"

record 'd docker_env =
  do_Run :: "string list \<Rightarrow> string \<Rightarrow> 'd \<Rightarrow> (bool \<times> string) \<times> 'd"
  do_Policy :: "(string list \<Rightarrow> 'd \<Rightarrow> bool \<times> 'd) option"
  do_Http :: "string \<Rightarrow> string \<Rightarrow> string \<Rightarrow> string \<Rightarrow> 'd \<Rightarrow> (int \<times> string) option \<times> 'd"
  do_Network :: string
  do_tar :: "(string \<times> string) list \<Rightarrow> string option"
  do_resources :: "resource_vector \<Rightarrow> string"
  do_read_resources :: "string \<Rightarrow> resource_vector \<Rightarrow> resource_vector option"
  do_containers :: "string \<Rightarrow> container list option"
  do_networks :: "string \<Rightarrow> (string \<times> string) list option"
  do_snapshot :: "string \<Rightarrow> snapshot option"
  do_slate :: "bool \<Rightarrow> bool \<Rightarrow> string"

definition run_input :: "'d docker_env \<Rightarrow> string \<Rightarrow> string list \<Rightarrow> 'd docker_state \<Rightarrow> (bool \<times> string) \<times> 'd docker_state" where
  "run_input e input args s = (case do_Run e args input (dk_world s) of (r, w) \<Rightarrow> (r, \<lparr>dk_world = w, dk_log = dk_log s @ [(Docker args input, Exited (fst r) (snd r))]\<rparr>))"

definition run_cli :: "'d docker_env \<Rightarrow> string list \<Rightarrow> 'd docker_state \<Rightarrow> (bool \<times> string) \<times> 'd docker_state" where
  "run_cli e args s = run_input e [] args s"

definition run_policy :: "'d docker_env \<Rightarrow> string list \<Rightarrow> 'd docker_state \<Rightarrow> bool \<times> 'd docker_state" where
  "run_policy e args s =
     (case do_Policy e of
        None \<Rightarrow> (True, s)
      | Some f \<Rightarrow> (case f args (dk_world s) of (ok, w) \<Rightarrow> (ok, \<lparr>dk_world = w, dk_log = dk_log s @ [(NetPolicy args, Exited ok [])]\<rparr>)))"

definition run_http :: "'d docker_env \<Rightarrow> string \<Rightarrow> string \<Rightarrow> string \<Rightarrow> string \<Rightarrow> 'd docker_state \<Rightarrow> (int \<times> string) option \<times> 'd docker_state" where
  "run_http e meth url token body s =
     (case do_Http e meth url token body (dk_world s) of (r, w) \<Rightarrow> (r, \<lparr>dk_world = w, dk_log = dk_log s @ [(Http meth url token body, Answered r)]\<rparr>))"

section \<open>Texts\<close>

definition container_name :: "string \<Rightarrow> string" where
  "container_name i = ''stream-worker-'' @ i"

definition worker_io :: "string \<Rightarrow> string \<Rightarrow> string list" where
  "worker_io i command = [''exec'', ''--user'', ''65532'', container_name i, ''/usr/local/bin/stream-worker'', ''runtime-io'', command]"

definition receive_args :: "string \<Rightarrow> string list" where
  "receive_args i = [''exec'', ''-i'', ''--user'', ''65532'', container_name i, ''/usr/local/bin/stream-worker'', ''runtime-io'', ''receive'']"

definition no_such :: "string \<Rightarrow> bool" where
  "no_such out \<longleftrightarrow> Contains (ToLower out) ''no such''"

definition FormatInt :: "int \<Rightarrow> string" where
  "FormatInt n = (if n < 0 then CHR ''-'' # decimal (nat (- n)) else decimal (nat n))"

text \<open>The format \<^verbatim>\<open>%.3f\<close> of a positive number of thousandths; below $2^{50}$ the rounding of a float64 does not reach the third digit.\<close>

definition format_cpus :: "int \<Rightarrow> string" where
  "format_cpus n = decimal (nat (n div 1000)) @ ''.'' @
     map digit_char [nat (n div 100 mod 10), nat (n div 10 mod 10), nat (n mod 10)]"

text \<open>\<^verbatim>\<open>strconv.ParseUint\<close> and \<^verbatim>\<open>strconv.Atoi\<close> without their errors: a number that is too large is the largest one, and other texts are 0.\<close>

definition label_uint :: "string \<Rightarrow> nat" where
  "label_uint x = (if x = [] \<or> \<not> list_all is_digit x then 0 else min (digits_val x) (2 ^ 64 - 1))"

definition label_int :: "string \<Rightarrow> int" where
  "label_int x =
     (let sign = x \<noteq> [] \<and> hd x \<in> {CHR ''+'', CHR ''-''}; ds = (if sign then tl x else x) in
      if ds = [] \<or> \<not> list_all is_digit ds then 0
      else if sign \<and> hd x = CHR ''-'' then max (- int (digits_val ds)) (- (2 ^ 63)) else min (int (digits_val ds)) (2 ^ 63 - 1))"

definition label :: "container \<Rightarrow> string \<Rightarrow> string" where
  "label d k = (case map_of (ct_Labels d) k of None \<Rightarrow> [] | Some x \<Rightarrow> x)"

definition address_of :: "string \<Rightarrow> (string \<times> string) list \<Rightarrow> string" where
  "address_of network ns = (case map_of ns network of None \<Rightarrow> [] | Some a \<Rightarrow> a)"

text \<open>\<^verbatim>\<open>strings.Fields\<close>.\<close>

function fields_from :: "string \<Rightarrow> string \<Rightarrow> string list" where
  "fields_from w [] = (if w = [] then [] else [rev w])"
| "fields_from w (c # cs) =
     (case find (\<lambda>p. prefix p (c # cs)) space_runes of
        Some p \<Rightarrow> (if w = [] then [] else [rev w]) @ fields_from [] (drop (length p) (c # cs))
      | None \<Rightarrow> fields_from (c # w) cs)"
  by pat_completeness auto

termination
proof (relation "measure (\<lambda>(w, s). length s)")
  fix w c cs p
  assume "find (\<lambda>p. prefix p (c # cs)) space_runes = Some p"
  then have "p \<noteq> []" using space_runes_nonempty by (auto simp: find_Some_iff)
  then show "(([], drop (length p) (c # cs)), (w, c # cs)) \<in> measure (\<lambda>(w, s). length s)" by (cases p) auto
qed auto

definition space_fields :: "string \<Rightarrow> string list" where
  "space_fields s = fields_from [] s"

section \<open>Inspection\<close>

definition no_spec :: worker_spec where
  "no_spec = \<lparr>AllocationID = [], spec_SessionID = [], Image = [], spec_NodeID = [], spec_Generation = 0, spec_FencingToken = 0, Environment = [],
     spec_Resources = rv_zero, Files = []\<rparr>"

definition labelled_spec :: "container \<Rightarrow> worker_spec" where
  "labelled_spec d = no_spec\<lparr>AllocationID := label d ''streamtool.allocation'', spec_SessionID := label d ''streamtool.session'',
     spec_NodeID := label d ''streamtool.node'', spec_Generation := label_uint (label d ''streamtool.generation''),
     spec_FencingToken := label_uint (label d ''streamtool.fencing''), spec_Resources := rv_zero\<lparr>Slots := label_int (label d ''streamtool.slots'')\<rparr>\<rparr>"

definition labelled_resources :: "'d docker_env \<Rightarrow> container \<Rightarrow> worker_spec option" where
  "labelled_resources e d =
     (let spec = labelled_spec d; raw = label d ''streamtool.resources'' in
      if raw = [] then Some spec
      else map_option (\<lambda>r. spec\<lparr>spec_Resources := r\<rparr>) (do_read_resources e raw (spec_Resources spec)))"

text \<open>The report of a running worker; every failure means that there is none.\<close>

definition fetch_report :: "'d docker_env \<Rightarrow> string \<Rightarrow> container \<Rightarrow> 'd docker_state \<Rightarrow> snapshot option \<times> 'd docker_state" where
  "fetch_report e i d s =
     (case run_cli e (worker_io i ''read-token'') s of
        ((ok, token), s1) \<Rightarrow>
          (let address = address_of (do_Network e) (ct_Networks d) in
           if \<not> ok \<or> address = [] then (None, s1)
           else (case run_http e ''GET'' (''http://'' @ address @ '':9090/v1/status'') (TrimSpace token) [] s1 of
                   (Some (status, body), s2) \<Rightarrow> (if status = 200 then do_snapshot e (take 1048576 body) else None, s2)
                 | (None, s2) \<Rightarrow> (None, s2))))"

definition running_resources :: "'d docker_env \<Rightarrow> string \<Rightarrow> worker_spec \<Rightarrow> 'd docker_state \<Rightarrow> worker_spec option \<times> 'd docker_state" where
  "running_resources e i spec s =
     (case run_cli e (worker_io i ''read-resources'') s of
        ((ok, raw), s1) \<Rightarrow>
          (if ok then map_option (\<lambda>r. spec\<lparr>spec_Resources := r\<rparr>) (do_read_resources e raw (spec_Resources spec)) else None, s1))"

definition docker_inspect :: "'d docker_env \<Rightarrow> string \<Rightarrow> bool \<Rightarrow> 'd docker_state \<Rightarrow> (runtime_error + worker) \<times> 'd docker_state" where
  "docker_inspect e i report s =
     (if \<not> ValidID i then (Inl (RuntimeFailure ''invalid allocation id''), s)
      else case run_cli e [''inspect'', container_name i] s of
          ((False, out), s1) \<Rightarrow> (Inl (if no_such out then ErrNotFound else RuntimeFailure ''docker inspect unavailable''), s1)
        | ((True, out), s1) \<Rightarrow>
            (case do_containers e out of
               Some [d] \<Rightarrow>
                 (let w = \<lparr>worker_ID = i, Spec = no_spec, State = (if ct_Running d then RUNNING else WSTOPPED), StartedAt = ct_StartedAt d,
                        ExitCode = ct_ExitCode d, Report = None\<rparr> in
                  case labelled_resources e d of
                    None \<Rightarrow> (Inl (RuntimeFailure ''invalid resource labels''), s1)
                  | Some spec \<Rightarrow>
                      if \<not> ct_Running d then (Inr (w\<lparr>Spec := spec\<rparr>), s1)
                      else (case running_resources e i spec s1 of
                              (None, s2) \<Rightarrow> (Inl (RuntimeFailure ''worker resource snapshot unavailable''), s2)
                            | (Some spec', s2) \<Rightarrow>
                                if \<not> report then (Inr (w\<lparr>Spec := spec'\<rparr>), s2)
                                else (case fetch_report e i d s2 of (r, s3) \<Rightarrow> (Inr (w\<lparr>Spec := spec', Report := r\<rparr>), s3))))
             | _ \<Rightarrow> (Inl (RuntimeFailure ''invalid docker inspect''), s1)))"

definition Inspect_docker :: "'d docker_env \<Rightarrow> string \<Rightarrow> 'd docker_state \<Rightarrow> (runtime_error + worker) \<times> 'd docker_state" where
  "Inspect_docker e i s = docker_inspect e i True s"

fun inspect_all :: "'d docker_env \<Rightarrow> string list \<Rightarrow> 'd docker_state \<Rightarrow> (runtime_error + worker list) \<times> 'd docker_state" where
  "inspect_all e [] s = (Inr [], s)"
| "inspect_all e (i # is) s =
     (case docker_inspect e i False s of
        (Inl ErrNotFound, s1) \<Rightarrow> inspect_all e is s1
      | (Inl err, s1) \<Rightarrow> (Inl err, s1)
      | (Inr w, s1) \<Rightarrow> (case inspect_all e is s1 of (Inl err, s2) \<Rightarrow> (Inl err, s2) | (Inr ws, s2) \<Rightarrow> (Inr (w # ws), s2)))"

definition list_args :: "string list" where
  "list_args = [''ps'', ''-a'', ''--filter'', ''label=streamtool.allocation'', ''--format'',
     ''{{.Label '' @ [CHR 0x22] @ ''streamtool.allocation'' @ [CHR 0x22] @ ''}}'']"

definition List_docker :: "'d docker_env \<Rightarrow> 'd docker_state \<Rightarrow> (runtime_error + worker list) \<times> 'd docker_state" where
  "List_docker e s =
     (case run_cli e list_args s of
        ((False, _), s1) \<Rightarrow> (Inl (RuntimeFailure ''docker list unavailable''), s1)
      | ((True, out), s1) \<Rightarrow> inspect_all e (space_fields out) s1)"

section \<open>Stop\<close>

definition exists_args :: "string \<Rightarrow> string list" where
  "exists_args i = [''inspect'', container_name i, ''--format'', ''{{.Id}}'']"

definition stop_args :: "string \<Rightarrow> string list" where
  "stop_args i = [''stop'', ''-t'', ''10'', container_name i]"

definition remove_args :: "string \<Rightarrow> string list" where
  "remove_args i = [''rm'', ''-f'', container_name i]"

definition Stop_docker :: "'d docker_env \<Rightarrow> string \<Rightarrow> 'd docker_state \<Rightarrow> runtime_error option \<times> 'd docker_state" where
  "Stop_docker e i s =
     (if \<not> ValidID i then (Some (RuntimeFailure ''invalid allocation id''), s)
      else case run_cli e (exists_args i) s of
          ((False, out), s1) \<Rightarrow> (if no_such out then None else Some (RuntimeFailure ''docker inspect unavailable''), s1)
        | ((True, _), s1) \<Rightarrow>
            (case run_cli e (stop_args i) s1 of
               ((False, _), s2) \<Rightarrow> (Some (RuntimeFailure ''docker stop failed''), s2)
             | ((True, _), s2) \<Rightarrow>
                 (case run_cli e (remove_args i) s2 of
                    ((False, _), s3) \<Rightarrow> (Some (RuntimeFailure ''docker remove failed''), s3)
                  | ((True, _), s3) \<Rightarrow> (None, s3))))"

section \<open>Start\<close>

definition spec_labels :: "'d docker_env \<Rightarrow> worker_spec \<Rightarrow> (string \<times> string) list" where
  "spec_labels e s =
     [(''streamtool.allocation'', AllocationID s), (''streamtool.session'', spec_SessionID s), (''streamtool.node'', spec_NodeID s),
      (''streamtool.generation'', decimal (spec_Generation s)), (''streamtool.fencing'', decimal (spec_FencingToken s)),
      (''streamtool.resources'', do_resources e (spec_Resources s)), (''streamtool.slots'', FormatInt (Slots (spec_Resources s)))]"

definition label_args :: "'d docker_env \<Rightarrow> worker_spec \<Rightarrow> string list" where
  "label_args e s = concat (map (\<lambda>(k, x). [''--label'', k @ ''='' @ x]) (spec_labels e s))"

definition sandbox_args :: "string list" where
  "sandbox_args = [''--restart'', ''no'', ''--read-only'', ''--cap-drop'', ''ALL'', ''--security-opt'', ''no-new-privileges'',
     ''--tmpfs'', ''/tmp:rw,noexec,nosuid,nodev,size=64m'',
     ''--tmpfs'', ''/run/secrets:rw,noexec,nosuid,nodev,size=64m,mode=0700,uid=65532,gid=65532'']"

definition limit_args :: "'d docker_env \<Rightarrow> worker_spec \<Rightarrow> string list" where
  "limit_args e s =
     (if MemoryBytes (spec_Resources s) > 0 then [''--memory'', FormatInt (MemoryBytes (spec_Resources s))] else [])
     @ (if CPUMillis (spec_Resources s) > 0 then [''--cpus'', format_cpus (CPUMillis (spec_Resources s))] else [])
     @ (if do_Network e \<noteq> [] then [''--network'', do_Network e] else [])
     @ [''--pids-limit'', ''512'']"

text \<open>The environment in the order of its keys, which are distinct in a Go map.\<close>

definition env_args :: "worker_spec \<Rightarrow> string list" where
  "env_args s = concat (map (\<lambda>(k, x). [''--env'', k @ ''='' @ x]) (sort_key fst (Environment s)))"

definition run_args :: "'d docker_env \<Rightarrow> worker_spec \<Rightarrow> string list" where
  "run_args e s = [''run'', ''-d'', ''--name'', container_name (AllocationID s)] @ label_args e s @ sandbox_args @ limit_args e s @ env_args s
     @ [''--entrypoint'', ''/usr/local/bin/managed-worker'', Image s]"

definition policy_args :: "string \<Rightarrow> resource_vector \<Rightarrow> string list" where
  "policy_args i r = [i, FormatInt (IngressBPS r), FormatInt (EgressBPS r)]"

definition start_archive_docker :: "'d docker_env \<Rightarrow> worker_spec \<Rightarrow> string option" where
  "start_archive_docker e s =
     do_tar e (sort_key fst (filter (\<lambda>f. fst f \<noteq> ''ready'') (AList.update ''resources.json'' (do_resources e (spec_Resources s)) (Files s))))"

text \<open>The cleanup after a failed start; its own failure is ignored.\<close>

definition abandon :: "'d docker_env \<Rightarrow> string \<Rightarrow> string \<Rightarrow> 'd docker_state \<Rightarrow> (runtime_error + worker) \<times> 'd docker_state" where
  "abandon e i message s = (Inl (RuntimeFailure message), snd (Stop_docker e i s))"

definition hand_over :: "'d docker_env \<Rightarrow> worker_spec \<Rightarrow> 'd docker_state \<Rightarrow> (runtime_error + worker) \<times> 'd docker_state" where
  "hand_over e spec s =
     (let i = AllocationID spec in
      case start_archive_docker e spec of
        None \<Rightarrow> (Inl (RuntimeFailure ''archive''), s)
      | Some archive \<Rightarrow>
          (case run_input e archive (receive_args i) s of
             ((False, _), s1) \<Rightarrow> abandon e i ''secret handoff failed'' s1
           | ((True, _), s1) \<Rightarrow>
               (case run_cli e (worker_io i ''activate'') s1 of
                  ((False, _), s2) \<Rightarrow> abandon e i ''worker activation failed'' s2
                | ((True, _), s2) \<Rightarrow> docker_inspect e i False s2)))"

definition launch :: "'d docker_env \<Rightarrow> worker_spec \<Rightarrow> 'd docker_state \<Rightarrow> (runtime_error + worker) \<times> 'd docker_state" where
  "launch e spec s =
     (case run_cli e (run_args e spec) s of
        ((False, _), s1) \<Rightarrow> (Inl (RuntimeFailure ''docker start failed''), s1)
      | ((True, _), s1) \<Rightarrow>
          (case run_policy e (policy_args (AllocationID spec) (spec_Resources spec)) s1 of
             (False, s2) \<Rightarrow> abandon e (AllocationID spec) ''worker network policy failed'' s2
           | (True, s2) \<Rightarrow> hand_over e spec s2))"

definition Start_docker :: "'d docker_env \<Rightarrow> worker_spec \<Rightarrow> 'd docker_state \<Rightarrow> (runtime_error + worker) \<times> 'd docker_state" where
  "Start_docker e spec s =
     (case ValidateStart spec of
        Some err \<Rightarrow> (Inl err, s)
      | None \<Rightarrow>
          (case docker_inspect e (AllocationID spec) False s of
             (Inr current, s1) \<Rightarrow>
               if spec_FencingToken (Spec current) > spec_FencingToken spec then (Inl ErrFenced, s1)
               else if spec_Generation (Spec current) = spec_Generation spec \<and> State current = RUNNING then (Inr current, s1)
               else (case Stop_docker e (AllocationID spec) s1 of
                       (Some err, s2) \<Rightarrow> (Inl err, s2)
                     | (None, s2) \<Rightarrow> launch e spec s2)
           | (Inl ErrNotFound, s1) \<Rightarrow> launch e spec s1
           | (Inl err, s1) \<Rightarrow> (Inl err, s1)))"

section \<open>Changes of a running worker\<close>

definition update_args :: "string \<Rightarrow> resource_vector \<Rightarrow> string list" where
  "update_args i r = [''update'', ''--cpus'', format_cpus (CPUMillis r), ''--memory'', FormatInt (MemoryBytes r), container_name i]"

definition networks_args :: "string \<Rightarrow> string list" where
  "networks_args i = [''inspect'', container_name i, ''--format'', ''{{json .NetworkSettings.Networks}}'']"

definition destination_file_ok :: "string \<Rightarrow> bool" where
  "destination_file_ok name \<longleftrightarrow> name = ''destinations.json'' \<or> name = ''resources.json'' \<or> HasPrefix name ''destination-'' \<and> ValidID name"

definition update_archive :: "'d docker_env \<Rightarrow> (string \<times> string) list \<Rightarrow> runtime_error + string" where
  "update_archive e files =
     (if \<not> list_all (\<lambda>f. destination_file_ok (fst f)) files then Inl (RuntimeFailure ''invalid destination file'')
      else case do_tar e (map (\<lambda>(name, b). (if name = ''resources.json'' then ''resources.next'' else name, b)) files) of
          None \<Rightarrow> Inl (RuntimeFailure ''archive'')
        | Some archive \<Rightarrow> Inr archive)"

definition update_files :: "'d docker_env \<Rightarrow> (string \<times> string) list \<Rightarrow> resource_vector \<Rightarrow> (string \<times> string) list" where
  "update_files e files r = AList.update ''resources.json'' (do_resources e r) files"

text \<open>The request to the worker, with the token that only the container knows.\<close>

definition notify_worker ::
  "'d docker_env \<Rightarrow> string \<Rightarrow> string \<Rightarrow> string \<Rightarrow> string \<Rightarrow> 'd docker_state \<Rightarrow> runtime_error option \<times> 'd docker_state" where
  "notify_worker e i no_address path body s =
     (case run_cli e (networks_args i) s of
        ((False, _), s1) \<Rightarrow> (Some (RuntimeFailure ''worker network unavailable''), s1)
      | ((True, out), s1) \<Rightarrow>
          (case do_networks e out of
             None \<Rightarrow> (Some (RuntimeFailure ''invalid worker network''), s1)
           | Some ns \<Rightarrow>
               (let address = address_of (do_Network e) ns in
                if address = [] then (Some (RuntimeFailure no_address), s1)
                else case run_cli e (worker_io i ''read-token'') s1 of
                    ((False, _), s2) \<Rightarrow> (Some (RuntimeFailure ''worker token unavailable''), s2)
                  | ((True, token), s2) \<Rightarrow>
                      (case run_http e ''PUT'' (''http://'' @ address @ '':9090'' @ path) (TrimSpace token) body s2 of
                         (None, s3) \<Rightarrow> (Some (RuntimeFailure ''worker update unavailable''), s3)
                       | (Some (status, _), s3) \<Rightarrow> (if status = 204 then None else Some (RuntimeFailure (''worker update HTTP '' @ FormatInt status)), s3)))))"

definition ApplyDestinations_docker ::
  "'d docker_env \<Rightarrow> string \<Rightarrow> (string \<times> string) list \<Rightarrow> resource_vector \<Rightarrow> 'd docker_state \<Rightarrow> runtime_error option \<times> 'd docker_state" where
  "ApplyDestinations_docker e i files r s =
     (let snapshot = (case map_of files ''destinations.json'' of None \<Rightarrow> [] | Some b \<Rightarrow> b) in
          if \<not> ValidID i then (Some (RuntimeFailure ''invalid allocation''), s)
          else if snapshot = [] then (Some (RuntimeFailure ''missing destination snapshot''), s)
          else if Slots r \<noteq> 1 \<or> CPUMillis r \<le> 0 \<or> MemoryBytes r \<le> 0 \<or> IngressBPS r \<le> 0 \<or> EgressBPS r \<le> 0
          then (Some (RuntimeFailure ''invalid resources''), s)
          else (case run_policy e (policy_args i r) s of
                  (False, s1) \<Rightarrow> (Some (RuntimeFailure ''network policy update failed''), s1)
                | (True, s1) \<Rightarrow>
                    (case run_cli e (update_args i r) s1 of
                       ((False, _), s2) \<Rightarrow> (Some (RuntimeFailure ''resource update failed''), s2)
                     | ((True, _), s2) \<Rightarrow>
                         (case update_archive e (update_files e files r) of
                            Inl err \<Rightarrow> (Some err, s2)
                          | Inr archive \<Rightarrow>
                              (case run_input e archive (receive_args i) s2 of
                                 ((False, _), s3) \<Rightarrow> (Some (RuntimeFailure ''destination secret handoff failed''), s3)
                               | ((True, _), s3) \<Rightarrow>
                                   (case run_cli e (worker_io i ''commit-resources'') s3 of
                                      ((False, _), s4) \<Rightarrow> (Some (RuntimeFailure ''resource snapshot update failed''), s4)
                                    | ((True, _), s4) \<Rightarrow> notify_worker e i ''worker network unavailable'' ''/v1/destinations'' snapshot s4))))))"

definition ApplySlatePolicy_docker :: "'d docker_env \<Rightarrow> string \<Rightarrow> bool \<Rightarrow> bool \<Rightarrow> 'd docker_state \<Rightarrow> runtime_error option \<times> 'd docker_state" where
  "ApplySlatePolicy_docker e i on_loss forced s =
     (if \<not> ValidID i then (Some (RuntimeFailure ''invalid allocation''), s) else notify_worker e i ''invalid worker network'' ''/v1/slate'' (do_slate e on_loss forced) s)"

section \<open>What an operation sends\<close>

text \<open>The log grew, and only by calls with the property \<open>P\<close>.\<close>

definition emits :: "(docker_call \<Rightarrow> bool) \<Rightarrow> 'd docker_state \<Rightarrow> 'd docker_state \<Rightarrow> bool" where
  "emits P s s' \<longleftrightarrow> prefix (dk_log s) (dk_log s') \<and> list_all P (map fst (drop (length (dk_log s)) (dk_log s')))"

lemma emits_refl [simp]: "emits P s s"
  by (simp add: emits_def)

lemma emits_append: "emits P s s1 \<Longrightarrow> dk_log s2 = dk_log s1 @ l \<Longrightarrow> list_all P (map fst l) \<Longrightarrow> emits P s s2"
  by (auto simp: emits_def prefix_def)

lemma emits_trans: "emits P s s1 \<Longrightarrow> emits P s1 s2 \<Longrightarrow> emits P s s2"
  by (auto simp: emits_def prefix_def)

lemma emits_mono: "emits P s s' \<Longrightarrow> (\<And>c. P c \<Longrightarrow> Q c) \<Longrightarrow> emits Q s s'"
  by (auto simp: emits_def list_all_iff)

lemma run_input_log: "run_input e x args s = (r, s') \<Longrightarrow> dk_log s' = dk_log s @ [(Docker args x, Exited (fst r) (snd r))]"
  by (auto simp: run_input_def split: prod.splits)

lemma run_cli_log: "run_cli e args s = (r, s') \<Longrightarrow> dk_log s' = dk_log s @ [(Docker args [], Exited (fst r) (snd r))]"
  by (simp add: run_cli_def run_input_log)

lemma run_policy_log: "run_policy e args s = (r, s') \<Longrightarrow> dk_log s' = dk_log s @ (if do_Policy e = None then [] else [(NetPolicy args, Exited r [])])"
  by (auto simp: run_policy_def split: option.splits prod.splits)

lemma run_http_log: "run_http e m u t b s = (r, s') \<Longrightarrow> dk_log s' = dk_log s @ [(Http m u t b, Answered r)]"
  by (auto simp: run_http_def split: prod.splits)

lemmas call_logs = run_input_log run_cli_log run_policy_log run_http_log

lemma emits_input: "run_input e x args s1 = (r, s2) \<Longrightarrow> P (Docker args x) \<Longrightarrow> emits P s s1 \<Longrightarrow> emits P s s2"
  by (erule emits_append [OF _ run_input_log]) auto

lemma emits_cli: "run_cli e args s1 = (r, s2) \<Longrightarrow> P (Docker args []) \<Longrightarrow> emits P s s1 \<Longrightarrow> emits P s s2"
  by (erule emits_append [OF _ run_cli_log]) auto

lemma emits_policy: "run_policy e args s1 = (r, s2) \<Longrightarrow> P (NetPolicy args) \<Longrightarrow> emits P s s1 \<Longrightarrow> emits P s s2"
  by (erule emits_append [OF _ run_policy_log]) auto

lemma emits_http: "run_http e m u t b s1 = (r, s2) \<Longrightarrow> P (Http m u t b) \<Longrightarrow> emits P s s1 \<Longrightarrow> emits P s s2"
  by (erule emits_append [OF _ run_http_log]) auto

lemmas emits_intros = emits_input emits_cli emits_policy emits_http emits_refl

text \<open>
  What may be sent about the worker \<open>i\<close>: the fixed commands on its container and the ones in \<open>cmds\<close>, without input; the archive \<open>secret\<close> as the
  input of the command that receives it; the network policies in \<open>policies\<close>; and requests to a worker, the one for its status, and the ones with a
  path and a body in \<open>puts\<close>.
\<close>

definition container_commands :: "string \<Rightarrow> string list list" where
  "container_commands i = [[''inspect'', container_name i], exists_args i, networks_args i, stop_args i, remove_args i,
     worker_io i ''read-token'', worker_io i ''read-resources'', worker_io i ''activate'', worker_io i ''commit-resources'']"

fun allowed :: "string \<Rightarrow> string list list \<Rightarrow> string list list \<Rightarrow> string option \<Rightarrow> (string \<times> string) list \<Rightarrow> docker_call \<Rightarrow> bool" where
  "allowed i cmds policies secret puts (Docker args x) \<longleftrightarrow>
     ValidID i \<and> (x = [] \<and> args \<in> set (container_commands i @ cmds) \<or> args = receive_args i \<and> secret = Some x)"
| "allowed i cmds policies secret puts (NetPolicy args) \<longleftrightarrow> ValidID i \<and> args \<in> set policies"
| "allowed i cmds policies secret puts (Http meth url token body) \<longleftrightarrow>
     ValidID i \<and> (\<exists>a path. url = ''http://'' @ a @ '':9090'' @ path \<and>
       (path = ''/v1/status'' \<and> meth = ''GET'' \<and> body = [] \<or> (path, body) \<in> set puts \<and> meth = ''PUT''))"

lemma allowed_command:
  "ValidID i \<Longrightarrow> args \<in> set (container_commands i) \<Longrightarrow> allowed i cmds policies secret puts (Docker args [])"
  by simp

lemma own_commands [simp]:
  "[''inspect'', container_name i] \<in> set (container_commands i)" "exists_args i \<in> set (container_commands i)"
  "networks_args i \<in> set (container_commands i)" "stop_args i \<in> set (container_commands i)" "remove_args i \<in> set (container_commands i)"
  "worker_io i ''read-token'' \<in> set (container_commands i)" "worker_io i ''read-resources'' \<in> set (container_commands i)"
  "worker_io i ''activate'' \<in> set (container_commands i)" "worker_io i ''commit-resources'' \<in> set (container_commands i)"
  by (simp_all add: container_commands_def)

lemma emits_own:
  "run_cli e args s1 = (r, s2) \<Longrightarrow> ValidID i \<Longrightarrow> args \<in> set (container_commands i) \<Longrightarrow> emits (allowed i cmds policies secret puts) s s1
     \<Longrightarrow> emits (allowed i cmds policies secret puts) s s2"
  by (rule emits_cli) (auto intro: allowed_command)

lemma allowed_status: "ValidID i \<Longrightarrow> allowed i cmds policies secret puts (Http ''GET'' (''http://'' @ a @ '':9090/v1/status'') token [])"
  by auto

lemma fetch_report_emits:
  assumes "fetch_report e i d s1 = (r, s2)" "ValidID i" "emits (allowed i cmds policies secret puts) s s1"
  shows "emits (allowed i cmds policies secret puts) s s2"
proof -
  obtain ok token t where tok: "run_cli e (worker_io i ''read-token'') s1 = ((ok, token), t)" by (metis prod.exhaust)
  have t: "emits (allowed i cmds policies secret puts) s t" by (rule emits_own [OF tok assms(2) _ assms(3)]) simp
  show ?thesis
    using assms(1) t emits_http [OF _ allowed_status [OF assms(2)] t]
    by (auto simp: fetch_report_def tok Let_def split: if_splits prod.splits option.splits)
qed

lemma running_resources_emits:
  assumes "running_resources e i sp s1 = (r, s2)" "ValidID i" "emits (allowed i cmds policies secret puts) s s1"
  shows "emits (allowed i cmds policies secret puts) s s2"
  using assms by (auto simp: running_resources_def split: prod.splits elim: emits_own)

lemma docker_inspect_emits:
  assumes "docker_inspect e i report s1 = (r, s2)" "emits (allowed i cmds policies secret puts) s s1"
  shows "emits (allowed i cmds policies secret puts) s s2"
proof (cases "ValidID i")
  case False
  then show ?thesis using assms by (simp add: docker_inspect_def)
next
  case True
  obtain ok out t where ins: "run_cli e [''inspect'', container_name i] s1 = ((ok, out), t)" by (metis prod.exhaust)
  have t: "emits (allowed i cmds policies secret puts) s t" by (rule emits_own [OF ins True _ assms(2)]) simp
  note res = running_resources_emits [OF _ True t]
  show ?thesis
    using assms(1) True t res fetch_report_emits [OF _ True res]
    by (auto simp: docker_inspect_def ins Let_def split: if_splits prod.splits bool.splits option.splits list.splits)
qed

lemma Stop_emits:
  assumes "Stop_docker e i s1 = (r, s2)" "emits (allowed i cmds policies secret puts) s s1"
  shows "emits (allowed i cmds policies secret puts) s s2"
proof (cases "ValidID i")
  case False
  then show ?thesis using assms by (simp add: Stop_docker_def)
next
  case True
  obtain ok1 out1 t1 where a: "run_cli e (exists_args i) s1 = ((ok1, out1), t1)" by (metis prod.exhaust)
  obtain ok2 out2 t2 where b: "run_cli e (stop_args i) t1 = ((ok2, out2), t2)" by (metis prod.exhaust)
  obtain ok3 out3 t3 where c: "run_cli e (remove_args i) t2 = ((ok3, out3), t3)" by (metis prod.exhaust)
  have t1: "emits (allowed i cmds policies secret puts) s t1" by (rule emits_own [OF a True _ assms(2)]) simp
  have t2: "emits (allowed i cmds policies secret puts) s t2" by (rule emits_own [OF b True _ t1]) simp
  have t3: "emits (allowed i cmds policies secret puts) s t3" by (rule emits_own [OF c True _ t2]) simp
  show ?thesis using assms(1) True t1 t2 t3 by (auto simp: Stop_docker_def a b c split: if_splits bool.splits)
qed


lemma abandon_emits: "abandon e i m s1 = (r, s2) \<Longrightarrow> emits (allowed i cmds policies secret puts) s s1 \<Longrightarrow> emits (allowed i cmds policies secret puts) s s2"
  by (auto simp: abandon_def intro: Stop_emits [OF prod.collapse [symmetric]])

lemma ValidateStart_id: "ValidateStart spec = None \<Longrightarrow> ValidID (AllocationID spec)"
  by (auto simp: ValidateStart_def split: if_splits)

lemma hand_over_emits:
  assumes "hand_over e spec s1 = (r, s2)" and v: "ValidID (AllocationID spec)"
    and s1: "emits (allowed (AllocationID spec) cmds policies (start_archive_docker e spec) puts) s s1" (is "emits ?P s s1")
  shows "emits (allowed (AllocationID spec) cmds policies (start_archive_docker e spec) puts) s s2"
proof (cases "start_archive_docker e spec")
  case None
  then show ?thesis using assms by (simp add: hand_over_def)
next
  case (Some archive)
  let ?i = "AllocationID spec"
  obtain ok1 out1 t1 where a: "run_input e archive (receive_args ?i) s1 = ((ok1, out1), t1)" by (metis prod.exhaust)
  obtain ok2 out2 t2 where b: "run_cli e (worker_io ?i ''activate'') t1 = ((ok2, out2), t2)" by (metis prod.exhaust)
  have t1: "emits ?P s t1" by (rule emits_input [OF a _ s1]) (simp add: v Some)
  have t2: "emits ?P s t2" by (rule emits_own [OF b v _ t1]) simp
  show ?thesis
    using assms(1) abandon_emits [OF _ t1] abandon_emits [OF _ t2] docker_inspect_emits [OF _ t2]
    by (auto simp: hand_over_def Some a b Let_def split: bool.splits)
qed

lemma launch_emits:
  assumes "launch e spec s1 = (r, s2)" and v: "ValidID (AllocationID spec)"
    and s1: "emits (allowed (AllocationID spec) [run_args e spec] [policy_args (AllocationID spec) (spec_Resources spec)] (start_archive_docker e spec) []) s s1" (is "emits ?P s s1")
  shows "emits (allowed (AllocationID spec) [run_args e spec] [policy_args (AllocationID spec) (spec_Resources spec)] (start_archive_docker e spec) []) s s2"
proof -
  let ?i = "AllocationID spec"
  obtain ok1 out1 t1 where a: "run_cli e (run_args e spec) s1 = ((ok1, out1), t1)" by (metis prod.exhaust)
  obtain ok2 t2 where b: "run_policy e (policy_args ?i (spec_Resources spec)) t1 = (ok2, t2)" by (metis prod.exhaust)
  have t1: "emits ?P s t1" by (rule emits_cli [OF a _ s1]) (simp add: v)
  have t2: "emits ?P s t2" by (rule emits_policy [OF b _ t1]) (simp add: v)
  show ?thesis
    using assms(1) t1 abandon_emits [OF _ t2] hand_over_emits [OF _ v t2]
    by (auto simp: launch_def a b split: bool.splits)
qed

lemma Start_emits:
  "emits (allowed (AllocationID spec) [run_args e spec] [policy_args (AllocationID spec) (spec_Resources spec)] (start_archive_docker e spec) []) s (snd (Start_docker e spec s))" (is "emits ?P s _")
proof (cases "ValidateStart spec")
  case None
  let ?i = "AllocationID spec"
  note v = ValidateStart_id [OF None]
  obtain q t where a: "docker_inspect e ?i False s = (q, t)" by (metis prod.exhaust)
  obtain x u where b: "Stop_docker e ?i t = (x, u)" by (metis prod.exhaust)
  have t: "emits ?P s t" by (rule docker_inspect_emits [OF a]) simp
  have u: "emits ?P s u" by (rule Stop_emits [OF b t])
  note l = launch_emits [OF prod.collapse [symmetric] v]
  show ?thesis
    using t u l [OF t] l [OF u]
    by (auto simp: Start_docker_def None a b split: sum.splits runtime_error.splits option.splits)
qed (simp add: Start_docker_def)

lemma notify_emits:
  assumes v: "ValidID i" and s1: "emits (allowed i cmds policies secret puts) s s1"
    and path: "(path, body) \<in> set puts"
  shows "emits (allowed i cmds policies secret puts) s (snd (notify_worker e i m path body s1))" (is "emits ?P s _")
proof -
  obtain ok1 out1 t1 where a: "run_cli e (networks_args i) s1 = ((ok1, out1), t1)" by (metis prod.exhaust)
  obtain ok2 token t2 where b: "run_cli e (worker_io i ''read-token'') t1 = ((ok2, token), t2)" by (metis prod.exhaust)
  have t1: "emits ?P s t1" by (rule emits_own [OF a v _ s1]) simp
  have t2: "emits ?P s t2" by (rule emits_own [OF b v _ t1]) simp
  have put: "?P (Http ''PUT'' (''http://'' @ x @ '':9090'' @ path) k body)" for x k using path v by auto
  show ?thesis
    using t1 t2 emits_http [OF _ put t2]
    by (auto simp: notify_worker_def a b Let_def split: bool.splits option.splits prod.splits)
qed

lemma ApplyDestinations_emits:
  "emits (allowed i [update_args i r] [policy_args i r] (case update_archive e (update_files e files r) of Inl _ \<Rightarrow> None | Inr a \<Rightarrow> Some a)
     (case map_of files ''destinations.json'' of None \<Rightarrow> [] | Some b \<Rightarrow> [(''/v1/destinations'', b)])) s
     (snd (ApplyDestinations_docker e i files r s))" (is "emits ?P s _")
proof (cases "ValidID i")
  case v: True
  obtain ok1 t1 where a: "run_policy e (policy_args i r) s = (ok1, t1)" by (metis prod.exhaust)
  obtain ok2 out2 t2 where b: "run_cli e (update_args i r) t1 = ((ok2, out2), t2)" by (metis prod.exhaust)
  have t1: "emits ?P s t1" by (rule emits_policy [OF a]) (simp_all add: v)
  have t2: "emits ?P s t2" by (rule emits_cli [OF b _ t1]) (simp add: v)
  show ?thesis
  proof (cases "update_archive e (update_files e files r)")
    case (Inl err)
    then show ?thesis using t1 t2
      by (auto simp: ApplyDestinations_docker_def a b Let_def split: bool.splits)
  next
    case (Inr archive)
    obtain ok3 out3 t3 where c: "run_input e archive (receive_args i) t2 = ((ok3, out3), t3)" by (metis prod.exhaust)
    obtain ok4 out4 t4 where d: "run_cli e (worker_io i ''commit-resources'') t3 = ((ok4, out4), t4)" by (metis prod.exhaust)
    have t3: "emits ?P s t3" by (rule emits_input [OF c _ t2]) (simp add: v Inr)
    have t4: "emits ?P s t4" by (rule emits_own [OF d v _ t3]) simp
    show ?thesis
    proof (cases "map_of files ''destinations.json''")
      case (Some x)
      show ?thesis using t1 t2 t3 t4 notify_emits [OF v t4] Inr Some
        by (auto simp: ApplyDestinations_docker_def a b c d Let_def split: bool.splits)
    qed (simp add: ApplyDestinations_docker_def v Let_def)
  qed
qed (simp add: ApplyDestinations_docker_def Let_def)

lemma ApplySlatePolicy_emits: "emits (allowed i [] [] None [(''/v1/slate'', do_slate e x y)]) s (snd (ApplySlatePolicy_docker e i x y s))"
  by (simp add: ApplySlatePolicy_docker_def notify_emits)


definition list_call :: "docker_call \<Rightarrow> bool" where
  "list_call c \<longleftrightarrow> c = Docker list_args [] \<or> (\<exists>j. allowed j [] [] None [] c)"

lemma inspect_all_emits: "emits list_call s s1 \<Longrightarrow> emits list_call s (snd (inspect_all e is s1))"
proof (induction "is" arbitrary: s1)
  case (Cons i "is")
  obtain q t where a: "docker_inspect e i False s1 = (q, t)" by (metis prod.exhaust)
  have "emits (allowed i [] [] None []) s1 t" by (rule docker_inspect_emits [OF a]) simp
  then have "emits list_call s1 t" by (rule emits_mono) (auto simp: list_call_def)
  with Cons.prems have "emits list_call s t" by (rule emits_trans)
  with Cons.IH [of t] show ?case
    by (auto simp: a split: sum.splits runtime_error.splits prod.splits)
qed simp

lemma List_emits: "emits list_call s (snd (List_docker e s))"
proof -
  obtain ok out t where a: "run_cli e list_args s = ((ok, out), t)" by (metis prod.exhaust)
  have "emits list_call s t" by (rule emits_cli [OF a]) (simp_all add: list_call_def)
  then show ?thesis using inspect_all_emits by (auto simp: List_docker_def a split: bool.splits)
qed

text \<open>C9: what the runtime executes is confined to the worker it is asked about. For any behaviour of Docker, of the policy program and of the workers,
  an operation sends only commands on the container of a valid identifier, out of a fixed list, and a start adds one \<^verbatim>\<open>docker run\<close> that is computed
  from the specification without its files. The network policy has exactly the identifier and the bandwidths of the request as arguments. The contents of
  the files travel as the input of the command that receives them in the container, and the destination snapshot also as the body of the request
  that asks the worker to apply it; never in a command line. The only other request with a body is the slate policy. With an invalid identifier nothing is
  executed.
\<close>

theorem commands_confined_to_worker:
  "emits (allowed (AllocationID spec) [run_args e (spec\<lparr>Files := []\<rparr>)] [policy_args (AllocationID spec) (spec_Resources spec)] (start_archive_docker e spec) [])
     s (snd (Start_docker e spec s))
   \<and> emits (allowed i [] [] None []) s (snd (Stop_docker e i s))
   \<and> emits (allowed i [] [] None []) s (snd (Inspect_docker e i s))
   \<and> emits list_call s (snd (List_docker e s))
   \<and> emits (allowed i [update_args i r] [policy_args i r] (case update_archive e (update_files e files r) of Inl _ \<Rightarrow> None | Inr a \<Rightarrow> Some a)
       (case map_of files ''destinations.json'' of None \<Rightarrow> [] | Some b \<Rightarrow> [(''/v1/destinations'', b)])) s (snd (ApplyDestinations_docker e i files r s))
   \<and> emits (allowed i [] [] None [(''/v1/slate'', do_slate e x y)]) s (snd (ApplySlatePolicy_docker e i x y s))"
proof -
  have "run_args e (spec\<lparr>Files := []\<rparr>) = run_args e spec"
    by (simp add: run_args_def label_args_def spec_labels_def limit_args_def env_args_def)
  then show ?thesis
    using Start_emits [of spec e s] Stop_emits [OF prod.collapse [symmetric] emits_refl, of i "[]" "[]" None "[]" s e]
      docker_inspect_emits [OF prod.collapse [symmetric] emits_refl, of i "[]" "[]" None "[]" s e True]
    by (simp add: Inspect_docker_def List_emits ApplyDestinations_emits ApplySlatePolicy_emits)
qed

section \<open>Fencing\<close>

text \<open>A container that was started for a specification: Docker keeps the labels of the command line.\<close>

definition started_for :: "'d docker_env \<Rightarrow> worker_spec \<Rightarrow> container \<Rightarrow> bool" where
  "started_for e spec d \<longleftrightarrow> list_all (\<lambda>(k, x). label d k = x) (spec_labels e spec)"

lemma label_uint_decimal [simp]: "n < 2 ^ 64 \<Longrightarrow> label_uint (decimal n) = n"
proof -
  have "decimal n \<noteq> []" by (subst decimal.simps) simp
  then show "n < 2 ^ 64 \<Longrightarrow> label_uint (decimal n) = n" using decimal_digits [of n] by (simp add: label_uint_def list_all_iff)
qed

lemma labelled_spec_started:
  assumes "started_for e spec d" "spec_Generation spec < 2 ^ 64" "spec_FencingToken spec < 2 ^ 64"
  shows "AllocationID (labelled_spec d) = AllocationID spec" "spec_SessionID (labelled_spec d) = spec_SessionID spec"
    "spec_NodeID (labelled_spec d) = spec_NodeID spec" "spec_Generation (labelled_spec d) = spec_Generation spec"
    "spec_FencingToken (labelled_spec d) = spec_FencingToken spec"
  using assms by (simp_all add: started_for_def spec_labels_def labelled_spec_def no_spec_def)

lemma labelled_resources_keeps:
  "labelled_resources e d = Some sp \<Longrightarrow> \<exists>r. sp = (labelled_spec d)\<lparr>spec_Resources := r\<rparr>"
  by (auto simp: labelled_resources_def Let_def labelled_spec_def no_spec_def split: if_splits)

lemma running_resources_keeps:
  "running_resources e i sp s = (Some sp', s') \<Longrightarrow> \<exists>r. sp' = sp\<lparr>spec_Resources := r\<rparr>"
  by (auto simp: running_resources_def split: prod.splits if_splits)

lemma docker_inspect_reads:
  "emits (\<lambda>c. c = Docker [''inspect'', container_name i] [] \<or> c = Docker (worker_io i ''read-resources'') []) s (snd (docker_inspect e i False s))"
proof -
  obtain ok out t where a: "run_cli e [''inspect'', container_name i] s = ((ok, out), t)" by (metis prod.exhaust)
  have t: "emits (\<lambda>c. c = Docker [''inspect'', container_name i] [] \<or> c = Docker (worker_io i ''read-resources'') []) s t"
    by (rule emits_cli [OF a]) simp_all
  show ?thesis using t
    by (auto simp: docker_inspect_def a Let_def running_resources_def split: bool.splits option.splits list.splits prod.splits intro: emits_cli)
qed

lemma docker_inspect_found:
  assumes "do_Run e [''inspect'', container_name i] [] (dk_world s) = ((True, out), w)" "do_containers e out = Some [d]"
    "docker_inspect e i False s = (q, s')"
  shows "(\<exists>m. q = Inl (RuntimeFailure m)) \<or>
    (\<exists>wk r. q = Inr wk \<and> Spec wk = (labelled_spec d)\<lparr>spec_Resources := r\<rparr> \<and> State wk = (if ct_Running d then RUNNING else WSTOPPED))"
proof (cases "ValidID i")
  case True
  have ins: "run_cli e [''inspect'', container_name i] s =
      ((True, out), \<lparr>dk_world = w, dk_log = dk_log s @ [(Docker [''inspect'', container_name i] [], Exited True out)]\<rparr>)"
    by (simp add: run_cli_def run_input_def assms(1))
  show ?thesis using assms(2,3) True
    by (auto simp: docker_inspect_def ins Let_def split: if_splits option.splits prod.splits
        dest!: labelled_resources_keeps running_resources_keeps)
qed (use assms(3) in \<open>auto simp: docker_inspect_def\<close>)


text \<open>C10: a start never acts on a container of a newer fencing token, and never restarts the generation that runs. When Docker reports the container of
  the allocation with the labels of the specification \<open>old\<close> that it was started for, and \<open>old\<close> has a newer token than the request, or the same
  generation and runs, then the start only reads: nothing is stopped, removed, started or handed over. With a newer token the start fails, with the
  fencing error unless the resources of the container cannot be read. (Tokens and generations are 64-bit numbers.)
\<close>

theorem start_keeps_newer_container:
  assumes "do_Run e [''inspect'', container_name (AllocationID spec)] [] (dk_world s) = ((True, out), w)" "do_containers e out = Some [d]"
    and "started_for e old d" "spec_Generation old < 2 ^ 64" "spec_FencingToken old < 2 ^ 64"
    and "Start_docker e spec s = (res, s')"
    and "spec_FencingToken spec < spec_FencingToken old \<or> spec_Generation old = spec_Generation spec \<and> ct_Running d"
  shows "emits (\<lambda>c. c = Docker [''inspect'', container_name (AllocationID spec)] [] \<or>
             c = Docker (worker_io (AllocationID spec) ''read-resources'') []) s s'
    \<and> (spec_FencingToken spec < spec_FencingToken old \<longrightarrow>
         res = Inl ErrFenced \<or> (\<exists>err. ValidateStart spec = Some err \<and> res = Inl err) \<or> (\<exists>m. res = Inl (RuntimeFailure m)))
    \<and> (\<forall>wk. res = Inr wk \<longrightarrow> State wk = RUNNING \<and> spec_SessionID (Spec wk) = spec_SessionID old \<and> spec_FencingToken (Spec wk) = spec_FencingToken old)"
proof (cases "ValidateStart spec")
  case (Some err)
  then show ?thesis using assms(6) by (auto simp: Start_docker_def)
next
  case None
  obtain q t where ins: "docker_inspect e (AllocationID spec) False s = (q, t)" by (metis prod.exhaust)
  note found = docker_inspect_found [OF assms(1,2) ins]
  note old = labelled_spec_started [OF assms(3-5)]
  have "s' = t" and "res = (case q of Inl err \<Rightarrow> Inl err | Inr wk \<Rightarrow> if spec_FencingToken spec < spec_FencingToken old then Inl ErrFenced else Inr wk)"
    using assms(6,7) found by (auto simp: Start_docker_def None ins old split: if_splits)
  then show ?thesis
    using docker_inspect_reads [of "AllocationID spec" s e] found assms(7) old by (auto simp: ins split: if_splits)
qed

section \<open>Failures of a start and the order of an update\<close>

text \<open>The calls of the cleanup after a failed start: inspect, stop and remove the container, cut short only by a command that fails.\<close>

definition cleanup :: "string \<Rightarrow> (docker_call \<times> docker_reply) list \<Rightarrow> bool" where
  "cleanup i l \<longleftrightarrow>
     (\<exists>x. l = [(Docker (exists_args i) [], Exited False x)]) \<or>
     (\<exists>x y. l = [(Docker (exists_args i) [], Exited True x), (Docker (stop_args i) [], Exited False y)]) \<or>
     (\<exists>x y ok z. l = [(Docker (exists_args i) [], Exited True x), (Docker (stop_args i) [], Exited True y), (Docker (remove_args i) [], Exited ok z)])"

lemma Stop_cleanup:
  assumes "ValidID i"
  shows "\<exists>l. dk_log (snd (Stop_docker e i s)) = dk_log s @ l \<and> cleanup i l"
proof -
  obtain ok1 out1 t1 where a: "run_cli e (exists_args i) s = ((ok1, out1), t1)" by (metis prod.exhaust)
  obtain ok2 out2 t2 where b: "run_cli e (stop_args i) t1 = ((ok2, out2), t2)" by (metis prod.exhaust)
  obtain ok3 out3 t3 where c: "run_cli e (remove_args i) t2 = ((ok3, out3), t3)" by (metis prod.exhaust)
  note logs = run_cli_log [OF a] run_cli_log [OF b] run_cli_log [OF c]
  show ?thesis using assms logs by (cases ok1; cases ok2; cases ok3) (auto simp: Stop_docker_def a b c cleanup_def)
qed

definition inspection_errors :: "runtime_error list" where
  "inspection_errors = ErrNotFound # map RuntimeFailure [''docker inspect unavailable'', ''invalid docker inspect'', ''invalid resource labels'',
     ''worker resource snapshot unavailable'']"

lemma inspection_failed: "docker_inspect e i report s = (Inl err, s') \<Longrightarrow> ValidID i \<Longrightarrow> err \<in> set inspection_errors"
  by (auto simp: docker_inspect_def inspection_errors_def Let_def split: if_splits prod.splits bool.splits option.splits list.splits)

text \<open>The calls of a start once its container was created, when the start fails.\<close>

definition policy_calls :: "'d docker_env \<Rightarrow> worker_spec \<Rightarrow> (docker_call \<times> docker_reply) list" where
  "policy_calls e spec = (if do_Policy e = None then [] else [(NetPolicy (policy_args (AllocationID spec) (spec_Resources spec)), Exited True [])])"

definition handover_calls :: "worker_spec \<Rightarrow> string \<Rightarrow> string \<Rightarrow> bool \<Rightarrow> string \<Rightarrow> (docker_call \<times> docker_reply) list" where
  "handover_calls spec archive x ok y =
     [(Docker (receive_args (AllocationID spec)) archive, Exited True x), (Docker (worker_io (AllocationID spec) ''activate'') [], Exited ok y)]"

definition handover_failed :: "'d docker_env \<Rightarrow> worker_spec \<Rightarrow> runtime_error \<Rightarrow> (docker_call \<times> docker_reply) list \<Rightarrow> bool" where
  "handover_failed e spec err l \<longleftrightarrow>
     (case start_archive_docker e spec of
        None \<Rightarrow> err = RuntimeFailure ''archive'' \<and> l = []
      | Some archive \<Rightarrow>
          (\<exists>x c. l = (Docker (receive_args (AllocationID spec)) archive, Exited False x) # c \<and> err = RuntimeFailure ''secret handoff failed'' \<and>
             cleanup (AllocationID spec) c) \<or>
          (\<exists>x y c. l = handover_calls spec archive x False y @ c \<and> err = RuntimeFailure ''worker activation failed'' \<and> cleanup (AllocationID spec) c) \<or>
          (\<exists>x y c. l = handover_calls spec archive x True y @ c \<and> err \<in> set inspection_errors \<and>
             set (map fst c) \<subseteq> {Docker [''inspect'', container_name (AllocationID spec)] [], Docker (worker_io (AllocationID spec) ''read-resources'') []}))"

lemma hand_over_failure:
  assumes "hand_over e spec s = (Inl err, s')" and v: "ValidID (AllocationID spec)"
  shows "\<exists>l. dk_log s' = dk_log s @ l \<and> handover_failed e spec err l"
proof (cases "start_archive_docker e spec")
  case None
  then show ?thesis using assms(1) by (simp add: hand_over_def handover_failed_def)
next
  case (Some archive)
  let ?i = "AllocationID spec"
  obtain ok1 out1 t1 where a: "run_input e archive (receive_args ?i) s = ((ok1, out1), t1)" by (metis prod.exhaust)
  obtain ok2 out2 t2 where b: "run_cli e (worker_io ?i ''activate'') t1 = ((ok2, out2), t2)" by (metis prod.exhaust)
  note logs = run_input_log [OF a] run_cli_log [OF b]
  consider (receive) "\<not> ok1" | (activate) "ok1" "\<not> ok2" | (active) "ok1" "ok2" by blast
  then show ?thesis
  proof cases
    case receive
    then have "err = RuntimeFailure ''secret handoff failed''" "s' = snd (Stop_docker e ?i t1)"
      using assms(1) by (simp_all add: hand_over_def Some a abandon_def)
    then show ?thesis using Stop_cleanup [OF v, of e t1] logs receive Some by (auto simp: handover_failed_def)
  next
    case activate
    then have "err = RuntimeFailure ''worker activation failed''" "s' = snd (Stop_docker e ?i t2)"
      using assms(1) by (simp_all add: hand_over_def Some a b abandon_def)
    then show ?thesis using Stop_cleanup [OF v, of e t2] logs activate Some by (auto simp: handover_calls_def handover_failed_def)
  next
    case active
    then have ins: "docker_inspect e ?i False t2 = (Inl err, s')" using assms(1) by (simp add: hand_over_def Some a b)
    have "dk_log t2 = dk_log s @ handover_calls spec archive out1 True out2" using logs active by (simp add: handover_calls_def)
    moreover obtain c where "dk_log s' = dk_log t2 @ c"
        "set (map fst c) \<subseteq> {Docker [''inspect'', container_name ?i] [], Docker (worker_io ?i ''read-resources'') []}"
      using docker_inspect_reads [of ?i t2 e] by (auto simp: ins emits_def prefix_def list_all_iff image_subset_iff)
    ultimately show ?thesis
      using inspection_failed [OF ins v] Some by (intro exI [of _ "handover_calls spec archive out1 True out2 @ c"]) (auto simp: handover_failed_def)
  qed
qed

lemma run_args_not_container: "\<not> allowed i [] [] None [] (Docker (run_args e spec) x)"
  by (auto simp: run_args_def container_commands_def exists_args_def networks_args_def stop_args_def remove_args_def worker_io_def receive_args_def)

lemma launch_reached:
  assumes "Start_docker e spec s = (Inl err, s')" "\<exists>x y. (Docker (run_args e spec) x, y) \<in> set (drop (length (dk_log s)) (dk_log s'))"
  shows "\<exists>v before. launch e spec v = (Inl err, s') \<and> dk_log v = dk_log s @ before \<and> ValidID (AllocationID spec) \<and>
    (\<forall>x y. (Docker (run_args e spec) x, y) \<notin> set before)"
proof -
  let ?i = "AllocationID spec"
  let ?P = "allowed ?i [] [] None []"
  obtain q t where ins: "docker_inspect e ?i False s = (q, t)" by (metis prod.exhaust)
  obtain z u where stop: "Stop_docker e ?i t = (z, u)" by (metis prod.exhaust)
  have t: "emits ?P s t" by (rule docker_inspect_emits [OF ins]) simp
  have u: "emits ?P s u" by (rule Stop_emits [OF stop t])
  have none: "(Docker (run_args e spec) x, y) \<notin> set l" if "emits ?P s w" "dk_log w = dk_log s @ l" for w l x y
    using that run_args_not_container by (force simp: emits_def list_all_iff)
  have "\<not> emits ?P s s'"
  proof
    assume em: "emits ?P s s'"
    then obtain l where "dk_log s' = dk_log s @ l" by (auto simp: emits_def prefix_def)
    then show False using none [OF em] assms(2) by auto
  qed
  then have "s' \<noteq> s" "s' \<noteq> t" "s' \<noteq> u" using t u by auto
  then have valid: "ValidateStart spec = None" and l: "launch e spec t = (Inl err, s') \<or> launch e spec u = (Inl err, s')"
    using assms(1) by (auto simp: Start_docker_def ins stop split: option.splits sum.splits runtime_error.splits if_splits)
  from l obtain v where v: "launch e spec v = (Inl err, s')" "emits ?P s v" using t u by blast
  then obtain before where "dk_log v = dk_log s @ before" by (auto simp: emits_def prefix_def)
  then show ?thesis using v none ValidateStart_id [OF valid] by blast
qed

text \<open>C11: what a start leaves behind when it fails after its container was created. When the network policy is refused, the files cannot be handed over or the
  worker cannot be activated, the calls after the creation are the ones up to the failure, so that without an accepted policy no file reaches the container, and
  then the cleanup follows: inspect, stop and remove the container, cut short only by a command that fails itself. There are two other failures, and they leave the
  container as it is: an archive that cannot be written, before any file is handed over, and the inspection that ends the start, after the
  worker was activated.\<close>

theorem failed_start_cleanup:
  assumes "Start_docker e spec s = (Inl err, s')" "\<exists>out. (Docker (run_args e spec) [], Exited True out) \<in> set (drop (length (dk_log s)) (dk_log s'))"
  shows "\<exists>before out l. dk_log s' = dk_log s @ before @ (Docker (run_args e spec) [], Exited True out) # l \<and>
    ((\<exists>c. l = (NetPolicy (policy_args (AllocationID spec) (spec_Resources spec)), Exited False []) # c \<and>
        err = RuntimeFailure ''worker network policy failed'' \<and> cleanup (AllocationID spec) c) \<or>
     (\<exists>c. l = policy_calls e spec @ c \<and> handover_failed e spec err c))"
proof -
  let ?i = "AllocationID spec"
  obtain v before where v: "launch e spec v = (Inl err, s')" "dk_log v = dk_log s @ before" "ValidID ?i"
      "\<forall>x y. (Docker (run_args e spec) x, y) \<notin> set before"
    using launch_reached [OF assms(1)] assms(2) by blast
  obtain ok1 out1 t1 where a: "run_cli e (run_args e spec) v = ((ok1, out1), t1)" by (metis prod.exhaust)
  obtain ok2 t2 where b: "run_policy e (policy_args ?i (spec_Resources spec)) t1 = (ok2, t2)" by (metis prod.exhaust)
  have prelog: "dk_log t1 = dk_log s @ before @ [(Docker (run_args e spec) [], Exited ok1 out1)]" using run_cli_log [OF a] v(2) by simp
  consider (denied) "\<not> ok1" | (policy) ok1 "\<not> ok2" | (handed) ok1 ok2 by blast
  then show ?thesis
  proof cases
    case denied
    then have "s' = t1" using v(1) by (simp add: launch_def a)
    then have False using assms(2) v(4) denied by (auto simp: prelog)
    then show ?thesis ..
  next
    case policy
    then have s': "err = RuntimeFailure ''worker network policy failed''" "s' = snd (Stop_docker e ?i t2)"
      using v(1) by (simp_all add: launch_def a b abandon_def)
    have "do_Policy e \<noteq> None" using b policy by (cases "do_Policy e") (simp_all add: run_policy_def)
    then have t2: "dk_log t2 = dk_log s @ before @ (Docker (run_args e spec) [], Exited True out1) #
        [(NetPolicy (policy_args ?i (spec_Resources spec)), Exited False [])]" using policy prelog run_policy_log [OF b] by simp
    obtain c where c: "dk_log s' = dk_log t2 @ c" "cleanup ?i c" using Stop_cleanup [OF v(3), of e t2] s'(2) by blast
    show ?thesis
      by (rule exI [of _ before], rule exI [of _ out1], rule exI [of _ "(NetPolicy (policy_args ?i (spec_Resources spec)), Exited False []) # c"])
        (use c t2 s'(1) in simp)
  next
    case handed
    then have h: "hand_over e spec t2 = (Inl err, s')" using v(1) by (simp add: launch_def a b)
    have t2: "dk_log t2 = dk_log s @ before @ (Docker (run_args e spec) [], Exited True out1) # policy_calls e spec"
      using run_policy_log [OF b] handed prelog by (simp add: policy_calls_def)
    obtain c where c: "dk_log s' = dk_log t2 @ c" "handover_failed e spec err c" using hand_over_failure [OF h v(3)] by blast
    show ?thesis
      by (rule exI [of _ before], rule exI [of _ out1], rule exI [of _ "policy_calls e spec @ c"]) (use c t2 in simp)
  qed
qed

text \<open>The calls of an update that reaches the worker: every one before the request succeeded.\<close>

fun succeeded :: "docker_call \<times> docker_reply \<Rightarrow> bool" where
  "succeeded (c, Exited ok out) = ok"
| "succeeded (c, Answered (Some (status, body))) = (status = 204)"
| "succeeded (c, Answered None) = False"

definition update_calls :: "'d docker_env \<Rightarrow> string \<Rightarrow> resource_vector \<Rightarrow> string \<Rightarrow> docker_call list" where
  "update_calls e i r archive = (if do_Policy e = None then [] else [NetPolicy (policy_args i r)]) @
     [Docker (update_args i r) [], Docker (receive_args i) archive, Docker (worker_io i ''commit-resources'') []]"

text \<open>The log of an operation that stops at its first failure.\<close>

definition stops_early :: "(docker_call \<times> docker_reply) list \<Rightarrow> bool" where
  "stops_early l \<longleftrightarrow> list_all succeeded (butlast l) \<and> list_all (\<lambda>c. \<forall>m u t b. fst c \<noteq> Http m u t b) l"

lemma notify_log:
  assumes "notify_worker e i m path body s = (res, s')"
  shows "(\<exists>out ns token ans. do_networks e out = Some ns \<and> address_of (do_Network e) ns \<noteq> [] \<and>
      dk_log s' = dk_log s @ [(Docker (networks_args i) [], Exited True out), (Docker (worker_io i ''read-token'') [], Exited True token),
        (Http ''PUT'' (''http://'' @ address_of (do_Network e) ns @ '':9090'' @ path) (TrimSpace token) body, Answered ans)] \<and>
      (res = None) = (\<exists>x. ans = Some (204, x)))
    \<or> res \<noteq> None \<and> (\<exists>l. dk_log s' = dk_log s @ l \<and> stops_early l)"
proof -
  obtain ok1 out1 t1 where a: "run_cli e (networks_args i) s = ((ok1, out1), t1)" by (metis prod.exhaust)
  obtain ok2 token t2 where b: "run_cli e (worker_io i ''read-token'') t1 = ((ok2, token), t2)" by (metis prod.exhaust)
  note logs = run_cli_log [OF a] run_cli_log [OF b]
  show ?thesis
  proof (cases "ok1 \<and> ok2 \<and> (\<exists>ns. do_networks e out1 = Some ns \<and> address_of (do_Network e) ns \<noteq> [])")
    case False
    then have "res \<noteq> None \<and> (s' = t1 \<or> s' = t2 \<and> ok1)"
      using assms by (auto simp: notify_worker_def a b Let_def split: bool.splits option.splits if_splits)
    then show ?thesis using logs by (auto simp: stops_early_def)
  next
    case True
    then obtain ns where ns: "ok1" "ok2" "do_networks e out1 = Some ns" "address_of (do_Network e) ns \<noteq> []" by blast
    obtain ans t3 where c: "run_http e ''PUT'' (''http://'' @ address_of (do_Network e) ns @ '':9090'' @ path) (TrimSpace token) body t2 = (ans, t3)"
      by (metis prod.exhaust)
    have "notify_worker e i m path body s = (case ans of None \<Rightarrow> (Some (RuntimeFailure ''worker update unavailable''), t3)
        | Some (status, x) \<Rightarrow> (if status = 204 then None else Some (RuntimeFailure (''worker update HTTP '' @ FormatInt status)), t3))"
      using ns c by (simp only: notify_worker_def a b Let_def if_True if_False prod.case option.case bool.case split: if_split option.split)
    then have "s' = t3" "(res = None) = (\<exists>x. ans = Some (204, x))"
      using assms by (auto split: option.splits if_splits prod.splits)
    then show ?thesis using logs run_http_log [OF c] ns by auto
  qed
qed

text \<open>C12: the worker is asked to change its destinations only when everything it needs is in place. Either the request was sent: then the network policy, the new
  limits of the container, the files, the command that commits the new resources and the reads of the worker's address and token were executed before
  it in this order and all succeeded, the request goes to the address that was read, with the token that was read and the destination snapshot as its body, and
  the change succeeds exactly when the worker answers 204. Or it was not sent: then the result is an error and every call but the last succeeded, so
  that nothing follows a failure.\<close>

theorem destinations_applied_in_order:
  assumes "ApplyDestinations_docker e i files r s = (res, s')"
  shows "(\<exists>archive b calls out ns token ans. update_archive e (update_files e files r) = Inr archive \<and> map_of files ''destinations.json'' = Some b \<and> b \<noteq> [] \<and>
            map fst calls = update_calls e i r archive \<and> list_all succeeded calls \<and>
            do_networks e out = Some ns \<and> address_of (do_Network e) ns \<noteq> [] \<and>
            dk_log s' = dk_log s @ calls @ [(Docker (networks_args i) [], Exited True out), (Docker (worker_io i ''read-token'') [], Exited True token),
              (Http ''PUT'' (''http://'' @ address_of (do_Network e) ns @ '':9090/v1/destinations'') (TrimSpace token) b, Answered ans)] \<and>
            (res = None) = (\<exists>x. ans = Some (204, x)))
       \<or> res \<noteq> None \<and> (\<exists>l. dk_log s' = dk_log s @ l \<and> list_all succeeded (butlast l) \<and> (\<forall>m u t b x. (Http m u t b, x) \<notin> set l))"
proof -
  have early: ?thesis if "res \<noteq> None" "\<exists>l. dk_log s' = dk_log s @ l \<and> stops_early l"
    using that by (intro disjI2) (fastforce simp: stops_early_def list_all_iff)
  obtain ok1 t1 where a: "run_policy e (policy_args i r) s = (ok1, t1)" by (metis prod.exhaust)
  obtain ok2 out2 t2 where b: "run_cli e (update_args i r) t1 = ((ok2, out2), t2)" by (metis prod.exhaust)
  note logs = run_policy_log [OF a] run_cli_log [OF b]
  consider (first) "res \<noteq> None" "s' = s \<or> s' = t1 \<or> s' = t2 \<and> ok1"
    | (update) archive where ok1 ok2 "update_archive e (update_files e files r) = Inr archive" "ValidID i"
        "(case map_of files ''destinations.json'' of None \<Rightarrow> [] | Some b \<Rightarrow> b) \<noteq> []"
        "\<not> (Slots r \<noteq> 1 \<or> CPUMillis r \<le> 0 \<or> MemoryBytes r \<le> 0 \<or> IngressBPS r \<le> 0 \<or> EgressBPS r \<le> 0)"
    using assms by (cases ok1; cases ok2; cases "update_archive e (update_files e files r)")
      (auto simp: ApplyDestinations_docker_def a b Let_def split: if_splits)
  then show ?thesis
  proof cases
    case first
    have "\<exists>l. dk_log s' = dk_log s @ l \<and> stops_early l"
      using first(2) logs by (cases "do_Policy e = None") (auto simp: stops_early_def)
    then show ?thesis by (rule early [OF first(1)])
  next
    case update
    obtain x where x: "map_of files ''destinations.json'' = Some x" "x \<noteq> []" using update(5) by (auto split: option.splits)
    obtain ok3 out3 t3 where c: "run_input e archive (receive_args i) t2 = ((ok3, out3), t3)" by (metis prod.exhaust)
    obtain ok4 out4 t4 where d: "run_cli e (worker_io i ''commit-resources'') t3 = ((ok4, out4), t4)" by (metis prod.exhaust)
    note logs = logs run_input_log [OF c] run_cli_log [OF d]
    have eq: "(res, s') = (if \<not> ok3 then (Some (RuntimeFailure ''destination secret handoff failed''), t3)
        else if \<not> ok4 then (Some (RuntimeFailure ''resource snapshot update failed''), t4)
        else notify_worker e i ''worker network unavailable'' ''/v1/destinations'' x t4)"
      using assms update x by (cases ok3; cases ok4) (simp_all add: ApplyDestinations_docker_def a b c d)
    show ?thesis
    proof (cases "ok3 \<and> ok4")
      case False
      then have "res \<noteq> None" "s' = t3 \<or> s' = t4 \<and> ok3" using eq by (auto split: if_splits)
      moreover from this(2) have "\<exists>l. dk_log s' = dk_log s @ l \<and> stops_early l"
        using logs update(1,2) by (cases "do_Policy e = None") (auto simp: stops_early_def)
      ultimately show ?thesis using early by blast
    next
      case True
      then have n: "notify_worker e i ''worker network unavailable'' ''/v1/destinations'' x t4 = (res, s')" using eq by simp
      define calls where "calls = (if do_Policy e = None then [] else [(NetPolicy (policy_args i r), Exited True [])]) @
        [(Docker (update_args i r) [], Exited True out2), (Docker (receive_args i) archive, Exited True out3),
         (Docker (worker_io i ''commit-resources'') [], Exited True out4)]"
      have calls: "dk_log t4 = dk_log s @ calls" "map fst calls = update_calls e i r archive" "list_all succeeded calls"
        using logs update(1,2) True by (simp_all add: calls_def update_calls_def)
      from notify_log [OF n] show ?thesis
      proof (elim disjE exE conjE, goal_cases)
        case (1 out ns token ans)
        then show ?case using update(3) x calls by (intro disjI1 exI conjI) simp_all
      next
        case (2 l)
        have "stops_early (calls @ l)"
          using 2(3) calls(3) by (cases "l = []") (auto simp: stops_early_def butlast_append calls_def list_all_iff dest: in_set_butlastD)
        moreover have "dk_log s' = dk_log s @ calls @ l" using 2(2) calls(1) by simp
        ultimately show ?case using early [OF 2(1)] by blast
      qed
    qed
  qed
qed

section \<open>Examples\<close>

text \<open>A client for which the container of an allocation exists, and one for which it does not and whose workers cannot be activated.\<close>

definition demo_docker :: "(string list \<Rightarrow> bool \<times> string) \<Rightarrow> unit docker_env" where
  "demo_docker answer = \<lparr>do_Run = (\<lambda>args x w. (answer args, w)), do_Policy = None, do_Http = (\<lambda>m u t b w. (Some (204, []), w)), do_Network = ''workers'',
     do_tar = (\<lambda>fs. Some (concat (map snd fs))), do_resources = (\<lambda>r. ''{}''), do_read_resources = (\<lambda>x r. Some r),
     do_containers = (\<lambda>x. Some [\<lparr>ct_Labels = [(''streamtool.allocation'', ''a1''), (''streamtool.session'', ''s1''), (''streamtool.node'', ''n1''),
       (''streamtool.generation'', ''1''), (''streamtool.fencing'', ''9''), (''streamtool.resources'', ''{}''), (''streamtool.slots'', ''1'')],
       ct_Running = True, ct_ExitCode = 0, ct_StartedAt = 0, ct_Networks = [(''workers'', ''10.0.0.2'')]\<rparr>]),
     do_networks = (\<lambda>x. Some [(''workers'', ''10.0.0.2'')]), do_snapshot = (\<lambda>x. None), do_slate = (\<lambda>a b. ''{}'')\<rparr>"

definition demo_docker_state :: "unit docker_state" where
  "demo_docker_state = \<lparr>dk_world = (), dk_log = []\<rparr>"

definition dead_answer :: "string list \<Rightarrow> bool \<times> string" where
  "dead_answer args = (if hd args = ''inspect'' \<and> length args = 2 then (False, ''no such object'')
     else (last args \<noteq> ''activate'', []))"

lemma demo_started: "started_for (demo_docker answer) (demo_spec\<lparr>spec_FencingToken := 9\<rparr>) (the (map_option hd (do_containers (demo_docker answer) [])))"
proof -
  have "digit_char 1 = CHR ''1''" "digit_char 9 = CHR ''9''" by (simp_all add: digit_char_def char_of_def bit_iff_odd)
  then show ?thesis
    by (simp add: started_for_def spec_labels_def demo_docker_def demo_spec_def label_def decimal.simps FormatInt_def)
qed

theorem start_keeps_newer_container_witness:
  "emits (\<lambda>c. c = Docker [''inspect'', container_name ''a1''] [] \<or> c = Docker (worker_io ''a1'' ''read-resources'') [])
     demo_docker_state (snd (Start_docker (demo_docker (\<lambda>args. (True, []))) demo_spec demo_docker_state))"
proof -
  have a: "do_Run (demo_docker (\<lambda>args. (True, []))) args [] w = ((True, []), w)" for args w by (simp add: demo_docker_def)
  have c: "\<exists>d. do_containers (demo_docker answer) [] = Some [d]" for answer by (simp add: demo_docker_def)
  have i: "AllocationID demo_spec = ''a1''" by (simp add: demo_spec_def)
  obtain d where d: "do_containers (demo_docker (\<lambda>args. (True, []))) [] = Some [d]" using c by blast
  have st: "started_for (demo_docker (\<lambda>args. (True, []))) (demo_spec\<lparr>spec_FencingToken := 9\<rparr>) d"
    using demo_started [of "\<lambda>args. (True, [])"] by (simp add: d)
  have "spec_Generation demo_spec = 1" "spec_FencingToken demo_spec = 7" by (simp_all add: demo_spec_def)
  then show ?thesis
    using start_keeps_newer_container [where spec = demo_spec and s = demo_docker_state, OF a d st _ _ prod.collapse [symmetric]] by (simp add: i)
qed

lemma demo_dead_start: "fst (Start_docker (demo_docker dead_answer) demo_spec demo_docker_state) = Inl (RuntimeFailure ''worker activation failed'')"
proof -
  have "Image demo_spec = ''img''" by (simp add: demo_spec_def)
  then show ?thesis
    using demo_spec_valid ValidateStart_id [OF demo_spec_valid]
    by (simp add: Start_docker_def docker_inspect_def run_cli_def run_input_def demo_docker_def demo_docker_state_def dead_answer_def no_such_def
      launch_def hand_over_def run_policy_def start_archive_docker_def abandon_def run_args_def worker_io_def receive_args_def ascii_lower_def Let_def)
qed


theorem failed_start_cleanup_witness:
  "\<exists>before out archive x y c. dk_log (snd (Start_docker (demo_docker dead_answer) demo_spec demo_docker_state)) =
     before @ (Docker (run_args (demo_docker dead_answer) demo_spec) [], Exited True out) # handover_calls demo_spec archive x False y @ c \<and> cleanup ''a1'' c"
proof -
  let ?e = "demo_docker dead_answer" and ?s = "snd (Start_docker (demo_docker dead_answer) demo_spec demo_docker_state)"
  have i: "AllocationID demo_spec = ''a1''" by (simp add: demo_spec_def)
  have eq: "Start_docker ?e demo_spec demo_docker_state = (Inl (RuntimeFailure ''worker activation failed''), ?s)"
    using demo_dead_start by (metis prod.collapse)
  have log0: "dk_log demo_docker_state = []" by (simp add: demo_docker_state_def)
  have "Image demo_spec = ''img''" by (simp add: demo_spec_def)
  then have "(Docker (run_args ?e demo_spec) [], Exited True []) \<in> set (dk_log ?s)"
    using demo_spec_valid ValidateStart_id [OF demo_spec_valid]
    by (simp add: Start_docker_def docker_inspect_def run_cli_def run_input_def demo_docker_def demo_docker_state_def dead_answer_def no_such_def
      launch_def hand_over_def run_policy_def start_archive_docker_def abandon_def run_args_def worker_io_def receive_args_def ascii_lower_def Stop_docker_def
      exists_args_def stop_args_def remove_args_def container_name_def Let_def)
  then have cr: "\<exists>out. (Docker (run_args ?e demo_spec) [], Exited True out) \<in> set (drop (length (dk_log demo_docker_state)) (dk_log ?s))" using log0 by auto
  have "policy_calls ?e demo_spec = []" "RuntimeFailure ''worker activation failed'' \<notin> set inspection_errors" "do_Policy ?e = None"
    by (simp_all add: policy_calls_def demo_docker_def inspection_errors_def)
  moreover obtain before out l where log: "dk_log ?s = before @ (Docker (run_args ?e demo_spec) [], Exited True out) # l"
      "(\<exists>c. l = policy_calls ?e demo_spec @ c \<and> handover_failed ?e demo_spec (RuntimeFailure ''worker activation failed'') c)"
    using failed_start_cleanup [OF eq cr] log0 by auto
  ultimately obtain archive x y c where "l = handover_calls demo_spec archive x False y @ c" "cleanup ''a1'' c"
    by (auto simp: handover_failed_def i split: option.splits)
  then show ?thesis using log(1) by metis
qed

theorem destinations_applied_in_order_witness:
  "\<exists>archive b calls out ns token x. update_archive (demo_docker (\<lambda>args. (True, []))) (update_files (demo_docker (\<lambda>args. (True, [])))
         [(''destinations.json'', ''[]'')] (spec_Resources demo_spec)) = Inr archive \<and>
     map fst calls = update_calls (demo_docker (\<lambda>args. (True, []))) ''a1'' (spec_Resources demo_spec) archive \<and> list_all succeeded calls \<and>
     dk_log (snd (ApplyDestinations_docker (demo_docker (\<lambda>args. (True, []))) ''a1'' [(''destinations.json'', ''[]'')] (spec_Resources demo_spec) demo_docker_state)) =
     calls @ [(Docker (networks_args ''a1'') [], Exited True out), (Docker (worker_io ''a1'' ''read-token'') [], Exited True token),
       (Http ''PUT'' (''http://'' @ address_of ''workers'' ns @ '':9090/v1/destinations'') (TrimSpace token) b, Answered (Some (204, x)))]"
proof -
  let ?e = "demo_docker (\<lambda>args. (True, []))"
  have ok: "fst (ApplyDestinations_docker ?e ''a1'' [(''destinations.json'', ''[]'')] (spec_Resources demo_spec) demo_docker_state) = None"
    by (simp add: ApplyDestinations_docker_def notify_worker_def run_cli_def run_input_def run_http_def run_policy_def demo_docker_def demo_docker_state_def
        demo_spec_def update_archive_def update_files_def destination_file_ok_def address_of_def ValidID_def is_alnum_def Let_def)
  have "do_Network ?e = ''workers''" "dk_log demo_docker_state = []" by (simp_all add: demo_docker_def demo_docker_state_def)
  then show ?thesis
    using destinations_applied_in_order [where e = ?e and i = "''a1''" and files = "[(''destinations.json'', ''[]'')]" and r = "spec_Resources demo_spec"
        and s = demo_docker_state, OF prod.collapse [symmetric]] ok
    by auto
qed

end
