(* ===== verification/Media_Pipeline.thy ===== *)
theory Media_Pipeline
  imports Media_Config Worker_Service "HOL-Library.AList"
begin

text \<open>
  The media pipeline of a worker, \<^verbatim>\<open>backend/internal/pipeline\<close>: the plan of its elements and the check of it (\<^verbatim>\<open>graph.go\<close>), the
  branches of the running pipeline and what is reported of them (\<^verbatim>\<open>gstreamer.go\<close>), the choice between the source and the slate
  (\<^verbatim>\<open>fallback_gstreamer.go\<close>) and the checks of the source (\<^verbatim>\<open>source.go\<close>). What GStreamer answers is an argument; the control
  decisions and their state are those of the code.
\<close>

section \<open>The plan\<close>

datatype media_kind = NoKind | Video | Audio

datatype property = PInt int | PText string | PBool bool

record element =
  el_Name :: string
  el_Factory :: string
  el_Properties :: "(string \<times> property) list"

record link =
  ln_From :: string
  ln_To :: string
  ln_Dynamic :: bool
  ln_Kind :: media_kind

record graph =
  Elements :: "element list"
  Links :: "link list"

record slate_setting =
  OnSourceLoss :: bool
  Forced :: bool

record destination_spec =
  pd_ID :: string
  pd_Generation :: nat
  pd_Location :: string

record pipeline_spec =
  ps_media :: media_profile
  ps_source :: string
  ps_image :: string
  ps_video :: string
  ps_slate :: slate_setting
  ps_destinations :: "destination_spec list"
  ps_queue :: nat

datatype plan_error = PlanIncomplete | PlanMedia | PlanDestination string

definition elem :: "string \<Rightarrow> string \<Rightarrow> (string \<times> property) list \<Rightarrow> element" where
  "elem name factory props = \<lparr>el_Name = name, el_Factory = factory, el_Properties = props\<rparr>"

definition wire :: "string \<Rightarrow> string \<Rightarrow> link" where
  "wire x y = \<lparr>ln_From = x, ln_To = y, ln_Dynamic = False, ln_Kind = NoKind\<rparr>"

definition common_elements :: "string \<Rightarrow> media_profile \<Rightarrow> element list" where
  "common_elements location media =
     [elem ''source'' ''srtsrc'' [(''uri'', PText location)], elem ''demux'' ''tsdemux'' [],
      elem ''video_parse'' ''h264parse'' [], elem ''video_decode'' ''openh264dec'' [],
      elem ''video_select'' ''input-selector'' [(''drop-backwards'', PBool True)],
      elem ''video_encode'' ''x264enc'' [(''threads'', PInt 2), (''speed-preset'', PText ''veryfast''), (''bitrate'', PInt (mp_video_kbps media)),
        (''nal-hrd'', PText ''cbr'')],
      elem ''video_tee'' ''tee'' [],
      elem ''audio_parse'' ''aacparse'' [], elem ''audio_decode'' ''faad'' [], elem ''audio_select'' ''input-selector'' [],
      elem ''audio_encode'' ''voaacenc'' [(''bitrate'', PInt (mp_audio_kbps media * 1000))], elem ''audio_tee'' ''tee'' [],
      elem ''fallback_video'' ''intervideosrc'' [(''channel'', PText ''fallback'')], elem ''fallback_audio'' ''audiotestsrc'' [(''wave'', PText ''silence'')]]"

definition common_links :: "link list" where
  "common_links =
     [wire ''source'' ''demux'', (wire ''demux'' ''video_parse'')\<lparr>ln_Dynamic := True, ln_Kind := Video\<rparr>, wire ''video_parse'' ''video_decode'',
      wire ''video_decode'' ''video_select'', wire ''fallback_video'' ''video_select'', wire ''video_select'' ''video_encode'',
      wire ''video_encode'' ''video_tee'',
      (wire ''demux'' ''audio_parse'')\<lparr>ln_Dynamic := True, ln_Kind := Audio\<rparr>, wire ''audio_parse'' ''audio_decode'',
      wire ''audio_decode'' ''audio_select'', wire ''fallback_audio'' ''audio_select'', wire ''audio_select'' ''audio_encode'',
      wire ''audio_encode'' ''audio_tee'']"

definition branch_name :: "string \<Rightarrow> string" where
  "branch_name i = ''destination_'' @ i"

definition queue_props :: "nat \<Rightarrow> (string \<times> property) list" where
  "queue_props n = [(''max-size-bytes'', PInt (int n)), (''leaky'', PInt 2)]"

definition branch_elements :: "nat \<Rightarrow> destination_spec \<Rightarrow> element list" where
  "branch_elements n d =
     (let p = branch_name (pd_ID d) in
      [elem (p @ ''_video_queue'') ''queue'' (queue_props n), elem (p @ ''_audio_queue'') ''queue'' (queue_props n),
       elem (p @ ''_mux'') ''flvmux'' [(''streamable'', PBool True)],
       elem (p @ ''_sink'') ''rtmpsink'' [(''location'', PText (pd_Location d)), (''sync'', PBool False)]])"

definition branch_links :: "destination_spec \<Rightarrow> link list" where
  "branch_links d =
     (let p = branch_name (pd_ID d) in
      [(wire ''video_tee'' (p @ ''_video_queue''))\<lparr>ln_Kind := Video\<rparr>, (wire (p @ ''_video_queue'') (p @ ''_mux''))\<lparr>ln_Kind := Video\<rparr>,
       (wire ''audio_tee'' (p @ ''_audio_queue''))\<lparr>ln_Kind := Audio\<rparr>, (wire (p @ ''_audio_queue'') (p @ ''_mux''))\<lparr>ln_Kind := Audio\<rparr>,
       wire (p @ ''_mux'') (p @ ''_sink'')])"

fun plan_branches :: "nat \<Rightarrow> string list \<Rightarrow> destination_spec list \<Rightarrow> graph \<Rightarrow> plan_error + graph" where
  "plan_branches n seen [] g = Inr g"
| "plan_branches n seen (d # ds) g =
     (if pd_ID d = [] \<or> pd_Location d = [] \<or> pd_Generation d = 0 \<or> pd_ID d \<in> set seen then Inl (PlanDestination (pd_ID d))
      else plan_branches n (pd_ID d # seen) ds (g\<lparr>Elements := Elements g @ branch_elements n d, Links := Links g @ branch_links d\<rparr>))"

definition Plan :: "pipeline_spec \<Rightarrow> plan_error + graph" where
  "Plan spec =
     (if ps_source spec = [] \<or> length (ps_destinations spec) < 1 \<or> length (ps_destinations spec) > 8 \<or> ps_queue spec = 0 then Inl PlanIncomplete
      else let media = (if mp_width (ps_media spec) = 0 then DefaultMediaProfile else ps_media spec) in
        if \<not> MediaProfile_Validate media then Inl PlanMedia
        else plan_branches (ps_queue spec) [] (ps_destinations spec)
          \<lparr>Elements = common_elements (ps_source spec) media, Links = common_links\<rparr>)"

datatype graph_error = DuplicateElement string | UnknownElement link

fun duplicate_name :: "string list \<Rightarrow> element list \<Rightarrow> string option" where
  "duplicate_name names [] = None"
| "duplicate_name names (x # xs) = (if el_Name x \<in> set names then Some (el_Name x) else duplicate_name (el_Name x # names) xs)"

definition Graph_Validate :: "graph \<Rightarrow> graph_error option" where
  "Graph_Validate g =
     (case duplicate_name [] (Elements g) of
        Some n \<Rightarrow> Some (DuplicateElement n)
      | None \<Rightarrow>
          let names = map el_Name (Elements g) in
          map_option UnknownElement (find (\<lambda>l. ln_From l \<notin> set names \<or> ln_To l \<notin> set names) (Links g)))"

section \<open>The plan is a valid graph with isolated outputs\<close>

lemma duplicate_name_None: "duplicate_name names xs = None \<longleftrightarrow> distinct (map el_Name xs) \<and> set names \<inter> el_Name ` set xs = {}"
  by (induction names xs rule: duplicate_name.induct) auto

lemma Graph_Validate_None:
  "Graph_Validate g = None \<longleftrightarrow> distinct (map el_Name (Elements g)) \<and>
     (\<forall>l \<in> set (Links g). ln_From l \<in> el_Name ` set (Elements g) \<and> ln_To l \<in> el_Name ` set (Elements g))"
proof -
  have "Graph_Validate g = None \<longleftrightarrow> duplicate_name [] (Elements g) = None \<and>
      find (\<lambda>l. ln_From l \<notin> el_Name ` set (Elements g) \<or> ln_To l \<notin> el_Name ` set (Elements g)) (Links g) = None"
    by (auto simp: Graph_Validate_def split: option.splits)
  then show ?thesis by (auto simp: duplicate_name_None find_None_iff)
qed

lemma plan_branches_result:
  "plan_branches n seen ds g = Inr g' \<longleftrightarrow>
     (\<forall>d \<in> set ds. pd_ID d \<noteq> [] \<and> pd_Location d \<noteq> [] \<and> pd_Generation d \<noteq> 0) \<and> distinct (map pd_ID ds) \<and> set seen \<inter> pd_ID ` set ds = {} \<and>
     g' = g\<lparr>Elements := Elements g @ concat (map (branch_elements n) ds), Links := Links g @ concat (map branch_links ds)\<rparr>"
  by (induction n seen ds g rule: plan_branches.induct) auto

definition branch_suffixes :: "string list" where
  "branch_suffixes = [''_video_queue'', ''_audio_queue'', ''_mux'', ''_sink'']"

lemma branch_element_names: "map el_Name (branch_elements n d) = map (\<lambda>x. branch_name (pd_ID d) @ x) branch_suffixes"
  by (simp add: branch_elements_def branch_suffixes_def elem_def Let_def)

lemma suffixes_free:
  assumes "x \<in> set branch_suffixes" "y \<in> set branch_suffixes" "a @ x = b @ y"
  shows "a = b \<and> x = y"
proof -
  have "last x = last y" using assms by (auto simp: branch_suffixes_def dest: arg_cong [of _ _ last])
  with assms(1,2) have "length x = length y" by (auto simp: branch_suffixes_def)
  with assms(3) show ?thesis by simp
qed

lemma branch_names_distinct:
  assumes "distinct (map pd_ID ds)"
  shows "distinct (map el_Name (concat (map (branch_elements n) ds)))"
  using assms
proof (induction ds)
  case (Cons d ds)
  have one: "distinct (map el_Name (branch_elements n d))"
    by (simp add: branch_element_names) (simp add: branch_suffixes_def)
  have "set (map el_Name (branch_elements n d)) \<inter> set (map el_Name (branch_elements n d')) = {}" if "d' \<in> set ds" for d'
  proof (intro equals0I, elim IntE)
    fix x
    assume x: "x \<in> set (map el_Name (branch_elements n d))" "x \<in> set (map el_Name (branch_elements n d'))"
    obtain a b where "a \<in> set branch_suffixes" "b \<in> set branch_suffixes" "branch_name (pd_ID d) @ a = branch_name (pd_ID d') @ b"
      using x unfolding branch_element_names by auto
    from suffixes_free [OF this] have "pd_ID d = pd_ID d'" by (simp add: branch_name_def)
    with Cons.prems that show False by auto
  qed
  with one Cons show ?case by auto
qed simp

lemma common_names_distinct: "distinct (map el_Name (common_elements location media))"
  by (simp add: common_elements_def elem_def)

lemma common_names_branch:
  assumes "x \<in> set (common_elements location media)"
  shows "el_Name x \<noteq> branch_name i @ y"
  using assms by (auto simp: common_elements_def elem_def branch_name_def)

lemma common_links_known: "l \<in> set common_links \<Longrightarrow>
    ln_From l \<in> el_Name ` set (common_elements location media) \<and> ln_To l \<in> el_Name ` set (common_elements location media) \<and>
    ln_From l \<notin> {''video_tee'', ''audio_tee''}"
  by (auto simp: common_links_def common_elements_def elem_def wire_def)

lemma tees_known: "''video_tee'' \<in> el_Name ` set (common_elements location media)" "''audio_tee'' \<in> el_Name ` set (common_elements location media)"
  by (simp_all add: common_elements_def elem_def)

lemma branch_links_known:
  "l \<in> set (branch_links d) \<Longrightarrow>
     (ln_From l \<in> {''video_tee'', ''audio_tee''} \<or> ln_From l \<in> el_Name ` set (branch_elements n d)) \<and> ln_To l \<in> el_Name ` set (branch_elements n d)"
  by (auto simp: branch_links_def branch_elements_def elem_def wire_def Let_def)

lemma branch_links_queued:
  "l \<in> set (branch_links d) \<Longrightarrow> ln_From l \<in> {''video_tee'', ''audio_tee''} \<Longrightarrow>
     \<exists>x \<in> set (branch_elements n d). el_Name x = ln_To l \<and> el_Factory x = ''queue'' \<and> el_Properties x = queue_props n"
  by (auto simp: branch_links_def branch_elements_def elem_def wire_def branch_name_def Let_def)

definition plannable :: "pipeline_spec \<Rightarrow> bool" where
  "plannable spec \<longleftrightarrow> ps_source spec \<noteq> [] \<and> ps_destinations spec \<noteq> [] \<and> length (ps_destinations spec) \<le> 8 \<and> ps_queue spec \<noteq> 0 \<and>
     (mp_width (ps_media spec) = 0 \<or> MediaProfile_Validate (ps_media spec)) \<and> distinct (map pd_ID (ps_destinations spec)) \<and>
     (\<forall>d \<in> set (ps_destinations spec). pd_ID d \<noteq> [] \<and> pd_Location d \<noteq> [] \<and> pd_Generation d \<noteq> 0)"

lemma Plan_result:
  "Plan spec = Inr g \<longleftrightarrow> plannable spec \<and>
     g = \<lparr>Elements = common_elements (ps_source spec) (if mp_width (ps_media spec) = 0 then DefaultMediaProfile else ps_media spec)
            @ concat (map (branch_elements (ps_queue spec)) (ps_destinations spec)),
          Links = common_links @ concat (map branch_links (ps_destinations spec))\<rparr>"
  by (auto simp: Plan_def plannable_def plan_branches_result Default_valid Let_def)

lemma plan_sound:
  "(\<exists>g. Plan spec = Inr g) = plannable spec \<and>
   (\<forall>g. Plan spec = Inr g \<longrightarrow>
      Graph_Validate g = None \<and>
      (\<forall>l \<in> set (Links g). ln_From l \<in> {''video_tee'', ''audio_tee''} \<longrightarrow>
         (\<exists>x \<in> set (Elements g). el_Name x = ln_To l \<and> el_Factory x = ''queue'' \<and> el_Properties x = queue_props (ps_queue spec))) \<and>
      (\<forall>d \<in> set (ps_destinations spec). set (branch_links d) \<subseteq> set (Links g) \<and>
         elem (branch_name (pd_ID d) @ ''_sink'') ''rtmpsink'' [(''location'', PText (pd_Location d)), (''sync'', PBool False)] \<in> set (Elements g)))"
proof (intro conjI allI impI)
  show "(\<exists>g. Plan spec = Inr g) = plannable spec" by (simp add: Plan_result)
next
  fix g
  assume "Plan spec = Inr g"
  then obtain media where p: "plannable spec"
    and g: "g = \<lparr>Elements = common_elements (ps_source spec) media @ concat (map (branch_elements (ps_queue spec)) (ps_destinations spec)),
       Links = common_links @ concat (map branch_links (ps_destinations spec))\<rparr>"
    by (auto simp: Plan_result)
  let ?C = "common_elements (ps_source spec) media"
  have nm: "distinct (map el_Name (Elements g))"
  proof -
    have "el_Name ` set ?C \<inter> el_Name ` set (concat (map (branch_elements (ps_queue spec)) (ps_destinations spec))) = {}"
    proof (intro equals0I, elim IntE imageE)
      fix x y z
      assume x: "x = el_Name y" "y \<in> set ?C" "x = el_Name z" "z \<in> set (concat (map (branch_elements (ps_queue spec)) (ps_destinations spec)))"
      then obtain d where "d \<in> set (ps_destinations spec)" "z \<in> set (branch_elements (ps_queue spec) d)" by auto
      then have "el_Name z \<in> set (map el_Name (branch_elements (ps_queue spec) d))" by auto
      then show False using x common_names_branch [of y "ps_source spec" media] unfolding branch_element_names by auto
    qed
    then show ?thesis
      using p branch_names_distinct [of "ps_destinations spec" "ps_queue spec"] by (simp add: g plannable_def common_names_distinct)
  qed
  have kn: "ln_From l \<in> el_Name ` set (Elements g) \<and> ln_To l \<in> el_Name ` set (Elements g)" if "l \<in> set (Links g)" for l
  proof -
    from that consider "l \<in> set common_links" | d where "d \<in> set (ps_destinations spec)" "l \<in> set (branch_links d)" by (auto simp: g)
    then show ?thesis
    proof cases
      case 1
      then show ?thesis using common_links_known [of l "ps_source spec" media] by (auto simp: g)
    next
      case (2 d)
      have sub: "el_Name ` set (branch_elements (ps_queue spec) d) \<subseteq> el_Name ` set (Elements g)" "el_Name ` set ?C \<subseteq> el_Name ` set (Elements g)"
        using 2 by (intro image_mono, auto simp: g)+
      have tees: "{''video_tee'', ''audio_tee''} \<subseteq> el_Name ` set ?C" using tees_known [of "ps_source spec" media] by simp
      from branch_links_known [OF 2(2), of "ps_queue spec"] show ?thesis using sub subset_trans [OF tees sub(2)] by (meson subsetD)
    qed
  qed
  show "Graph_Validate g = None" unfolding Graph_Validate_None using nm kn by blast
  show "\<forall>l \<in> set (Links g). ln_From l \<in> {''video_tee'', ''audio_tee''} \<longrightarrow>
         (\<exists>x \<in> set (Elements g). el_Name x = ln_To l \<and> el_Factory x = ''queue'' \<and> el_Properties x = queue_props (ps_queue spec))"
  proof (intro ballI impI)
    fix l
    assume l: "l \<in> set (Links g)" "ln_From l \<in> {''video_tee'', ''audio_tee''}"
    then have "l \<notin> set common_links" using common_links_known by blast
    with l(1) obtain d where d: "d \<in> set (ps_destinations spec)" "l \<in> set (branch_links d)" by (auto simp: g)
    then have "set (branch_elements (ps_queue spec) d) \<subseteq> set (Elements g)" by (auto simp: g)
    with branch_links_queued [OF d(2) l(2), of "ps_queue spec"]
    show "\<exists>x \<in> set (Elements g). el_Name x = ln_To l \<and> el_Factory x = ''queue'' \<and> el_Properties x = queue_props (ps_queue spec)" by blast
  qed
  show "\<forall>d \<in> set (ps_destinations spec). set (branch_links d) \<subseteq> set (Links g) \<and>
         elem (branch_name (pd_ID d) @ ''_sink'') ''rtmpsink'' [(''location'', PText (pd_Location d)), (''sync'', PBool False)] \<in> set (Elements g)"
  proof
    fix d
    assume "d \<in> set (ps_destinations spec)"
    moreover have "elem (branch_name (pd_ID d) @ ''_sink'') ''rtmpsink'' [(''location'', PText (pd_Location d)), (''sync'', PBool False)]
        \<in> set (branch_elements (ps_queue spec) d)"
      by (simp add: branch_elements_def Let_def)
    ultimately show "set (branch_links d) \<subseteq> set (Links g) \<and>
        elem (branch_name (pd_ID d) @ ''_sink'') ''rtmpsink'' [(''location'', PText (pd_Location d)), (''sync'', PBool False)] \<in> set (Elements g)"
      by (auto simp: g)
  qed
qed


text \<open>C15: the plan of a pipeline is a valid graph in which the outputs are isolated from each other. A plan exists exactly for a specification with a
  source, a bounded queue, a valid media profile and one to eight complete and distinct destinations. Its elements have distinct names, whatever the
  identifiers of the destinations are, and its links connect existing elements, so the check that the runtime makes always passes; everything that
  leaves the two tees enters a queue of the configured size that drops old data instead of blocking, and every destination has its own path from the
  tees to a sink at its location.\<close>

theorem plan_valid_and_isolated:
  "(\<exists>g. Plan spec = Inr g) = plannable spec \<and>
   (\<forall>g. Plan spec = Inr g \<longrightarrow>
      Graph_Validate g = None \<and>
      (\<forall>l \<in> set (Links g). ln_From l \<in> {''video_tee'', ''audio_tee''} \<longrightarrow>
         (\<exists>x \<in> set (Elements g). el_Name x = ln_To l \<and> el_Factory x = ''queue'' \<and> el_Properties x = queue_props (ps_queue spec))) \<and>
      (\<forall>d \<in> set (ps_destinations spec). set (branch_links d) \<subseteq> set (Links g) \<and>
         elem (branch_name (pd_ID d) @ ''_sink'') ''rtmpsink'' [(''location'', PText (pd_Location d)), (''sync'', PBool False)] \<in> set (Elements g)))"
  by (rule plan_sound)

section \<open>The running pipeline\<close>

text \<open>
  The branches of the pipeline by destination, in the order in which the map is ranged over; the channel of events, which takes 128; whether the
  pipeline runs; and the state of the loop that switches between source and slate. \<open>gr_calls\<close> counts the branches that were attached: the answers
  of GStreamer to them are a function of it.
\<close>

record gst_branch =
  gb_spec :: destination_spec
  gb_armed :: bool
  gb_reconnecting :: bool

datatype input_mode = NoMode | SourceMode | SlateMode | BlackMode

record gst_runtime =
  gr_spec :: pipeline_spec
  gr_branches :: "(string \<times> gst_branch) list"
  gr_events :: "runtime_event list"
  gr_running :: bool
  gr_policy :: "slate_setting option"
  gr_lastSource :: time
  gr_selected :: input_mode
  gr_mode :: input_mode
  gr_live :: bool
  gr_forced :: bool
  gr_loop_ended :: bool
  gr_stopped :: bool
  gr_calls :: nat

datatype gst_error =
    PlanFailed plan_error | GraphFailed graph_error | TooManyDestinations | InvalidDestination string | DuplicateDestination string
  | StaleDestination string | DestinationNotFound string | BranchFailed | SlateUnavailable | EncoderFailed | FallbackFailed | InvalidProfile
  | StopFailed

datatype attach_outcome = Attached | NotAttached | NotActivated

definition event_capacity :: nat where
  "event_capacity = 128"

definition publish :: "runtime_event \<Rightarrow> gst_runtime \<Rightarrow> gst_runtime" where
  "publish x r = (if length (gr_events r) < event_capacity then r\<lparr>gr_events := gr_events r @ [x]\<rparr> else r)"

definition destination_event :: "runtime_event_type \<Rightarrow> destination_spec \<Rightarrow> string option \<Rightarrow> runtime_event" where
  "destination_event t d err = \<lparr>rt_Type = t, rt_DestinationID = pd_ID d, rt_Generation = pd_Generation d, rt_Forced = False, rt_InputLive = False, rt_Err = err\<rparr>"

definition input_event :: "runtime_event_type \<Rightarrow> bool \<Rightarrow> bool \<Rightarrow> string option \<Rightarrow> runtime_event" where
  "input_event t forced live err = \<lparr>rt_Type = t, rt_DestinationID = [], rt_Generation = 0, rt_Forced = forced, rt_InputLive = live, rt_Err = err\<rparr>"

definition NewRuntime :: "pipeline_spec \<Rightarrow> gst_error + gst_runtime" where
  "NewRuntime spec =
     (case Plan spec of
        Inl err \<Rightarrow> Inl (PlanFailed err)
      | Inr g \<Rightarrow>
          (case Graph_Validate g of
             Some err \<Rightarrow> Inl (GraphFailed err)
           | None \<Rightarrow> Inr \<lparr>gr_spec = spec, gr_branches = [], gr_events = [], gr_running = False, gr_policy = None, gr_lastSource = zero_time,
               gr_selected = NoMode, gr_mode = NoMode, gr_live = False, gr_forced = False, gr_loop_ended = False, gr_stopped = False, gr_calls = 0\<rparr>))"

definition addBranchLocked :: "(nat \<Rightarrow> attach_outcome) \<Rightarrow> destination_spec \<Rightarrow> gst_runtime \<Rightarrow> gst_error option \<times> gst_runtime" where
  "addBranchLocked gst d r =
     (let r1 = r\<lparr>gr_calls := gr_calls r + 1\<rparr>;
          r2 = r1\<lparr>gr_branches := AList.update (pd_ID d) \<lparr>gb_spec = d, gb_armed = True, gb_reconnecting = False\<rparr> (gr_branches r1)\<rparr> in
      case gst (gr_calls r) of
        NotAttached \<Rightarrow> (Some BranchFailed, r1)
      | NotActivated \<Rightarrow> (if gr_running r then Some BranchFailed else None, r2)
      | Attached \<Rightarrow> (None, r2))"

definition removeBranchLocked :: "string \<Rightarrow> gst_runtime \<Rightarrow> gst_runtime" where
  "removeBranchLocked i r =
     (case map_of (gr_branches r) i of
        None \<Rightarrow> r
      | Some b \<Rightarrow> publish (destination_event RuntimeDestinationStopped ((gb_spec b)\<lparr>pd_ID := i\<rparr>) None) (r\<lparr>gr_branches := AList.delete i (gr_branches r)\<rparr>))"

fun check_desired :: "gst_runtime \<Rightarrow> string list \<Rightarrow> destination_spec list \<Rightarrow> gst_error option" where
  "check_desired r seen [] = None"
| "check_desired r seen (d # ds) =
     (if pd_ID d = [] \<or> pd_Location d = [] \<or> pd_Generation d = 0 then Some (InvalidDestination (pd_ID d))
      else if pd_ID d \<in> set seen then Some (DuplicateDestination (pd_ID d))
      else (case map_of (gr_branches r) (pd_ID d) of
          Some b \<Rightarrow> if pd_Generation d < pd_Generation (gb_spec b) then Some (StaleDestination (pd_ID d)) else check_desired r (pd_ID d # seen) ds
        | None \<Rightarrow> check_desired r (pd_ID d # seen) ds))"

definition wanted :: "destination_spec list \<Rightarrow> string \<rightharpoonup> destination_spec" where
  "wanted desired = map_of (map (\<lambda>d. (pd_ID d, d)) desired)"

fun remove_outdated :: "(string \<rightharpoonup> destination_spec) \<Rightarrow> (string \<times> gst_branch) list \<Rightarrow> gst_runtime \<Rightarrow> gst_runtime" where
  "remove_outdated want [] r = r"
| "remove_outdated want ((i, b) # bs) r =
     (if (case want i of None \<Rightarrow> True | Some d \<Rightarrow> pd_Generation d > pd_Generation (gb_spec b))
      then remove_outdated want bs (removeBranchLocked i r) else remove_outdated want bs r)"

text \<open>\<open>order\<close> is the order in which the range visits the wanted destinations.\<close>

fun add_missing :: "(nat \<Rightarrow> attach_outcome) \<Rightarrow> (string \<rightharpoonup> destination_spec) \<Rightarrow> string list \<Rightarrow> gst_runtime \<Rightarrow> gst_error option \<times> gst_runtime" where
  "add_missing gst want [] r = (None, r)"
| "add_missing gst want (i # is) r =
     (case want i of
        None \<Rightarrow> add_missing gst want is r
      | Some d \<Rightarrow>
          if map_of (gr_branches r) i \<noteq> None then add_missing gst want is r
          else (case addBranchLocked gst d r of
              (Some err, r1) \<Rightarrow> (Some err, r1)
            | (None, r1) \<Rightarrow> add_missing gst want is r1))"

definition ApplyDestinations_gst ::
  "(nat \<Rightarrow> attach_outcome) \<Rightarrow> string list \<Rightarrow> destination_spec list \<Rightarrow> gst_runtime \<Rightarrow> gst_error option \<times> gst_runtime" where
  "ApplyDestinations_gst gst order desired r =
     (if length desired > 8 then (Some TooManyDestinations, r)
      else case check_desired r [] desired of
          Some err \<Rightarrow> (Some err, r)
        | None \<Rightarrow> add_missing gst (wanted desired) order (remove_outdated (wanted desired) (gr_branches r) r))"

definition ApplySlatePolicy_gst :: "slate_setting \<Rightarrow> gst_runtime \<Rightarrow> gst_error option \<times> gst_runtime" where
  "ApplySlatePolicy_gst policy r =
     (case gr_policy r of
        None \<Rightarrow> (Some SlateUnavailable, r)
      | Some _ \<Rightarrow> (None, r\<lparr>gr_spec := (gr_spec r)\<lparr>ps_slate := policy\<rparr>, gr_policy := Some policy\<rparr>))"

definition ReconnectDestination_gst :: "(nat \<Rightarrow> attach_outcome) \<Rightarrow> string \<Rightarrow> gst_runtime \<Rightarrow> gst_error option \<times> gst_runtime" where
  "ReconnectDestination_gst gst i r =
     (case map_of (gr_branches r) i of
        None \<Rightarrow> (Some (DestinationNotFound i), r)
      | Some b \<Rightarrow> addBranchLocked gst (gb_spec b) (removeBranchLocked i r))"

text \<open>The start: the answers are whether the encoder, the fallback decoder, its start and the start of the encoder succeed.\<close>

fun add_all :: "(nat \<Rightarrow> attach_outcome) \<Rightarrow> destination_spec list \<Rightarrow> gst_runtime \<Rightarrow> gst_error option \<times> gst_runtime" where
  "add_all gst [] r = (None, r)"
| "add_all gst (d # ds) r = (case addBranchLocked gst d r of (Some err, r1) \<Rightarrow> (Some err, r1) | (None, r1) \<Rightarrow> add_all gst ds r1)"

definition default_spec :: "pipeline_spec \<Rightarrow> pipeline_spec" where
  "default_spec s =
     (let s1 = (if ps_image s = [] \<and> ps_video s = [] then s\<lparr>ps_image := ''/usr/local/share/streamtool/offline.png''\<rparr> else s) in
      if mp_width (ps_media s1) = 0 then s1\<lparr>ps_media := DefaultMediaProfile\<rparr> else s1)"

definition startFallback :: "(nat \<Rightarrow> attach_outcome) \<Rightarrow> bool \<times> bool \<times> bool \<times> bool \<Rightarrow> gst_runtime \<Rightarrow> gst_error option \<times> gst_runtime" where
  "startFallback gst answers r =
     (let (encoder, decoder, decoder_plays, encoder_plays) = answers; spec = gr_spec r in
      if \<not> MediaProfile_Validate (ps_media spec) then (Some InvalidProfile, r)
      else if \<not> encoder then (Some EncoderFailed, r)
      else case add_all gst (ps_destinations spec) (r\<lparr>gr_policy := Some (ps_slate spec), gr_selected := SlateMode\<rparr>) of
          (Some err, r1) \<Rightarrow> (Some err, r1)
        | (None, r1) \<Rightarrow>
            if \<not> decoder \<or> \<not> decoder_plays then (Some FallbackFailed, r1)
            else if \<not> encoder_plays then (Some EncoderFailed, r1\<lparr>gr_running := True\<rparr>)
            else (None, r1\<lparr>gr_running := True\<rparr>))"

definition Start_gst :: "(nat \<Rightarrow> attach_outcome) \<Rightarrow> bool \<times> bool \<times> bool \<times> bool \<Rightarrow> gst_runtime \<Rightarrow> gst_error option \<times> gst_runtime" where
  "Start_gst gst answers r = startFallback gst answers (r\<lparr>gr_spec := default_spec (gr_spec r)\<rparr>)"

definition Stop_gst :: "gst_error option \<Rightarrow> gst_runtime \<Rightarrow> gst_error option \<times> gst_runtime" where
  "Stop_gst result r = (if gr_stopped r then (None, r) else (result, r\<lparr>gr_stopped := True\<rparr>))"

section \<open>Messages of the pipeline\<close>

text \<open>The width of the first rune of a text, 1 where it is not valid UTF-8.\<close>

definition continuation :: "nat \<Rightarrow> nat \<Rightarrow> string \<Rightarrow> bool" where
  "continuation lo hi s \<longleftrightarrow> s \<noteq> [] \<and> lo \<le> (of_char (hd s) :: nat) \<and> (of_char (hd s) :: nat) \<le> hi"

definition rune_width :: "string \<Rightarrow> nat" where
  "rune_width s =
     (let b = (of_char (hd s) :: nat); s1 = tl s; s2 = tl s1; s3 = tl s2; tail2 = continuation 128 191 s2; tail3 = continuation 128 191 s3 in
      if 194 \<le> b \<and> b \<le> 223 \<and> continuation 128 191 s1 then 2
      else if (b = 224 \<and> continuation 160 191 s1 \<or> (225 \<le> b \<and> b \<le> 236 \<or> 238 \<le> b \<and> b \<le> 239) \<and> continuation 128 191 s1 \<or>
               b = 237 \<and> continuation 128 159 s1) \<and> tail2 then 3
      else if (b = 240 \<and> continuation 144 191 s1 \<or> 241 \<le> b \<and> b \<le> 243 \<and> continuation 128 191 s1 \<or> b = 244 \<and> continuation 128 143 s1) \<and> tail2 \<and> tail3 then 4
      else 1)"

lemma rune_width_positive: "0 < rune_width s"
  by (simp add: rune_width_def Let_def)

definition name_char :: "char \<Rightarrow> bool" where
  "name_char c \<longleftrightarrow> (let n = (of_char c :: nat) in (97 \<le> n \<and> n \<le> 122) \<or> (65 \<le> n \<and> n \<le> 90) \<or> (48 \<le> n \<and> n \<le> 57))"

function safeName :: "string \<Rightarrow> string" where
  "safeName s = (if s = [] then [] else (if name_char (hd s) then hd s else CHR ''_'') # safeName (drop (rune_width s) s))"
  by pat_completeness auto

termination
  by (relation "measure length") (auto simp: rune_width_positive)

declare safeName.simps [simp del]

definition element_names :: "string \<Rightarrow> string list" where
  "element_names i = map (\<lambda>x. branch_name (safeName i) @ x)
     [''_video_guard'', ''_video_queue'', ''_audio_guard'', ''_audio_queue'', ''_mux'', ''_sink'']"

definition branchByElementLocked :: "string \<Rightarrow> gst_runtime \<Rightarrow> (string \<times> gst_branch) option" where
  "branchByElementLocked name r = find (\<lambda>(i, b). name \<in> set (element_names (pd_ID (gb_spec b)))) (gr_branches r)"

definition anyReconnecting :: "gst_runtime \<Rightarrow> bool" where
  "anyReconnecting r \<longleftrightarrow> list_ex (\<lambda>(i, b). gb_reconnecting b) (gr_branches r)"

datatype bus_message = BusError string string | BusEOS | BusStateChanged string bool | BusOther

text \<open>One message of the bus, with the name of its source; a change of the state carries whether the new state is playing.\<close>

definition set_branch :: "string \<Rightarrow> gst_branch \<Rightarrow> gst_runtime \<Rightarrow> gst_runtime" where
  "set_branch i b r = r\<lparr>gr_branches := AList.update i b (gr_branches r)\<rparr>"

fun watchBus :: "bus_message \<Rightarrow> gst_runtime \<Rightarrow> gst_runtime" where
  "watchBus (BusError name err) r =
     (case branchByElementLocked name r of
        Some (i, b) \<Rightarrow>
          publish (destination_event RuntimeDestinationError (gb_spec b) (Some err))
            (if gb_armed b then set_branch i (b\<lparr>gb_armed := False, gb_reconnecting := True\<rparr>) r else r)
      | None \<Rightarrow> publish (input_event RuntimeInputError False False (Some err)) r)"
| "watchBus BusEOS r = (if anyReconnecting r then r else publish (input_event RuntimeEOS False False (Some ''input end of stream'')) r)"
| "watchBus (BusStateChanged name playing) r =
     (case branchByElementLocked name r of
        Some (i, b) \<Rightarrow>
          if name = branch_name (safeName (pd_ID (gb_spec b))) @ ''_sink'' \<and> playing
          then publish (destination_event RuntimeDestinationStreaming (gb_spec b) None) (set_branch i (b\<lparr>gb_reconnecting := False, gb_armed := True\<rparr>) r)
          else r
      | None \<Rightarrow> r)"
| "watchBus BusOther r = r"

section \<open>Source and slate\<close>

datatype fallback_message = FallbackError | FallbackEnd bool | FallbackOther

fun fallback_failure :: "fallback_message list \<Rightarrow> string option" where
  "fallback_failure [] = None"
| "fallback_failure (FallbackError # ms) = Some ''fallback decoding failed''"
| "fallback_failure (FallbackEnd seeked # ms) = (if seeked then fallback_failure ms else Some ''fallback loop failed'')"
| "fallback_failure (FallbackOther # ms) = fallback_failure ms"

definition source_live :: "time \<Rightarrow> gst_runtime \<Rightarrow> bool" where
  "source_live now r \<longleftrightarrow> gr_lastSource r \<noteq> zero_time \<and> time_sub now (gr_lastSource r) < 2 * second"

definition next_mode :: "slate_setting \<Rightarrow> bool \<Rightarrow> input_mode" where
  "next_mode policy live =
     (if Forced policy \<or> \<not> live then if Forced policy \<or> OnSourceLoss policy then SlateMode else BlackMode else SourceMode)"

definition mode_event :: "input_mode \<Rightarrow> runtime_event_type" where
  "mode_event m = (case m of SlateMode \<Rightarrow> RuntimeFallback | BlackMode \<Rightarrow> RuntimeInputUnavailable | _ \<Rightarrow> RuntimeInputLive)"

text \<open>One tick of the loop: the messages of the fallback decoder, then the selection.\<close>

definition rawLoop_tick :: "time \<Rightarrow> fallback_message list \<Rightarrow> gst_runtime \<Rightarrow> gst_runtime" where
  "rawLoop_tick now msgs r =
     (if gr_loop_ended r then r
      else case fallback_failure msgs of
          Some err \<Rightarrow> (publish (input_event RuntimeInputError False False (Some err)) r)\<lparr>gr_loop_ended := True\<rparr>
        | None \<Rightarrow>
            (case gr_policy r of
               None \<Rightarrow> r
             | Some policy \<Rightarrow>
                 let live = source_live now r; next = next_mode policy live in
                 if next \<noteq> gr_mode r \<or> live \<noteq> gr_live r \<or> Forced policy \<noteq> gr_forced r
                 then (publish (input_event (mode_event next) (Forced policy) live None) (r\<lparr>gr_selected := next\<rparr>))
                   \<lparr>gr_mode := next, gr_live := live, gr_forced := Forced policy\<rparr>
                 else r))"

section \<open>The source\<close>

text \<open>An attempt to read the source: whether it was rejected, and when it started.\<close>

record source_attempt =
  sa_rejected :: bool
  sa_started :: time

record video_caps =
  vc_width :: "int option"
  vc_height :: "int option"
  vc_rate :: "(int \<times> int) option"

definition supportedInputVideo :: "int \<Rightarrow> int \<Rightarrow> int \<Rightarrow> int \<Rightarrow> bool \<Rightarrow> bool" where
  "supportedInputVideo width height numerator denominator rateKnown \<longleftrightarrow>
     \<not> (width < 1 \<or> height < 1 \<or> width > 1920 \<or> height > 1920 \<or> i64 (width * height) > 1920 * 1080) \<and>
     (\<not> rateKnown \<or> numerator = 0 \<or> (denominator > 0 \<and> numerator > 0 \<and> numerator \<le> i64 (60 * denominator)))"

definition reject :: "source_attempt \<times> gst_runtime \<Rightarrow> source_attempt \<times> gst_runtime" where
  "reject s = (case s of (a, r) \<Rightarrow>
     if sa_rejected a then (a, r) else (a\<lparr>sa_rejected := True\<rparr>, publish (input_event RuntimeInputRejected False False None) r))"

definition pad_added :: "string option \<Rightarrow> source_attempt \<times> gst_runtime \<Rightarrow> source_attempt \<times> gst_runtime" where
  "pad_added caps s =
     (case caps of
        None \<Rightarrow> s
      | Some name \<Rightarrow> if HasPrefix name ''video/'' \<and> name \<noteq> ''video/x-h264'' then reject s else s)"

text \<open>The probe in front of the decoder: whether the buffer passes.\<close>

definition video_probe :: "video_caps option \<Rightarrow> source_attempt \<times> gst_runtime \<Rightarrow> bool \<times> source_attempt \<times> gst_runtime" where
  "video_probe caps s =
     (if sa_rejected (fst s) then (False, s)
      else case caps of
          None \<Rightarrow> (False, s)
        | Some c \<Rightarrow>
            (case (vc_width c, vc_height c) of
               (Some w, Some h) \<Rightarrow>
                 let rate = (case vc_rate c of None \<Rightarrow> (0, 0) | Some q \<Rightarrow> q) in
                 if \<not> supportedInputVideo w h (fst rate) (snd rate) (vc_rate c \<noteq> None) then (False, reject s) else (True, s)
             | _ \<Rightarrow> (True, s)))"

definition fresh_probe :: "time \<Rightarrow> gst_runtime \<Rightarrow> gst_runtime" where
  "fresh_probe now r = r\<lparr>gr_lastSource := now\<rparr>"

definition maxTime :: "time \<Rightarrow> time \<Rightarrow> time" where
  "maxTime a b = (if a > b then a else b)"

definition attempt_over :: "time \<Rightarrow> bool \<Rightarrow> source_attempt \<Rightarrow> gst_runtime \<Rightarrow> bool" where
  "attempt_over now failed a r \<longleftrightarrow> sa_rejected a \<or> time_sub now (maxTime (sa_started a) (gr_lastSource r)) > 5 * second \<or> failed"

definition attempt_end :: "gst_runtime \<Rightarrow> gst_runtime" where
  "attempt_end r = r\<lparr>gr_lastSource := zero_time\<rparr>"


text \<open>\<^verbatim>\<open>net.IP.To4\<close>, \<^verbatim>\<open>net.JoinHostPort\<close> and the resolution of the source: the parser and printer of URLs and addresses and the resolver are arguments.\<close>

definition is_v4 :: "string \<Rightarrow> bool" where
  "is_v4 ip \<longleftrightarrow> length ip = 4 \<or> length ip = 16 \<and> take 12 ip = replicate 10 (CHR 0x00) @ [CHR 0xFF, CHR 0xFF]"

definition JoinHostPort :: "string \<Rightarrow> string \<Rightarrow> string" where
  "JoinHostPort host port = (if CHR '':'' \<in> set host then ''['' @ host @ '']:'' @ port else host @ '':'' @ port)"

definition resolveSource ::
  "(string \<Rightarrow> url option) \<Rightarrow> (url \<Rightarrow> string) \<Rightarrow> (string \<Rightarrow> bool) \<Rightarrow> (string \<Rightarrow> string) \<Rightarrow> (string \<Rightarrow> string list option) \<Rightarrow> string \<Rightarrow> string option" where
  "resolveSource parse render is_ip text_of lookup location =
     (case parse location of
        None \<Rightarrow> None
      | Some u \<Rightarrow>
          if url_scheme u \<noteq> ''srt'' \<or> Hostname u = [] then None
          else if is_ip (Hostname u) then Some location
          else (case lookup (Hostname u) of
              None \<Rightarrow> None
            | Some addresses \<Rightarrow>
                if addresses = [] then None
                else let selected = (case find is_v4 addresses of Some a \<Rightarrow> a | None \<Rightarrow> hd addresses);
                         host = (if Port u \<noteq> [] then JoinHostPort (text_of selected) (Port u)
                                 else if is_v4 selected then text_of selected else ''['' @ text_of selected @ '']'')
                     in Some (render (u\<lparr>url_host := host\<rparr>))))"

section \<open>Reconciliation of the outputs\<close>

definition branch_of :: "gst_runtime \<Rightarrow> string \<rightharpoonup> gst_branch" where
  "branch_of r = map_of (gr_branches r)"

definition branches_ok :: "gst_runtime \<Rightarrow> bool" where
  "branches_ok r \<longleftrightarrow> distinct (map fst (gr_branches r)) \<and> (\<forall>i b. branch_of r i = Some b \<longrightarrow> pd_ID (gb_spec b) = i)"

definition fresh_branch :: "destination_spec \<Rightarrow> gst_branch" where
  "fresh_branch d = \<lparr>gb_spec = d, gb_armed = True, gb_reconnecting = False\<rparr>"

lemma gr_branches_publish [simp]: "gr_branches (publish x r) = gr_branches r"
  by (simp add: publish_def)

lemma branch_of_remove [simp]: "branch_of (removeBranchLocked i r) = (branch_of r)(i := None)"
  by (auto simp: branch_of_def removeBranchLocked_def delete_conv fun_eq_iff split: option.split)

lemma branch_of_add:
  "addBranchLocked gst d r = (res, r') \<Longrightarrow>
     branch_of r' = branch_of r \<and> res \<noteq> None \<or> branch_of r' = (branch_of r)(pd_ID d \<mapsto> fresh_branch d)"
  by (auto simp: addBranchLocked_def branch_of_def update_conv fresh_branch_def Let_def split: attach_outcome.splits if_splits)

lemma keys_remove: "distinct (map fst (gr_branches r)) \<Longrightarrow> distinct (map fst (gr_branches (removeBranchLocked i r)))"
  by (auto simp: removeBranchLocked_def distinct_delete split: option.split)

lemma keys_add: "distinct (map fst (gr_branches r)) \<Longrightarrow> distinct (map fst (gr_branches (snd (addBranchLocked gst d r))))"
  by (auto simp: addBranchLocked_def distinct_update Let_def split: attach_outcome.split)

lemma branches_ok_remove: "branches_ok r \<Longrightarrow> branches_ok (removeBranchLocked i r)"
  by (simp add: branches_ok_def keys_remove)

lemma branches_ok_add: "branches_ok r \<Longrightarrow> branches_ok (snd (addBranchLocked gst d r))"
  using branch_of_add [of gst d r "fst (addBranchLocked gst d r)" "snd (addBranchLocked gst d r)"] keys_add [of r gst d]
  by (auto simp: branches_ok_def fresh_branch_def split: if_splits)

lemma branches_ok_outdated: "branches_ok r \<Longrightarrow> branches_ok (remove_outdated want bs r)"
  by (induction want bs r rule: remove_outdated.induct) (auto simp: branches_ok_remove)

lemma branches_ok_missing: "branches_ok r \<Longrightarrow> branches_ok (snd (add_missing gst want is r))"
proof (induction gst want "is" r rule: add_missing.induct)
  case (2 gst want i "is" r)
  show ?case
  proof (cases "want i")
    case (Some d)
    with 2 branches_ok_add [OF 2(4), of gst d] show ?thesis
      by (cases "addBranchLocked gst d r") (auto split: option.splits)
  qed (use 2 in auto)
qed simp

lemma branch_of_outdated:
  "branch_of (remove_outdated want bs r) i =
     (if \<exists>b. (i, b) \<in> set bs \<and> (case want i of None \<Rightarrow> True | Some d \<Rightarrow> pd_Generation d > pd_Generation (gb_spec b)) then None else branch_of r i)"
  by (induction want bs r rule: remove_outdated.induct) (auto split: option.splits)

lemma add_missing_step:
  assumes "add_missing gst want (j # is) r = (res, r')" "\<forall>i d. want i = Some d \<longrightarrow> pd_ID d = i"
  shows "add_missing gst want is r = (res, r') \<and> (want j = None \<or> branch_of r j \<noteq> None) \<or>
    (\<exists>d r1. want j = Some d \<and> branch_of r j = None \<and> branch_of r1 = (branch_of r)(j \<mapsto> fresh_branch d) \<and> add_missing gst want is r1 = (res, r')) \<or>
    (\<exists>d. want j = Some d \<and> branch_of r j = None \<and> res \<noteq> None \<and> (branch_of r' = branch_of r \<or> branch_of r' = (branch_of r)(j \<mapsto> fresh_branch d)))"
proof (cases "want j = None \<or> branch_of r j \<noteq> None")
  case True
  then show ?thesis using assms(1) by (auto simp: branch_of_def split: option.splits)
next
  case False
  then obtain d where d: "want j = Some d" "branch_of r j = None" by auto
  obtain x r1 where a: "addBranchLocked gst d r = (x, r1)" by (metis prod.exhaust)
  have "pd_ID d = j" using assms(2) d by blast
  with branch_of_add [OF a] assms(1) d show ?thesis
    by (cases x) (auto simp: a branch_of_def)
qed

lemma branch_of_missing:
  assumes "add_missing gst want is r = (res, r')" "\<forall>i d. want i = Some d \<longrightarrow> pd_ID d = i"
  shows "branch_of r' i = branch_of r i \<or> branch_of r i = None \<and> (\<exists>d. want i = Some d \<and> branch_of r' i = Some (fresh_branch d))"
  using assms(1)
proof (induction "is" arbitrary: r)
  case (Cons j "is")
  from add_missing_step [OF Cons.prems assms(2)] Cons.IH show ?case by (fastforce split: if_splits)
qed simp

lemma missing_added:
  assumes "add_missing gst want is r = (None, r')" "\<forall>i d. want i = Some d \<longrightarrow> pd_ID d = i" "i \<in> set is" "want i \<noteq> None"
  shows "branch_of r' i \<noteq> None"
  using assms(1,3)
proof (induction "is" arbitrary: r)
  case (Cons j "is")
  from add_missing_step [OF Cons.prems(1) assms(2)] show ?case
  proof (elim disjE exE conjE)
    assume "add_missing gst want is r = (None, r')" "want j = None"
    then show ?thesis using Cons assms(4) by auto
  next
    assume a: "add_missing gst want is r = (None, r')" "branch_of r j \<noteq> None"
    then show ?thesis using Cons branch_of_missing [OF a(1) assms(2), of j] by (cases "i = j") auto
  next
    fix d r1
    assume a: "branch_of r1 = (branch_of r)(j \<mapsto> fresh_branch d)" "add_missing gst want is r1 = (None, r')"
    then show ?thesis using Cons branch_of_missing [OF a(2) assms(2), of j] by (cases "i = j") auto
  qed auto
qed simp

lemma wanted_id: "wanted ds i = Some d \<Longrightarrow> pd_ID d = i \<and> d \<in> set ds"
  by (auto simp: wanted_def dest!: map_of_SomeD)

lemma wanted_None: "wanted ds i = None \<longleftrightarrow> i \<notin> pd_ID ` set ds"
  by (auto simp: wanted_def map_of_eq_None_iff image_image)

lemma check_desired_current:
  "check_desired r seen ds = None \<Longrightarrow> d \<in> set ds \<Longrightarrow> branch_of r (pd_ID d) = Some b \<Longrightarrow> pd_Generation (gb_spec b) \<le> pd_Generation d"
  by (induction r seen ds rule: check_desired.induct) (auto simp: branch_of_def split: if_splits option.splits)

lemma branches_ok_apply: "branches_ok r \<Longrightarrow> branches_ok (snd (ApplyDestinations_gst gst order desired r))"
  by (auto simp: ApplyDestinations_gst_def branches_ok_missing branches_ok_outdated split: option.split)

lemma outdated_kept:
  assumes "branches_ok r" "branch_of r i = Some b"
  shows "branch_of (remove_outdated want (gr_branches r) r) i =
    (case want i of None \<Rightarrow> None | Some d \<Rightarrow> if pd_Generation d > pd_Generation (gb_spec b) then None else Some b)"
proof -
  have "(i, b') \<in> set (gr_branches r) \<longleftrightarrow> b' = b" for b'
    using assms map_of_eq_Some_iff [of "gr_branches r" i b'] by (auto simp: branches_ok_def branch_of_def)
  then show ?thesis using assms(2) by (auto simp: branch_of_outdated split: option.splits)
qed

lemma apply_reconciles:
  assumes "branches_ok r" "ApplyDestinations_gst gst order desired r = (res, r')" "set order = pd_ID ` set desired"
  shows "(\<forall>i b d. branch_of r i = Some b \<and> wanted desired i = Some d \<and> pd_Generation d = pd_Generation (gb_spec b) \<longrightarrow> branch_of r' i = Some b)
    \<and> (\<forall>i b b'. branch_of r i = Some b \<and> branch_of r' i = Some b' \<longrightarrow> b' = b \<or> pd_Generation (gb_spec b) < pd_Generation (gb_spec b'))
    \<and> (length desired > 8 \<or> check_desired r [] desired \<noteq> None \<longrightarrow> r' = r \<and> res \<noteq> None)
    \<and> (res = None \<longrightarrow> (\<forall>i. (branch_of r' i = None) = (wanted desired i = None) \<and>
         (\<forall>d b'. wanted desired i = Some d \<longrightarrow> branch_of r' i = Some b' \<longrightarrow> pd_Generation (gb_spec b') = pd_Generation d)))"
proof (cases "length desired > 8 \<or> check_desired r [] desired \<noteq> None")
  case True
  then have "\<exists>err. ApplyDestinations_gst gst order desired r = (Some err, r)" by (auto simp: ApplyDestinations_gst_def)
  then have "r' = r" "res \<noteq> None" using assms(2) by auto
  then show ?thesis by auto
next
  case False
  let ?w = "wanted desired"
  let ?m = "remove_outdated ?w (gr_branches r) r"
  have add: "add_missing gst ?w order ?m = (res, r')" using False assms(2) by (simp add: ApplyDestinations_gst_def)
  have ids: "\<forall>i d. ?w i = Some d \<longrightarrow> pd_ID d = i" using wanted_id by blast
  note m = branch_of_missing [OF add ids]
  have kept: "branch_of ?m i = (case ?w i of None \<Rightarrow> None | Some d \<Rightarrow> if pd_Generation d > pd_Generation (gb_spec b) then None else Some b)"
    if "branch_of r i = Some b" for i b using outdated_kept [OF assms(1) that] .
  have absent: "branch_of ?m i = None" if "branch_of r i = None" for i using that by (simp add: branch_of_outdated)
  have current: "pd_Generation (gb_spec b) \<le> pd_Generation d" if "branch_of r i = Some b" "?w i = Some d" for i b d
    using check_desired_current [of r "[]" desired d b] wanted_id [OF that(2)] that(1) False by auto
  have gen: "pd_Generation (gb_spec b') = pd_Generation d" if "?w i = Some d" "branch_of r' i = Some b'" for i d b'
  proof (cases "branch_of r i")
    case None
    then show ?thesis using m [of i] absent [of i] that by (auto simp: fresh_branch_def)
  next
    case (Some b)
    then show ?thesis using m [of i] kept [OF Some] current [OF Some that(1)] that by (auto simp: fresh_branch_def split: if_splits)
  qed
  have none: "branch_of r' i = None" if "?w i = None" for i
    using m [of i] kept [of i] absent [of i] that by (cases "branch_of r i") auto
  have some: "branch_of r' i \<noteq> None" if "res = None" "?w i \<noteq> None" for i
    using missing_added [of gst ?w order ?m r' i] add ids assms(3) that by (auto simp: wanted_None)
  have "branch_of r' i = Some b" if "branch_of r i = Some b" "?w i = Some d" "pd_Generation d = pd_Generation (gb_spec b)" for i b d
    using m [of i] kept [OF that(1)] that by auto
  moreover have "b' = b \<or> pd_Generation (gb_spec b) < pd_Generation (gb_spec b')" if "branch_of r i = Some b" "branch_of r' i = Some b'" for i b b'
    using m [of i] kept [OF that(1)] that none [of i] by (auto simp: fresh_branch_def split: option.splits if_splits)
  ultimately show ?thesis using False gen none some by blast
qed


lemma apply_fresh:
  assumes "branches_ok r" "ApplyDestinations_gst gst order desired r = (res, r')" "branch_of r' i = Some b"
  shows "branch_of r i = Some b \<or> (\<exists>d. wanted desired i = Some d \<and> b = fresh_branch d)"
proof (cases "length desired > 8 \<or> check_desired r [] desired \<noteq> None")
  case True
  then have "\<exists>err. ApplyDestinations_gst gst order desired r = (Some err, r)" by (auto simp: ApplyDestinations_gst_def)
  then show ?thesis using assms by auto
next
  case False
  then have add: "add_missing gst (wanted desired) order (remove_outdated (wanted desired) (gr_branches r) r) = (res, r')"
    using assms(2) by (simp add: ApplyDestinations_gst_def)
  have "\<forall>i d. wanted desired i = Some d \<longrightarrow> pd_ID d = i" using wanted_id by blast
  from branch_of_missing [OF add this, of i] assms(3) show ?thesis by (auto simp: branch_of_outdated split: if_splits)
qed

text \<open>C14: a new snapshot of the destinations is reconciled without interrupting the outputs that it does not change. Whatever GStreamer answers, a branch whose
  destination has the same generation in the snapshot is left untouched, and no branch is replaced by one of an older generation; a snapshot that is
  invalid or stale changes nothing. When the change succeeds, the pipeline has a branch for exactly the destinations of the snapshot, of the
  generation that the snapshot names. (The range over the wanted destinations visits all of them.)\<close>

theorem outputs_reconciled:
  assumes "branches_ok r" "ApplyDestinations_gst gst order desired r = (res, r')" "set order = pd_ID ` set desired"
  shows "(\<forall>i b d. branch_of r i = Some b \<and> wanted desired i = Some d \<and> pd_Generation d = pd_Generation (gb_spec b) \<longrightarrow> branch_of r' i = Some b)
    \<and> (\<forall>i b b'. branch_of r i = Some b \<and> branch_of r' i = Some b' \<longrightarrow> b' = b \<or> pd_Generation (gb_spec b) < pd_Generation (gb_spec b'))
    \<and> (length desired > 8 \<or> check_desired r [] desired \<noteq> None \<longrightarrow> r' = r \<and> res \<noteq> None)
    \<and> (res = None \<longrightarrow> (\<forall>i. (branch_of r' i = None) = (wanted desired i = None) \<and>
         (\<forall>d b'. wanted desired i = Some d \<longrightarrow> branch_of r' i = Some b' \<longrightarrow> pd_Generation (gb_spec b') = pd_Generation d)))"
  by (rule apply_reconciles [OF assms])

section \<open>Selection of the input and admission of the source\<close>

definition switch_ok :: "gst_runtime \<Rightarrow> bool" where
  "switch_ok r \<longleftrightarrow> gr_mode r = NoMode \<or> gr_selected r = gr_mode r"

lemma publish_fields [simp]:
  "gr_mode (publish x r) = gr_mode r" "gr_selected (publish x r) = gr_selected r" "gr_policy (publish x r) = gr_policy r"
  "gr_lastSource (publish x r) = gr_lastSource r" "gr_loop_ended (publish x r) = gr_loop_ended r" "gr_live (publish x r) = gr_live r"
  "gr_forced (publish x r) = gr_forced r" "gr_running (publish x r) = gr_running r" "gr_spec (publish x r) = gr_spec r"
  "gr_stopped (publish x r) = gr_stopped r" "gr_calls (publish x r) = gr_calls r"
  by (simp_all add: publish_def)

text \<open>After a tick the selectors follow the policy: a forced slate always, otherwise the source while it is live, and else the slate or black.\<close>

lemma tick_selects:
  assumes "switch_ok r" "\<not> gr_loop_ended r" "fallback_failure msgs = None" "gr_policy r = Some p"
  shows "switch_ok (rawLoop_tick now msgs r) \<and> gr_selected (rawLoop_tick now msgs r) = next_mode p (source_live now r)"
  using assms by (auto simp: rawLoop_tick_def switch_ok_def next_mode_def Let_def)

lemma supportedInputVideo_bounds:
  assumes "supportedInputVideo w h n d known"
  shows "1 \<le> w \<and> 1 \<le> h \<and> w \<le> 1920 \<and> h \<le> 1920 \<and> w * h \<le> 1920 * 1080"
proof -
  have b: "1 \<le> w" "1 \<le> h" "w \<le> 1920" "h \<le> 1920" using assms by (auto simp: supportedInputVideo_def)
  have "w * h \<le> 1920 * 1920" using b by (intro mult_mono) auto
  moreover have "0 \<le> w * h" using b by simp
  ultimately have "i64 (w * h) = w * h" by (intro i64_id) (simp add: in_i64_def)
  with assms b show ?thesis by (simp add: supportedInputVideo_def)
qed

text \<open>A video buffer only reaches the decoder while the source is not rejected and, once its size is known, when it is within the bounds.\<close>

lemma unsupported_video_not_decoded:
  assumes "video_probe caps s = (True, s')"
  shows "s' = s \<and> \<not> sa_rejected (fst s) \<and>
    (\<forall>c w h. caps = Some c \<and> vc_width c = Some w \<and> vc_height c = Some h \<longrightarrow> 1 \<le> w \<and> 1 \<le> h \<and> w \<le> 1920 \<and> h \<le> 1920 \<and> w * h \<le> 1920 * 1080)"
proof -
  have "1 \<le> w \<and> 1 \<le> h \<and> w \<le> 1920 \<and> h \<le> 1920 \<and> w * h \<le> 1920 * 1080"
    if "caps = Some c" "vc_width c = Some w" "vc_height c = Some h" for c w h
    by (rule supportedInputVideo_bounds) (use assms that in \<open>simp add: video_probe_def Let_def split: if_splits\<close>)
  moreover have "s' = s" "\<not> sa_rejected (fst s)"
    using assms by (auto simp: video_probe_def Let_def split: if_splits option.splits)
  ultimately show ?thesis by blast
qed

section \<open>Examples\<close>

definition demo_output :: "string \<Rightarrow> nat \<Rightarrow> destination_spec" where
  "demo_output i g = \<lparr>pd_ID = i, pd_Generation = g, pd_Location = ''rtmp://127.0.0.1:4000/app/key''\<rparr>"

definition demo_pipeline :: pipeline_spec where
  "demo_pipeline = \<lparr>ps_media = DefaultMediaProfile, ps_source = ''srt://edge:8890'', ps_image = [], ps_video = [],
     ps_slate = \<lparr>OnSourceLoss = True, Forced = False\<rparr>, ps_destinations = [demo_output ''a'' 1, demo_output ''b'' 1], ps_queue = 8388608\<rparr>"

theorem plan_valid_and_isolated_witness: "\<exists>g. Plan demo_pipeline = Inr g \<and> Graph_Validate g = None"
proof -
  have "plannable demo_pipeline"
    using Default_valid by (simp add: plannable_def demo_pipeline_def demo_output_def)
  then show ?thesis using plan_valid_and_isolated [of demo_pipeline] by blast
qed

definition demo_runtime :: gst_runtime where
  "demo_runtime = \<lparr>gr_spec = demo_pipeline, gr_branches = [(''a'', fresh_branch (demo_output ''a'' 1)), (''b'', fresh_branch (demo_output ''b'' 1))],
     gr_events = [], gr_running = True, gr_policy = None, gr_lastSource = zero_time, gr_selected = NoMode, gr_mode = NoMode, gr_live = False,
     gr_forced = False, gr_loop_ended = False, gr_stopped = False, gr_calls = 0\<rparr>"

theorem outputs_reconciled_witness:
  "branch_of (snd (ApplyDestinations_gst (\<lambda>_. Attached) [''a'', ''c''] [demo_output ''a'' 1, demo_output ''c'' 1] demo_runtime)) ''a''
     = Some (fresh_branch (demo_output ''a'' 1))"
proof -
  have ok: "branches_ok demo_runtime" by (auto simp: branches_ok_def branch_of_def demo_runtime_def fresh_branch_def demo_output_def)
  have "branch_of demo_runtime ''a'' = Some (fresh_branch (demo_output ''a'' 1))" "wanted [demo_output ''a'' 1, demo_output ''c'' 1] ''a'' = Some (demo_output ''a'' 1)"
    "set [''a'', ''c''] = pd_ID ` set [demo_output ''a'' 1, demo_output ''c'' 1]"
    by (simp_all add: branch_of_def demo_runtime_def wanted_def demo_output_def)
  then show ?thesis
    using outputs_reconciled [OF ok prod.collapse [symmetric], of "[''a'', ''c'']" "[demo_output ''a'' 1, demo_output ''c'' 1]" "\<lambda>_. Attached"]
    by (simp add: fresh_branch_def)
qed

end
