(* ===== verification/Worker_Program.thy ===== *)
theory Worker_Program
  imports Media_Pipeline Net_Policy Auth_Primitives
begin

text \<open>
  The program of a worker, \<^verbatim>\<open>backend/cmd/stream-worker/main.go\<close>: how its relay, its pipeline and its control server work together. A destination is
  never dialed by the pipeline itself: the relay opens a local listener for each destination and generation, and the pipeline streams to it. The
  redaction of its log is \<^verbatim>\<open>backend/internal/telemetry/redact.go\<close>. JSON, URLs, sockets and GStreamer are arguments (\<open>worker_env\<close>);
  \<open>we_range\<close> is the order in which a range visits the keys of a map.
\<close>

section \<open>Redaction\<close>

text \<open>\<^verbatim>\<open>url.QueryEscape\<close>, and \<^verbatim>\<open>strings.ReplaceAll\<close> for a nonempty text.\<close>

definition query_safe :: "char \<Rightarrow> bool" where
  "query_safe c \<longleftrightarrow> c \<in> set ''abcdefghijklmnopqrstuvwxyzABCDEFGHIJKLMNOPQRSTUVWXYZ0123456789-_.~''"

definition QueryEscape :: "string \<Rightarrow> string" where
  "QueryEscape s = concat (map (\<lambda>c. if query_safe c then [c] else if c = CHR '' '' then ''+''
     else [CHR ''%'', hex_upper (of_char c div 16), hex_upper (of_char c mod 16)]) s)"

function ReplaceAll :: "string \<Rightarrow> string \<Rightarrow> string \<Rightarrow> string" where
  "ReplaceAll s old new =
     (if s = [] \<or> old = [] then s
      else if prefix old s then new @ ReplaceAll (drop (length old) s) old new
      else hd s # ReplaceAll (tl s) old new)"
  by pat_completeness auto

termination
  by (relation "measure (\<lambda>(s, old, new). length s)") auto

declare ReplaceAll.simps [simp del]

definition secret_variants :: "string \<Rightarrow> string list" where
  "secret_variants v = (if TrimSpace v = [] then [] else filter (\<lambda>x. x \<noteq> []) [v, QueryEscape v, PathEscape v])"

definition redactor_Add :: "string list \<Rightarrow> string list \<Rightarrow> string list" where
  "redactor_Add values secrets = secrets @ concat (map secret_variants values)"

definition redactor_String :: "string list \<Rightarrow> string \<Rightarrow> string" where
  "redactor_String secrets v = fold (\<lambda>secret v. ReplaceAll v secret ''[REDACTED]'') secrets v"

section \<open>State\<close>

record worker_env =
  we_config :: config_env
  we_parse :: "string \<Rightarrow> url option"
  we_render :: "url \<Rightarrow> string"
  we_values :: "string \<Rightarrow> string \<Rightarrow> string list"
  we_encode :: "(string \<Rightarrow> string list) \<Rightarrow> string"
  we_listen :: "nat \<Rightarrow> string option"
  we_range :: "string set \<Rightarrow> string list"
  we_json_documents :: "string \<Rightarrow> destination_document list option"
  we_json_slate :: "string \<Rightarrow> slate_setting option"
  we_token :: string

record worker_proc =
  wp_relay :: relay
  wp_runtime :: gst_runtime
  wp_keys :: "string set"
  wp_secrets :: "string list"


definition dest_key :: "config_destination \<Rightarrow> string" where
  "dest_key d = cd_id d @ '':'' @ decimal (cd_generation d)"

fun protectedSpecs ::
  "worker_env \<Rightarrow> config_destination list \<Rightarrow> relay \<Rightarrow> (destination_spec list \<times> string set) option \<times> relay" where
  "protectedSpecs e [] r = (Some ([], {}), r)"
| "protectedSpecs e (d # ds) r =
     (case Location (we_parse e) (we_render e) (we_listen e) (dest_key d) (cd_url d) r of
        (None, r1) \<Rightarrow> (None, r1)
      | (Some local, r1) \<Rightarrow>
          (case protectedSpecs e ds r1 of
             (None, r2) \<Rightarrow> (None, r2)
           | (Some (specs, keys), r2) \<Rightarrow>
               (Some (\<lparr>pd_ID = cd_id d, pd_Generation = cd_generation d, pd_Location = Destination_Location (d\<lparr>cd_url := local\<rparr>)\<rparr> # specs,
                  insert (dest_key d) keys), r2)))"



section \<open>The control server\<close>

definition retain_keys :: "worker_env \<Rightarrow> string set \<Rightarrow> worker_proc \<Rightarrow> worker_proc" where
  "retain_keys e keys p = p\<lparr>wp_relay := Retain (we_range e (dom (listeners (wp_relay p)))) keys (wp_relay p)\<rparr>"

definition secret_file_ok :: "destination_document \<Rightarrow> bool" where
  "secret_file_ok doc \<longleftrightarrow> HasPrefix (doc_secret_file doc) ''/run/secrets/'' \<and> \<not> Contains (doc_secret_file doc) ''..''"

definition serve_destinations :: "worker_env \<Rightarrow> (nat \<Rightarrow> attach_outcome) \<Rightarrow> string \<Rightarrow> worker_proc \<Rightarrow> int \<times> worker_proc" where
  "serve_destinations e gst body p =
     (case we_json_documents e (take 1048576 body) of
        None \<Rightarrow> (400, p)
      | Some docs \<Rightarrow>
          if \<not> list_all secret_file_ok docs then (400, p)
          else (case ResolveDestinationDocuments (we_config e) docs of
              Inl _ \<Rightarrow> (400, p)
            | Inr resolved \<Rightarrow>
                (let p1 = p\<lparr>wp_secrets := redactor_Add (map cd_secret resolved) (wp_secrets p)\<rparr> in
                 case protectedSpecs e resolved (wp_relay p1) of
                   (None, relay) \<Rightarrow> (400, retain_keys e (wp_keys p1) (p1\<lparr>wp_relay := relay\<rparr>))
                 | (Some (specs, keys), relay) \<Rightarrow>
                     (case ApplyDestinations_gst gst (we_range e (pd_ID ` set specs)) specs (wp_runtime p1) of
                        (Some _, runtime) \<Rightarrow> (409, retain_keys e (wp_keys p1) (p1\<lparr>wp_relay := relay, wp_runtime := runtime\<rparr>))
                      | (None, runtime) \<Rightarrow> (204, retain_keys e keys (p1\<lparr>wp_relay := relay, wp_runtime := runtime, wp_keys := keys\<rparr>))))))"








section \<open>Listeners and branches\<close>

text \<open>The listeners of the relay have the target that belongs to their key.\<close>

definition urls_fixed :: "(string \<Rightarrow> string) \<Rightarrow> relay \<Rightarrow> bool" where
  "urls_fixed U r \<longleftrightarrow> (\<forall>k t. listeners r k = Some t \<longrightarrow> rt_raw t = U k)"

definition spec_key :: "destination_spec \<Rightarrow> string" where
  "spec_key d = pd_ID d @ '':'' @ decimal (pd_Generation d)"

definition relayed :: "relay \<Rightarrow> destination_spec \<Rightarrow> bool" where
  "relayed r d \<longleftrightarrow> (\<exists>t secret. listeners r (spec_key d) = Some t \<and> pd_Location d = TrimRight_slash (rt_location t) @ ''/'' @ PathEscape secret)"








definition branch_keys :: "gst_runtime \<Rightarrow> string set" where
  "branch_keys r = (\<lambda>b. spec_key (gb_spec b)) ` ran (branch_of r)"

text \<open>The listeners are those of the branches, and every branch streams to its own.\<close>

definition worker_ok :: "(string \<Rightarrow> string) \<Rightarrow> worker_proc \<Rightarrow> bool" where
  "worker_ok U p \<longleftrightarrow> relay_inv (wp_relay p) \<and> urls_fixed U (wp_relay p) \<and> dom (listeners (wp_relay p)) = wp_keys p \<and>
     branches_ok (wp_runtime p) \<and> wp_keys p = branch_keys (wp_runtime p) \<and>
     (\<forall>b \<in> ran (branch_of (wp_runtime p)). relayed (wp_relay p) (gb_spec b))"






lemma retain_fields [simp]:
  "wp_runtime (retain_keys e keys p) = wp_runtime p" "wp_keys (retain_keys e keys p) = wp_keys p"
  "relay_inv (wp_relay p) \<Longrightarrow> relay_inv (wp_relay (retain_keys e keys p))"
  by (simp_all add: retain_keys_def Retain_inv)




















section \<open>Whatever GStreamer answers\<close>




lemma close_key_next [simp]: "next_listener (close_key key r) = next_listener r"
  by (simp add: close_key_def split: option.split)

lemma Retain_next [simp]: "next_listener (Retain order keys r) = next_listener r"
  unfolding Retain_def by (induction order arbitrary: r) auto































section \<open>Examples\<close>

definition demo_url :: url where
  "demo_url = \<lparr>url_scheme = ''rtmp'', url_host = ''live'', url_user = False, url_query = [], url_fragment = [], url_path = ''/app'', url_opaque = []\<rparr>"

definition demo_worker_env :: worker_env where
  "demo_worker_env = \<lparr>we_config = \<lparr>ce_lookup = Map.empty, ce_read_file = (\<lambda>x. Some ''key''), ce_json_media = (\<lambda>m x. None), ce_json_documents = (\<lambda>x. None),
       ce_url_parse = (\<lambda>x. Some demo_url), ce_parse_duration = (\<lambda>x. None)\<rparr>,
     we_parse = (\<lambda>x. Some demo_url), we_render = (\<lambda>u. url_scheme u @ ''://'' @ url_host u @ url_path u), we_values = (\<lambda>x k. []), we_encode = (\<lambda>q. []),
     we_listen = (\<lambda>n. Some (''127.0.0.1:'' @ replicate (n + 1) (CHR ''9''))), we_range = (\<lambda>S. if finite S then sorted_list_of_set S else []),
     we_json_documents = (\<lambda>x. if x = ''edit'' then Some [\<lparr>doc_id = ''a'', doc_generation = 3, doc_url = ''rtmp://live/app'', doc_secret_file = ''/run/secrets/a''\<rparr>,
       \<lparr>doc_id = ''b'', doc_generation = 2, doc_url = ''rtmp://live/app'', doc_secret_file = ''/run/secrets/b''\<rparr>] else None),
     we_json_slate = (\<lambda>x. None), we_token = ''token''\<rparr>"



definition demo_listener :: "nat \<Rightarrow> relay_target" where
  "demo_listener n = \<lparr>rt_raw = ''rtmp://live/app'', rt_listener = n, rt_location = ''rtmp://127.0.0.1:'' @ replicate (n + 1) (CHR ''9'') @ ''/app''\<rparr>"

definition demo_spec_at :: "string \<Rightarrow> nat \<Rightarrow> nat \<Rightarrow> destination_spec" where
  "demo_spec_at i g n = \<lparr>pd_ID = i, pd_Generation = g, pd_Location = rt_location (demo_listener n) @ ''/key''\<rparr>"

lemma demo_Location:
  "listeners r k = None \<Longrightarrow> Location (we_parse demo_worker_env) (we_render demo_worker_env) (we_listen demo_worker_env) k ''rtmp://live/app'' r =
     (Some (rt_location (demo_listener (next_listener r))), r\<lparr>listeners := (listeners r)(k \<mapsto> demo_listener (next_listener r)),
        open_listeners := insert (next_listener r) (open_listeners r), next_listener := next_listener r + 1\<rparr>)"
  by (simp add: Location_def open_target_def demo_worker_env_def demo_url_def target_ok_def Hostname_def splitHostPort_def split_last_colon_def
      strip_brackets_def demo_listener_def Let_def)

lemma demo_Destination: "Destination_Location \<lparr>cd_id = i, cd_generation = g, cd_url = rt_location (demo_listener n), cd_secret = ''key''\<rparr> = pd_Location (demo_spec_at i g n)"
  by (simp add: Destination_Location_def demo_spec_at_def demo_listener_def TrimRight_slash_def PathEscape_def path_safe_def)

lemma demo_key: "dest_key \<lparr>cd_id = i, cd_generation = g, cd_url = u, cd_secret = x\<rparr> = i @ '':'' @ decimal g"
  by (simp add: dest_key_def)


definition demo_pipeline_spec :: pipeline_spec where
  "demo_pipeline_spec = \<lparr>ps_media = DefaultMediaProfile, ps_source = ''rtmp://live/app'', ps_image = [], ps_video = [],
     ps_slate = \<lparr>OnSourceLoss = True, Forced = False\<rparr>, ps_destinations = [demo_spec_at ''a'' 1 0], ps_queue = 1024\<rparr>"




text \<open>
  When GStreamer fails to attach one branch of a snapshot, the pipeline keeps the branches that were attached before it, but the handler closes their
  listeners, because they are not among the current keys. The next snapshot opens new listeners and does not touch the attached branches, whose
  generation is current: they keep streaming to a listener that is closed.
\<close>

definition demo_faulty_env :: worker_env where
  "demo_faulty_env = demo_worker_env\<lparr>we_range := (\<lambda>S. filter (\<lambda>k. k \<in> S) [''a'', ''b'', ''a:2'', ''a:3'', ''b:2''])\<rparr>"

definition demo_running :: "string set \<Rightarrow> destination_spec list \<Rightarrow> (string \<rightharpoonup> relay_target) \<Rightarrow> nat set \<Rightarrow> nat \<Rightarrow> nat \<Rightarrow> runtime_event list \<Rightarrow> string list \<Rightarrow> worker_proc" where
  "demo_running keys specs table opened nxt calls events secrets =
     \<lparr>wp_relay = \<lparr>listeners = table, open_listeners = opened, next_listener = nxt\<rparr>,
      wp_runtime = \<lparr>gr_spec = demo_pipeline_spec, gr_branches = map (\<lambda>d. (pd_ID d, fresh_branch d)) specs, gr_events = events, gr_running = True,
        gr_policy = None, gr_lastSource = zero_time, gr_selected = SlateMode, gr_mode = NoMode, gr_live = False, gr_forced = False,
        gr_loop_ended = False, gr_stopped = False, gr_calls = calls\<rparr>,
      wp_keys = keys, wp_secrets = secrets\<rparr>"

lemma demo_decimals: "decimal 2 = ''2''" "decimal 3 = ''3''"
  by (simp_all add: decimal.simps digit_char_def char_of_def bit_iff_odd)

lemma demo_resolved: "ResolveDestinationDocuments (we_config demo_faulty_env)
    [\<lparr>doc_id = ''a'', doc_generation = 3, doc_url = ''rtmp://live/app'', doc_secret_file = ''/run/secrets/a''\<rparr>,
     \<lparr>doc_id = ''b'', doc_generation = 2, doc_url = ''rtmp://live/app'', doc_secret_file = ''/run/secrets/b''\<rparr>] =
    Inr [\<lparr>cd_id = ''a'', cd_generation = 3, cd_url = ''rtmp://live/app'', cd_secret = ''key''\<rparr>,
     \<lparr>cd_id = ''b'', cd_generation = 2, cd_url = ''rtmp://live/app'', cd_secret = ''key''\<rparr>]"
proof -
  have "TrimSpace ''key'' = ''key''" by code_simp
  then show ?thesis
    by (simp add: ResolveDestinationDocuments_def demo_faulty_env_def demo_worker_env_def validateURL_def demo_url_def)
qed

lemma demo_faulty_Location:
  "listeners r k = None \<Longrightarrow> Location (we_parse demo_faulty_env) (we_render demo_faulty_env) (we_listen demo_faulty_env) k ''rtmp://live/app'' r =
     (Some (rt_location (demo_listener (next_listener r))), r\<lparr>listeners := (listeners r)(k \<mapsto> demo_listener (next_listener r)),
        open_listeners := insert (next_listener r) (open_listeners r), next_listener := next_listener r + 1\<rparr>)"
  using demo_Location [of r k] by (simp add: demo_faulty_env_def)

lemma demo_protected:
  assumes "table ''a:3'' = None" "table ''b:2'' = None"
  shows "protectedSpecs demo_faulty_env [\<lparr>cd_id = ''a'', cd_generation = 3, cd_url = ''rtmp://live/app'', cd_secret = ''key''\<rparr>,
       \<lparr>cd_id = ''b'', cd_generation = 2, cd_url = ''rtmp://live/app'', cd_secret = ''key''\<rparr>]
       \<lparr>listeners = table, open_listeners = opened, next_listener = n\<rparr> =
     (Some ([demo_spec_at ''a'' 3 n, demo_spec_at ''b'' 2 (n + 1)], {''a:3'', ''b:2''}),
      \<lparr>listeners = table(''a:3'' \<mapsto> demo_listener n, ''b:2'' \<mapsto> demo_listener (n + 1)), open_listeners = insert (n + 1) (insert n opened), next_listener = n + 2\<rparr>)"
  using assms demo_Destination [of "''a''" 3 n] demo_Destination [of "''b''" 2 "n + 1"]
  by (simp add: demo_key demo_decimals demo_faulty_Location demo_spec_at_def insert_commute)

definition faulty_gst :: "nat \<Rightarrow> attach_outcome" where
  "faulty_gst n = (if n = 1 then NotAttached else Attached)"

lemma demo_env_fields:
  "we_json_documents demo_faulty_env ''edit'' = Some [\<lparr>doc_id = ''a'', doc_generation = 3, doc_url = ''rtmp://live/app'', doc_secret_file = ''/run/secrets/a''\<rparr>,
     \<lparr>doc_id = ''b'', doc_generation = 2, doc_url = ''rtmp://live/app'', doc_secret_file = ''/run/secrets/b''\<rparr>]"
  "we_range demo_faulty_env S = filter (\<lambda>k. k \<in> S) [''a'', ''b'', ''a:2'', ''a:3'', ''b:2'']"
  by (simp_all add: demo_faulty_env_def demo_worker_env_def)

lemma demo_spec_fields: "pd_ID (demo_spec_at i g n) = i" "pd_Generation (demo_spec_at i g n) = g" "pd_Location (demo_spec_at i g n) \<noteq> []"
    "rt_listener (demo_listener n) = n"
  by (simp_all add: demo_spec_at_def demo_listener_def)

lemmas demo_run_simps = serve_destinations_def demo_running_def demo_resolved secret_file_ok_def HasPrefix_def demo_protected demo_env_fields demo_spec_fields
  ApplyDestinations_gst_def wanted_def removeBranchLocked_def addBranchLocked_def publish_def event_capacity_def fresh_branch_def faulty_gst_def
  retain_keys_def Retain_def close_key_def Let_def

lemma demo_first_edit:
  "\<exists>x y. serve_destinations demo_faulty_env faulty_gst ''edit'' (demo_running {''a:2''} [demo_spec_at ''a'' 2 0] [''a:2'' \<mapsto> demo_listener 0] {0} 1 0 [] []) =
     (409, demo_running {''a:2''} [demo_spec_at ''a'' 3 1] [''a:2'' \<mapsto> demo_listener 0] {0} 3 2 [x] y)"
  by (simp add: demo_run_simps insert_commute del: protectedSpecs.simps) auto

lemma demo_second_edit:
  "\<exists>y. serve_destinations demo_faulty_env faulty_gst ''edit'' (demo_running {''a:2''} [demo_spec_at ''a'' 3 1] [''a:2'' \<mapsto> demo_listener 0] {0} 3 2 [x] z) =
     (204, demo_running {''a:3'', ''b:2''} [demo_spec_at ''a'' 3 1, demo_spec_at ''b'' 2 4] [''a:3'' \<mapsto> demo_listener 3, ''b:2'' \<mapsto> demo_listener 4] {3, 4} 5 3 [x] y)"
  by (simp add: demo_run_simps insert_commute del: protectedSpecs.simps)

lemma failed_attach_loses_listener:
  "\<exists>p0 p1 p2 b. worker_ok (\<lambda>k. ''rtmp://live/app'') p0 \<and> serve_destinations demo_faulty_env faulty_gst ''edit'' p0 = (409, p1) \<and>
     serve_destinations demo_faulty_env faulty_gst ''edit'' p1 = (204, p2) \<and> branch_of (wp_runtime p2) ''a'' = Some b \<and>
     pd_Location (gb_spec b) = rt_location (demo_listener 1) @ ''/key'' \<and> 1 \<notin> open_listeners (wp_relay p2) \<and>
     listeners (wp_relay p2) (spec_key (gb_spec b)) = Some (demo_listener 3)"
proof -
  let ?p0 = "demo_running {''a:2''} [demo_spec_at ''a'' 2 0] [''a:2'' \<mapsto> demo_listener 0] {0} 1 0 [] []"
  have ok: "worker_ok (\<lambda>k. ''rtmp://live/app'') ?p0"
  proof -
    have "spec_key (demo_spec_at ''a'' 2 0) = ''a:2''" by (simp add: spec_key_def demo_spec_fields demo_decimals)
    moreover have "relayed \<lparr>listeners = [''a:2'' \<mapsto> demo_listener 0], open_listeners = {0}, next_listener = 1\<rparr> (demo_spec_at ''a'' 2 0)"
      using demo_Destination [of "''a''" 2 0] calculation by (auto simp: relayed_def Destination_Location_def intro!: exI [of _ "''key''"])
    ultimately show ?thesis
      by (auto simp: worker_ok_def demo_running_def relay_inv_def urls_fixed_def branches_ok_def branch_keys_def branch_of_def fresh_branch_def
          demo_spec_fields demo_listener_def ran_def split: if_splits)
  qed
  obtain x y where 1: "serve_destinations demo_faulty_env faulty_gst ''edit'' ?p0 =
      (409, demo_running {''a:2''} [demo_spec_at ''a'' 3 1] [''a:2'' \<mapsto> demo_listener 0] {0} 3 2 [x] y)" using demo_first_edit by blast
  obtain z where 2: "serve_destinations demo_faulty_env faulty_gst ''edit'' (demo_running {''a:2''} [demo_spec_at ''a'' 3 1] [''a:2'' \<mapsto> demo_listener 0] {0} 3 2 [x] y) =
      (204, demo_running {''a:3'', ''b:2''} [demo_spec_at ''a'' 3 1, demo_spec_at ''b'' 2 4] [''a:3'' \<mapsto> demo_listener 3, ''b:2'' \<mapsto> demo_listener 4] {3, 4} 5 3 [x] z)"
    using demo_second_edit by blast
  have "pd_Location (demo_spec_at ''a'' 3 1) = rt_location (demo_listener 1) @ ''/key''" by (simp add: demo_spec_at_def)
  moreover have "spec_key (demo_spec_at ''a'' 3 1) = ''a:3''" by (simp add: spec_key_def demo_spec_fields demo_decimals)
  ultimately show ?thesis
    using ok 1 2 by (intro exI [of _ ?p0] exI conjI) (auto simp: demo_running_def branch_of_def demo_spec_fields fresh_branch_def)
qed


section \<open>Redaction\<close>

definition unmarked :: "string \<Rightarrow> bool" where
  "unmarked x \<longleftrightarrow> x \<noteq> [] \<and> CHR ''['' \<notin> set x \<and> CHR '']'' \<notin> set x \<and> \<not> Contains ''REDACTED'' x"

lemma ReplaceAll_prefix:
  "prefix x (ReplaceAll s old ''[REDACTED]'') \<Longrightarrow> CHR ''['' \<notin> set x \<Longrightarrow> prefix x s"
proof (induction "length s" arbitrary: s x rule: less_induct)
  case less
  show ?case
  proof (cases "s = [] \<or> old = [] \<or> x = []")
    case True
    then show ?thesis using less.prems by (auto simp: ReplaceAll.simps [of s])
  next
    case False
    then obtain c x' d t where xs: "x = c # x'" "s = d # t" by (metis list.exhaust)
    show ?thesis
    proof (cases "prefix old s")
      case True
      then have "c = CHR ''[''" using less.prems(1) False xs by (simp add: ReplaceAll.simps [of "d # t"])
      then show ?thesis using less.prems(2) xs by simp
    next
      case n: False
      then have "c = d" "prefix x' (ReplaceAll t old ''[REDACTED]'')" using less.prems(1) False xs by (simp_all add: ReplaceAll.simps [of "d # t"])
      then show ?thesis using less.hyps [of t x'] less.prems(2) xs by simp
    qed
  qed
qed

lemma prefix_until:
  "prefix m (u @ c # x) \<Longrightarrow> c \<notin> set m \<Longrightarrow> prefix m u"
proof (induction u arbitrary: m)
  case Nil
  then show ?case by (cases m) auto
next
  case (Cons d u)
  then show ?case by (cases m) auto
qed

lemma Contains_until: "Contains (u @ c # x) m \<Longrightarrow> c \<notin> set m \<Longrightarrow> m \<noteq> [] \<Longrightarrow> Contains u m \<or> Contains x m"
proof (induction u)
  case Nil
  then show ?case by (cases m) auto
next
  case (Cons d u)
  have "prefix m (d # u)" if "prefix m ((d # u) @ c # x)" using prefix_until [OF that Cons.prems(2)] .
  with Cons show ?case by auto
qed

lemma Contains_drop: "Contains (drop n s) m \<Longrightarrow> Contains s m"
  unfolding Contains_iff by (metis append.assoc append_take_drop_id)

lemma ReplaceAll_clean:
  "Contains (ReplaceAll s old ''[REDACTED]'') m \<Longrightarrow> unmarked m \<Longrightarrow> old \<noteq> [] \<Longrightarrow> Contains s m \<and> m \<noteq> old"
proof (induction "length s" arbitrary: s rule: less_induct)
  case less
  note m = less.prems(2) [unfolded unmarked_def]
  show ?case
  proof (cases s)
    case Nil
    then show ?thesis using less.prems(1) m by (simp add: ReplaceAll.simps [of "[]"])
  next
    case (Cons d t)
    show ?thesis
    proof (cases "prefix old s")
      case True
      let ?x = "ReplaceAll (drop (length old) s) old ''[REDACTED]''"
      have "ReplaceAll s old ''[REDACTED]'' = ''[REDACTED'' @ CHR '']'' # ?x" using True Cons less.prems(3) by (subst ReplaceAll.simps) simp
      then have "Contains ''[REDACTED'' m \<or> Contains ?x m" using Contains_until [of "''[REDACTED''" _ ?x m] less.prems(1) m by metis
      moreover have "\<not> Contains ''[REDACTED'' m" using m by (cases m) auto
      moreover have "length (drop (length old) s) < length s" using less.prems(3) Cons by (cases old) auto
      ultimately show ?thesis using less.hyps less.prems(2,3) Contains_drop by blast
    next
      case n: False
      have eq: "ReplaceAll s old ''[REDACTED]'' = d # ReplaceAll t old ''[REDACTED]''" using n Cons less.prems(3) by (subst ReplaceAll.simps) simp
      show ?thesis
      proof (cases "prefix m (d # ReplaceAll t old ''[REDACTED]'')")
        case True
        then obtain m' where m': "m = d # m'" "prefix m' (ReplaceAll t old ''[REDACTED]'')" using m by (cases m) auto
        then have "prefix m s" using ReplaceAll_prefix [of m' t old] m Cons by auto
        then show ?thesis using n Cons by auto
      next
        case False
        then have "Contains (ReplaceAll t old ''[REDACTED]'') m" using less.prems(1) eq by simp
        then show ?thesis using less.hyps [of t] less.prems(2,3) Cons by simp
      qed
    qed
  qed
qed

lemma redactor_String_clean:
  assumes "\<forall>x \<in> set secrets. x \<noteq> []" "unmarked m" "Contains (redactor_String secrets v) m"
  shows "Contains v m \<and> m \<notin> set secrets"
  using assms(1,3)
proof (induction secrets arbitrary: v)
  case (Cons x xs)
  then have "Contains (ReplaceAll v x ''[REDACTED]'') m \<and> m \<notin> set xs" by (simp add: redactor_String_def)
  with ReplaceAll_clean [of v x m] assms(2) Cons.prems(1) show ?case by simp
qed (simp add: redactor_String_def)

text \<open>C16: redaction removes the registered secrets from the text it is given. Its result has no occurrence of a registered secret, as it is or escaped for the path or
  the query of a URL: removing one secret neither leaves nor creates an occurrence of another. Excluded are the forms of a secret that can be read into
  the mark \<^verbatim>\<open>[REDACTED]\<close> that replaces them: those with a square bracket, and those that are part of the word itself, as ''RED'' is. The claim is about the text
  that the redactor receives: an event is written as JSON first, and a form of a secret that JSON escapes is not found (\<open>redaction_misses_escapes\<close>).\<close>

theorem redaction_removes_secrets:
  assumes "\<forall>x \<in> set secrets. x \<noteq> []" "v \<in> set values" "TrimSpace v \<noteq> []" "m \<in> {v, QueryEscape v, PathEscape v}"
    and "m \<noteq> []" "CHR ''['' \<notin> set m" "CHR '']'' \<notin> set m" "\<not> Contains ''REDACTED'' m"
  shows "\<not> Contains (redactor_String (redactor_Add values secrets) text) m"
proof -
  have "m \<in> set (redactor_Add values secrets)" using assms(2-5) by (auto simp: redactor_Add_def secret_variants_def)
  moreover have "\<forall>x \<in> set (redactor_Add values secrets). x \<noteq> []" using assms(1) by (auto simp: redactor_Add_def secret_variants_def split: if_splits)
  moreover have "unmarked m" using assms(5-8) by (simp add: unmarked_def)
  ultimately show ?thesis using redactor_String_clean by blast
qed

theorem redaction_removes_secrets_witness:
  "\<not> Contains (redactor_String (redactor_Add [''live_1''] []) ''rtmp://live/app/live_1 failed'') ''live_1''"
proof -
  have t: "TrimSpace ''live_1'' \<noteq> []" by code_simp
  show ?thesis
    by (rule redaction_removes_secrets [of "[]" "''live_1''" "[''live_1'']"]) (use t in simp_all)
qed

text \<open>An event is written as JSON before the log is redacted, which turns an ampersand into an escape: a secret with one is not found.\<close>

lemma redaction_misses_escapes:
  "redactor_String (redactor_Add [''a&b''] []) (''a'' @ CHR 0x5C # ''u0026b'') = ''a'' @ CHR 0x5C # ''u0026b''"
  by code_simp

end
