(* ===== verification/Spec2Isabelle.thy ===== *)
theory Spec2Isabelle
  imports Node_Agent Maintenance_Gate Scheduler_Store Worker_Service Session_Store Ingest_Lifecycle Owner_Auth Mp4_Fallback
    Release_Manifest Net_Policy Media_Config Control_Pass Control_Liveness Control_Edge Worker_Launch
    Relay_Api Docker_Runtime Worker_Program
begin

text \<open>
  A verification development of the streamtool relay, a self-hosted service that takes one live stream and sends it on
  to several outputs. All paths below are under \<^verbatim>\<open>src/backend\<close>.

  \<^bold>\<open>The program.\<close> An edge server admits publishers. The control process owns an SQLite database with streams,
  connections, sessions, worker allocations and outputs (\<^verbatim>\<open>internal/persistence\<close>). Every two seconds its control loop
  (\<^verbatim>\<open>internal/control\<close>) reads the publishers from the edge, asks the agent of the media node for a heartbeat, and brings
  the workers in line with the database: it starts, reconfigures, restarts and removes them through the agent
  (\<^verbatim>\<open>internal/node\<close>), which runs them in a container runtime (\<^verbatim>\<open>internal/runtime\<close>). A worker loads its configuration from
  its environment (\<^verbatim>\<open>internal/config\<close>), runs a media pipeline, retries failed outputs and reports its state
  (\<^verbatim>\<open>internal/worker\<close>), and reaches its outputs through a relay that refuses private addresses (\<^verbatim>\<open>internal/netpolicy\<close>). The
  owner signs in with a password and a second factor and authorizes updates (\<^verbatim>\<open>internal/application\<close>, \<^verbatim>\<open>internal/auth\<close>);
  updates are signed releases (\<^verbatim>\<open>internal/release\<close>), and a maintenance fence (\<^verbatim>\<open>internal/maintenance\<close>) stops mutations
  while the host works on the installation. \<^verbatim>\<open>internal/scheduler\<close>, \<^verbatim>\<open>internal/ingest\<close> and \<^verbatim>\<open>internal/sessions\<close> hold the
  in-memory placement store and the in-memory session lifecycle.

  \<^bold>\<open>The theories.\<close>
  \<^item> \<open>Relay_Prelude\<close>, \<open>Go_Strings\<close>, \<open>Go_Url\<close>: 64-bit integers, times, association lists as Go maps, updates of table rows
    and the parts of the standard library that the sources use (\<^verbatim>\<open>strings\<close>, \<^verbatim>\<open>strconv\<close>, \<^verbatim>\<open>net/url\<close>), with the shared lemmas and
    the collection \<open>relay_inv\<close>.
  \<^item> \<open>Domain_Model\<close> (\<^verbatim>\<open>domain/model.go\<close>): session phases and their transitions, resource vectors, commands.
  \<^item> \<open>Scheduler_Store\<close> (\<^verbatim>\<open>scheduler/scheduler.go\<close>): nodes, reservations and leases; capacity, exclusiveness of leases and
    independence of the iteration order, for every interleaving of the operations.
  \<^item> \<open>Worker_Runtime\<close> (\<^verbatim>\<open>runtime/runtime.go\<close>, \<^verbatim>\<open>runtime/fake\<close>) states the contract of a runtime as the locale that
    \<open>Node_Agent\<close> relies on, and shows that the in-memory runtime satisfies it.
  \<^item> \<open>Node_Agent\<close> (\<^verbatim>\<open>node/agent.go\<close>): every handler, the fence file and its faults; stale commands have no effect across
    restarts, and the node is never overcommitted.
  \<^item> \<open>Worker_Retry\<close>, \<open>Worker_Status\<close>, \<open>Worker_Service\<close> (\<^verbatim>\<open>worker/*.go\<close>): back-off, the status folded from events, and the event
    loop as a step relation; retries are bounded and not lost, the stop is reported once.
  \<^item> \<open>Relay_Database\<close>, \<open>Session_Store\<close> (\<^verbatim>\<open>persistence/store.go\<close>, \<^verbatim>\<open>stop.go\<close>, parts of \<^verbatim>\<open>sqlite.go\<close>): the tables, the transactions of
    the store and the invariant that they keep.
  \<^item> \<open>Ingest_Lifecycle\<close> (\<^verbatim>\<open>ingest/lifecycle.go\<close>, \<^verbatim>\<open>sessions/reconciler.go\<close>): sessions and their grace period in memory.
  \<^item> \<open>Media_Config\<close> (\<^verbatim>\<open>config/*.go\<close>): the configuration of a worker, its defaults, its checks and the location of an output.
  \<^item> \<open>Control_Statements\<close>, \<open>Control_Loop\<close>, \<open>Control_Pass\<close> (\<^verbatim>\<open>control/controller.go\<close>, \<^verbatim>\<open>resources.go\<close>): the transactions of the control
    loop, the reconciliation of a session and a whole pass. The agent is an arbitrary function with an arbitrary state,
    which may fail to answer after it acted. \<open>runs L P m Q\<close> is a Hoare triple with a log of the requests; the locale
    \<open>session_transactions\<close> collects what a reconciliation needs of a predicate on the database, and its interpretation
    gives the invariant, the budget and the frame of a pass at once.
  \<^item> \<open>Control_Edge\<close>, \<open>Control_Liveness\<close>: what a pass takes from the edge, and that a worker that keeps crashing ends as failed.
  \<^item> \<open>Worker_Files\<close> (\<^verbatim>\<open>runtime/workerio/io.go\<close>), \<open>Worker_Launch\<close>: the archive of files handed to a worker and the names that it accepts,
    and the composition with the control loop and the configuration: a worker loads what the control loop launched.
  \<^item> \<open>Docker_Runtime\<close> (\<^verbatim>\<open>runtime/docker/docker.go\<close>): the runtime over an arbitrary Docker client, with a log of every call; what is executed is
    confined to the container it is asked about, newer containers are kept, and failed starts are cleaned up.
  \<^item> \<open>Media_Pipeline\<close> (\<^verbatim>\<open>pipeline/*.go\<close>): the plan of a pipeline, the branches of the running one, and the selection of source, slate or black; plans are
    valid graphs with isolated outputs, and a change does not touch the outputs that stay. \<open>Worker_Program\<close> (\<^verbatim>\<open>cmd/stream-worker\<close>, \<^verbatim>\<open>telemetry/redact.go\<close>)
    composes it with the relay of \<open>Net_Policy\<close> and the configuration: every output streams through its own listener, and the log has no secrets.
  \<^item> \<open>Maintenance_Gate\<close> (\<^verbatim>\<open>maintenance/gate.go\<close>): the two system calls of an admission interleaved with the host.
  \<^item> \<open>Auth_Primitives\<close> (\<^verbatim>\<open>auth/*.go\<close>), \<open>Owner_Auth\<close> (\<^verbatim>\<open>application/mfa.go\<close>, \<^verbatim>\<open>users.go\<close>, \<^verbatim>\<open>update_authorization.go\<close>, \<^verbatim>\<open>updates.go\<close>):
    one-time passwords, keys and tokens, and the transactions of signing in, enrollment, recovery and updates.
  \<^item> \<open>Request_Limits\<close> (\<^verbatim>\<open>application/security.go\<close>): the address of a client behind proxies and the counters of attempts; within any
    window at most twice the maximum is admitted. \<open>Edge_Gateway\<close> (\<^verbatim>\<open>application/api.go\<close>) composes them with the maintenance fence, the tokens
    and keys and the session store into the answers to the edge; a read token works exactly for the start it was made for.
  \<^item> \<open>Envelope_Crypto\<close> (\<^verbatim>\<open>crypto/*.go\<close>): sealed secrets and the providers of their keys. The locale \<open>key_provider\<close> states the contract of the
    interface as an abstract map of fixed keys that only grows; both providers satisfy it. \<open>Output_Settings\<close> (\<^verbatim>\<open>application/outputs.go\<close>): the edits
    of outputs as transactions, with quota, generations and the sealing of their secrets. \<open>Source_Settings\<close> (\<^verbatim>\<open>application/source.go\<close>): the source
    and its ingest key, shown and accepted until a rotation. \<open>Broadcast_Settings\<close> (\<^verbatim>\<open>application/slate.go\<close>, \<^verbatim>\<open>media.go\<close>, \<^verbatim>\<open>fallback.go\<close>): the three forms of
    a source; the locale \<open>versioned_setting\<close> states the discipline of generations that they share.
  \<^item> \<open>Relay_Api\<close> (\<^verbatim>\<open>application/api.go\<close>, \<^verbatim>\<open>users.go\<close>, \<^verbatim>\<open>source.go\<close>, \<^verbatim>\<open>updates.go\<close>): the routes of the application and their guards over all of the state
    above; every change is authorized, and updates are only authorized while nothing is broadcast.
  \<^item> \<open>Mp4_Fallback\<close> (\<^verbatim>\<open>application/fallback.go\<close>): the validation of an uploaded clip on its bytes.
  \<^item> \<open>Release_Manifest\<close> (\<^verbatim>\<open>release/manifest.go\<close>, \<^verbatim>\<open>cmd/release-tool\<close>): decoding and verification of a release manifest.
  \<^item> \<open>Release_Bundle\<close> (\<^verbatim>\<open>release/bundle.go\<close>): the staging of an untrusted archive into a new directory.
  \<^item> \<open>Net_Policy\<close> (\<^verbatim>\<open>netpolicy/*.go\<close>): the address filter, and the relay with its listeners.

  \<^bold>\<open>Conventions.\<close> Structs are records, methods are functions that return the updated state, errors are values. Integers are
  mathematical integers with the wrap-around of \<^verbatim>\<open>int64\<close> and \<^verbatim>\<open>uint64\<close> written out where a computation can leave the range.
  Randomness, clocks, identifiers and the iteration order of maps are arguments. Cryptography, JSON codecs, DNS, HTTP and the
  Docker and GStreamer bindings are arguments as well, with their documented behaviour as hypotheses where a property needs it.

  \<^bold>\<open>Bounds and fuel.\<close> The walk over JSON tokens and the walk over MP4 boxes have fuel that their theorems show to be enough. The
  poll of the edge has no bound of its own: the context of the pass ends it, so the number of pages that fit into the context is an
  argument and running out of it is the error that the code reports. All other loops are structural recursion.

  \<^bold>\<open>Not modelled.\<close> The Docker client and the GStreamer library themselves with the textual descriptions of the pipelines, the JSON views
  of the application, the schema migrations and the driver of the database, the client of the host updater, and the wiring of the other programs: these are calls to services and
  libraries that are not part of the repository, or code whose results the modelled components accept as arbitrary input.
\<close>

end
